(* ===== verification/Prelude.thy ===== *)
theory Prelude
  imports Main "HOL-Library.Word" "HOL-Library.Char_ord" "HOL-Library.List_Lexorder"
    "HOL-Library.Product_Lexorder" "HOL-Library.Option_ord" "HOL-Library.Monad_Syntax"
begin

text \<open>
  What every component of the development shares. The standard containers of the Rust
  sources are modelled here: \<open>BTreeMap\<close> and \<open>BTreeSet\<close> as key-sorted lists, so that the
  iteration order the code depends on (message order, \<open>first_entry\<close>, range scans) is part
  of the model and every operation computes. The interface of the map is the locale
  \<open>ordered_map\<close>, interpreted on the sorted lists. A \<open>Result\<close> that may also panic is the
  datatype \<open>outcome\<close>; code that can only panic returns an \<open>option\<close>, where \<open>None\<close> is the
  panic. Both build profiles of \<open>Cargo.toml\<close> keep debug assertions, so a failed
  \<open>debug_assert\<close> panics. Overflow checks are on in the development profile only, and this
  build is modelled: an arithmetic overflow is a panic, and the checked operations on
  \<open>i32\<close>, \<open>u32\<close>, \<open>u64\<close> and \<open>u128\<close> below say so. In the release profile sums, differences and
  products wrap around instead; without an overflow the two builds do the same.
\<close>

named_theorems bm_simps \<open>rewriting of lookups in ordered maps\<close>
named_theorems bm_wf_intros \<open>operations that keep an ordered map sorted\<close>

section \<open>Results and panics\<close>

datatype ('e, 'a) outcome = Ok 'a | Err 'e | Panic

fun obind :: "('e, 'a) outcome \<Rightarrow> ('a \<Rightarrow> ('e, 'b) outcome) \<Rightarrow> ('e, 'b) outcome" where
  "obind (Ok a) f = f a"
| "obind (Err e) f = Err e"
| "obind Panic f = Panic"

lemma obind_eq_Ok [simp]: "obind m f = Ok b \<longleftrightarrow> (\<exists>a. m = Ok a \<and> f a = Ok b)"
  by (cases m) auto

lemma obind_assoc: "obind (obind m f) g = obind m (\<lambda>a. obind (f a) g)"
  by (cases m) auto

lemma obind_cong [fundef_cong]:
  "m = m' \<Longrightarrow> (\<And>a. m' = Ok a \<Longrightarrow> f a = f' a) \<Longrightarrow> obind m f = obind m' f'"
  by (cases m') auto

section \<open>Checked machine arithmetic\<close>

definition i32_ok :: "int \<Rightarrow> bool" where
  "i32_ok x \<longleftrightarrow> - (2 ^ 31) \<le> x \<and> x < 2 ^ 31"

definition i32_checked :: "int \<Rightarrow> int option" where
  "i32_checked x = (if i32_ok x then Some x else None)"

definition unat_checked :: "nat \<Rightarrow> nat \<Rightarrow> nat option" where
  "unat_checked w x = (if x < 2 ^ w then Some x else None)"

text \<open>Rust's integer division and remainder truncate towards zero.\<close>

definition tdiv :: "int \<Rightarrow> int \<Rightarrow> int" where
  "tdiv a b = sgn a * sgn b * (\<bar>a\<bar> div \<bar>b\<bar>)"

definition trem :: "int \<Rightarrow> int \<Rightarrow> int" where
  "trem a b = a - tdiv a b * b"

lemma i32_checked_Some [simp]: "i32_checked x = Some y \<longleftrightarrow> y = x \<and> i32_ok x"
  by (auto simp: i32_checked_def)

lemma unat_checked_Some [simp]: "unat_checked w x = Some y \<longleftrightarrow> y = x \<and> x < 2 ^ w"
  by (auto simp: unat_checked_def)

lemma abs_tdiv: "\<bar>tdiv a b\<bar> = \<bar>a\<bar> div \<bar>b\<bar>"
proof -
  have "0 \<le> \<bar>a\<bar> div \<bar>b\<bar>"
    by (cases "b = 0") (simp_all add: pos_imp_zdiv_nonneg_iff)
  then show ?thesis
    by (cases "a = 0"; cases "b = 0") (simp_all add: tdiv_def abs_mult abs_sgn_eq)
qed

lemma abs_tdiv_le: "\<bar>tdiv a b\<bar> \<le> \<bar>a\<bar>"
proof (cases "b = 0")
  case True
  then show ?thesis by (simp add: tdiv_def)
next
  case False
  then have "1 \<le> \<bar>b\<bar>" by linarith
  then have "\<bar>a\<bar> div \<bar>b\<bar> \<le> \<bar>a\<bar> div 1"
    by (intro zdiv_mono2) auto
  then show ?thesis by (simp add: abs_tdiv)
qed

lemma tdiv_overflow_iff:
  assumes "i32_ok a" and "i32_ok b" and "b \<noteq> 0"
  shows "i32_ok (tdiv a b) \<longleftrightarrow> \<not> (a = - (2 ^ 31) \<and> b = - 1)"
proof (cases "a = - (2 ^ 31)")
  case True
  show ?thesis
  proof (cases "b = - 1 \<or> b = 1")
    case True
    with \<open>a = - (2 ^ 31)\<close> show ?thesis by (auto simp: tdiv_def i32_ok_def)
  next
    case False
    with assms(3) have "2 \<le> \<bar>b\<bar>" by linarith
    then have "\<bar>a\<bar> div \<bar>b\<bar> \<le> \<bar>a\<bar> div 2" by (intro zdiv_mono2) auto
    then have "\<bar>tdiv a b\<bar> \<le> 2 ^ 30" by (simp add: abs_tdiv True)
    then have "i32_ok (tdiv a b)" by (auto simp: i32_ok_def)
    with False show ?thesis by simp
  qed
next
  case False
  with assms(1) have "\<bar>a\<bar> < 2 ^ 31" by (auto simp: i32_ok_def)
  with abs_tdiv_le [of a b] have "\<bar>tdiv a b\<bar> < 2 ^ 31" by linarith
  then have "i32_ok (tdiv a b)" by (auto simp: i32_ok_def)
  with False show ?thesis by simp
qed

section \<open>Ordered maps: the interface\<close>

text \<open>
  What the clients of \<open>BTreeMap\<close> rely on: lookups after an insertion or a removal, the keys
  in ascending order, and that a map is determined by its lookups (derived equality).
\<close>

locale ordered_map =
  fixes emp :: "'m"
    and get :: "'m \<Rightarrow> 'k::linorder \<Rightarrow> 'v option"
    and ins :: "'k \<Rightarrow> 'v \<Rightarrow> 'm \<Rightarrow> 'm"
    and rem :: "'k \<Rightarrow> 'm \<Rightarrow> 'm"
    and ents :: "'m \<Rightarrow> ('k \<times> 'v) list"
    and wf :: "'m \<Rightarrow> bool"
  assumes get_emp: "get emp k = None"
    and get_ins: "get (ins k v m) k' = (if k' = k then Some v else get m k')"
    and get_rem: "get (rem k m) k' = (if k' = k then None else get m k')"
    and wf_emp: "wf emp"
    and wf_ins: "wf m \<Longrightarrow> wf (ins k v m)"
    and wf_rem: "wf m \<Longrightarrow> wf (rem k m)"
    and ents_sorted: "wf m \<Longrightarrow> sorted_wrt (<) (map fst (ents m))"
    and ents_get: "wf m \<Longrightarrow> (k, v) \<in> set (ents m) \<longleftrightarrow> get m k = Some v"
    and canonical: "wf m \<Longrightarrow> wf m' \<Longrightarrow> (\<And>k. get m k = get m' k) \<Longrightarrow> m = m'"
begin

lemma ins_ins: "wf m \<Longrightarrow> ins k v (ins k w m) = ins k v m"
  by (rule canonical) (simp_all add: wf_ins get_ins)

lemma ins_commute: "wf m \<Longrightarrow> k \<noteq> k' \<Longrightarrow> ins k v (ins k' v' m) = ins k' v' (ins k v m)"
  by (rule canonical) (simp_all add: wf_ins get_ins)

lemma rem_ins: "wf m \<Longrightarrow> get m k = None \<Longrightarrow> rem k (ins k v m) = m"
  by (rule canonical) (simp_all add: wf_ins wf_rem get_ins get_rem)

lemma ins_get: "wf m \<Longrightarrow> get m k = Some v \<Longrightarrow> ins k v m = m"
  by (rule canonical) (simp_all add: wf_ins get_ins)

lemma ins_rem: "wf m \<Longrightarrow> ins k v (rem k m) = ins k v m"
  by (rule canonical) (simp_all add: wf_ins wf_rem get_ins get_rem)

lemma rem_absent: "wf m \<Longrightarrow> get m k = None \<Longrightarrow> rem k m = m"
  by (rule canonical) (simp_all add: wf_rem get_rem)

lemma get_fold_ins:
  "get (fold (\<lambda>(k, v). ins k v) es m) k =
     (case map_of (rev es) k of Some v \<Rightarrow> Some v | None \<Rightarrow> get m k)"
  by (induction es arbitrary: m) (auto simp: get_ins map_add_def split: option.splits)

lemma wf_fold_ins: "wf m \<Longrightarrow> wf (fold (\<lambda>(k, v). ins k v) es m)"
  by (induction es arbitrary: m) (auto simp: wf_ins)

end

section \<open>Ordered maps: sorted lists\<close>

type_synonym ('k, 'v) btree = "('k \<times> 'v) list"

abbreviation bm_get :: "('k, 'v) btree \<Rightarrow> 'k \<Rightarrow> 'v option" where
  "bm_get m k \<equiv> map_of m k"

fun bm_insert :: "'k::linorder \<Rightarrow> 'v \<Rightarrow> ('k, 'v) btree \<Rightarrow> ('k, 'v) btree" where
  "bm_insert k v [] = [(k, v)]"
| "bm_insert k v (e # m) =
     (if fst e < k then e # bm_insert k v m
      else if fst e = k then (k, v) # m
      else (k, v) # e # m)"

text \<open>An update in place, through \<open>get_mut\<close>.\<close>

fun bm_modify :: "'k \<Rightarrow> ('v \<Rightarrow> 'v) \<Rightarrow> ('k, 'v) btree \<Rightarrow> ('k, 'v) btree" where
  "bm_modify k f [] = []"
| "bm_modify k f (e # m) = (if fst e = k then (k, f (snd e)) # m else e # bm_modify k f m)"

definition bm_remove :: "'k \<Rightarrow> ('k, 'v) btree \<Rightarrow> ('k, 'v) btree" where
  "bm_remove k m = filter (\<lambda>e. fst e \<noteq> k) m"

definition bm_contains :: "('k, 'v) btree \<Rightarrow> 'k \<Rightarrow> bool" where
  "bm_contains m k \<longleftrightarrow> bm_get m k \<noteq> None"

definition bm_keys :: "('k, 'v) btree \<Rightarrow> 'k list" where
  "bm_keys m = map fst m"

definition bm_wf :: "('k::linorder, 'v) btree \<Rightarrow> bool" where
  "bm_wf m \<longleftrightarrow> sorted_wrt (<) (map fst m)"

definition bm_map_values :: "('v \<Rightarrow> 'w) \<Rightarrow> ('k, 'v) btree \<Rightarrow> ('k, 'w) btree" where
  "bm_map_values f m = map (\<lambda>(k, v). (k, f v)) m"

text \<open>\<open>range((Included lo, Unbounded))\<close>, \<open>range((.., Excluded hi))\<close>.\<close>

definition bm_from :: "'k::linorder \<Rightarrow> ('k, 'v) btree \<Rightarrow> ('k, 'v) btree" where
  "bm_from lo m = filter (\<lambda>e. lo \<le> fst e) m"

definition bm_below :: "'k::linorder \<Rightarrow> ('k, 'v) btree \<Rightarrow> ('k, 'v) btree" where
  "bm_below hi m = filter (\<lambda>e. fst e < hi) m"

definition bm_of_list :: "('k::linorder \<times> 'v) list \<Rightarrow> ('k, 'v) btree" where
  "bm_of_list es = fold (\<lambda>(k, v). bm_insert k v) es []"

lemma bm_get_insert [simp, bm_simps]:
  "bm_get (bm_insert k v m) k' = (if k' = k then Some v else bm_get m k')"
  by (induction m) auto

lemma bm_get_modify [simp, bm_simps]:
  "bm_get (bm_modify k f m) k' = (if k' = k then map_option f (bm_get m k) else bm_get m k')"
  by (induction m) auto

lemma bm_keys_modify [simp]: "map fst (bm_modify k f m) = map fst m"
  by (induction m) auto

lemma bm_get_remove [simp, bm_simps]:
  "bm_get (bm_remove k m) k' = (if k' = k then None else bm_get m k')"
  by (induction m) (auto simp: bm_remove_def)

lemma bm_get_from [simp, bm_simps]:
  "bm_get (bm_from lo m) k = (if lo \<le> k then bm_get m k else None)"
  by (induction m) (auto simp: bm_from_def)

lemma bm_get_below [simp, bm_simps]:
  "bm_get (bm_below hi m) k = (if k < hi then bm_get m k else None)"
  by (induction m) (auto simp: bm_below_def)

lemma bm_get_map_values [simp, bm_simps]:
  "bm_get (bm_map_values f m) k = map_option f (bm_get m k)"
  by (induction m) (auto simp: bm_map_values_def)

lemma bm_keys_map_values [simp]: "map fst (bm_map_values f m) = map fst m"
  by (induction m) (auto simp: bm_map_values_def)

lemma set_keys_insert [simp]: "fst ` set (bm_insert k v m) = insert k (fst ` set m)"
  by (induction m) auto

lemma set_keys_remove [simp]: "fst ` set (bm_remove k m) = fst ` set m - {k}"
  by (auto simp: bm_remove_def)

lemma bm_wf_Nil [simp, bm_wf_intros]: "bm_wf []"
  by (simp add: bm_wf_def)

lemma bm_wf_Cons [simp]: "bm_wf (e # m) \<longleftrightarrow> (\<forall>x \<in> fst ` set m. fst e < x) \<and> bm_wf m"
  by (auto simp: bm_wf_def)

lemma bm_wf_insert [simp, bm_wf_intros]: "bm_wf m \<Longrightarrow> bm_wf (bm_insert k v m)"
  by (induction m) (auto simp del: image_iff)

lemma bm_wf_modify [simp, bm_wf_intros]: "bm_wf (bm_modify k f m) = bm_wf m"
  by (simp add: bm_wf_def)

lemma bm_wf_filter [simp, bm_wf_intros]: "bm_wf m \<Longrightarrow> bm_wf (filter P m)"
  by (induction m) auto

lemma bm_wf_remove [simp, bm_wf_intros]: "bm_wf m \<Longrightarrow> bm_wf (bm_remove k m)"
  by (simp add: bm_remove_def)

lemma bm_wf_map_values [simp, bm_wf_intros]: "bm_wf (bm_map_values f m) = bm_wf m"
  by (simp add: bm_wf_def)

lemma bm_wf_from [simp, bm_wf_intros]: "bm_wf m \<Longrightarrow> bm_wf (bm_from k m)"
  by (simp add: bm_from_def)

lemma bm_wf_below [simp, bm_wf_intros]: "bm_wf m \<Longrightarrow> bm_wf (bm_below k m)"
  by (simp add: bm_below_def)

lemma bm_wf_distinct: "bm_wf m \<Longrightarrow> distinct (map fst m)"
  by (auto simp: bm_wf_def dest: strict_sorted_imp_sorted intro: strict_sorted_iff [THEN iffD1, THEN conjunct2])

lemma bm_get_set: "bm_wf m \<Longrightarrow> (k, v) \<in> set m \<longleftrightarrow> bm_get m k = Some v"
  by (auto intro: map_of_is_SomeI bm_wf_distinct dest: map_of_SomeD)

lemma bm_get_None: "bm_get m k = None \<longleftrightarrow> k \<notin> fst ` set m"
  by (simp add: map_of_eq_None_iff)

lemma bm_contains_iff [simp]: "bm_contains m k \<longleftrightarrow> k \<in> fst ` set m"
  by (simp add: bm_contains_def bm_get_None)

text \<open>Two sorted lists with the same lookups are the same list.\<close>

lemma bm_canonical:
  assumes "bm_wf m" and "bm_wf m'" and "\<And>k. bm_get m k = bm_get m' k"
  shows "m = m'"
  using assms
proof (induction m arbitrary: m')
  case Nil
  then show ?case by (cases m') (auto split: if_splits, metis option.distinct(1))
next
  case (Cons e m)
  obtain k v where e: "e = (k, v)" by fastforce
  from Cons.prems(3) [of k] have "bm_get m' k = Some v" by (simp add: e)
  then obtain e' m'' where m': "m' = e' # m''" by (cases m') auto
  obtain k' v' where e': "e' = (k', v')" by fastforce
  have low: "\<forall>x \<in> fst ` set m. k < x" and low': "\<forall>x \<in> fst ` set m''. k' < x"
    using Cons.prems(1,2) by (auto simp: e m' e')
  have "\<not> k' < k"
  proof
    assume less: "k' < k"
    then have "bm_get m k' = None" using low by (auto simp: bm_get_None dest: less_asym)
    with less Cons.prems(3) [of k'] show False by (auto simp: e m' e' split: if_splits)
  qed
  moreover have "\<not> k < k'"
  proof
    assume less: "k < k'"
    then have "bm_get m'' k = None" using low' by (auto simp: bm_get_None dest: less_asym)
    with less Cons.prems(3) [of k] show False by (auto simp: e m' e' split: if_splits)
  qed
  ultimately have k: "k' = k" by simp
  with Cons.prems(3) [of k] have v: "v' = v" by (simp add: e m' e')
  have "bm_get m x = bm_get m'' x" for x
  proof (cases "x = k")
    case True
    with low low' k have "x \<notin> fst ` set m" "x \<notin> fst ` set m''" by auto
    then show ?thesis by (simp add: bm_get_None [symmetric])
  next
    case False
    with Cons.prems(3) [of x] show ?thesis by (simp add: e m' e' k)
  qed
  then have "m = m''" using Cons.prems(1,2) by (intro Cons.IH) (auto simp: m')
  then show ?case by (simp add: e m' e' k v)
qed

interpretation bm: ordered_map "[]" map_of bm_insert bm_remove "\<lambda>m. m" bm_wf
proof unfold_locales
  fix m m' :: "('a, 'b) btree"
  assume "bm_wf m" and "bm_wf m'" and "\<And>k. bm_get m k = bm_get m' k"
  then show "m = m'" by (rule bm_canonical)
qed (simp_all add: bm_get_set bm_wf_def [symmetric])

lemma bm_get_of_list: "bm_get (bm_of_list es) k = bm_get (rev es) k"
  by (simp add: bm_of_list_def bm.get_fold_ins split: option.splits)

lemma bm_wf_of_list [simp, bm_wf_intros]: "bm_wf (bm_of_list es)"
  by (simp add: bm_of_list_def bm.wf_fold_ins)

section \<open>Ordered sets\<close>

type_synonym 'a bset = "'a list"

fun bs_insert :: "'a::linorder \<Rightarrow> 'a bset \<Rightarrow> 'a bset" where
  "bs_insert x [] = [x]"
| "bs_insert x (y # ys) =
     (if y < x then y # bs_insert x ys else if y = x then y # ys else x # y # ys)"

definition bs_remove :: "'a \<Rightarrow> 'a bset \<Rightarrow> 'a bset" where
  "bs_remove x s = filter (\<lambda>y. y \<noteq> x) s"

abbreviation bs_wf :: "'a::linorder bset \<Rightarrow> bool" where
  "bs_wf s \<equiv> sorted_wrt (<) s"

lemma set_bs_insert [simp]: "set (bs_insert x s) = insert x (set s)"
  by (induction s) auto

lemma set_bs_remove [simp]: "set (bs_remove x s) = set s - {x}"
  by (auto simp: bs_remove_def)

lemma bs_wf_insert [simp, bm_wf_intros]: "bs_wf s \<Longrightarrow> bs_wf (bs_insert x s)"
  by (induction s) auto

lemma bs_wf_remove [simp, bm_wf_intros]: "bs_wf s \<Longrightarrow> bs_wf (bs_remove x s)"
  by (simp add: bs_remove_def sorted_wrt_filter)

section \<open>Vectors\<close>

text \<open>Searching a vector from its end, as the version lists are searched.\<close>

definition rfind :: "('a \<Rightarrow> bool) \<Rightarrow> 'a list \<Rightarrow> 'a option" where
  "rfind P xs = find P (rev xs)"

lemma rfind_Nil [simp]: "rfind P [] = None"
  by (simp add: rfind_def)

lemma rfind_snoc [simp]: "rfind P (xs @ [x]) = (if P x then Some x else rfind P xs)"
  by (simp add: rfind_def)

lemma rfind_append: "rfind P (xs @ ys) = (case rfind P ys of Some y \<Rightarrow> Some y | None \<Rightarrow> rfind P xs)"
  by (induction ys rule: rev_induct) (simp_all flip: append_assoc)

lemma rfind_Cons: "rfind P (x # xs) =
    (case rfind P xs of Some y \<Rightarrow> Some y | None \<Rightarrow> if P x then Some x else None)"
  using rfind_append [of P "[x]" xs] rfind_snoc [of P "[]" x] by (simp split: option.splits)

lemma rfind_SomeD: "rfind P xs = Some x \<Longrightarrow> x \<in> set xs \<and> P x"
  by (induction xs rule: rev_induct) (auto split: if_splits)

lemma rfind_None_iff: "rfind P xs = None \<longleftrightarrow> (\<forall>x \<in> set xs. \<not> P x)"
  by (auto simp: rfind_def find_None_iff)

end
