(* ===== verification/Common.thy ===== *)
theory Common
  imports Prelude
begin

text \<open>
  The shared data types and utilities of \<open>src/src/common.rs\<close>: column values and their
  derived orders, timestamps, identifiers, key bounds and regions, the vector and map
  helpers, table views, versioned values. A newtype around \<open>String\<close> and a struct with a
  single vector field are type synonyms; the derived \<open>Ord\<close> of a type is its instance of
  \<open>linorder\<close>. \<open>Gen\<close> counts updates one at a time and is a \<open>nat\<close>, as are the \<open>u64\<close>
  row multiplicities.
\<close>

section \<open>Identifiers\<close>

type_synonym table_path = string
type_synonym trans_table_name = string
type_synonym col_name = string
type_synonym tablet_group_id = string
type_synonym query_id = string
type_synonym slave_group_id = string
type_synonym coord_group_id = string
type_synonym request_id = string
type_synonym uuid = string
type_synonym gen = nat
type_synonym sharding_gen = gen

definition gen_next :: "gen \<Rightarrow> gen" where
  "gen_next g = g + 1"

datatype internal_mode = Internal | External (salt: string)

datatype endpoint_id = EndpointId (ip: string) (mode: internal_mode)

fun mode_rank :: "internal_mode \<Rightarrow> string option" where
  "mode_rank Internal = None"
| "mode_rank (External s) = Some s"

definition eid_rank :: "endpoint_id \<Rightarrow> string \<times> string option" where
  "eid_rank e = (ip e, mode_rank (mode e))"

lemma mode_rank_inj: "mode_rank a = mode_rank b \<Longrightarrow> a = b"
  by (cases a; cases b) auto

lemma eid_rank_inj: "eid_rank a = eid_rank b \<Longrightarrow> a = b"
  by (cases a; cases b) (auto simp: eid_rank_def dest: mode_rank_inj)

instantiation endpoint_id :: linorder
begin

definition less_eq_endpoint_id :: "endpoint_id \<Rightarrow> endpoint_id \<Rightarrow> bool" where
  "a \<le> b \<longleftrightarrow> eid_rank a \<le> eid_rank b"

definition less_endpoint_id :: "endpoint_id \<Rightarrow> endpoint_id \<Rightarrow> bool" where
  "a < b \<longleftrightarrow> eid_rank a < eid_rank b"

instance
  by standard (auto simp: less_eq_endpoint_id_def less_endpoint_id_def intro: eid_rank_inj)

end

datatype paxos_group_id = MasterGid | SlaveGid slave_group_id

fun gid_rank :: "paxos_group_id \<Rightarrow> slave_group_id option" where
  "gid_rank MasterGid = None"
| "gid_rank (SlaveGid sid) = Some sid"

lemma gid_rank_inj: "gid_rank a = gid_rank b \<Longrightarrow> a = b"
  by (cases a; cases b) auto

instantiation paxos_group_id :: linorder
begin

definition less_eq_paxos_group_id :: "paxos_group_id \<Rightarrow> paxos_group_id \<Rightarrow> bool" where
  "a \<le> b \<longleftrightarrow> gid_rank a \<le> gid_rank b"

definition less_paxos_group_id :: "paxos_group_id \<Rightarrow> paxos_group_id \<Rightarrow> bool" where
  "a < b \<longleftrightarrow> gid_rank a < gid_rank b"

instance
  by standard (auto simp: less_eq_paxos_group_id_def less_paxos_group_id_def intro: gid_rank_inj)

end

record leadership_id =
  lid_gen :: gen
  lid_eid :: endpoint_id

definition mk_first :: "endpoint_id \<Rightarrow> leadership_id" where
  "mk_first eid = \<lparr>lid_gen = 0, lid_eid = eid\<rparr>"

section \<open>Column values\<close>

datatype col_type = CT_Int | CT_Bool | CT_String

datatype col_val = CV_Int int | CV_Bool bool | CV_String string

type_synonym col_valn = "col_val option"
type_synonym primary_key = "col_val list"

text \<open>The derived order compares the variants first, in their order of declaration.\<close>

fun col_val_le :: "col_val \<Rightarrow> col_val \<Rightarrow> bool" where
  "col_val_le (CV_Int a) (CV_Int b) = (a \<le> b)"
| "col_val_le (CV_Int _) _ = True"
| "col_val_le (CV_Bool _) (CV_Int _) = False"
| "col_val_le (CV_Bool a) (CV_Bool b) = (a \<le> b)"
| "col_val_le (CV_Bool _) (CV_String _) = True"
| "col_val_le (CV_String a) (CV_String b) = (a \<le> b)"
| "col_val_le (CV_String _) _ = False"

instantiation col_val :: linorder
begin

definition less_eq_col_val :: "col_val \<Rightarrow> col_val \<Rightarrow> bool" where
  "a \<le> b \<longleftrightarrow> col_val_le a b"

definition less_col_val :: "col_val \<Rightarrow> col_val \<Rightarrow> bool" where
  "a < b \<longleftrightarrow> col_val_le a b \<and> \<not> col_val_le b a"

instance
proof
  fix x y z :: col_val
  show "x < y \<longleftrightarrow> x \<le> y \<and> \<not> y \<le> x"
    by (simp add: less_eq_col_val_def less_col_val_def)
  show "x \<le> x" by (cases x) (auto simp: less_eq_col_val_def)
  show "x \<le> y \<or> y \<le> x" by (cases x; cases y) (auto simp: less_eq_col_val_def)
  show "x \<le> y \<Longrightarrow> y \<le> x \<Longrightarrow> x = y"
    by (cases x; cases y) (auto simp: less_eq_col_val_def)
  show "x \<le> y \<Longrightarrow> y \<le> z \<Longrightarrow> x \<le> z"
    by (cases x; cases y; cases z) (auto simp: less_eq_col_val_def)
qed

end

lemma col_val_order_simps [simp]:
  "CV_Int a \<le> CV_Int b \<longleftrightarrow> a \<le> b" "CV_Int a < CV_Int b \<longleftrightarrow> a < b"
  "CV_Bool c \<le> CV_Bool d \<longleftrightarrow> c \<le> d" "CV_Bool c < CV_Bool d \<longleftrightarrow> c < d"
  "CV_String s \<le> CV_String t \<longleftrightarrow> s \<le> t" "CV_String s < CV_String t \<longleftrightarrow> s < t"
  by (auto simp: less_eq_col_val_def less_col_val_def)

section \<open>Key bounds and regions\<close>

datatype 't single_bound = Included 't | Excluded 't | Unbounded

record 't col_bound =
  cb_start :: "'t single_bound"
  cb_end :: "'t single_bound"

definition mk_col_bound :: "'t single_bound \<Rightarrow> 't single_bound \<Rightarrow> 't col_bound" where
  "mk_col_bound s e = \<lparr>cb_start = s, cb_end = e\<rparr>"

datatype poly_col_bound =
    PCB_Int "int col_bound"
  | PCB_String "string col_bound"
  | PCB_Bool "bool col_bound"

type_synonym key_bound = "poly_col_bound list"

record read_region =
  rr_row_region :: "key_bound list"
  rr_val_col_region :: "col_name list"

record write_region =
  wr_row_region :: "key_bound list"
  wr_presence :: bool
  wr_val_col_region :: "col_name list"

text \<open>The trait \<open>BoundType\<close> as the record of its methods, with its three implementations.\<close>

record 't bound_type =
  col_val_cast :: "col_val \<Rightarrow> 't option"
  from_poly :: "poly_col_bound \<Rightarrow> 't col_bound option"
  to_poly :: "'t col_bound \<Rightarrow> poly_col_bound"

definition col_valn_cast :: "'t bound_type \<Rightarrow> col_valn \<Rightarrow> 't option" where
  "col_valn_cast bt v = Option.bind v (col_val_cast bt)"

definition i32_bound :: "int bound_type" where
  "i32_bound = \<lparr>
     col_val_cast = (\<lambda>v. case v of CV_Int i \<Rightarrow> Some i | _ \<Rightarrow> None),
     from_poly = (\<lambda>p. case p of PCB_Int b \<Rightarrow> Some b | _ \<Rightarrow> None),
     to_poly = PCB_Int\<rparr>"

definition bool_bound :: "bool bound_type" where
  "bool_bound = \<lparr>
     col_val_cast = (\<lambda>v. case v of CV_Bool i \<Rightarrow> Some i | _ \<Rightarrow> None),
     from_poly = (\<lambda>p. case p of PCB_Bool b \<Rightarrow> Some b | _ \<Rightarrow> None),
     to_poly = PCB_Bool\<rparr>"

definition string_bound :: "string bound_type" where
  "string_bound = \<lparr>
     col_val_cast = (\<lambda>v. case v of CV_String i \<Rightarrow> Some i | _ \<Rightarrow> None),
     from_poly = (\<lambda>p. case p of PCB_String b \<Rightarrow> Some b | _ \<Rightarrow> None),
     to_poly = PCB_String\<rparr>"

section \<open>Tablet key ranges\<close>

record tablet_key_range =
  kr_start :: "col_val option"
  kr_end :: "col_val option"

definition range_contains :: "tablet_key_range \<Rightarrow> col_val \<Rightarrow> bool" where
  "range_contains r range_key =
     (if (case kr_start r of Some start_key \<Rightarrow> range_key < start_key | None \<Rightarrow> False) then False
      else if (case kr_end r of Some end_key \<Rightarrow> end_key \<le> range_key | None \<Rightarrow> False) then False
      else True)"

definition range_contains_pkey :: "tablet_key_range \<Rightarrow> primary_key \<Rightarrow> bool" where
  "range_contains_pkey r pkey =
     (case pkey of first_key # _ \<Rightarrow> range_contains r first_key | [] \<Rightarrow> True)"

definition into_col_bound :: "'t bound_type \<Rightarrow> tablet_key_range \<Rightarrow> 't col_bound option" where
  "into_col_bound bt r =
     (case (kr_start r, kr_end r) of
        (None, None) \<Rightarrow> Some (mk_col_bound Unbounded Unbounded)
      | (Some s, None) \<Rightarrow>
          do { s' \<leftarrow> col_val_cast bt s; Some (mk_col_bound (Included s') Unbounded) }
      | (None, Some e) \<Rightarrow>
          do { e' \<leftarrow> col_val_cast bt e; Some (mk_col_bound Unbounded (Excluded e')) }
      | (Some s, Some e) \<Rightarrow>
          do { s' \<leftarrow> col_val_cast bt s; e' \<leftarrow> col_val_cast bt e;
               Some (mk_col_bound (Included s') (Excluded e')) })"

section \<open>Flat maps, flat sets, multimaps\<close>

fun lookup_pos :: "('k \<times> 'v) list \<Rightarrow> 'k \<Rightarrow> nat option" where
  "lookup_pos [] key = None"
| "lookup_pos ((k, v) # assoc) key =
     (if k = key then Some 0 else map_option Suc (lookup_pos assoc key))"

definition lookup :: "('k \<times> 'v) list \<Rightarrow> 'k \<Rightarrow> 'v option" where
  "lookup assoc key = map_option snd (find (\<lambda>(k, _). k = key) assoc)"

definition add_item :: "'v list \<Rightarrow> 'v \<Rightarrow> 'v list" where
  "add_item vec item = (if item \<in> set vec then vec else vec @ [item])"

fun remove_item :: "'v list \<Rightarrow> 'v \<Rightarrow> 'v list" where
  "remove_item [] item = []"
| "remove_item (x # xs) item = (if x = item then xs else x # remove_item xs item)"

definition btree_multimap_insert ::
  "('k::linorder, 'v::linorder bset) btree \<Rightarrow> 'k \<Rightarrow> 'v \<Rightarrow> ('k, 'v bset) btree" where
  "btree_multimap_insert m key v =
     (case bm_get m key of
        Some s \<Rightarrow> bm_insert key (bs_insert v s) m
      | None \<Rightarrow> bm_insert key (bs_insert v []) m)"

definition btree_multimap_remove ::
  "('k::linorder, 'v::linorder bset) btree \<Rightarrow> 'k \<Rightarrow> 'v \<Rightarrow> ('k, 'v bset) btree" where
  "btree_multimap_remove m key v =
     (case bm_get m key of
        Some s \<Rightarrow>
          (let s' = bs_remove v s
           in if s' = [] then bm_remove key m else bm_insert key s' m)
      | None \<Rightarrow> m)"

definition read_index :: "('k, 'v) btree \<Rightarrow> nat \<Rightarrow> ('k \<times> 'v) option" where
  "read_index m idx = (if idx < length m then Some (m ! idx) else None)"

fun remove_indices_from :: "nat \<Rightarrow> 'a list \<Rightarrow> nat bset \<Rightarrow> 'a list" where
  "remove_indices_from i [] rm = []"
| "remove_indices_from i (x # xs) rm =
     (if i \<in> set rm then remove_indices_from (Suc i) xs rm
      else x # remove_indices_from (Suc i) xs rm)"

definition remove_indices :: "'a list \<Rightarrow> nat bset \<Rightarrow> 'a list" where
  "remove_indices vec rm = remove_indices_from 0 vec rm"

section \<open>Table views\<close>

text \<open>The multiplicities are \<open>u64\<close>: numbers below \<open>2 ^ 64\<close>, whose additions are checked.\<close>

type_synonym table_view = "(col_valn list, nat) btree"

definition add_row_multi :: "table_view \<Rightarrow> col_valn list \<Rightarrow> nat \<Rightarrow> table_view option" where
  "add_row_multi rows row row_count =
     (case bm_get rows row of
        Some count \<Rightarrow> do { count' \<leftarrow> unat_checked 64 (count + row_count); Some (bm_insert row count' rows) }
      | None \<Rightarrow> Some (if row_count > 0 then bm_insert row row_count rows else rows))"

definition add_row :: "table_view \<Rightarrow> col_valn list \<Rightarrow> table_view option" where
  "add_row rows row = add_row_multi rows row 1"

fun merge_view :: "table_view \<Rightarrow> table_view \<Rightarrow> table_view option" where
  "merge_view view [] = Some view"
| "merge_view view ((row, cnt) # cur_view) =
     (case bm_get view row of
        Some row_count \<Rightarrow> do { row_count' \<leftarrow> unat_checked 64 (row_count + cnt); merge_view (bm_insert row row_count' view) cur_view }
      | None \<Rightarrow> merge_view (bm_insert row cnt view) cur_view)"

fun merge_table_views_loop :: "table_view list \<Rightarrow> table_view list list \<Rightarrow> table_view list option" where
  "merge_table_views_loop views [] = Some views"
| "merge_table_views_loop views (cur_views # rest) =
     (if length cur_views = length views
      then do { views' \<leftarrow> those (map2 merge_view views cur_views); merge_table_views_loop views' rest }
      else None)"

definition merge_table_views :: "table_view list list \<Rightarrow> table_view list option" where
  "merge_table_views results =
     (case results of [] \<Rightarrow> Some [] | views # rest \<Rightarrow> merge_table_views_loop views rest)"

section \<open>Versioned values\<close>

record 'a versioned_value =
  vv_gen :: gen
  vv_value :: 'a

definition vv_new :: "'a \<Rightarrow> 'a versioned_value" where
  "vv_new x = \<lparr>vv_gen = 0, vv_value = x\<rparr>"

definition vv_set :: "'a versioned_value \<Rightarrow> 'a \<Rightarrow> 'a versioned_value" where
  "vv_set vv x = vv\<lparr>vv_gen := gen_next (vv_gen vv), vv_value := x\<rparr>"

definition vv_update :: "'a versioned_value \<Rightarrow> ('a \<Rightarrow> 'a) \<Rightarrow> 'a versioned_value" where
  "vv_update vv f = vv\<lparr>vv_value := f (vv_value vv), vv_gen := gen_next (vv_gen vv)\<rparr>"

definition update_all_eids ::
  "endpoint_id bset versioned_value \<Rightarrow> endpoint_id list \<Rightarrow> endpoint_id list
    \<Rightarrow> endpoint_id bset versioned_value" where
  "update_all_eids all_eids rem_eids new_eids =
     vv_update all_eids (\<lambda>s. fold bs_insert new_eids (fold bs_remove rem_eids s))"

section \<open>Timestamps\<close>

datatype timestamp = Timestamp (time_ms: "128 word") (suffix: "64 word")

instantiation timestamp :: linorder
begin

definition less_eq_timestamp :: "timestamp \<Rightarrow> timestamp \<Rightarrow> bool" where
  "a \<le> b \<longleftrightarrow> time_ms a < time_ms b \<or> time_ms a = time_ms b \<and> suffix a \<le> suffix b"

definition less_timestamp :: "timestamp \<Rightarrow> timestamp \<Rightarrow> bool" where
  "a < b \<longleftrightarrow> time_ms a < time_ms b \<or> time_ms a = time_ms b \<and> suffix a < suffix b"

instance
  by standard (auto simp: less_eq_timestamp_def less_timestamp_def timestamp.expand)

end

definition mk_t :: "128 word \<Rightarrow> timestamp" where
  "mk_t t = Timestamp t 0"

definition timestamp_add :: "timestamp \<Rightarrow> timestamp \<Rightarrow> timestamp option" where
  "timestamp_add self that =
     (let sum = (ucast (suffix self) :: 128 word) + ucast (suffix that);
          new_suffix = (ucast sum :: 64 word);
          borrow = (if sum > ucast (- 1 :: 64 word) then 1 else 0 :: 128 word)
      in if unat (time_ms self) + unat (time_ms that) + unat borrow < 2 ^ 128
         then Some (Timestamp (time_ms self + time_ms that + borrow) new_suffix)
         else None)"

definition cur_timestamp :: "timestamp \<Rightarrow> 64 word \<Rightarrow> 64 word \<Rightarrow> timestamp option" where
  "cur_timestamp now rnd timestamp_suffix_divisor =
     (if timestamp_suffix_divisor = 0 then None
      else Some (Timestamp (time_ms now) (rnd mod timestamp_suffix_divisor)))"


section \<open>Lemmas: flat maps, multimaps, removal\<close>

lemma lookup_map_of [simp]: "lookup assoc key = map_of assoc key"
  by (induction assoc) (auto simp: lookup_def)

lemma lookup_pos_Some:
  "lookup_pos assoc key = Some i \<Longrightarrow>
     i < length assoc \<and> fst (assoc ! i) = key \<and> lookup assoc key = Some (snd (assoc ! i))"
  by (induction assoc arbitrary: i) (auto split: if_splits)

lemma lookup_pos_None: "lookup_pos assoc key = None \<longleftrightarrow> lookup assoc key = None"
  by (induction assoc) auto

lemma lookup_pos_distinct:
  "distinct (map fst assoc) \<Longrightarrow> i < length assoc \<Longrightarrow> lookup_pos assoc (fst (assoc ! i)) = Some i"
proof (induction assoc arbitrary: i)
  case (Cons e assoc)
  then show ?case
    by (cases i; cases e) (auto simp: image_iff dest: nth_mem)
qed simp

lemma set_remove_item: "distinct xs \<Longrightarrow> set (remove_item xs x) = set xs - {x}"
  by (induction xs) auto

lemma distinct_remove_item: "distinct xs \<Longrightarrow> distinct (remove_item xs x)"
  by (induction xs) (auto simp: set_remove_item)

lemma distinct_add_item: "distinct xs \<Longrightarrow> distinct (add_item xs x)"
  by (auto simp: add_item_def)

text \<open>A multimap never keeps an empty set.\<close>

definition multimap_inv :: "('k, 'v bset) btree \<Rightarrow> bool" where
  "multimap_inv m \<longleftrightarrow> (\<forall>k s. bm_get m k = Some s \<longrightarrow> s \<noteq> [])"

definition multimap_rel :: "('k, 'v bset) btree \<Rightarrow> 'k \<Rightarrow> 'v set" where
  "multimap_rel m k = (case bm_get m k of None \<Rightarrow> {} | Some s \<Rightarrow> set s)"

lemma bs_insert_neq_Nil [simp]: "bs_insert x s \<noteq> []"
  by (cases s) auto

lemma multimap_insert_rel:
  "multimap_rel (btree_multimap_insert m k v) k' =
     (if k' = k then insert v (multimap_rel m k) else multimap_rel m k')"
  by (auto simp: multimap_rel_def btree_multimap_insert_def split: option.splits)

lemma bs_remove_Nil: "bs_remove x s = [] \<longleftrightarrow> set s \<subseteq> {x}"
  by (auto simp: bs_remove_def filter_empty_conv)

lemma multimap_remove_rel:
  "multimap_rel (btree_multimap_remove m k v) k' =
     (if k' = k then multimap_rel m k - {v} else multimap_rel m k')"
  by (auto simp: multimap_rel_def btree_multimap_remove_def Let_def bs_remove_Nil split: option.splits)

lemma multimap_inv_insert: "multimap_inv m \<Longrightarrow> multimap_inv (btree_multimap_insert m k v)"
  by (auto simp: multimap_inv_def btree_multimap_insert_def split: option.splits if_splits)

lemma multimap_inv_remove: "multimap_inv m \<Longrightarrow> multimap_inv (btree_multimap_remove m k v)"
  by (auto simp: multimap_inv_def btree_multimap_remove_def Let_def split: option.splits if_splits)

section \<open>Lemmas: table views\<close>

text \<open>The multiplicity of a row in a view.\<close>

definition row_count :: "table_view \<Rightarrow> col_valn list \<Rightarrow> nat" where
  "row_count view row = (case bm_get view row of None \<Rightarrow> 0 | Some n \<Rightarrow> n)"

definition counts_fit :: "table_view \<Rightarrow> bool" where
  "counts_fit view \<longleftrightarrow> (\<forall>(_, n) \<in> set view. n < 2 ^ 64)"

lemma row_count_add_row_multi:
  "add_row_multi v row n = Some v' \<Longrightarrow> row_count v' r = row_count v r + (if r = row then n else 0)"
  by (auto simp: row_count_def add_row_multi_def bind_eq_Some_conv split: option.splits if_splits)

lemma row_count_Cons: "row_count ((r, n) # v) row = (if row = r then n else row_count v row)"
  by (simp add: row_count_def)

lemma row_count_absent: "row \<notin> fst ` set v \<Longrightarrow> row_count v row = 0"
  by (simp add: row_count_def bm_get_None [THEN iffD2])

lemma row_count_fits: "counts_fit v \<Longrightarrow> row_count v row < 2 ^ 64"
  by (auto simp: row_count_def counts_fit_def dest!: map_of_SomeD split: option.split)

text \<open>Merging a view adds up every multiplicity, or one of the sums does not fit.\<close>

lemma merge_view_spec:
  assumes "bm_wf cur" and "counts_fit cur"
  shows "case merge_view v cur of
      Some v' \<Rightarrow> \<forall>row. row_count v' row = row_count v row + row_count cur row \<and> (row_count v row < 2 ^ 64 \<longrightarrow> row_count v' row < 2 ^ 64)
    | None \<Rightarrow> \<exists>row. 2 ^ 64 \<le> row_count v row + row_count cur row"
  using assms
proof (induction v cur rule: merge_view.induct)
  case (2 v r n cur)
  let ?v = "bm_insert r (row_count v r + n) v"
  have new: "row_count ?v row = row_count v row + (if row = r then n else 0)" for row by (simp add: row_count_def)
  have "row_count cur r = 0" using "2.prems"(1) by (intro row_count_absent) auto
  then have sum: "row_count ?v row + row_count cur row = row_count v row + row_count ((r, n) # cur) row" for row
    by (simp add: new row_count_Cons)
  have fits: "n < 2 ^ 64" using "2.prems"(2) by (simp add: counts_fit_def)
  have IH: "case merge_view ?v cur of
      Some v' \<Rightarrow> \<forall>row. row_count v' row = row_count ?v row + row_count cur row \<and> (row_count ?v row < 2 ^ 64 \<longrightarrow> row_count v' row < 2 ^ 64)
    | None \<Rightarrow> \<exists>row. 2 ^ 64 \<le> row_count ?v row + row_count cur row" if "row_count v r + n < 2 ^ 64"
  proof (cases "bm_get v r")
    case None
    then have zero: "row_count v r = 0" by (simp add: row_count_def)
    show ?thesis unfolding zero add_0 by (rule "2.IH"(1) [OF None]) (use "2.prems" in \<open>simp_all add: counts_fit_def\<close>)
  next
    case (Some a)
    then have a: "row_count v r = a" by (simp add: row_count_def)
    show ?thesis unfolding a by (rule "2.IH"(2) [OF Some]) (use "2.prems" that a in \<open>simp_all add: counts_fit_def\<close>)
  qed
  show ?case
  proof (cases "row_count v r + n < 2 ^ 64")
    case True
    have eq: "merge_view v ((r, n) # cur) = merge_view ?v cur" using True by (auto simp: row_count_def unat_checked_def split: option.splits)
    have low: "row_count v row < 2 ^ 64 \<longrightarrow> row_count ?v row < 2 ^ 64" for row using True by (simp add: new)
    show ?thesis
    proof (cases "merge_view ?v cur")
      case None
      from IH [OF True] show ?thesis unfolding eq None option.case sum .
    next
      case (Some v')
      from IH [OF True] low show ?thesis unfolding eq Some option.case sum by blast
    qed
  next
    case False
    with fits have "merge_view v ((r, n) # cur) = None" by (auto simp: row_count_def unat_checked_def split: option.splits)
    with False show ?thesis by (auto simp: row_count_Cons not_less intro!: exI [of _ r])
  qed
qed (simp add: row_count_def)

lemma those_map2:
  "length ys = length xs \<Longrightarrow>
     (case those (map2 f xs ys) of
        Some zs \<Rightarrow> length zs = length xs \<and> (\<forall>i < length xs. f (xs ! i) (ys ! i) = Some (zs ! i))
      | None \<Rightarrow> \<exists>i < length xs. f (xs ! i) (ys ! i) = None)"
proof (induction xs arbitrary: ys)
  case (Cons x xs)
  then obtain y ys' where ys: "ys = y # ys'" "length ys' = length xs" by (cases ys) auto
  show ?case
  proof (cases "f x y")
    case None
    then show ?thesis by (auto simp: ys intro!: exI [of _ 0])
  next
    case (Some z)
    with Cons.IH [OF ys(2)] show ?thesis
      by (auto simp: ys nth_Cons split: option.splits nat.splits intro: exI [of _ "Suc _"])
  qed
qed simp

lemma merge_table_views_loop_spec:
  assumes "\<forall>vs \<in> set rest. length vs = length views \<and> (\<forall>v \<in> set vs. bm_wf v \<and> counts_fit v)"
    and "\<forall>i < length views. \<forall>row. row_count (views ! i) row < 2 ^ 64"
  shows "case merge_table_views_loop views rest of
      Some r \<Rightarrow> length r = length views \<and>
        (\<forall>i < length views. \<forall>row. row_count (r ! i) row < 2 ^ 64 \<and>
           row_count (r ! i) row = row_count (views ! i) row + (\<Sum>vs\<leftarrow>rest. row_count (vs ! i) row))
    | None \<Rightarrow> \<exists>i < length views. \<exists>row. 2 ^ 64 \<le> row_count (views ! i) row + (\<Sum>vs\<leftarrow>rest. row_count (vs ! i) row)"
  using assms
proof (induction rest arbitrary: views)
  case (Cons cur rest)
  from Cons.prems have len: "length cur = length views" by simp
  have spec: "case merge_view (views ! i) (cur ! i) of
      Some v' \<Rightarrow> \<forall>row. row_count v' row = row_count (views ! i) row + row_count (cur ! i) row \<and>
        (row_count (views ! i) row < 2 ^ 64 \<longrightarrow> row_count v' row < 2 ^ 64)
    | None \<Rightarrow> \<exists>row. 2 ^ 64 \<le> row_count (views ! i) row + row_count (cur ! i) row" if "i < length views" for i
    using Cons.prems(1) len that by (intro merge_view_spec) simp_all
  show ?case
  proof (cases "those (map2 merge_view views cur)")
    case None
    with those_map2 [OF len, of merge_view] obtain i where i: "i < length views" "merge_view (views ! i) (cur ! i) = None" by auto
    with spec [OF i(1)] obtain row where "2 ^ 64 \<le> row_count (views ! i) row + row_count (cur ! i) row" by auto
    then have "2 ^ 64 \<le> row_count (views ! i) row + (\<Sum>vs\<leftarrow>cur # rest. row_count (vs ! i) row)" by simp
    with None i(1) len show ?thesis by (simp del: sum_list.Cons list.map) blast
  next
    case (Some views')
    with those_map2 [OF len, of merge_view] have len': "length views' = length views"
      and get: "\<forall>i < length views. merge_view (views ! i) (cur ! i) = Some (views' ! i)" by auto
    have cnt: "row_count (views' ! i) row = row_count (views ! i) row + row_count (cur ! i) row" "row_count (views' ! i) row < 2 ^ 64"
      if i: "i < length views" for i row
    proof -
      from get i have "merge_view (views ! i) (cur ! i) = Some (views' ! i)" by blast
      from spec [OF i, unfolded this option.case] have "\<forall>row. row_count (views' ! i) row = row_count (views ! i) row + row_count (cur ! i) row \<and>
        (row_count (views ! i) row < 2 ^ 64 \<longrightarrow> row_count (views' ! i) row < 2 ^ 64)" .
      with Cons.prems(2) i show "row_count (views' ! i) row = row_count (views ! i) row + row_count (cur ! i) row" "row_count (views' ! i) row < 2 ^ 64"
        by blast+
    qed
    have "\<forall>vs \<in> set rest. length vs = length views' \<and> (\<forall>v \<in> set vs. bm_wf v \<and> counts_fit v)"
      and "\<forall>i < length views'. \<forall>row. row_count (views' ! i) row < 2 ^ 64" using Cons.prems(1) len' cnt(2) by simp_all
    note IH = Cons.IH [OF this, unfolded len']
    have sum: "row_count (views' ! i) row + (\<Sum>vs\<leftarrow>rest. row_count (vs ! i) row) =
        row_count (views ! i) row + (\<Sum>vs\<leftarrow>cur # rest. row_count (vs ! i) row)" if "i < length views" for i row
      using cnt(1) [OF that] by simp
    have loop: "merge_table_views_loop views (cur # rest) = merge_table_views_loop views' rest" by (simp add: len Some)
    show ?thesis
    proof (cases "merge_table_views_loop views' rest")
      case None
      with IH sum show ?thesis unfolding loop None option.case by metis
    next
      case (Some r)
      with IH sum show ?thesis unfolding loop Some option.case by metis
    qed
  qed
qed simp

section \<open>Lemmas: timestamps\<close>

text \<open>The decimal reading of a timestamp: the suffix is its fractional part.\<close>

definition ts_nat :: "timestamp \<Rightarrow> nat" where
  "ts_nat t = unat (time_ms t) * 2 ^ 64 + unat (suffix t)"

lemma unat_suffix_less: "unat (suffix t) < 2 ^ 64"
  using unsigned_less [of "suffix t", where ?'a = nat] by simp

lemma digits_le:
  assumes "b < N" and "d < (N::nat)"
  shows "a * N + b \<le> c * N + d \<longleftrightarrow> a < c \<or> a = c \<and> b \<le> d"
proof (cases "a < c")
  case True
  then have "Suc a * N \<le> c * N" by (intro mult_le_mono1) simp
  with assms True show ?thesis by simp
next
  case False
  show ?thesis
  proof (cases "a = c")
    case True
    then show ?thesis by simp
  next
    case neq: False
    with False have "Suc c * N \<le> a * N" by (intro mult_le_mono1) simp
    with assms neq False show ?thesis by simp
  qed
qed

lemma ts_nat_le: "ts_nat a \<le> ts_nat b \<longleftrightarrow> a \<le> b"
  using digits_le [OF unat_suffix_less [of a] unat_suffix_less [of b]]
  by (simp add: ts_nat_def less_eq_timestamp_def word_less_nat_alt word_le_nat_alt
      word_eq_iff_unsigned [where ?'a = nat])

lemma suffix_sum: "unat ((ucast a :: 128 word) + ucast (b :: 64 word)) = unat (a :: 64 word) + unat b"
proof -
  have less: "unat a < 2 ^ 64" "unat b < 2 ^ 64"
    using unsigned_less [of a, where ?'a = nat] unsigned_less [of b, where ?'a = nat] by simp_all
  then have "unat (ucast a :: 128 word) = unat a" "unat (ucast b :: 128 word) = unat b"
    by (simp_all add: unsigned_ucast_eq take_bit_nat_eq_self_iff)
  with less show ?thesis by (subst unat_add_lem [THEN iffD1]) simp_all
qed

lemma suffix_carry:
  fixes a b :: "64 word"
  defines "tot \<equiv> (ucast a :: 128 word) + ucast b"
  shows "unat (ucast tot :: 64 word) = (unat a + unat b) mod 2 ^ 64"
    and "unat (if tot > ucast (- 1 :: 64 word) then 1 else 0 :: 128 word) = (unat a + unat b) div 2 ^ 64"
proof -
  have tot: "unat tot = unat a + unat b"
    unfolding tot_def by (rule suffix_sum)
  show "unat (ucast tot :: 64 word) = (unat a + unat b) mod 2 ^ 64"
    by (simp add: unsigned_ucast_eq take_bit_eq_mod tot)
  have less: "unat a < 2 ^ 64" "unat b < 2 ^ 64"
    using unsigned_less [of a, where ?'a = nat] unsigned_less [of b, where ?'a = nat] by simp_all
  have "unat (ucast (- 1 :: 64 word) :: 128 word) = 2 ^ 64 - 1"
    by (simp add: unsigned_ucast_eq unsigned_minus_1_eq_mask mask_eq_exp_minus_1)
  then have "tot > ucast (- 1 :: 64 word) \<longleftrightarrow> 2 ^ 64 \<le> unat a + unat b"
    by (auto simp: word_less_nat_alt tot)
  then show "unat (if tot > ucast (- 1 :: 64 word) then 1 else 0 :: 128 word) = (unat a + unat b) div 2 ^ 64"
    using less by (auto simp: div_nat_eqI)
qed

lemma timestamp_add_value:
  "timestamp_add a b = Some t \<Longrightarrow> ts_nat t = ts_nat a + ts_nat b"
proof -
  define s where "s = unat (suffix a) + unat (suffix b)"
  define c where "c = (if (ucast (suffix a) :: 128 word) + ucast (suffix b) > ucast (- 1 :: 64 word)
                       then 1 else 0 :: 128 word)"
  have c: "unat c = s div 2 ^ 64"
    unfolding c_def s_def by (rule suffix_carry)
  assume add: "timestamp_add a b = Some t"
  then have fits: "unat (time_ms a) + unat (time_ms b) + unat c < 2 ^ LENGTH(128)"
    and t: "t = Timestamp (time_ms a + time_ms b + c)
               (ucast ((ucast (suffix a) :: 128 word) + ucast (suffix b)))"
    by (simp_all add: timestamp_add_def Let_def flip: c_def split: if_splits)
  from fits have "unat (time_ms a + time_ms b) = unat (time_ms a) + unat (time_ms b)"
    by (subst unat_add_lem [THEN iffD1]) simp_all
  with fits have "unat (time_ms a + time_ms b + c) = unat (time_ms a) + unat (time_ms b) + s div 2 ^ 64"
    by (subst unat_add_lem [THEN iffD1]) (simp_all add: c)
  then have "ts_nat t = (unat (time_ms a) + unat (time_ms b) + s div 2 ^ 64) * 2 ^ 64 + s mod 2 ^ 64"
    by (simp add: t ts_nat_def s_def suffix_carry(1))
  then show ?thesis
    by (simp add: ts_nat_def s_def algebra_simps)
qed

lemma timestamp_add_overflow:
  "timestamp_add a b = None \<Longrightarrow> 2 ^ 192 \<le> ts_nat a + ts_nat b"
proof -
  define s where "s = unat (suffix a) + unat (suffix b)"
  assume "timestamp_add a b = None"
  then have "2 ^ 128 \<le> unat (time_ms a) + unat (time_ms b) + s div 2 ^ 64"
    by (simp add: timestamp_add_def Let_def suffix_carry(2) s_def split: if_splits)
  then have "2 ^ 128 * 2 ^ 64 \<le> (unat (time_ms a) + unat (time_ms b) + s div 2 ^ 64) * (2 ^ 64 :: nat)"
    by (rule mult_le_mono1)
  also have "\<dots> \<le> (unat (time_ms a) + unat (time_ms b)) * 2 ^ 64 + s"
    by (simp add: algebra_simps)
  finally show ?thesis
    by (simp add: ts_nat_def s_def algebra_simps)
qed

section \<open>Properties\<close>

text \<open>
  C32: Timestamps order and add like the numbers \<open>time_ms * 2^64 + suffix\<close>: the sum carries
  from the suffix into the milliseconds, and \<open>add\<close> panics exactly when the sum leaves 192
  bits.
\<close>

theorem timestamp_add_exact:
  "(case timestamp_add a b of
      Some c \<Rightarrow> ts_nat c = ts_nat a + ts_nat b
    | None \<Rightarrow> 2 ^ 192 \<le> ts_nat a + ts_nat b) \<and>
   (a \<le> b) = (ts_nat a \<le> ts_nat b)"
  using timestamp_add_value [of a b] timestamp_add_overflow [of a b]
  by (cases "timestamp_add a b") (simp_all only: ts_nat_le option.case)

text \<open>
  C33: Merging the results of several tablets adds up the multiplicities. For result lists of one shape, \<open>merge_table_views\<close>
  returns exactly when every sum fits into 64 bits; then a row occurs in a merged view as often
  as in all the corresponding views together. Otherwise an addition overflows, which is a panic.
\<close>

theorem merge_table_views_counts:
  assumes "\<forall>vs \<in> set (views # rest). length vs = length views \<and> (\<forall>v \<in> set vs. bm_wf v \<and> counts_fit v)"
  shows "case merge_table_views (views # rest) of
      Some r \<Rightarrow> length r = length views \<and>
        (\<forall>i < length views. \<forall>row. row_count (r ! i) row < 2 ^ 64 \<and>
           row_count (r ! i) row = (\<Sum>vs\<leftarrow>views # rest. row_count (vs ! i) row))
    | None \<Rightarrow> \<exists>i < length views. \<exists>row. 2 ^ 64 \<le> (\<Sum>vs\<leftarrow>views # rest. row_count (vs ! i) row)"
proof -
  from assms have "\<forall>vs \<in> set rest. length vs = length views \<and> (\<forall>v \<in> set vs. bm_wf v \<and> counts_fit v)"
    and "\<forall>i < length views. \<forall>row. row_count (views ! i) row < 2 ^ 64"
    using row_count_fits by (simp, metis list.set_intros(1) nth_mem)
  from merge_table_views_loop_spec [OF this] show ?thesis
    by (simp only: merge_table_views_def list.case list.map sum_list.Cons)
qed

theorem merge_table_views_counts_witness:
  "(\<exists>r. merge_table_views [[[([Some (CV_Int 1)], 2)]], [[([Some (CV_Int 1)], 3)]]] = Some r \<and> row_count (r ! 0) [Some (CV_Int 1)] = 5) \<and>
   merge_table_views [[[([Some (CV_Int 1)], 2)]], [[([Some (CV_Int 1)], 2 ^ 64 - 1)]]] = None"
proof -
  let ?row = "[Some (CV_Int 1)]"
  have shape: "\<forall>vs \<in> set ([[(?row, 2)]] # [[[(?row, n)]]]). length vs = length [[(?row, 2 :: nat)]] \<and> (\<forall>v \<in> set vs. bm_wf v \<and> counts_fit v)"
    if "n < 2 ^ 64" for n :: nat using that by (simp add: counts_fit_def)
  note th = merge_table_views_counts [OF shape]
  have "merge_table_views ([[(?row, 2)]] # [[[(?row, 3)]]]) \<noteq> None" by (simp add: merge_table_views_def unat_checked_def)
  then obtain r where r: "merge_table_views ([[(?row, 2)]] # [[[(?row, 3)]]]) = Some r" by blast
  have "(\<Sum>vs\<leftarrow>[[(?row, 2)]] # [[[(?row, 3)]]]. row_count (vs ! 0) ?row) = 5" by (simp add: row_count_def)
  with th [of 3] r have "row_count (r ! 0) ?row = 5" by (simp only: option.case) auto
  with r have "\<exists>r. merge_table_views ([[(?row, 2)]] # [[[(?row, 3)]]]) = Some r \<and> row_count (r ! 0) ?row = 5" by blast
  moreover have "merge_table_views ([[(?row, 2)]] # [[[(?row, 2 ^ 64 - 1)]]]) = None"
  proof (rule ccontr)
    assume "merge_table_views ([[(?row, 2)]] # [[[(?row, 2 ^ 64 - 1)]]]) \<noteq> None"
    then obtain r where r: "merge_table_views ([[(?row, 2)]] # [[[(?row, 2 ^ 64 - 1)]]]) = Some r" by blast
    have "(\<Sum>vs\<leftarrow>[[(?row, 2)]] # [[[(?row, 2 ^ 64 - 1)]]]. row_count (vs ! 0) ?row) = 2 ^ 64 + 1" by (simp add: row_count_def)
    moreover have "(\<Sum>vs\<leftarrow>[[(?row, 2)]] # [[[(?row, 2 ^ 64 - 1)]]]. row_count (vs ! 0) ?row) < 2 ^ 64"
      using th [of "2 ^ 64 - 1", unfolded r option.case] by (metis One_nat_def diff_less length_greater_0_conv list.discI zero_less_numeral zero_less_one zero_less_power)
    ultimately show False by simp
  qed
  ultimately show ?thesis by simp
qed

text \<open>
  C34: A multimap is a relation: insertion and removal change the set of their key alone, by
  exactly the given value, and no key is ever kept with an empty set.
\<close>

theorem btree_multimap_relation:
  "multimap_rel (btree_multimap_insert m k v) =
     (multimap_rel m)(k := insert v (multimap_rel m k)) \<and>
   multimap_rel (btree_multimap_remove m k v) = (multimap_rel m)(k := multimap_rel m k - {v}) \<and>
   (multimap_inv m \<longrightarrow>
      multimap_inv (btree_multimap_insert m k v) \<and> multimap_inv (btree_multimap_remove m k v))"
  by (simp add: fun_eq_iff multimap_insert_rel multimap_remove_rel multimap_inv_insert
      multimap_inv_remove)

theorem btree_multimap_relation_witness:
  "multimap_inv (btree_multimap_remove [(1::nat, [2::nat])] 1 2)"
proof -
  have "multimap_inv [(1::nat, [2::nat])]" by (simp add: multimap_inv_def)
  with btree_multimap_relation [of "[(1::nat, [2::nat])]" 1 2] show ?thesis by blast
qed

end
