(* ===== verification/Sql_Ast.thy ===== *)
theory Sql_Ast
  imports Common
begin

text \<open>
  The processed SQL of \<open>src/src/sql_ast.rs\<close>, module \<open>proc\<close> (with the operator and value types
  of the module \<open>iast\<close> it uses): the abstract syntax the query planner and the executors
  work on. Structs that take part in the mutual recursion are constructors with selectors.
\<close>

datatype unary_op = UO_Plus | UO_Minus | UO_Not | UO_IsNull | UO_IsNotNull

datatype binary_op =
    BO_Plus | BO_Minus | BO_Multiply | BO_Divide | BO_Modulus | BO_StringConcat
  | BO_Gt | BO_Lt | BO_GtEq | BO_LtEq | BO_Spaceship | BO_Eq | BO_NotEq | BO_And | BO_Or

datatype sql_value = SV_Number string | SV_QuotedString string | SV_Boolean bool | SV_Null

datatype join_type = JT_Inner | JT_Outer | JT_Left | JT_Right

datatype unary_aggregate_op = AO_Count | AO_Sum | AO_Avg

record table_source =
  ts_table_path :: table_path
  ts_alias :: string

record trans_table_source =
  tts_trans_table_name :: trans_table_name
  tts_alias :: string

datatype column_ref = ColumnRef (cr_table_name: string) (cr_col_name: col_name)

datatype val_expr =
    VE_ColumnRef column_ref
  | VE_UnaryExpr unary_op val_expr
  | VE_BinaryExpr binary_op val_expr val_expr
  | VE_Value sql_value
  | VE_Subquery gr_query
and select_expr_item =
    SEI_ValExpr val_expr
  | SEI_UnaryAggregate (ua_distinct: bool) (ua_op: unary_aggregate_op) (ua_expr: val_expr)
and select_item =
    SI_ExprWithAlias (si_item: select_expr_item) (si_alias: "col_name option")
  | SI_Wildcard (si_table_name: "string option")
and join_node =
    JN_Inner (jn_left: join_node) (jn_right: join_node) (jn_join_type: join_type)
      (jn_strong_conjunctions: "val_expr list") (jn_weak_conjunctions: "val_expr list")
  | JN_Leaf (jn_alias: string) (jn_lateral: bool) (jn_query: gr_query)
and gr_query_stage =
    GQS_TableSelect (gqs_distinct: bool) (gqs_projection: "select_item list")
      (gqs_from: table_source) (gqs_selection: val_expr) (gqs_schema: "col_name option list")
  | GQS_TransTableSelect (gqs_distinct: bool) (gqs_projection: "select_item list")
      (gqs_tt_from: trans_table_source) (gqs_selection: val_expr)
      (gqs_schema: "col_name option list")
  | GQS_JoinSelect (gqs_distinct: bool) (gqs_projection: "select_item list")
      (gqs_join_from: join_node) (gqs_dependency_graph: "(string, string) btree")
      (gqs_schema: "col_name option list")
and gr_query =
    GRQuery (gq_trans_tables: "(trans_table_name \<times> gr_query_stage) list")
      (gq_returning: trans_table_name)

definition non_left :: "join_type \<Rightarrow> bool" where
  "non_left t \<longleftrightarrow> t = JT_Right \<or> t = JT_Inner"

definition non_right :: "join_type \<Rightarrow> bool" where
  "non_right t \<longleftrightarrow> t = JT_Left \<or> t = JT_Inner"

end
