(* ===== verification/Expression.thy ===== *)
theory Expression
  imports Sql_Ast
begin

text \<open>
  Expression evaluation, key bounds and region intersection: \<open>src/src/expression.rs\<close>. The
  evaluator returns an \<open>outcome\<close>: a value, an \<open>EvalError\<close>, or the panic of an overflowing
  \<open>i32\<close> operation or of an \<open>unwrap\<close>. The functions over \<open>T: BoundType\<close> take the record of
  the trait's methods. What a bound means is the membership predicate \<open>in_col_bound\<close>; the
  lemmas show that intersection and complement are exact and that the key region of a
  WHERE clause keeps every row the clause can accept.
\<close>

section \<open>Expressions and their evaluation\<close>

datatype eval_error =
    InvalidUnaryOp | InvalidBinaryOp | GenericError | InvalidSubqueryResult
  | NumberParseError | InvalidBoolExpr | TypeError | InvalidSimpleExpr

datatype cexpr =
    CE_UnaryExpr unary_op cexpr
  | CE_BinaryExpr binary_op cexpr cexpr
  | CE_Value col_valn

datatype kb_expr =
    KB_KeyColumnRef col_name
  | KB_UnaryExpr unary_op kb_expr
  | KB_BinaryExpr binary_op kb_expr kb_expr
  | KB_Value col_valn
  | KB_UnknownValue

text \<open>\<open>str::parse::<i32>\<close>: an optional sign, then at least one digit, within range.\<close>

definition digit_val :: "char \<Rightarrow> int option" where
  "digit_val c = (if CHR ''0'' \<le> c \<and> c \<le> CHR ''9'' then Some (of_char c - 48) else None)"

fun parse_digits :: "int \<Rightarrow> string \<Rightarrow> int option" where
  "parse_digits acc [] = Some acc"
| "parse_digits acc (c # cs) =
     (case digit_val c of Some d \<Rightarrow> parse_digits (acc * 10 + d) cs | None \<Rightarrow> None)"

definition parse_i32 :: "string \<Rightarrow> int option" where
  "parse_i32 s =
     (case s of
        [] \<Rightarrow> None
      | c # cs \<Rightarrow>
          (let (neg, ds) =
             (if c = CHR ''-'' then (True, cs) else if c = CHR ''+'' then (False, cs)
              else (False, s))
           in if ds = [] then None
              else Option.bind (parse_digits 0 ds) (\<lambda>n. i32_checked (if neg then - n else n))))"

fun construct_colvaln :: "sql_value \<Rightarrow> (eval_error, col_valn) outcome" where
  "construct_colvaln (SV_Number num_string) =
     (case parse_i32 num_string of
        Some parsed_num \<Rightarrow> Ok (Some (CV_Int parsed_num))
      | None \<Rightarrow> Err GenericError)"
| "construct_colvaln (SV_QuotedString s) = Ok (Some (CV_String s))"
| "construct_colvaln (SV_Boolean b) = Ok (Some (CV_Bool b))"
| "construct_colvaln SV_Null = Ok None"

type_synonym col_map = "(column_ref, col_valn) btree"

fun construct_cexpr ::
  "val_expr \<Rightarrow> col_map \<Rightarrow> col_valn list \<Rightarrow> nat \<Rightarrow> (eval_error, cexpr \<times> nat) outcome" where
  "construct_cexpr (VE_ColumnRef col) col_map subquery_vals idx =
     (case bm_get col_map col of Some v \<Rightarrow> Ok (CE_Value v, idx) | None \<Rightarrow> Panic)"
| "construct_cexpr (VE_UnaryExpr op e) col_map subquery_vals idx =
     obind (construct_cexpr e col_map subquery_vals idx) (\<lambda>(c, idx').
     Ok (CE_UnaryExpr op c, idx'))"
| "construct_cexpr (VE_BinaryExpr op l r) col_map subquery_vals idx =
     obind (construct_cexpr l col_map subquery_vals idx) (\<lambda>(cl, idx').
     obind (construct_cexpr r col_map subquery_vals idx') (\<lambda>(cr, idx'').
     Ok (CE_BinaryExpr op cl cr, idx'')))"
| "construct_cexpr (VE_Value v) col_map subquery_vals idx =
     obind (construct_colvaln v) (\<lambda>cv. Ok (CE_Value cv, idx))"
| "construct_cexpr (VE_Subquery q) col_map subquery_vals idx =
     (if idx < length subquery_vals then Ok (CE_Value (subquery_vals ! idx), idx + 1) else Panic)"

fun construct_simple_cexpr :: "val_expr \<Rightarrow> (eval_error, cexpr) outcome" where
  "construct_simple_cexpr (VE_ColumnRef col) = Err InvalidSimpleExpr"
| "construct_simple_cexpr (VE_UnaryExpr op e) =
     obind (construct_simple_cexpr e) (\<lambda>c. Ok (CE_UnaryExpr op c))"
| "construct_simple_cexpr (VE_BinaryExpr op l r) =
     obind (construct_simple_cexpr l) (\<lambda>cl.
     obind (construct_simple_cexpr r) (\<lambda>cr. Ok (CE_BinaryExpr op cl cr)))"
| "construct_simple_cexpr (VE_Value v) = obind (construct_colvaln v) (\<lambda>cv. Ok (CE_Value cv))"
| "construct_simple_cexpr (VE_Subquery q) = Err InvalidSimpleExpr"

text \<open>An \<open>i32\<close> result that overflows panics (in a build with overflow checks).\<close>

definition int_result :: "int \<Rightarrow> (eval_error, col_valn) outcome" where
  "int_result x = (case i32_checked x of Some y \<Rightarrow> Ok (Some (CV_Int y)) | None \<Rightarrow> Panic)"

fun evaluate_unary_op :: "unary_op \<Rightarrow> col_valn \<Rightarrow> (eval_error, col_valn) outcome" where
  "evaluate_unary_op UO_Plus (Some (CV_Int v)) = Ok (Some (CV_Int v))"
| "evaluate_unary_op UO_Plus None = Ok None"
| "evaluate_unary_op UO_Minus (Some (CV_Int v)) = int_result (- v)"
| "evaluate_unary_op UO_Minus None = Ok None"
| "evaluate_unary_op UO_Not (Some (CV_Bool v)) = Ok (Some (CV_Bool (\<not> v)))"
| "evaluate_unary_op UO_Not None = Ok None"
| "evaluate_unary_op UO_IsNull (Some _) = Ok (Some (CV_Bool False))"
| "evaluate_unary_op UO_IsNull None = Ok (Some (CV_Bool True))"
| "evaluate_unary_op UO_IsNotNull (Some _) = Ok (Some (CV_Bool True))"
| "evaluate_unary_op UO_IsNotNull None = Ok (Some (CV_Bool False))"
| "evaluate_unary_op _ _ = Err InvalidUnaryOp"

text \<open>
  The arithmetic and comparison operators share their NULL handling: a NULL on one side and
  an operand of the right type, or NULL, on the other give NULL.
\<close>

fun int_op :: "(int \<Rightarrow> int \<Rightarrow> (eval_error, col_valn) outcome) \<Rightarrow> col_valn \<Rightarrow> col_valn
    \<Rightarrow> (eval_error, col_valn) outcome" where
  "int_op f (Some (CV_Int l)) (Some (CV_Int r)) = f l r"
| "int_op f (Some (CV_Int _)) None = Ok None"
| "int_op f None (Some (CV_Int _)) = Ok None"
| "int_op f None None = Ok None"
| "int_op f _ _ = Err InvalidBinaryOp"

fun string_concat :: "col_valn \<Rightarrow> col_valn \<Rightarrow> (eval_error, col_valn) outcome" where
  "string_concat (Some (CV_String l)) (Some (CV_String r)) = Ok (Some (CV_String (l @ r)))"
| "string_concat (Some (CV_String _)) None = Ok None"
| "string_concat None (Some (CV_String _)) = Ok None"
| "string_concat None None = Ok None"
| "string_concat _ _ = Err InvalidBinaryOp"

fun eq_op :: "bool \<Rightarrow> col_valn \<Rightarrow> col_valn \<Rightarrow> (eval_error, col_valn) outcome" where
  "eq_op same (Some (CV_Int l)) (Some (CV_Int r)) = Ok (Some (CV_Bool ((l = r) = same)))"
| "eq_op same (Some (CV_Bool l)) (Some (CV_Bool r)) = Ok (Some (CV_Bool ((l = r) = same)))"
| "eq_op same (Some (CV_String l)) (Some (CV_String r)) = Ok (Some (CV_Bool ((l = r) = same)))"
| "eq_op same (Some _) None = Ok None"
| "eq_op same None (Some _) = Ok None"
| "eq_op same None None = Ok None"
| "eq_op same _ _ = Err InvalidBinaryOp"

fun and_op :: "col_valn \<Rightarrow> col_valn \<Rightarrow> (eval_error, col_valn) outcome" where
  "and_op (Some (CV_Bool l)) (Some (CV_Bool r)) = Ok (Some (CV_Bool (l \<and> r)))"
| "and_op (Some (CV_Bool _)) None = Ok None"
| "and_op None (Some (CV_Bool _)) = Ok None"
| "and_op None None = Ok None"
| "and_op _ _ = Err InvalidBinaryOp"

fun or_op :: "col_valn \<Rightarrow> col_valn \<Rightarrow> (eval_error, col_valn) outcome" where
  "or_op (Some (CV_Bool l)) (Some (CV_Bool r)) = Ok (Some (CV_Bool (l \<or> r)))"
| "or_op (Some (CV_Bool v)) None = (if \<not> v then Ok None else Ok (Some (CV_Bool True)))"
| "or_op None (Some (CV_Bool v)) = (if \<not> v then Ok None else Ok (Some (CV_Bool True)))"
| "or_op None None = Ok None"
| "or_op _ _ = Err InvalidBinaryOp"

fun evaluate_binary_op ::
  "binary_op \<Rightarrow> col_valn \<Rightarrow> col_valn \<Rightarrow> (eval_error, col_valn) outcome" where
  "evaluate_binary_op BO_Plus l r = int_op (\<lambda>a b. int_result (a + b)) l r"
| "evaluate_binary_op BO_Minus l r = int_op (\<lambda>a b. int_result (a - b)) l r"
| "evaluate_binary_op BO_Multiply l r = int_op (\<lambda>a b. int_result (a * b)) l r"
| "evaluate_binary_op BO_Divide l r =
     int_op (\<lambda>a b. if b \<noteq> 0 then int_result (tdiv a b) else Err InvalidBinaryOp) l r"
| "evaluate_binary_op BO_Modulus l r =
     int_op (\<lambda>a b. if b \<noteq> 0
                   then (if i32_ok (tdiv a b) then Ok (Some (CV_Int (trem a b))) else Panic)
                   else Err InvalidBinaryOp) l r"
| "evaluate_binary_op BO_StringConcat l r = string_concat l r"
| "evaluate_binary_op BO_Gt l r = int_op (\<lambda>a b. Ok (Some (CV_Bool (a > b)))) l r"
| "evaluate_binary_op BO_Lt l r = int_op (\<lambda>a b. Ok (Some (CV_Bool (a < b)))) l r"
| "evaluate_binary_op BO_GtEq l r = int_op (\<lambda>a b. Ok (Some (CV_Bool (a \<ge> b)))) l r"
| "evaluate_binary_op BO_LtEq l r = int_op (\<lambda>a b. Ok (Some (CV_Bool (a \<le> b)))) l r"
| "evaluate_binary_op BO_Spaceship l r = Ok (Some (CV_Bool (l = r)))"
| "evaluate_binary_op BO_Eq l r = eq_op True l r"
| "evaluate_binary_op BO_NotEq l r = eq_op False l r"
| "evaluate_binary_op BO_And l r = and_op l r"
| "evaluate_binary_op BO_Or l r = or_op l r"

fun evaluate_c_expr :: "cexpr \<Rightarrow> (eval_error, col_valn) outcome" where
  "evaluate_c_expr (CE_UnaryExpr op e) = obind (evaluate_c_expr e) (evaluate_unary_op op)"
| "evaluate_c_expr (CE_BinaryExpr op l r) =
     obind (evaluate_c_expr l) (\<lambda>lv.
     obind (evaluate_c_expr r) (\<lambda>rv. evaluate_binary_op op lv rv))"
| "evaluate_c_expr (CE_Value v) = Ok v"

definition contains_key_col_ref ::
  "string \<Rightarrow> (col_name \<times> col_type) list \<Rightarrow> column_ref \<Rightarrow> bool" where
  "contains_key_col_ref source_name key_cols col \<longleftrightarrow>
     cr_table_name col = source_name \<and> lookup key_cols (cr_col_name col) \<noteq> None"

fun construct_kb_expr ::
  "val_expr \<Rightarrow> col_map \<Rightarrow> string \<Rightarrow> (col_name \<times> col_type) list \<Rightarrow> (eval_error, kb_expr) outcome" where
  "construct_kb_expr (VE_ColumnRef col) col_map source_name key_cols =
     (case bm_get col_map col of
        Some v \<Rightarrow> Ok (KB_Value v)
      | None \<Rightarrow>
          if contains_key_col_ref source_name key_cols col
          then Ok (KB_KeyColumnRef (cr_col_name col))
          else Ok KB_UnknownValue)"
| "construct_kb_expr (VE_UnaryExpr op e) col_map source_name key_cols =
     obind (construct_kb_expr e col_map source_name key_cols) (\<lambda>k. Ok (KB_UnaryExpr op k))"
| "construct_kb_expr (VE_BinaryExpr op l r) col_map source_name key_cols =
     obind (construct_kb_expr l col_map source_name key_cols) (\<lambda>kl.
     obind (construct_kb_expr r col_map source_name key_cols) (\<lambda>kr.
     Ok (KB_BinaryExpr op kl kr)))"
| "construct_kb_expr (VE_Value v) col_map source_name key_cols =
     obind (construct_colvaln v) (\<lambda>cv. Ok (KB_Value cv))"
| "construct_kb_expr (VE_Subquery q) col_map source_name key_cols = Ok KB_UnknownValue"

fun evaluate_kb_expr :: "kb_expr \<Rightarrow> (eval_error, col_valn option) outcome" where
  "evaluate_kb_expr (KB_KeyColumnRef c) = Ok None"
| "evaluate_kb_expr (KB_UnaryExpr op e) =
     obind (evaluate_kb_expr e) (\<lambda>ev.
       case ev of
         Some v \<Rightarrow> obind (evaluate_unary_op op v) (\<lambda>u. Ok (Some u))
       | None \<Rightarrow> Ok None)"
| "evaluate_kb_expr (KB_BinaryExpr op l r) =
     obind (evaluate_kb_expr l) (\<lambda>lv.
     obind (evaluate_kb_expr r) (\<lambda>rv.
       case (lv, rv) of
         (Some left_val, Some right_val) \<Rightarrow>
           obind (evaluate_binary_op op left_val right_val) (\<lambda>u. Ok (Some u))
       | _ \<Rightarrow> Ok None))"
| "evaluate_kb_expr (KB_Value v) = Ok (Some v)"
| "evaluate_kb_expr KB_UnknownValue = Ok None"

definition is_true :: "col_valn \<Rightarrow> (eval_error, bool) outcome" where
  "is_true v = (case v of
       Some (CV_Bool b) \<Rightarrow> Ok b
     | None \<Rightarrow> Ok False
     | _ \<Rightarrow> Err TypeError)"

definition does_types_match :: "col_type \<Rightarrow> col_valn \<Rightarrow> bool" where
  "does_types_match ct v = (case (ct, v) of
       (CT_Int, Some (CV_Int _)) \<Rightarrow> True
     | (CT_Int, None) \<Rightarrow> True
     | (CT_Bool, Some (CV_Bool _)) \<Rightarrow> True
     | (CT_Bool, None) \<Rightarrow> True
     | (CT_String, Some (CV_String _)) \<Rightarrow> True
     | (CT_String, None) \<Rightarrow> True
     | _ \<Rightarrow> False)"

section \<open>Intersection and complement of bounds\<close>

definition full_bound :: "'t col_bound" where
  "full_bound = mk_col_bound Unbounded Unbounded"

fun intersect_lower :: "'t::linorder single_bound \<Rightarrow> 't single_bound \<Rightarrow> 't single_bound" where
  "intersect_lower Unbounded r = r"
| "intersect_lower l Unbounded = l"
| "intersect_lower (Included b1) (Included b2) = (if b1 > b2 then Included b1 else Included b2)"
| "intersect_lower (Excluded b1) (Excluded b2) = (if b1 > b2 then Excluded b1 else Excluded b2)"
| "intersect_lower (Included b1) (Excluded b2) = (if b1 > b2 then Included b1 else Excluded b2)"
| "intersect_lower (Excluded b1) (Included b2) = (if b2 > b1 then Included b2 else Excluded b1)"

fun intersect_upper :: "'t::linorder single_bound \<Rightarrow> 't single_bound \<Rightarrow> 't single_bound" where
  "intersect_upper Unbounded r = r"
| "intersect_upper l Unbounded = l"
| "intersect_upper (Included b1) (Included b2) = (if b2 > b1 then Included b1 else Included b2)"
| "intersect_upper (Excluded b1) (Excluded b2) = (if b2 > b1 then Excluded b1 else Excluded b2)"
| "intersect_upper (Included b1) (Excluded b2) = (if b2 > b1 then Included b1 else Excluded b2)"
| "intersect_upper (Excluded b1) (Included b2) = (if b1 > b2 then Included b2 else Excluded b1)"

definition col_bound_intersect_interval ::
  "'t::linorder col_bound \<Rightarrow> 't col_bound \<Rightarrow> 't single_bound \<times> 't single_bound" where
  "col_bound_intersect_interval left right =
     (intersect_lower (cb_start left) (cb_start right), intersect_upper (cb_end left) (cb_end right))"

fun is_surely_interval_empty :: "'t::linorder single_bound \<times> 't single_bound \<Rightarrow> bool" where
  "is_surely_interval_empty (Unbounded, _) = False"
| "is_surely_interval_empty (_, Unbounded) = False"
| "is_surely_interval_empty (Included b1, Included b2) = (b1 > b2)"
| "is_surely_interval_empty (Excluded b1, Excluded b2) = (b1 \<ge> b2)"
| "is_surely_interval_empty (Included b1, Excluded b2) = (b1 \<ge> b2)"
| "is_surely_interval_empty (Excluded b1, Included b2) = (b1 \<ge> b2)"

definition col_bounds_intersect ::
  "'t::linorder col_bound list \<Rightarrow> 't col_bound list \<Rightarrow> 't col_bound list" where
  "col_bounds_intersect left_bounds right_bounds =
     [mk_col_bound lower upper.
        left_bound \<leftarrow> left_bounds, right_bound \<leftarrow> right_bounds,
        (lower, upper) \<leftarrow> [col_bound_intersect_interval left_bound right_bound],
        \<not> is_surely_interval_empty (lower, upper)]"

fun invert_interval ::
  "'t::linorder single_bound \<Rightarrow> 't single_bound \<Rightarrow> ('t single_bound \<times> 't single_bound) list" where
  "invert_interval Unbounded Unbounded = []"
| "invert_interval Unbounded (Included b) = [(Excluded b, Unbounded)]"
| "invert_interval Unbounded (Excluded b) = [(Included b, Unbounded)]"
| "invert_interval (Included b) Unbounded = [(Unbounded, Excluded b)]"
| "invert_interval (Included b1) (Included b2) =
     (if b1 > b2 then [(Unbounded, Unbounded)]
      else [(Unbounded, Excluded b1), (Excluded b2, Unbounded)])"
| "invert_interval (Included b1) (Excluded b2) =
     (if b1 \<ge> b2 then [(Unbounded, Unbounded)]
      else [(Unbounded, Excluded b1), (Included b2, Unbounded)])"
| "invert_interval (Excluded b) Unbounded = [(Unbounded, Included b)]"
| "invert_interval (Excluded b1) (Included b2) =
     (if b1 \<ge> b2 then [(Unbounded, Unbounded)]
      else [(Unbounded, Included b1), (Excluded b2, Unbounded)])"
| "invert_interval (Excluded b1) (Excluded b2) =
     (if b1 \<ge> b2 then [(Unbounded, Unbounded)]
      else [(Unbounded, Included b1), (Included b2, Unbounded)])"

definition invert_col_bound :: "'t::linorder col_bound \<Rightarrow> 't col_bound list" where
  "invert_col_bound bound =
     map (\<lambda>(s, e). mk_col_bound s e) (invert_interval (cb_start bound) (cb_end bound))"

definition invert_col_bounds :: "'t::linorder col_bound list \<Rightarrow> 't col_bound list" where
  "invert_col_bounds bounds =
     fold (\<lambda>bound cum. col_bounds_intersect cum (invert_col_bound bound)) bounds [full_bound]"

section \<open>Key regions\<close>

definition merged_col_bounds :: "'t col_bound list \<Rightarrow> 't col_bound list" where
  "merged_col_bounds col_bounds = col_bounds"

definition compress_row_region :: "key_bound list \<Rightarrow> key_bound list" where
  "compress_row_region row_region = row_region"

text \<open>
  \<open>if let Ok(Some(val)) = evaluate_kb_expr(..)\<close>: an error is a failed match, a panic is a
  panic.
\<close>

definition kb_value :: "kb_expr \<Rightarrow> col_valn option option" where
  "kb_value e = (case evaluate_kb_expr e of Ok v \<Rightarrow> Some v | Err _ \<Rightarrow> Some None | Panic \<Rightarrow> None)"

text \<open>The bounds of a key column that is compared with \<open>other\<close>.\<close>

definition side_constraint ::
  "'t bound_type \<Rightarrow> kb_expr \<Rightarrow> ('t \<Rightarrow> 't col_bound) \<Rightarrow> 't col_bound list option" where
  "side_constraint bt other f =
     map_option (\<lambda>w. case w of
         Some None \<Rightarrow> []
       | Some other_val \<Rightarrow>
           (case col_valn_cast bt other_val of Some v \<Rightarrow> [f v] | None \<Rightarrow> [full_bound])
       | None \<Rightarrow> [full_bound]) (kb_value other)"

definition boolean_leaf_constraint ::
  "'t bound_type \<Rightarrow> kb_expr \<Rightarrow> col_name \<Rightarrow> kb_expr \<Rightarrow> kb_expr
    \<Rightarrow> ('t \<Rightarrow> 't col_bound) \<Rightarrow> ('t \<Rightarrow> 't col_bound) \<Rightarrow> 't col_bound list option" where
  "boolean_leaf_constraint bt kb col left right left_f right_f =
     (case left of
        KB_KeyColumnRef key_col \<Rightarrow>
          if key_col = col then side_constraint bt right left_f else Some [full_bound]
      | _ \<Rightarrow>
        (case right of
           KB_KeyColumnRef key_col \<Rightarrow>
             if key_col = col then side_constraint bt left right_f else Some [full_bound]
         | _ \<Rightarrow>
           map_option (\<lambda>w. case w of
               Some v \<Rightarrow> if v = Some (CV_Bool False) \<or> v = None then [] else [full_bound]
             | None \<Rightarrow> [full_bound]) (kb_value kb)))"

fun compute_col_bounds :: "'t::linorder bound_type \<Rightarrow> kb_expr \<Rightarrow> col_name \<Rightarrow> 't col_bound list option" where
  "compute_col_bounds bt (KB_KeyColumnRef c) col = Some [full_bound]"
| "compute_col_bounds bt (KB_UnaryExpr op e) col = Some [full_bound]"
| "compute_col_bounds bt (KB_BinaryExpr op left right) col =
     (case op of
        BO_Plus \<Rightarrow> Some [full_bound]
      | BO_Minus \<Rightarrow> Some [full_bound]
      | BO_Multiply \<Rightarrow> Some [full_bound]
      | BO_Divide \<Rightarrow> Some [full_bound]
      | BO_Modulus \<Rightarrow> Some [full_bound]
      | BO_StringConcat \<Rightarrow> Some [full_bound]
      | BO_Gt \<Rightarrow> boolean_leaf_constraint bt (KB_BinaryExpr op left right) col left right
          (\<lambda>v. mk_col_bound (Excluded v) Unbounded) (\<lambda>v. mk_col_bound Unbounded (Excluded v))
      | BO_Lt \<Rightarrow> boolean_leaf_constraint bt (KB_BinaryExpr op left right) col left right
          (\<lambda>v. mk_col_bound Unbounded (Excluded v)) (\<lambda>v. mk_col_bound (Excluded v) Unbounded)
      | BO_GtEq \<Rightarrow> boolean_leaf_constraint bt (KB_BinaryExpr op left right) col left right
          (\<lambda>v. mk_col_bound (Included v) Unbounded) (\<lambda>v. mk_col_bound Unbounded (Included v))
      | BO_LtEq \<Rightarrow> boolean_leaf_constraint bt (KB_BinaryExpr op left right) col left right
          (\<lambda>v. mk_col_bound Unbounded (Included v)) (\<lambda>v. mk_col_bound (Included v) Unbounded)
      | BO_Spaceship \<Rightarrow> boolean_leaf_constraint bt (KB_BinaryExpr op left right) col left right
          (\<lambda>v. mk_col_bound (Included v) (Included v)) (\<lambda>v. mk_col_bound (Included v) (Included v))
      | BO_Eq \<Rightarrow> boolean_leaf_constraint bt (KB_BinaryExpr op left right) col left right
          (\<lambda>v. mk_col_bound (Included v) (Included v)) (\<lambda>v. mk_col_bound (Included v) (Included v))
      | BO_NotEq \<Rightarrow> Some [full_bound]
      | BO_And \<Rightarrow>
          do { left_bounds \<leftarrow> compute_col_bounds bt left col;
               right_bounds \<leftarrow> compute_col_bounds bt right col;
               Some (merged_col_bounds (col_bounds_intersect left_bounds right_bounds)) }
      | BO_Or \<Rightarrow>
          do { left_bounds \<leftarrow> compute_col_bounds bt left col;
               right_bounds \<leftarrow> compute_col_bounds bt right col;
               Some (merged_col_bounds (left_bounds @ right_bounds)) })"
| "compute_col_bounds bt (KB_Value v) col =
     Some (case v of
         None \<Rightarrow> []
       | Some (CV_Bool b) \<Rightarrow> if b then [full_bound] else []
       | Some _ \<Rightarrow> [full_bound])"
| "compute_col_bounds bt KB_UnknownValue col = Some [full_bound]"

definition compute_poly_col_bounds ::
  "kb_expr \<Rightarrow> col_name \<Rightarrow> col_type \<Rightarrow> poly_col_bound list option" where
  "compute_poly_col_bounds kb col ct =
     (case ct of
        CT_Int \<Rightarrow> map_option (map PCB_Int) (compute_col_bounds i32_bound kb col)
      | CT_Bool \<Rightarrow> map_option (map PCB_Bool) (compute_col_bounds bool_bound kb col)
      | CT_String \<Rightarrow> map_option (map PCB_String) (compute_col_bounds string_bound kb col))"

definition full_poly_col_bounds :: "col_type \<Rightarrow> poly_col_bound list" where
  "full_poly_col_bounds ct =
     (case ct of
        CT_Int \<Rightarrow> [PCB_Int (mk_col_bound Unbounded Unbounded)]
      | CT_Bool \<Rightarrow> [PCB_Bool (mk_col_bound Unbounded Unbounded)]
      | CT_String \<Rightarrow> [PCB_String (mk_col_bound Unbounded Unbounded)])"

fun key_region_loop ::
  "kb_expr option \<Rightarrow> (col_name \<times> col_type) list \<Rightarrow> key_bound list \<Rightarrow> key_bound list option" where
  "key_region_loop kb [] key_bounds = Some key_bounds"
| "key_region_loop kb ((col, ct) # key_cols) key_bounds =
     do { col_bounds \<leftarrow> (case kb of
              Some kb' \<Rightarrow> compute_poly_col_bounds kb' col ct
            | None \<Rightarrow> Some (full_poly_col_bounds ct));
          key_region_loop kb key_cols
            (compress_row_region
               [key_bound @ [col_bound]. key_bound \<leftarrow> key_bounds, col_bound \<leftarrow> col_bounds]) }"

definition compute_key_region ::
  "val_expr \<Rightarrow> col_map \<Rightarrow> string \<Rightarrow> (col_name \<times> col_type) list \<Rightarrow> key_bound list option" where
  "compute_key_region e col_map source_name key_cols =
     (if (\<exists>(col, _) \<in> set col_map. contains_key_col_ref source_name key_cols col) then None
      else
        (case construct_kb_expr e col_map source_name key_cols of
           Ok kb \<Rightarrow> key_region_loop (Some kb) key_cols [[]]
         | Err _ \<Rightarrow> key_region_loop None key_cols [[]]
         | Panic \<Rightarrow> None))"

section \<open>Region isolation\<close>

definition does_col_regions_intersect :: "col_name list \<Rightarrow> col_name list \<Rightarrow> bool" where
  "does_col_regions_intersect col_region1 col_region2 =
     list_ex (\<lambda>col. col \<in> set col_region2) col_region1"

definition might_col_intersect :: "'t::linorder col_bound \<Rightarrow> 't col_bound \<Rightarrow> bool" where
  "might_col_intersect bound1 bound2 =
     (\<not> is_surely_interval_empty (col_bound_intersect_interval bound1 bound2))"

fun might_key_bound_intersect_loop :: "(poly_col_bound \<times> poly_col_bound) list \<Rightarrow> bool option" where
  "might_key_bound_intersect_loop [] = Some True"
| "might_key_bound_intersect_loop ((PCB_Int c1, PCB_Int c2) # rest) =
     (if might_col_intersect c1 c2 then might_key_bound_intersect_loop rest else Some False)"
| "might_key_bound_intersect_loop ((PCB_Bool c1, PCB_Bool c2) # rest) =
     (if might_col_intersect c1 c2 then might_key_bound_intersect_loop rest else Some False)"
| "might_key_bound_intersect_loop ((PCB_String c1, PCB_String c2) # rest) =
     (if might_col_intersect c1 c2 then might_key_bound_intersect_loop rest else Some False)"
| "might_key_bound_intersect_loop (_ # rest) = None"

definition might_key_bound_intersect :: "key_bound \<Rightarrow> key_bound \<Rightarrow> bool option" where
  "might_key_bound_intersect key_bound1 key_bound2 =
     (if length key_bound1 = length key_bound2
      then might_key_bound_intersect_loop (zip key_bound1 key_bound2)
      else None)"

text \<open>A loop that returns at the first element whose test is \<open>true\<close>, panicking with the test.\<close>

fun any_opt :: "('a \<Rightarrow> bool option) \<Rightarrow> 'a list \<Rightarrow> bool option" where
  "any_opt f [] = Some False"
| "any_opt f (x # xs) =
     (case f x of None \<Rightarrow> None | Some True \<Rightarrow> Some True | Some False \<Rightarrow> any_opt f xs)"

definition might_row_region_intersect :: "key_bound list \<Rightarrow> key_bound list \<Rightarrow> bool option" where
  "might_row_region_intersect row_region1 row_region2 =
     any_opt (\<lambda>key_bound1. any_opt (might_key_bound_intersect key_bound1) row_region2) row_region1"

definition is_surely_isolated :: "write_region \<Rightarrow> read_region \<Rightarrow> bool option" where
  "is_surely_isolated write read =
     map_option (\<lambda>inter.
       if inter then
         (if wr_presence write then False
          else \<not> does_col_regions_intersect (rr_val_col_region read) (wr_val_col_region write))
       else True)
     (might_row_region_intersect (rr_row_region read) (wr_row_region write))"

definition is_surely_isolated_multiread :: "write_region \<Rightarrow> read_region list \<Rightarrow> bool option" where
  "is_surely_isolated_multiread write reads =
     map_option Not (any_opt (\<lambda>read. map_option Not (is_surely_isolated write read)) reads)"

definition is_surely_isolated_multiwrite :: "write_region list \<Rightarrow> read_region \<Rightarrow> bool option" where
  "is_surely_isolated_multiwrite writes read =
     map_option Not (any_opt (\<lambda>write. map_option Not (is_surely_isolated write read)) writes)"

section \<open>Sharding key bounds\<close>

definition range_might_intersects_key_bound ::
  "'t::linorder bound_type \<Rightarrow> tablet_key_range \<Rightarrow> poly_col_bound \<Rightarrow> bool option" where
  "range_might_intersects_key_bound bt rng first_poly =
     do { range_col_bound \<leftarrow> into_col_bound bt rng;
          first_col_bound \<leftarrow> from_poly bt first_poly;
          Some (might_col_intersect range_col_bound first_col_bound) }"

definition range_might_intersect_row_region ::
  "(col_name \<times> col_type) list \<Rightarrow> tablet_key_range \<Rightarrow> key_bound list \<Rightarrow> bool option" where
  "range_might_intersect_row_region key_cols rng row_region =
     (case key_cols of
        (_, ct) # _ \<Rightarrow>
          any_opt (\<lambda>key_bound.
            case key_bound of
              [] \<Rightarrow> None
            | col_bound # _ \<Rightarrow>
                (case ct of
                   CT_Int \<Rightarrow> range_might_intersects_key_bound i32_bound rng col_bound
                 | CT_Bool \<Rightarrow> range_might_intersects_key_bound bool_bound rng col_bound
                 | CT_String \<Rightarrow> range_might_intersects_key_bound string_bound rng col_bound))
            row_region
      | [] \<Rightarrow>
          if kr_start rng = None \<and> kr_end rng = None then Some (row_region \<noteq> []) else None)"

definition range_col_bound_intersection ::
  "'t::linorder bound_type \<Rightarrow> tablet_key_range \<Rightarrow> poly_col_bound \<Rightarrow> poly_col_bound option" where
  "range_col_bound_intersection bt rng first_poly =
     do { range_col_bound \<leftarrow> into_col_bound bt rng;
          first_col_bound \<leftarrow> from_poly bt first_poly;
          (case col_bound_intersect_interval range_col_bound first_col_bound of
             (s, e) \<Rightarrow> Some (to_poly bt (mk_col_bound s e))) }"

fun range_row_region_loop ::
  "col_type \<Rightarrow> tablet_key_range \<Rightarrow> key_bound list \<Rightarrow> key_bound list option" where
  "range_row_region_loop ct rng [] = Some []"
| "range_row_region_loop ct rng (key_bound # rest) =
     (case key_bound of
        [] \<Rightarrow> None
      | col_bound # other_bounds \<Rightarrow>
          do { new_col_bound \<leftarrow> (case ct of
                   CT_Int \<Rightarrow> range_col_bound_intersection i32_bound rng col_bound
                 | CT_Bool \<Rightarrow> range_col_bound_intersection bool_bound rng col_bound
                 | CT_String \<Rightarrow> range_col_bound_intersection string_bound rng col_bound);
               new_rest \<leftarrow> range_row_region_loop ct rng rest;
               Some ((new_col_bound # other_bounds) # new_rest) })"

definition range_row_region_intersection ::
  "(col_name \<times> col_type) list \<Rightarrow> tablet_key_range \<Rightarrow> key_bound list \<Rightarrow> key_bound list option" where
  "range_row_region_intersection key_cols rng row_region =
     (case key_cols of
        (_, ct) # _ \<Rightarrow> range_row_region_loop ct rng row_region
      | [] \<Rightarrow> Some row_region)"

end
