(* ===== verification/Multiversion_Map.thy ===== *)
theory Multiversion_Map
  imports Common
begin

text \<open>
  The multi-versioned map \<open>MVM\<close> of \<open>src/src/multiversion_map.rs\<close>: every key has a last access
  time (LAT) and a list of versions. The record \<open>mvm\<close> is the struct, one definition per
  method follows, \<open>assert!\<close> being the branch \<open>None\<close>. The locale \<open>versioned_store\<close> states what
  the users of a multi-versioned container rely on (a value read below the LAT never
  changes again); it is interpreted on the steps of the MVM.
\<close>

type_synonym 'v versions = "(timestamp \<times> 'v option) list"

record ('k, 'v) mvm =
  min_lat :: timestamp
  mvm_map :: "('k, timestamp \<times> 'v versions) btree"

section \<open>Operations\<close>

definition mvm_new :: "('k, 'v) mvm" where
  "mvm_new = \<lparr>min_lat = mk_t 0, mvm_map = []\<rparr>"

definition mvm_init :: "('k::linorder, 'v) btree \<Rightarrow> ('k, 'v) mvm" where
  "mvm_init init_vals =
     \<lparr>min_lat = mk_t 0,
      mvm_map = fold (\<lambda>(key, v). bm_insert key (mk_t 0, [(mk_t 0, Some v)])) init_vals []\<rparr>"

definition find_prior_version :: "'v versions \<Rightarrow> timestamp \<Rightarrow> (timestamp \<times> 'v option) option" where
  "find_prior_version versions t = rfind (\<lambda>version. fst version \<le> t) versions"

definition find_prior_value :: "'v versions \<Rightarrow> timestamp \<Rightarrow> 'v option" where
  "find_prior_value versions t =
     (case find_prior_version versions t of None \<Rightarrow> None | Some (_, v) \<Rightarrow> v)"

definition mvm_write ::
  "('k::linorder, 'v) mvm \<Rightarrow> 'k \<Rightarrow> 'v option \<Rightarrow> timestamp \<Rightarrow> ('k, 'v) mvm option" where
  "mvm_write m key v t =
     (case bm_get (mvm_map m) key of
        Some (lat, versions) \<Rightarrow>
          if lat < t then Some (m\<lparr>mvm_map := bm_insert key (t, versions @ [(t, v)]) (mvm_map m)\<rparr>)
          else None
      | None \<Rightarrow>
          if min_lat m < t then Some (m\<lparr>mvm_map := bm_insert key (t, [(t, v)]) (mvm_map m)\<rparr>)
          else None)"

definition mvm_read ::
  "('k::linorder, 'v) mvm \<Rightarrow> 'k \<Rightarrow> timestamp \<Rightarrow> 'v option \<times> ('k, 'v) mvm" where
  "mvm_read m key t =
     (case bm_get (mvm_map m) key of
        Some (lat, versions) \<Rightarrow>
          (find_prior_value versions t,
           m\<lparr>mvm_map := bm_insert key (max lat t, versions) (mvm_map m)\<rparr>)
      | None \<Rightarrow>
          (None,
           if t > min_lat m then m\<lparr>mvm_map := bm_insert key (t, []) (mvm_map m)\<rparr> else m))"

definition update_lat :: "('k::linorder, 'v) mvm \<Rightarrow> 'k \<Rightarrow> timestamp \<Rightarrow> ('k, 'v) mvm" where
  "update_lat m key t =
     (case bm_get (mvm_map m) key of
        Some (lat, versions) \<Rightarrow> m\<lparr>mvm_map := bm_insert key (max lat t, versions) (mvm_map m)\<rparr>
      | None \<Rightarrow> if t > min_lat m then m\<lparr>mvm_map := bm_insert key (t, []) (mvm_map m)\<rparr> else m)"

definition update_all_lats :: "('k, 'v) mvm \<Rightarrow> timestamp \<Rightarrow> ('k, 'v) mvm" where
  "update_all_lats m t =
     (if t > min_lat m
      then m\<lparr>mvm_map := bm_map_values (\<lambda>(lat, versions). (max lat t, versions)) (mvm_map m),
             min_lat := t\<rparr>
      else m)"

definition strong_static_read :: "('k, 'v) mvm \<Rightarrow> 'k \<Rightarrow> timestamp \<Rightarrow> 'v option option" where
  "strong_static_read m key t =
     (case bm_get (mvm_map m) key of
        Some (lat, versions) \<Rightarrow> if t \<le> lat then Some (find_prior_value versions t) else None
      | None \<Rightarrow> if t \<le> min_lat m then Some None else None)"

definition get_last_version :: "('k, 'v) mvm \<Rightarrow> 'k \<Rightarrow> 'v option" where
  "get_last_version m key =
     (case bm_get (mvm_map m) key of
        Some (_, versions) \<Rightarrow> if versions = [] then None else snd (last versions)
      | None \<Rightarrow> None)"

definition get_last_present_version :: "('k, 'v) mvm \<Rightarrow> 'k \<Rightarrow> 'v option" where
  "get_last_present_version m key =
     (case bm_get (mvm_map m) key of
        Some (_, versions) \<Rightarrow>
          (case rfind (\<lambda>version. snd version \<noteq> None) versions of
             Some (_, v) \<Rightarrow> v
           | None \<Rightarrow> None)
      | None \<Rightarrow> None)"

definition static_read_version ::
  "('k, 'v) mvm \<Rightarrow> 'k \<Rightarrow> timestamp \<Rightarrow> (timestamp \<times> 'v option) option" where
  "static_read_version m key t =
     (case bm_get (mvm_map m) key of
        Some (_, versions) \<Rightarrow> find_prior_version versions t
      | None \<Rightarrow> None)"

definition static_read :: "('k, 'v) mvm \<Rightarrow> 'k \<Rightarrow> timestamp \<Rightarrow> 'v option" where
  "static_read m key t =
     (case static_read_version m key t of Some (_, v) \<Rightarrow> v | None \<Rightarrow> None)"

definition static_snapshot_read :: "('k::linorder, 'v) mvm \<Rightarrow> timestamp \<Rightarrow> ('k, 'v) btree" where
  "static_snapshot_read m t =
     fold (\<lambda>(key, (_, versions)) snapshot.
             (case find_prior_value versions t of
                Some v \<Rightarrow> bm_insert key v snapshot
              | None \<Rightarrow> snapshot)) (mvm_map m) []"

definition get_lat :: "('k, 'v) mvm \<Rightarrow> 'k \<Rightarrow> timestamp" where
  "get_lat m key =
     (case bm_get (mvm_map m) key of Some (lat, _) \<Rightarrow> lat | None \<Rightarrow> min_lat m)"

definition get_min_lat :: "('k, 'v) mvm \<Rightarrow> timestamp" where
  "get_min_lat m = min_lat m"

definition get_latest_lat :: "('k, 'v) mvm \<Rightarrow> timestamp" where
  "get_latest_lat m = fold (\<lambda>(_, (lat, _)) latest. max latest lat) (mvm_map m) (min_lat m)"

section \<open>The invariant and the steps\<close>

text \<open>
  Versions are in strictly ascending order of time, none lies beyond the LAT of its key, and
  no LAT lies below \<open>min_lat\<close>.
\<close>

definition versions_ok :: "'v versions \<Rightarrow> timestamp \<Rightarrow> bool" where
  "versions_ok versions lat \<longleftrightarrow>
     sorted_wrt (<) (map fst versions) \<and> (\<forall>ver \<in> set versions. fst ver \<le> lat)"

definition mvm_inv :: "('k::linorder, 'v) mvm \<Rightarrow> bool" where
  "mvm_inv m \<longleftrightarrow> bm_wf (mvm_map m) \<and>
     (\<forall>(key, (lat, versions)) \<in> set (mvm_map m). min_lat m \<le> lat \<and> versions_ok versions lat)"

text \<open>One call of a method that changes the map.\<close>

inductive mvm_step :: "('k::linorder, 'v) mvm \<Rightarrow> ('k, 'v) mvm \<Rightarrow> bool" where
  step_write: "mvm_write m key v t = Some m' \<Longrightarrow> mvm_step m m'"
| step_read: "mvm_read m key t = (v, m') \<Longrightarrow> mvm_step m m'"
| step_update_lat: "mvm_step m (update_lat m key t)"
| step_update_all_lats: "mvm_step m (update_all_lats m t)"

section \<open>The contract of a multi-versioned store\<close>

locale versioned_store =
  fixes inv :: "'s \<Rightarrow> bool"
    and lat :: "'s \<Rightarrow> 'k \<Rightarrow> 't::linorder"
    and val :: "'s \<Rightarrow> 'k \<Rightarrow> 't \<Rightarrow> 'v option"
    and step :: "'s \<Rightarrow> 's \<Rightarrow> bool"
  assumes step_inv: "inv s \<Longrightarrow> step s s' \<Longrightarrow> inv s'"
    and step_lat: "inv s \<Longrightarrow> step s s' \<Longrightarrow> lat s k \<le> lat s' k"
    and step_val: "inv s \<Longrightarrow> step s s' \<Longrightarrow> t \<le> lat s k \<Longrightarrow> val s' k t = val s k t"
begin

lemma steps_inv: "step\<^sup>*\<^sup>* s s' \<Longrightarrow> inv s \<Longrightarrow> inv s'"
  by (induction rule: rtranclp_induct) (auto intro: step_inv)

lemma steps_lat: "step\<^sup>*\<^sup>* s s' \<Longrightarrow> inv s \<Longrightarrow> lat s k \<le> lat s' k"
proof (induction rule: rtranclp_induct)
  case (step y z)
  then show ?case by (meson order_trans step_lat steps_inv)
qed simp

lemma steps_val:
  assumes "step\<^sup>*\<^sup>* s s'" and "inv s" and "t \<le> lat s k"
  shows "val s' k t = val s k t"
  using assms
proof (induction rule: rtranclp_induct)
  case (step y z)
  then have "t \<le> lat y k" by (meson order_trans steps_lat)
  with step show ?case by (metis step_val steps_inv)
qed simp

end

section \<open>Lemmas: versions\<close>

lemma find_prior_version_snoc [simp]:
  "find_prior_version (versions @ [(t, v)]) t' =
     (if t \<le> t' then Some (t, v) else find_prior_version versions t')"
  by (simp add: find_prior_version_def)

lemma find_prior_value_snoc [simp]:
  "find_prior_value (versions @ [(t, v)]) t' =
     (if t \<le> t' then v else find_prior_value versions t')"
  by (simp add: find_prior_value_def)

lemma find_prior_Nil [simp]:
  "find_prior_version [] t = None" "find_prior_value [] t = None"
  by (simp_all add: find_prior_version_def find_prior_value_def)

lemma find_prior_value_single [simp]:
  "find_prior_value [(t, v)] t' = (if t \<le> t' then v else None)"
  using find_prior_value_snoc [of "[]" t v t'] by simp

lemma versions_ok_simps [simp]:
  "versions_ok [] lat"
  "versions_ok (versions @ [(t, v)]) lat \<longleftrightarrow>
     versions_ok versions lat \<and> t \<le> lat \<and> (\<forall>ver \<in> set versions. fst ver < t)"
  by (auto simp: versions_ok_def sorted_wrt_append)

lemma versions_ok_mono: "versions_ok versions lat \<Longrightarrow> lat \<le> lat' \<Longrightarrow> versions_ok versions lat'"
  by (auto simp: versions_ok_def)

text \<open>The last version is the one a read at the LAT, or later, returns.\<close>

lemma find_prior_value_last:
  assumes "versions_ok versions lat" and "lat \<le> t"
  shows "find_prior_value versions t = (if versions = [] then None else snd (last versions))"
proof (cases versions rule: rev_cases)
  case (snoc vs ver)
  with assms show ?thesis by (cases ver) (auto dest: order_trans)
qed simp

lemma mvm_inv_get:
  "mvm_inv m \<Longrightarrow> bm_get (mvm_map m) key = Some (lat, versions) \<Longrightarrow>
     min_lat m \<le> lat \<and> versions_ok versions lat"
  by (auto simp: mvm_inv_def dest!: map_of_SomeD)

lemma mvm_inv_alt:
  "mvm_inv m \<longleftrightarrow> bm_wf (mvm_map m) \<and>
     (\<forall>key lat versions. bm_get (mvm_map m) key = Some (lat, versions) \<longrightarrow>
        min_lat m \<le> lat \<and> versions_ok versions lat)"
  by (auto simp: mvm_inv_def bm_get_set) (auto simp: bm_get_set [symmetric])

section \<open>Lemmas: the methods keep the invariant\<close>

lemma mvm_inv_new: "mvm_inv mvm_new"
  by (simp add: mvm_new_def mvm_inv_def)

lemma mvm_inv_init: "mvm_inv (mvm_init vals)"
proof -
  let ?es = "map (\<lambda>(key, v). (key, (mk_t 0, [(mk_t 0, Some v)]))) vals"
  have init: "mvm_map (mvm_init vals) = bm_of_list ?es"
    by (simp add: mvm_init_def bm_of_list_def fold_map o_def case_prod_unfold)
  have "min_lat (mvm_init vals) = mk_t 0" by (simp add: mvm_init_def)
  then show ?thesis
    by (auto simp: mvm_inv_alt init bm_get_of_list versions_ok_def dest!: map_of_SomeD)
qed

lemma mvm_inv_write: "mvm_inv m \<Longrightarrow> mvm_write m key v t = Some m' \<Longrightarrow> mvm_inv m'"
  unfolding mvm_inv_alt mvm_write_def
  by (fastforce split: option.splits if_splits intro: versions_ok_mono simp: versions_ok_def sorted_wrt_append)

lemma mvm_inv_read: "mvm_inv m \<Longrightarrow> mvm_inv (snd (mvm_read m key t))"
  unfolding mvm_inv_alt mvm_read_def
  by (fastforce split: option.splits if_splits intro: versions_ok_mono simp: le_max_iff_disj)

lemma mvm_inv_update_lat: "mvm_inv m \<Longrightarrow> mvm_inv (update_lat m key t)"
  unfolding mvm_inv_alt update_lat_def
  by (fastforce split: option.splits if_splits intro: versions_ok_mono simp: le_max_iff_disj)

lemma mvm_inv_update_all_lats: "mvm_inv m \<Longrightarrow> mvm_inv (update_all_lats m t)"
  unfolding mvm_inv_alt update_all_lats_def
  by (auto intro: versions_ok_mono [OF _ max.cobounded1] split: if_splits)

lemma mvm_step_inv: "mvm_step m m' \<Longrightarrow> mvm_inv m \<Longrightarrow> mvm_inv m'"
  by (induction rule: mvm_step.induct)
    (auto intro: mvm_inv_write mvm_inv_update_lat mvm_inv_update_all_lats, metis mvm_inv_read snd_conv)

section \<open>Lemmas: what the methods do to LATs and values\<close>

lemma get_lat_write:
  "mvm_write m key v t = Some m' \<Longrightarrow> get_lat m' k = (if k = key then t else get_lat m k)"
  by (auto simp: mvm_write_def get_lat_def split: option.splits if_splits)

lemma static_read_alt: "static_read m key t =
    (case bm_get (mvm_map m) key of Some (_, versions) \<Rightarrow> find_prior_value versions t | None \<Rightarrow> None)"
  by (auto simp: static_read_def static_read_version_def find_prior_value_def split: option.splits)

lemma static_read_write:
  "mvm_write m key v t = Some m' \<Longrightarrow>
     static_read m' k t' = (if k = key \<and> t \<le> t' then v else static_read m k t')"
  by (auto simp: mvm_write_def static_read_alt split: option.splits if_splits)

lemma mvm_write_defined: "mvm_write m key v t = None \<longleftrightarrow> \<not> get_lat m key < t"
  by (auto simp: mvm_write_def get_lat_def split: option.splits)

lemma mvm_read_value: "fst (mvm_read m key t) = static_read m key t"
  by (auto simp: mvm_read_def static_read_alt split: option.splits)

lemma static_read_read: "static_read (snd (mvm_read m key t)) k t' = static_read m k t'"
  by (auto simp: mvm_read_def static_read_alt split: option.splits)

lemma get_lat_read:
  "get_lat (snd (mvm_read m key t)) k = (if k = key then max (get_lat m key) t else get_lat m k)"
  by (auto simp: mvm_read_def get_lat_def max_def split: option.splits)

lemma static_read_update_lat: "static_read (update_lat m key t) k t' = static_read m k t'"
  by (auto simp: update_lat_def static_read_alt split: option.splits)

lemma get_lat_update_lat:
  "get_lat (update_lat m key t) k = (if k = key then max (get_lat m key) t else get_lat m k)"
  by (auto simp: update_lat_def get_lat_def max_def split: option.splits)

lemma static_read_update_all_lats: "static_read (update_all_lats m t) k t' = static_read m k t'"
  by (auto simp: update_all_lats_def static_read_alt split: option.splits)

lemma get_lat_update_all_lats: "mvm_inv m \<Longrightarrow> get_lat (update_all_lats m t) k = max (get_lat m k) t"
  by (auto simp: update_all_lats_def get_lat_def max_def dest: mvm_inv_get split: option.splits)

lemmas mvm_lat_simps = get_lat_write get_lat_read get_lat_update_lat get_lat_update_all_lats
lemmas mvm_val_simps = static_read_write static_read_read static_read_update_lat
  static_read_update_all_lats

lemma mvm_step_lat: "mvm_step m m' \<Longrightarrow> mvm_inv m \<Longrightarrow> get_lat m k \<le> get_lat m' k"
proof (induction rule: mvm_step.induct)
  case (step_write m key v t m')
  then have "get_lat m key < t" by (metis mvm_write_defined option.distinct(1))
  with step_write show ?case by (auto simp: mvm_lat_simps)
next
  case (step_read m key t v m')
  then show ?case using get_lat_read [of m key t k] by simp
qed (simp_all add: mvm_lat_simps)

lemma mvm_step_val:
  "mvm_step m m' \<Longrightarrow> mvm_inv m \<Longrightarrow> t \<le> get_lat m k \<Longrightarrow> static_read m' k t = static_read m k t"
proof (induction rule: mvm_step.induct)
  case (step_write m key v t' m')
  then have "get_lat m key < t'" by (metis mvm_write_defined option.distinct(1))
  with step_write show ?case by (auto simp: mvm_val_simps)
next
  case (step_read m key t' v m')
  then show ?case using static_read_read [of m key t' k t] by simp
qed (simp_all add: mvm_val_simps)

interpretation mvm: versioned_store mvm_inv get_lat static_read mvm_step
  by unfold_locales (auto intro: mvm_step_inv mvm_step_lat mvm_step_val)

lemma strong_static_read_alt:
  "mvm_inv m \<Longrightarrow> strong_static_read m k t = (if t \<le> get_lat m k then Some (static_read m k t) else None)"
  by (auto simp: strong_static_read_def get_lat_def static_read_alt split: option.splits)

section \<open>Lemmas: snapshots and extrema\<close>

lemma get_snapshot_fold:
  "bm_wf es \<Longrightarrow> (\<And>k. k \<in> fst ` set es \<Longrightarrow> bm_get acc k = None) \<Longrightarrow>
   bm_get (fold (\<lambda>(key, (_, versions)) snapshot.
             (case find_prior_value versions t of
                Some v \<Rightarrow> bm_insert key v snapshot
              | None \<Rightarrow> snapshot)) es acc) k =
     (case bm_get es k of Some (_, versions) \<Rightarrow> find_prior_value versions t | None \<Rightarrow> bm_get acc k)"
proof (induction es arbitrary: acc)
  case (Cons e es)
  obtain key lat versions where e: "e = (key, (lat, versions))" by (metis surj_pair)
  let ?acc = "case find_prior_value versions t of Some v \<Rightarrow> bm_insert key v acc | None \<Rightarrow> acc"
  have fresh: "key \<notin> fst ` set es" using Cons.prems(1) by (auto simp: e)
  then have "bm_get ?acc k' = None" if "k' \<in> fst ` set es" for k'
    using that Cons.prems(2) by (auto split: option.splits)
  with Cons.IH [of ?acc] Cons.prems fresh show ?case
    by (auto simp: e bm_get_None [THEN iffD2] split: option.splits)
qed simp

lemma fold_max_bounds:
  "(\<forall>x \<in> set xs. f x \<le> fold (\<lambda>x acc. max acc (f x)) xs a) \<and>
   a \<le> fold (\<lambda>x acc. max acc (f x)) xs a \<and>
   fold (\<lambda>x acc. max acc (f x)) xs (a :: 'b :: linorder) \<in> insert a (f ` set xs)"
proof (induction xs arbitrary: a)
  case (Cons x xs)
  have "max a (f x) \<in> {a, f x}" by (auto simp: max_def)
  with Cons.IH [of "max a (f x)"] show ?case by auto
qed simp

lemma get_latest_lat_alt:
  "get_latest_lat m = fold (\<lambda>e acc. max acc (fst (snd e))) (mvm_map m) (min_lat m)"
  unfolding get_latest_lat_def by (rule fold_cong) auto

lemma static_snapshot_read_get:
  "mvm_inv m \<Longrightarrow> bm_get (static_snapshot_read m t) k = static_read m k t"
  unfolding static_snapshot_read_def static_read_alt
  by (subst get_snapshot_fold) (auto simp: mvm_inv_def split: option.splits)

lemma mvm_inv_lats: "mvm_inv m \<Longrightarrow> e \<in> set (mvm_map m) \<Longrightarrow> get_lat m (fst e) = fst (snd e)"
  using bm_get_set [of "mvm_map m" "fst e" "snd e"] by (auto simp: mvm_inv_def get_lat_def case_prod_unfold)

section \<open>Properties\<close>

text \<open>A map with one key, written at 2 and 4.\<close>

definition ex_mvm :: "(nat, nat) mvm" where
  "ex_mvm = \<lparr>min_lat = mk_t 0, mvm_map = [(7, (mk_t 4, [(mk_t 2, Some 20), (mk_t 4, None)]))]\<rparr>"

lemma ex_mvm_inv: "mvm_inv ex_mvm"
  by (simp add: ex_mvm_def mvm_inv_def versions_ok_def less_timestamp_def less_eq_timestamp_def mk_t_def)

text \<open>
  C19: Reads are idempotent. Once a key has been read at \<open>t\<close>, its LAT covers \<open>t\<close>, and whatever
  methods are called on the map later, in any order and number, a read of the key at \<open>t\<close>,
  also the static one that asserts the LAT, returns the same value.
\<close>

theorem mvm_read_stable:
  assumes "mvm_inv m" and "mvm_read m key t = (v, m')" and "mvm_step\<^sup>*\<^sup>* m' m''"
  shows "mvm_inv m'' \<and> t \<le> get_lat m'' key \<and> fst (mvm_read m'' key t) = v \<and>
    strong_static_read m'' key t = Some v"
proof -
  have inv: "mvm_inv m'" using assms(1,2) mvm_inv_read [of m key t] by simp
  have lat: "t \<le> get_lat m' key" and v: "v = static_read m' key t"
    using assms(2) get_lat_read [of m key t key] mvm_read_value [of m key t] static_read_read [of m key t key t]
    by simp_all
  note inv'' = mvm.steps_inv [OF assms(3) inv]
  have "t \<le> get_lat m'' key" using mvm.steps_lat [OF assms(3) inv, of key] lat by simp
  with inv'' mvm.steps_val [OF assms(3) inv lat] show ?thesis
    by (simp add: strong_static_read_alt mvm_read_value v)
qed

theorem mvm_read_stable_witness:
  "\<exists>m'. mvm_write (snd (mvm_read ex_mvm 7 (mk_t 3))) 7 (Some 90) (mk_t 5) = Some m' \<and>
     strong_static_read m' 7 (mk_t 3) = Some (Some 20)"
proof -
  obtain v m1 where read: "mvm_read ex_mvm 7 (mk_t 3) = (v, m1)" by fastforce
  then have v: "v = Some 20" by (simp add: ex_mvm_def mvm_read_def find_prior_value_def
        find_prior_version_def rfind_def less_eq_timestamp_def mk_t_def)
  have "mvm_write m1 7 (Some 90) (mk_t 5) \<noteq> None"
  proof -
    have "get_lat ex_mvm 7 = mk_t 4" by (simp add: ex_mvm_def get_lat_def)
    then have "get_lat m1 7 = mk_t 4"
      using get_lat_read [of ex_mvm 7 "mk_t 3" 7]
      unfolding read by (simp add: max_def less_eq_timestamp_def mk_t_def)
    then show ?thesis by (simp add: mvm_write_defined less_timestamp_def mk_t_def)
  qed
  then obtain m2 where wr: "mvm_write m1 7 (Some 90) (mk_t 5) = Some m2" by auto
  then have "mvm_step\<^sup>*\<^sup>* m1 m2" by (blast intro: step_write)
  from mvm_read_stable [OF ex_mvm_inv read this] show ?thesis using read wr v by simp
qed

text \<open>
  C29: A write is accepted exactly beyond the LAT of its key (the \<open>assert!\<close> fails otherwise);
  it keeps the invariant, moves the LAT to its timestamp, and is seen by reads from its
  timestamp on, and by no other read.
\<close>

theorem mvm_write_spec:
  assumes "mvm_inv m"
  shows "(case mvm_write m key v t of
     None \<Rightarrow> \<not> get_lat m key < t
   | Some m' \<Rightarrow> get_lat m key < t \<and> mvm_inv m' \<and>
       get_lat m' = (get_lat m)(key := t) \<and>
       (\<forall>k t'. static_read m' k t' = (if k = key \<and> t \<le> t' then v else static_read m k t')))"
  using assms mvm_write_defined [of m key v t]
  by (auto simp: mvm_inv_write static_read_write fun_eq_iff get_lat_write split: option.split)

theorem mvm_write_spec_witness:
  "mvm_write ex_mvm 7 (Some 9) (mk_t 3) = None"
  using mvm_write_spec [OF ex_mvm_inv, of 7 "mk_t 3" "Some 9"]
  by (simp add: ex_mvm_def get_lat_def less_timestamp_def mk_t_def split: option.splits)

text \<open>
  C30: The derived readings agree with the static read: a snapshot holds the value of every key
  at its time, the last version is what a read at the LAT or later returns, and the latest
  LAT is the greatest of the LATs of the keys in the map and of \<open>min_lat\<close>, the LAT of all others.
\<close>

theorem mvm_derived_reads:
  assumes "mvm_inv m"
  shows "bm_get (static_snapshot_read m t) key = static_read m key t \<and>
    (get_lat m key \<le> t \<longrightarrow> get_last_version m key = static_read m key t) \<and>
    get_latest_lat m = Max (insert (min_lat m) (get_lat m ` set (bm_keys (mvm_map m))))"
proof -
  have "get_lat m ` set (bm_keys (mvm_map m)) = (\<lambda>e. fst (snd e)) ` set (mvm_map m)"
    using mvm_inv_lats [OF assms] by (force simp: bm_keys_def)
  then have "get_latest_lat m = Max (insert (min_lat m) (get_lat m ` set (bm_keys (mvm_map m))))"
    using fold_max_bounds [of "mvm_map m" "\<lambda>e. fst (snd e)" "min_lat m"]
    unfolding get_latest_lat_alt by (intro Max_eqI [symmetric]) auto
  moreover have "get_last_version m key = static_read m key t" if "get_lat m key \<le> t"
    using that mvm_inv_get [OF assms, of key] find_prior_value_last [of _ _ t]
    by (fastforce simp: get_last_version_def static_read_alt get_lat_def split: option.splits)
  ultimately show ?thesis by (simp add: static_snapshot_read_get assms)
qed

theorem mvm_derived_reads_witness:
  "bm_get (static_snapshot_read ex_mvm (mk_t 3)) 7 = Some 20 \<and> get_latest_lat ex_mvm = Max {min_lat ex_mvm, get_lat ex_mvm 7}"
  using mvm_derived_reads [OF ex_mvm_inv, of "mk_t 3" 7]
  by (simp add: bm_keys_def ex_mvm_def static_read_def static_read_version_def find_prior_version_def rfind_def
      less_eq_timestamp_def mk_t_def)

end
