(* ===== verification/Schema.thy ===== *)
theory Schema
  imports Expression Multiversion_Map
begin

text \<open>
  Table schemas, the gossiped system metadata and the leader map, from \<open>src/src/common.rs\<close>. A
  closure that edits the gossip data through its mutable view is a function on the record
  \<open>gossip_view\<close>, applied by \<open>gossip_update\<close>, the only mutator.
\<close>

record table_schema =
  key_cols :: "(col_name \<times> col_type) list"
  val_cols :: "(col_name, col_type) mvm"

fun schema_writes ::
  "(col_name \<times> col_type) list \<Rightarrow> (col_name, col_type) mvm \<Rightarrow> (col_name, col_type) mvm option" where
  "schema_writes [] m = Some m"
| "schema_writes ((col, ct) # cols) m =
     do { m' \<leftarrow> mvm_write m col (Some ct) (mk_t 1); schema_writes cols m' }"

definition table_schema_new ::
  "(col_name \<times> col_type) list \<Rightarrow> (col_name \<times> col_type) list \<Rightarrow> table_schema option" where
  "table_schema_new kcs vcs =
     map_option (\<lambda>m. \<lparr>key_cols = kcs, val_cols = m\<rparr>) (schema_writes vcs mvm_new)"

definition get_key_col_refs :: "table_schema \<Rightarrow> string \<Rightarrow> column_ref list" where
  "get_key_col_refs s table_name = map (\<lambda>(col, _). ColumnRef table_name col) (key_cols s)"

fun push_val_cols :: "col_name list \<Rightarrow> col_name list \<Rightarrow> col_name list option" where
  "push_val_cols all_cols [] = Some all_cols"
| "push_val_cols all_cols (col # cols) =
     (if col \<in> set all_cols then None else push_val_cols (add_item all_cols col) cols)"

definition get_schema_static :: "table_schema \<Rightarrow> timestamp \<Rightarrow> col_name list option" where
  "get_schema_static s t =
     push_val_cols (map fst (key_cols s)) (bm_keys (static_snapshot_read (val_cols s) t))"

definition get_schema_val_cols_static :: "table_schema \<Rightarrow> timestamp \<Rightarrow> col_name list" where
  "get_schema_val_cols_static s t = bm_keys (static_snapshot_read (val_cols s) t)"

definition is_valid_range_key :: "table_schema \<Rightarrow> col_val option \<Rightarrow> bool" where
  "is_valid_range_key s range_key =
     (case range_key of
        Some k \<Rightarrow>
          (case key_cols s of
             (_, first_key_type) # _ \<Rightarrow> does_types_match first_key_type (Some k)
           | [] \<Rightarrow> False)
      | None \<Rightarrow> True)"

section \<open>Gossip data\<close>

type_synonym full_gen = "gen \<times> sharding_gen"

record gossip_view =
  db_schema :: "(table_path \<times> gen, table_schema) btree"
  table_generation :: "(table_path, full_gen) mvm"
  sharding_config :: "(table_path \<times> full_gen, (tablet_key_range \<times> tablet_group_id) list) btree"
  tablet_address_config :: "(tablet_group_id, slave_group_id) btree"
  slave_address_config :: "(slave_group_id, endpoint_id list) btree"
  master_address_config :: "endpoint_id list"

record gossip_data =
  gossip_gen :: gen
  gossip_get :: gossip_view

definition gossip_new ::
  "(slave_group_id, endpoint_id list) btree \<Rightarrow> endpoint_id list \<Rightarrow> gossip_data" where
  "gossip_new slaves masters =
     \<lparr>gossip_gen = 0,
      gossip_get = \<lparr>db_schema = [], table_generation = mvm_new, sharding_config = [],
        tablet_address_config = [], slave_address_config = slaves,
        master_address_config = masters\<rparr>\<rparr>"

definition gossip_update :: "gossip_data \<Rightarrow> (gossip_view \<Rightarrow> 'r \<times> gossip_view) \<Rightarrow> 'r \<times> gossip_data" where
  "gossip_update g func =
     (case func (gossip_get g) of
        (r, view) \<Rightarrow> (r, \<lparr>gossip_gen = gen_next (gossip_gen g), gossip_get = view\<rparr>))"

section \<open>The leader map\<close>

type_synonym leader_map = "(paxos_group_id, leadership_id) btree"

fun add_new_gids ::
  "slave_group_id list \<Rightarrow> leader_map versioned_value \<Rightarrow> leader_map \<Rightarrow> leader_map versioned_value option" where
  "add_new_gids [] lm some_lm = Some lm"
| "add_new_gids (sid # sids) lm some_lm =
     do { lid \<leftarrow> bm_get some_lm (SlaveGid sid);
          add_new_gids sids (vv_update lm (bm_insert (SlaveGid sid) lid)) some_lm }"

definition update_leader_map ::
  "leader_map versioned_value \<Rightarrow> gossip_data \<Rightarrow> leader_map \<Rightarrow> gossip_data
    \<Rightarrow> leader_map versioned_value option" where
  "update_leader_map lm old_gossip some_lm new_gossip =
     (let old_sids = bm_keys (slave_address_config (gossip_get old_gossip));
          new_sids = bm_keys (slave_address_config (gossip_get new_gossip))
      in do { lm' \<leftarrow> add_new_gids (filter (\<lambda>sid. sid \<notin> set old_sids) new_sids) lm some_lm;
              Some (fold (\<lambda>sid lm. vv_update lm (bm_remove (SlaveGid sid)))
                      (filter (\<lambda>sid. sid \<notin> set new_sids) old_sids) lm') })"

fun add_new_gids_unversioned ::
  "slave_group_id list \<Rightarrow> leader_map \<Rightarrow> leader_map \<Rightarrow> leader_map option" where
  "add_new_gids_unversioned [] lm some_lm = Some lm"
| "add_new_gids_unversioned (sid # sids) lm some_lm =
     do { lid \<leftarrow> bm_get some_lm (SlaveGid sid);
          add_new_gids_unversioned sids (bm_insert (SlaveGid sid) lid lm) some_lm }"

definition update_leader_map_unversioned ::
  "leader_map \<Rightarrow> gossip_data \<Rightarrow> leader_map \<Rightarrow> gossip_data \<Rightarrow> leader_map option" where
  "update_leader_map_unversioned lm old_gossip some_lm new_gossip =
     (let old_sids = bm_keys (slave_address_config (gossip_get old_gossip));
          new_sids = bm_keys (slave_address_config (gossip_get new_gossip))
      in do { lm' \<leftarrow> add_new_gids_unversioned (filter (\<lambda>sid. sid \<notin> set old_sids) new_sids) lm some_lm;
              Some (fold (\<lambda>sid lm. bm_remove (SlaveGid sid) lm)
                      (filter (\<lambda>sid. sid \<notin> set new_sids) old_sids) lm') })"

section \<open>Lemmas\<close>

text \<open>The two versions of the update do the same to the map.\<close>

lemma add_new_gids_value:
  "map_option vv_value (add_new_gids sids lm some_lm) =
     add_new_gids_unversioned sids (vv_value lm) some_lm"
  by (induction sids arbitrary: lm)
    (auto simp: vv_update_def bind_eq_None_conv split: option.splits Option.bind_split)

lemma fold_vv_value:
  "vv_value (fold (\<lambda>sid lm. vv_update lm (f sid)) sids lm) = fold f sids (vv_value lm)"
  by (induction sids arbitrary: lm) (auto simp: vv_update_def)

lemma add_new_gids_unversioned_get:
  assumes "add_new_gids_unversioned sids lm some_lm = Some lm'"
  shows "bm_get lm' gid =
    (if gid \<in> SlaveGid ` set sids then bm_get some_lm gid else bm_get lm gid)"
  using assms
proof (induction sids arbitrary: lm)
  case (Cons sid sids)
  then show ?case by (auto simp: bind_eq_Some_conv)
qed simp

lemma add_new_gids_unversioned_None:
  "add_new_gids_unversioned sids lm some_lm = None \<Longrightarrow> \<exists>sid \<in> set sids. bm_get some_lm (SlaveGid sid) = None"
  by (induction sids arbitrary: lm) (auto simp: bind_eq_None_conv)

lemma fold_remove_get:
  "bm_get (fold (\<lambda>sid lm. bm_remove (SlaveGid sid) lm) sids lm) gid =
     (if gid \<in> SlaveGid ` set sids then None else bm_get lm gid)"
  by (induction sids arbitrary: lm) auto

section \<open>Properties\<close>

text \<open>
  C35: When the gossip changes the set of slave groups, the updated leader map has the leaders
  of the added groups from the sender's map, drops the removed groups and keeps the others;
  it panics exactly when the sender's map lacks an added group. The versioned update does
  the same to its value.
\<close>

theorem update_leader_map_spec:
  fixes old_gossip new_gossip :: gossip_data
  defines "old_sids \<equiv> bm_keys (slave_address_config (gossip_get old_gossip))"
    and "new_sids \<equiv> bm_keys (slave_address_config (gossip_get new_gossip))"
  shows "map_option vv_value (update_leader_map lm old_gossip some_lm new_gossip) =
      update_leader_map_unversioned (vv_value lm) old_gossip some_lm new_gossip \<and>
    (case update_leader_map_unversioned (vv_value lm) old_gossip some_lm new_gossip of
       None \<Rightarrow> \<exists>sid. sid \<in> set new_sids - set old_sids \<and> bm_get some_lm (SlaveGid sid) = None
     | Some lm' \<Rightarrow> \<forall>gid. bm_get lm' gid =
         (if gid \<in> SlaveGid ` (set old_sids - set new_sids) then None
          else if gid \<in> SlaveGid ` (set new_sids - set old_sids) then bm_get some_lm gid
          else bm_get (vv_value lm) gid))"
proof
  let ?new = "filter (\<lambda>sid. sid \<notin> set old_sids) new_sids"
  show "map_option vv_value (update_leader_map lm old_gossip some_lm new_gossip) =
      update_leader_map_unversioned (vv_value lm) old_gossip some_lm new_gossip"
    using add_new_gids_value [of ?new lm some_lm]
    by (cases "add_new_gids ?new lm some_lm")
      (simp_all add: update_leader_map_def update_leader_map_unversioned_def Let_def fold_vv_value
        old_sids_def new_sids_def, metis bind.bind_lunit)
  show "case update_leader_map_unversioned (vv_value lm) old_gossip some_lm new_gossip of
       None \<Rightarrow> \<exists>sid. sid \<in> set new_sids - set old_sids \<and> bm_get some_lm (SlaveGid sid) = None
     | Some lm' \<Rightarrow> \<forall>gid. bm_get lm' gid =
         (if gid \<in> SlaveGid ` (set old_sids - set new_sids) then None
          else if gid \<in> SlaveGid ` (set new_sids - set old_sids) then bm_get some_lm gid
          else bm_get (vv_value lm) gid)"
  proof (cases "add_new_gids_unversioned ?new (vv_value lm) some_lm")
    case None
    then show ?thesis
      using add_new_gids_unversioned_None [OF None]
      by (auto simp: update_leader_map_unversioned_def Let_def old_sids_def new_sids_def)
  next
    case (Some lm1)
    then show ?thesis
      using add_new_gids_unversioned_get [OF Some]
      by (auto simp: update_leader_map_unversioned_def Let_def fold_remove_get
          simp flip: old_sids_def new_sids_def)
  qed
qed

end
