(* ===== verification/Key_Bounds.thy ===== *)
theory Key_Bounds
  imports Expression
begin

text \<open>
  What the bounds and regions of \<open>src/src/expression.rs\<close> mean and that the computations on
  them are right: intersection and complement of bounds are exact, the emptiness and
  intersection tests never miss a common key, and the key region of a WHERE clause holds
  every key the clause accepts. The locale \<open>bound_trait\<close> states what the code relies on of an
  implementation of \<open>BoundType\<close>; it is interpreted on the three implementations.
\<close>

section \<open>Membership\<close>

fun above_start :: "'t::linorder single_bound \<Rightarrow> 't \<Rightarrow> bool" where
  "above_start (Included b) x = (b \<le> x)"
| "above_start (Excluded b) x = (b < x)"
| "above_start Unbounded x = True"

fun below_end :: "'t::linorder single_bound \<Rightarrow> 't \<Rightarrow> bool" where
  "below_end (Included b) x = (x \<le> b)"
| "below_end (Excluded b) x = (x < b)"
| "below_end Unbounded x = True"

definition in_col_bound :: "'t::linorder col_bound \<Rightarrow> 't \<Rightarrow> bool" where
  "in_col_bound b x \<longleftrightarrow> above_start (cb_start b) x \<and> below_end (cb_end b) x"

definition in_col_bounds :: "'t::linorder col_bound list \<Rightarrow> 't \<Rightarrow> bool" where
  "in_col_bounds bs x \<longleftrightarrow> (\<exists>b \<in> set bs. in_col_bound b x)"

fun poly_contains :: "poly_col_bound \<Rightarrow> col_val \<Rightarrow> bool" where
  "poly_contains (PCB_Int b) (CV_Int x) = in_col_bound b x"
| "poly_contains (PCB_Bool b) (CV_Bool x) = in_col_bound b x"
| "poly_contains (PCB_String b) (CV_String x) = in_col_bound b x"
| "poly_contains _ _ = False"

definition key_bound_contains :: "key_bound \<Rightarrow> primary_key \<Rightarrow> bool" where
  "key_bound_contains kb pkey \<longleftrightarrow> list_all2 poly_contains kb pkey"

definition in_row_region :: "key_bound list \<Rightarrow> primary_key \<Rightarrow> bool" where
  "in_row_region region pkey \<longleftrightarrow> (\<exists>kb \<in> set region. key_bound_contains kb pkey)"

text \<open>The type discipline of keys and bounds.\<close>

fun poly_type :: "poly_col_bound \<Rightarrow> col_type" where
  "poly_type (PCB_Int _) = CT_Int"
| "poly_type (PCB_Bool _) = CT_Bool"
| "poly_type (PCB_String _) = CT_String"

fun val_type :: "col_val \<Rightarrow> col_type" where
  "val_type (CV_Int _) = CT_Int"
| "val_type (CV_Bool _) = CT_Bool"
| "val_type (CV_String _) = CT_String"

definition pkey_typed :: "(col_name \<times> col_type) list \<Rightarrow> primary_key \<Rightarrow> bool" where
  "pkey_typed key_cols pkey \<longleftrightarrow> map val_type pkey = map snd key_cols"

definition key_bound_typed :: "(col_name \<times> col_type) list \<Rightarrow> key_bound \<Rightarrow> bool" where
  "key_bound_typed key_cols kb \<longleftrightarrow> map poly_type kb = map snd key_cols"

section \<open>Intersection, emptiness, complement\<close>

lemma in_mk_col_bound [simp]:
  "in_col_bound (mk_col_bound s e) x \<longleftrightarrow> above_start s x \<and> below_end e x"
  by (simp add: in_col_bound_def mk_col_bound_def)

lemma in_full_bound [simp]: "in_col_bound full_bound x"
  by (simp add: full_bound_def)

lemma in_col_bounds_simps [simp]:
  "in_col_bounds [] x = False"
  "in_col_bounds (b # bs) x \<longleftrightarrow> in_col_bound b x \<or> in_col_bounds bs x"
  "in_col_bounds (bs @ bs') x \<longleftrightarrow> in_col_bounds bs x \<or> in_col_bounds bs' x"
  by (auto simp: in_col_bounds_def)

lemma intersect_lower_spec:
  "above_start (intersect_lower l r) x \<longleftrightarrow> above_start l x \<and> above_start r x"
  by (cases "(l, r)" rule: intersect_lower.cases) (auto dest: order_trans le_less_trans)

lemma intersect_upper_spec:
  "below_end (intersect_upper l r) x \<longleftrightarrow> below_end l x \<and> below_end r x"
  by (cases "(l, r)" rule: intersect_upper.cases) (auto dest: order_trans less_le_trans)

lemma intersect_interval_spec:
  assumes "col_bound_intersect_interval l r = (s, e)"
  shows "above_start s x \<and> below_end e x \<longleftrightarrow> in_col_bound l x \<and> in_col_bound r x"
  using assms
  by (auto simp: col_bound_intersect_interval_def in_col_bound_def intersect_lower_spec
      intersect_upper_spec)

lemma surely_empty_sound:
  "is_surely_interval_empty (s, e) \<Longrightarrow> \<not> (above_start s x \<and> below_end e x)"
  by (cases "(s, e)" rule: is_surely_interval_empty.cases) auto

lemma in_col_bounds_intersect:
  "in_col_bounds (col_bounds_intersect ls rs) x \<longleftrightarrow> in_col_bounds ls x \<and> in_col_bounds rs x"
proof
  assume "in_col_bounds (col_bounds_intersect ls rs) x"
  then obtain l r s e where "l \<in> set ls" "r \<in> set rs"
    and "col_bound_intersect_interval l r = (s, e)" and "in_col_bound (mk_col_bound s e) x"
    by (auto simp: in_col_bounds_def col_bounds_intersect_def) (metis in_mk_col_bound)
  then show "in_col_bounds ls x \<and> in_col_bounds rs x"
    using intersect_interval_spec [of l r s e x] by (auto simp: in_col_bounds_def)
next
  assume "in_col_bounds ls x \<and> in_col_bounds rs x"
  then obtain l r where lr: "l \<in> set ls" "r \<in> set rs" "in_col_bound l x" "in_col_bound r x"
    by (auto simp: in_col_bounds_def)
  obtain s e where se: "col_bound_intersect_interval l r = (s, e)" by fastforce
  with lr have "above_start s x \<and> below_end e x" using intersect_interval_spec [of l r s e x] by simp
  moreover from this have "\<not> is_surely_interval_empty (s, e)" using surely_empty_sound [of s e x] by blast
  moreover have "mk_col_bound s e \<in> set (col_bounds_intersect ls rs)"
    if "\<not> is_surely_interval_empty (s, e)"
    using lr se that unfolding col_bounds_intersect_def by force
  ultimately show "in_col_bounds (col_bounds_intersect ls rs) x"
    by (auto simp: in_col_bounds_def intro!: bexI [of _ "mk_col_bound s e"])
qed

lemma in_invert_col_bound: "in_col_bounds (invert_col_bound b) x \<longleftrightarrow> \<not> in_col_bound b x"
  unfolding invert_col_bound_def in_col_bound_def
  by (cases "(cb_start b, cb_end b)" rule: invert_interval.cases) (auto simp: not_le not_less)

lemma in_invert_fold:
  "in_col_bounds (fold (\<lambda>b cum. col_bounds_intersect cum (invert_col_bound b)) bs cum) x \<longleftrightarrow>
     in_col_bounds cum x \<and> \<not> in_col_bounds bs x"
  by (induction bs arbitrary: cum) (auto simp: in_col_bounds_intersect in_invert_col_bound)

lemma might_col_intersect_sound:
  "in_col_bound b1 x \<Longrightarrow> in_col_bound b2 x \<Longrightarrow> might_col_intersect b1 b2"
  unfolding might_col_intersect_def
  using intersect_interval_spec [of b1 b2] surely_empty_sound
  by (metis surj_pair)

section \<open>Key bounds and row regions\<close>

lemma might_key_bound_intersect_loop_sound:
  "list_all2 poly_contains kb1 pkey \<Longrightarrow> list_all2 poly_contains kb2 pkey \<Longrightarrow>
     might_key_bound_intersect_loop (zip kb1 kb2) = Some True"
proof (induction kb1 arbitrary: kb2 pkey)
  case (Cons p1 kb1)
  then obtain v pkey' p2 kb2' where
    "pkey = v # pkey'" "kb2 = p2 # kb2'" "poly_contains p1 v" "poly_contains p2 v"
    and rest: "might_key_bound_intersect_loop (zip kb1 kb2') = Some True"
    by (auto simp: list_all2_Cons1 list_all2_Cons2)
  then show ?case
    by (cases p1; cases v; cases p2) (auto dest: might_col_intersect_sound)
qed simp

lemma might_key_bound_intersect_sound:
  "key_bound_contains kb1 pkey \<Longrightarrow> key_bound_contains kb2 pkey \<Longrightarrow>
     might_key_bound_intersect kb1 kb2 = Some True"
  by (simp add: might_key_bound_intersect_def key_bound_contains_def
      might_key_bound_intersect_loop_sound list_all2_lengthD [of poly_contains _ pkey])

lemma any_opt_False: "any_opt f xs = Some False \<longleftrightarrow> (\<forall>x \<in> set xs. f x = Some False)"
  by (induction xs) (auto split: option.splits bool.splits)

lemma any_opt_True: "any_opt f xs = Some True \<Longrightarrow> \<exists>x \<in> set xs. f x = Some True"
  by (induction xs) (auto split: option.splits bool.splits)

lemma any_opt_total: "(\<And>x. x \<in> set xs \<Longrightarrow> f x \<noteq> None) \<Longrightarrow> any_opt f xs \<noteq> None"
  by (induction xs) (auto split: option.splits bool.splits)

lemma might_row_region_intersect_sound:
  "might_row_region_intersect r1 r2 = Some False \<Longrightarrow> \<not> (in_row_region r1 pkey \<and> in_row_region r2 pkey)"
  by (auto simp: might_row_region_intersect_def any_opt_False in_row_region_def)
    (metis might_key_bound_intersect_sound option.inject)

text \<open>On bounds of the same key columns the test never panics.\<close>

lemma might_key_bound_intersect_loop_total:
  "map poly_type kb1 = map poly_type kb2 \<Longrightarrow> might_key_bound_intersect_loop (zip kb1 kb2) \<noteq> None"
proof (induction kb1 arbitrary: kb2)
  case (Cons p1 kb1)
  then obtain p2 kb2' where "kb2 = p2 # kb2'" by (cases kb2) auto
  with Cons show ?case by (cases p1; cases p2) auto
qed simp

lemma might_row_region_intersect_total:
  assumes "\<forall>kb \<in> set r1. key_bound_typed key_cols kb" and "\<forall>kb \<in> set r2. key_bound_typed key_cols kb"
  shows "might_row_region_intersect r1 r2 \<noteq> None"
  unfolding might_row_region_intersect_def
proof (intro any_opt_total)
  fix kb1 kb2 assume "kb1 \<in> set r1" "kb2 \<in> set r2"
  with assms have ty: "map poly_type kb1 = map poly_type kb2"
    by (simp add: key_bound_typed_def)
  then have "length kb1 = length kb2" by (metis length_map)
  with ty show "might_key_bound_intersect kb1 kb2 \<noteq> None"
    by (simp add: might_key_bound_intersect_def might_key_bound_intersect_loop_total)
qed

section \<open>The contract of \<open>BoundType\<close>\<close>

text \<open>
  A comparison of column values that the evaluator finds true is a comparison in the derived
  order.
\<close>

lemma evaluate_cmp:
  "evaluate_binary_op BO_Gt (Some a) (Some b) = Ok (Some (CV_Bool True)) \<Longrightarrow> b < a"
  "evaluate_binary_op BO_Lt (Some a) (Some b) = Ok (Some (CV_Bool True)) \<Longrightarrow> a < b"
  "evaluate_binary_op BO_GtEq (Some a) (Some b) = Ok (Some (CV_Bool True)) \<Longrightarrow> b \<le> a"
  "evaluate_binary_op BO_LtEq (Some a) (Some b) = Ok (Some (CV_Bool True)) \<Longrightarrow> a \<le> b"
  "evaluate_binary_op BO_Eq (Some a) (Some b) = Ok (Some (CV_Bool True)) \<Longrightarrow> a = b"
  "evaluate_binary_op BO_Spaceship (Some a) (Some b) = Ok (Some (CV_Bool True)) \<Longrightarrow> a = b"
  by (cases a; cases b; simp)+

lemma int_op_null:
  "int_op f (Some a) None \<noteq> Ok (Some v)" "int_op f None (Some a) \<noteq> Ok (Some v)"
  by (cases a; simp)+

lemma evaluate_cmp_null:
  assumes "op \<in> {BO_Gt, BO_Lt, BO_GtEq, BO_LtEq, BO_Eq, BO_Spaceship}"
  shows "evaluate_binary_op op (Some a) None \<noteq> Ok (Some (CV_Bool True))"
    and "evaluate_binary_op op None (Some a) \<noteq> Ok (Some (CV_Bool True))"
  using assms by (auto simp: int_op_null)

text \<open>
  An expression over key columns and unknowns, and a closed expression it stands for: the key
  columns replaced by the values \<open>\<sigma>\<close>, the unknowns by anything.
\<close>

fun instantiates :: "(col_name \<Rightarrow> col_valn) \<Rightarrow> kb_expr \<Rightarrow> cexpr \<Rightarrow> bool" where
  "instantiates \<sigma> (KB_KeyColumnRef c) e = (e = CE_Value (\<sigma> c))"
| "instantiates \<sigma> (KB_UnaryExpr op k) (CE_UnaryExpr op' e) = (op = op' \<and> instantiates \<sigma> k e)"
| "instantiates \<sigma> (KB_BinaryExpr op l r) (CE_BinaryExpr op' l' r') =
     (op = op' \<and> instantiates \<sigma> l l' \<and> instantiates \<sigma> r r')"
| "instantiates \<sigma> (KB_Value v) e = (e = CE_Value v)"
| "instantiates \<sigma> KB_UnknownValue (CE_Value v) = True"
| "instantiates \<sigma> _ _ = False"

lemma instantiates_BinaryE:
  assumes "instantiates \<sigma> (KB_BinaryExpr op l r) c"
  obtains l' r' where "c = CE_BinaryExpr op l' r'" "instantiates \<sigma> l l'" "instantiates \<sigma> r r'"
  using assms by (cases c) auto

lemma evaluate_kb_expr_sound:
  "instantiates \<sigma> k c \<Longrightarrow> evaluate_kb_expr k = Ok (Some v) \<Longrightarrow> evaluate_c_expr c = Ok v"
proof (induction \<sigma> k c arbitrary: v rule: instantiates.induct)
  case (2 \<sigma> op k op' e)
  then show ?case by (auto split: option.splits)
next
  case (3 \<sigma> op l r op' l' r')
  then show ?case by (auto split: option.splits prod.splits)
qed auto

lemma kb_value_sound:
  "kb_value k = Some (Some v) \<Longrightarrow> instantiates \<sigma> k c \<Longrightarrow> evaluate_c_expr c = Ok v"
  by (auto simp: kb_value_def intro: evaluate_kb_expr_sound split: outcome.splits)

text \<open>The constraint a comparison \<open>op\<close> puts on its left and on its right operand.\<close>

definition leaf_ok :: "'t::linorder bound_type \<Rightarrow> binary_op \<Rightarrow> ('t \<Rightarrow> 't col_bound)
    \<Rightarrow> ('t \<Rightarrow> 't col_bound) \<Rightarrow> bool" where
  "leaf_ok bt op left_f right_f \<longleftrightarrow>
     op \<in> {BO_Gt, BO_Lt, BO_GtEq, BO_LtEq, BO_Eq, BO_Spaceship} \<and>
     (\<forall>a b x y. col_val_cast bt a = Some x \<longrightarrow> col_val_cast bt b = Some y \<longrightarrow>
        evaluate_binary_op op (Some a) (Some b) = Ok (Some (CV_Bool True)) \<longrightarrow>
        in_col_bound (left_f y) x \<and> in_col_bound (right_f x) y)"

locale bound_trait =
  fixes bt :: "'t::linorder bound_type"
  assumes cast_le: "col_val_cast bt v = Some x \<Longrightarrow> col_val_cast bt w = Some y \<Longrightarrow> x \<le> y \<longleftrightarrow> v \<le> w"
    and from_poly_iff: "from_poly bt p = Some b \<longleftrightarrow> p = to_poly bt b"
    and contains_to_poly:
      "poly_contains (to_poly bt b) v \<longleftrightarrow> (\<exists>x. col_val_cast bt v = Some x \<and> in_col_bound b x)"
begin

lemma cast_less: "col_val_cast bt a = Some x \<Longrightarrow> col_val_cast bt b = Some y \<Longrightarrow> x < y \<longleftrightarrow> a < b"
  by (simp add: less_le_not_le cast_le)

lemma cast_inj: "col_val_cast bt a = Some x \<Longrightarrow> col_val_cast bt a = Some y \<Longrightarrow> x = y"
  by simp

lemma leaf_ok_ops:
  "leaf_ok bt BO_Gt (\<lambda>v. mk_col_bound (Excluded v) Unbounded) (\<lambda>v. mk_col_bound Unbounded (Excluded v))"
  "leaf_ok bt BO_Lt (\<lambda>v. mk_col_bound Unbounded (Excluded v)) (\<lambda>v. mk_col_bound (Excluded v) Unbounded)"
  "leaf_ok bt BO_GtEq (\<lambda>v. mk_col_bound (Included v) Unbounded) (\<lambda>v. mk_col_bound Unbounded (Included v))"
  "leaf_ok bt BO_LtEq (\<lambda>v. mk_col_bound Unbounded (Included v)) (\<lambda>v. mk_col_bound (Included v) Unbounded)"
  "leaf_ok bt BO_Spaceship (\<lambda>v. mk_col_bound (Included v) (Included v))
     (\<lambda>v. mk_col_bound (Included v) (Included v))"
  "leaf_ok bt BO_Eq (\<lambda>v. mk_col_bound (Included v) (Included v))
     (\<lambda>v. mk_col_bound (Included v) (Included v))"
  unfolding leaf_ok_def
  by (auto dest!: evaluate_cmp simp del: evaluate_binary_op.simps simp: cast_le cast_less)

lemma side_constraint_sound:
  assumes "side_constraint bt other f = Some bs" and "instantiates \<sigma> other c"
    and "evaluate_c_expr c = Ok w" and "w \<noteq> None"
    and "\<And>b y. w = Some b \<Longrightarrow> col_val_cast bt b = Some y \<Longrightarrow> in_col_bound (f y) x"
  shows "in_col_bounds bs x"
proof -
  from assms(1) obtain kv where kv: "kb_value other = Some kv"
    by (auto simp: side_constraint_def)
  show ?thesis
  proof (cases kv)
    case (Some v)
    with kv assms(2,3) have "v = w" using kb_value_sound by fastforce
    with assms(1,4,5) kv Some show ?thesis
      by (auto simp: side_constraint_def col_valn_cast_def split: option.splits)
  qed (use assms(1) kv in \<open>auto simp: side_constraint_def\<close>)
qed

lemma boolean_leaf_cases:
  assumes "boolean_leaf_constraint bt kb col l r left_f right_f = Some bs"
  shows "l = KB_KeyColumnRef col \<and> side_constraint bt r left_f = Some bs \<or>
    r = KB_KeyColumnRef col \<and> side_constraint bt l right_f = Some bs \<or>
    bs = [full_bound] \<or>
    (\<exists>v. kb_value kb = Some (Some v) \<and> (v = Some (CV_Bool False) \<or> v = None))"
  using assms unfolding boolean_leaf_constraint_def
  by (simp split: kb_expr.split_asm if_split_asm option.split_asm add: map_option_case)

lemma boolean_leaf_sound:
  assumes leaf: "leaf_ok bt op left_f right_f"
    and bounds: "boolean_leaf_constraint bt (KB_BinaryExpr op l r) col l r left_f right_f = Some bs"
    and inst: "instantiates \<sigma> (KB_BinaryExpr op l r) c"
    and tr: "evaluate_c_expr c = Ok (Some (CV_Bool True))"
    and key: "\<sigma> col = Some kv" "col_val_cast bt kv = Some x"
  shows "in_col_bounds bs x"
proof -
  from inst obtain l' r' where c: "c = CE_BinaryExpr op l' r'"
    and l': "instantiates \<sigma> l l'" and r': "instantiates \<sigma> r r'"
    by (rule instantiates_BinaryE)
  from tr obtain lv rv where lv: "evaluate_c_expr l' = Ok lv" and rv: "evaluate_c_expr r' = Ok rv"
    and op: "evaluate_binary_op op lv rv = Ok (Some (CV_Bool True))"
    by (auto simp: c)
  from leaf have cmp: "op \<in> {BO_Gt, BO_Lt, BO_GtEq, BO_LtEq, BO_Eq, BO_Spaceship}"
    by (simp add: leaf_ok_def)
  have left: ?thesis if l: "l = KB_KeyColumnRef col" and "side_constraint bt r left_f = Some bs"
  proof (rule side_constraint_sound [OF that(2) r' rv])
    from l l' lv key have lv': "lv = Some kv" by simp
    with op show "rv \<noteq> None" using evaluate_cmp_null(1) [OF cmp, of kv] by (cases rv) auto
    show "in_col_bound (left_f y) x" if "rv = Some b" "col_val_cast bt b = Some y" for b y
      using leaf op key that lv' by (auto simp: leaf_ok_def)
  qed
  have right: ?thesis if r: "r = KB_KeyColumnRef col" and "side_constraint bt l right_f = Some bs"
  proof (rule side_constraint_sound [OF that(2) l' lv])
    from r r' rv key have rv': "rv = Some kv" by simp
    with op show "lv \<noteq> None" using evaluate_cmp_null(2) [OF cmp, of kv] by (cases lv) auto
    show "in_col_bound (right_f y) x" if "lv = Some b" "col_val_cast bt b = Some y" for b y
      using leaf op key that rv' by (auto simp: leaf_ok_def)
  qed
  have "v = Some (CV_Bool True)" if "kb_value (KB_BinaryExpr op l r) = Some (Some v)" for v
    using kb_value_sound [OF that inst] tr by simp
  with left right boolean_leaf_cases [OF bounds] show ?thesis by auto
qed

lemma compute_col_bounds_sound:
  assumes "compute_col_bounds bt k col = Some bs" and "instantiates \<sigma> k c"
    and "evaluate_c_expr c = Ok (Some (CV_Bool True))"
    and "\<sigma> col = Some kv" and "col_val_cast bt kv = Some x"
  shows "in_col_bounds bs x"
  using assms
proof (induction k arbitrary: bs c)
  case (KB_BinaryExpr op l r)
  from KB_BinaryExpr.prems(2) obtain l' r' where c: "c = CE_BinaryExpr op l' r'"
    and inst: "instantiates \<sigma> l l'" "instantiates \<sigma> r r'"
    by (rule instantiates_BinaryE)
  from KB_BinaryExpr.prems(3) obtain lv rv where
    ev: "evaluate_c_expr l' = Ok lv" "evaluate_c_expr r' = Ok rv"
      "evaluate_binary_op op lv rv = Ok (Some (CV_Bool True))"
    by (auto simp: c)
  note leaf = boolean_leaf_sound [OF _ _ KB_BinaryExpr.prems(2-5)]
  have and_: ?case if op: "op = BO_And"
  proof -
    from ev(3) op have "lv = Some (CV_Bool True) \<and> rv = Some (CV_Bool True)"
      by (cases "(lv, rv)" rule: and_op.cases) auto
    with KB_BinaryExpr op inst ev show ?thesis
      by (fastforce simp: merged_col_bounds_def in_col_bounds_intersect bind_eq_Some_conv)
  qed
  have or_: ?case if op: "op = BO_Or"
  proof -
    from ev(3) op have "lv = Some (CV_Bool True) \<or> rv = Some (CV_Bool True)"
      by (cases "(lv, rv)" rule: or_op.cases) (auto split: if_splits)
    with KB_BinaryExpr op inst ev show ?thesis
      by (fastforce simp: merged_col_bounds_def bind_eq_Some_conv)
  qed
  show ?case
    using KB_BinaryExpr.prems(1) leaf and_ or_ leaf_ok_ops by (cases op) auto
next
  case (KB_Value v)
  then show ?case by auto
qed auto

lemma into_col_bound_spec:
  assumes "into_col_bound bt rng = Some b" and "col_val_cast bt v = Some x"
  shows "in_col_bound b x \<longleftrightarrow> range_contains rng v"
  using assms
  by (auto simp: into_col_bound_def range_contains_def cast_le cast_less not_le not_less
      bind_eq_Some_conv split: option.splits prod.splits)

lemma range_intersection_spec:
  assumes "range_col_bound_intersection bt rng p = Some q"
  shows "poly_contains q v \<longleftrightarrow> poly_contains p v \<and> range_contains rng v"
proof -
  from assms obtain rb b s e where rb: "into_col_bound bt rng = Some rb" and p: "p = to_poly bt b"
    and se: "col_bound_intersect_interval rb b = (s, e)" and q: "q = to_poly bt (mk_col_bound s e)"
    by (auto simp: range_col_bound_intersection_def bind_eq_Some_conv from_poly_iff split: prod.splits)
      (metis surj_pair)
  show ?thesis
    unfolding p q contains_to_poly
    using intersect_interval_spec [OF se] into_col_bound_spec [OF rb] by auto
qed

lemma range_might_intersect_sound:
  assumes "range_might_intersects_key_bound bt rng p = Some False"
  shows "\<not> (poly_contains p v \<and> range_contains rng v)"
proof -
  from assms obtain rb b where rb: "into_col_bound bt rng = Some rb" and p: "p = to_poly bt b"
    and no: "\<not> might_col_intersect rb b"
    by (auto simp: range_might_intersects_key_bound_def bind_eq_Some_conv from_poly_iff)
  show ?thesis
    unfolding p contains_to_poly
    using no into_col_bound_spec [OF rb] might_col_intersect_sound [of rb _ b] by blast
qed

end

lemma poly_contains_PCB:
  "poly_contains (PCB_Int b) v \<longleftrightarrow> (\<exists>x. v = CV_Int x \<and> in_col_bound b x)"
  "poly_contains (PCB_Bool c) v \<longleftrightarrow> (\<exists>x. v = CV_Bool x \<and> in_col_bound c x)"
  "poly_contains (PCB_String d) v \<longleftrightarrow> (\<exists>x. v = CV_String x \<and> in_col_bound d x)"
  by (cases v; simp)+

interpretation i32: bound_trait i32_bound
  by unfold_locales
    (auto simp: i32_bound_def poly_contains_PCB split: col_val.splits poly_col_bound.splits)

interpretation bool_b: bound_trait bool_bound
  by unfold_locales
    (auto simp: bool_bound_def poly_contains_PCB split: col_val.splits poly_col_bound.splits)

interpretation string_b: bound_trait string_bound
  by unfold_locales
    (auto simp: string_bound_def poly_contains_PCB split: col_val.splits poly_col_bound.splits)


section \<open>The key region of a WHERE clause\<close>

text \<open>
  The WHERE clause evaluated at a row: \<open>row_map\<close> extends the columns known when the region is
  computed and gives the key columns of the source the values of the primary key.
\<close>

definition row_extends ::
  "col_map \<Rightarrow> string \<Rightarrow> (col_name \<times> col_type) list \<Rightarrow> primary_key \<Rightarrow> col_map \<Rightarrow> bool" where
  "row_extends known source_name key_cols pkey row_map \<longleftrightarrow>
     (\<forall>col v. bm_get known col = Some v \<longrightarrow> bm_get row_map col = Some v) \<and>
     (\<forall>i < length key_cols.
        bm_get row_map (ColumnRef source_name (fst (key_cols ! i))) = Some (Some (pkey ! i)))"

definition key_val :: "(col_name \<times> col_type) list \<Rightarrow> primary_key \<Rightarrow> col_name \<Rightarrow> col_valn" where
  "key_val key_cols pkey c = map_option (\<lambda>i. pkey ! i) (lookup_pos key_cols c)"

lemma row_extends_key:
  assumes "row_extends known src key_cols pkey row_map" and "contains_key_col_ref src key_cols col"
  shows "bm_get row_map col = Some (key_val key_cols pkey (cr_col_name col))"
proof -
  from assms(2) have src: "col = ColumnRef src (cr_col_name col)"
    and "lookup key_cols (cr_col_name col) \<noteq> None"
    by (cases col; simp add: contains_key_col_ref_def)+
  then obtain i where i: "lookup_pos key_cols (cr_col_name col) = Some i"
    using lookup_pos_None [of key_cols "cr_col_name col"] by auto
  from lookup_pos_Some [OF i] assms(1) show ?thesis
    by (subst src) (auto simp: row_extends_def key_val_def i)
qed

lemma construct_instantiates:
  assumes "row_extends known src key_cols pkey row_map"
    and "construct_kb_expr e known src key_cols = Ok k"
    and "construct_cexpr e row_map subs idx = Ok (c, idx')"
  shows "instantiates (key_val key_cols pkey) k c"
  using assms
proof (induction e row_map subs idx arbitrary: k c idx' rule: construct_cexpr.induct)
  case (1 col row_map subs idx)
  show ?case
  proof (cases "bm_get known col")
    case None
    with 1 show ?thesis
      using row_extends_key [OF "1.prems"(1), of col] by (auto split: if_splits option.splits)
  next
    case (Some v)
    with 1 have "bm_get row_map col = Some v" by (simp add: row_extends_def)
    with Some 1 show ?thesis by auto
  qed
next
  case (3 op l r row_map subs idx)
  from "3.prems"(3) obtain cl i cr where
    "construct_cexpr l row_map subs idx = Ok (cl, i)" "construct_cexpr r row_map subs i = Ok (cr, idx')"
    "c = CE_BinaryExpr op cl cr"
    by auto
  with 3 show ?case by auto
qed (auto split: if_splits)

lemma compute_poly_col_bounds_sound:
  assumes "compute_poly_col_bounds k col ct = Some bs" and "instantiates \<sigma> k c"
    and "evaluate_c_expr c = Ok (Some (CV_Bool True))" and "\<sigma> col = Some v" and "val_type v = ct"
  shows "\<exists>b \<in> set bs. poly_contains b v"
proof (cases v)
  case (CV_Int x)
  with assms obtain cbs where "compute_col_bounds i32_bound k col = Some cbs" and "bs = map PCB_Int cbs"
    by (auto simp: compute_poly_col_bounds_def)
  with assms i32.compute_col_bounds_sound [of k col cbs \<sigma> c v x] CV_Int show ?thesis
    by (auto simp: i32_bound_def in_col_bounds_def)
next
  case (CV_Bool x)
  with assms obtain cbs where "compute_col_bounds bool_bound k col = Some cbs" and "bs = map PCB_Bool cbs"
    by (auto simp: compute_poly_col_bounds_def)
  with assms bool_b.compute_col_bounds_sound [of k col cbs \<sigma> c v x] CV_Bool show ?thesis
    by (auto simp: bool_bound_def in_col_bounds_def)
next
  case (CV_String x)
  with assms obtain cbs where "compute_col_bounds string_bound k col = Some cbs" and "bs = map PCB_String cbs"
    by (auto simp: compute_poly_col_bounds_def)
  with assms string_b.compute_col_bounds_sound [of k col cbs \<sigma> c v x] CV_String show ?thesis
    by (auto simp: string_bound_def in_col_bounds_def)
qed

lemma full_poly_col_bounds_sound: "val_type v = ct \<Longrightarrow> \<exists>b \<in> set (full_poly_col_bounds ct). poly_contains b v"
  by (cases v) (auto simp: full_poly_col_bounds_def)

text \<open>The loop over the key columns extends the keys it covers column by column.\<close>

lemma key_region_loop_sound:
  assumes "key_region_loop kb cols kbs = Some region"
    and "in_row_region kbs prefix" and "length cols = length rest"
    and "\<And>col ct v bs. ((col, ct), v) \<in> set (zip cols rest) \<Longrightarrow>
           (case kb of Some k \<Rightarrow> compute_poly_col_bounds k col ct
            | None \<Rightarrow> Some (full_poly_col_bounds ct)) = Some bs \<Longrightarrow>
           \<exists>b \<in> set bs. poly_contains b v"
  shows "in_row_region region (prefix @ rest)"
  using assms
proof (induction cols arbitrary: kbs prefix rest)
  case (Cons cc cols)
  obtain col ct where cc: "cc = (col, ct)" by fastforce
  from Cons.prems(3) obtain v rest' where rest: "rest = v # rest'" by (cases rest) auto
  from Cons.prems(1) obtain bs where
    bs: "(case kb of Some k \<Rightarrow> compute_poly_col_bounds k col ct
          | None \<Rightarrow> Some (full_poly_col_bounds ct)) = Some bs"
    and loop: "key_region_loop kb cols [key_bound @ [b]. key_bound \<leftarrow> kbs, b \<leftarrow> bs] = Some region"
    by (auto simp: cc compress_row_region_def bind_eq_Some_conv)
  have "((col, ct), v) \<in> set (zip (cc # cols) rest)" by (simp add: cc rest)
  from Cons.prems(4) [OF this bs] obtain b where "b \<in> set bs" "poly_contains b v" by blast
  moreover from Cons.prems(2) obtain key_bound where "key_bound \<in> set kbs" "list_all2 poly_contains key_bound prefix"
    by (auto simp: in_row_region_def key_bound_contains_def)
  ultimately have "in_row_region [key_bound @ [b]. key_bound \<leftarrow> kbs, b \<leftarrow> bs] (prefix @ [v])"
    by (auto simp: in_row_region_def key_bound_contains_def intro!: bexI [of _ key_bound] list_all2_appendI)
  then have "in_row_region region ((prefix @ [v]) @ rest')"
  proof (rule Cons.IH [OF loop])
    show "length cols = length rest'" using Cons.prems(3) by (simp add: rest)
  qed (rule Cons.prems(4), auto simp: cc rest)
  then show ?case by (simp add: rest)
qed simp

lemma key_val_nth:
  "distinct (map fst key_cols) \<Longrightarrow> i < length key_cols \<Longrightarrow>
     key_val key_cols pkey (fst (key_cols ! i)) = Some (pkey ! i)"
  by (simp add: key_val_def lookup_pos_distinct)

lemma key_region_covers:
  assumes region: "compute_key_region e known src key_cols = Some region"
    and cols: "distinct (map fst key_cols)" and pkey: "pkey_typed key_cols pkey"
    and ext: "row_extends known src key_cols pkey row_map"
    and c: "construct_cexpr e row_map subs idx = Ok (c, idx')"
    and tr: "evaluate_c_expr c = Ok (Some (CV_Bool True))"
  shows "in_row_region region pkey"
proof -
  from pkey have len: "length key_cols = length pkey"
    by (metis pkey_typed_def length_map)
  have typed: "val_type v = ct \<and> key_val key_cols pkey col = Some v"
    if "((col, ct), v) \<in> set (zip key_cols pkey)" for col ct v
  proof -
    from that len obtain i where "i < length key_cols" "key_cols ! i = (col, ct)" "pkey ! i = v"
      by (auto simp: set_zip)
    with pkey len cols key_val_nth [OF cols, of i pkey] show ?thesis
      by (auto simp: pkey_typed_def list_eq_iff_nth_eq)
  qed
  have start: "in_row_region [[]] []" by (simp add: in_row_region_def key_bound_contains_def)
  have "in_row_region region ([] @ pkey)"
  proof (cases "construct_kb_expr e known src key_cols")
    case (Ok k)
    with region have "key_region_loop (Some k) key_cols [[]] = Some region"
      by (auto simp: compute_key_region_def split: if_splits)
    then show ?thesis
      by (rule key_region_loop_sound [OF _ start len])
        (auto intro: compute_poly_col_bounds_sound [OF _ construct_instantiates [OF ext Ok c] tr] dest: typed)
  next
    case (Err x)
    with region have "key_region_loop None key_cols [[]] = Some region"
      by (auto simp: compute_key_region_def split: if_splits)
    then show ?thesis
      by (rule key_region_loop_sound [OF _ start len]) (auto intro: full_poly_col_bounds_sound dest: typed)
  next
    case Panic
    with region show ?thesis by (auto simp: compute_key_region_def split: if_splits)
  qed
  then show ?thesis by simp
qed

text \<open>Every bound of the region has one column bound per key column, of the column's type.\<close>

lemma compute_poly_col_bounds_typed:
  "compute_poly_col_bounds k col ct = Some bs \<Longrightarrow> b \<in> set bs \<Longrightarrow> poly_type b = ct"
  by (cases ct) (auto simp: compute_poly_col_bounds_def)

lemma key_region_loop_typed:
  assumes "key_region_loop kb cols kbs = Some region" and "\<forall>b \<in> set kbs. map poly_type b = tys"
  shows "\<forall>b \<in> set region. map poly_type b = tys @ map snd cols"
  using assms
proof (induction cols arbitrary: kbs tys)
  case (Cons cc cols)
  obtain col ct where cc: "cc = (col, ct)" by fastforce
  from Cons.prems(1) obtain bs where
    bs: "(case kb of Some k \<Rightarrow> compute_poly_col_bounds k col ct
          | None \<Rightarrow> Some (full_poly_col_bounds ct)) = Some bs"
    and loop: "key_region_loop kb cols [key_bound @ [b]. key_bound \<leftarrow> kbs, b \<leftarrow> bs] = Some region"
    by (auto simp: cc compress_row_region_def bind_eq_Some_conv)
  have "poly_type b = ct" if "b \<in> set bs" for b
    using bs that compute_poly_col_bounds_typed
    by (cases kb; cases ct) (auto simp: full_poly_col_bounds_def)
  with Cons.IH [OF loop, of "tys @ [ct]"] Cons.prems(2) show ?case
    by (auto simp: cc)
qed simp

lemma compute_key_region_typed:
  "compute_key_region e known src key_cols = Some region \<Longrightarrow> kb \<in> set region \<Longrightarrow> key_bound_typed key_cols kb"
  using key_region_loop_typed [of _ key_cols "[[]]" region "[]"]
  by (fastforce simp: compute_key_region_def key_bound_typed_def split: if_splits outcome.splits)

section \<open>Tablet ranges\<close>

lemma in_row_region_Cons:
  "in_row_region (kb # region) pkey \<longleftrightarrow> key_bound_contains kb pkey \<or> in_row_region region pkey"
  by (simp add: in_row_region_def)

lemma range_col_bound_intersection_any:
  "(case ct of
      CT_Int \<Rightarrow> range_col_bound_intersection i32_bound rng p
    | CT_Bool \<Rightarrow> range_col_bound_intersection bool_bound rng p
    | CT_String \<Rightarrow> range_col_bound_intersection string_bound rng p) = Some q \<Longrightarrow>
   poly_contains q v \<longleftrightarrow> poly_contains p v \<and> range_contains rng v"
  by (cases ct) (simp_all add: i32.range_intersection_spec bool_b.range_intersection_spec
      string_b.range_intersection_spec)

lemma range_row_region_loop_spec:
  "range_row_region_loop ct rng region = Some region' \<Longrightarrow>
     in_row_region region' pkey \<longleftrightarrow> in_row_region region pkey \<and> range_contains_pkey rng pkey"
proof (induction region arbitrary: region')
  case Nil
  then show ?case by (simp add: in_row_region_def)
next
  case (Cons kb region)
  then obtain p kb' q rest where kb: "kb = p # kb'" and region': "region' = (q # kb') # rest"
    and q: "(case ct of
      CT_Int \<Rightarrow> range_col_bound_intersection i32_bound rng p
    | CT_Bool \<Rightarrow> range_col_bound_intersection bool_bound rng p
    | CT_String \<Rightarrow> range_col_bound_intersection string_bound rng p) = Some q"
    and rest: "range_row_region_loop ct rng region = Some rest"
    by (auto split: list.splits simp: bind_eq_Some_conv)
  have "key_bound_contains (q # kb') pkey \<longleftrightarrow>
      key_bound_contains (p # kb') pkey \<and> range_contains_pkey rng pkey"
    using range_col_bound_intersection_any [OF q]
    by (cases pkey) (auto simp: key_bound_contains_def range_contains_pkey_def)
  with Cons.IH [OF rest] show ?case by (auto simp: kb region' in_row_region_Cons)
qed

lemma range_might_intersect_any:
  "(case ct of
      CT_Int \<Rightarrow> range_might_intersects_key_bound i32_bound rng p
    | CT_Bool \<Rightarrow> range_might_intersects_key_bound bool_bound rng p
    | CT_String \<Rightarrow> range_might_intersects_key_bound string_bound rng p) = Some False \<Longrightarrow>
   \<not> (poly_contains p v \<and> range_contains rng v)"
  by (cases ct) (simp_all add: i32.range_might_intersect_sound bool_b.range_might_intersect_sound
      string_b.range_might_intersect_sound)

lemma range_might_intersect_region:
  assumes "range_might_intersect_row_region key_cols rng region = Some False"
  shows "\<not> (in_row_region region pkey \<and> range_contains_pkey rng pkey)"
proof (cases key_cols)
  case Nil
  with assms show ?thesis
    by (simp add: range_might_intersect_row_region_def in_row_region_def split: if_splits)
next
  case (Cons cc cols)
  obtain c ct where cc: "cc = (c, ct)" by fastforce
  have "\<not> (key_bound_contains kb pkey \<and> range_contains_pkey rng pkey)" if "kb \<in> set region" for kb
  proof -
    from assms that Cons cc obtain p kb' where kb: "kb = p # kb'" and
      "(case ct of
          CT_Int \<Rightarrow> range_might_intersects_key_bound i32_bound rng p
        | CT_Bool \<Rightarrow> range_might_intersects_key_bound bool_bound rng p
        | CT_String \<Rightarrow> range_might_intersects_key_bound string_bound rng p) = Some False"
      by (cases kb) (auto simp: range_might_intersect_row_region_def any_opt_False)
    from range_might_intersect_any [OF this(2)] show ?thesis
      by (cases pkey) (auto simp: kb key_bound_contains_def range_contains_pkey_def)
  qed
  then show ?thesis by (auto simp: in_row_region_def)
qed

section \<open>Properties\<close>

text \<open>
  C16: The key region of a WHERE clause misses no row. A primary key of the table for which
  the clause, evaluated with the key columns at that key and whatever values the other
  columns and subqueries have, is true lies in the region \<open>compute_key_region\<close> returns, and
  every bound of the region fits the key columns.
\<close>

theorem compute_key_region_sound:
  assumes "compute_key_region e known src kcols = Some region"
    and "distinct (map fst kcols)" and "pkey_typed kcols pkey"
    and "row_extends known src kcols pkey row_map"
    and "construct_cexpr e row_map subs idx = Ok (c, idx')"
    and "evaluate_c_expr c = Ok (Some (CV_Bool True))"
  shows "in_row_region region pkey \<and> (\<forall>kb \<in> set region. key_bound_typed kcols kb)"
  using key_region_covers [OF assms] compute_key_region_typed [OF assms(1)] by blast

theorem compute_key_region_sound_witness:
  "in_row_region [[PCB_Int (mk_col_bound Unbounded (Excluded 5))]] [CV_Int 3]"
proof -
  let ?e = "VE_BinaryExpr BO_And
      (VE_BinaryExpr BO_Lt (VE_ColumnRef (ColumnRef ''t'' ''k'')) (VE_Value (SV_Number ''5'')))
      (VE_ColumnRef (ColumnRef ''t'' ''b''))"
  let ?kcols = "[(''k'', CT_Int)]"
  let ?row = "[(ColumnRef ''t'' ''k'', Some (CV_Int 3)), (ColumnRef ''t'' ''b'', Some (CV_Bool True))]"
  let ?c = "CE_BinaryExpr BO_And (CE_BinaryExpr BO_Lt (CE_Value (Some (CV_Int 3))) (CE_Value (Some (CV_Int 5))))
      (CE_Value (Some (CV_Bool True)))"
  have "compute_key_region ?e [] ''t'' ?kcols =
      Some [[PCB_Int (mk_col_bound Unbounded (Excluded 5))]]" by code_simp
  moreover have "distinct (map fst ?kcols)" by simp
  moreover have "pkey_typed ?kcols [CV_Int 3]" by (simp add: pkey_typed_def)
  moreover have "row_extends [] ''t'' ?kcols [CV_Int 3] ?row" by (simp add: row_extends_def)
  moreover have "construct_cexpr ?e ?row [] 0 = Ok (?c, 0)" by code_simp
  moreover have "evaluate_c_expr ?c = Ok (Some (CV_Bool True))" by code_simp
  ultimately show ?thesis using compute_key_region_sound by blast
qed

text \<open>
  C26: The algebra of column bounds is exact: the intersection of two lists of bounds holds the
  common values and the complement the remaining ones, for every totally ordered column type.
\<close>

theorem col_bounds_algebra_exact:
  "in_col_bounds (col_bounds_intersect ls rs) x = (in_col_bounds ls x \<and> in_col_bounds rs x) \<and>
   in_col_bounds (invert_col_bounds ls) x = (\<not> in_col_bounds ls x)"
  by (simp add: in_col_bounds_intersect invert_col_bounds_def in_invert_fold)

text \<open>
  C28: \<open>range_row_region_intersection\<close> restricts a row region to a tablet range exactly, and
  \<open>range_might_intersect_row_region\<close> answers no only when no key is in both.
\<close>

theorem range_row_region_exact:
  assumes "kcols \<noteq> []"
  shows "(range_row_region_intersection kcols rng region = Some region' \<longrightarrow>
      in_row_region region' pkey = (in_row_region region pkey \<and> range_contains_pkey rng pkey)) \<and>
    (range_might_intersect_row_region kcols rng region = Some False \<longrightarrow>
      \<not> (in_row_region region pkey \<and> range_contains_pkey rng pkey))"
  using assms range_row_region_loop_spec range_might_intersect_region [of kcols rng region pkey]
  by (auto simp: range_row_region_intersection_def neq_Nil_conv)

theorem range_row_region_exact_witness:
  "\<not> in_row_region [[PCB_Int (mk_col_bound (Included 4) (Included 9))]] [CV_Int 2]"
proof -
  let ?rng = "\<lparr>kr_start = Some (CV_Int 4), kr_end = None\<rparr>"
  let ?region = "[[PCB_Int (mk_col_bound (Included 1) (Included 9))]]"
  have "range_row_region_intersection [(''k'', CT_Int)] ?rng ?region =
    Some [[PCB_Int (mk_col_bound (Included 4) (Included 9))]]" by code_simp
  moreover have "\<not> range_contains_pkey ?rng [CV_Int 2]" by code_simp
  ultimately show ?thesis
    using range_row_region_exact [of "[(''k'', CT_Int)]" ?rng ?region] by blast
qed

text \<open>
  C31: Integer arithmetic panics on overflow in a build with overflow checks: on in-range operands the binary
  operators other than the arithmetic ones never panic, sums, differences and products panic exactly
  when the exact result leaves the 32-bit range, and the two divisions exactly on
  \<open>i32::MIN / -1\<close> (these do so in every build); a division by zero is an ordinary error.
\<close>

theorem evaluate_binary_op_panics:
  assumes "i32_ok a" and "i32_ok b"
  shows "evaluate_binary_op op (Some (CV_Int a)) (Some (CV_Int b)) = Panic \<longleftrightarrow>
    (case op of
       BO_Plus \<Rightarrow> \<not> i32_ok (a + b)
     | BO_Minus \<Rightarrow> \<not> i32_ok (a - b)
     | BO_Multiply \<Rightarrow> \<not> i32_ok (a * b)
     | BO_Divide \<Rightarrow> a = - (2 ^ 31) \<and> b = - 1
     | BO_Modulus \<Rightarrow> a = - (2 ^ 31) \<and> b = - 1
     | _ \<Rightarrow> False)"
  using tdiv_overflow_iff [OF assms]
  by (cases op) (auto simp: int_result_def i32_checked_def)

theorem evaluate_binary_op_panics_witness:
  "evaluate_binary_op BO_Plus (Some (CV_Int 2147483647)) (Some (CV_Int 1)) = Panic"
  by (subst evaluate_binary_op_panics) (simp_all add: i32_ok_def)

end
