(* ===== verification/Storage.thy ===== *)
theory Storage
  imports Schema Key_Bounds
begin

text \<open>
  The multi-versioned table storage of \<open>src/src/storage.rs\<close>: the two storage views (committed
  data, and committed data under the pending update views of a transaction), the scan of a
  key bound over the ordered storage with its early exit, committing an update view, and the
  splitting of storage by tablet ranges. A storage key is a primary key with a column, or
  with \<open>None\<close> for the presence cell of the row.
\<close>

type_synonym storage_key = "primary_key \<times> col_name option"
type_synonym generic_mv_table = "(storage_key, (timestamp \<times> col_valn) list) btree"
type_synonym generic_table = "(storage_key, col_valn) btree"
type_synonym presence_snapshot = "(primary_key, (col_name \<times> col_valn) list) btree"
type_synonym prior_versions = "(storage_key, timestamp \<times> col_valn) btree"

definition PRESENCE_VALN :: col_valn where
  "PRESENCE_VALN = Some (CV_Int 0)"

definition find_version :: "(timestamp \<times> 'v option) list \<Rightarrow> timestamp \<Rightarrow> (timestamp \<times> 'v option) option" where
  "find_version versions t = rfind (\<lambda>version. fst version \<le> t) versions"

section \<open>Subtable utilities\<close>

datatype key_bound_inclusion = Incl_Included | Incl_Excluded | Incl_Done

definition unincluded_res :: "bool \<Rightarrow> key_bound_inclusion" where
  "unincluded_res prefix_ge = (if prefix_ge then Incl_Done else Incl_Excluded)"

text \<open>Returns the updated \<open>prefix_ge\<close> and the verdict, if there is one.\<close>

definition check_col_inclusion ::
  "bool \<Rightarrow> 't::linorder \<Rightarrow> 't col_bound \<Rightarrow> bool \<times> key_bound_inclusion option" where
  "check_col_inclusion prefix_ge v col_bound =
     (if (case cb_start col_bound of
            Included start_val \<Rightarrow> v < start_val
          | Excluded start_val \<Rightarrow> v \<le> start_val
          | Unbounded \<Rightarrow> False)
      then (False, Some (unincluded_res False))
      else
        (case cb_end col_bound of
           Included end_val \<Rightarrow>
             if v > end_val then (prefix_ge, Some (unincluded_res prefix_ge))
             else if v < end_val then (False, None)
             else (prefix_ge, None)
         | Excluded end_val \<Rightarrow>
             if v \<ge> end_val then (prefix_ge, Some (unincluded_res prefix_ge))
             else (False, None)
         | Unbounded \<Rightarrow> (False, None)))"

fun check_inclusion_loop :: "bool \<Rightarrow> key_bound \<Rightarrow> primary_key \<Rightarrow> key_bound_inclusion option" where
  "check_inclusion_loop prefix_ge bounds [] = Some Incl_Included"
| "check_inclusion_loop prefix_ge (PCB_Int col_bound # bounds) (CV_Int v # vs) =
     (case check_col_inclusion prefix_ge v col_bound of
        (_, Some res) \<Rightarrow> Some res
      | (prefix_ge', None) \<Rightarrow> check_inclusion_loop prefix_ge' bounds vs)"
| "check_inclusion_loop prefix_ge (PCB_Bool col_bound # bounds) (CV_Bool v # vs) =
     (case check_col_inclusion prefix_ge v col_bound of
        (_, Some res) \<Rightarrow> Some res
      | (prefix_ge', None) \<Rightarrow> check_inclusion_loop prefix_ge' bounds vs)"
| "check_inclusion_loop prefix_ge (PCB_String col_bound # bounds) (CV_String v # vs) =
     (case check_col_inclusion prefix_ge v col_bound of
        (_, Some res) \<Rightarrow> Some res
      | (prefix_ge', None) \<Rightarrow> check_inclusion_loop prefix_ge' bounds vs)"
| "check_inclusion_loop prefix_ge _ _ = None"

definition check_inclusion :: "key_bound \<Rightarrow> primary_key \<Rightarrow> key_bound_inclusion option" where
  "check_inclusion key_bound pkey = check_inclusion_loop True key_bound pkey"

fun start_value :: "poly_col_bound \<Rightarrow> col_val option" where
  "start_value (PCB_Int b) =
     (case cb_start b of Included v \<Rightarrow> Some (CV_Int v) | Excluded v \<Rightarrow> Some (CV_Int v)
      | Unbounded \<Rightarrow> None)"
| "start_value (PCB_String b) =
     (case cb_start b of Included v \<Rightarrow> Some (CV_String v) | Excluded v \<Rightarrow> Some (CV_String v)
      | Unbounded \<Rightarrow> None)"
| "start_value (PCB_Bool b) =
     (case cb_start b of Included v \<Rightarrow> Some (CV_Bool v) | Excluded v \<Rightarrow> Some (CV_Bool v)
      | Unbounded \<Rightarrow> None)"

fun start_prefix :: "key_bound \<Rightarrow> primary_key" where
  "start_prefix [] = []"
| "start_prefix (b # bounds) =
     (case start_value b of Some v \<Rightarrow> v # start_prefix bounds | None \<Rightarrow> [])"

text \<open>The included lower bound of the range query; its upper bound is unbounded.\<close>

definition compute_range_query :: "key_bound \<Rightarrow> storage_key" where
  "compute_range_query key_bound = (start_prefix key_bound, None)"

text \<open>A value column the caller does not care about is skipped.\<close>

definition skip_col :: "col_name list \<Rightarrow> col_name option \<Rightarrow> bool" where
  "skip_col vcols ci = (case ci of Some col \<Rightarrow> col \<notin> set vcols | None \<Rightarrow> False)"

text \<open>
  The scan of a range: rows are offered to \<open>version_of\<close> (a storage row finds its prior
  version, an update row is a version at the reading time) until the scan is \<open>Done\<close>.
\<close>

fun scan_rows ::
  "('a \<Rightarrow> (timestamp \<times> col_valn) option) \<Rightarrow> key_bound \<Rightarrow> col_name list
    \<Rightarrow> (storage_key \<times> 'a) list \<Rightarrow> prior_versions \<Rightarrow> prior_versions option" where
  "scan_rows version_of key_bound vcols [] acc = Some acc"
| "scan_rows version_of key_bound vcols (((pkey, ci), row) # rows) acc =
     (if skip_col vcols ci then scan_rows version_of key_bound vcols rows acc
      else
        (case check_inclusion key_bound pkey of
           None \<Rightarrow> None
         | Some Incl_Included \<Rightarrow>
             scan_rows version_of key_bound vcols rows
               (if bm_contains acc (pkey, ci) then acc
                else (case version_of row of
                        Some version \<Rightarrow> bm_insert (pkey, ci) version acc
                      | None \<Rightarrow> acc))
         | Some Incl_Done \<Rightarrow> Some acc
         | Some Incl_Excluded \<Rightarrow> scan_rows version_of key_bound vcols rows acc))"

definition amend_all_prior_versions ::
  "generic_mv_table \<Rightarrow> prior_versions \<Rightarrow> key_bound \<Rightarrow> col_name list \<Rightarrow> timestamp
    \<Rightarrow> prior_versions option" where
  "amend_all_prior_versions storage acc key_bound vcols t =
     scan_rows (\<lambda>versions. find_version versions t) key_bound vcols
       (bm_from (compute_range_query key_bound) storage) acc"

text \<open>
  The presence snapshot of the prior versions. The debug assertion is the first branch: every
  value column must be present in the schema at \<open>t\<close>.
\<close>

definition resolved_val ::
  "prior_versions \<Rightarrow> timestamp \<Rightarrow> primary_key \<Rightarrow> col_name \<Rightarrow> timestamp \<Rightarrow> col_valn" where
  "resolved_val all_prior_versions pkey_ts pkey col col_ts =
     (case bm_get all_prior_versions (pkey, Some col) of
        Some (ts, v) \<Rightarrow> if ts \<ge> max pkey_ts col_ts then v else None
      | None \<Rightarrow> None)"

definition prior_versions_to_presence_snapshot ::
  "table_schema \<Rightarrow> col_name list \<Rightarrow> timestamp \<Rightarrow> prior_versions \<Rightarrow> presence_snapshot option" where
  "prior_versions_to_presence_snapshot schema vcols t all_prior_versions =
     (if (\<exists>col \<in> set vcols. static_read (val_cols schema) col t = None) then None
      else
        (let present_key_timestamps =
               fold (\<lambda>((pkey, ci), (ts, v)) acc.
                       if ci = None \<and> v = PRESENCE_VALN then bm_insert pkey ts acc else acc)
                 all_prior_versions [];
             col_timestamps =
               fold (\<lambda>col acc.
                       (case static_read_version (val_cols schema) col t of
                          Some (ts, _) \<Rightarrow> bm_insert col ts acc
                        | None \<Rightarrow> acc)) vcols []
         in Some (fold (\<lambda>(pkey, pkey_ts) acc.
                bm_insert pkey
                  (map (\<lambda>(col, col_ts).
                     (col, resolved_val all_prior_versions pkey_ts pkey col col_ts))
                   col_timestamps) acc) present_key_timestamps [])))"

fun mk_row ::
  "(col_name \<times> col_type) list \<Rightarrow> primary_key \<Rightarrow> (col_name \<times> col_valn) list \<Rightarrow> col_name list
    \<Rightarrow> col_valn list option" where
  "mk_row kcols pkey col_vals [] = Some []"
| "mk_row kcols pkey col_vals (col # selection) =
     do { v \<leftarrow> (case lookup_pos kcols col of
                 Some i \<Rightarrow> if i < length pkey then Some (Some (pkey ! i)) else None
               | None \<Rightarrow> lookup col_vals col);
          row \<leftarrow> mk_row kcols pkey col_vals selection;
          Some (v # row) }"

fun snapshot_rows ::
  "(col_name \<times> col_type) list \<Rightarrow> col_name list \<Rightarrow> presence_snapshot \<Rightarrow> table_view \<Rightarrow> table_view option" where
  "snapshot_rows kcols selection [] view = Some view"
| "snapshot_rows kcols selection ((pkey, col_vals) # rest) view =
     do { row \<leftarrow> mk_row kcols pkey col_vals selection;
          view' \<leftarrow> add_row view row;
          snapshot_rows kcols selection rest view' }"

definition presence_snapshot_to_table_view ::
  "presence_snapshot \<Rightarrow> table_schema \<Rightarrow> col_name list \<Rightarrow> table_view option" where
  "presence_snapshot_to_table_view snapshot schema selection =
     snapshot_rows (key_cols schema) selection snapshot []"

section \<open>Storage views\<close>

fun amend_region ::
  "generic_mv_table \<Rightarrow> key_bound list \<Rightarrow> col_name list \<Rightarrow> timestamp \<Rightarrow> prior_versions
    \<Rightarrow> prior_versions option" where
  "amend_region storage [] vcols t acc = Some acc"
| "amend_region storage (key_bound # region) vcols t acc =
     do { acc' \<leftarrow> amend_all_prior_versions storage acc key_bound vcols t;
          amend_region storage region vcols t acc' }"

text \<open>\<open>SimpleStorageView::compute_presence_snapshot\<close>.\<close>

definition simple_presence_snapshot ::
  "generic_mv_table \<Rightarrow> table_schema \<Rightarrow> key_bound list \<Rightarrow> col_name list \<Rightarrow> timestamp
    \<Rightarrow> presence_snapshot option" where
  "simple_presence_snapshot storage schema region vcols t =
     do { all_prior_versions \<leftarrow> amend_region storage region vcols t [];
          prior_versions_to_presence_snapshot schema vcols t all_prior_versions }"

type_synonym update_views = "(nat, generic_table) btree"

fun amend_updates ::
  "generic_table list \<Rightarrow> key_bound \<Rightarrow> col_name list \<Rightarrow> timestamp \<Rightarrow> prior_versions
    \<Rightarrow> prior_versions option" where
  "amend_updates [] key_bound vcols t acc = Some acc"
| "amend_updates (table # tables) key_bound vcols t acc =
     do { acc' \<leftarrow> scan_rows (\<lambda>v. Some (t, v)) key_bound vcols
                   (bm_from (compute_range_query key_bound) table) acc;
          amend_updates tables key_bound vcols t acc' }"

fun ms_amend_region ::
  "generic_mv_table \<Rightarrow> generic_table list \<Rightarrow> key_bound list \<Rightarrow> col_name list \<Rightarrow> timestamp
    \<Rightarrow> prior_versions \<Rightarrow> prior_versions option" where
  "ms_amend_region storage tables [] vcols t acc = Some acc"
| "ms_amend_region storage tables (key_bound # region) vcols t acc =
     do { acc' \<leftarrow> amend_updates tables key_bound vcols t acc;
          acc'' \<leftarrow> amend_all_prior_versions storage acc' key_bound vcols t;
          ms_amend_region storage tables region vcols t acc'' }"

text \<open>\<open>MSStorageView::compute_presence_snapshot\<close>: the update views from \<open>tier\<close> upwards.\<close>

definition ms_presence_snapshot ::
  "generic_mv_table \<Rightarrow> table_schema \<Rightarrow> update_views \<Rightarrow> nat \<Rightarrow> key_bound list \<Rightarrow> col_name list
    \<Rightarrow> timestamp \<Rightarrow> presence_snapshot option" where
  "ms_presence_snapshot storage schema views tier region vcols t =
     do { all_prior_versions \<leftarrow>
            ms_amend_region storage (map snd (bm_from tier views)) region vcols t [];
          prior_versions_to_presence_snapshot schema vcols t all_prior_versions }"

text \<open>\<open>StorageView::compute_subtable\<close> over either view's snapshot function.\<close>

definition compute_subtable ::
  "table_schema \<Rightarrow> (key_bound list \<Rightarrow> col_name list \<Rightarrow> timestamp \<Rightarrow> presence_snapshot option)
    \<Rightarrow> key_bound list \<Rightarrow> col_name list \<Rightarrow> timestamp \<Rightarrow> table_view option" where
  "compute_subtable schema compute_presence_snapshot key_region column_region t =
     (let vcols = filter (\<lambda>col. lookup (key_cols schema) col = None) column_region
      in do { snapshot \<leftarrow> compute_presence_snapshot key_region vcols t;
              presence_snapshot_to_table_view snapshot schema column_region })"

section \<open>Update views and commits\<close>

definition compress_table :: "generic_table \<Rightarrow> generic_table \<Rightarrow> generic_table" where
  "compress_table generic_table compressed =
     fold (\<lambda>(key, v) acc. if bm_contains acc key then acc else bm_insert key v acc)
       generic_table compressed"

definition compress_updates_views :: "update_views \<Rightarrow> generic_table" where
  "compress_updates_views views = fold (\<lambda>(_, table). compress_table table) views []"

fun add_version_rev ::
  "(timestamp \<times> 'v) list \<Rightarrow> timestamp \<Rightarrow> 'v \<Rightarrow> (timestamp \<times> 'v) list" where
  "add_version_rev [] t v = [(t, v)]"
| "add_version_rev ((cur_t, cur_v) # versions) t v =
     (if cur_t = t then (cur_t, v) # versions
      else if cur_t < t then (t, v) # (cur_t, cur_v) # versions
      else (cur_t, cur_v) # add_version_rev versions t v)"

definition add_version ::
  "(timestamp \<times> 'v) list \<Rightarrow> timestamp \<Rightarrow> 'v \<Rightarrow> (timestamp \<times> 'v) list" where
  "add_version versions t v = rev (add_version_rev (rev versions) t v)"

definition commit_to_storage ::
  "generic_mv_table \<Rightarrow> timestamp \<Rightarrow> generic_table \<Rightarrow> generic_mv_table" where
  "commit_to_storage storage t compressed_view =
     fold (\<lambda>(key, v) st.
             (case bm_get st key of
                Some versions \<Rightarrow> bm_insert key (add_version versions t v) st
              | None \<Rightarrow> bm_insert key [(t, v)] st)) compressed_view storage"

section \<open>Sharding utilities\<close>

definition range_to_storage_key :: "col_val \<Rightarrow> storage_key" where
  "range_to_storage_key range_key = ([range_key], None)"

text \<open>A range query whose start lies above its end panics.\<close>

definition compute_range_storage :: "generic_mv_table \<Rightarrow> tablet_key_range \<Rightarrow> generic_mv_table option" where
  "compute_range_storage storage rng =
     (if (case (kr_start rng, kr_end rng) of
            (Some s, Some e) \<Rightarrow> range_to_storage_key e < range_to_storage_key s
          | _ \<Rightarrow> False) then None
      else
        (let from = (case kr_start rng of
                       Some s \<Rightarrow> bm_from (range_to_storage_key s) storage | None \<Rightarrow> storage);
             upto = (case kr_end rng of
                       Some e \<Rightarrow> bm_below (range_to_storage_key e) from | None \<Rightarrow> from)
         in Some (fold (\<lambda>(key, v) target. bm_insert key v target) upto [])))"

text \<open>Returns the storage left in place (before the range) and what lies after the range.\<close>

definition remove_range ::
  "generic_mv_table \<Rightarrow> tablet_key_range \<Rightarrow> generic_mv_table \<times> generic_mv_table" where
  "remove_range storage rng =
     (let (kept, remaining) =
            (case kr_start rng of
               Some s \<Rightarrow> (bm_below (range_to_storage_key s) storage,
                          bm_from (range_to_storage_key s) storage)
             | None \<Rightarrow> ([], storage))
      in (kept, (case kr_end rng of
                   Some e \<Rightarrow> bm_from (range_to_storage_key e) remaining
                 | None \<Rightarrow> [])))"

end
