(* ===== verification/Storage_Scan.thy ===== *)
theory Storage_Scan
  imports Storage
begin

text \<open>
  The scan of a key region over the ordered storage, against a pointwise reading: the
  inclusion test with its early exit is exact, the lower bound of the range query misses no
  row of the bound, and the scan collects the prior version of exactly the cells the region
  and the columns ask for.
\<close>

section \<open>The inclusion test\<close>

lemma check_col_inclusion_pass:
  "check_col_inclusion pg v b = (pg', None) \<Longrightarrow>
     in_col_bound b v \<and> (pg' \<longrightarrow> pg \<and> (\<forall>x. in_col_bound b x \<longrightarrow> x \<le> v))"
  by (cases "cb_start b"; cases "cb_end b")
    (auto simp: check_col_inclusion_def in_col_bound_def unincluded_res_def split: if_splits)

lemma check_col_inclusion_stop:
  "check_col_inclusion pg v b = (pg', Some res) \<Longrightarrow>
     \<not> in_col_bound b v \<and> res \<noteq> Incl_Included \<and>
     (res = Incl_Done \<longrightarrow> pg \<and> (\<forall>x. in_col_bound b x \<longrightarrow> x < v))"
  by (cases "cb_start b"; cases "cb_end b")
    (auto simp: check_col_inclusion_def in_col_bound_def unincluded_res_def split: if_splits)

definition bound_fits :: "key_bound \<Rightarrow> primary_key \<Rightarrow> bool" where
  "bound_fits kb pkey \<longleftrightarrow> map poly_type kb = map val_type pkey"

lemma bound_fits_Nil [simp]: "bound_fits [] pkey \<longleftrightarrow> pkey = []" "bound_fits kb [] \<longleftrightarrow> kb = []"
  by (auto simp: bound_fits_def)

lemma bound_fits_Cons [simp]:
  "bound_fits (b # kb) (v # pkey) \<longleftrightarrow> poly_type b = val_type v \<and> bound_fits kb pkey"
  by (auto simp: bound_fits_def)

lemma key_bound_contains_Nil [simp]:
  "key_bound_contains [] pkey \<longleftrightarrow> pkey = []" "key_bound_contains kb [] \<longleftrightarrow> kb = []"
  by (auto simp: key_bound_contains_def)

lemma key_bound_contains_Cons [simp]:
  "key_bound_contains (b # kb) (v # pkey) \<longleftrightarrow> poly_contains b v \<and> key_bound_contains kb pkey"
  by (simp add: key_bound_contains_def)

lemma poly_contains_type: "poly_contains b v \<Longrightarrow> poly_type b = val_type v"
  by (cases "(b, v)" rule: poly_contains.cases) auto

lemma key_bound_contains_fits: "key_bound_contains kb pkey \<Longrightarrow> bound_fits kb pkey"
  by (induction kb arbitrary: pkey)
    (auto simp: key_bound_contains_def list_all2_Cons1 bound_fits_def poly_contains_type)

text \<open>One column of the loop, whatever the type of the column.\<close>

lemma check_inclusion_loop_Cons:
  assumes "poly_type b = val_type v"
  obtains (stop) res where "check_inclusion_loop pg (b # kb) (v # vs) = Some res"
      "\<not> poly_contains b v" "res \<noteq> Incl_Included"
      "res = Incl_Done \<Longrightarrow> pg" "\<And>x. res = Incl_Done \<Longrightarrow> poly_contains b x \<Longrightarrow> x < v"
  | (pass) pg' where "check_inclusion_loop pg (b # kb) (v # vs) = check_inclusion_loop pg' kb vs"
      "poly_contains b v" "pg' \<Longrightarrow> pg" "\<And>x. pg' \<Longrightarrow> poly_contains b x \<Longrightarrow> x \<le> v"
proof (cases "(b, v)" rule: poly_contains.cases)
  case (1 cb x)
  obtain pg' r where r: "check_col_inclusion pg x cb = (pg', r)" by fastforce
  show ?thesis
  proof (cases r)
    case None
    with r check_col_inclusion_pass [of pg x cb pg'] 1 show ?thesis
      by (intro pass [of pg']) (auto simp: poly_contains_PCB)
  next
    case (Some res)
    with r check_col_inclusion_stop [of pg x cb pg' res] 1 show ?thesis
      by (intro stop [of res]) (auto simp: poly_contains_PCB)
  qed
next
  case (2 cb x)
  obtain pg' r where r: "check_col_inclusion pg x cb = (pg', r)" by fastforce
  show ?thesis
  proof (cases r)
    case None
    with r check_col_inclusion_pass [of pg x cb pg'] 2 show ?thesis
      by (intro pass [of pg']) (auto simp: poly_contains_PCB)
  next
    case (Some res)
    with r check_col_inclusion_stop [of pg x cb pg' res] 2 show ?thesis
      by (intro stop [of res]) (auto simp: poly_contains_PCB)
  qed
next
  case (3 cb x)
  obtain pg' r where r: "check_col_inclusion pg x cb = (pg', r)" by fastforce
  show ?thesis
  proof (cases r)
    case None
    with r check_col_inclusion_pass [of pg x cb pg'] 3 show ?thesis
      by (intro pass [of pg']) (auto simp: poly_contains_PCB)
  next
    case (Some res)
    with r check_col_inclusion_stop [of pg x cb pg' res] 3 show ?thesis
      by (intro stop [of res]) (auto simp: poly_contains_PCB)
  qed
qed (use assms in auto)

lemma check_inclusion_loop_total: "bound_fits kb pkey \<Longrightarrow> check_inclusion_loop pg kb pkey \<noteq> None"
proof (induction kb arbitrary: pkey pg)
  case (Cons b kb)
  then obtain v vs where pkey: "pkey = v # vs" by (cases pkey) auto
  with Cons.prems have "poly_type b = val_type v" and "bound_fits kb vs" by auto
  then show ?case
    by (cases rule: check_inclusion_loop_Cons [of b v pg kb vs]) (auto simp: pkey Cons.IH)
qed simp

lemma check_inclusion_loop_included:
  "bound_fits kb pkey \<Longrightarrow>
     check_inclusion_loop pg kb pkey = Some Incl_Included \<longleftrightarrow> key_bound_contains kb pkey"
proof (induction kb arbitrary: pkey pg)
  case (Cons b kb)
  then obtain v vs where pkey: "pkey = v # vs" by (cases pkey) auto
  with Cons.prems have "poly_type b = val_type v" and "bound_fits kb vs" by auto
  then show ?case
    by (cases rule: check_inclusion_loop_Cons [of b v pg kb vs]) (auto simp: pkey Cons.IH)
qed simp

lemma check_inclusion_loop_done:
  "bound_fits kb pkey \<Longrightarrow> check_inclusion_loop pg kb pkey = Some Incl_Done \<Longrightarrow>
     pg \<and> (\<forall>pkey' \<ge> pkey. \<not> key_bound_contains kb pkey')"
proof (induction kb arbitrary: pkey pg)
  case (Cons b kb)
  then obtain v vs where pkey: "pkey = v # vs" by (cases pkey) auto
  with Cons.prems have ty: "poly_type b = val_type v" and fits: "bound_fits kb vs" by auto
  have after: "\<exists>v' vs'. pkey' = v' # vs' \<and> (v < v' \<or> v = v' \<and> vs \<le> vs')" if "pkey' \<ge> pkey" for pkey'
    using that by (cases pkey') (auto simp: pkey)
  from ty show ?case
  proof (cases rule: check_inclusion_loop_Cons [of b v pg kb vs])
    case (stop res)
    with Cons.prems(2) pkey have "res = Incl_Done" by simp
    with stop after show ?thesis by (fastforce dest: order.strict_trans)
  next
    case (pass pg')
    with Cons.prems(2) Cons.IH [OF fits, of pg'] pkey after show ?thesis
      by (fastforce dest: leD)
  qed
qed simp

section \<open>The range query\<close>

lemma start_value_le: "poly_contains b v \<Longrightarrow> start_value b = Some s \<Longrightarrow> s \<le> v"
  by (cases "(b, v)" rule: poly_contains.cases)
    (auto simp: in_col_bound_def less_eq_col_val_def split: single_bound.splits)

lemma start_prefix_le: "key_bound_contains kb pkey \<Longrightarrow> start_prefix kb \<le> pkey"
proof (induction kb arbitrary: pkey)
  case (Cons b kb)
  then obtain v vs where pkey: "pkey = v # vs" by (cases pkey) auto
  with Cons start_value_le [of b v] show ?case
    by (auto simp: pkey order.strict_iff_order split: option.splits)
qed simp

lemma range_query_le: "key_bound_contains kb pkey \<Longrightarrow> compute_range_query kb \<le> (pkey, ci)"
  using start_prefix_le [of kb pkey]
  by (auto simp: compute_range_query_def less_eq_prod_def order.strict_iff_order)

section \<open>The scan\<close>

text \<open>The cells a scan of \<open>kb\<close> for \<open>vcols\<close> asks for.\<close>

definition wanted :: "key_bound \<Rightarrow> col_name list \<Rightarrow> storage_key \<Rightarrow> bool" where
  "wanted kb vcols key \<longleftrightarrow> key_bound_contains kb (fst key) \<and> \<not> skip_col vcols (snd key)"

definition keys_fit :: "key_bound \<Rightarrow> (storage_key \<times> 'a) list \<Rightarrow> bool" where
  "keys_fit kb rows \<longleftrightarrow> (\<forall>key \<in> fst ` set rows. bound_fits kb (fst key))"

definition or_else :: "'a option \<Rightarrow> 'a option \<Rightarrow> 'a option" where
  "or_else a b = (case a of Some x \<Rightarrow> Some x | None \<Rightarrow> b)"

lemma or_else_simps [simp]: "or_else (Some x) b = Some x" "or_else None b = b" "or_else a None = a"
  by (auto simp: or_else_def split: option.splits)

lemma or_else_assoc: "or_else (or_else a b) c = or_else a (or_else b c)"
  by (cases a) simp_all

lemma scan_rows_spec:
  assumes "keys_fit kb rows" and "bm_wf rows" and "bm_wf acc"
  shows "\<exists>acc'. scan_rows vo kb vcols rows acc = Some acc' \<and> bm_wf acc' \<and>
     (\<forall>key. bm_get acc' key =
        or_else (bm_get acc key)
          (if wanted kb vcols key then Option.bind (bm_get rows key) vo else None))"
  using assms
proof (induction rows arbitrary: acc)
  case (Cons e rows)
  obtain pkey ci row where e: "e = ((pkey, ci), row)" by (metis surj_pair)
  from Cons.prems have fits: "bound_fits kb pkey" and rest: "keys_fit kb rows" "bm_wf rows"
    and absent: "bm_get rows (pkey, ci) = None"
    and later: "\<And>key. key \<in> fst ` set rows \<Longrightarrow> (pkey, ci) < key"
    by (auto simp: e keys_fit_def bm_get_None)
  note IH = Cons.IH [OF rest]
  show ?case
  proof (cases "skip_col vcols ci")
    case True
    with IH [OF Cons.prems(3)] absent show ?thesis by (auto simp: e wanted_def)
  next
    case keep: False
    from fits obtain res where res: "check_inclusion kb pkey = Some res"
      using check_inclusion_loop_total [of kb pkey True] by (auto simp: check_inclusion_def)
    show ?thesis
    proof (cases res)
      case Incl_Included
      then have "key_bound_contains kb pkey"
        using res check_inclusion_loop_included [OF fits] by (simp add: check_inclusion_def)
      then have w: "wanted kb vcols (pkey, ci)" using keep by (simp add: wanted_def)
      define acc1 where "acc1 = (if bm_contains acc (pkey, ci) then acc
           else case vo row of Some version \<Rightarrow> bm_insert (pkey, ci) version acc | None \<Rightarrow> acc)"
      have "bm_wf acc1" using Cons.prems(3) by (auto simp: acc1_def split: option.splits)
      from IH [OF this] obtain acc' where
        acc': "scan_rows vo kb vcols rows acc1 = Some acc'" "bm_wf acc'"
          "\<And>key. bm_get acc' key = or_else (bm_get acc1 key)
             (if wanted kb vcols key then Option.bind (bm_get rows key) vo else None)"
        by blast
      have "bm_get acc1 key = or_else (bm_get acc key) (if key = (pkey, ci) then vo row else None)" for key
        by (cases "bm_get acc (pkey, ci)"; cases "vo row")
          (auto simp: acc1_def bm_contains_def simp del: bm_contains_iff)
      then have "bm_get acc' key = or_else (bm_get acc key)
          (if wanted kb vcols key then Option.bind (bm_get (e # rows) key) vo else None)" for key
        using w absent by (simp add: acc'(3) e or_else_assoc)
      moreover have "scan_rows vo kb vcols (e # rows) acc = Some acc'"
        using acc'(1) by (simp add: e keep res Incl_Included acc1_def del: bm_contains_iff)
      ultimately show ?thesis using acc'(2) by blast
    next
      case Incl_Excluded
      then have "\<not> wanted kb vcols (pkey, ci)"
        using res check_inclusion_loop_included [OF fits] by (auto simp: check_inclusion_def wanted_def)
      with IH [OF Cons.prems(3)] absent show ?thesis
        by (auto simp: e keep res Incl_Excluded)
    next
      case Incl_Done
      then have beyond: "\<not> key_bound_contains kb pkey'" if "pkey \<le> pkey'" for pkey'
        using res check_inclusion_loop_done [OF fits] that by (auto simp: check_inclusion_def)
      have "bm_get (e # rows) key = None" if "wanted kb vcols key" for key
      proof -
        have "\<not> pkey \<le> fst key" using beyond that by (auto simp: wanted_def)
        then show ?thesis
          using later [of key]
          by (cases key) (auto simp: e bm_get_None less_prod_def dest: less_imp_le)
      qed
      then have "(if wanted kb vcols key then Option.bind (bm_get (e # rows) key) vo else None) = None" for key
        by simp
      with Cons.prems(3) show ?thesis by (simp add: e keep res Incl_Done del: map_of.simps)
    qed
  qed
qed simp

lemma keys_fit_from [simp]: "keys_fit kb rows \<Longrightarrow> keys_fit kb (bm_from lo rows)"
  by (auto simp: keys_fit_def bm_from_def)

lemma bm_get_range_query [simp]:
  "wanted kb vcols key \<Longrightarrow> bm_get (bm_from (compute_range_query kb) m) key = bm_get m key"
  using range_query_le [of kb "fst key" "snd key"] by (simp add: wanted_def)

lemma scan_range_spec:
  assumes "keys_fit kb rows" and "bm_wf rows" and "bm_wf acc"
  obtains acc' where
    "scan_rows vo kb vcols (bm_from (compute_range_query kb) rows) acc = Some acc'" "bm_wf acc'"
    "\<And>key. bm_get acc' key =
        or_else (bm_get acc key)
          (if wanted kb vcols key then Option.bind (bm_get rows key) vo else None)"
proof -
  obtain acc' where acc':
    "scan_rows vo kb vcols (bm_from (compute_range_query kb) rows) acc = Some acc'" "bm_wf acc'"
    "\<And>key. bm_get acc' key = or_else (bm_get acc key)
       (if wanted kb vcols key
        then Option.bind (bm_get (bm_from (compute_range_query kb) rows) key) vo else None)"
    using scan_rows_spec [of kb "bm_from (compute_range_query kb) rows" acc vo vcols] assms
    by (auto simp del: bm_get_from)
  show ?thesis
    by (rule that [OF acc'(1,2)], subst acc'(3)) (simp del: bm_get_from cong: if_cong)
qed

lemma amend_all_prior_versions_spec:
  assumes "keys_fit kb storage" and "bm_wf storage" and "bm_wf acc"
  obtains acc' where "amend_all_prior_versions storage acc kb vcols t = Some acc'" "bm_wf acc'"
    "\<And>key. bm_get acc' key =
        or_else (bm_get acc key)
          (if wanted kb vcols key then Option.bind (bm_get storage key) (\<lambda>vs. find_version vs t) else None)"
  using scan_range_spec [OF assms, of "\<lambda>versions. find_version versions t" vcols]
  unfolding amend_all_prior_versions_def by blast

text \<open>The update views, the latest tier first: a cell is shadowed by the first view that has it.\<close>

fun first_update :: "generic_table list \<Rightarrow> storage_key \<Rightarrow> col_valn option" where
  "first_update [] key = None"
| "first_update (table # tables) key = or_else (bm_get table key) (first_update tables key)"

lemma amend_updates_spec:
  assumes "\<forall>table \<in> set tables. keys_fit kb table \<and> bm_wf table" and "bm_wf acc"
  shows "\<exists>acc'. amend_updates tables kb vcols t acc = Some acc' \<and> bm_wf acc' \<and>
     (\<forall>key. bm_get acc' key =
        or_else (bm_get acc key)
          (if wanted kb vcols key then map_option (Pair t) (first_update tables key) else None))"
  using assms
proof (induction tables arbitrary: acc)
  case (Cons table tables)
  from Cons.prems have "keys_fit kb table" "bm_wf table" by simp_all
  from scan_range_spec [OF this Cons.prems(2), of "\<lambda>v. Some (t, v)" vcols]
  obtain acc1 where acc1:
    "scan_rows (\<lambda>v. Some (t, v)) kb vcols (bm_from (compute_range_query kb) table) acc = Some acc1"
    "bm_wf acc1"
    "\<And>key. bm_get acc1 key = or_else (bm_get acc key)
       (if wanted kb vcols key then Option.bind (bm_get table key) (\<lambda>v. Some (t, v)) else None)"
    by blast
  from Cons.prems(1) have "\<forall>table \<in> set tables. keys_fit kb table \<and> bm_wf table" by simp
  from Cons.IH [OF this acc1(2)] obtain acc' where
    acc': "amend_updates tables kb vcols t acc1 = Some acc'" "bm_wf acc'"
    "\<And>key. bm_get acc' key = or_else (bm_get acc1 key)
       (if wanted kb vcols key then map_option (Pair t) (first_update tables key) else None)"
    by blast
  have "bm_get acc' key = or_else (bm_get acc key)
       (if wanted kb vcols key then map_option (Pair t) (first_update (table # tables) key) else None)" for key
    by (cases "bm_get table key") (simp_all add: acc'(3) acc1(3) or_else_assoc)
  with acc1(1) acc'(1,2) show ?case by (simp del: first_update.simps)
qed simp

end
