(* ===== verification/Storage_Views.thy ===== *)
theory Storage_Views
  imports Storage_Scan
begin

text \<open>
  What the storage views compute. The presence snapshot is a pointwise reading of the cells at
  a timestamp; a commit is invisible to reads before its timestamp and visible from it on; the
  view under pending updates is the view of the storage the commit will produce; a write that
  is isolated from a read region cannot change what the region reads; and a tablet range
  splits storage into the rows before, in and after it.
\<close>

section \<open>Reading a cell\<close>

definition read_cell :: "generic_mv_table \<Rightarrow> timestamp \<Rightarrow> storage_key \<Rightarrow> (timestamp \<times> col_valn) option" where
  "read_cell storage t key = Option.bind (bm_get storage key) (\<lambda>versions. find_version versions t)"

definition region_wants :: "key_bound list \<Rightarrow> col_name list \<Rightarrow> storage_key \<Rightarrow> bool" where
  "region_wants region vcols key \<longleftrightarrow> in_row_region region (fst key) \<and> \<not> skip_col vcols (snd key)"

lemma region_wants_simps [simp]:
  "region_wants [] vcols key = False"
  "region_wants (kb # region) vcols key \<longleftrightarrow> wanted kb vcols key \<or> region_wants region vcols key"
  by (auto simp: region_wants_def in_row_region_def wanted_def)

definition keys_typed :: "(col_name \<times> col_type) list \<Rightarrow> (storage_key \<times> 'a) list \<Rightarrow> bool" where
  "keys_typed kcols rows \<longleftrightarrow> (\<forall>key \<in> fst ` set rows. pkey_typed kcols (fst key))"

definition region_typed :: "(col_name \<times> col_type) list \<Rightarrow> key_bound list \<Rightarrow> bool" where
  "region_typed kcols region \<longleftrightarrow> (\<forall>kb \<in> set region. key_bound_typed kcols kb)"

definition versions_sorted :: "(timestamp \<times> 'v) list \<Rightarrow> bool" where
  "versions_sorted versions \<longleftrightarrow> sorted_wrt (<) (map fst versions)"

text \<open>The invariant of a tablet's storage.\<close>

definition storage_ok :: "(col_name \<times> col_type) list \<Rightarrow> generic_mv_table \<Rightarrow> bool" where
  "storage_ok kcols storage \<longleftrightarrow>
     bm_wf storage \<and> keys_typed kcols storage \<and> (\<forall>versions \<in> snd ` set storage. versions_sorted versions)"

definition view_ok :: "(col_name \<times> col_type) list \<Rightarrow> generic_table \<Rightarrow> bool" where
  "view_ok kcols table \<longleftrightarrow> bm_wf table \<and> keys_typed kcols table"

lemma keys_typed_fit [intro]:
  "keys_typed kcols rows \<Longrightarrow> key_bound_typed kcols kb \<Longrightarrow> keys_fit kb rows"
  by (simp add: keys_typed_def key_bound_typed_def keys_fit_def bound_fits_def pkey_typed_def)

lemma region_typed_Cons [simp]:
  "region_typed kcols (kb # region) \<longleftrightarrow> key_bound_typed kcols kb \<and> region_typed kcols region"
  by (simp add: region_typed_def)

lemma amend_region_spec:
  assumes "storage_ok kcols storage" and "region_typed kcols region" and "bm_wf acc"
  shows "\<exists>acc'. amend_region storage region vcols t acc = Some acc' \<and> bm_wf acc' \<and>
    (\<forall>key. bm_get acc' key =
        or_else (bm_get acc key) (if region_wants region vcols key then read_cell storage t key else None))"
  using assms
proof (induction region arbitrary: acc)
  case (Cons kb region)
  then have "keys_fit kb storage" "bm_wf storage" by (auto simp: storage_ok_def)
  from amend_all_prior_versions_spec [OF this Cons.prems(3), of vcols t]
  obtain acc1 where acc1: "amend_all_prior_versions storage acc kb vcols t = Some acc1" "bm_wf acc1"
    "\<And>key. bm_get acc1 key =
        or_else (bm_get acc key) (if wanted kb vcols key then read_cell storage t key else None)"
    unfolding read_cell_def by blast
  from Cons.prems(2) have "region_typed kcols region" by simp
  from Cons.IH [OF Cons.prems(1) this acc1(2)] obtain acc' where
    acc': "amend_region storage region vcols t acc1 = Some acc'" "bm_wf acc'"
    "\<And>key. bm_get acc' key =
        or_else (bm_get acc1 key) (if region_wants region vcols key then read_cell storage t key else None)"
    by blast
  have "bm_get acc' key = or_else (bm_get acc key)
      (if region_wants (kb # region) vcols key then read_cell storage t key else None)" for key
    by (cases "read_cell storage t key") (simp_all add: acc'(3) acc1(3) or_else_assoc)
  with acc1(1) acc'(1,2) show ?case by (simp del: region_wants_simps)
qed simp

lemma ms_amend_region_spec:
  assumes "storage_ok kcols storage" and "\<forall>table \<in> set tables. view_ok kcols table"
    and "region_typed kcols region" and "bm_wf acc"
  shows "\<exists>acc'. ms_amend_region storage tables region vcols t acc = Some acc' \<and> bm_wf acc' \<and>
    (\<forall>key. bm_get acc' key =
        or_else (bm_get acc key)
          (if region_wants region vcols key
           then or_else (map_option (Pair t) (first_update tables key)) (read_cell storage t key)
           else None))"
  using assms
proof (induction region arbitrary: acc)
  case (Cons kb region)
  then have fit: "keys_fit kb storage" "bm_wf storage" by (auto simp: storage_ok_def)
  have "\<forall>table \<in> set tables. keys_fit kb table \<and> bm_wf table"
    using Cons.prems(2,3) by (auto simp: view_ok_def keys_typed_fit)
  from amend_updates_spec [OF this Cons.prems(4), of vcols t] obtain acc0 where
    acc0: "amend_updates tables kb vcols t acc = Some acc0" "bm_wf acc0"
    "\<And>key. bm_get acc0 key = or_else (bm_get acc key)
          (if wanted kb vcols key then map_option (Pair t) (first_update tables key) else None)"
    by blast
  from amend_all_prior_versions_spec [OF fit acc0(2), of vcols t]
  obtain acc1 where acc1: "amend_all_prior_versions storage acc0 kb vcols t = Some acc1" "bm_wf acc1"
    "\<And>key. bm_get acc1 key =
        or_else (bm_get acc0 key) (if wanted kb vcols key then read_cell storage t key else None)"
    unfolding read_cell_def by blast
  from Cons.prems(3) have "region_typed kcols region" by simp
  from Cons.IH [OF Cons.prems(1,2) this acc1(2)] obtain acc' where
    acc': "ms_amend_region storage tables region vcols t acc1 = Some acc'" "bm_wf acc'"
    "\<And>key. bm_get acc' key = or_else (bm_get acc1 key)
          (if region_wants region vcols key
           then or_else (map_option (Pair t) (first_update tables key)) (read_cell storage t key)
           else None)"
    by blast
  have "bm_get acc' key = or_else (bm_get acc key)
      (if region_wants (kb # region) vcols key
       then or_else (map_option (Pair t) (first_update tables key)) (read_cell storage t key)
       else None)" for key
    by (cases "read_cell storage t key"; cases "first_update tables key")
      (simp_all add: acc'(3) acc1(3) acc0(3) or_else_assoc)
  with acc0(1) acc1(1) acc'(1,2) show ?case by (simp del: region_wants_simps)
qed simp

section \<open>Committing an update view\<close>

lemma fst_add_version_rev:
  "fst ` set (add_version_rev versions t v) = insert t (fst ` set versions)"
  by (induction versions t v rule: add_version_rev.induct) (simp_all add: insert_commute)

lemma add_version_rev_sorted:
  "sorted_wrt (>) (map fst versions) \<Longrightarrow> sorted_wrt (>) (map fst (add_version_rev versions t v))"
proof (induction versions t v rule: add_version_rev.induct)
  case (2 cur_t cur_v versions t v)
  then have "\<forall>x \<in> fst ` set versions. x < cur_t" by auto
  moreover have "\<forall>x \<in> fst ` set (add_version_rev versions t v). x < cur_t"
    if "cur_t \<noteq> t" "\<not> cur_t < t"
    using that calculation by (auto simp: fst_add_version_rev simp del: image_iff)
  ultimately show ?case using 2 by (auto dest: less_trans)
qed simp

lemma find_SomeD: "find P xs = Some x \<Longrightarrow> x \<in> set xs \<and> P x"
  by (induction xs) (auto split: if_splits)

lemma find_add_version_rev:
  "sorted_wrt (>) (map fst versions) \<Longrightarrow>
     find (\<lambda>version. fst version \<le> t') (add_version_rev versions t v) =
       (let old = find (\<lambda>version. fst version \<le> t') versions
        in if t \<le> t' \<and> (case old of Some (ts, _) \<Rightarrow> ts \<le> t | None \<Rightarrow> True) then Some (t, v) else old)"
proof (induction versions)
  case (Cons e versions)
  obtain cur_t cur_v where e: "e = (cur_t, cur_v)" by fastforce
  have "find (\<lambda>version. fst version \<le> t') versions = Some (ts, w) \<Longrightarrow> ts < cur_t" for ts w
    using Cons.prems find_SomeD [of _ versions] by (force simp: e)
  with Cons show ?case
    by (auto simp: e Let_def split: option.splits)
qed simp

lemma versions_sorted_rev: "versions_sorted versions \<longleftrightarrow> sorted_wrt (>) (map fst (rev versions))"
  by (simp add: versions_sorted_def sorted_wrt_rev flip: rev_map)

lemma add_version_sorted: "versions_sorted versions \<Longrightarrow> versions_sorted (add_version versions t v)"
  by (simp add: versions_sorted_rev add_version_def add_version_rev_sorted)

lemma find_version_add_version:
  "versions_sorted versions \<Longrightarrow> find_version (add_version versions t v) t' =
     (if t \<le> t' \<and> (case find_version versions t' of Some (ts, _) \<Rightarrow> ts \<le> t | None \<Rightarrow> True)
      then Some (t, v) else find_version versions t')"
  using find_add_version_rev [of "rev versions" t' t v]
  by (simp add: versions_sorted_rev find_version_def rfind_def add_version_def Let_def)

lemma find_version_Nil [simp]: "find_version [] t = None"
  by (simp add: find_version_def)

lemma add_version_Nil: "add_version [] t v = [(t, v)]"
  by (simp add: add_version_def)

lemma bm_get_commit:
  "bm_wf view \<Longrightarrow> bm_get (commit_to_storage storage t view) key =
     (case bm_get view key of
        Some v \<Rightarrow> Some (add_version (case bm_get storage key of Some vs \<Rightarrow> vs | None \<Rightarrow> []) t v)
      | None \<Rightarrow> bm_get storage key)"
  unfolding commit_to_storage_def
proof (induction view arbitrary: storage)
  case (Cons e view)
  obtain k v where e: "e = (k, v)" by fastforce
  from Cons.prems have "bm_get view k = None" by (auto simp: e bm_get_None)
  then show ?case
    using Cons.prems by (auto simp: e Cons.IH add_version_Nil split: option.splits)
qed simp

lemma bm_wf_commit: "bm_wf storage \<Longrightarrow> bm_wf (commit_to_storage storage t view)"
  unfolding commit_to_storage_def
  by (induction view arbitrary: storage) (auto split: option.splits)

lemma storage_ok_get:
  "storage_ok kcols storage \<longleftrightarrow> bm_wf storage \<and>
     (\<forall>key versions. bm_get storage key = Some versions \<longrightarrow>
        pkey_typed kcols (fst key) \<and> versions_sorted versions)"
  by (force simp: storage_ok_def keys_typed_def bm_get_set [symmetric])

lemma view_ok_get:
  "view_ok kcols view \<longleftrightarrow>
     bm_wf view \<and> (\<forall>key v. bm_get view key = Some v \<longrightarrow> pkey_typed kcols (fst key))"
  by (force simp: view_ok_def keys_typed_def bm_get_set [symmetric])

lemma storage_ok_commit:
  "storage_ok kcols storage \<Longrightarrow> view_ok kcols view \<Longrightarrow>
     storage_ok kcols (commit_to_storage storage t view)"
  unfolding storage_ok_get view_ok_get
  by (auto simp: bm_wf_commit bm_get_commit intro!: add_version_sorted split: option.splits)
    (fastforce simp: versions_sorted_def)+

lemma read_cell_commit:
  assumes "storage_ok kcols storage" and "view_ok kcols view"
  shows "read_cell (commit_to_storage storage t view) t' key =
    (case bm_get view key of
       Some v \<Rightarrow>
         if t \<le> t' \<and> (case read_cell storage t' key of Some (ts, _) \<Rightarrow> ts \<le> t | None \<Rightarrow> True)
         then Some (t, v) else read_cell storage t' key
     | None \<Rightarrow> read_cell storage t' key)"
proof -
  have "versions_sorted (case bm_get storage key of Some vs \<Rightarrow> vs | None \<Rightarrow> [])"
    using assms(1) by (cases key; cases "bm_get storage key") (auto simp: storage_ok_get versions_sorted_def)
  moreover have "bm_wf view" using assms(2) by (simp add: view_ok_def)
  ultimately show ?thesis
    by (cases "bm_get storage key"; cases "bm_get view key")
      (simp_all add: read_cell_def bm_get_commit find_version_add_version)
qed

lemma bm_get_compress_table:
  "bm_get (compress_table table compressed) key = or_else (bm_get compressed key) (bm_get table key)"
  unfolding compress_table_def
  by (induction table arbitrary: compressed)
    (auto simp: bm_contains_def or_else_def simp del: bm_contains_iff split: option.splits if_splits)

lemma bm_wf_compress_table: "bm_wf compressed \<Longrightarrow> bm_wf (compress_table table compressed)"
  unfolding compress_table_def by (induction table arbitrary: compressed) auto

lemma fold_compress_table:
  "bm_get (fold (\<lambda>(_, table). compress_table table) views compressed) key =
     or_else (bm_get compressed key) (first_update (map snd views) key)"
  by (induction views arbitrary: compressed) (auto simp: bm_get_compress_table or_else_assoc)

lemma bm_get_compress_updates_views:
  "bm_get (compress_updates_views views) key = first_update (map snd views) key"
  by (simp add: compress_updates_views_def fold_compress_table)

lemma bm_wf_compress_updates_views: "bm_wf (compress_updates_views views)"
proof -
  have "bm_wf compressed \<Longrightarrow> bm_wf (fold (\<lambda>(_, table). compress_table table) views compressed)" for compressed
    by (induction views arbitrary: compressed) (auto simp: bm_wf_compress_table)
  then show ?thesis by (simp add: compress_updates_views_def)
qed

lemma first_update_SomeD: "first_update tables key = Some v \<Longrightarrow> \<exists>table \<in> set tables. bm_get table key = Some v"
  by (induction tables) (auto simp: or_else_def split: option.splits)

lemma view_ok_compress:
  "\<forall>table \<in> snd ` set views. view_ok kcols table \<Longrightarrow> view_ok kcols (compress_updates_views views)"
  by (fastforce simp: view_ok_get bm_wf_compress_updates_views bm_get_compress_updates_views
      dest!: first_update_SomeD)

section \<open>Presence snapshots\<close>

text \<open>A snapshot depends on the storage only through the cells the region asks for.\<close>

lemma simple_presence_snapshot_cong:
  assumes "storage_ok kcols st" and "storage_ok kcols st'" and "region_typed kcols region"
    and "\<And>key. region_wants region vcols key \<Longrightarrow> read_cell st t key = read_cell st' t key"
  shows "simple_presence_snapshot st schema region vcols t = simple_presence_snapshot st' schema region vcols t"
proof -
  from amend_region_spec [OF assms(1,3) bm_wf_Nil, of vcols t]
  obtain a where a: "amend_region st region vcols t [] = Some a" "bm_wf a"
    "\<And>key. bm_get a key = (if region_wants region vcols key then read_cell st t key else None)"
    by auto
  from amend_region_spec [OF assms(2,3) bm_wf_Nil, of vcols t]
  obtain b where b: "amend_region st' region vcols t [] = Some b" "bm_wf b"
    "\<And>key. bm_get b key = (if region_wants region vcols key then read_cell st' t key else None)"
    by auto
  have "a = b" by (rule bm_canonical [OF a(2) b(2)]) (simp add: a(3) b(3) assms(4))
  with a(1) b(1) show ?thesis by (simp add: simple_presence_snapshot_def)
qed

lemma ms_view_committed:
  assumes "storage_ok kcols storage" and "\<forall>table \<in> snd ` set views. view_ok kcols table"
    and "region_typed kcols region"
  shows "ms_presence_snapshot storage schema views tier region vcols t =
     simple_presence_snapshot
       (commit_to_storage storage t (compress_updates_views (bm_from tier views)))
       schema region vcols t"
proof -
  let ?ts = "map snd (bm_from tier views)"
  let ?view = "compress_updates_views (bm_from tier views)"
  let ?st = "commit_to_storage storage t ?view"
  have views: "\<forall>table \<in> snd ` set (bm_from tier views). view_ok kcols table"
    using assms(2) by (auto simp: bm_from_def)
  then have view: "view_ok kcols ?view" by (rule view_ok_compress)
  have tables: "\<forall>table \<in> set ?ts. view_ok kcols table" using views by simp
  from ms_amend_region_spec [OF assms(1) tables assms(3) bm_wf_Nil, of vcols t]
  obtain a where a: "ms_amend_region storage ?ts region vcols t [] = Some a" "bm_wf a"
    "\<And>key. bm_get a key = (if region_wants region vcols key
       then or_else (map_option (Pair t) (first_update ?ts key)) (read_cell storage t key) else None)"
    by auto
  from amend_region_spec [OF storage_ok_commit [OF assms(1) view] assms(3) bm_wf_Nil, of t vcols t]
  obtain b where b: "amend_region ?st region vcols t [] = Some b" "bm_wf b"
    "\<And>key. bm_get b key = (if region_wants region vcols key then read_cell ?st t key else None)"
    by auto
  have "read_cell ?st t key =
      or_else (map_option (Pair t) (first_update ?ts key)) (read_cell storage t key)" for key
  proof (cases "first_update ?ts key")
    case (Some v)
    have "read_cell storage t key = Some (ts, w) \<Longrightarrow> ts \<le> t" for ts w
      by (auto simp: read_cell_def find_version_def bind_eq_Some_conv dest: rfind_SomeD)
    with Some show ?thesis
      by (auto simp: read_cell_commit [OF assms(1) view] bm_get_compress_updates_views split: option.splits)
  qed (simp add: read_cell_commit [OF assms(1) view] bm_get_compress_updates_views)
  then have "a = b" by (intro bm_canonical [OF a(2) b(2)]) (simp add: a(3) b(3))
  with a(1) b(1) show ?thesis by (simp add: ms_presence_snapshot_def simple_presence_snapshot_def)
qed

text \<open>The pointwise reading of a row.\<close>

definition row_present :: "generic_mv_table \<Rightarrow> timestamp \<Rightarrow> primary_key \<Rightarrow> timestamp option" where
  "row_present storage t pkey =
     (case read_cell storage t (pkey, None) of
        Some (ts, v) \<Rightarrow> if v = PRESENCE_VALN then Some ts else None
      | None \<Rightarrow> None)"

definition cell_value ::
  "generic_mv_table \<Rightarrow> table_schema \<Rightarrow> timestamp \<Rightarrow> primary_key \<Rightarrow> timestamp \<Rightarrow> col_name \<Rightarrow> col_valn" where
  "cell_value storage schema t pkey row_ts col =
     (case (read_cell storage t (pkey, Some col), static_read_version (val_cols schema) col t) of
        (Some (ts, v), Some (col_ts, _)) \<Rightarrow> if row_ts \<le> ts \<and> col_ts \<le> ts then v else None
      | _ \<Rightarrow> None)"

definition snapshot_row ::
  "generic_mv_table \<Rightarrow> table_schema \<Rightarrow> col_name list \<Rightarrow> timestamp \<Rightarrow> primary_key \<Rightarrow> timestamp
    \<Rightarrow> (col_name \<times> col_valn) list" where
  "snapshot_row storage schema vcols t pkey row_ts =
     map (\<lambda>col. (col, cell_value storage schema t pkey row_ts col)) (sorted_list_of_set (set vcols))"

lemma present_keys_get:
  assumes "distinct (map fst apv)"
  shows "bm_get (fold (\<lambda>((pkey, ci), (ts, v)) acc.
            if ci = None \<and> v = PRESENCE_VALN then bm_insert pkey ts acc else acc) apv acc) pkey =
     (case bm_get apv (pkey, None) of
        Some (ts, v) \<Rightarrow> if v = PRESENCE_VALN then Some ts else bm_get acc pkey
      | None \<Rightarrow> bm_get acc pkey)"
  using assms
proof (induction apv arbitrary: acc)
  case (Cons e apv)
  obtain pk ci ts v where e: "e = ((pk, ci), (ts, v))" by (metis surj_pair)
  from Cons.prems have "bm_get apv (pk, ci) = None" by (auto simp: e bm_get_None image_iff)
  with Cons show ?case by (auto simp: e split: option.splits)
qed simp

lemma bm_wf_fold_insert:
  "bm_wf acc \<Longrightarrow> (\<And>e acc. bm_wf acc \<Longrightarrow> bm_wf (f e acc)) \<Longrightarrow> bm_wf (fold f es acc)"
  by (induction es arbitrary: acc) auto

lemma fold_insert_map_get:
  "distinct (map fst m) \<Longrightarrow>
     bm_get (fold (\<lambda>(k, v) acc. bm_insert k (g k v) acc) m acc) k =
       (case bm_get m k of Some v \<Rightarrow> Some (g k v) | None \<Rightarrow> bm_get acc k)"
proof (induction m arbitrary: acc)
  case (Cons e m)
  then have "bm_get m (fst e) = None" by (simp add: bm_get_None)
  with Cons show ?case by (cases e) (auto split: option.splits)
qed simp

lemma col_timestamps_get:
  "bm_get (fold (\<lambda>col acc. case f col of Some (ts, _) \<Rightarrow> bm_insert col ts acc | None \<Rightarrow> acc) cols acc) col =
     (if col \<in> set cols then (case f col of Some (ts, _) \<Rightarrow> Some ts | None \<Rightarrow> bm_get acc col)
      else bm_get acc col)"
  by (induction cols arbitrary: acc) (auto split: option.splits)

lemma bm_wf_keys: "bm_wf m \<Longrightarrow> map fst m = sorted_list_of_set (fst ` set m)"
  unfolding bm_wf_def by (metis list.set_map sorted_list_of_set.idem_if_sorted_distinct
      strict_sorted_iff)

lemma bm_wf_as_map:
  assumes "bm_wf m" and "fst ` set m = S" and "\<And>k v. bm_get m k = Some v \<Longrightarrow> g k v = h k"
  shows "map (\<lambda>(k, v). (k, g k v)) m = map (\<lambda>k. (k, h k)) (sorted_list_of_set S)"
proof -
  have "map (\<lambda>(k, v). (k, g k v)) m = map (\<lambda>(k, v). (k, h k)) m"
    using assms(1,3) by (auto simp: bm_get_set)
  also have "\<dots> = map (\<lambda>k. (k, h k)) (map fst m)" by (simp add: case_prod_unfold)
  finally show ?thesis using assms(1,2) by (simp add: bm_wf_keys)
qed

lemma simple_presence_snapshot_pointwise:
  assumes "storage_ok kcols storage" and "region_typed kcols region"
    and "\<forall>col \<in> set vcols. static_read (val_cols schema) col t \<noteq> None"
  shows "\<exists>snap. simple_presence_snapshot storage schema region vcols t = Some snap \<and> bm_wf snap \<and>
    (\<forall>pkey. bm_get snap pkey =
       (if in_row_region region pkey
        then map_option (snapshot_row storage schema vcols t pkey) (row_present storage t pkey)
        else None))"
proof -
  from amend_region_spec [OF assms(1,2) bm_wf_Nil, of vcols t]
  obtain apv where apv: "amend_region storage region vcols t [] = Some apv" "bm_wf apv"
    "\<And>key. bm_get apv key = (if region_wants region vcols key then read_cell storage t key else None)"
    by auto
  define keys where "keys = fold (\<lambda>((pkey, ci), (ts, v)) acc.
      if ci = None \<and> v = PRESENCE_VALN then bm_insert pkey ts acc else acc) apv []"
  define cts where "cts = fold (\<lambda>col acc. case static_read_version (val_cols schema) col t of
      Some (ts, _) \<Rightarrow> bm_insert col ts acc | None \<Rightarrow> acc) vcols []"
  have keys_wf: "bm_wf keys" unfolding keys_def by (rule bm_wf_fold_insert) auto
  have cts_wf: "bm_wf cts" unfolding cts_def by (rule bm_wf_fold_insert) (auto split: option.splits)
  have keys_get: "bm_get keys pkey = (if in_row_region region pkey then row_present storage t pkey else None)" for pkey
    by (simp add: keys_def present_keys_get [OF bm_wf_distinct [OF apv(2)]] apv(3) region_wants_def
        skip_col_def row_present_def split: option.splits)
  have some: "\<exists>ts v. static_read_version (val_cols schema) col t = Some (ts, v)" if "col \<in> set vcols" for col
    using assms(3) that by (fastforce simp: static_read_def split: option.splits)
  have cts_get: "bm_get cts col = (if col \<in> set vcols
      then map_option fst (static_read_version (val_cols schema) col t) else None)" for col
    unfolding cts_def col_timestamps_get using some by (auto split: option.splits)
  have cts_dom: "fst ` set cts = set vcols"
  proof (rule set_eqI)
    fix col
    have "col \<in> fst ` set cts \<longleftrightarrow> bm_get cts col \<noteq> None" by (simp add: bm_get_None)
    with some [of col] show "col \<in> fst ` set cts \<longleftrightarrow> col \<in> set vcols" by (auto simp: cts_get)
  qed
  have row: "map (\<lambda>(col, col_ts). (col, resolved_val apv ts pkey col col_ts)) cts =
      snapshot_row storage schema vcols t pkey ts" if "in_row_region region pkey" for pkey ts
    unfolding snapshot_row_def
  proof (rule bm_wf_as_map [OF cts_wf cts_dom])
    fix col col_ts assume "bm_get cts col = Some col_ts"
    then obtain w where "col \<in> set vcols" "static_read_version (val_cols schema) col t = Some (col_ts, w)"
      by (auto simp: cts_get split: if_splits)
    with that show "resolved_val apv ts pkey col col_ts = cell_value storage schema t pkey ts col"
      by (auto simp: resolved_val_def cell_value_def apv(3) region_wants_def skip_col_def split: option.splits)
  qed
  define snap where "snap = fold (\<lambda>(pkey, pkey_ts) acc. bm_insert pkey
      (map (\<lambda>(col, col_ts). (col, resolved_val apv pkey_ts pkey col col_ts)) cts) acc) keys []"
  have "simple_presence_snapshot storage schema region vcols t = Some snap"
    using assms(3) by (simp add: simple_presence_snapshot_def apv(1) prior_versions_to_presence_snapshot_def
        snap_def keys_def cts_def Let_def)
  moreover have "bm_wf snap" unfolding snap_def by (rule bm_wf_fold_insert) auto
  moreover have "bm_get snap pkey = (if in_row_region region pkey
      then map_option (snapshot_row storage schema vcols t pkey) (row_present storage t pkey) else None)" for pkey
    unfolding snap_def fold_insert_map_get [OF bm_wf_distinct [OF keys_wf]] keys_get
    by (auto simp: row split: option.splits)
  ultimately show ?thesis by blast
qed

section \<open>Commits, isolation and ranges\<close>

lemma snapshot_before_commit:
  assumes "storage_ok kcols storage" and "view_ok kcols view" and "region_typed kcols region" and "t' < t"
  shows "simple_presence_snapshot (commit_to_storage storage t view) schema region vcols t' =
    simple_presence_snapshot storage schema region vcols t'"
  using assms
  by (intro simple_presence_snapshot_cong [OF storage_ok_commit])
    (auto simp: read_cell_commit split: option.splits)

text \<open>An update view that stays within a write region.\<close>

definition view_within :: "write_region \<Rightarrow> generic_table \<Rightarrow> bool" where
  "view_within w view \<longleftrightarrow>
     (\<forall>key \<in> fst ` set view.
        in_row_region (wr_row_region w) (fst key) \<and>
        (case snd key of None \<Rightarrow> wr_presence w | Some col \<Rightarrow> col \<in> set (wr_val_col_region w)))"

lemma isolated_disjoint:
  assumes "is_surely_isolated w r = Some True" and "view_within w view"
    and "set vcols \<subseteq> set (rr_val_col_region r)" and "region_wants (rr_row_region r) vcols key"
  shows "bm_get view key = None"
proof (rule ccontr)
  assume "bm_get view key \<noteq> None"
  then have "key \<in> fst ` set view" by (simp add: bm_get_None)
  with assms(2) have row: "in_row_region (wr_row_region w) (fst key)"
    and col: "case snd key of None \<Rightarrow> wr_presence w | Some col \<Rightarrow> col \<in> set (wr_val_col_region w)"
    by (auto simp: view_within_def)
  from assms(1) obtain inter where
    inter: "might_row_region_intersect (rr_row_region r) (wr_row_region w) = Some inter"
    and cols: "inter \<Longrightarrow> \<not> wr_presence w \<and>
      \<not> does_col_regions_intersect (rr_val_col_region r) (wr_val_col_region w)"
    by (auto simp: is_surely_isolated_def split: if_splits)
  have inter: inter
    using might_row_region_intersect_sound [of "rr_row_region r" "wr_row_region w" "fst key"] row inter assms(4)
    by (cases inter) (auto simp: region_wants_def)
  from cols [OF this] col assms(3,4) show False
    by (auto simp: does_col_regions_intersect_def list_ex_iff region_wants_def skip_col_def split: option.splits)
qed

lemma isolated_snapshot:
  assumes "is_surely_isolated w r = Some True" and "view_within w view"
    and "set vcols \<subseteq> set (rr_val_col_region r)"
    and "storage_ok kcols storage" and "view_ok kcols view" and "region_typed kcols (rr_row_region r)"
  shows "simple_presence_snapshot (commit_to_storage storage t view) schema (rr_row_region r) vcols t' =
    simple_presence_snapshot storage schema (rr_row_region r) vcols t'"
  using assms
  by (intro simple_presence_snapshot_cong [OF storage_ok_commit])
    (auto simp: read_cell_commit isolated_disjoint)

lemma range_key_le:
  "pkey \<noteq> [] \<Longrightarrow> range_to_storage_key s \<le> (pkey, ci) \<longleftrightarrow> s \<le> hd pkey"
  by (cases pkey) (auto simp: range_to_storage_key_def less_eq_prod_def order.strict_iff_order)

lemma range_key_less:
  "pkey \<noteq> [] \<Longrightarrow> (pkey, ci) < range_to_storage_key e \<longleftrightarrow> hd pkey < e"
  using range_key_le [of pkey e ci] by (simp add: not_le [symmetric])

lemma bm_copy: "bm_wf m \<Longrightarrow> fold (\<lambda>(key, v) target. bm_insert key v target) m [] = m"
  using fold_insert_map_get [of m "\<lambda>k v. v" "[]"]
  by (intro bm_canonical bm_wf_fold_insert) (auto simp: bm_wf_distinct split: option.splits)

lemma bm_split: "bm_wf m \<Longrightarrow> bm_below k m @ bm_from k m = m"
proof (induction m)
  case (Cons e m)
  have "bm_below k m = []" if "k \<le> fst e"
    using that Cons.prems by (auto simp: bm_below_def filter_empty_conv)
  with Cons show ?case by (auto simp: bm_below_def bm_from_def not_less)
qed (simp add: bm_below_def bm_from_def)


lemma range_contains_alt:
  "range_contains rng v \<longleftrightarrow>
     (case kr_start rng of Some s \<Rightarrow> s \<le> v | None \<Rightarrow> True) \<and>
     (case kr_end rng of Some e \<Rightarrow> v < e | None \<Rightarrow> True)"
  by (auto simp: range_contains_def split: option.splits)

lemma range_storage_split:
  assumes "bm_wf storage" and "\<forall>key \<in> fst ` set storage. fst key \<noteq> []"
    and "compute_range_storage storage rng = Some inside" and "remove_range storage rng = (before, after)"
  shows "storage = before @ inside @ after"
    and "\<And>key v. (key, v) \<in> set inside \<longleftrightarrow> (key, v) \<in> set storage \<and> range_contains_pkey rng (fst key)"
proof -
  let ?from = "case kr_start rng of Some s \<Rightarrow> bm_from (range_to_storage_key s) storage | None \<Rightarrow> storage"
  have wf: "bm_wf ?from" using assms(1) by (auto split: option.splits)
  have inside: "inside =
      (case kr_end rng of Some e \<Rightarrow> bm_below (range_to_storage_key e) ?from | None \<Rightarrow> ?from)"
    using assms(3) wf by (auto simp: compute_range_storage_def Let_def bm_copy split: if_splits option.splits)
  have "storage = before @ ?from"
    using assms(1,4) by (auto simp: remove_range_def bm_split split: option.splits)
  moreover have "?from = inside @ after"
    using assms(4) wf by (auto simp: inside remove_range_def bm_split split: option.splits prod.splits)
  ultimately show "storage = before @ inside @ after" by simp
  show "(key, v) \<in> set inside \<longleftrightarrow> (key, v) \<in> set storage \<and> range_contains_pkey rng (fst key)" for key v
  proof (cases "(key, v) \<in> set storage")
    case True
    with assms(2) have "fst key \<noteq> []" by force
    with True show ?thesis
      using range_key_le [of "fst key" _ "snd key"] range_key_less [of "fst key" "snd key"]
      by (cases key; cases "fst key") (auto simp: inside bm_from_def bm_below_def range_contains_pkey_def
          range_contains_alt split: option.splits)
  qed (auto simp: inside bm_from_def bm_below_def split: option.splits)
qed

section \<open>Properties\<close>

text \<open>A table with one integer key column and one value column, and one row written at 1 and 3.\<close>

definition ex_kcols :: "(col_name \<times> col_type) list" where
  "ex_kcols = [(''k'', CT_Int)]"

definition ex_schema :: table_schema where
  "ex_schema = \<lparr>key_cols = ex_kcols,
     val_cols = \<lparr>min_lat = mk_t 0, mvm_map = [(''v'', (mk_t 1, [(mk_t 1, Some CT_Int)]))]\<rparr>\<rparr>"

definition ex_storage :: generic_mv_table where
  "ex_storage =
     [(([CV_Int 1], None), [(mk_t 1, PRESENCE_VALN)]),
      (([CV_Int 1], Some ''v''), [(mk_t 1, Some (CV_Int 10)), (mk_t 3, Some (CV_Int 30))]),
      (([CV_Int 7], None), [(mk_t 2, PRESENCE_VALN)])]"

definition ex_view :: generic_table where
  "ex_view = [(([CV_Int 1], Some ''v''), Some (CV_Int 50)), (([CV_Int 4], None), PRESENCE_VALN)]"

definition ex_region :: "key_bound list" where
  "ex_region = [[PCB_Int (mk_col_bound (Included 0) (Included 5))]]"

lemmas ex_simps = ex_kcols_def ex_schema_def ex_storage_def ex_view_def ex_region_def
  storage_ok_def view_ok_def keys_typed_def region_typed_def key_bound_typed_def pkey_typed_def
  versions_sorted_def less_timestamp_def less_eq_timestamp_def mk_t_def

lemma ex_storage_ok: "storage_ok ex_kcols ex_storage"
  by (simp add: ex_simps less_prod_def less_col_val_def)

lemma ex_view_ok: "view_ok ex_kcols ex_view"
  by (simp add: ex_simps less_prod_def less_col_val_def)

lemma ex_region_ok: "region_typed ex_kcols ex_region"
  by (simp add: ex_simps)

text \<open>
  C25: \<open>check_inclusion\<close> decides whether a key lies in a key bound of its type; when it
  answers \<open>Done\<close>, no key from there on in storage order lies in the bound, so the scan may stop.
\<close>

theorem check_inclusion_correct:
  assumes "bound_fits kb pkey"
  shows "\<exists>res. check_inclusion kb pkey = Some res \<and>
    (res = Incl_Included \<longleftrightarrow> key_bound_contains kb pkey) \<and>
    (res = Incl_Done \<longrightarrow> (\<forall>pkey' \<ge> pkey. \<not> key_bound_contains kb pkey'))"
  using check_inclusion_loop_total [OF assms, of True] check_inclusion_loop_included [OF assms, of True]
    check_inclusion_loop_done [OF assms, of True]
  by (auto simp: check_inclusion_def)

theorem check_inclusion_correct_witness:
  "check_inclusion [PCB_Int (mk_col_bound (Included 0) (Included 5))] [CV_Int 6] = Some Incl_Done \<and>
   \<not> key_bound_contains [PCB_Int (mk_col_bound (Included 0) (Included 5))] [CV_Int 9]"
proof -
  let ?kb = "[PCB_Int (mk_col_bound (Included 0) (Included 5))]"
  have "check_inclusion ?kb [CV_Int 6] = Some Incl_Done" and "[CV_Int 6] \<le> [CV_Int 9]" by code_simp+
  with check_inclusion_correct [of ?kb "[CV_Int 6]"] show ?thesis by simp
qed

text \<open>
  C13: The presence snapshot of a committed storage is a pointwise reading. The scan of the key
  region with its range queries, skips and early exits never fails on typed keys, and the
  snapshot holds exactly the rows of the region whose presence cell is set at the time of the
  read, each with its columns in order; a column value older than its row or than the column
  reads as null.
\<close>

theorem simple_presence_snapshot_spec:
  assumes "storage_ok kcols storage" and "region_typed kcols region"
    and "\<forall>col \<in> set vcols. static_read (val_cols schema) col t \<noteq> None"
  shows "\<exists>snap. simple_presence_snapshot storage schema region vcols t = Some snap \<and> bm_wf snap \<and>
    (\<forall>pkey. bm_get snap pkey =
       (if in_row_region region pkey
        then map_option (snapshot_row storage schema vcols t pkey) (row_present storage t pkey)
        else None))"
  by (rule simple_presence_snapshot_pointwise [OF assms])

theorem simple_presence_snapshot_spec_witness:
  "\<exists>snap. simple_presence_snapshot ex_storage ex_schema ex_region [''v''] (mk_t 2) = Some snap \<and>
     bm_get snap [CV_Int 1] = Some [(''v'', Some (CV_Int 10))] \<and> bm_get snap [CV_Int 7] = None"
proof -
  have "\<forall>col \<in> set [''v'']. static_read (val_cols ex_schema) col (mk_t 2) \<noteq> None" by code_simp
  from simple_presence_snapshot_spec [OF ex_storage_ok ex_region_ok this]
  obtain snap where snap: "simple_presence_snapshot ex_storage ex_schema ex_region [''v''] (mk_t 2) = Some snap"
    "\<And>pkey. bm_get snap pkey = (if in_row_region ex_region pkey
        then map_option (snapshot_row ex_storage ex_schema [''v''] (mk_t 2) pkey)
          (row_present ex_storage (mk_t 2) pkey) else None)" by blast
  have "in_row_region ex_region [CV_Int 1]" "\<not> in_row_region ex_region [CV_Int 7]" by code_simp+
  moreover have "row_present ex_storage (mk_t 2) [CV_Int 1] = Some (mk_t 1)" by code_simp
  moreover have "snapshot_row ex_storage ex_schema [''v''] (mk_t 2) [CV_Int 1] (mk_t 1) =
    [(''v'', Some (CV_Int 10))]" by code_simp
  ultimately show ?thesis using snap by auto
qed

text \<open>
  C12: The storage view of a transaction under its pending update views reads exactly what a
  plain read will see once the views, from the given tier upwards, are compressed and
  committed at the timestamp of the read.
\<close>

theorem ms_view_refines_commit:
  assumes "storage_ok kcols storage" and "\<forall>table \<in> snd ` set views. view_ok kcols table"
    and "region_typed kcols region"
  shows "ms_presence_snapshot storage schema views tier region vcols t =
     simple_presence_snapshot
       (commit_to_storage storage t (compress_updates_views (bm_from tier views)))
       schema region vcols t"
  by (rule ms_view_committed [OF assms])

theorem ms_view_refines_commit_witness:
  "ms_presence_snapshot ex_storage ex_schema [(2, ex_view)] 1 ex_region [''v''] (mk_t 5) =
     simple_presence_snapshot
       (commit_to_storage ex_storage (mk_t 5) (compress_updates_views (bm_from 1 [(2, ex_view)])))
       ex_schema ex_region [''v''] (mk_t 5)"
  by (rule ms_view_refines_commit [OF ex_storage_ok _ ex_region_ok]) (simp add: ex_view_ok)

text \<open>
  C15: A commit at \<open>t\<close> keeps the storage invariant and is invisible to every read before \<open>t\<close>;
  from \<open>t\<close> on, a cell of the committed view reads as the committed value until a later version.
\<close>

theorem commit_to_storage_visibility:
  assumes "storage_ok kcols storage" and "view_ok kcols view"
  shows "storage_ok kcols (commit_to_storage storage t view) \<and>
    (t' < t \<longrightarrow> region_typed kcols region \<longrightarrow>
      simple_presence_snapshot (commit_to_storage storage t view) schema region vcols t' =
      simple_presence_snapshot storage schema region vcols t') \<and>
    read_cell (commit_to_storage storage t view) t' key =
      (case bm_get view key of
         Some v \<Rightarrow>
           if t \<le> t' \<and> (case read_cell storage t' key of Some (ts, _) \<Rightarrow> ts \<le> t | None \<Rightarrow> True)
           then Some (t, v) else read_cell storage t' key
       | None \<Rightarrow> read_cell storage t' key)"
  using assms by (simp add: storage_ok_commit snapshot_before_commit read_cell_commit)

theorem commit_to_storage_visibility_witness:
  "simple_presence_snapshot (commit_to_storage ex_storage (mk_t 5) ex_view) ex_schema ex_region [''v''] (mk_t 4) =
     simple_presence_snapshot ex_storage ex_schema ex_region [''v''] (mk_t 4) \<and>
   read_cell (commit_to_storage ex_storage (mk_t 5) ex_view) (mk_t 6) ([CV_Int 4], None) =
     Some (mk_t 5, PRESENCE_VALN)"
proof -
  have "mk_t 4 < mk_t 5" by code_simp
  with commit_to_storage_visibility [OF ex_storage_ok ex_view_ok, of "mk_t 5" "mk_t 4" ex_region ex_schema]
    commit_to_storage_visibility [OF ex_storage_ok ex_view_ok, of "mk_t 5" "mk_t 6" _ _ _ "([CV_Int 4], None)"]
  show ?thesis
    using ex_region_ok by (auto simp: ex_view_def ex_storage_def read_cell_def less_eq_timestamp_def mk_t_def)
qed

text \<open>
  C14: Region isolation. A commit whose cells lie in a write region that \<open>is_surely_isolated\<close>
  finds isolated from a read region changes nothing the read region reads, at any time.
\<close>

theorem isolated_write_preserves_read:
  assumes "is_surely_isolated w r = Some True" and "view_within w view"
    and "set vcols \<subseteq> set (rr_val_col_region r)"
    and "storage_ok kcols storage" and "view_ok kcols view" and "region_typed kcols (rr_row_region r)"
  shows "simple_presence_snapshot (commit_to_storage storage t view) schema (rr_row_region r) vcols t' =
    simple_presence_snapshot storage schema (rr_row_region r) vcols t'"
  by (rule isolated_snapshot [OF assms])

theorem isolated_write_preserves_read_witness:
  "simple_presence_snapshot (commit_to_storage ex_storage (mk_t 5) ex_view) ex_schema
       [[PCB_Int (mk_col_bound (Excluded 5) Unbounded)]] [''v''] (mk_t 9) =
     simple_presence_snapshot ex_storage ex_schema [[PCB_Int (mk_col_bound (Excluded 5) Unbounded)]] [''v''] (mk_t 9)"
proof -
  let ?w = "\<lparr>wr_row_region = ex_region, wr_presence = True, wr_val_col_region = [''v'']\<rparr>"
  let ?r = "\<lparr>rr_row_region = [[PCB_Int (mk_col_bound (Excluded 5) Unbounded)]], rr_val_col_region = [''v'']\<rparr>"
  have "is_surely_isolated ?w ?r = Some True" by code_simp
  moreover have "view_within ?w ex_view" by code_simp
  moreover have "region_typed ex_kcols (rr_row_region ?r)" by (simp add: ex_simps)
  ultimately show ?thesis
    using isolated_write_preserves_read [of ?w ?r ex_view "[''v'']" ex_kcols ex_storage "mk_t 5" ex_schema "mk_t 9"]
      ex_storage_ok ex_view_ok by simp
qed

text \<open>
  C27: A tablet range splits storage: what \<open>compute_range_storage\<close> copies and the two parts
  \<open>remove_range\<close> leaves are the whole storage in order, and the copied rows are those whose
  key the range contains.
\<close>

theorem range_storage_partition:
  assumes "bm_wf storage" and "\<forall>key \<in> fst ` set storage. fst key \<noteq> []"
    and "compute_range_storage storage rng = Some inside" and "remove_range storage rng = (before, after)"
  shows "storage = before @ inside @ after \<and>
    (\<forall>key v. (key, v) \<in> set inside \<longleftrightarrow> (key, v) \<in> set storage \<and> range_contains_pkey rng (fst key))"
  using range_storage_split [OF assms] by blast

theorem range_storage_partition_witness:
  "\<exists>before inside after.
     compute_range_storage ex_storage \<lparr>kr_start = Some (CV_Int 2), kr_end = None\<rparr> = Some inside \<and>
     remove_range ex_storage \<lparr>kr_start = Some (CV_Int 2), kr_end = None\<rparr> = (before, after) \<and>
     ex_storage = before @ inside @ after \<and> inside \<noteq> []"
proof -
  let ?rng = "\<lparr>kr_start = Some (CV_Int 2), kr_end = None\<rparr>"
  let ?inside = "[(([CV_Int 7], None), [(mk_t 2, PRESENCE_VALN)])]"
  have "bm_wf ex_storage" using ex_storage_ok by (simp add: storage_ok_def)
  moreover have "\<forall>key \<in> fst ` set ex_storage. fst key \<noteq> []" by (simp add: ex_storage_def)
  moreover have "compute_range_storage ex_storage ?rng = Some ?inside" by code_simp
  moreover have "remove_range ex_storage ?rng = (take 2 ex_storage, [])" by code_simp
  ultimately show ?thesis using range_storage_partition by fastforce
qed

end
