(* ===== verification/Paxos.thy ===== *)
theory Paxos
  imports Common
begin

text \<open>
  The multi-instance Paxos driver of \<open>src/src/paxos.rs\<close> with its messages from
  \<open>src/src/message.rs\<close>. Every \<open>&mut self\<close> method is a function from the driver to the driver,
  with the list of its effects on the context (messages sent, timers deferred, in order) and
  the log entries it delivers; \<open>None\<close> is a panic (\<open>unwrap\<close> of a missing entry, overflow of
  a \<open>u32\<close>). Rounds and counters are natural numbers with checked addition, log indices
  (\<open>u128\<close>) are natural numbers. The random numbers the code draws are arguments. The two
  loops of the message handler are total functions with termination proofs.
\<close>

section \<open>Messages\<close>

type_synonym rnd = nat
type_synonym pl_index = nat

datatype 'b reconfig_bundle =
  ReconfigBundle (rem_eids: "endpoint_id list") (new_eids: "endpoint_id list") (rb_bundle: 'b)

datatype 'b pl_entry =
    PL_Bundle 'b
  | PL_ReconfigBundle "'b reconfig_bundle"
  | PL_LeaderChanged leadership_id

datatype 'v paxos_message =
    Prepare rnd
  | Promise rnd "(rnd \<times> 'v) option"
  | Accept rnd 'v
  | Learn rnd

datatype 'b multi_paxos_message =
  Multi (mp_sender: endpoint_id) (mp_nodes: "endpoint_id list") (mp_index: pl_index)
    (mp_message: "'b pl_entry paxos_message")

record 'b start_new_node =
  sn_sender_eid :: endpoint_id
  sn_paxos_nodes :: "endpoint_id list"
  sn_remote_next_indices :: "(endpoint_id, pl_index) btree"
  sn_next_index :: pl_index
  sn_paxos_instance_vals :: "(pl_index, rnd \<times> 'b pl_entry) btree"
  sn_unconfirmed_eids :: "endpoint_id bset"
  sn_leader :: leadership_id

datatype 'b paxos_driver_message =
    DM_MultiPaxosMessage "'b multi_paxos_message"
  | DM_IsLeader leadership_id
  | DM_InformLearned endpoint_id "(pl_index, rnd) btree"
  | DM_LogSyncRequest endpoint_id pl_index
  | DM_LogSyncResponse "(pl_index \<times> rnd \<times> 'b pl_entry) list"
  | DM_NextIndexRequest endpoint_id
  | DM_NextIndexResponse endpoint_id pl_index
  | DM_StartNewNode "'b start_new_node"
  | DM_NewNodeStarted endpoint_id

section \<open>The state of one Paxos instance\<close>

record 'b proposal =
  pr_crnd :: rnd
  pr_cval :: "'b pl_entry"
  pr_promises :: "(rnd \<times> 'b pl_entry) option list"

record 'b proposer_state =
  proposals :: "(rnd, 'b proposal) btree"
  latest_crnd :: nat

record 'b acceptor_state =
  acc_rnd :: rnd
  vrnd_vval :: "(rnd \<times> 'b pl_entry) option"

record learner_state =
  learned :: "(rnd, nat) btree"
  learned_vrnd :: "rnd option"

record 'b paxos_instance =
  proposer :: "'b proposer_state"
  acceptor :: "'b acceptor_state"
  learner :: learner_state

definition paxos_instance_new :: "'b paxos_instance" where
  "paxos_instance_new =
     \<lparr>proposer = \<lparr>proposals = [], latest_crnd = 0\<rparr>,
      acceptor = \<lparr>acc_rnd = 0, vrnd_vval = None\<rparr>,
      learner = \<lparr>learned = [], learned_vrnd = None\<rparr>\<rparr>"

section \<open>The driver\<close>

record paxos_config =
  heartbeat_threshold :: nat
  heartbeat_period_ms :: timestamp
  next_index_period_ms :: timestamp
  retry_defer_time_ms :: timestamp
  proposal_increment :: nat
  remote_next_index_thresh :: nat
  cfg_max_failable :: nat

datatype paxos_timer_event = RetryInsert uuid | LeaderHeartbeat | NextIndex

text \<open>What a handler does to its \<open>PaxosContextBase\<close>, in order.\<close>

datatype 'b paxos_effect =
    Send endpoint_id "'b paxos_driver_message"
  | Defer timestamp paxos_timer_event

datatype 'b user_pl_entry = User_Bundle 'b | User_ReconfigBundle "'b reconfig_bundle"

fun user_convert :: "'b user_pl_entry \<Rightarrow> 'b pl_entry" where
  "user_convert (User_Bundle bundle) = PL_Bundle bundle"
| "user_convert (User_ReconfigBundle reconfig) = PL_ReconfigBundle reconfig"

definition majority :: "'a list \<Rightarrow> nat" where
  "majority vec = length vec div 2 + 1"

record 'b instance_entry =
  inst :: "'b paxos_instance option"
  learned_rnd_val :: "(rnd \<times> 'b pl_entry) option"

record 'b paxos_driver =
  paxos_config :: paxos_config
  paxos_nodes :: "endpoint_id list"
  remote_next_indices :: "(endpoint_id, pl_index) btree"
  next_index :: pl_index
  paxos_instances :: "(pl_index, 'b instance_entry) btree"
  buffered_messages :: "(pl_index, 'b multi_paxos_message list) btree"
  leader :: leadership_id
  heartbeat :: nat
  unconfirmed_eids :: "(endpoint_id, bool) btree"
  next_insert :: "(uuid \<times> 'b user_pl_entry) option"

text \<open>The first node of the initial configuration is the first leader.\<close>

definition create_initial :: "endpoint_id list \<Rightarrow> paxos_config \<Rightarrow> 'b paxos_driver option" where
  "create_initial nodes config =
     (case nodes of
        [] \<Rightarrow> None
      | leader_eid # _ \<Rightarrow>
          Some \<lparr>paxos_config = config, paxos_nodes = nodes,
            remote_next_indices = fold (\<lambda>node. bm_insert node 0) nodes [],
            next_index = 0, paxos_instances = [], buffered_messages = [],
            leader = \<lparr>lid_gen = 0, lid_eid = leader_eid\<rparr>, heartbeat = 0,
            unconfirmed_eids = [], next_insert = None\<rparr>)"

definition create_reconfig ::
  "endpoint_id \<Rightarrow> 'b start_new_node \<Rightarrow> paxos_config \<Rightarrow> 'b paxos_effect list \<times> 'b paxos_driver" where
  "create_reconfig this_eid start config =
     (map (\<lambda>eid. Send eid (DM_NewNodeStarted this_eid)) (sn_paxos_nodes start),
      \<lparr>paxos_config = config, paxos_nodes = sn_paxos_nodes start,
       remote_next_indices = sn_remote_next_indices start,
       next_index = sn_next_index start,
       paxos_instances =
         fold (\<lambda>(index, rnd_val). bm_insert index \<lparr>inst = None, learned_rnd_val = Some rnd_val\<rparr>)
           (sn_paxos_instance_vals start) [],
       buffered_messages = [], leader = sn_leader start, heartbeat = 0,
       unconfirmed_eids =
         fold (\<lambda>eid. bm_insert eid False) (bs_remove this_eid (sn_unconfirmed_eids start)) [],
       next_insert = None\<rparr>)"

definition min_complete_index :: "'b paxos_driver \<Rightarrow> pl_index" where
  "min_complete_index d =
     fold (\<lambda>(_, remote_index) min_index. min min_index remote_index)
       (remote_next_indices d) (next_index d)"

definition is_leader :: "'b paxos_driver \<Rightarrow> endpoint_id \<Rightarrow> bool" where
  "is_leader d this_eid \<longleftrightarrow> lid_eid (leader d) = this_eid"

section \<open>Reconfiguration utilities\<close>

definition paxos_group_size :: "'b paxos_driver \<Rightarrow> nat" where
  "paxos_group_size d = length (paxos_nodes d)"

definition max_failable :: "'b paxos_driver \<Rightarrow> nat" where
  "max_failable d = cfg_max_failable (paxos_config d)"

text \<open>An empty group would underflow.\<close>

definition max_reconfig_size :: "'b paxos_driver \<Rightarrow> nat option" where
  "max_reconfig_size d =
     (if paxos_group_size d = 0 then None
      else
        (let strict_minority =
               (if paxos_group_size d mod 2 = 0 then paxos_group_size d div 2 - 1
                else paxos_group_size d div 2)
         in Some (if max_failable d \<le> strict_minority then strict_minority - max_failable d else 0)))"

fun maybe_dead_loop ::
  "'b paxos_driver \<Rightarrow> endpoint_id \<Rightarrow> (endpoint_id \<times> pl_index) list \<Rightarrow> endpoint_id list
    \<Rightarrow> endpoint_id list option" where
  "maybe_dead_loop d cur_eid [] maybe_dead_eids = Some maybe_dead_eids"
| "maybe_dead_loop d cur_eid ((eid, index) # rest) maybe_dead_eids =
     (if eid \<noteq> cur_eid then
        do { size \<leftarrow> max_reconfig_size d;
             maybe_dead_loop d cur_eid rest
               (if length maybe_dead_eids < size \<and>
                   index + remote_next_index_thresh (paxos_config d) < next_index d
                then maybe_dead_eids @ [eid] else maybe_dead_eids) }
      else maybe_dead_loop d cur_eid rest maybe_dead_eids)"

definition get_maybe_dead :: "'b paxos_driver \<Rightarrow> endpoint_id \<Rightarrow> endpoint_id list option" where
  "get_maybe_dead d cur_eid = maybe_dead_loop d cur_eid (remote_next_indices d) []"

definition has_unsent_unconfirmed :: "'b paxos_driver \<Rightarrow> bool" where
  "has_unsent_unconfirmed d = list_ex (\<lambda>(_, did_send_start). \<not> did_send_start) (unconfirmed_eids d)"

fun instance_vals ::
  "pl_index \<Rightarrow> (pl_index \<times> 'b instance_entry) list \<Rightarrow> (pl_index, rnd \<times> 'b pl_entry) btree
    \<Rightarrow> (pl_index, rnd \<times> 'b pl_entry) btree option" where
  "instance_vals next [] vals = Some vals"
| "instance_vals next ((index, entry) # rest) vals =
     (if index < next then
        (case learned_rnd_val entry of
           None \<Rightarrow> None
         | Some rnd_val \<Rightarrow> instance_vals next rest (bm_insert index rnd_val vals))
      else Some vals)"

definition mk_start_new_node ::
  "endpoint_id \<Rightarrow> 'b paxos_driver
    \<Rightarrow> (('b start_new_node \<times> endpoint_id list) \<times> 'b paxos_driver) option" where
  "mk_start_new_node this_eid d =
     map_option (\<lambda>vals.
       ((\<lparr>sn_sender_eid = this_eid, sn_paxos_nodes = paxos_nodes d,
          sn_remote_next_indices = remote_next_indices d, sn_next_index = next_index d,
          sn_paxos_instance_vals = vals,
          sn_unconfirmed_eids = fold bs_insert (bm_keys (unconfirmed_eids d)) [],
          sn_leader = leader d\<rparr>,
         map fst (filter (\<lambda>(_, did_send_start). \<not> did_send_start) (unconfirmed_eids d))),
        d\<lparr>unconfirmed_eids := bm_map_values (\<lambda>_. True) (unconfirmed_eids d)\<rparr>))
     (instance_vals (next_index d) (paxos_instances d) [])"

section \<open>Delivering learned entries\<close>

text \<open>The effect of a learned entry on the driver, \<open>next_index\<close> already advanced.\<close>

fun process_entry :: "'b pl_entry \<Rightarrow> 'b paxos_driver \<Rightarrow> 'b paxos_driver" where
  "process_entry (PL_Bundle _) d = d"
| "process_entry (PL_ReconfigBundle reconfig) d =
     (let d1 = fold (\<lambda>eid d.
                 d\<lparr>remote_next_indices := bm_insert eid (next_index d) (remote_next_indices d),
                   unconfirmed_eids := bm_insert eid False (unconfirmed_eids d),
                   paxos_nodes := paxos_nodes d @ [eid]\<rparr>) (new_eids reconfig) d
      in fold (\<lambda>eid d.
                 d\<lparr>remote_next_indices := bm_remove eid (remote_next_indices d),
                   unconfirmed_eids := bm_remove eid (unconfirmed_eids d),
                   paxos_nodes := remove_item (paxos_nodes d) eid\<rparr>) (rem_eids reconfig) d1)"
| "process_entry (PL_LeaderChanged lid) d = d\<lparr>leader := lid, heartbeat := 0\<rparr>"

lemma fold_field:
  "(\<And>x d. f (g x d) = f d) \<Longrightarrow> f (fold g xs d) = f d"
  by (induction xs arbitrary: d) auto

lemma process_entry_fields [simp]:
  "paxos_instances (process_entry v d) = paxos_instances d"
  "next_index (process_entry v d) = next_index d"
  "buffered_messages (process_entry v d) = buffered_messages d"
  "paxos_config (process_entry v d) = paxos_config d"
  "next_insert (process_entry v d) = next_insert d"
  by (cases v; simp add: Let_def fold_field)+

definition learned_at :: "'b paxos_driver \<Rightarrow> pl_index \<Rightarrow> (rnd \<times> 'b pl_entry) option" where
  "learned_at d index =
     (case bm_get (paxos_instances d) index of
        Some entry \<Rightarrow> learned_rnd_val entry
      | None \<Rightarrow> None)"

lemma filter_length_less:
  "x \<in> set xs \<Longrightarrow> \<not> Q x \<Longrightarrow> P x \<Longrightarrow> (\<And>y. Q y \<Longrightarrow> P y) \<Longrightarrow>
     length (filter Q xs) < length (filter P xs)"
proof (induction xs)
  case (Cons y ys)
  have "length (filter Q ys) \<le> length (filter P ys)"
    by (induction ys) (use Cons.prems(4) in auto)
  with Cons show ?case by auto
qed simp

function deliver_loop :: "'b paxos_driver \<Rightarrow> 'b pl_entry list \<times> 'b paxos_driver" where
  "deliver_loop d =
     (case learned_at d (next_index d) of
        Some (_, learned_val) \<Rightarrow>
          (case deliver_loop (process_entry learned_val (d\<lparr>next_index := next_index d + 1\<rparr>)) of
             (new_entries, d') \<Rightarrow> (learned_val # new_entries, d'))
      | None \<Rightarrow> ([], d))"
  by pat_completeness auto
termination
proof (relation "measure (\<lambda>d. length (filter (\<lambda>e. next_index d \<le> fst e) (paxos_instances d)))")
  fix d :: "'b paxos_driver" and x r v
  assume "learned_at d (next_index d) = Some x" and "(r, v) = x"
  then obtain entry where "(next_index d, entry) \<in> set (paxos_instances d)"
    by (auto simp: learned_at_def dest: map_of_SomeD split: option.splits)
  then show "(process_entry v (d\<lparr>next_index := next_index d + 1\<rparr>), d)
    \<in> measure (\<lambda>d. length (filter (\<lambda>e. next_index d \<le> fst e) (paxos_instances d)))"
    by (auto intro: filter_length_less)
qed simp

declare deliver_loop.simps [simp del]

definition deliver_learned_entries :: "'b paxos_driver \<Rightarrow> 'b pl_entry list \<times> 'b paxos_driver" where
  "deliver_learned_entries d =
     (case deliver_loop d of
        (new_entries, d') \<Rightarrow>
          (new_entries, if new_entries \<noteq> [] then d'\<lparr>next_insert := None\<rparr> else d'))"

section \<open>The handlers of a Paxos message\<close>

type_synonym 'b paxos_res = "('b paxos_effect list \<times> 'b pl_entry list \<times> 'b paxos_driver) option"

definition send_all :: "endpoint_id list \<Rightarrow> 'b paxos_driver_message \<Rightarrow> 'b paxos_effect list" where
  "send_all eids m = map (\<lambda>eid. Send eid m) eids"

text \<open>Creates the instance at an index if it does not exist already, and returns the entry.\<close>

definition ensure_instance :: "'b paxos_driver \<Rightarrow> pl_index \<Rightarrow> 'b instance_entry \<times> 'b paxos_instance" where
  "ensure_instance d index =
     (case bm_get (paxos_instances d) index of
        Some entry \<Rightarrow>
          (case inst entry of
             Some instance' \<Rightarrow> (entry, instance')
           | None \<Rightarrow> (entry\<lparr>inst := Some paxos_instance_new\<rparr>, paxos_instance_new))
      | None \<Rightarrow> (\<lparr>inst = Some paxos_instance_new, learned_rnd_val = None\<rparr>, paxos_instance_new))"

definition put_instance ::
  "'b paxos_driver \<Rightarrow> pl_index \<Rightarrow> 'b instance_entry \<Rightarrow> 'b paxos_instance \<Rightarrow> 'b paxos_driver" where
  "put_instance d index entry instance' =
     d\<lparr>paxos_instances := bm_insert index (entry\<lparr>inst := Some instance'\<rparr>) (paxos_instances d)\<rparr>"

definition handle_prepare ::
  "endpoint_id \<Rightarrow> 'b paxos_driver \<Rightarrow> 'b multi_paxos_message \<Rightarrow> rnd \<Rightarrow> 'b paxos_res" where
  "handle_prepare this_eid d multi crnd =
     (case ensure_instance d (mp_index multi) of
        (entry, instance') \<Rightarrow>
          (let state = acceptor instance'
           in if crnd > acc_rnd state
              then Some
                ([Send (mp_sender multi) (DM_MultiPaxosMessage
                    (Multi this_eid (mp_nodes multi) (mp_index multi) (Promise crnd (vrnd_vval state))))],
                 [],
                 put_instance d (mp_index multi) entry
                   (instance'\<lparr>acceptor := state\<lparr>acc_rnd := crnd\<rparr>\<rparr>))
              else Some ([], [], put_instance d (mp_index multi) entry instance')))"

definition max_vrnd_vval :: "(rnd \<times> 'v) option list \<Rightarrow> (rnd \<times> 'v) option" where
  "max_vrnd_vval promises =
     fold (\<lambda>vv best.
             (case vv of
                None \<Rightarrow> best
              | Some (vrnd, _) \<Rightarrow>
                  (case best of
                     Some (rnd, _) \<Rightarrow> if vrnd > rnd then vv else best
                   | None \<Rightarrow> vv))) promises None"

definition handle_promise ::
  "endpoint_id \<Rightarrow> 'b paxos_driver \<Rightarrow> 'b multi_paxos_message \<Rightarrow> rnd \<Rightarrow> (rnd \<times> 'b pl_entry) option
    \<Rightarrow> 'b paxos_res" where
  "handle_promise this_eid d multi rnd vv =
     (case ensure_instance d (mp_index multi) of
        (entry, instance') \<Rightarrow>
          (case bm_get (proposals (proposer instance')) rnd of
             None \<Rightarrow> None
           | Some proposal \<Rightarrow>
               (let state = proposal\<lparr>pr_promises := pr_promises proposal @ [vv]\<rparr>;
                    d' = put_instance d (mp_index multi) entry
                           (instance'\<lparr>proposer := (proposer instance')
                              \<lparr>proposals := bm_insert rnd state (proposals (proposer instance'))\<rparr>\<rparr>)
                in if length (pr_promises state) = majority (paxos_nodes d)
                   then Some
                     (send_all (paxos_nodes d) (DM_MultiPaxosMessage
                        (Multi this_eid (mp_nodes multi) (mp_index multi)
                          (Accept (pr_crnd state)
                            (case max_vrnd_vval (pr_promises state) of
                               Some (_, vval) \<Rightarrow> vval
                             | None \<Rightarrow> pr_cval state)))),
                      [], d')
                   else Some ([], [], d'))))"

text \<open>Sets the learned value of an index and delivers what has become contiguous.\<close>

definition learn_and_deliver ::
  "'b paxos_driver \<Rightarrow> pl_index \<Rightarrow> 'b instance_entry \<Rightarrow> 'b paxos_instance \<Rightarrow> rnd \<times> 'b pl_entry
    \<Rightarrow> 'b pl_entry list \<times> 'b paxos_driver" where
  "learn_and_deliver d index entry instance' rnd_val =
     deliver_learned_entries
       (put_instance d index (entry\<lparr>learned_rnd_val := Some rnd_val\<rparr>) instance')"

definition handle_accept ::
  "endpoint_id \<Rightarrow> 'b paxos_driver \<Rightarrow> 'b multi_paxos_message \<Rightarrow> rnd \<Rightarrow> 'b pl_entry \<Rightarrow> 'b paxos_res" where
  "handle_accept this_eid d multi crnd cval =
     (case ensure_instance d (mp_index multi) of
        (entry, instance') \<Rightarrow>
          (let state = acceptor instance'
           in if crnd \<ge> acc_rnd state
              then
                (let instance'' = instance'\<lparr>acceptor :=
                       state\<lparr>acc_rnd := crnd, vrnd_vval := Some (crnd, cval)\<rparr>\<rparr>;
                     msgs = send_all (paxos_nodes d) (DM_MultiPaxosMessage
                       (Multi this_eid (mp_nodes multi) (mp_index multi) (Learn crnd)))
                 in case (learned_rnd_val entry, learned_vrnd (learner instance'')) of
                      (None, Some vrnd) \<Rightarrow>
                        if vrnd \<le> crnd
                        then (case learn_and_deliver d (mp_index multi) entry instance'' (vrnd, cval) of
                                (entries, d') \<Rightarrow> Some (msgs, entries, d'))
                        else Some (msgs, [], put_instance d (mp_index multi) entry instance'')
                    | _ \<Rightarrow> Some (msgs, [], put_instance d (mp_index multi) entry instance''))
              else Some ([], [], put_instance d (mp_index multi) entry instance')))"

definition handle_learn ::
  "'b paxos_driver \<Rightarrow> 'b multi_paxos_message \<Rightarrow> rnd \<Rightarrow> 'b paxos_res" where
  "handle_learn d multi vrnd =
     (case ensure_instance d (mp_index multi) of
        (entry, instance') \<Rightarrow>
          do { let state = learner instance';
               count \<leftarrow> unat_checked 32
                 ((case bm_get (learned state) vrnd of Some c \<Rightarrow> c | None \<Rightarrow> 0) + 1);
               let state' = state\<lparr>learned := bm_insert vrnd count (learned state)\<rparr>;
               if count = majority (paxos_nodes d)
               then
                 (let new_vrnd =
                        (case learned_vrnd state' of
                           Some cur_vrnd \<Rightarrow> if vrnd < cur_vrnd then vrnd else cur_vrnd
                         | None \<Rightarrow> vrnd);
                      instance'' = instance'\<lparr>learner := state'\<lparr>learned_vrnd := Some new_vrnd\<rparr>\<rparr>
                  in case (learned_rnd_val entry, vrnd_vval (acceptor instance'')) of
                       (None, Some (acc_vrnd, vval)) \<Rightarrow>
                         if new_vrnd \<le> acc_vrnd
                         then (case learn_and_deliver d (mp_index multi) entry instance'' (new_vrnd, vval) of
                                 (entries, d') \<Rightarrow> Some ([], entries, d'))
                         else Some ([], [], put_instance d (mp_index multi) entry instance'')
                     | _ \<Rightarrow> Some ([], [], put_instance d (mp_index multi) entry instance''))
               else Some ([], [], put_instance d (mp_index multi) entry (instance'\<lparr>learner := state'\<rparr>)) })"

definition buffer_message :: "'b paxos_driver \<Rightarrow> 'b multi_paxos_message \<Rightarrow> 'b paxos_driver" where
  "buffer_message d multi =
     d\<lparr>buffered_messages :=
         (case bm_get (buffered_messages d) (mp_index multi) of
            Some _ \<Rightarrow> bm_modify (mp_index multi) (\<lambda>messages. messages @ [multi]) (buffered_messages d)
          | None \<Rightarrow> bm_insert (mp_index multi) [multi] (buffered_messages d))\<rparr>"

text \<open>A \<open>Prepare\<close> from a non-leader is dropped while the leader seems alive.\<close>

definition is_dropped_prepare :: "'b paxos_driver \<Rightarrow> 'b multi_paxos_message \<Rightarrow> bool" where
  "is_dropped_prepare d multi \<longleftrightarrow>
     (case mp_message multi of
        Prepare _ \<Rightarrow> mp_sender multi \<noteq> lid_eid (leader d) \<and>
          heartbeat d \<le> heartbeat_threshold (paxos_config d)
      | _ \<Rightarrow> False)"

definition handle_multi ::
  "endpoint_id \<Rightarrow> 'b paxos_driver \<Rightarrow> 'b multi_paxos_message \<Rightarrow> 'b paxos_res" where
  "handle_multi this_eid d multi =
     (if is_dropped_prepare d multi then Some ([], [], d)
      else if mp_index multi < min_complete_index d then Some ([], [], d)
      else if mp_index multi > next_index d then Some ([], [], buffer_message d multi)
      else
        (case mp_message multi of
           Prepare crnd \<Rightarrow> handle_prepare this_eid d multi crnd
         | Promise rnd vv \<Rightarrow> handle_promise this_eid d multi rnd vv
         | Accept crnd cval \<Rightarrow> handle_accept this_eid d multi crnd cval
         | Learn vrnd \<Rightarrow> handle_learn d multi vrnd))"

subsection \<open>What the handlers leave alone\<close>

lemma deliver_loop_fields:
  "deliver_loop d = (es, d') \<Longrightarrow>
     paxos_instances d' = paxos_instances d \<and> buffered_messages d' = buffered_messages d \<and>
     paxos_config d' = paxos_config d \<and> next_index d' = next_index d + length es"
proof (induction d arbitrary: es d' rule: deliver_loop.induct)
  case (1 d)
  show ?case
  proof (cases "learned_at d (next_index d)")
    case None
    with "1.prems" show ?thesis by (simp add: deliver_loop.simps)
  next
    case (Some rv)
    then obtain r v es' where
      rv: "rv = (r, v)" and es: "es = v # es'"
      and rec: "deliver_loop (process_entry v (d\<lparr>next_index := next_index d + 1\<rparr>)) = (es', d')"
      using "1.prems" by (auto simp: deliver_loop.simps [of d] split: prod.splits)
    from "1.IH" [OF Some rv [symmetric] rec] show ?thesis by (simp add: es)
  qed
qed

lemma deliver_learned_fields:
  "deliver_learned_entries d = (es, d') \<Longrightarrow>
     paxos_instances d' = paxos_instances d \<and> buffered_messages d' = buffered_messages d \<and>
     paxos_config d' = paxos_config d \<and> next_index d' = next_index d + length es"
  by (auto simp: deliver_learned_entries_def dest: deliver_loop_fields split: prod.splits if_splits)

lemma put_instance_fields [simp]:
  "buffered_messages (put_instance d i e x) = buffered_messages d"
  "next_index (put_instance d i e x) = next_index d"
  "paxos_config (put_instance d i e x) = paxos_config d"
  "paxos_nodes (put_instance d i e x) = paxos_nodes d"
  "remote_next_indices (put_instance d i e x) = remote_next_indices d"
  "leader (put_instance d i e x) = leader d"
  "heartbeat (put_instance d i e x) = heartbeat d"
  by (simp_all add: put_instance_def)

lemma learn_and_deliver_fields:
  "learn_and_deliver d i entry x rv = (es, d') \<Longrightarrow>
     buffered_messages d' = buffered_messages d \<and> next_index d' = next_index d + length es"
  unfolding learn_and_deliver_def by (drule deliver_learned_fields) simp

lemmas handler_defs = handle_prepare_def handle_promise_def handle_accept_def handle_learn_def

lemma handle_prepare_fields:
  "handle_prepare this_eid d multi crnd = Some (out, es, d') \<Longrightarrow>
     buffered_messages d' = buffered_messages d \<and> next_index d \<le> next_index d'"
  by (auto simp: handle_prepare_def Let_def split: if_splits prod.splits)

lemma handle_promise_fields:
  "handle_promise this_eid d multi rnd vv = Some (out, es, d') \<Longrightarrow>
     buffered_messages d' = buffered_messages d \<and> next_index d \<le> next_index d'"
  by (auto simp: handle_promise_def Let_def split: if_splits prod.splits option.splits)

lemma handle_accept_fields:
  "handle_accept this_eid d multi crnd cval = Some (out, es, d') \<Longrightarrow>
     buffered_messages d' = buffered_messages d \<and> next_index d \<le> next_index d'"
  unfolding handle_accept_def Let_def
  by (auto dest: learn_and_deliver_fields split: if_splits prod.splits option.splits)

lemma handle_learn_fields:
  "handle_learn d multi vrnd = Some (out, es, d') \<Longrightarrow>
     buffered_messages d' = buffered_messages d \<and> next_index d \<le> next_index d'"
  unfolding handle_learn_def Let_def
  by (auto simp: bind_eq_Some_conv dest: learn_and_deliver_fields split: if_splits prod.splits option.splits)

lemma handle_multi_fields:
  assumes "handle_multi this_eid d multi = Some (out, es, d')"
  shows "next_index d \<le> next_index d' \<and>
    (buffered_messages d' = buffered_messages d \<or>
     d' = buffer_message d multi \<and> next_index d < mp_index multi)"
proof (cases "is_dropped_prepare d multi \<or> mp_index multi < min_complete_index d \<or>
    next_index d < mp_index multi")
  case True
  with assms show ?thesis by (auto simp: handle_multi_def buffer_message_def split: if_splits)
next
  case False
  with assms show ?thesis
    by (cases "mp_message multi")
      (auto simp: handle_multi_def dest: handle_prepare_fields handle_promise_fields
        handle_accept_fields handle_learn_fields)
qed

section \<open>Buffered messages\<close>

definition buffered_total :: "'b paxos_driver \<Rightarrow> nat" where
  "buffered_total d = (\<Sum>e\<leftarrow>buffered_messages d. length (snd e))"

definition buffered_low :: "'b paxos_driver \<Rightarrow> nat" where
  "buffered_low d = (\<Sum>e\<leftarrow>filter (\<lambda>e. fst e \<le> next_index d) (buffered_messages d). length (snd e))"

lemma sum_lengths_insert:
  "bm_get m k = None \<Longrightarrow>
     (\<Sum>e\<leftarrow>bm_insert k v m. length (snd e)) = (\<Sum>e\<leftarrow>m. length (snd e)) + length v"
  by (induction m) (auto split: if_splits)

lemma sum_lengths_modify:
  "bm_get m k = Some w \<Longrightarrow>
     (\<Sum>e\<leftarrow>bm_modify k (\<lambda>v. v @ [x]) m. length (snd e)) = Suc (\<Sum>e\<leftarrow>m. length (snd e))"
  by (induction m) (auto split: if_splits)

lemma filter_keys_insert:
  "bm_get m k = None \<Longrightarrow> n < k \<Longrightarrow> filter (\<lambda>e. fst e \<le> n) (bm_insert k v m) = filter (\<lambda>e. fst e \<le> n) m"
  by (induction m) (auto split: if_splits)

lemma filter_keys_modify:
  "n < k \<Longrightarrow> filter (\<lambda>e. fst e \<le> n) (bm_modify k f m) = filter (\<lambda>e. fst e \<le> (n :: 'k :: linorder)) m"
  by (induction m) auto

lemma sum_lengths_filter:
  "(\<Sum>e\<leftarrow>filter P es. length (snd e)) \<le> (\<Sum>e\<leftarrow>es. length (snd e))"
  by (induction es) auto

lemma buffer_message_total: "buffered_total (buffer_message d multi) = Suc (buffered_total d)"
  by (auto simp: buffered_total_def buffer_message_def sum_lengths_insert sum_lengths_modify
      split: option.split)

lemma buffer_message_low:
  "next_index d < mp_index multi \<Longrightarrow> buffered_low (buffer_message d multi) = buffered_low d"
  by (auto simp: buffered_low_def buffer_message_def filter_keys_insert filter_keys_modify
      split: option.split)

text \<open>
  Processes the buffered messages up to \<open>next_index\<close>. Every turn takes a message out of the
  buffers, or returns one of another index to the buffers beyond \<open>next_index\<close>, or drops an
  empty buffer, so the loop ends.
\<close>

function handle_buffered_messages :: "endpoint_id \<Rightarrow> 'b paxos_driver \<Rightarrow> 'b paxos_res" where
  "handle_buffered_messages this_eid d =
     (case buffered_messages d of
        [] \<Rightarrow> Some ([], [], d)
      | (index, messages) # rest \<Rightarrow>
          if index \<le> next_index d then
            (case messages of
               [] \<Rightarrow> handle_buffered_messages this_eid
                       (d\<lparr>buffered_messages := bm_remove index (buffered_messages d)\<rparr>)
             | multi # messages' \<Rightarrow>
                 do { (out, es, d') \<leftarrow> handle_multi this_eid
                        (d\<lparr>buffered_messages := (index, messages') # rest\<rparr>) multi;
                      (out', es', d'') \<leftarrow> handle_buffered_messages this_eid d';
                      Some (out @ out', es @ es', d'') })
          else Some ([], [], d))"
  by pat_completeness auto
termination
proof (relation "measures [\<lambda>(_, d). buffered_total d, \<lambda>(_, d). buffered_low d,
    \<lambda>(_, d). length (buffered_messages d)]", goal_cases)
  case (2 this_eid d e rest index messages)
  have "filter (\<lambda>e. fst e \<le> next_index d) (bm_remove index rest) =
      bm_remove index (filter (\<lambda>e. fst e \<le> next_index d) rest)"
    by (simp add: bm_remove_def conj_commute)
  then have "(\<Sum>e\<leftarrow>filter (\<lambda>e. fst e \<le> next_index d) (bm_remove index rest). length (snd e)) \<le>
      (\<Sum>e\<leftarrow>filter (\<lambda>e. fst e \<le> next_index d) rest. length (snd e))"
    by (simp only: bm_remove_def sum_lengths_filter)
  moreover have "(\<Sum>e\<leftarrow>bm_remove index rest. length (snd e)) \<le> (\<Sum>e\<leftarrow>rest. length (snd e))"
    by (simp only: bm_remove_def sum_lengths_filter)
  moreover have "length (bm_remove index rest) < Suc (length rest)"
    by (simp add: bm_remove_def le_imp_less_Suc)
  moreover have "bm_remove index (buffered_messages d) = bm_remove index rest"
    using 2 by (auto simp: bm_remove_def)
  ultimately show ?case
    using 2 by (auto simp: buffered_total_def buffered_low_def)
next
  case (3 this_eid d e rest index messages multi messages' res out esd es d')
  let ?d = "d\<lparr>buffered_messages := (index, messages') # rest\<rparr>"
  from 3 have buf: "buffered_messages d = (index, multi # messages') # rest" and low: "index \<le> next_index d"
    and step: "handle_multi this_eid ?d multi = Some (out, es, d')" by auto
  have total: "Suc (buffered_total ?d) = buffered_total d" and "Suc (buffered_low ?d) = buffered_low d"
    using buf low by (simp_all add: buffered_total_def buffered_low_def)
  from handle_multi_fields [OF step] show ?case
  proof (elim conjE disjE)
    assume "buffered_messages d' = buffered_messages ?d"
    with total show ?thesis by (simp add: buffered_total_def)
  next
    assume d': "d' = buffer_message ?d multi" and "next_index ?d < mp_index multi"
    then have "buffered_low d' = buffered_low ?d" and "buffered_total d' = Suc (buffered_total ?d)"
      by (simp_all add: buffer_message_low buffer_message_total)
    then show ?thesis using total \<open>Suc (buffered_low ?d) = buffered_low d\<close> by simp
  qed
qed simp

declare handle_buffered_messages.simps [simp del]

lemma handle_buffered_next_index:
  "handle_buffered_messages this_eid d = Some (out, es, d') \<Longrightarrow> next_index d \<le> next_index d'"
proof (induction this_eid d arbitrary: out es d' rule: handle_buffered_messages.induct)
  case (1 this_eid d)
  show ?case
  proof (cases "buffered_messages d")
    case Nil
    with "1.prems" show ?thesis by (simp add: handle_buffered_messages.simps)
  next
    case (Cons e rest)
    obtain index messages where e: "e = (index, messages)" by fastforce
    show ?thesis
    proof (cases "index \<le> next_index d")
      case False
      with "1.prems" Cons e show ?thesis by (simp add: handle_buffered_messages.simps)
    next
      case low: True
      show ?thesis
      proof (cases messages)
        case Nil
        with "1.prems" "1.IH"(1) [OF Cons e [symmetric] low Nil] Cons e low show ?thesis
          by (simp add: handle_buffered_messages.simps [of _ d])
      next
        case (Cons multi messages')
        with "1.prems" \<open>buffered_messages d = e # rest\<close> e low obtain out1 es1 d1 out2 es2 where
          step: "handle_multi this_eid (d\<lparr>buffered_messages := (index, messages') # rest\<rparr>) multi =
            Some (out1, es1, d1)" and
          rec: "handle_buffered_messages this_eid d1 = Some (out2, es2, d')"
          by (auto simp: handle_buffered_messages.simps [of _ d] bind_eq_Some_conv)
        from "1.IH"(2) [OF \<open>buffered_messages d = e # rest\<close> e [symmetric] low Cons step refl refl rec]
          handle_multi_fields [OF step]
        show ?thesis by simp
      qed
    qed
  qed
qed

section \<open>The message handler\<close>

text \<open>
  The loop of \<open>InformLearned\<close>: buffered messages first, then the next round that should be
  learned; when it cannot be used, the sender is asked for the values.
\<close>

definition usable_learned ::
  "'b paxos_driver \<Rightarrow> rnd \<Rightarrow> ('b instance_entry \<times> 'b pl_entry) option" where
  "usable_learned d learned_rnd =
     do { entry \<leftarrow> bm_get (paxos_instances d) (next_index d);
          instance' \<leftarrow> inst entry;
          (vrnd, vval) \<leftarrow> vrnd_vval (acceptor instance');
          if learned_rnd \<le> vrnd then Some (entry, vval) else None }"

lemma usable_learned_deliver:
  assumes "usable_learned d learned_rnd = Some (entry, vval)"
    and "deliver_learned_entries (d\<lparr>paxos_instances := bm_insert (next_index d)
       (entry\<lparr>learned_rnd_val := Some (learned_rnd, vval)\<rparr>) (paxos_instances d)\<rparr>) = (es, d')"
  shows "next_index d < next_index d'"
proof -
  have "es \<noteq> []"
    using assms(2)
    by (auto simp: deliver_learned_entries_def deliver_loop.simps [of "_\<lparr>paxos_instances := _\<rparr>"]
        learned_at_def split: prod.splits if_splits)
  with deliver_learned_fields [OF assms(2)] show ?thesis by simp
qed

function inform_learned_loop ::
  "endpoint_id \<Rightarrow> endpoint_id \<Rightarrow> (pl_index, rnd) btree \<Rightarrow> 'b paxos_driver \<Rightarrow> 'b paxos_res" where
  "inform_learned_loop this_eid sender_eid should_learned d =
     do { (out, es, d1) \<leftarrow> handle_buffered_messages this_eid d;
          (case bm_get should_learned (next_index d1) of
             None \<Rightarrow> Some (out, es, d1)
           | Some learned_rnd \<Rightarrow>
               (case usable_learned d1 learned_rnd of
                  None \<Rightarrow>
                    Some (out @ [Send sender_eid (DM_LogSyncRequest this_eid (next_index d1))], es, d1)
                | Some (entry, vval) \<Rightarrow>
                    (case deliver_learned_entries (d1\<lparr>paxos_instances := bm_insert (next_index d1)
                        (entry\<lparr>learned_rnd_val := Some (learned_rnd, vval)\<rparr>) (paxos_instances d1)\<rparr>) of
                       (es', d2) \<Rightarrow>
                         do { (out'', es'', d3) \<leftarrow>
                                inform_learned_loop this_eid sender_eid should_learned d2;
                              Some (out @ out'', es @ es' @ es'', d3) }))) }"
  by pat_completeness auto
termination
proof (relation "measure (\<lambda>(_, _, should_learned, d).
    length (filter (\<lambda>e. next_index d \<le> fst e) should_learned))", goal_cases)
  case (2 this_eid sender_eid should_learned d res out esd es d1 learned_rnd ev entry vval es' d2)
  from 2 have "next_index d \<le> next_index d1" and "next_index d1 < next_index d2"
    using usable_learned_deliver [of d1 learned_rnd entry vval es' d2]
    by (auto dest: handle_buffered_next_index)
  moreover obtain r where "(next_index d1, r) \<in> set should_learned"
    using 2 by (auto dest: map_of_SomeD)
  ultimately show ?case by (auto intro!: filter_length_less)
qed simp

declare inform_learned_loop.simps [simp del]

text \<open>The learned values of the indices from \<open>index\<close> on; a missing one panics.\<close>

fun collect_learned ::
  "'b paxos_driver \<Rightarrow> pl_index list \<Rightarrow> (pl_index \<times> rnd \<times> 'b pl_entry) list option" where
  "collect_learned d [] = Some []"
| "collect_learned d (index # indices) =
     do { entry \<leftarrow> bm_get (paxos_instances d) index;
          (vrnd, vval) \<leftarrow> learned_rnd_val entry;
          rest \<leftarrow> collect_learned d indices;
          Some ((index, vrnd, vval) # rest) }"

definition sync_learned :: "(pl_index \<times> rnd \<times> 'b pl_entry) \<Rightarrow> 'b paxos_driver \<Rightarrow> 'b paxos_driver" where
  "sync_learned iv d =
     (case iv of
        (index, vrnd, vval) \<Rightarrow>
          if index \<ge> next_index d then
            (case bm_get (paxos_instances d) index of
               Some entry \<Rightarrow>
                 if learned_rnd_val entry = None
                 then d\<lparr>paxos_instances := bm_insert index
                        (entry\<lparr>learned_rnd_val := Some (vrnd, vval)\<rparr>) (paxos_instances d)\<rparr>
                 else d
             | None \<Rightarrow> d\<lparr>paxos_instances := bm_insert index
                        \<lparr>inst = None, learned_rnd_val = Some (vrnd, vval)\<rparr> (paxos_instances d)\<rparr>)
          else d)"

definition handle_log_sync_response ::
  "endpoint_id \<Rightarrow> 'b paxos_driver \<Rightarrow> (pl_index \<times> rnd \<times> 'b pl_entry) list \<Rightarrow> 'b paxos_res" where
  "handle_log_sync_response this_eid d response =
     (case deliver_learned_entries (fold sync_learned response d) of
        (es, d1) \<Rightarrow>
          do { (out, es', d2) \<leftarrow> handle_buffered_messages this_eid d1;
               Some (out, es @ es', d2) })"

definition handle_next_index_response ::
  "'b paxos_driver \<Rightarrow> endpoint_id \<Rightarrow> pl_index \<Rightarrow> 'b paxos_res" where
  "handle_next_index_response d responder_eid index =
     (case bm_get (remote_next_indices d) responder_eid of
        None \<Rightarrow> None
      | Some cur_remote_index \<Rightarrow>
          (let orig_min_index = min_complete_index d;
               d1 = d\<lparr>remote_next_indices :=
                 bm_insert responder_eid (max cur_remote_index index) (remote_next_indices d)\<rparr>
           in Some ([], [],
                d1\<lparr>paxos_instances :=
                  fold bm_remove [orig_min_index..<min_complete_index d1] (paxos_instances d1)\<rparr>)))"

fun handle_paxos_message_internal ::
  "endpoint_id \<Rightarrow> 'b paxos_driver \<Rightarrow> 'b paxos_driver_message \<Rightarrow> 'b paxos_res" where
  "handle_paxos_message_internal this_eid d (DM_MultiPaxosMessage multi) = handle_multi this_eid d multi"
| "handle_paxos_message_internal this_eid d (DM_IsLeader lid) =
     Some ([], [], if lid = leader d then d\<lparr>heartbeat := 0\<rparr> else d)"
| "handle_paxos_message_internal this_eid d (DM_InformLearned sender_eid should_learned) =
     inform_learned_loop this_eid sender_eid should_learned d"
| "handle_paxos_message_internal this_eid d (DM_LogSyncRequest sender_eid index) =
     do { vals \<leftarrow> collect_learned d [index..<next_index d];
          Some ([Send sender_eid (DM_LogSyncResponse vals)], [], d) }"
| "handle_paxos_message_internal this_eid d (DM_LogSyncResponse response) =
     handle_log_sync_response this_eid d response"
| "handle_paxos_message_internal this_eid d (DM_NextIndexRequest sender_eid) =
     Some ([Send sender_eid (DM_NextIndexResponse this_eid (next_index d))], [], d)"
| "handle_paxos_message_internal this_eid d (DM_NextIndexResponse responder_eid index) =
     handle_next_index_response d responder_eid index"
| "handle_paxos_message_internal this_eid d (DM_StartNewNode start) =
     Some ([Send (sn_sender_eid start) (DM_NewNodeStarted this_eid)], [], d)"
| "handle_paxos_message_internal this_eid d (DM_NewNodeStarted paxos_node) =
     Some ([], [], d\<lparr>unconfirmed_eids := bm_remove paxos_node (unconfirmed_eids d)\<rparr>)"

definition handle_paxos_message ::
  "endpoint_id \<Rightarrow> 'b paxos_driver \<Rightarrow> 'b paxos_driver_message \<Rightarrow> 'b paxos_res" where
  "handle_paxos_message this_eid d message =
     do { (out, es, d1) \<leftarrow> handle_paxos_message_internal this_eid d message;
          (out', es', d2) \<leftarrow> handle_buffered_messages this_eid d1;
          Some (out @ out', es @ es', d2) }"

section \<open>Proposals and timers\<close>

text \<open>\<open>r\<close> is the random \<open>u32\<close> the code draws.\<close>

definition propose_next_index ::
  "endpoint_id \<Rightarrow> nat \<Rightarrow> 'b paxos_driver \<Rightarrow> 'b pl_entry \<Rightarrow> ('b paxos_effect list \<times> 'b paxos_driver) option" where
  "propose_next_index this_eid r d entry' =
     (case ensure_instance d (next_index d) of
        (entry, instance') \<Rightarrow>
          if proposal_increment (paxos_config d) = 0 then None
          else
            do { next_rnd \<leftarrow> unat_checked 32
                   (r mod proposal_increment (paxos_config d) + latest_crnd (proposer instance'));
                 let state = (proposer instance')
                   \<lparr>proposals := bm_insert next_rnd
                      \<lparr>pr_crnd = next_rnd, pr_cval = entry', pr_promises = []\<rparr>
                      (proposals (proposer instance')),
                    latest_crnd := next_rnd\<rparr>;
                 Some (send_all (paxos_nodes d) (DM_MultiPaxosMessage
                         (Multi this_eid (paxos_nodes d) (next_index d) (Prepare next_rnd))),
                       put_instance d (next_index d) entry (instance'\<lparr>proposer := state\<rparr>)) })"

definition insert_bundle ::
  "endpoint_id \<Rightarrow> nat \<Rightarrow> uuid \<Rightarrow> 'b paxos_driver \<Rightarrow> 'b user_pl_entry
    \<Rightarrow> ('b paxos_effect list \<times> 'b paxos_driver) option" where
  "insert_bundle this_eid r new_uuid d user_entry =
     (if is_leader d this_eid \<and> next_insert d = None then
        do { (out, d') \<leftarrow> propose_next_index this_eid r
               (d\<lparr>next_insert := Some (new_uuid, user_entry)\<rparr>) (user_convert user_entry);
             Some (Defer (retry_defer_time_ms (paxos_config d)) (RetryInsert new_uuid) # out, d') }
      else Some ([], d))"

definition retry_insert ::
  "endpoint_id \<Rightarrow> nat \<Rightarrow> 'b paxos_driver \<Rightarrow> uuid \<Rightarrow> ('b paxos_effect list \<times> 'b paxos_driver) option" where
  "retry_insert this_eid r d u =
     (case next_insert d of
        Some (cur_uuid, user_entry) \<Rightarrow>
          if cur_uuid = u then
            do { (out, d') \<leftarrow> propose_next_index this_eid r d (user_convert user_entry);
                 Some (Defer (retry_defer_time_ms (paxos_config d)) (RetryInsert u) # out, d') }
          else Some ([], d)
      | None \<Rightarrow> Some ([], d))"

fun inform_learned_msgs ::
  "endpoint_id \<Rightarrow> 'b paxos_driver \<Rightarrow> endpoint_id list \<Rightarrow> 'b paxos_effect list option" where
  "inform_learned_msgs this_eid d [] = Some []"
| "inform_learned_msgs this_eid d (eid # eids) =
     do { remote \<leftarrow> bm_get (remote_next_indices d) eid;
          vals \<leftarrow> collect_learned d [remote..<next_index d];
          rest \<leftarrow> inform_learned_msgs this_eid d eids;
          Some (Send eid (DM_InformLearned this_eid
                  (fold (\<lambda>(index, vrnd, _). bm_insert index vrnd) vals [])) # rest) }"

definition broadcast_inform_learned :: "endpoint_id \<Rightarrow> 'b paxos_driver \<Rightarrow> 'b paxos_effect list option" where
  "broadcast_inform_learned this_eid d = inform_learned_msgs this_eid d (paxos_nodes d)"

definition leader_heartbeat ::
  "endpoint_id \<Rightarrow> nat \<Rightarrow> 'b paxos_driver \<Rightarrow> ('b paxos_effect list \<times> 'b paxos_driver) option" where
  "leader_heartbeat this_eid r d =
     do { (out, d') \<leftarrow>
            (if is_leader d this_eid then
               do { inform \<leftarrow> broadcast_inform_learned this_eid d;
                    Some (send_all (paxos_nodes d) (DM_IsLeader (leader d)) @ inform, d) }
             else
               do { hb \<leftarrow> unat_checked 32 (heartbeat d + 1);
                    let d1 = d\<lparr>heartbeat := hb\<rparr>;
                    if hb > heartbeat_threshold (paxos_config d) then
                      do { (out, d2) \<leftarrow> propose_next_index this_eid r d1
                             (PL_LeaderChanged \<lparr>lid_gen = gen_next (lid_gen (leader d)), lid_eid = this_eid\<rparr>);
                           inform \<leftarrow> broadcast_inform_learned this_eid d2;
                           Some (out @ inform, d2) }
                    else Some ([], d1) });
          Some (out @ [Defer (heartbeat_period_ms (paxos_config d)) LeaderHeartbeat], d') }"

definition next_index_timer :: "endpoint_id \<Rightarrow> 'b paxos_driver \<Rightarrow> 'b paxos_effect list" where
  "next_index_timer this_eid d =
     send_all (paxos_nodes d) (DM_NextIndexRequest this_eid) @
     [Defer (next_index_period_ms (paxos_config d)) NextIndex]"

fun timer_event ::
  "endpoint_id \<Rightarrow> nat \<Rightarrow> 'b paxos_driver \<Rightarrow> paxos_timer_event
    \<Rightarrow> ('b paxos_effect list \<times> 'b paxos_driver) option" where
  "timer_event this_eid r d (RetryInsert u) = retry_insert this_eid r d u"
| "timer_event this_eid r d LeaderHeartbeat = leader_heartbeat this_eid r d"
| "timer_event this_eid r d NextIndex = Some (next_index_timer this_eid d, d)"

definition contains_nodes :: "'b paxos_driver \<Rightarrow> endpoint_id list \<Rightarrow> bool" where
  "contains_nodes d eids = list_all (\<lambda>eid. eid \<in> set (paxos_nodes d)) eids"

end
