(* ===== verification/Synod.thy ===== *)
theory Synod
  imports Paxos "HOL-Library.Multiset"
begin

text \<open>
  The protocol the driver of \<open>src/src/paxos.rs\<close> runs at one log index, as a transition system
  over all nodes of a fixed group: acceptors, proposals, learners, the messages under way and
  (as history) all messages ever sent. Rounds carry no node name in this code, so two nodes
  may use the same round, and a node may even reuse a round of its own; that at most one
  value is ever proposed in a round rests on an acceptor answering a round only once and on
  the network delivering a message at most once. The locale \<open>quorum_voting\<close> holds the
  argument that learned values agree; it is interpreted on this transition system.
\<close>

section \<open>Majorities of voters\<close>

locale quorum_voting =
  fixes nodes :: "'p list"
    and inv :: "'s \<Rightarrow> bool"
    and prm :: "'s \<Rightarrow> 'p \<Rightarrow> nat \<Rightarrow> (nat \<times> 'v) option \<Rightarrow> bool"
    and vote :: "'s \<Rightarrow> 'p \<Rightarrow> nat \<Rightarrow> bool"
    and offer :: "'s \<Rightarrow> nat \<Rightarrow> 'v \<Rightarrow> bool"
  assumes offer_unique: "inv s \<Longrightarrow> offer s c v \<Longrightarrow> offer s c v' \<Longrightarrow> v = v'"
    and vote_offer: "inv s \<Longrightarrow> vote s a c \<Longrightarrow> \<exists>v. offer s c v"
    and prm_none: "inv s \<Longrightarrow> prm s a c None \<Longrightarrow> c' < c \<Longrightarrow> \<not> vote s a c'"
    and prm_some: "inv s \<Longrightarrow> prm s a c (Some (r, w)) \<Longrightarrow>
          r < c \<and> offer s r w \<and> (\<forall>c'. r < c' \<and> c' < c \<longrightarrow> \<not> vote s a c')"
    and offer_safe: "inv s \<Longrightarrow> offer s c v \<Longrightarrow>
          \<exists>Q x. Q \<subseteq> set nodes \<and> length nodes < 2 * card Q \<and>
            (\<forall>a \<in> Q. prm s a c (x a)) \<and>
            ((\<forall>a \<in> Q. x a = None) \<or>
             (\<exists>a \<in> Q. \<exists>r. x a = Some (r, v) \<and> (\<forall>a' \<in> Q. \<forall>r' w. x a' = Some (r', w) \<longrightarrow> r' \<le> r)))"
begin

definition voted_in :: "'s \<Rightarrow> nat \<Rightarrow> bool" where
  "voted_in s c \<longleftrightarrow> (\<exists>Q \<subseteq> set nodes. length nodes < 2 * card Q \<and> (\<forall>a \<in> Q. vote s a c))"

lemma quorums_meet:
  assumes "Q \<subseteq> set nodes" "Q' \<subseteq> set nodes" "length nodes < 2 * card Q" "length nodes < 2 * card Q'"
  shows "\<exists>a. a \<in> Q \<and> a \<in> Q'"
proof (rule ccontr)
  assume "\<not> ?thesis"
  then have "Q \<inter> Q' = {}" by blast
  moreover have "finite Q" "finite Q'" using assms(1,2) by (meson List.finite_set finite_subset)+
  ultimately have "card (Q \<union> Q') = card Q + card Q'" by (simp add: card_Un_disjoint)
  moreover have "card (Q \<union> Q') \<le> card (set nodes)" using assms(1,2) by (intro card_mono) auto
  moreover have "card (set nodes) \<le> length nodes" by (rule card_length)
  ultimately show False using assms(3,4) by linarith
qed

text \<open>A value proposed in a round later than one a majority has voted in is that round's value.\<close>

lemma later_proposal:
  assumes inv: "inv s" and voted: "voted_in s c" and v: "offer s c v"
  shows "c \<le> c' \<Longrightarrow> offer s c' v' \<Longrightarrow> v' = v"
proof (induction c' arbitrary: v' rule: less_induct)
  case (less c')
  show ?case
  proof (cases "c = c'")
    case True
    with less.prems v show ?thesis using offer_unique [OF inv] by blast
  next
    case False
    with less.prems have "c < c'" by simp
    from voted obtain V where V: "V \<subseteq> set nodes" "length nodes < 2 * card V" "\<forall>a \<in> V. vote s a c"
      by (auto simp: voted_in_def)
    from offer_safe [OF inv less.prems(2)] obtain Q x where
      Q: "Q \<subseteq> set nodes" "length nodes < 2 * card Q" "\<forall>a \<in> Q. prm s a c' (x a)" and
      safe: "(\<forall>a \<in> Q. x a = None) \<or>
        (\<exists>a \<in> Q. \<exists>r. x a = Some (r, v') \<and> (\<forall>a' \<in> Q. \<forall>r' w. x a' = Some (r', w) \<longrightarrow> r' \<le> r))"
      by blast
    obtain a where a: "a \<in> Q" "a \<in> V" using quorums_meet [OF Q(1) V(1) Q(2) V(2)] by blast
    have "x a \<noteq> None" using prm_none [OF inv, of a c' c] Q(3) V(3) a \<open>c < c'\<close> by metis
    then obtain ra wa where ra: "x a = Some (ra, wa)" by auto
    have "c \<le> ra"
      using prm_some [OF inv, of a c' ra wa] Q(3) V(3) a ra \<open>c < c'\<close> by (metis not_le)
    from safe a ra obtain b r where b: "b \<in> Q" "x b = Some (r, v')" and "ra \<le> r" by fastforce
    with \<open>c \<le> ra\<close> have "c \<le> r" by simp
    moreover have "r < c'" "offer s r v'" using prm_some [OF inv, of b c' r v'] Q(3) b by auto
    ultimately show ?thesis using less.IH by blast
  qed
qed

lemma voted_offer: "inv s \<Longrightarrow> voted_in s c \<Longrightarrow> \<exists>v. offer s c v"
  using vote_offer unfolding voted_in_def
  by (metis card.empty equals0I mult_0_right not_less_zero)

lemma chosen_unique:
  assumes "inv s" "voted_in s c" "offer s c v" "voted_in s c'" "offer s c' v'"
  shows "v = v'"
  using later_proposal [OF assms(1-3), of c' v'] later_proposal [OF assms(1,4,5), of c v] assms(3,5)
  by (cases "c \<le> c'") auto

end

section \<open>The protocol at one index\<close>

record ('p, 'v) synod =
  s_rnd :: "'p \<Rightarrow> nat"
  s_vv :: "'p \<Rightarrow> (nat \<times> 'v) option"
  s_props :: "'p \<Rightarrow> nat \<Rightarrow> ('v \<times> (nat \<times> 'v) option list) option"
  s_cnt :: "'p \<Rightarrow> nat \<Rightarrow> nat"
  s_lvr :: "'p \<Rightarrow> nat option"
  s_lrv :: "'p \<Rightarrow> (nat \<times> 'v) option"
  s_alive :: "'p \<Rightarrow> bool"
  s_infl :: "'p \<Rightarrow> ('p \<times> 'v paxos_message) multiset"
  s_sent :: "('p \<times> 'p \<times> 'v paxos_message) multiset"
  s_syncv :: "(nat \<times> 'v) set"
  s_syncr :: "nat set"

definition to_node :: "'p \<Rightarrow> ('p \<times> 'p \<times> 'v paxos_message) multiset \<Rightarrow> ('p \<times> 'v paxos_message) multiset" where
  "to_node p P = image_mset snd (filter_mset (\<lambda>x. fst x = p) P)"

definition s_send :: "('p \<times> 'p \<times> 'v paxos_message) multiset \<Rightarrow> ('p, 'v) synod \<Rightarrow> ('p, 'v) synod" where
  "s_send P s = s\<lparr>s_infl := (\<lambda>p. s_infl s p + to_node p P), s_sent := s_sent s + P\<rparr>"

definition s_recv :: "'p \<Rightarrow> 'p \<times> 'v paxos_message \<Rightarrow> ('p, 'v) synod \<Rightarrow> ('p, 'v) synod" where
  "s_recv p x s = s\<lparr>s_infl := (s_infl s)(p := s_infl s p - {#x#})\<rparr>"

definition bcast :: "'p list \<Rightarrow> 'p \<Rightarrow> 'v paxos_message \<Rightarrow> ('p \<times> 'p \<times> 'v paxos_message) multiset" where
  "bcast nodes src m = mset (map (\<lambda>dst. (dst, src, m)) nodes)"

definition choose_val :: "'v \<Rightarrow> (nat \<times> 'v) option list \<Rightarrow> 'v" where
  "choose_val cval ps = (case max_vrnd_vval ps of Some (_, vval) \<Rightarrow> vval | None \<Rightarrow> cval)"

definition synod_init :: "('p, 'v) synod" where
  "synod_init =
     \<lparr>s_rnd = \<lambda>_. 0, s_vv = \<lambda>_. None, s_props = \<lambda>_ _. None, s_cnt = \<lambda>_ _. 0, s_lvr = \<lambda>_. None,
      s_lrv = \<lambda>_. None, s_alive = \<lambda>_. True, s_infl = \<lambda>_. {#}, s_sent = {#}, s_syncv = {}, s_syncr = {}\<rparr>"

inductive synod_step :: "'p list \<Rightarrow> ('v \<Rightarrow> bool) \<Rightarrow> ('p, 'v) synod \<Rightarrow> ('p, 'v) synod \<Rightarrow> bool"
  for nodes ok where
  lose: "x \<in># s_infl s p \<Longrightarrow> synod_step nodes ok s (s_recv p x s)"
| propose: "p \<in> set nodes \<Longrightarrow> s_alive s p \<Longrightarrow> ok v \<Longrightarrow>
    synod_step nodes ok s
      (s_send (bcast nodes p (Prepare c))
        (s\<lparr>s_props := (s_props s)(p := (s_props s p)(c := Some (v, [])))\<rparr>))"
| prepare: "p \<in> set nodes \<Longrightarrow> s_alive s p \<Longrightarrow> (q, Prepare c) \<in># s_infl s p \<Longrightarrow> s_rnd s p < c \<Longrightarrow>
    synod_step nodes ok s
      (s_send {#(q, p, Promise c (s_vv s p))#}
        (s_recv p (q, Prepare c) (s\<lparr>s_rnd := (s_rnd s)(p := c)\<rparr>)))"
| promise: "p \<in> set nodes \<Longrightarrow> s_alive s p \<Longrightarrow> (q, Promise c x) \<in># s_infl s p \<Longrightarrow>
    s_props s p c = Some (v, ps) \<Longrightarrow>
    synod_step nodes ok s
      (s_send (if Suc (length ps) = majority nodes
               then bcast nodes p (Accept c (choose_val v (ps @ [x]))) else {#})
        (s_recv p (q, Promise c x)
          (s\<lparr>s_props := (s_props s)(p := (s_props s p)(c := Some (v, ps @ [x])))\<rparr>)))"
| accept: "p \<in> set nodes \<Longrightarrow> s_alive s p \<Longrightarrow> (q, Accept c v) \<in># s_infl s p \<Longrightarrow> s_rnd s p \<le> c \<Longrightarrow>
    synod_step nodes ok s
      (s_send (bcast nodes p (Learn c))
        (s_recv p (q, Accept c v)
          (s\<lparr>s_rnd := (s_rnd s)(p := c), s_vv := (s_vv s)(p := Some (c, v))\<rparr>)))"
| learn: "p \<in> set nodes \<Longrightarrow> s_alive s p \<Longrightarrow> (q, Learn c) \<in># s_infl s p \<Longrightarrow>
    synod_step nodes ok s
      (s_recv p (q, Learn c)
        (s\<lparr>s_cnt := (s_cnt s)(p := (s_cnt s p)(c := Suc (s_cnt s p c))),
           s_lvr := (s_lvr s)(p :=
             if Suc (s_cnt s p c) = majority nodes
             then Some (case s_lvr s p of Some cur \<Rightarrow> if c < cur then c else cur | None \<Rightarrow> c)
             else s_lvr s p)\<rparr>))"
| learn_value: "p \<in> set nodes \<Longrightarrow> s_alive s p \<Longrightarrow> s_lvr s p = Some r \<or> r \<in> s_syncr s \<Longrightarrow>
    s_vv s p = Some (vr, v) \<Longrightarrow> r \<le> vr \<Longrightarrow>
    synod_step nodes ok s (s\<lparr>s_lrv := (s_lrv s)(p := Some (r, v))\<rparr>)"
| sync_value: "p \<in> set nodes \<Longrightarrow> s_alive s p \<Longrightarrow> rv \<in> s_syncv s \<Longrightarrow>
    synod_step nodes ok s (s\<lparr>s_lrv := (s_lrv s)(p := Some rv)\<rparr>)"
| tell_value: "s_lrv s p = Some (r, v) \<Longrightarrow> synod_step nodes ok s (s\<lparr>s_syncv := insert (r, v) (s_syncv s)\<rparr>)"
| tell_round: "s_lrv s p = Some (r, v) \<Longrightarrow> synod_step nodes ok s (s\<lparr>s_syncr := insert r (s_syncr s)\<rparr>)"
| complete: "synod_step nodes ok s (s\<lparr>s_alive := (s_alive s)(p := False)\<rparr>)"
| purge: "\<not> s_alive s p \<Longrightarrow>
    synod_step nodes ok s
      (s\<lparr>s_rnd := (s_rnd s)(p := 0), s_vv := (s_vv s)(p := None), s_props := (s_props s)(p := \<lambda>_. None),
         s_cnt := (s_cnt s)(p := \<lambda>_. 0), s_lvr := (s_lvr s)(p := None), s_lrv := (s_lrv s)(p := None)\<rparr>)"

section \<open>What has happened, read off the history\<close>

type_synonym ('p, 'v) packets = "('p \<times> 'p \<times> 'v paxos_message) multiset"

definition prm :: "('p, 'v) packets \<Rightarrow> 'p \<Rightarrow> nat \<Rightarrow> (nat \<times> 'v) option \<Rightarrow> bool" where
  "prm S a c x \<longleftrightarrow> (\<exists>dst. (dst, a, Promise c x) \<in># S)"

definition vote :: "('p, 'v) packets \<Rightarrow> 'p \<Rightarrow> nat \<Rightarrow> bool" where
  "vote S a c \<longleftrightarrow> (\<exists>dst. (dst, a, Learn c) \<in># S)"

definition offer :: "('p, 'v) packets \<Rightarrow> nat \<Rightarrow> 'v \<Rightarrow> bool" where
  "offer S c v \<longleftrightarrow> (\<exists>dst a. (dst, a, Accept c v) \<in># S)"

definition voted :: "'p list \<Rightarrow> ('p, 'v) packets \<Rightarrow> nat \<Rightarrow> bool" where
  "voted nodes S c \<longleftrightarrow> majority nodes \<le> card {a \<in> set nodes. vote S a c}"

definition chosen :: "'p list \<Rightarrow> ('p, 'v) packets \<Rightarrow> nat \<Rightarrow> 'v \<Rightarrow> bool" where
  "chosen nodes S c v \<longleftrightarrow> voted nodes S c \<and> offer S c v"

fun is_prm :: "nat \<Rightarrow> 'v paxos_message \<Rightarrow> bool" where
  "is_prm c (Promise c' x) = (c' = c)"
| "is_prm c _ = False"

fun is_acc :: "nat \<Rightarrow> 'v paxos_message \<Rightarrow> bool" where
  "is_acc c (Accept c' x) = (c' = c)"
| "is_acc c _ = False"

fun is_lrn :: "nat \<Rightarrow> 'v paxos_message \<Rightarrow> bool" where
  "is_lrn c (Learn c') = (c' = c)"
| "is_lrn c _ = False"

definition cnt :: "('a \<Rightarrow> bool) \<Rightarrow> 'a multiset \<Rightarrow> nat" where
  "cnt P M = size (filter_mset P M)"

lemma cnt_simps [simp]:
  "cnt P {#} = 0"
  "cnt P (add_mset x M) = (if P x then Suc (cnt P M) else cnt P M)"
  "cnt P (M + N) = cnt P M + cnt P N"
  by (simp_all add: cnt_def)

lemma cnt_remove: "x \<in># M \<Longrightarrow> cnt P (M - {#x#}) = cnt P M - (if P x then 1 else 0)"
  by (auto dest!: multi_member_split)

lemma cnt_mono: "M \<subseteq># N \<Longrightarrow> cnt P M \<le> cnt P N"
  by (auto simp: mset_subset_eq_exists_conv)

lemma cnt_pos: "0 < cnt P M \<longleftrightarrow> (\<exists>x. x \<in># M \<and> P x)"
  by (induction M) auto

lemma cnt_zero: "cnt P M = 0 \<longleftrightarrow> (\<forall>x \<in># M. \<not> P x)"
  using cnt_pos [of P M] by auto

lemma bcast_simps [simp]:
  "bcast [] src m = {#}"
  "bcast (dst # nodes) src m = add_mset (dst, src, m) (bcast nodes src m)"
  by (simp_all add: bcast_def)

lemma in_bcast [simp]: "x \<in># bcast nodes src m \<longleftrightarrow> (\<exists>dst \<in> set nodes. x = (dst, src, m))"
  by (auto simp: bcast_def)

lemma cnt_bcast: "cnt P (bcast nodes src m) = length (filter (\<lambda>dst. P (dst, src, m)) nodes)"
  by (induction nodes) auto

lemma cnt_bcast_to:
  "distinct nodes \<Longrightarrow> dst \<in> set nodes \<Longrightarrow>
     cnt (\<lambda>x. fst x = dst \<and> P (snd x)) (bcast nodes src m) = (if P (src, m) then 1 else 0)"
  by (induction nodes) (auto simp: cnt_zero)

lemma to_node_simps [simp]:
  "to_node p {#} = {#}"
  "to_node p (add_mset x M) = (if fst x = p then add_mset (snd x) (to_node p M) else to_node p M)"
  "to_node p (M + N) = to_node p M + to_node p N"
  by (simp_all add: to_node_def)

lemma in_to_node: "(a, m) \<in># to_node p P \<longleftrightarrow> (p, a, m) \<in># P"
  by (force simp: to_node_def)

lemma cnt_to_node: "cnt P (to_node p M) = cnt (\<lambda>x. fst x = p \<and> P (snd x)) M"
  by (induction M) auto

lemma s_send_sel [simp]:
  "s_sent (s_send P s) = s_sent s + P" "s_infl (s_send P s) p = s_infl s p + to_node p P"
  "s_rnd (s_send P s) = s_rnd s" "s_vv (s_send P s) = s_vv s" "s_props (s_send P s) = s_props s"
  "s_cnt (s_send P s) = s_cnt s" "s_lvr (s_send P s) = s_lvr s" "s_lrv (s_send P s) = s_lrv s"
  "s_alive (s_send P s) = s_alive s" "s_syncv (s_send P s) = s_syncv s" "s_syncr (s_send P s) = s_syncr s"
  by (simp_all add: s_send_def)

lemma s_recv_sel [simp]:
  "s_sent (s_recv p x s) = s_sent s"
  "s_infl (s_recv p x s) q = (if q = p then s_infl s p - {#x#} else s_infl s q)"
  "s_rnd (s_recv p x s) = s_rnd s" "s_vv (s_recv p x s) = s_vv s" "s_props (s_recv p x s) = s_props s"
  "s_cnt (s_recv p x s) = s_cnt s" "s_lvr (s_recv p x s) = s_lvr s" "s_lrv (s_recv p x s) = s_lrv s"
  "s_alive (s_recv p x s) = s_alive s" "s_syncv (s_recv p x s) = s_syncv s" "s_syncr (s_recv p x s) = s_syncr s"
  by (simp_all add: s_recv_def)

lemma hist_union [simp]:
  "prm (S + P) a c x \<longleftrightarrow> prm S a c x \<or> prm P a c x"
  "vote (S + P) a c \<longleftrightarrow> vote S a c \<or> vote P a c"
  "offer (S + P) c v \<longleftrightarrow> offer S c v \<or> offer P c v"
  by (auto simp: prm_def vote_def offer_def)

lemma hist_add [simp]:
  "prm (add_mset (d, a', m) S) a c x \<longleftrightarrow> a' = a \<and> m = Promise c x \<or> prm S a c x"
  "vote (add_mset (d, a', m) S) a c \<longleftrightarrow> a' = a \<and> m = Learn c \<or> vote S a c"
  "offer (add_mset (d, a', m) S) c v \<longleftrightarrow> m = Accept c v \<or> offer S c v"
  by (auto simp: prm_def vote_def offer_def)

lemma hist_bcast [simp]:
  "prm (bcast nodes src m) a c x \<longleftrightarrow> nodes \<noteq> [] \<and> a = src \<and> m = Promise c x"
  "vote (bcast nodes src m) a c \<longleftrightarrow> nodes \<noteq> [] \<and> a = src \<and> m = Learn c"
  "offer (bcast nodes src m) c v \<longleftrightarrow> nodes \<noteq> [] \<and> m = Accept c v"
  by (cases nodes; auto simp: prm_def vote_def offer_def)+

lemma hist_empty [simp]: "\<not> prm {#} a c x" "\<not> vote {#} a c" "\<not> offer {#} c v"
  by (auto simp: prm_def vote_def offer_def)

lemma voted_mono: "voted nodes S c \<Longrightarrow> voted nodes (S + P) c"
  unfolding voted_def by (erule order_trans) (auto intro!: card_mono)

lemma chosen_mono: "chosen nodes S c v \<Longrightarrow> chosen nodes (S + P) c v"
  by (simp add: chosen_def voted_mono)

section \<open>The invariant\<close>

definition safe_at :: "'p list \<Rightarrow> ('p, 'v) packets \<Rightarrow> nat \<Rightarrow> 'v \<Rightarrow> bool" where
  "safe_at nodes S c v \<longleftrightarrow>
     (\<exists>as xs. distinct as \<and> set as \<subseteq> set nodes \<and> length as = majority nodes \<and> length xs = length as \<and>
        (\<forall>k < length as. prm S (as ! k) c (xs ! k)) \<and>
        (case max_vrnd_vval xs of Some (_, w) \<Rightarrow> w = v | None \<Rightarrow> True))"

definition net_ok :: "'p list \<Rightarrow> ('p, 'v) synod \<Rightarrow> bool" where
  "net_ok nodes s \<longleftrightarrow>
     (\<forall>p. s_infl s p \<subseteq># to_node p (s_sent s)) \<and>
     (\<forall>x \<in># s_sent s. fst x \<in> set nodes \<and> fst (snd x) \<in> set nodes)"

definition acceptors_ok :: "('p, 'v) synod \<Rightarrow> bool" where
  "acceptors_ok s \<longleftrightarrow>
     (\<forall>a. s_alive s a \<longrightarrow>
        (\<forall>c x. prm (s_sent s) a c x \<longrightarrow> c \<le> s_rnd s a) \<and>
        (\<forall>c. vote (s_sent s) a c \<longrightarrow> (\<exists>vr v. s_vv s a = Some (vr, v) \<and> c \<le> vr)) \<and>
        (\<forall>vr v. s_vv s a = Some (vr, v) \<longrightarrow> vr \<le> s_rnd s a \<and> offer (s_sent s) vr v))"

definition promises_ok :: "('p, 'v) synod \<Rightarrow> bool" where
  "promises_ok s \<longleftrightarrow>
     (\<forall>a c. prm (s_sent s) a c None \<longrightarrow> (\<forall>c' < c. \<not> vote (s_sent s) a c')) \<and>
     (\<forall>a c r w. prm (s_sent s) a c (Some (r, w)) \<longrightarrow>
        r < c \<and> offer (s_sent s) r w \<and> (\<forall>c'. r < c' \<and> c' < c \<longrightarrow> \<not> vote (s_sent s) a c'))"

definition once_ok :: "('p, 'v) synod \<Rightarrow> bool" where
  "once_ok s \<longleftrightarrow> (\<forall>a c. cnt (\<lambda>x. fst (snd x) = a \<and> is_prm c (snd (snd x))) (s_sent s) \<le> 1)"

definition pending :: "'p list \<Rightarrow> ('p, 'v) synod \<Rightarrow> 'p \<Rightarrow> nat \<Rightarrow> nat" where
  "pending nodes s p c =
     (case s_props s p c of
        Some (_, ps) \<Rightarrow> if length ps < majority nodes then length ps else 0
      | None \<Rightarrow> 0)"

text \<open>
  Every \<open>Accept\<close> broadcast of \<open>p\<close> in round \<open>c\<close> has used up a majority of the promises sent to
  it, beside those collected and those under way.
\<close>

definition budget_at :: "'p list \<Rightarrow> ('p, 'v) synod \<Rightarrow> 'p \<Rightarrow> 'p \<Rightarrow> nat \<Rightarrow> bool" where
  "budget_at nodes s p dst c \<longleftrightarrow>
     majority nodes * cnt (\<lambda>x. fst x = dst \<and> fst (snd x) = p \<and> is_acc c (snd (snd x))) (s_sent s) +
       pending nodes s p c + cnt (\<lambda>x. is_prm c (snd x)) (s_infl s p)
     \<le> cnt (\<lambda>x. fst x = p \<and> is_prm c (snd (snd x))) (s_sent s)"

definition budget_ok :: "'p list \<Rightarrow> ('p, 'v) synod \<Rightarrow> bool" where
  "budget_ok nodes s \<longleftrightarrow> (\<forall>p \<in> set nodes. \<forall>dst \<in> set nodes. \<forall>c. budget_at nodes s p dst c)"

definition props_ok :: "'p list \<Rightarrow> ('v \<Rightarrow> bool) \<Rightarrow> ('p, 'v) synod \<Rightarrow> bool" where
  "props_ok nodes ok s \<longleftrightarrow>
     (\<forall>p c v ps. s_props s p c = Some (v, ps) \<longrightarrow> ok v \<and>
        (\<exists>as. distinct as \<and> set as \<subseteq> set nodes \<and> length as = length ps \<and>
           (\<forall>k < length ps. prm (s_sent s) (as ! k) c (ps ! k)) \<and>
           (\<forall>a \<in> set as. cnt (\<lambda>x. fst x = a \<and> is_prm c (snd x)) (s_infl s p) = 0)))"

text \<open>A node votes at most once per \<open>Accept\<close> it was sent, and a learner counts a vote once.\<close>

definition votes_at :: "('p, 'v) synod \<Rightarrow> 'p \<Rightarrow> 'p \<Rightarrow> nat \<Rightarrow> bool" where
  "votes_at s a dst c \<longleftrightarrow>
     cnt (\<lambda>x. fst x = dst \<and> fst (snd x) = a \<and> is_lrn c (snd (snd x))) (s_sent s) +
       cnt (\<lambda>x. is_acc c (snd x)) (s_infl s a)
     \<le> cnt (\<lambda>x. fst x = a \<and> is_acc c (snd (snd x))) (s_sent s)"

definition votes_ok :: "'p list \<Rightarrow> ('p, 'v) synod \<Rightarrow> bool" where
  "votes_ok nodes s \<longleftrightarrow> (\<forall>a. \<forall>dst \<in> set nodes. \<forall>c. votes_at s a dst c)"

definition counts_at :: "('p, 'v) synod \<Rightarrow> 'p \<Rightarrow> nat \<Rightarrow> bool" where
  "counts_at s p c \<longleftrightarrow>
     s_cnt s p c + cnt (\<lambda>x. is_lrn c (snd x)) (s_infl s p)
     \<le> cnt (\<lambda>x. fst x = p \<and> is_lrn c (snd (snd x))) (s_sent s)"

definition counts_ok :: "('p, 'v) synod \<Rightarrow> bool" where
  "counts_ok s \<longleftrightarrow> (\<forall>p c. counts_at s p c)"

definition learned_ok :: "'p list \<Rightarrow> ('p, 'v) synod \<Rightarrow> bool" where
  "learned_ok nodes s \<longleftrightarrow>
     (\<forall>p r. s_lvr s p = Some r \<longrightarrow> voted nodes (s_sent s) r) \<and>
     (\<forall>p r v. s_lrv s p = Some (r, v) \<longrightarrow> chosen nodes (s_sent s) r v) \<and>
     (\<forall>r v. (r, v) \<in> s_syncv s \<longrightarrow> chosen nodes (s_sent s) r v) \<and>
     (\<forall>r. r \<in> s_syncr s \<longrightarrow> voted nodes (s_sent s) r)"

definition offers_ok :: "'p list \<Rightarrow> ('v \<Rightarrow> bool) \<Rightarrow> ('p, 'v) packets \<Rightarrow> bool" where
  "offers_ok nodes ok S \<longleftrightarrow>
     (\<forall>c v. offer S c v \<longrightarrow> ok v \<and> safe_at nodes S c v) \<and>
     (\<forall>dst a c v. (dst, a, Accept c v) \<in># S \<longrightarrow> (\<forall>dst' \<in> set nodes. (dst', a, Accept c v) \<in># S)) \<and>
     (\<forall>a c. vote S a c \<longrightarrow> (\<exists>v. offer S c v))"

definition synod_inv :: "'p list \<Rightarrow> ('v \<Rightarrow> bool) \<Rightarrow> ('p, 'v) synod \<Rightarrow> bool" where
  "synod_inv nodes ok s \<longleftrightarrow>
     net_ok nodes s \<and> acceptors_ok s \<and> promises_ok s \<and> once_ok s \<and> budget_ok nodes s \<and>
     props_ok nodes ok s \<and> votes_ok nodes s \<and> counts_ok s \<and> learned_ok nodes s \<and>
     offers_ok nodes ok (s_sent s)"

end
