(* ===== verification/Synod_Safety.thy ===== *)
theory Synod_Safety
  imports Synod
begin

text \<open>
  The invariant of the single-index protocol is kept by every step, and with it learned values
  agree. The counting invariants show that no round is ever offered two values.
\<close>

section \<open>Consequences of the invariant\<close>

lemma cnt_by_node:
  assumes "\<forall>x \<in># S. P x \<longrightarrow> f x \<in> set nodes"
  shows "cnt P S = (\<Sum>a \<in> set nodes. cnt (\<lambda>x. f x = a \<and> P x) S)"
  using assms
proof (induction S)
  case (add x S)
  show ?case
  proof (cases "P x")
    case True
    with add.prems have "f x \<in> set nodes" by simp
    have "(\<Sum>a \<in> set nodes. cnt (\<lambda>x. f x = a \<and> P x) (add_mset x S)) =
        (\<Sum>a \<in> set nodes. cnt (\<lambda>x. f x = a \<and> P x) S + (if a = f x then 1 else 0))"
      using True by (intro sum.cong) auto
    also have "\<dots> = (\<Sum>a \<in> set nodes. cnt (\<lambda>x. f x = a \<and> P x) S) + 1"
      using \<open>f x \<in> set nodes\<close> by (simp add: sum.distrib)
    finally show ?thesis using add True by simp
  next
    case False
    with add show ?thesis by simp
  qed
qed simp

lemma majority_double: "length nodes < 2 * majority nodes"
  by (simp add: majority_def)

lemma less_double: "m * k < 2 * m \<Longrightarrow> k \<le> (1 :: nat)"
  using mult_le_mono2 [of 2 k m] by (cases "2 \<le> k") auto

lemma promises_bounded:
  assumes "synod_inv nodes ok s"
  shows "cnt (\<lambda>x. is_prm c (snd (snd x))) (s_sent s) \<le> length nodes"
proof -
  have "cnt (\<lambda>x. is_prm c (snd (snd x))) (s_sent s) =
      (\<Sum>a \<in> set nodes. cnt (\<lambda>x. fst (snd x) = a \<and> is_prm c (snd (snd x))) (s_sent s))"
    using assms by (intro cnt_by_node) (auto simp: synod_inv_def net_ok_def)
  also have "\<dots> \<le> (\<Sum>a \<in> set nodes. 1)"
    using assms by (intro sum_mono) (simp add: synod_inv_def once_ok_def)
  also have "\<dots> \<le> length nodes" by (simp add: card_length)
  finally show ?thesis .
qed

text \<open>A round is offered a value at most once.\<close>

lemma offers_once:
  assumes inv: "synod_inv nodes ok s" and dst: "dst \<in> set nodes"
  shows "cnt (\<lambda>x. fst x = dst \<and> is_acc c (snd (snd x))) (s_sent s) \<le> 1"
proof -
  let ?acc = "\<lambda>p. cnt (\<lambda>x. fst x = dst \<and> fst (snd x) = p \<and> is_acc c (snd (snd x))) (s_sent s)"
  let ?prm = "\<lambda>p. cnt (\<lambda>x. fst x = p \<and> is_prm c (snd (snd x))) (s_sent s)"
  have "cnt (\<lambda>x. fst x = dst \<and> is_acc c (snd (snd x))) (s_sent s) = (\<Sum>p \<in> set nodes. ?acc p)"
    using inv cnt_by_node [of "s_sent s" "\<lambda>x. fst x = dst \<and> is_acc c (snd (snd x))" "\<lambda>x. fst (snd x)" nodes]
    by (simp add: synod_inv_def net_ok_def conj_left_commute)
  then have "majority nodes * cnt (\<lambda>x. fst x = dst \<and> is_acc c (snd (snd x))) (s_sent s) =
      (\<Sum>p \<in> set nodes. majority nodes * ?acc p)" by (simp add: sum_distrib_left)
  also have "\<dots> \<le> (\<Sum>p \<in> set nodes. ?prm p)"
  proof (rule sum_mono)
    fix p assume "p \<in> set nodes"
    with inv dst have "majority nodes * ?acc p + pending nodes s p c +
        cnt (\<lambda>x. is_prm c (snd x)) (s_infl s p) \<le> ?prm p"
      unfolding synod_inv_def budget_ok_def budget_at_def by blast
    then show "majority nodes * ?acc p \<le> ?prm p" by simp
  qed
  also have "\<dots> = cnt (\<lambda>x. is_prm c (snd (snd x))) (s_sent s)"
    using inv by (intro cnt_by_node [symmetric]) (auto simp: synod_inv_def net_ok_def)
  also have "\<dots> \<le> length nodes" by (rule promises_bounded [OF inv])
  finally have "majority nodes * cnt (\<lambda>x. fst x = dst \<and> is_acc c (snd (snd x))) (s_sent s) < 2 * majority nodes"
    using majority_double [of nodes] by linarith
  then show ?thesis by (rule less_double)
qed

lemma cnt_imp: "(\<And>x. P x \<Longrightarrow> Q x) \<Longrightarrow> cnt P M \<le> cnt Q M"
  by (induction M) auto

lemma cnt_two:
  assumes "x \<in># S" "y \<in># S" "x \<noteq> y" "P x" "P y"
  shows "2 \<le> cnt P S"
proof -
  from assms(1) obtain S' where S: "S = add_mset x S'" by (meson multi_member_split)
  with assms(2,3) have "y \<in># S'" by auto
  then have "0 < cnt P S'" using assms(5) by (auto simp: cnt_pos)
  with assms(4) show ?thesis by (simp add: S)
qed

lemma offer_one_value:
  assumes inv: "synod_inv nodes ok s" and "nodes \<noteq> []"
    and "offer (s_sent s) c v" and "offer (s_sent s) c v'"
  shows "v = v'"
proof (rule ccontr)
  assume "v \<noteq> v'"
  from assms(2) obtain dst where dst: "dst \<in> set nodes" by (cases nodes) auto
  with assms(3,4) inv obtain a a' where
    "(dst, a, Accept c v) \<in># s_sent s" "(dst, a', Accept c v') \<in># s_sent s"
    by (fastforce simp: synod_inv_def offers_ok_def offer_def)
  with \<open>v \<noteq> v'\<close> have "2 \<le> cnt (\<lambda>x. fst x = dst \<and> is_acc c (snd (snd x))) (s_sent s)"
    by (intro cnt_two [of "(dst, a, Accept c v)" _ "(dst, a', Accept c v')"]) auto
  with offers_once [OF inv dst, of c] show False by simp
qed

text \<open>The votes a node is sent count distinct voters.\<close>

lemma votes_count:
  assumes inv: "synod_inv nodes ok s" and p: "p \<in> set nodes"
  shows "cnt (\<lambda>x. fst x = p \<and> is_lrn c (snd (snd x))) (s_sent s) \<le> card {a \<in> set nodes. vote (s_sent s) a c}"
proof -
  let ?l = "\<lambda>a. cnt (\<lambda>x. fst x = p \<and> fst (snd x) = a \<and> is_lrn c (snd (snd x))) (s_sent s)"
  have "cnt (\<lambda>x. fst x = p \<and> is_lrn c (snd (snd x))) (s_sent s) = (\<Sum>a \<in> set nodes. ?l a)"
    using inv cnt_by_node [of "s_sent s" "\<lambda>x. fst x = p \<and> is_lrn c (snd (snd x))" "\<lambda>x. fst (snd x)" nodes]
    by (simp add: synod_inv_def net_ok_def conj_left_commute)
  also have "\<dots> \<le> (\<Sum>a \<in> set nodes. if vote (s_sent s) a c then 1 else 0)"
  proof (rule sum_mono)
    fix a assume a: "a \<in> set nodes"
    have "?l a + cnt (\<lambda>x. is_acc c (snd x)) (s_infl s a) \<le>
        cnt (\<lambda>x. fst x = a \<and> is_acc c (snd (snd x))) (s_sent s)"
      using inv p unfolding synod_inv_def votes_ok_def votes_at_def by blast
    with offers_once [OF inv a, of c] have "?l a \<le> 1" by simp
    moreover have "?l a = 0" if "\<not> vote (s_sent s) a c"
      using that by (auto simp: cnt_zero vote_def elim!: is_lrn.elims)
    ultimately show "?l a \<le> (if vote (s_sent s) a c then 1 else 0)" by simp
  qed
  also have "\<dots> = card {a \<in> set nodes. vote (s_sent s) a c}"
    by (simp add: sum.If_cases Int_def)
  finally show ?thesis .
qed

section \<open>Preservation\<close>

lemma infl_sent: "synod_inv nodes ok s \<Longrightarrow> (q, m) \<in># s_infl s p \<Longrightarrow> (p, q, m) \<in># s_sent s"
  unfolding synod_inv_def net_ok_def by (metis in_to_node mset_subset_eqD)

lemma sent_nodes: "synod_inv nodes ok s \<Longrightarrow> (p, q, m) \<in># s_sent s \<Longrightarrow> p \<in> set nodes \<and> q \<in> set nodes"
  unfolding synod_inv_def net_ok_def by fastforce

lemma net_ok_recv: "net_ok nodes s \<Longrightarrow> net_ok nodes (s_recv p x s)"
  by (auto simp: net_ok_def intro: subset_mset.order_trans [OF diff_subset_eq_self])

lemma net_ok_send:
  "net_ok nodes s \<Longrightarrow> (\<forall>x \<in># P. fst x \<in> set nodes \<and> fst (snd x) \<in> set nodes) \<Longrightarrow>
     net_ok nodes (s_send P s)"
  by (auto simp: net_ok_def intro: subset_mset.add_right_mono)

lemma net_ok_upd [simp]:
  "net_ok nodes (s\<lparr>s_rnd := f1\<rparr>) = net_ok nodes s" "net_ok nodes (s\<lparr>s_vv := f2\<rparr>) = net_ok nodes s"
  "net_ok nodes (s\<lparr>s_props := f3\<rparr>) = net_ok nodes s" "net_ok nodes (s\<lparr>s_cnt := f4\<rparr>) = net_ok nodes s"
  "net_ok nodes (s\<lparr>s_lvr := f5\<rparr>) = net_ok nodes s" "net_ok nodes (s\<lparr>s_lrv := f6\<rparr>) = net_ok nodes s"
  "net_ok nodes (s\<lparr>s_alive := f7\<rparr>) = net_ok nodes s" "net_ok nodes (s\<lparr>s_syncv := f8\<rparr>) = net_ok nodes s"
  "net_ok nodes (s\<lparr>s_syncr := f9\<rparr>) = net_ok nodes s"
  by (simp_all add: net_ok_def)

lemma step_net_ok:
  assumes "synod_step nodes ok s s'" and inv: "synod_inv nodes ok s"
  shows "net_ok nodes s'"
proof -
  have net: "net_ok nodes s" using inv by (simp add: synod_inv_def)
  have q: "q \<in> set nodes" if "(q, m) \<in># s_infl s p" for q m p
    using sent_nodes [OF inv infl_sent [OF inv that]] by simp
  show ?thesis
    using assms(1) by cases (auto simp: net dest: q intro!: net_ok_send net_ok_recv)
qed

lemma step_once_ok:
  assumes "synod_step nodes ok s s'" and inv: "synod_inv nodes ok s"
  shows "once_ok s'"
proof -
  have once: "once_ok s" using inv by (simp add: synod_inv_def)
  show ?thesis
    using assms(1)
  proof cases
    case (prepare p q c)
    have "cnt (\<lambda>x. fst (snd x) = p \<and> is_prm c (snd (snd x))) (s_sent s) = 0"
      using prepare inv
      by (auto simp: cnt_zero synod_inv_def acceptors_ok_def prm_def elim!: is_prm.elims) (metis not_less)
    with prepare once show ?thesis by (auto simp: once_ok_def)
  qed (use once in \<open>auto simp: once_ok_def cnt_bcast\<close>)
qed

lemma step_acceptors_ok:
  assumes "synod_step nodes ok s s'" and inv: "synod_inv nodes ok s" and "nodes \<noteq> []"
  shows "acceptors_ok s'"
proof -
  have acc: "acceptors_ok s" using inv by (simp add: synod_inv_def)
  show ?thesis
    using assms(1)
  proof cases
    case (prepare p q c)
    with acc show ?thesis by (fastforce simp: acceptors_ok_def)
  next
    case (accept p q c v)
    have "offer (s_sent s) c v" using infl_sent [OF inv accept(4)] by (auto simp: offer_def)
    with accept acc show ?thesis by (fastforce simp: acceptors_ok_def)
  qed (use acc in \<open>auto simp: acceptors_ok_def\<close>)
qed

lemma step_promises_ok:
  assumes "synod_step nodes ok s s'" and inv: "synod_inv nodes ok s"
  shows "promises_ok s'"
proof -
  have prm: "promises_ok s" and acc: "acceptors_ok s" using inv by (simp_all add: synod_inv_def)
  show ?thesis
    using assms(1)
  proof cases
    case (prepare p q c)
    with prm acc show ?thesis by (fastforce simp: promises_ok_def acceptors_ok_def)
  next
    case (accept p q c v)
    with prm acc show ?thesis by (fastforce simp: promises_ok_def acceptors_ok_def)
  qed (use prm in \<open>auto simp: promises_ok_def\<close>)
qed

lemma pending_upd [simp]:
  "pending nodes (s_send P s) = pending nodes s" "pending nodes (s_recv p x s) = pending nodes s"
  "pending nodes (s\<lparr>s_rnd := f1\<rparr>) = pending nodes s" "pending nodes (s\<lparr>s_vv := f2\<rparr>) = pending nodes s"
  "pending nodes (s\<lparr>s_cnt := f4\<rparr>) = pending nodes s" "pending nodes (s\<lparr>s_lvr := f5\<rparr>) = pending nodes s"
  "pending nodes (s\<lparr>s_lrv := f6\<rparr>) = pending nodes s" "pending nodes (s\<lparr>s_alive := f7\<rparr>) = pending nodes s"
  "pending nodes (s\<lparr>s_syncv := f8\<rparr>) = pending nodes s" "pending nodes (s\<lparr>s_syncr := f9\<rparr>) = pending nodes s"
  by (simp_all add: pending_def fun_eq_iff)

text \<open>What a broadcast contributes to the counters.\<close>

lemma cnt_bcast_from:
  "distinct nodes \<Longrightarrow> dst \<in> set nodes \<Longrightarrow>
     cnt (\<lambda>x. fst x = dst \<and> fst (snd x) = p \<and> Q (snd (snd x))) (bcast nodes src m) =
       (if src = p \<and> Q m then 1 else 0)"
  using cnt_bcast_to [of nodes dst "\<lambda>y. fst y = p \<and> Q (snd y)" src m] by simp

lemma cnt_bcast_dst:
  "distinct nodes \<Longrightarrow> dst \<in> set nodes \<Longrightarrow>
     cnt (\<lambda>x. fst x = dst \<and> Q (snd (snd x))) (bcast nodes src m) = (if Q m then 1 else 0)"
  using cnt_bcast_to [of nodes dst "\<lambda>y. Q (snd y)" src m] by simp

lemma cnt_to_bcast:
  "distinct nodes \<Longrightarrow> dst \<in> set nodes \<Longrightarrow>
     cnt (\<lambda>x. Q (snd x)) (to_node dst (bcast nodes src m)) = (if Q m then 1 else 0)"
  by (simp add: cnt_to_node cnt_bcast_dst)

lemma step_budget_ok:
  assumes "synod_step nodes ok s s'" and inv: "synod_inv nodes ok s" and dist: "distinct nodes"
  shows "budget_ok nodes s'"
  unfolding budget_ok_def
proof (intro ballI allI)
  fix p' dst c'
  assume p': "p' \<in> set nodes" and dst: "dst \<in> set nodes"
  with inv have bud: "budget_at nodes s p' dst c'" by (simp add: synod_inv_def budget_ok_def)
  note cnts = cnt_bcast_from cnt_bcast_dst cnt_to_bcast dist cnt_remove p' dst
  show "budget_at nodes s' p' dst c'"
    using assms(1)
  proof cases
    case (propose p v c)
    have "pending nodes s' p' c' \<le> pending nodes s p' c'" using propose by (simp add: pending_def)
    with propose bud show ?thesis by (simp add: budget_at_def cnts)
  next
    case (promise p q c x v ps)
    have "(q, Promise c x) \<in># s_infl s p \<and> is_prm c (snd (q, Promise c x))" using promise(4) by simp
    then have pos: "0 < cnt (\<lambda>x. is_prm c (snd x)) (s_infl s p)" unfolding cnt_pos by blast
    show ?thesis
    proof (cases "p' = p \<and> c' = c")
      case True
      with bud promise pos show ?thesis by (auto simp: budget_at_def cnts pending_def)
    next
      case False
      then have "pending nodes s' p' c' = pending nodes s p' c'"
        using promise by (auto simp: pending_def)
      with False bud promise show ?thesis by (auto simp: budget_at_def cnts)
    qed
  qed (use bud in \<open>auto simp: budget_at_def cnts pending_def\<close>)
qed

lemma step_votes_ok:
  assumes "synod_step nodes ok s s'" and inv: "synod_inv nodes ok s" and dist: "distinct nodes"
  shows "votes_ok nodes s'"
  unfolding votes_ok_def
proof (intro allI ballI)
  fix a dst c' assume dst: "dst \<in> set nodes"
  with inv have vot: "votes_at s a dst c'" by (simp add: synod_inv_def votes_ok_def)
  note cnts = votes_at_def cnt_bcast_from cnt_to_node dist cnt_remove dst
  show "votes_at s' a dst c'"
    using assms(1)
  proof cases
    case (accept p q c v)
    have "(q, Accept c v) \<in># s_infl s p \<and> is_acc c (snd (q, Accept c v))" using accept(4) by simp
    then have "0 < cnt (\<lambda>x. is_acc c (snd x)) (s_infl s p)" unfolding cnt_pos by blast
    moreover have "cnt (\<lambda>x. fst x = a \<and> is_acc c' (snd (snd x))) (bcast nodes p (Learn c)) = 0"
      by (simp add: cnt_bcast)
    ultimately show ?thesis using accept vot by (auto simp: cnts)
  qed (use vot in \<open>auto simp: cnts\<close>)
qed

lemma step_counts_ok:
  assumes "synod_step nodes ok s s'" and inv: "synod_inv nodes ok s"
  shows "counts_ok s'"
  unfolding counts_ok_def
proof (intro allI)
  fix p' c'
  from inv have cts: "counts_at s p' c'" by (simp add: synod_inv_def counts_ok_def)
  show "counts_at s' p' c'"
    using assms(1)
  proof cases
    case (learn p q c)
    have "(q, Learn c) \<in># s_infl s p \<and> is_lrn c (snd (q, Learn c))" using learn(4) by simp
    then have "0 < cnt (\<lambda>x. is_lrn c (snd x)) (s_infl s p)" unfolding cnt_pos by blast
    with learn cts show ?thesis by (auto simp: counts_at_def cnt_remove)
  qed (use cts in \<open>auto simp: counts_at_def cnt_remove cnt_to_node\<close>)
qed

section \<open>Agreement\<close>

lemma max_vrnd_vval_snoc:
  "max_vrnd_vval (ps @ [x]) =
     (case x of
        None \<Rightarrow> max_vrnd_vval ps
      | Some (r, _) \<Rightarrow>
          (case max_vrnd_vval ps of Some (r', _) \<Rightarrow> if r > r' then x else max_vrnd_vval ps | None \<Rightarrow> x))"
  by (simp add: max_vrnd_vval_def split: option.split)

lemma max_vrnd_vval_spec:
  "(max_vrnd_vval ps = None \<longrightarrow> (\<forall>x \<in> set ps. x = None)) \<and>
   (\<forall>r w. max_vrnd_vval ps = Some (r, w) \<longrightarrow>
      Some (r, w) \<in> set ps \<and> (\<forall>r' w'. Some (r', w') \<in> set ps \<longrightarrow> r' \<le> r))"
proof (induction ps rule: rev_induct)
  case (snoc x ps)
  then show ?case
    by (cases x; cases "max_vrnd_vval ps") (fastforce simp: max_vrnd_vval_snoc split: if_splits)+
qed (simp add: max_vrnd_vval_def)

lemma safe_at_quorum:
  assumes "safe_at nodes S c v"
  shows "\<exists>Q x. Q \<subseteq> set nodes \<and> length nodes < 2 * card Q \<and> (\<forall>a \<in> Q. prm S a c (x a)) \<and>
    ((\<forall>a \<in> Q. x a = None) \<or>
     (\<exists>a \<in> Q. \<exists>r. x a = Some (r, v) \<and> (\<forall>a' \<in> Q. \<forall>r' w. x a' = Some (r', w) \<longrightarrow> r' \<le> r)))"
proof -
  from assms obtain as xs where as: "distinct as" "set as \<subseteq> set nodes" "length as = majority nodes"
    and xs: "length xs = length as" "\<forall>k < length as. prm S (as ! k) c (xs ! k)"
    and mx: "case max_vrnd_vval xs of Some (_, w) \<Rightarrow> w = v | None \<Rightarrow> True"
    by (auto simp: safe_at_def)
  define x where "x a = the (map_of (zip as xs) a)" for a
  have x: "x (as ! k) = xs ! k" if "k < length as" for k
    using that as(1) xs(1) by (simp add: x_def map_of_zip_nth)
  have all: "\<exists>k < length as. a = as ! k \<and> x a = xs ! k" if "a \<in> set as" for a
    using that x by (metis in_set_conv_nth)
  have "length nodes < 2 * card (set as)" using as majority_double [of nodes] by (simp add: distinct_card)
  moreover have "\<forall>a \<in> set as. prm S a c (x a)" using all xs(2) by metis
  moreover have "(\<forall>a \<in> set as. x a = None) \<or>
     (\<exists>a \<in> set as. \<exists>r. x a = Some (r, v) \<and> (\<forall>a' \<in> set as. \<forall>r' w. x a' = Some (r', w) \<longrightarrow> r' \<le> r))"
  proof (cases "max_vrnd_vval xs")
    case None
    then have "\<forall>y \<in> set xs. y = None" using max_vrnd_vval_spec [of xs] by blast
    then show ?thesis using all xs(1) by (metis nth_mem)
  next
    case (Some rw)
    then obtain r where r: "max_vrnd_vval xs = Some (r, v)" using mx by (cases rw) auto
    with max_vrnd_vval_spec [of xs] have r1: "Some (r, v) \<in> set xs"
      and r2: "\<And>r' w'. Some (r', w') \<in> set xs \<Longrightarrow> r' \<le> r" by blast+
    from r1 obtain k where "k < length as" "xs ! k = Some (r, v)" using xs(1) by (metis in_set_conv_nth)
    then have "as ! k \<in> set as" "x (as ! k) = Some (r, v)" using x by auto
    moreover have "r' \<le> r" if "a' \<in> set as" "x a' = Some (r', w)" for a' r' w
      using that all [OF that(1)] xs(1) r2 by (metis nth_mem)
    ultimately show ?thesis by blast
  qed
  ultimately show ?thesis using as(2) by blast
qed

interpretation synod: quorum_voting nodes "\<lambda>s. synod_inv nodes ok s \<and> nodes \<noteq> []"
  "\<lambda>s. prm (s_sent s)" "\<lambda>s. vote (s_sent s)" "\<lambda>s. offer (s_sent s)" for nodes ok
proof
  show "\<And>s c v v'. synod_inv nodes ok s \<and> nodes \<noteq> [] \<Longrightarrow> offer (s_sent s) c v \<Longrightarrow>
    offer (s_sent s) c v' \<Longrightarrow> v = v'" by (meson offer_one_value)
  show "\<And>s a c. synod_inv nodes ok s \<and> nodes \<noteq> [] \<Longrightarrow> vote (s_sent s) a c \<Longrightarrow> \<exists>v. offer (s_sent s) c v"
    by (auto simp: synod_inv_def offers_ok_def)
  show "\<And>s c v. synod_inv nodes ok s \<and> nodes \<noteq> [] \<Longrightarrow> offer (s_sent s) c v \<Longrightarrow>
    \<exists>Q x. Q \<subseteq> set nodes \<and> length nodes < 2 * card Q \<and> (\<forall>a \<in> Q. prm (s_sent s) a c (x a)) \<and>
      ((\<forall>a \<in> Q. x a = None) \<or>
       (\<exists>a \<in> Q. \<exists>r. x a = Some (r, v) \<and> (\<forall>a' \<in> Q. \<forall>r' w. x a' = Some (r', w) \<longrightarrow> r' \<le> r)))"
    by (rule safe_at_quorum) (simp add: synod_inv_def offers_ok_def)
qed (auto simp: synod_inv_def promises_ok_def)

lemma voted_iff: "synod.voted_in nodes s c \<longleftrightarrow> voted nodes (s_sent s) c"
proof
  assume "synod.voted_in nodes s c"
  then obtain Q where Q: "Q \<subseteq> set nodes" "length nodes < 2 * card Q" "\<forall>a \<in> Q. vote (s_sent s) a c"
    by (auto simp: synod.voted_in_def)
  then have "card Q \<le> card {a \<in> set nodes. vote (s_sent s) a c}" by (intro card_mono) auto
  with Q(2) show "voted nodes (s_sent s) c" by (simp add: voted_def majority_def)
next
  assume "voted nodes (s_sent s) c"
  then show "synod.voted_in nodes s c"
    unfolding synod.voted_in_def voted_def
    using majority_double [of nodes] by (intro exI [of _ "{a \<in> set nodes. vote (s_sent s) a c}"]) auto
qed

text \<open>A value accepted no earlier than a round a majority has voted in is the chosen value.\<close>

lemma accepted_chosen:
  assumes inv: "synod_inv nodes ok s" and "nodes \<noteq> []" and "voted nodes (s_sent s) r"
    and "offer (s_sent s) vr v" and "r \<le> vr"
  shows "chosen nodes (s_sent s) r v"
proof -
  have voted: "synod.voted_in nodes s r" using assms(3) by (simp add: voted_iff)
  have iv: "synod_inv nodes ok s \<and> nodes \<noteq> []" using assms(1,2) by simp
  from synod.voted_offer [OF iv voted] obtain w where w: "offer (s_sent s) r w" by blast
  from synod.later_proposal [OF iv voted w assms(5,4)] w assms(3) show ?thesis by (simp add: chosen_def)
qed

lemma chosen_agree:
  assumes "synod_inv nodes ok s" and "nodes \<noteq> []"
    and "chosen nodes (s_sent s) r v" and "chosen nodes (s_sent s) r' v'"
  shows "v = v'"
  using synod.chosen_unique [of nodes ok s r v r' v'] assms by (simp add: chosen_def voted_iff)

lemma learned_ok_mono:
  "learned_ok nodes s \<Longrightarrow> s_sent s' = s_sent s + P \<Longrightarrow>
   (\<And>p r. s_lvr s' p = Some r \<Longrightarrow> s_lvr s p = Some r \<or> voted nodes (s_sent s') r) \<Longrightarrow>
   (\<And>p r v. s_lrv s' p = Some (r, v) \<Longrightarrow> s_lrv s p = Some (r, v) \<or> chosen nodes (s_sent s') r v) \<Longrightarrow>
   (\<And>r v. (r, v) \<in> s_syncv s' \<Longrightarrow> (r, v) \<in> s_syncv s \<or> chosen nodes (s_sent s') r v) \<Longrightarrow>
   (\<And>r. r \<in> s_syncr s' \<Longrightarrow> r \<in> s_syncr s \<or> voted nodes (s_sent s') r) \<Longrightarrow>
   learned_ok nodes s'"
  unfolding learned_ok_def by (metis chosen_mono voted_mono)

lemma step_learned_ok:
  assumes "synod_step nodes ok s s'" and inv: "synod_inv nodes ok s" and ne: "nodes \<noteq> []"
  shows "learned_ok nodes s'"
proof -
  have lrn: "learned_ok nodes s" and acc: "acceptors_ok s" using inv by (simp_all add: synod_inv_def)
  show ?thesis
    using assms(1)
  proof cases
    case (learn p q c)
    have "(q, Learn c) \<in># s_infl s p \<and> is_lrn c (snd (q, Learn c))" using learn(4) by simp
    then have "0 < cnt (\<lambda>x. is_lrn c (snd x)) (s_infl s p)" unfolding cnt_pos by blast
    moreover have "counts_at s p c" using inv by (simp add: synod_inv_def counts_ok_def)
    ultimately have "Suc (s_cnt s p c) \<le> card {a \<in> set nodes. vote (s_sent s) a c}"
      using votes_count [OF inv learn(2), of c] by (simp add: counts_at_def)
    then have "voted nodes (s_sent s) c" if "Suc (s_cnt s p c) = majority nodes"
      using that by (simp add: voted_def)
    with learn show ?thesis
      by (intro learned_ok_mono [OF lrn, of _ "{#}"]) (auto split: if_splits option.splits)
  next
    case (learn_value p r vr v)
    then have "voted nodes (s_sent s) r" using lrn by (auto simp: learned_ok_def)
    moreover have "offer (s_sent s) vr v" using learn_value acc by (auto simp: acceptors_ok_def)
    ultimately have "chosen nodes (s_sent s) r v"
      using accepted_chosen [OF inv ne] learn_value(6) by blast
    with learn_value show ?thesis
      by (intro learned_ok_mono [OF lrn, of _ "{#}"]) (auto split: if_splits)
  next
    case (sync_value p rv)
    with lrn show ?thesis
      by (intro learned_ok_mono [OF lrn, of _ "{#}"]) (auto simp: learned_ok_def split: if_splits)
  next
    case (tell_value p r v)
    with lrn show ?thesis
      by (intro learned_ok_mono [OF lrn, of _ "{#}"]) (auto simp: learned_ok_def)
  next
    case (tell_round p r v)
    then have "chosen nodes (s_sent s) r v" using lrn by (simp add: learned_ok_def)
    with tell_round lrn show ?thesis
      by (intro learned_ok_mono [OF lrn, of _ "{#}"]) (auto simp: chosen_def)
  next
    case (purge p)
    with lrn show ?thesis
      by (intro learned_ok_mono [OF lrn, of _ "{#}"]) (auto split: if_splits)
  qed (auto intro: learned_ok_mono [OF lrn])
qed

text \<open>The promises of a proposal come from distinct nodes and are no longer under way.\<close>

definition prop_at :: "'p list \<Rightarrow> ('v \<Rightarrow> bool) \<Rightarrow> ('p, 'v) synod \<Rightarrow> 'p \<Rightarrow> nat \<Rightarrow> 'v \<Rightarrow> (nat \<times> 'v) option list \<Rightarrow> bool" where
  "prop_at nodes ok s p c v ps \<longleftrightarrow> ok v \<and>
     (\<exists>as. distinct as \<and> set as \<subseteq> set nodes \<and> length as = length ps \<and>
        (\<forall>k < length ps. prm (s_sent s) (as ! k) c (ps ! k)) \<and>
        (\<forall>a \<in> set as. cnt (\<lambda>x. fst x = a \<and> is_prm c (snd x)) (s_infl s p) = 0))"

lemma props_ok_alt:
  "props_ok nodes ok s \<longleftrightarrow> (\<forall>p c v ps. s_props s p c = Some (v, ps) \<longrightarrow> prop_at nodes ok s p c v ps)"
  by (simp add: props_ok_def prop_at_def)

lemma prop_at_mono:
  assumes "prop_at nodes ok s p c v ps" and "s_sent s' = s_sent s + P"
    and "\<And>a x. prm (s_sent s) a c x \<Longrightarrow>
      cnt (\<lambda>x. fst x = a \<and> is_prm c (snd x)) (s_infl s' p) \<le>
      cnt (\<lambda>x. fst x = a \<and> is_prm c (snd x)) (s_infl s p)"
  shows "prop_at nodes ok s' p c v ps"
proof -
  from assms(1) obtain as where as: "ok v" "distinct as" "set as \<subseteq> set nodes" "length as = length ps"
    "\<forall>k < length ps. prm (s_sent s) (as ! k) c (ps ! k)"
    "\<forall>a \<in> set as. cnt (\<lambda>x. fst x = a \<and> is_prm c (snd x)) (s_infl s p) = 0"
    by (auto simp: prop_at_def)
  have "cnt (\<lambda>x. fst x = a \<and> is_prm c (snd x)) (s_infl s' p) = 0" if "a \<in> set as" for a
  proof -
    from that as(4,5) obtain x where "prm (s_sent s) a c x" by (metis in_set_conv_nth)
    from assms(3) [OF this] as(6) that show ?thesis by simp
  qed
  with as assms(2) show ?thesis by (auto simp: prop_at_def)
qed

lemma infl_prm_cnt:
  "(q, Promise c x) \<in># M \<Longrightarrow> 0 < cnt (\<lambda>x. fst x = q \<and> is_prm c (snd x)) M"
  unfolding cnt_pos by (intro exI [of _ "(q, Promise c x)"]) simp

lemma prop_at_promise:
  assumes inv: "synod_inv nodes ok s" and prp: "prop_at nodes ok s p c v ps"
    and infl: "(q, Promise c x) \<in># s_infl s p"
    and s': "s_sent s' = s_sent s + P" "s_infl s' p = s_infl s p - {#(q, Promise c x)#} + R"
    and R: "\<forall>y \<in># R. \<not> is_prm c (snd y)"
  shows "prop_at nodes ok s' p c v (ps @ [x])"
proof -
  from prp obtain as where as: "ok v" "distinct as" "set as \<subseteq> set nodes" "length as = length ps"
    "\<forall>k < length ps. prm (s_sent s) (as ! k) c (ps ! k)"
    "\<forall>a \<in> set as. cnt (\<lambda>x. fst x = a \<and> is_prm c (snd x)) (s_infl s p) = 0"
    by (auto simp: prop_at_def)
  have new: "q \<notin> set as" using as(6) infl_prm_cnt [OF infl] by auto
  have q: "prm (s_sent s) q c x" "q \<in> set nodes"
    using infl_sent [OF inv infl] sent_nodes [OF inv] by (auto simp: prm_def)
  have prms: "prm (s_sent s) ((as @ [q]) ! k) c ((ps @ [x]) ! k)" if "k < length (ps @ [x])" for k
    using that as(4,5) q(1) by (auto simp: nth_append less_Suc_eq)
  have "cnt (\<lambda>x. fst x = q \<and> is_prm c (snd x)) (s_infl s p) \<le>
      cnt (\<lambda>x. fst x = q \<and> is_prm c (snd x)) (to_node p (s_sent s))"
    using inv by (intro cnt_mono) (simp add: synod_inv_def net_ok_def)
  also have "\<dots> \<le> cnt (\<lambda>x. fst (snd x) = q \<and> is_prm c (snd (snd x))) (s_sent s)"
    unfolding cnt_to_node by (rule cnt_imp) simp
  also have "\<dots> \<le> 1" using inv by (simp add: synod_inv_def once_ok_def)
  finally have "cnt (\<lambda>x. fst x = q \<and> is_prm c (snd x)) (s_infl s p) \<le> 1" .
  moreover have R0: "cnt (\<lambda>x. fst x = a \<and> is_prm c (snd x)) R = 0" for a using R by (auto simp: cnt_zero)
  ultimately have "cnt (\<lambda>x. fst x = a \<and> is_prm c (snd x)) (s_infl s' p) = 0" if "a \<in> set (as @ [q])" for a
    using that as(6) infl by (auto simp: s' cnt_remove R0)
  with as q(2) new prms show ?thesis
    unfolding prop_at_def by (intro conjI exI [of _ "as @ [q]"]) (auto simp: s'(1))
qed

lemma promise_step_prop:
  assumes inv: "synod_inv nodes ok s" and "(q, Promise c x) \<in># s_infl s p" and "s_props s p c = Some (v, ps)"
  shows "prop_at nodes ok
    (s_send (if b then bcast nodes p (Accept c w) else {#}) (s_recv p (q, Promise c x) (s\<lparr>s_props := f\<rparr>)))
    p c v (ps @ [x])"
proof -
  let ?P = "if b then bcast nodes p (Accept c w) else {#}"
  have "prop_at nodes ok s p c v ps" using inv assms(3) by (simp add: synod_inv_def props_ok_alt)
  then show ?thesis
    by (rule prop_at_promise [OF inv _ assms(2), where P = ?P and R = "to_node p ?P"])
      (auto simp: in_to_node)
qed

lemma safe_at_mono: "safe_at nodes S c v \<Longrightarrow> safe_at nodes (S + P) c v"
  unfolding safe_at_def hist_union by blast

lemma offers_ok_quiet:
  "offers_ok nodes ok S \<Longrightarrow> (\<And>x. x \<in># P \<Longrightarrow> \<nexists>c v. snd (snd x) = Accept c v) \<Longrightarrow>
   (\<And>a c. vote P a c \<Longrightarrow> \<exists>v. offer S c v) \<Longrightarrow> offers_ok nodes ok (S + P)"
proof -
  assume off: "offers_ok nodes ok S" and quiet: "\<And>x. x \<in># P \<Longrightarrow> \<nexists>c v. snd (snd x) = Accept c v"
    and votes: "\<And>a c. vote P a c \<Longrightarrow> \<exists>v. offer S c v"
  have no: "(dst, a, Accept c v) \<notin># P" for dst a c v using quiet [of "(dst, a, Accept c v)"] by auto
  then have "\<not> offer P c v" for c v by (simp add: offer_def)
  with off votes no show ?thesis
    unfolding offers_ok_def hist_union union_iff by (metis safe_at_mono)
qed

lemma step_offers_ok:
  assumes "synod_step nodes ok s s'" and inv: "synod_inv nodes ok s"
  shows "offers_ok nodes ok (s_sent s')"
proof -
  have off: "offers_ok nodes ok (s_sent s)" using inv by (simp add: synod_inv_def)
  show ?thesis
    using assms(1)
  proof cases
    case (promise p q c x v ps)
    show ?thesis
    proof (cases "Suc (length ps) = majority nodes")
      case False
      with promise off show ?thesis by simp
    next
      case maj: True
      have "prop_at nodes ok s' p c v (ps @ [x])"
        unfolding promise(1) by (rule promise_step_prop [OF inv promise(4,5)])
      then obtain as where okv: "ok v" and as: "distinct as" "set as \<subseteq> set nodes"
        "length as = length (ps @ [x])" "\<forall>k < length (ps @ [x]). prm (s_sent s') (as ! k) c ((ps @ [x]) ! k)"
        by (auto simp: prop_at_def)
      then have safe: "safe_at nodes (s_sent s') c (choose_val v (ps @ [x]))"
        unfolding safe_at_def choose_val_def using maj
        by (intro exI [of _ as] exI [of _ "ps @ [x]"]) (auto split: option.split)
      have "ok (choose_val v (ps @ [x]))"
      proof (cases "max_vrnd_vval (ps @ [x])")
        case (Some rw)
        then obtain r w where rw: "max_vrnd_vval (ps @ [x]) = Some (r, w)" by (cases rw) auto
        then have "Some (r, w) \<in> set (ps @ [x])" using max_vrnd_vval_spec [of "ps @ [x]"] by simp
        then obtain k where "k < length (ps @ [x])" "(ps @ [x]) ! k = Some (r, w)"
          by (meson in_set_conv_nth)
        then have "prm (s_sent s') (as ! k) c (Some (r, w))" using as(4) by metis
        then obtain a where "prm (s_sent s) a c (Some (r, w))" using promise maj by auto
        then have "offer (s_sent s) r w" using inv by (auto simp: synod_inv_def promises_ok_def)
        with off rw show ?thesis by (auto simp: offers_ok_def choose_val_def)
      qed (simp add: choose_val_def okv)
      moreover have "s_sent s' = s_sent s + bcast nodes p (Accept c (choose_val v (ps @ [x])))"
        using promise maj by simp
      ultimately show ?thesis using off safe by (auto simp: offers_ok_def safe_at_mono) blast
    qed
  next
    case (accept p q c v)
    have "offer (s_sent s) c v" using infl_sent [OF inv accept(4)] by (auto simp: offer_def)
    with accept off show ?thesis by (auto intro!: offers_ok_quiet)
  next
    case (prepare p q c)
    with offers_ok_quiet [OF off, of "{#(q, p, Promise c (s_vv s p))#}"] show ?thesis by simp
  qed (use off in \<open>auto intro: offers_ok_quiet\<close>)
qed

lemma cnt_recv_le: "cnt P (M - {#x#}) \<le> cnt P M"
  by (rule cnt_mono) simp

lemma cnt_bcast_no_prm:
  "(\<And>c' y. m \<noteq> Promise c' y) \<Longrightarrow> cnt (\<lambda>x. fst x = a \<and> is_prm c (snd x)) (to_node p (bcast nodes src m)) = 0"
  by (cases m) (auto simp: cnt_to_node cnt_bcast)

lemma step_props_ok:
  assumes "synod_step nodes ok s s'" and inv: "synod_inv nodes ok s"
  shows "props_ok nodes ok s'"
  unfolding props_ok_alt
proof (intro allI impI)
  fix p' c' v' ps'
  assume new: "s_props s' p' c' = Some (v', ps')"
  have old: "prop_at nodes ok s p c v ps" if "s_props s p c = Some (v, ps)" for p c v ps
    using inv that by (simp add: synod_inv_def props_ok_alt)
  show "prop_at nodes ok s' p' c' v' ps'"
    using assms(1)
  proof cases
    case (propose p v c)
    show ?thesis
    proof (cases "p' = p \<and> c' = c")
      case True
      with propose new show ?thesis by (simp add: prop_at_def)
    next
      case False
      with propose new have "s_props s p' c' = Some (v', ps')" by (auto split: if_splits)
      from old [OF this] show ?thesis
        by (rule prop_at_mono) (simp_all add: propose cnt_bcast_no_prm)
    qed
  next
    case (promise p q c x v ps)
    show ?thesis
    proof (cases "p' = p \<and> c' = c")
      case True
      with promise new have "v' = v" "ps' = ps @ [x]" by auto
      with True show ?thesis
        unfolding promise(1) by (simp only: promise_step_prop [OF inv promise(4,5)])
    next
      case False
      with promise new have "s_props s p' c' = Some (v', ps')" by (auto split: if_splits)
      from old [OF this] show ?thesis
        by (rule prop_at_mono) (auto simp: promise cnt_bcast_no_prm cnt_recv_le)
    qed
  next
    case (prepare p q c)
    with new have "s_props s p' c' = Some (v', ps')" by simp
    from old [OF this] show ?thesis
    proof (rule prop_at_mono)
      fix a x assume "prm (s_sent s) a c' x"
      moreover have "\<not> prm (s_sent s) p c y" for y
        using inv prepare by (auto simp: synod_inv_def acceptors_ok_def) (meson not_less)
      ultimately have "a \<noteq> p \<or> c' \<noteq> c" by blast
      then show "cnt (\<lambda>x. fst x = a \<and> is_prm c' (snd x)) (s_infl s' p') \<le>
        cnt (\<lambda>x. fst x = a \<and> is_prm c' (snd x)) (s_infl s p')"
        by (auto simp: prepare cnt_recv_le)
    qed (simp add: prepare)
  next
    case (lose x p)
    with new have "s_props s p' c' = Some (v', ps')" by simp
    from old [OF this] show ?thesis
      by (rule prop_at_mono [where P = "{#}"]) (simp_all add: lose cnt_recv_le)
  next
    case (accept p q c v)
    with new have "s_props s p' c' = Some (v', ps')" by simp
    from old [OF this] show ?thesis
      by (rule prop_at_mono) (auto simp: accept cnt_bcast_no_prm cnt_recv_le)
  next
    case (learn p q c)
    with new have "s_props s p' c' = Some (v', ps')" by simp
    from old [OF this] show ?thesis
      by (rule prop_at_mono [where P = "{#}"]) (simp_all add: learn cnt_recv_le)
  qed (use new old in \<open>auto simp: prop_at_def split: if_splits\<close>)
qed

lemma synod_inv_init: "synod_inv nodes ok synod_init"
  by (simp add: synod_inv_def synod_init_def net_ok_def acceptors_ok_def promises_ok_def once_ok_def
      budget_ok_def budget_at_def pending_def props_ok_def votes_ok_def votes_at_def counts_ok_def counts_at_def
      learned_ok_def offers_ok_def)

lemma synod_inv_step:
  assumes "synod_step nodes ok s s'" and "synod_inv nodes ok s" and "distinct nodes" and "nodes \<noteq> []"
  shows "synod_inv nodes ok s'"
  unfolding synod_inv_def
  using step_net_ok [OF assms(1,2)] step_acceptors_ok [OF assms(1,2,4)] step_promises_ok [OF assms(1,2)]
    step_once_ok [OF assms(1,2)] step_budget_ok [OF assms(1-3)] step_props_ok [OF assms(1,2)]
    step_votes_ok [OF assms(1-3)] step_counts_ok [OF assms(1,2)] step_learned_ok [OF assms(1,2,4)]
    step_offers_ok [OF assms(1,2)]
  by blast

lemma synod_inv_steps:
  assumes "(synod_step nodes ok)\<^sup>*\<^sup>* s s'" and "synod_inv nodes ok s" and "distinct nodes" and "nodes \<noteq> []"
  shows "synod_inv nodes ok s'"
  using assms by (induction rule: rtranclp_induct) (auto intro: synod_inv_step)

lemma synod_sent_mono: "synod_step nodes ok s s' \<Longrightarrow> \<exists>P. s_sent s' = s_sent s + P"
  by (induction rule: synod_step.induct) (auto intro: exI [of _ "{#}"])

end
