(* ===== verification/Paxos_System.thy ===== *)
theory Paxos_System
  imports Synod_Safety
begin

text \<open>
  A group of drivers on a network that may delay, reorder and lose messages but delivers each
  at most once. The state holds the driver of every node, the packets under way, all packets
  ever sent (a history the steps never read) and the log entries delivered at every node. The
  configuration of the group is fixed: the users insert bundles, no reconfigurations. At every
  log index the group runs the protocol of \<open>Synod\<close> (\<open>synod_of\<close> reads its state off
  the system), so the invariant of that protocol holds at every index, and the delivered
  logs agree.
\<close>

section \<open>The system\<close>

type_synonym 'b packet = "endpoint_id \<times> 'b paxos_driver_message"

record 'b paxos_sys =
  drv :: "endpoint_id \<Rightarrow> 'b paxos_driver"
  net :: "'b packet list"
  sent :: "'b packet list"
  delivered :: "endpoint_id \<Rightarrow> 'b pl_entry list"

fun sends :: "'b paxos_effect list \<Rightarrow> 'b packet list" where
  "sends [] = []"
| "sends (Send eid m # out) = (eid, m) # sends out"
| "sends (Defer t e # out) = sends out"

definition node_result ::
  "endpoint_id \<Rightarrow> 'b paxos_effect list \<times> 'b pl_entry list \<times> 'b paxos_driver \<Rightarrow> 'b paxos_sys \<Rightarrow> 'b paxos_sys" where
  "node_result p res s =
     (case res of
        (out, es, d) \<Rightarrow>
          s\<lparr>drv := (drv s)(p := d), net := net s @ sends out, sent := sent s @ sends out,
            delivered := (delivered s)(p := delivered s p @ es)\<rparr>)"

datatype 'b sys_action =
    Deliver nat
  | Drop nat
  | Timer endpoint_id nat paxos_timer_event
  | Insert endpoint_id nat uuid 'b

definition sys_init :: "endpoint_id list \<Rightarrow> paxos_config \<Rightarrow> 'b paxos_sys option" where
  "sys_init nodes config =
     map_option (\<lambda>d. \<lparr>drv = \<lambda>_. d, net = [], sent = [], delivered = \<lambda>_. []\<rparr>)
       (create_initial nodes config)"

text \<open>A handler that panics leaves no successor state.\<close>

fun sys_step :: "endpoint_id list \<Rightarrow> 'b paxos_sys \<Rightarrow> 'b sys_action \<Rightarrow> 'b paxos_sys option" where
  "sys_step nodes s (Deliver k) =
     (if k < length (net s) \<and> fst (net s ! k) \<in> set nodes then
        (case net s ! k of
           (p, m) \<Rightarrow>
             map_option (\<lambda>res. node_result p res (s\<lparr>net := take k (net s) @ drop (Suc k) (net s)\<rparr>))
               (handle_paxos_message p (drv s p) m))
      else None)"
| "sys_step nodes s (Drop k) =
     (if k < length (net s) then Some (s\<lparr>net := take k (net s) @ drop (Suc k) (net s)\<rparr>) else None)"
| "sys_step nodes s (Timer p r e) =
     (if p \<in> set nodes then
        map_option (\<lambda>(out, d). node_result p (out, [], d) s) (timer_event p r (drv s p) e)
      else None)"
| "sys_step nodes s (Insert p r u b) =
     (if p \<in> set nodes then
        map_option (\<lambda>(out, d). node_result p (out, [], d) s)
          (insert_bundle p r u (drv s p) (User_Bundle b))
      else None)"

inductive sys_reach :: "endpoint_id list \<Rightarrow> paxos_config \<Rightarrow> 'b paxos_sys \<Rightarrow> bool" for nodes config where
  reach_init: "sys_init nodes config = Some s \<Longrightarrow> sys_reach nodes config s"
| reach_step: "sys_reach nodes config s \<Longrightarrow> sys_step nodes s a = Some s' \<Longrightarrow> sys_reach nodes config s'"

fun sys_run :: "endpoint_id list \<Rightarrow> 'b paxos_sys \<Rightarrow> 'b sys_action list \<Rightarrow> 'b paxos_sys option" where
  "sys_run nodes s [] = Some s"
| "sys_run nodes s (a # as) = Option.bind (sys_step nodes s a) (\<lambda>s'. sys_run nodes s' as)"

lemma sys_run_reach: "sys_reach nodes config s \<Longrightarrow> sys_run nodes s as = Some s' \<Longrightarrow> sys_reach nodes config s'"
  by (induction as arbitrary: s) (auto simp: bind_eq_Some_conv intro: reach_step)

section \<open>The protocol state at an index\<close>

fun packet_at :: "pl_index \<Rightarrow> 'b packet \<Rightarrow> (endpoint_id \<times> endpoint_id \<times> 'b pl_entry paxos_message) list" where
  "packet_at i (dst, DM_MultiPaxosMessage multi) =
     (if mp_index multi = i then [(dst, mp_sender multi, mp_message multi)] else [])"
| "packet_at i _ = []"

definition at_index :: "pl_index \<Rightarrow> 'b packet list \<Rightarrow> (endpoint_id, 'b pl_entry) packets" where
  "at_index i ps = mset (concat (map (packet_at i) ps))"

definition buffered_at :: "pl_index \<Rightarrow> 'b paxos_driver \<Rightarrow> (endpoint_id \<times> 'b pl_entry paxos_message) multiset" where
  "buffered_at i d =
     mset (map (\<lambda>multi. (mp_sender multi, mp_message multi))
       (filter (\<lambda>multi. mp_index multi = i) (concat (map snd (buffered_messages d)))))"

definition inst_at :: "'b paxos_driver \<Rightarrow> pl_index \<Rightarrow> 'b paxos_instance" where
  "inst_at d i =
     (case bm_get (paxos_instances d) i of
        Some entry \<Rightarrow> (case inst entry of Some x \<Rightarrow> x | None \<Rightarrow> paxos_instance_new)
      | None \<Rightarrow> paxos_instance_new)"

definition props_of :: "'b paxos_instance \<Rightarrow> rnd \<Rightarrow> ('b pl_entry \<times> (rnd \<times> 'b pl_entry) option list) option" where
  "props_of x c = map_option (\<lambda>pr. (pr_cval pr, pr_promises pr)) (bm_get (proposals (proposer x)) c)"

definition count_of :: "'b paxos_instance \<Rightarrow> rnd \<Rightarrow> nat" where
  "count_of x c = (case bm_get (learned (learner x)) c of Some n \<Rightarrow> n | None \<Rightarrow> 0)"

definition synced_vals :: "pl_index \<Rightarrow> 'b packet list \<Rightarrow> (rnd \<times> 'b pl_entry) set" where
  "synced_vals i ps = {(r, v). \<exists>dst vals. (dst, DM_LogSyncResponse vals) \<in> set ps \<and> (i, r, v) \<in> set vals}"

definition synced_rnds :: "pl_index \<Rightarrow> 'b packet list \<Rightarrow> rnd set" where
  "synced_rnds i ps = {r. \<exists>dst q sl. (dst, DM_InformLearned q sl) \<in> set ps \<and> bm_get sl i = Some r}"

definition synod_of ::
  "pl_index \<Rightarrow> (endpoint_id \<Rightarrow> 'b paxos_driver) \<Rightarrow> 'b packet list \<Rightarrow> 'b packet list
    \<Rightarrow> (endpoint_id, 'b pl_entry) synod" where
  "synod_of i D N H =
     \<lparr>s_rnd = \<lambda>p. acc_rnd (acceptor (inst_at (D p) i)),
      s_vv = \<lambda>p. vrnd_vval (acceptor (inst_at (D p) i)),
      s_props = \<lambda>p. props_of (inst_at (D p) i),
      s_cnt = \<lambda>p. count_of (inst_at (D p) i),
      s_lvr = \<lambda>p. learned_vrnd (learner (inst_at (D p) i)),
      s_lrv = \<lambda>p. learned_at (D p) i,
      s_alive = \<lambda>p. min_complete_index (D p) \<le> i,
      s_infl = \<lambda>p. to_node p (at_index i N) + buffered_at i (D p),
      s_sent = at_index i H,
      s_syncv = synced_vals i H,
      s_syncr = synced_rnds i H\<rparr>"

lemma synod_of_sel [simp]:
  "s_rnd (synod_of i D N H) p = acc_rnd (acceptor (inst_at (D p) i))"
  "s_vv (synod_of i D N H) p = vrnd_vval (acceptor (inst_at (D p) i))"
  "s_props (synod_of i D N H) p = props_of (inst_at (D p) i)"
  "s_cnt (synod_of i D N H) p = count_of (inst_at (D p) i)"
  "s_lvr (synod_of i D N H) p = learned_vrnd (learner (inst_at (D p) i))"
  "s_lrv (synod_of i D N H) p = learned_at (D p) i"
  "s_alive (synod_of i D N H) p = (min_complete_index (D p) \<le> i)"
  "s_infl (synod_of i D N H) p = to_node p (at_index i N) + buffered_at i (D p)"
  "s_sent (synod_of i D N H) = at_index i H"
  "s_syncv (synod_of i D N H) = synced_vals i H"
  "s_syncr (synod_of i D N H) = synced_rnds i H"
  by (simp_all add: synod_of_def)

lemma at_index_simps [simp]:
  "at_index i [] = {#}"
  "at_index i (x # ps) = mset (packet_at i x) + at_index i ps"
  "at_index i (ps @ qs) = at_index i ps + at_index i qs"
  by (simp_all add: at_index_def)

lemma synced_simps [simp]:
  "synced_vals i (ps @ qs) = synced_vals i ps \<union> synced_vals i qs"
  "synced_rnds i (ps @ qs) = synced_rnds i ps \<union> synced_rnds i qs"
  "synced_vals i [] = {}" "synced_rnds i [] = {}"
  by (auto simp: synced_vals_def synced_rnds_def)

lemma sends_append [simp]: "sends (out @ out') = sends out @ sends out'"
  by (induction out rule: sends.induct) auto

lemma sends_send_all [simp]: "sends (send_all eids m) = map (\<lambda>eid. (eid, m)) eids"
  by (induction eids) (simp_all add: send_all_def)

lemma at_index_bcast:
  "at_index i (map (\<lambda>eid. (eid, DM_MultiPaxosMessage (Multi p ns j m))) eids) =
     (if i = j then bcast eids p m else {#})"
  by (induction eids) auto

text \<open>Packets that tell nothing of what has been learned.\<close>

definition no_sync :: "'b packet list \<Rightarrow> bool" where
  "no_sync ps \<longleftrightarrow> (\<forall>i. synced_vals i ps = {} \<and> synced_rnds i ps = {})"

section \<open>What the handlers change of a node\<close>

lemma min_complete_le:
  "k \<le> min_complete_index d \<longleftrightarrow> k \<le> next_index d \<and> (\<forall>r \<in> snd ` set (remote_next_indices d). k \<le> r)"
proof -
  have "k \<le> fold (\<lambda>(_, r) m. min m r) rs a \<longleftrightarrow> k \<le> a \<and> (\<forall>r \<in> snd ` set rs. k \<le> r)"
    for rs :: "(endpoint_id \<times> nat) list" and a k :: nat
    by (induction rs arbitrary: a) auto
  then show ?thesis by (simp add: min_complete_index_def)
qed

lemma min_complete_next: "min_complete_index d \<le> next_index d"
  using min_complete_le [of "min_complete_index d" d] by simp

lemma ensure_instance_views:
  "ensure_instance d j = (entry, x) \<Longrightarrow> x = inst_at d j \<and> learned_rnd_val entry = learned_at d j"
  by (auto simp: ensure_instance_def inst_at_def learned_at_def split: option.splits)

lemma put_instance_views [simp]:
  "inst_at (put_instance d j entry x) i = (if i = j then x else inst_at d i)"
  "learned_at (put_instance d j entry x) i = (if i = j then learned_rnd_val entry else learned_at d i)"
  "min_complete_index (put_instance d j entry x) = min_complete_index d"
  "buffered_at i (put_instance d j entry x) = buffered_at i d"
  "next_insert (put_instance d j entry x) = next_insert d"
  by (auto simp: put_instance_def inst_at_def learned_at_def min_complete_index_def buffered_at_def)

lemma buffered_at_buffer:
  "buffered_at i (buffer_message d multi) =
     (if mp_index multi = i then add_mset (mp_sender multi, mp_message multi) (buffered_at i d)
      else buffered_at i d)"
proof -
  have ins: "mset (concat (map snd (bm_insert k [x] m))) = add_mset x (mset (concat (map snd m)))"
    if "bm_get m k = None" for k :: nat and x :: "'a multi_paxos_message" and m
    using that by (induction m) (auto split: if_splits)
  have upd: "mset (concat (map snd (bm_modify k (\<lambda>v. v @ [x]) m))) = add_mset x (mset (concat (map snd m)))"
    if "bm_get m k = Some w" for k :: nat and x :: "'a multi_paxos_message" and w m
    using that by (induction m) (auto split: if_splits)
  have "mset (concat (map snd (buffered_messages (buffer_message d multi)))) =
      add_mset multi (mset (concat (map snd (buffered_messages d))))"
    by (auto simp: buffer_message_def ins upd split: option.split)
  then show ?thesis
    unfolding buffered_at_def mset_map mset_filter by simp
qed

lemma buffer_message_views [simp]:
  "inst_at (buffer_message d multi) = inst_at d" "learned_at (buffer_message d multi) = learned_at d"
  "min_complete_index (buffer_message d multi) = min_complete_index d"
  "paxos_nodes (buffer_message d multi) = paxos_nodes d" "next_index (buffer_message d multi) = next_index d"
  "next_insert (buffer_message d multi) = next_insert d"
  by (auto simp: buffer_message_def inst_at_def learned_at_def min_complete_index_def fun_eq_iff)

section \<open>The invariant of the system\<close>

text \<open>Entries of a fixed configuration, with bundles of which \<open>B\<close> holds.\<close>

definition plain :: "('b \<Rightarrow> bool) \<Rightarrow> 'b pl_entry \<Rightarrow> bool" where
  "plain B v \<longleftrightarrow> (case v of PL_Bundle b \<Rightarrow> B b | PL_ReconfigBundle _ \<Rightarrow> False | PL_LeaderChanged _ \<Rightarrow> True)"

definition driver_ok :: "endpoint_id list \<Rightarrow> ('b \<Rightarrow> bool) \<Rightarrow> 'b paxos_driver \<Rightarrow> bool" where
  "driver_ok nodes B d \<longleftrightarrow>
     paxos_nodes d = nodes \<and>
     (\<forall>i c pr. bm_get (proposals (proposer (inst_at d i))) c = Some pr \<longrightarrow> pr_crnd pr = c) \<and>
     (\<forall>u e. next_insert d = Some (u, e) \<longrightarrow> plain B (user_convert e))"

definition log_ok :: "endpoint_id list \<Rightarrow> 'b packet list \<Rightarrow> 'b paxos_driver \<Rightarrow> 'b pl_entry list \<Rightarrow> bool" where
  "log_ok nodes H d lg \<longleftrightarrow>
     length lg = next_index d \<and> (\<forall>k < length lg. \<exists>r. chosen nodes (at_index k H) r (lg ! k))"

text \<open>
  A packet under way has been sent; for Paxos messages, which may wait in the buffers of a
  node, the invariant at their index says so.
\<close>

definition net_sent :: "'b packet list \<Rightarrow> 'b packet list \<Rightarrow> bool" where
  "net_sent N H \<longleftrightarrow> (\<forall>x \<in> set N. (\<forall>multi. snd x \<noteq> DM_MultiPaxosMessage multi) \<longrightarrow> x \<in> set H)"

lemma net_sent_simps [simp]:
  "net_sent ((p, DM_MultiPaxosMessage multi) # N) H = net_sent N H"
  "net_sent N H \<Longrightarrow> net_sent (N @ P) (H @ P)"
  "net_sent (x # N) H \<Longrightarrow> net_sent N H"
  by (auto simp: net_sent_def)

definition sys_ok ::
  "endpoint_id list \<Rightarrow> ('b \<Rightarrow> bool) \<Rightarrow> (endpoint_id \<Rightarrow> 'b paxos_driver) \<Rightarrow> 'b packet list \<Rightarrow> 'b packet list
    \<Rightarrow> (endpoint_id \<Rightarrow> 'b pl_entry list) \<Rightarrow> bool" where
  "sys_ok nodes B D N H L \<longleftrightarrow>
     distinct nodes \<and> nodes \<noteq> [] \<and>
     (\<forall>p \<in> set nodes. driver_ok nodes B (D p) \<and> log_ok nodes H (D p) (L p)) \<and>
     net_sent N H \<and> (\<forall>i. (synod_step nodes (plain B))\<^sup>*\<^sup>* synod_init (synod_of i D N H))"

lemma sys_ok_inv: "sys_ok nodes B D N H L \<Longrightarrow> synod_inv nodes (plain B) (synod_of i D N H)"
  unfolding sys_ok_def by (blast intro: synod_inv_steps synod_inv_init)

lemma log_ok_mono: "log_ok nodes H d lg \<Longrightarrow> log_ok nodes (H @ P) d lg"
  unfolding log_ok_def at_index_simps by (blast intro: chosen_mono)

lemma log_ok_next: "next_index d' = next_index d \<Longrightarrow> log_ok nodes H d' lg = log_ok nodes H d lg"
  by (simp add: log_ok_def)

text \<open>
  Whatever moves the protocol of every index by steps of \<open>Synod\<close> and keeps the driver of the
  one node it changes keeps the invariant.
\<close>

lemma sys_ok_advance:
  assumes ok: "sys_ok nodes B (D(p := d)) N H L" and p: "p \<in> set nodes"
    and drv: "driver_ok nodes B d'" and nxt: "next_index d' = next_index d"
    and N': "net_sent N' (H @ P)"
    and sim: "\<And>i. (synod_step nodes (plain B))\<^sup>*\<^sup>* (synod_of i (D(p := d)) N H) (synod_of i (D(p := d')) N' (H @ P))"
  shows "sys_ok nodes B (D(p := d')) N' (H @ P) L"
  unfolding sys_ok_def
proof (intro conjI ballI allI)
  fix q assume "q \<in> set nodes"
  then show "driver_ok nodes B ((D(p := d')) q)" using ok drv by (auto simp: sys_ok_def)
  show "log_ok nodes (H @ P) ((D(p := d')) q) (L q)"
    using ok \<open>q \<in> set nodes\<close> log_ok_next [OF nxt] by (auto simp: sys_ok_def intro!: log_ok_mono)
next
  fix i
  show "(synod_step nodes (plain B))\<^sup>*\<^sup>* synod_init (synod_of i (D(p := d')) N' (H @ P))"
    using sim ok unfolding sys_ok_def by (blast intro: rtranclp_trans)
qed (use ok N' in \<open>auto simp: sys_ok_def\<close>)

text \<open>Views that stay and indices that become complete.\<close>

lemma sim_views:
  assumes "inst_at d' i = inst_at d i" and "learned_at d' i = learned_at d i"
    and "buffered_at i d' = buffered_at i d" and "min_complete_index d \<le> min_complete_index d'"
  shows "(synod_step nodes ok)\<^sup>*\<^sup>* (synod_of i (D(p := d)) N H) (synod_of i (D(p := d')) N H)"
proof -
  let ?S = "synod_of i (D(p := d)) N H" and ?S' = "synod_of i (D(p := d')) N H"
  show ?thesis
  proof (cases "min_complete_index d' \<le> i \<longleftrightarrow> min_complete_index d \<le> i")
    case True
    then have "?S' = ?S"
      using assms by (intro synod.equality) (auto simp: synod_of_def fun_eq_iff)
    then show ?thesis by simp
  next
    case False
    then have "?S' = ?S\<lparr>s_alive := (s_alive ?S)(p := False)\<rparr>"
      using assms by (intro synod.equality) (auto simp: synod_of_def fun_eq_iff)
    then show ?thesis by (metis complete r_into_rtranclp)
  qed
qed

section \<open>Delivering\<close>

lemma learned_plain:
  assumes "sys_ok nodes B D N H L" and "learned_at (D p) i = Some (r, v)"
  shows "chosen nodes (at_index i H) r v \<and> plain B v"
proof -
  have "synod_inv nodes (plain B) (synod_of i D N H)" using sys_ok_inv [OF assms(1)] .
  with assms(2) have "chosen nodes (at_index i H) r v"
    by (fastforce simp: synod_inv_def learned_ok_def)
  with \<open>synod_inv nodes (plain B) (synod_of i D N H)\<close> show ?thesis
    by (auto simp: synod_inv_def offers_ok_def chosen_def)
qed

lemma process_entry_plain:
  "plain B v \<Longrightarrow> paxos_nodes (process_entry v d) = paxos_nodes d \<and>
     remote_next_indices (process_entry v d) = remote_next_indices d"
  by (cases v) (auto simp: plain_def)

lemma views_cong:
  "paxos_instances d' = paxos_instances d \<Longrightarrow> inst_at d' = inst_at d \<and> learned_at d' = learned_at d"
  by (simp add: inst_at_def learned_at_def fun_eq_iff)

lemma sys_ok_deliver_one:
  assumes ok: "sys_ok nodes B (D(p := d)) N H L" and p: "p \<in> set nodes"
    and learned: "learned_at d (next_index d) = Some (r, v)"
  defines "d' \<equiv> process_entry v (d\<lparr>next_index := next_index d + 1\<rparr>)"
  shows "sys_ok nodes B (D(p := d')) N H (L(p := L p @ [v]))"
proof -
  have v: "chosen nodes (at_index (next_index d) H) r v" "plain B v"
    using learned_plain [OF ok, of p "next_index d" r v] learned by auto
  have d': "paxos_instances d' = paxos_instances d" "next_index d' = Suc (next_index d)"
    "buffered_messages d' = buffered_messages d" "paxos_nodes d' = paxos_nodes d"
    "remote_next_indices d' = remote_next_indices d" "next_insert d' = next_insert d"
    using process_entry_plain [OF v(2)] by (simp_all add: d'_def)
  have views: "inst_at d' = inst_at d" "learned_at d' = learned_at d" using views_cong [OF d'(1)] by auto
  have "min_complete_index d \<le> min_complete_index d'"
    using min_complete_le [of "min_complete_index d" d] min_complete_le [of "min_complete_index d" d']
    by (auto simp: d')
  then have sim: "(synod_step nodes (plain B))\<^sup>*\<^sup>* (synod_of i (D(p := d)) N H) (synod_of i (D(p := d')) N H)" for i
    by (intro sim_views) (auto simp: views buffered_at_def d')
  show ?thesis
    unfolding sys_ok_def
  proof (intro conjI ballI allI)
    fix q assume q: "q \<in> set nodes"
    show "driver_ok nodes B ((D(p := d')) q)"
      using ok q p by (auto simp: sys_ok_def driver_ok_def views d')
    have "log_ok nodes H d' (L p @ [v])" if "log_ok nodes H d (L p)"
      using that v(1) by (auto simp: log_ok_def d' nth_append less_Suc_eq)
    then show "log_ok nodes H ((D(p := d')) q) ((L(p := L p @ [v])) q)"
      using ok q p by (auto simp: sys_ok_def)
  next
    fix i
    show "(synod_step nodes (plain B))\<^sup>*\<^sup>* synod_init (synod_of i (D(p := d')) N H)"
      using sim ok unfolding sys_ok_def by (blast intro: rtranclp_trans)
  qed (use ok in \<open>auto simp: sys_ok_def\<close>)
qed

lemma sys_ok_deliver_loop:
  "sys_ok nodes B (D(p := d)) N H L \<Longrightarrow> p \<in> set nodes \<Longrightarrow> deliver_loop d = (es, d') \<Longrightarrow>
     sys_ok nodes B (D(p := d')) N H (L(p := L p @ es))"
proof (induction d arbitrary: L es d' rule: deliver_loop.induct)
  case (1 d)
  show ?case
  proof (cases "learned_at d (next_index d)")
    case None
    with "1.prems"(3) have "es = []" "d' = d" by (simp_all add: deliver_loop.simps)
    with "1.prems"(1) show ?thesis by simp
  next
    case (Some rv)
    obtain r v where rv: "rv = (r, v)" by fastforce
    let ?d = "process_entry v (d\<lparr>next_index := next_index d + 1\<rparr>)"
    obtain es' where es: "es = v # es'" and rec: "deliver_loop ?d = (es', d')"
      using "1.prems"(3) Some rv by (auto simp: deliver_loop.simps [of d] split: prod.splits)
    have "sys_ok nodes B (D(p := ?d)) N H (L(p := L p @ [v]))"
      using sys_ok_deliver_one [OF "1.prems"(1,2)] Some rv by simp
    from "1.IH" [OF Some rv [symmetric] this "1.prems"(2) rec] show ?thesis
      by (simp only: es fun_upd_upd fun_upd_same append_assoc append_Cons append_Nil)
  qed
qed

lemma sys_ok_deliver:
  assumes "sys_ok nodes B (D(p := d)) N H L" and "p \<in> set nodes" and "deliver_learned_entries d = (es, d')"
  shows "sys_ok nodes B (D(p := d')) N H (L(p := L p @ es))"
proof -
  obtain d1 where d1: "deliver_loop d = (es, d1)" and d': "d' = d1 \<or> d' = d1\<lparr>next_insert := None\<rparr>"
    using assms(3) by (auto simp: deliver_learned_entries_def split: prod.splits if_splits)
  have ok: "sys_ok nodes B (D(p := d1)) N H (L(p := L p @ es))"
    by (rule sys_ok_deliver_loop [OF assms(1,2) d1])
  let ?d = "d1\<lparr>next_insert := None\<rparr>"
  have views: "inst_at ?d = inst_at d1" "learned_at ?d = learned_at d1" using views_cong [of ?d d1] by auto
  have "driver_ok nodes B d1" using ok assms(2) by (auto simp: sys_ok_def)
  then have "sys_ok nodes B (D(p := ?d)) N (H @ []) (L(p := L p @ es))"
    using ok
    by (intro sys_ok_advance [OF ok assms(2)])
      (auto simp: driver_ok_def views sys_ok_def buffered_at_def min_complete_index_def intro!: sim_views)
  with ok d' show ?thesis by auto
qed

section \<open>Handling a Paxos message\<close>

lemma no_sync_simps [simp]:
  "no_sync []" "no_sync [(dst, DM_MultiPaxosMessage multi)]"
  "no_sync (map (\<lambda>eid. (eid, DM_MultiPaxosMessage multi)) eids)"
  by (auto simp: no_sync_def synced_vals_def synced_rnds_def)

text \<open>
  A handler at index \<open>j\<close>: it takes the message, changes the instance and the learned value of
  that index, and sends messages of that index.
\<close>

lemma sys_ok_local:
  assumes ok: "sys_ok nodes B (D(p := d)) ((p, DM_MultiPaxosMessage multi) # N) H L" and p: "p \<in> set nodes"
    and j: "mp_index multi = j"
    and P: "no_sync P" "\<And>i. i \<noteq> j \<Longrightarrow> at_index i P = {#}"
    and d': "d' = put_instance d j entry x"
    and props: "\<And>c pr. bm_get (proposals (proposer x)) c = Some pr \<Longrightarrow> pr_crnd pr = c"
    and sim: "(synod_step nodes (plain B))\<^sup>*\<^sup>* (synod_of j (D(p := d)) ((p, DM_MultiPaxosMessage multi) # N) H)
       (synod_of j (D(p := d')) (N @ P) (H @ P))"
  shows "sys_ok nodes B (D(p := d')) (N @ P) (H @ P) L"
proof (rule sys_ok_advance [OF ok p])
  show "driver_ok nodes B d'" using ok p props by (auto simp: sys_ok_def driver_ok_def d')
  show "net_sent (N @ P) (H @ P)" using ok by (auto simp: sys_ok_def)
  fix i
  show "(synod_step nodes (plain B))\<^sup>*\<^sup>* (synod_of i (D(p := d)) ((p, DM_MultiPaxosMessage multi) # N) H)
    (synod_of i (D(p := d')) (N @ P) (H @ P))"
  proof (cases "i = j")
    case False
    then have "synod_of i (D(p := d')) (N @ P) (H @ P) =
        synod_of i (D(p := d)) ((p, DM_MultiPaxosMessage multi) # N) H"
      using P j by (intro synod.equality) (auto simp: synod_of_def d' no_sync_def fun_eq_iff)
    then show ?thesis by simp
  qed (use sim in simp)
qed (simp add: d')

lemma sim_lose:
  assumes "mp_index multi = j"
  shows "(synod_step nodes ok)\<^sup>*\<^sup>* (synod_of j (D(p := d)) ((p, DM_MultiPaxosMessage multi) # N) H)
    (synod_of j (D(p := d)) N H)"
proof -
  let ?S = "synod_of j (D(p := d)) ((p, DM_MultiPaxosMessage multi) # N) H"
  have "synod_of j (D(p := d)) N H = s_recv p (mp_sender multi, mp_message multi) ?S"
    using assms by (intro synod.equality) (auto simp: synod_of_def s_recv_def fun_eq_iff)
  moreover have "(mp_sender multi, mp_message multi) \<in># s_infl ?S p" using assms by simp
  ultimately show ?thesis by (metis lose r_into_rtranclp)
qed

lemma sys_ok_drop:
  assumes ok: "sys_ok nodes B D ((p, m) # N) H L"
  shows "sys_ok nodes B D N H L"
proof -
  have "(synod_step nodes (plain B))\<^sup>*\<^sup>* (synod_of i D ((p, m) # N) H) (synod_of i D N H)" for i
  proof (cases "\<exists>multi. m = DM_MultiPaxosMessage multi \<and> mp_index multi = i")
    case True
    then show ?thesis using sim_lose [of _ i nodes "plain B" D p "D p" N H] by auto
  next
    case False
    then have "mset (packet_at i (p, m)) = {#}" by (cases m) auto
    then have "synod_of i D ((p, m) # N) H = synod_of i D N H" by (simp add: synod_of_def)
    then show ?thesis by simp
  qed
  then show ?thesis using ok unfolding sys_ok_def by (blast intro: rtranclp_trans net_sent_simps(3))
qed

lemma sys_ok_buffer:
  assumes ok: "sys_ok nodes B (D(p := d)) ((p, DM_MultiPaxosMessage multi) # N) H L" and p: "p \<in> set nodes"
  shows "sys_ok nodes B (D(p := buffer_message d multi)) N H L"
proof -
  have "synod_of i (D(p := buffer_message d multi)) N H =
      synod_of i (D(p := d)) ((p, DM_MultiPaxosMessage multi) # N) H" for i
    by (intro synod.equality) (auto simp: synod_of_def fun_eq_iff buffered_at_buffer)
  with ok p show ?thesis by (auto simp: sys_ok_def driver_ok_def log_ok_def)
qed

lemma sys_ok_prepare:
  assumes ok: "sys_ok nodes B (D(p := d)) ((p, DM_MultiPaxosMessage multi) # N) H L" and p: "p \<in> set nodes"
    and msg: "mp_message multi = Prepare c" and alive: "min_complete_index d \<le> mp_index multi"
    and res: "handle_prepare p d multi c = Some (out, es, d')"
  shows "sys_ok nodes B (D(p := d')) (N @ sends out) (H @ sends out) (L(p := L p @ es))"
proof -
  let ?j = "mp_index multi"
  let ?S = "synod_of ?j (D(p := d)) ((p, DM_MultiPaxosMessage multi) # N) H"
  obtain entry x where e: "ensure_instance d ?j = (entry, x)" by fastforce
  note views = ensure_instance_views [OF e]
  let ?x = "if acc_rnd (acceptor x) < c then x\<lparr>acceptor := (acceptor x)\<lparr>acc_rnd := c\<rparr>\<rparr> else x"
  have es: "es = []" and d': "d' = put_instance d ?j entry ?x"
    using res by (auto simp: handle_prepare_def e Let_def split: if_splits)
  have "sys_ok nodes B (D(p := d')) (N @ sends out) (H @ sends out) L"
  proof (rule sys_ok_local [OF ok p refl _ _ d'])
    show "no_sync (sends out)" "\<And>i. i \<noteq> ?j \<Longrightarrow> at_index i (sends out) = {#}"
      using res by (auto simp: handle_prepare_def e Let_def split: if_splits)
    show "pr_crnd pr = c'" if "bm_get (proposals (proposer ?x)) c' = Some pr" for c' pr
      using ok p that views by (auto simp: sys_ok_def driver_ok_def split: if_splits)
    show "(synod_step nodes (plain B))\<^sup>*\<^sup>* ?S (synod_of ?j (D(p := d')) (N @ sends out) (H @ sends out))"
    proof (cases "acc_rnd (acceptor x) < c")
      case True
      have out: "sends out = [(mp_sender multi, DM_MultiPaxosMessage
          (Multi p (mp_nodes multi) ?j (Promise c (vrnd_vval (acceptor x)))))]"
        using res True by (auto simp: handle_prepare_def e Let_def)
      have "synod_of ?j (D(p := d')) (N @ sends out) (H @ sends out) =
          s_send {#(mp_sender multi, p, Promise c (s_vv ?S p))#}
            (s_recv p (mp_sender multi, Prepare c) (?S\<lparr>s_rnd := (s_rnd ?S)(p := c)\<rparr>))"
        using True views no_sync_simps(2)
        by (intro synod.equality)
          (auto simp: synod_of_def s_send_def s_recv_def no_sync_def out d' msg props_of_def count_of_def
            fun_eq_iff)
      moreover have "synod_step nodes (plain B) ?S
          (s_send {#(mp_sender multi, p, Promise c (s_vv ?S p))#}
            (s_recv p (mp_sender multi, Prepare c) (?S\<lparr>s_rnd := (s_rnd ?S)(p := c)\<rparr>)))"
        using True views alive p msg by (intro synod_step.prepare) auto
      ultimately show ?thesis by (simp only: r_into_rtranclp)
    next
      case False
      have "sends out = []" using res False by (auto simp: handle_prepare_def e Let_def)
      moreover have "synod_of ?j (D(p := d')) N H = synod_of ?j (D(p := d)) N H"
        using False views by (intro synod.equality) (auto simp: synod_of_def d' fun_eq_iff)
      ultimately show ?thesis using sim_lose [of multi ?j] by simp
    qed
  qed
  then show ?thesis by (simp add: es)
qed

lemma sys_ok_driver: "sys_ok nodes B (D(p := d)) N H L \<Longrightarrow> p \<in> set nodes \<Longrightarrow> driver_ok nodes B d"
  by (auto simp: sys_ok_def)

lemma sys_ok_promise:
  assumes ok: "sys_ok nodes B (D(p := d)) ((p, DM_MultiPaxosMessage multi) # N) H L" and p: "p \<in> set nodes"
    and msg: "mp_message multi = Promise c vv" and alive: "min_complete_index d \<le> mp_index multi"
    and res: "handle_promise p d multi c vv = Some (out, es, d')"
  shows "sys_ok nodes B (D(p := d')) (N @ sends out) (H @ sends out) (L(p := L p @ es))"
proof -
  let ?j = "mp_index multi"
  let ?S = "synod_of ?j (D(p := d)) ((p, DM_MultiPaxosMessage multi) # N) H"
  obtain entry x where e: "ensure_instance d ?j = (entry, x)" by fastforce
  note views = ensure_instance_views [OF e]
  have dok: "driver_ok nodes B d" using sys_ok_driver [OF ok p] .
  obtain pr where pr: "bm_get (proposals (proposer x)) c = Some pr"
    using res by (auto simp: handle_promise_def e split: option.splits)
  have crnd: "pr_crnd pr = c" and ns: "paxos_nodes d = nodes"
    using dok pr views by (auto simp: driver_ok_def)
  let ?ps = "pr_promises pr @ [vv]"
  let ?props = "bm_insert c (pr\<lparr>pr_promises := ?ps\<rparr>) (proposals (proposer x))"
  let ?x = "x\<lparr>proposer := (proposer x)\<lparr>proposals := ?props\<rparr>\<rparr>"
  have es: "es = []" and d': "d' = put_instance d ?j entry ?x"
    and out: "at_index i (sends out) =
      (if i = ?j \<and> Suc (length (pr_promises pr)) = majority nodes
       then bcast nodes p (Accept c (choose_val (pr_cval pr) ?ps)) else {#})"
    and sync: "no_sync (sends out)" for i
    using res by (auto simp: handle_promise_def e pr ns crnd Let_def at_index_bcast choose_val_def
        cong: option.case_cong split: if_splits)
  have "sys_ok nodes B (D(p := d')) (N @ sends out) (H @ sends out) L"
  proof (rule sys_ok_local [OF ok p refl sync _ d'])
    show "pr_crnd pr' = c'" if "bm_get (proposals (proposer ?x)) c' = Some pr'" for c' pr'
      using dok that views crnd by (auto simp: driver_ok_def split: if_splits)
    have "props_of ?x = (s_props ?S p)(c := Some (pr_cval pr, ?ps))"
      using views by (auto simp: props_of_def fun_eq_iff)
    then have "synod_of ?j (D(p := d')) (N @ sends out) (H @ sends out) =
        s_send (if Suc (length (pr_promises pr)) = majority nodes
               then bcast nodes p (Accept c (choose_val (pr_cval pr) ?ps)) else {#})
          (s_recv p (mp_sender multi, Promise c vv)
            (?S\<lparr>s_props := (s_props ?S)(p := (s_props ?S p)(c := Some (pr_cval pr, ?ps)))\<rparr>))"
      unfolding d' using views sync
      by (intro synod.equality) (auto simp: synod_of_def s_send_def s_recv_def no_sync_def out msg count_of_def fun_eq_iff)
    moreover have "synod_step nodes (plain B) ?S \<dots>"
      using views alive p msg pr by (intro synod_step.promise) (auto simp: props_of_def)
    ultimately show "(synod_step nodes (plain B))\<^sup>*\<^sup>* ?S (synod_of ?j (D(p := d')) (N @ sends out) (H @ sends out))"
      by (simp only: r_into_rtranclp)
  qed (simp add: out)
  then show ?thesis by (simp add: es)
qed

text \<open>Learning the value at an index, then delivering.\<close>

lemma sys_ok_set_learned:
  assumes ok: "sys_ok nodes B (D(p := d)) N H L" and p: "p \<in> set nodes"
    and step: "\<And>S. S = synod_of j (D(p := d)) N H \<Longrightarrow>
      synod_step nodes (plain B) S (S\<lparr>s_lrv := (s_lrv S)(p := Some rv)\<rparr>)"
    and d': "inst_at d' = inst_at d" "learned_at d' = (learned_at d)(j := Some rv)"
      "buffered_messages d' = buffered_messages d" "next_index d' = next_index d"
      "paxos_nodes d' = paxos_nodes d" "remote_next_indices d' = remote_next_indices d"
      "next_insert d' = next_insert d"
  shows "sys_ok nodes B (D(p := d')) N H L"
proof -
  have "sys_ok nodes B (D(p := d')) N (H @ []) L"
  proof (rule sys_ok_advance [OF ok p])
    show "driver_ok nodes B d'" using sys_ok_driver [OF ok p] d' by (simp add: driver_ok_def)
    fix i
    let ?S = "synod_of i (D(p := d)) N H"
    have "synod_of i (D(p := d')) N H = (if i = j then ?S\<lparr>s_lrv := (s_lrv ?S)(p := Some rv)\<rparr> else ?S)"
      using d'
      by (intro synod.equality)
        (auto simp: synod_of_def fun_eq_iff buffered_at_def min_complete_index_def)
    then show "(synod_step nodes (plain B))\<^sup>*\<^sup>* ?S (synod_of i (D(p := d')) N (H @ []))"
      using step [of ?S] by (auto simp: r_into_rtranclp)
  qed (use ok d' in \<open>auto simp: sys_ok_def\<close>)
  then show ?thesis by simp
qed

lemma sys_ok_learn_value:
  assumes "sys_ok nodes B (D(p := d)) N H L" and "p \<in> set nodes" and "min_complete_index d \<le> j"
    and "learned_vrnd (learner (inst_at d j)) = Some r \<or> r \<in> synced_rnds j H"
    and "vrnd_vval (acceptor (inst_at d j)) = Some (vr, v)" and "r \<le> vr"
    and d': "inst_at d' = inst_at d" "learned_at d' = (learned_at d)(j := Some (r, v))"
      "buffered_messages d' = buffered_messages d" "next_index d' = next_index d"
      "paxos_nodes d' = paxos_nodes d" "remote_next_indices d' = remote_next_indices d"
      "next_insert d' = next_insert d"
  shows "sys_ok nodes B (D(p := d')) N H L"
  using assms(2-) by (intro sys_ok_set_learned [OF assms(1,2) _ d'] synod_step.learn_value [where vr = vr]) auto

lemma sys_ok_sync_value:
  assumes "sys_ok nodes B (D(p := d)) N H L" and "p \<in> set nodes" and "min_complete_index d \<le> j"
    and "rv \<in> synced_vals j H"
    and d': "inst_at d' = inst_at d" "learned_at d' = (learned_at d)(j := Some rv)"
      "buffered_messages d' = buffered_messages d" "next_index d' = next_index d"
      "paxos_nodes d' = paxos_nodes d" "remote_next_indices d' = remote_next_indices d"
      "next_insert d' = next_insert d"
  shows "sys_ok nodes B (D(p := d')) N H L"
  using assms(2-) by (intro sys_ok_set_learned [OF assms(1,2) _ d'] synod_step.sync_value) auto

lemma sys_ok_learn_and_deliver:
  assumes ok: "sys_ok nodes B (D(p := put_instance d j entry x)) N H L" and p: "p \<in> set nodes"
    and alive: "min_complete_index d \<le> j"
    and r: "learned_vrnd (learner x) = Some r" and v: "vrnd_vval (acceptor x) = Some (vr, v)" "r \<le> vr"
    and res: "learn_and_deliver d j entry x (r, v) = (es, d')"
  shows "sys_ok nodes B (D(p := d')) N H (L(p := L p @ es))"
proof -
  let ?d = "put_instance d j (entry\<lparr>learned_rnd_val := Some (r, v)\<rparr>) x"
  have "sys_ok nodes B (D(p := ?d)) N H L"
    by (rule sys_ok_learn_value [OF ok p, where j = j and r = r and vr = vr and v = v])
      (use p alive r v in \<open>auto simp: fun_eq_iff\<close>)
  then show ?thesis using sys_ok_deliver p res by (simp add: learn_and_deliver_def)
qed

lemma sys_ok_accept:
  assumes ok: "sys_ok nodes B (D(p := d)) ((p, DM_MultiPaxosMessage multi) # N) H L" and p: "p \<in> set nodes"
    and msg: "mp_message multi = Accept c v" and alive: "min_complete_index d \<le> mp_index multi"
    and res: "handle_accept p d multi c v = Some (out, es, d')"
  shows "sys_ok nodes B (D(p := d')) (N @ sends out) (H @ sends out) (L(p := L p @ es))"
proof -
  let ?j = "mp_index multi"
  let ?S = "synod_of ?j (D(p := d)) ((p, DM_MultiPaxosMessage multi) # N) H"
  obtain entry x where e: "ensure_instance d ?j = (entry, x)" by fastforce
  note views = ensure_instance_views [OF e]
  have dok: "driver_ok nodes B d" using sys_ok_driver [OF ok p] .
  then have ns: "paxos_nodes d = nodes" by (simp add: driver_ok_def)
  have props: "pr_crnd pr' = c'" if "bm_get (proposals (proposer x)) c' = Some pr'" for c' pr'
    using dok that views by (auto simp: driver_ok_def)
  show ?thesis
  proof (cases "acc_rnd (acceptor x) \<le> c")
    case True
    let ?x = "x\<lparr>acceptor := (acceptor x)\<lparr>acc_rnd := c, vrnd_vval := Some (c, v)\<rparr>\<rparr>"
    let ?d = "put_instance d ?j entry ?x"
    have out: "sends out = map (\<lambda>eid. (eid, DM_MultiPaxosMessage (Multi p (mp_nodes multi) ?j (Learn c)))) nodes"
      and cases: "es = [] \<and> d' = ?d \<or>
        (\<exists>r. learned_vrnd (learner x) = Some r \<and> r \<le> c \<and> learn_and_deliver d ?j entry ?x (r, v) = (es, d'))"
      using res True
      by (auto simp: handle_accept_def e ns Let_def split: if_splits option.splits prod.splits)
    have sync: "no_sync (sends out)" by (simp add: out)
    have sim: "(synod_step nodes (plain B))\<^sup>*\<^sup>* ?S (synod_of ?j (D(p := ?d)) (N @ sends out) (H @ sends out))"
    proof -
      have "synod_of ?j (D(p := ?d)) (N @ sends out) (H @ sends out) =
          s_send (bcast nodes p (Learn c)) (s_recv p (mp_sender multi, Accept c v)
            (?S\<lparr>s_rnd := (s_rnd ?S)(p := c), s_vv := (s_vv ?S)(p := Some (c, v))\<rparr>))"
        using views sync
        by (intro synod.equality)
          (auto simp: synod_of_def s_send_def s_recv_def no_sync_def out at_index_bcast msg
            count_of_def props_of_def fun_eq_iff)
      moreover have "synod_step nodes (plain B) ?S \<dots>"
        using views alive p msg True by (intro synod_step.accept) auto
      ultimately show ?thesis by (simp only: r_into_rtranclp)
    qed
    have "sys_ok nodes B (D(p := ?d)) (N @ sends out) (H @ sends out) L"
      by (rule sys_ok_local [OF ok p refl sync _ refl _ sim]) (auto simp: out at_index_bcast props)
    from cases this sys_ok_learn_and_deliver [OF this p alive] show ?thesis by auto
  next
    case False
    then have "sends out = []" "es = []" and d': "d' = put_instance d ?j entry x"
      using res by (auto simp: handle_accept_def e Let_def)
    have "synod_of ?j (D(p := d')) N H = synod_of ?j (D(p := d)) N H"
      using views by (intro synod.equality) (auto simp: synod_of_def d' fun_eq_iff)
    then have "sys_ok nodes B (D(p := d')) (N @ sends out) (H @ sends out) L"
      using sim_lose [OF refl] \<open>sends out = []\<close>
      by (intro sys_ok_local [OF ok p refl _ _ d']) (auto simp: props)
    then show ?thesis by (simp add: \<open>es = []\<close>)
  qed
qed

lemma sys_ok_learn:
  assumes ok: "sys_ok nodes B (D(p := d)) ((p, DM_MultiPaxosMessage multi) # N) H L" and p: "p \<in> set nodes"
    and msg: "mp_message multi = Learn c" and alive: "min_complete_index d \<le> mp_index multi"
    and res: "handle_learn d multi c = Some (out, es, d')"
  shows "sys_ok nodes B (D(p := d')) (N @ sends out) (H @ sends out) (L(p := L p @ es))"
proof -
  let ?j = "mp_index multi"
  let ?S = "synod_of ?j (D(p := d)) ((p, DM_MultiPaxosMessage multi) # N) H"
  obtain entry x where e: "ensure_instance d ?j = (entry, x)" by fastforce
  note views = ensure_instance_views [OF e]
  have dok: "driver_ok nodes B d" using sys_ok_driver [OF ok p] .
  then have ns: "paxos_nodes d = nodes" by (simp add: driver_ok_def)
  have props: "pr_crnd pr' = c'" if "bm_get (proposals (proposer x)) c' = Some pr'" for c' pr'
    using dok that views by (auto simp: driver_ok_def)
  let ?n = "Suc (count_of x c)"
  let ?lvr = "if ?n = majority nodes
     then Some (case learned_vrnd (learner x) of Some cur \<Rightarrow> if c < cur then c else cur | None \<Rightarrow> c)
     else learned_vrnd (learner x)"
  let ?x = "x\<lparr>learner := \<lparr>learned = bm_insert c ?n (learned (learner x)), learned_vrnd = ?lvr\<rparr>\<rparr>"
  let ?d = "put_instance d ?j entry ?x"
  have step: "l\<lparr>learned := a\<rparr> = \<lparr>learned = a, learned_vrnd = learned_vrnd l\<rparr>" for l :: learner_state and a
    by simp
  have out: "out = []" and cases: "es = [] \<and> d' = ?d \<or>
      (\<exists>r vr v. ?lvr = Some r \<and> vrnd_vval (acceptor x) = Some (vr, v) \<and> r \<le> vr \<and>
         learn_and_deliver d ?j entry ?x (r, v) = (es, d'))"
    using res
    by (auto simp: handle_learn_def e ns Let_def bind_eq_Some_conv unat_checked_def count_of_def step
        split: if_splits option.splits prod.splits)
  have "synod_of ?j (D(p := ?d)) N H =
      s_recv p (mp_sender multi, Learn c)
        (?S\<lparr>s_cnt := (s_cnt ?S)(p := (s_cnt ?S p)(c := Suc (s_cnt ?S p c))),
            s_lvr := (s_lvr ?S)(p :=
              if Suc (s_cnt ?S p c) = majority nodes
              then Some (case s_lvr ?S p of Some cur \<Rightarrow> if c < cur then c else cur | None \<Rightarrow> c)
              else s_lvr ?S p)\<rparr>)"
    using views
    by (intro synod.equality)
      (auto simp: synod_of_def s_recv_def msg count_of_def props_of_def fun_eq_iff)
  moreover have "synod_step nodes (plain B) ?S \<dots>"
    using views alive p msg by (intro synod_step.learn) auto
  ultimately have sim: "(synod_step nodes (plain B))\<^sup>*\<^sup>* ?S (synod_of ?j (D(p := ?d)) (N @ []) (H @ []))"
    by (simp only: r_into_rtranclp append_Nil2)
  have "sys_ok nodes B (D(p := ?d)) (N @ []) (H @ []) L"
    by (rule sys_ok_local [OF ok p refl _ _ refl _ sim]) (auto simp: props)
  then have "sys_ok nodes B (D(p := ?d)) N H L" by simp
  from cases this sys_ok_learn_and_deliver [OF this p alive] show ?thesis by (auto simp: out)
qed

lemma sys_ok_handle_multi:
  assumes ok: "sys_ok nodes B (D(p := d)) ((p, DM_MultiPaxosMessage multi) # N) H L" and p: "p \<in> set nodes"
    and res: "handle_multi p d multi = Some (out, es, d')"
  shows "sys_ok nodes B (D(p := d')) (N @ sends out) (H @ sends out) (L(p := L p @ es))"
proof (cases "is_dropped_prepare d multi \<or> mp_index multi < min_complete_index d")
  case True
  then have "out = []" "es = []" "d' = d" using res by (auto simp: handle_multi_def split: if_splits)
  with sys_ok_drop [OF ok] show ?thesis by simp
next
  case False
  show ?thesis
  proof (cases "next_index d < mp_index multi")
    case True
    with False have "out = []" "es = []" "d' = buffer_message d multi"
      using res by (auto simp: handle_multi_def)
    with sys_ok_buffer [OF ok p] show ?thesis by simp
  next
    case low: False
    with False have alive: "min_complete_index d \<le> mp_index multi" by simp
    from False low res show ?thesis
      by (cases "mp_message multi")
        (auto simp: handle_multi_def intro: sys_ok_prepare [OF ok p _ alive] sys_ok_promise [OF ok p _ alive]
          sys_ok_accept [OF ok p _ alive] sys_ok_learn [OF ok p _ alive])
  qed
qed

section \<open>Buffered messages\<close>

text \<open>A buffered message at the node may as well be under way to it.\<close>

lemma sys_ok_unbuffer:
  assumes ok: "sys_ok nodes B (D(p := d)) N H L" and p: "p \<in> set nodes"
    and buf: "buffered_messages d = (index, multi # messages) # rest"
  shows "sys_ok nodes B (D(p := d\<lparr>buffered_messages := (index, messages) # rest\<rparr>))
    ((p, DM_MultiPaxosMessage multi) # N) H L"
proof -
  let ?d = "d\<lparr>buffered_messages := (index, messages) # rest\<rparr>"
  have views: "inst_at ?d = inst_at d" "learned_at ?d = learned_at d" using views_cong [of ?d d] by auto
  have "synod_of i (D(p := ?d)) ((p, DM_MultiPaxosMessage multi) # N) H = synod_of i (D(p := d)) N H" for i
    by (intro synod.equality)
      (auto simp: synod_of_def views buffered_at_def buf min_complete_index_def fun_eq_iff)
  with ok p show ?thesis by (auto simp: sys_ok_def driver_ok_def log_ok_def views)
qed

lemma lose_many:
  "s_infl s p = M + X \<Longrightarrow> (synod_step nodes ok)\<^sup>*\<^sup>* s (s\<lparr>s_infl := (s_infl s)(p := M)\<rparr>)"
proof (induction X arbitrary: s)
  case empty
  then have "s\<lparr>s_infl := (s_infl s)(p := M)\<rparr> = s" by (simp add: fun_upd_idem)
  then show ?case by (simp only: rtranclp.rtrancl_refl)
next
  case (add x X)
  then have step: "synod_step nodes ok s (s_recv p x s)" by (intro synod_step.lose) simp
  have "(synod_step nodes ok)\<^sup>*\<^sup>* (s_recv p x s)
      ((s_recv p x s)\<lparr>s_infl := (s_infl (s_recv p x s))(p := M)\<rparr>)"
    by (rule add.IH) (simp add: add.prems)
  moreover have "(s_recv p x s)\<lparr>s_infl := (s_infl (s_recv p x s))(p := M)\<rparr> = s\<lparr>s_infl := (s_infl s)(p := M)\<rparr>"
    by (simp add: s_recv_def)
  ultimately show ?case using step by (simp only: converse_rtranclp_into_rtranclp)
qed

lemma sys_ok_forget:
  assumes ok: "sys_ok nodes B (D(p := d)) N H L" and p: "p \<in> set nodes"
  shows "sys_ok nodes B (D(p := d\<lparr>buffered_messages := filter P (buffered_messages d)\<rparr>)) N H L"
proof -
  let ?d = "d\<lparr>buffered_messages := filter P (buffered_messages d)\<rparr>"
  have views: "inst_at ?d = inst_at d" "learned_at ?d = learned_at d" using views_cong [of ?d d] by auto
  have "sys_ok nodes B (D(p := ?d)) N (H @ []) L"
  proof (rule sys_ok_advance [OF ok p])
    show "driver_ok nodes B ?d" using sys_ok_driver [OF ok p] by (simp add: driver_ok_def views)
    fix i
    let ?S = "synod_of i (D(p := d)) N H"
    obtain X where X: "buffered_at i d = buffered_at i ?d + X"
    proof -
      have "mset (concat (map snd (filter P bs))) \<subseteq># mset (concat (map snd bs))"
        for bs :: "(nat \<times> 'a multi_paxos_message list) list"
        by (induction bs) (auto intro: subset_mset.add_mono subset_mset.add_increasing)
      then have "buffered_at i ?d \<subseteq># buffered_at i d"
        unfolding buffered_at_def mset_map mset_filter
        by (auto intro!: image_mset_subseteq_mono multiset_filter_mono)
      then show ?thesis using that by (auto simp: mset_subset_eq_exists_conv)
    qed
    have "(synod_step nodes (plain B))\<^sup>*\<^sup>* ?S (?S\<lparr>s_infl := (s_infl ?S)(p := to_node p (at_index i N) + buffered_at i ?d)\<rparr>)"
      by (rule lose_many [where X = X]) (simp add: X)
    moreover have "synod_of i (D(p := ?d)) N (H @ []) =
        ?S\<lparr>s_infl := (s_infl ?S)(p := to_node p (at_index i N) + buffered_at i ?d)\<rparr>"
      by (intro synod.equality) (auto simp: synod_of_def views min_complete_index_def fun_eq_iff)
    ultimately show "(synod_step nodes (plain B))\<^sup>*\<^sup>* ?S (synod_of i (D(p := ?d)) N (H @ []))" by (simp only:)
  qed (use ok in \<open>auto simp: sys_ok_def\<close>)
  then show ?thesis by simp
qed

lemma sys_ok_buffered:
  "sys_ok nodes B (D(p := d)) N H L \<Longrightarrow> p \<in> set nodes \<Longrightarrow> handle_buffered_messages p d = Some (out, es, d') \<Longrightarrow>
     sys_ok nodes B (D(p := d')) (N @ sends out) (H @ sends out) (L(p := L p @ es))"
proof (induction p d arbitrary: N H L out es d' rule: handle_buffered_messages.induct)
  case (1 p d)
  show ?case
  proof (cases "\<exists>index messages rest. buffered_messages d = (index, messages) # rest \<and> index \<le> next_index d")
    case False
    then have "out = []" "es = []" "d' = d"
      using "1.prems"(3) by (auto simp: handle_buffered_messages.simps [of p d] split: list.splits)
    with "1.prems"(1) show ?thesis by simp
  next
    case True
    then obtain index messages rest where
      buf: "buffered_messages d = (index, messages) # rest" and low: "index \<le> next_index d" by blast
    show ?thesis
    proof (cases messages)
      case Nil
      have "handle_buffered_messages p (d\<lparr>buffered_messages := bm_remove index (buffered_messages d)\<rparr>) =
          Some (out, es, d')"
        using "1.prems"(3) buf low Nil by (simp add: handle_buffered_messages.simps [of p d])
      from "1.IH"(1) [OF buf refl low Nil _ "1.prems"(2) this, of N H L] sys_ok_forget [OF "1.prems"(1,2)]
      show ?thesis by (simp only: bm_remove_def)
    next
      case (Cons multi messages')
      let ?d = "d\<lparr>buffered_messages := (index, messages') # rest\<rparr>"
      obtain out1 es1 d1 out2 es2 where
        step: "handle_multi p ?d multi = Some (out1, es1, d1)" and
        rec: "handle_buffered_messages p d1 = Some (out2, es2, d')" and
        res: "out = out1 @ out2" "es = es1 @ es2"
        using "1.prems"(3) buf low Cons
        by (auto simp: handle_buffered_messages.simps [of p d] bind_eq_Some_conv)
      have "sys_ok nodes B (D(p := ?d)) ((p, DM_MultiPaxosMessage multi) # N) H L"
        using sys_ok_unbuffer [OF "1.prems"(1,2)] buf Cons by simp
      from sys_ok_handle_multi [OF this "1.prems"(2) step]
      have "sys_ok nodes B (D(p := d1)) (N @ sends out1) (H @ sends out1) (L(p := L p @ es1))" .
      from "1.IH"(2) [OF buf refl low Cons step refl refl this "1.prems"(2) rec] show ?thesis
        by (simp only: res sends_append append_assoc fun_upd_upd fun_upd_same)
    qed
  qed
qed

section \<open>Telling what has been learned\<close>

text \<open>
  Packets that belong to no instance and carry only learned values and rounds of the node may
  be sent at any time.
\<close>

definition tells_learned :: "'b paxos_driver \<Rightarrow> 'b packet list \<Rightarrow> bool" where
  "tells_learned d P \<longleftrightarrow>
     (\<forall>i. at_index i P = {#} \<and> synced_vals i P \<subseteq> {rv. learned_at d i = Some rv} \<and>
        synced_rnds i P \<subseteq> {r. \<exists>v. learned_at d i = Some (r, v)})"

lemma sim_tell:
  assumes "tells_learned (D p) P"
  shows "(synod_step nodes ok)\<^sup>*\<^sup>* (synod_of i D N H) (synod_of i D (N @ P) (H @ P))"
proof -
  let ?S = "synod_of i D N H"
  let ?T = "?S\<lparr>s_syncv := s_syncv ?S \<union> synced_vals i P\<rparr>"
  have vals: "(synod_step nodes ok)\<^sup>*\<^sup>* ?S ?T"
  proof (cases "synced_vals i P = {}")
    case False
    have sub: "synced_vals i P \<subseteq> {rv. learned_at (D p) i = Some rv}"
      using assms by (simp add: tells_learned_def)
    with False obtain r v where rv: "learned_at (D p) i = Some (r, v)" by fastforce
    with sub False have rv': "synced_vals i P = {(r, v)}" by auto
    have "synod_step nodes ok ?S (?S\<lparr>s_syncv := insert (r, v) (s_syncv ?S)\<rparr>)"
      using rv by (intro synod_step.tell_value) simp
    then show ?thesis by (simp only: rv' Un_insert_right Un_empty_right r_into_rtranclp)
  next
    case True
    then have "?T = ?S" by (intro synod.equality) simp_all
    then show ?thesis by (simp only: rtranclp.rtrancl_refl)
  qed
  have "(synod_step nodes ok)\<^sup>*\<^sup>* ?T (?T\<lparr>s_syncr := s_syncr ?T \<union> synced_rnds i P\<rparr>)"
  proof (cases "synced_rnds i P = {}")
    case False
    have sub: "synced_rnds i P \<subseteq> {r. \<exists>v. learned_at (D p) i = Some (r, v)}"
      using assms by (simp add: tells_learned_def)
    with False obtain r v where rv: "learned_at (D p) i = Some (r, v)" by fastforce
    with sub False have rv': "synced_rnds i P = {r}" by auto
    have "synod_step nodes ok ?T (?T\<lparr>s_syncr := insert r (s_syncr ?T)\<rparr>)"
      using rv by (intro synod_step.tell_round) simp
    then show ?thesis by (simp only: rv' Un_insert_right Un_empty_right r_into_rtranclp)
  next
    case True
    then have "?T\<lparr>s_syncr := s_syncr ?T \<union> synced_rnds i P\<rparr> = ?T" by (intro synod.equality) simp_all
    then show ?thesis by (simp only: rtranclp.rtrancl_refl)
  qed
  moreover have "synod_of i D (N @ P) (H @ P) = ?T\<lparr>s_syncr := s_syncr ?T \<union> synced_rnds i P\<rparr>"
    using assms by (intro synod.equality) (auto simp: synod_of_def tells_learned_def fun_eq_iff)
  ultimately show ?thesis using vals by (simp only: rtranclp_trans)
qed

lemma sys_ok_tell:
  assumes ok: "sys_ok nodes B (D(p := d)) N H L" and p: "p \<in> set nodes"
    and d': "inst_at d' = inst_at d" "learned_at d' = learned_at d"
      "buffered_messages d' = buffered_messages d" "next_index d' = next_index d"
      "paxos_nodes d' = paxos_nodes d" "remote_next_indices d' = remote_next_indices d"
    and ins: "\<And>u e. next_insert d' = Some (u, e) \<Longrightarrow> plain B (user_convert e)"
    and P: "tells_learned d P"
  shows "sys_ok nodes B (D(p := d')) (N @ P) (H @ P) L"
proof (rule sys_ok_advance [OF ok p])
  show "driver_ok nodes B d'"
    using sys_ok_driver [OF ok p] d' ins by (auto simp: driver_ok_def)
  show "net_sent (N @ P) (H @ P)" using ok by (auto simp: sys_ok_def)
  fix i
  have "synod_of i (D(p := d')) (N @ P) (H @ P) = synod_of i (D(p := d)) (N @ P) (H @ P)"
    using d' by (intro synod.equality)
      (auto simp: synod_of_def buffered_at_def min_complete_index_def fun_eq_iff)
  with sim_tell [of "D(p := d)" p P] P
  show "(synod_step nodes (plain B))\<^sup>*\<^sup>* (synod_of i (D(p := d)) N H) (synod_of i (D(p := d')) (N @ P) (H @ P))"
    by simp
qed (use d' in simp)

lemma tells_learned_simps [simp]:
  "tells_learned d []"
  "tells_learned d (P @ Q) \<longleftrightarrow> tells_learned d P \<and> tells_learned d Q"
  by (auto simp: tells_learned_def)

lemma tells_learned_Cons:
  "tells_learned d [x] \<Longrightarrow> tells_learned d P \<Longrightarrow> tells_learned d (x # P)"
  using tells_learned_simps(2) [of d "[x]" P] by simp

lemma tells_learned_plain [simp]:
  "tells_learned d [(dst, DM_IsLeader lid)]"
  "tells_learned d [(dst, DM_LogSyncRequest q k)]"
  "tells_learned d [(dst, DM_NextIndexRequest q)]"
  "tells_learned d [(dst, DM_NextIndexResponse q k)]"
  "tells_learned d [(dst, DM_StartNewNode start)]"
  "tells_learned d [(dst, DM_NewNodeStarted q)]"
  by (auto simp: tells_learned_def synced_vals_def synced_rnds_def)

lemma tells_learned_map: "(\<And>eid. tells_learned d [(eid, m)]) \<Longrightarrow> tells_learned d (map (\<lambda>eid. (eid, m)) eids)"
  by (induction eids) (auto intro: tells_learned_Cons)

lemma collect_learned_sound:
  "collect_learned d indices = Some vals \<Longrightarrow> (i, r, v) \<in> set vals \<Longrightarrow> learned_at d i = Some (r, v)"
  by (induction indices arbitrary: vals) (auto simp: bind_eq_Some_conv learned_at_def)

lemma tells_learned_response:
  "collect_learned d indices = Some vals \<Longrightarrow> tells_learned d [(dst, DM_LogSyncResponse vals)]"
  by (auto simp: tells_learned_def synced_vals_def synced_rnds_def dest: collect_learned_sound)

lemma tells_learned_inform:
  assumes "collect_learned d indices = Some vals"
  shows "tells_learned d [(dst, DM_InformLearned q (fold (\<lambda>(index, vrnd, _). bm_insert index vrnd) vals []))]"
proof -
  have "bm_get (fold (\<lambda>(index, vrnd, _). bm_insert index vrnd) vs m) i = Some r \<Longrightarrow>
      bm_get m i = Some r \<or> (\<exists>v. (i, r, v) \<in> set vs)" for vs :: "(nat \<times> nat \<times> 'a pl_entry) list" and m i r
    by (induction vs arbitrary: m) (fastforce split: if_splits)+
  then show ?thesis
    using assms by (fastforce simp: tells_learned_def synced_vals_def synced_rnds_def dest: collect_learned_sound)
qed

section \<open>Catching up\<close>

lemma usable_learned_views:
  assumes "usable_learned d r = Some (entry, v)"
  shows "bm_get (paxos_instances d) (next_index d) = Some entry \<and>
    (\<exists>vr. vrnd_vval (acceptor (inst_at d (next_index d))) = Some (vr, v) \<and> r \<le> vr)"
  using assms by (auto simp: usable_learned_def inst_at_def bind_eq_Some_conv split: if_splits)

lemma set_learned_views:
  assumes "bm_get (paxos_instances d) j = Some entry"
  shows "inst_at (d\<lparr>paxos_instances := bm_insert j (entry\<lparr>learned_rnd_val := rv\<rparr>) (paxos_instances d)\<rparr>) = inst_at d"
    "learned_at (d\<lparr>paxos_instances := bm_insert j (entry\<lparr>learned_rnd_val := rv\<rparr>) (paxos_instances d)\<rparr>) =
      (learned_at d)(j := rv)"
  using assms by (auto simp: inst_at_def learned_at_def fun_eq_iff)

lemma sys_ok_inform:
  "sys_ok nodes B (D(p := d)) N H L \<Longrightarrow> p \<in> set nodes \<Longrightarrow> (dst, DM_InformLearned q sl) \<in> set H \<Longrightarrow>
     inform_learned_loop p q sl d = Some (out, es, d') \<Longrightarrow>
     sys_ok nodes B (D(p := d')) (N @ sends out) (H @ sends out) (L(p := L p @ es))"
proof (induction p q sl d arbitrary: N H L out es d' rule: inform_learned_loop.induct)
  case (1 p q sl d)
  obtain out1 es1 d1 where b: "handle_buffered_messages p d = Some (out1, es1, d1)"
    using "1.prems"(4) by (auto simp: inform_learned_loop.simps [of p q sl d] bind_eq_Some_conv)
  let ?N = "N @ sends out1" and ?H = "H @ sends out1" and ?L = "L(p := L p @ es1)"
  have ok: "sys_ok nodes B (D(p := d1)) ?N ?H ?L" by (rule sys_ok_buffered [OF "1.prems"(1,2) b])
  note res = "1.prems"(4) [unfolded inform_learned_loop.simps [of p q sl d] b, simplified]
  show ?case
  proof (cases "bm_get sl (next_index d1)")
    case None
    with res have "out = out1" "es = es1" "d' = d1" by auto
    with ok show ?thesis by (simp only:)
  next
    case (Some r)
    show ?thesis
    proof (cases "usable_learned d1 r")
      case None
      have "sys_ok nodes B (D(p := d1)) (?N @ [(q, DM_LogSyncRequest p (next_index d1))])
          (?H @ [(q, DM_LogSyncRequest p (next_index d1))]) ?L"
        using sys_ok_driver [OF ok "1.prems"(2)]
        by (intro sys_ok_tell [OF ok "1.prems"(2)]) (auto simp: driver_ok_def)
      moreover have "out = out1 @ [Send q (DM_LogSyncRequest p (next_index d1))]" "es = es1" "d' = d1"
        using res Some None by auto
      ultimately show ?thesis by (simp only: sends_append sends.simps append_assoc)
    next
      case (Some ev)
      obtain entry v where ev: "ev = (entry, v)" by fastforce
      let ?d = "d1\<lparr>paxos_instances := bm_insert (next_index d1)
          (entry\<lparr>learned_rnd_val := Some (r, v)\<rparr>) (paxos_instances d1)\<rparr>"
      obtain es2 d2 where del: "deliver_learned_entries ?d = (es2, d2)" by fastforce
      obtain out3 es3 where rec: "inform_learned_loop p q sl d2 = Some (out3, es3, d')"
        and out: "out = out1 @ out3" "es = es1 @ es2 @ es3"
        using res Some ev del \<open>bm_get sl (next_index d1) = Some r\<close> by (auto simp: bind_eq_Some_conv)
      from usable_learned_views [of d1 r entry v] Some ev obtain vr where
        entry: "bm_get (paxos_instances d1) (next_index d1) = Some entry" and
        v: "vrnd_vval (acceptor (inst_at d1 (next_index d1))) = Some (vr, v)" "r \<le> vr" by auto
      have "r \<in> synced_rnds (next_index d1) ?H"
        using "1.prems"(3) \<open>bm_get sl (next_index d1) = Some r\<close> by (auto simp: synced_rnds_def)
      then have "sys_ok nodes B (D(p := ?d)) ?N ?H ?L"
        using "1.prems"(2) v min_complete_next [of d1]
        by (intro sys_ok_learn_value [OF ok "1.prems"(2), where j = "next_index d1" and r = r and vr = vr and v = v])
          (auto simp: set_learned_views [OF entry])
      from sys_ok_deliver [OF this "1.prems"(2) del]
      have ok2: "sys_ok nodes B (D(p := d2)) ?N ?H (L(p := L p @ es1 @ es2))" by simp
      have mem: "(dst, DM_InformLearned q sl) \<in> set ?H" using "1.prems"(3) by simp
      from "1.IH" [OF b refl refl \<open>bm_get sl (next_index d1) = Some r\<close> Some ev [symmetric] del [symmetric]
          ok2 "1.prems"(2) mem rec]
      show ?thesis by (simp only: out sends_append append_assoc fun_upd_upd fun_upd_same)
    qed
  qed
qed

lemma sys_ok_sync_one:
  assumes ok: "sys_ok nodes B (D(p := d)) N H L" and p: "p \<in> set nodes"
    and mem: "(dst, DM_LogSyncResponse response) \<in> set H" "iv \<in> set response"
  shows "sys_ok nodes B (D(p := sync_learned iv d)) N H L"
proof -
  obtain j rv where iv: "iv = (j, rv)" by (cases iv)
  show ?thesis
  proof (cases "sync_learned iv d = d")
    case False
    then have "next_index d \<le> j" and new: "inst_at (sync_learned iv d) = inst_at d"
      "learned_at (sync_learned iv d) = (learned_at d)(j := Some rv)"
      by (auto simp: iv sync_learned_def inst_at_def learned_at_def fun_eq_iff
          split: prod.splits option.splits if_splits)
    moreover have "rv \<in> synced_vals j H" using mem by (cases rv) (auto simp: synced_vals_def iv)
    ultimately show ?thesis
      using min_complete_next [of d]
      by (intro sys_ok_sync_value [OF ok p, of j rv])
        (auto simp: sync_learned_def split: prod.splits option.splits)
  qed (use ok in simp)
qed

lemma sys_ok_sync_fold:
  "sys_ok nodes B (D(p := d)) N H L \<Longrightarrow> p \<in> set nodes \<Longrightarrow> (dst, DM_LogSyncResponse response) \<in> set H \<Longrightarrow>
     set ivs \<subseteq> set response \<Longrightarrow> sys_ok nodes B (D(p := fold sync_learned ivs d)) N H L"
proof (induction ivs arbitrary: d)
  case (Cons iv ivs)
  from sys_ok_sync_one [OF Cons.prems(1-3), of iv] Cons.prems(4)
  have "sys_ok nodes B (D(p := sync_learned iv d)) N H L" by simp
  from Cons.IH [OF this Cons.prems(2,3)] Cons.prems(4) show ?case by simp
qed simp

lemma sys_ok_log_sync_response:
  assumes "sys_ok nodes B (D(p := d)) N H L" and "p \<in> set nodes"
    and "(dst, DM_LogSyncResponse response) \<in> set H"
    and res: "handle_log_sync_response p d response = Some (out, es, d')"
  shows "sys_ok nodes B (D(p := d')) (N @ sends out) (H @ sends out) (L(p := L p @ es))"
proof -
  obtain es1 d1 es2 where del: "deliver_learned_entries (fold sync_learned response d) = (es1, d1)"
    and buf: "handle_buffered_messages p d1 = Some (out, es2, d')" and es: "es = es1 @ es2"
    using res by (auto simp: handle_log_sync_response_def bind_eq_Some_conv split: prod.splits)
  from sys_ok_deliver [OF sys_ok_sync_fold [OF assms(1-3) order_refl] assms(2) del]
  have "sys_ok nodes B (D(p := d1)) N H (L(p := L p @ es1))" .
  from sys_ok_buffered [OF this assms(2) buf] show ?thesis
    by (simp only: es fun_upd_upd fun_upd_same append_assoc)
qed

lemma bm_get_fold_remove: "bm_get (fold bm_remove ks m) i = (if i \<in> set ks then None else bm_get m i)"
  by (induction ks arbitrary: m) auto

text \<open>An index all nodes have passed: its instance is dropped.\<close>

lemma sim_purge:
  assumes "inst_at d' i = paxos_instance_new" and "learned_at d' i = None"
    and "buffered_at i d' = buffered_at i d" and "i < min_complete_index d'"
  shows "(synod_step nodes ok)\<^sup>*\<^sup>* (synod_of i (D(p := d)) N H) (synod_of i (D(p := d')) N H)"
proof -
  let ?S = "synod_of i (D(p := d)) N H"
  let ?T = "?S\<lparr>s_alive := (s_alive ?S)(p := False)\<rparr>"
  let ?U = "?T\<lparr>s_rnd := (s_rnd ?T)(p := 0), s_vv := (s_vv ?T)(p := None), s_props := (s_props ?T)(p := \<lambda>_. None),
         s_cnt := (s_cnt ?T)(p := \<lambda>_. 0), s_lvr := (s_lvr ?T)(p := None), s_lrv := (s_lrv ?T)(p := None)\<rparr>"
  have "synod_of i (D(p := d')) N H = ?U"
    using assms by (intro synod.equality)
      (auto simp: synod_of_def fun_eq_iff paxos_instance_new_def props_of_def count_of_def)
  moreover have "synod_step nodes ok ?S ?T" by (rule synod_step.complete)
  moreover have "synod_step nodes ok ?T ?U" by (rule synod_step.purge) simp
  ultimately show ?thesis by (simp only: converse_rtranclp_into_rtranclp r_into_rtranclp)
qed

lemma sys_ok_next_index_response:
  assumes ok: "sys_ok nodes B (D(p := d)) N H L" and p: "p \<in> set nodes"
    and res: "handle_next_index_response d q index = Some (out, es, d')"
  shows "sys_ok nodes B (D(p := d')) (N @ sends out) (H @ sends out) (L(p := L p @ es))"
proof -
  obtain cur where cur: "bm_get (remote_next_indices d) q = Some cur"
    using res by (auto simp: handle_next_index_response_def split: option.splits)
  define d1 where "d1 = d\<lparr>remote_next_indices := bm_insert q (max cur index) (remote_next_indices d)\<rparr>"
  let ?gone = "[min_complete_index d..<min_complete_index d1]"
  have out: "out = []" "es = []"
    and d': "d' = d1\<lparr>paxos_instances := fold bm_remove ?gone (paxos_instances d1)\<rparr>"
    using res cur by (auto simp: handle_next_index_response_def d1_def Let_def)
  have min: "min_complete_index d' = min_complete_index d1"
    by (simp add: d' min_complete_index_def)
  have inst: "inst_at d' i = (if i \<in> set ?gone then paxos_instance_new else inst_at d i)"
    and lrn: "learned_at d' i = (if i \<in> set ?gone then None else learned_at d i)" for i
    by (auto simp: d' d1_def inst_at_def learned_at_def bm_get_fold_remove)
  have buf: "buffered_at i d' = buffered_at i d" for i by (simp add: buffered_at_def d' d1_def)
  have le: "min_complete_index d \<le> min_complete_index d1"
  proof -
    have "(q, cur) \<in> set (remote_next_indices d)" using cur by (auto dest: map_of_SomeD)
    then have "min_complete_index d \<le> cur" and "\<forall>e \<in> set (remote_next_indices d). min_complete_index d \<le> snd e"
      using min_complete_le [of "min_complete_index d" d] by force+
    moreover have "set (bm_insert q (max cur index) m) \<subseteq> insert (q, max cur index) (set m)" for m
      by (induction m) auto
    ultimately show ?thesis
      using min_complete_le [of "min_complete_index d" d1] min_complete_next [of d]
      by (fastforce simp: d1_def)
  qed
  have "sys_ok nodes B (D(p := d')) N (H @ []) L"
  proof (rule sys_ok_advance [OF ok p])
    show "driver_ok nodes B d'"
      unfolding driver_ok_def inst
      using sys_ok_driver [OF ok p] by (auto simp: driver_ok_def d' d1_def paxos_instance_new_def)
    show "(synod_step nodes (plain B))\<^sup>*\<^sup>* (synod_of i (D(p := d)) N H) (synod_of i (D(p := d')) N (H @ []))" for i
    proof (cases "i \<in> set ?gone")
      case True
      then have "(synod_step nodes (plain B))\<^sup>*\<^sup>* (synod_of i (D(p := d)) N H) (synod_of i (D(p := d')) N H)"
        by (intro sim_purge) (auto simp: inst lrn min buf)
      then show ?thesis by simp
    next
      case False
      then have "(synod_step nodes (plain B))\<^sup>*\<^sup>* (synod_of i (D(p := d)) N H) (synod_of i (D(p := d')) N H)"
        using le by (intro sim_views) (auto simp: inst lrn min buf)
      then show ?thesis by simp
    qed
  qed (use ok in \<open>auto simp: sys_ok_def d' d1_def\<close>)
  then show ?thesis by (simp add: out)
qed

section \<open>Every action keeps the invariant\<close>

lemma sys_ok_message_internal:
  assumes ok: "sys_ok nodes B (D(p := d)) ((p, m) # N) H L" and p: "p \<in> set nodes"
    and res: "handle_paxos_message_internal p d m = Some (out, es, d')"
  shows "sys_ok nodes B (D(p := d')) (N @ sends out) (H @ sends out) (L(p := L p @ es))"
proof -
  have ok': "sys_ok nodes B (D(p := d)) N H L" by (rule sys_ok_drop [OF ok])
  have ins: "plain B (user_convert e)" if "next_insert d = Some (u, e)" for u e
    using sys_ok_driver [OF ok p] that by (auto simp: driver_ok_def)
  have mem: "(p, m) \<in> set H" if "\<forall>multi. m \<noteq> DM_MultiPaxosMessage multi"
    using ok that by (auto simp: sys_ok_def net_sent_def)
  have tell: ?thesis
    if "es = []" "paxos_instances d' = paxos_instances d" "buffered_messages d' = buffered_messages d"
      "next_index d' = next_index d" "paxos_nodes d' = paxos_nodes d"
      "remote_next_indices d' = remote_next_indices d" "next_insert d' = next_insert d"
      "tells_learned d (sends out)"
    using that views_cong [of d' d] ins sys_ok_tell [OF ok' p, of d' "sends out"] by simp
  show ?thesis
  proof (cases m)
    case (DM_MultiPaxosMessage multi)
    with sys_ok_handle_multi [of nodes B D p d multi] ok p res show ?thesis by simp
  next
    case (DM_InformLearned q sl)
    with sys_ok_inform [OF ok' p] mem res show ?thesis by simp
  next
    case (DM_LogSyncResponse response)
    with sys_ok_log_sync_response [OF ok' p] mem res show ?thesis by simp
  next
    case (DM_NextIndexResponse q index)
    with sys_ok_next_index_response [OF ok' p] res show ?thesis by simp
  next
    case (DM_LogSyncRequest q index)
    with res show ?thesis by (intro tell) (auto simp: bind_eq_Some_conv intro: tells_learned_response)
  qed (rule tell; use res in auto)+
qed

lemma sys_ok_message:
  assumes ok: "sys_ok nodes B (D(p := d)) ((p, m) # N) H L" and p: "p \<in> set nodes"
    and res: "handle_paxos_message p d m = Some (out, es, d')"
  shows "sys_ok nodes B (D(p := d')) (N @ sends out) (H @ sends out) (L(p := L p @ es))"
proof -
  obtain out1 es1 d1 out2 es2 where r1: "handle_paxos_message_internal p d m = Some (out1, es1, d1)"
    and r2: "handle_buffered_messages p d1 = Some (out2, es2, d')" and out: "out = out1 @ out2" "es = es1 @ es2"
    using res by (auto simp: handle_paxos_message_def bind_eq_Some_conv)
  from sys_ok_buffered [OF sys_ok_message_internal [OF ok p r1] p r2] show ?thesis
    by (simp only: out sends_append append_assoc fun_upd_upd fun_upd_same)
qed

text \<open>A proposal at the next index.\<close>

lemma sys_ok_propose:
  assumes ok: "sys_ok nodes B (D(p := d)) N H L" and p: "p \<in> set nodes" and v: "plain B v"
    and res: "propose_next_index p rand d v = Some (out, d')"
  shows "sys_ok nodes B (D(p := d')) (N @ sends out) (H @ sends out) L"
proof -
  let ?j = "next_index d"
  obtain entry x where e: "ensure_instance d ?j = (entry, x)" by fastforce
  note views = ensure_instance_views [OF e]
  have dok: "driver_ok nodes B d" using sys_ok_driver [OF ok p] .
  then have ns: "paxos_nodes d = nodes" by (simp add: driver_ok_def)
  define c where "c = rand mod proposal_increment (paxos_config d) + latest_crnd (proposer x)"
  have out: "sends out = map (\<lambda>eid. (eid, DM_MultiPaxosMessage (Multi p nodes ?j (Prepare c)))) nodes"
    and d': "d' = put_instance d ?j entry (x\<lparr>proposer := (proposer x)\<lparr>proposals := bm_insert c
        \<lparr>pr_crnd = c, pr_cval = v, pr_promises = []\<rparr> (proposals (proposer x)), latest_crnd := c\<rparr>\<rparr>)"
    using res
    by (auto simp: propose_next_index_def e ns c_def unat_checked_def bind_eq_Some_conv Let_def split: if_splits)
  show ?thesis
  proof (rule sys_ok_advance [OF ok p])
    show "driver_ok nodes B d'" using dok views by (auto simp: driver_ok_def d' split: if_splits)
    show "net_sent (N @ sends out) (H @ sends out)" using ok by (auto simp: sys_ok_def)
    fix i
    let ?S = "synod_of i (D(p := d)) N H"
    let ?T = "s_send (bcast nodes p (Prepare c))
      (?S\<lparr>s_props := (s_props ?S)(p := (s_props ?S p)(c := Some (v, [])))\<rparr>)"
    have "synod_of i (D(p := d')) (N @ sends out) (H @ sends out) = (if i = ?j then ?T else ?S)"
      using views no_sync_simps(3) [of _ nodes]
      by (intro synod.equality)
        (auto simp: synod_of_def s_send_def no_sync_def out at_index_bcast d' props_of_def count_of_def
          fun_eq_iff)
    moreover have "synod_step nodes (plain B) ?S ?T" if "i = ?j"
      using p v that min_complete_next [of d] by (intro synod_step.propose) auto
    ultimately show "(synod_step nodes (plain B))\<^sup>*\<^sup>* ?S (synod_of i (D(p := d')) (N @ sends out) (H @ sends out))"
      by (auto simp: r_into_rtranclp)
  qed (simp add: d')
qed

lemma sys_ok_field:
  assumes ok: "sys_ok nodes B (D(p := d)) N H L" and p: "p \<in> set nodes"
    and d': "paxos_instances d' = paxos_instances d" "buffered_messages d' = buffered_messages d"
      "next_index d' = next_index d" "paxos_nodes d' = paxos_nodes d"
      "remote_next_indices d' = remote_next_indices d"
    and ins: "\<And>u e. next_insert d' = Some (u, e) \<Longrightarrow> plain B (user_convert e)"
  shows "sys_ok nodes B (D(p := d')) N H L"
  using sys_ok_tell [OF ok p, of d' "[]"] views_cong [OF d'(1)] d' ins by auto

lemma driver_ok_insert: "driver_ok nodes B d \<Longrightarrow> next_insert d = Some (u, e) \<Longrightarrow> plain B (user_convert e)"
  by (auto simp: driver_ok_def)

lemma sys_ok_insert:
  assumes ok: "sys_ok nodes B (D(p := d)) N H L" and p: "p \<in> set nodes"
    and b: "B b" and res: "insert_bundle p r u d (User_Bundle b) = Some (out, d')"
  shows "sys_ok nodes B (D(p := d')) (N @ sends out) (H @ sends out) L"
proof (cases "is_leader d p \<and> next_insert d = None")
  case True
  let ?d = "d\<lparr>next_insert := Some (u, User_Bundle b)\<rparr>"
  obtain out' where pr: "propose_next_index p r ?d (PL_Bundle b) = Some (out', d')" and "sends out = sends out'"
    using res True by (auto simp: insert_bundle_def bind_eq_Some_conv)
  moreover have "sys_ok nodes B (D(p := ?d)) N H L"
    by (rule sys_ok_field [OF ok p]) (use b in \<open>auto simp: plain_def\<close>)
  then have "sys_ok nodes B (D(p := d')) (N @ sends out') (H @ sends out') L"
    by (rule sys_ok_propose [OF _ p _ pr]) (simp add: plain_def b)
  ultimately show ?thesis by simp
next
  case False
  then have "out = []" "d' = d" using res by (auto simp: insert_bundle_def)
  with ok show ?thesis by simp
qed

lemma sys_ok_retry:
  assumes ok: "sys_ok nodes B (D(p := d)) N H L" and p: "p \<in> set nodes"
    and res: "retry_insert p r d u = Some (out, d')"
  shows "sys_ok nodes B (D(p := d')) (N @ sends out) (H @ sends out) L"
proof (cases "\<exists>e. next_insert d = Some (u, e)")
  case True
  then obtain e where e: "next_insert d = Some (u, e)" by blast
  then obtain out' where "propose_next_index p r d (user_convert e) = Some (out', d')"
    and "sends out = sends out'"
    using res by (auto simp: retry_insert_def bind_eq_Some_conv)
  with sys_ok_propose [OF ok p driver_ok_insert [OF sys_ok_driver [OF ok p] e]] show ?thesis by simp
next
  case False
  then have "out = []" "d' = d" using res by (auto simp: retry_insert_def split: option.splits if_splits)
  with ok show ?thesis by simp
qed

lemma tells_learned_informs:
  "inform_learned_msgs p d eids = Some out \<Longrightarrow> tells_learned d (sends out)"
  by (induction eids arbitrary: out)
    (auto simp: bind_eq_Some_conv intro!: tells_learned_Cons tells_learned_inform)

lemma sys_ok_same:
  assumes "sys_ok nodes B (D(p := d)) N H L" and "p \<in> set nodes" and "tells_learned d P"
  shows "sys_ok nodes B (D(p := d)) (N @ P) (H @ P) L"
  using driver_ok_insert [OF sys_ok_driver [OF assms(1,2)]]
  by (intro sys_ok_tell [OF assms(1,2)] assms(3)) auto

lemma sys_ok_heartbeat:
  assumes ok: "sys_ok nodes B (D(p := d)) N H L" and p: "p \<in> set nodes"
    and res: "leader_heartbeat p r d = Some (out, d')"
  shows "sys_ok nodes B (D(p := d')) (N @ sends out) (H @ sends out) L"
proof (cases "is_leader d p")
  case True
  then obtain inform where "inform_learned_msgs p d (paxos_nodes d) = Some inform" and d': "d' = d"
    and out: "sends out = map (\<lambda>eid. (eid, DM_IsLeader (leader d))) (paxos_nodes d) @ sends inform"
    using res by (auto simp: leader_heartbeat_def broadcast_inform_learned_def bind_eq_Some_conv)
  then have "tells_learned d (sends out)"
    by (simp add: tells_learned_informs tells_learned_map)
  with sys_ok_same [OF ok p] show ?thesis by (simp add: d')
next
  case False
  let ?d = "d\<lparr>heartbeat := heartbeat d + 1\<rparr>"
  have ok1: "sys_ok nodes B (D(p := ?d)) N H L"
    using driver_ok_insert [OF sys_ok_driver [OF ok p]] by (intro sys_ok_field [OF ok p]) auto
  show ?thesis
  proof (cases "heartbeat d + 1 > heartbeat_threshold (paxos_config d)")
    case True
    with res False obtain lid out1 inform where
      pr: "propose_next_index p r ?d (PL_LeaderChanged lid) = Some (out1, d')" and
      inf: "inform_learned_msgs p d' (paxos_nodes d') = Some inform" and
      out: "sends out = sends out1 @ sends inform"
      by (auto simp: leader_heartbeat_def broadcast_inform_learned_def unat_checked_def bind_eq_Some_conv
          Let_def split: if_splits)
    from sys_ok_propose [OF ok1 p _ pr]
    have "sys_ok nodes B (D(p := d')) (N @ sends out1) (H @ sends out1) L" by (simp add: plain_def)
    from sys_ok_same [OF this p tells_learned_informs [OF inf]] show ?thesis by (simp add: out)
  next
    case low: False
    with res False have "sends out = []" "d' = ?d"
      by (auto simp: leader_heartbeat_def unat_checked_def bind_eq_Some_conv Let_def split: if_splits)
    with ok1 show ?thesis by simp
  qed
qed

lemma sys_ok_timer:
  assumes ok: "sys_ok nodes B (D(p := d)) N H L" and p: "p \<in> set nodes"
    and res: "timer_event p r d e = Some (out, d')"
  shows "sys_ok nodes B (D(p := d')) (N @ sends out) (H @ sends out) L"
proof (cases e)
  case NextIndex
  then have "d' = d" and "sends out = map (\<lambda>eid. (eid, DM_NextIndexRequest p)) (paxos_nodes d)"
    using res by (auto simp: next_index_timer_def)
  with sys_ok_same [OF ok p] show ?thesis by (simp add: tells_learned_map)
qed (use res sys_ok_retry [OF ok p] sys_ok_heartbeat [OF ok p] in auto)

text \<open>The order of the packets under way does not matter.\<close>

lemma sys_ok_net:
  assumes "mset N = mset N'"
  shows "sys_ok nodes B D N H L = sys_ok nodes B D N' H L"
proof -
  have "at_index i N = \<Sum>\<^sub># (image_mset (\<lambda>x. mset (packet_at i x)) (mset N))" for i and N :: "'a packet list"
    by (induction N) auto
  then have "at_index i N = at_index i N'" for i using assms by simp
  then have "synod_of i D N H = synod_of i D N' H" for i by (simp add: synod_of_def)
  moreover have "net_sent N H = net_sent N' H" using mset_eq_setD [OF assms] by (simp add: net_sent_def)
  ultimately show ?thesis by (simp add: sys_ok_def)
qed

lemma mset_take_drop: "k < length xs \<Longrightarrow> mset (xs ! k # take k xs @ drop (Suc k) xs) = mset xs"
  by (metis append_take_drop_id Cons_nth_drop_Suc mset_append mset.simps(2) union_mset_add_mset_right)

definition sys_inv :: "endpoint_id list \<Rightarrow> ('b \<Rightarrow> bool) \<Rightarrow> 'b paxos_sys \<Rightarrow> bool" where
  "sys_inv nodes B s \<longleftrightarrow> sys_ok nodes B (drv s) (net s) (sent s) (delivered s)"

lemma sys_inv_init:
  assumes "distinct nodes" and "sys_init nodes config = Some s"
  shows "sys_inv nodes B s"
proof -
  obtain d where d: "create_initial nodes config = Some d"
    and s: "s = \<lparr>drv = \<lambda>_. d, net = [], sent = [], delivered = \<lambda>_. []\<rparr>"
    using assms(2) by (auto simp: sys_init_def)
  have f: "paxos_nodes d = nodes" "nodes \<noteq> []" "next_index d = 0" "paxos_instances d = []"
    "buffered_messages d = []" "next_insert d = None"
    using d by (auto simp: create_initial_def split: list.splits)
  have "min_complete_index d = 0" using min_complete_next [of d] f by simp
  then have "synod_of i (drv s) (net s) (sent s) = synod_init" for i
    by (intro synod.equality)
      (auto simp: s synod_of_def synod_init_def inst_at_def learned_at_def f paxos_instance_new_def
        props_of_def count_of_def buffered_at_def fun_eq_iff)
  then show ?thesis
    using assms(1) f
    by (simp add: sys_inv_def sys_ok_def s driver_ok_def log_ok_def inst_at_def paxos_instance_new_def net_sent_def)
qed

lemma sys_inv_step:
  assumes inv: "sys_inv nodes B s" and step: "sys_step nodes s a = Some s'"
    and B: "\<And>p r u b. a = Insert p r u b \<Longrightarrow> B b"
  shows "sys_inv nodes B s'"
proof -
  have ok: "sys_ok nodes B ((drv s)(p := drv s p)) (net s) (sent s) (delivered s)" for p
    using inv by (simp add: sys_inv_def)
  show ?thesis
  proof (cases a)
    case (Deliver k)
    let ?N = "take k (net s) @ drop (Suc k) (net s)"
    obtain p m where pm: "net s ! k = (p, m)" by fastforce
    with step Deliver obtain out es d' where k: "k < length (net s)" and p: "p \<in> set nodes"
      and res: "handle_paxos_message p (drv s p) m = Some (out, es, d')"
      and s': "s' = node_result p (out, es, d') (s\<lparr>net := ?N\<rparr>)"
      by (auto split: if_splits)
    have "sys_ok nodes B ((drv s)(p := drv s p)) ((p, m) # ?N) (sent s) (delivered s)"
      using ok [of p] sys_ok_net [OF mset_take_drop [OF k]] pm by simp
    from sys_ok_message [OF this p res] show ?thesis by (simp add: s' node_result_def sys_inv_def)
  next
    case (Drop k)
    let ?N = "take k (net s) @ drop (Suc k) (net s)"
    obtain p m where pm: "net s ! k = (p, m)" by fastforce
    from step Drop have k: "k < length (net s)" and s': "s' = s\<lparr>net := ?N\<rparr>" by (auto split: if_splits)
    have "sys_ok nodes B (drv s) ((p, m) # ?N) (sent s) (delivered s)"
      using inv sys_ok_net [OF mset_take_drop [OF k]] pm by (simp add: sys_inv_def)
    then show ?thesis using sys_ok_drop [of nodes B "drv s" p m] by (simp add: s' sys_inv_def)
  next
    case (Timer p r e)
    with step obtain out d' where "p \<in> set nodes" "timer_event p r (drv s p) e = Some (out, d')"
      and "s' = node_result p (out, [], d') s" by (auto split: if_splits)
    with sys_ok_timer [OF ok] show ?thesis by (simp add: node_result_def sys_inv_def)
  next
    case (Insert p r u b)
    with step obtain out d' where "p \<in> set nodes" "insert_bundle p r u (drv s p) (User_Bundle b) = Some (out, d')"
      and "s' = node_result p (out, [], d') s" by (auto split: if_splits)
    with sys_ok_insert [OF ok, of p b] B [OF Insert] show ?thesis by (simp add: node_result_def sys_inv_def)
  qed
qed

lemma sys_reach_inv: "sys_reach nodes config s \<Longrightarrow> distinct nodes \<Longrightarrow> sys_inv nodes (\<lambda>_. True) s"
  by (induction rule: sys_reach.induct) (auto intro: sys_inv_init sys_inv_step)

lemma sys_run_inv:
  "sys_inv nodes B s \<Longrightarrow> sys_run nodes s as = Some s' \<Longrightarrow> (\<And>p r u b. Insert p r u b \<in> set as \<Longrightarrow> B b) \<Longrightarrow>
     sys_inv nodes B s'"
proof (induction as arbitrary: s)
  case (Cons a as)
  then obtain s1 where s1: "sys_step nodes s a = Some s1" and run: "sys_run nodes s1 as = Some s'"
    by (auto simp: bind_eq_Some_conv)
  have "sys_inv nodes B s1" by (rule sys_inv_step [OF Cons.prems(1) s1]) (use Cons.prems(3) in auto)
  then show ?case by (rule Cons.IH [OF _ run]) (use Cons.prems(3) in auto)
qed simp

end
