(* ===== verification/Paxos_Agreement.thy ===== *)
theory Paxos_Agreement
  imports Paxos_System
begin

text \<open>
  What the invariant of \<open>Paxos_System\<close> says of the drivers of \<open>src/src/paxos.rs\<close>: the
  delivered logs agree, every index runs the abstract protocol, a round carries one value,
  and what is delivered was inserted. The witnesses are runs of three drivers.
\<close>

section \<open>Consequences of the invariant\<close>

lemma delivered_chosen:
  assumes "sys_inv nodes B s" and "p \<in> set nodes" and "k < length (delivered s p)"
  shows "\<exists>r. chosen nodes (at_index k (sent s)) r (delivered s p ! k)"
  using assms by (auto simp: sys_inv_def sys_ok_def log_ok_def)

lemma learned_chosen:
  assumes "sys_inv nodes B s" and "learned_at (drv s p) k = Some (r, v)"
  shows "chosen nodes (at_index k (sent s)) r v"
  using learned_plain assms unfolding sys_inv_def by blast

lemma chosen_same:
  assumes "sys_inv nodes B s"
    and "chosen nodes (at_index k (sent s)) r v" and "chosen nodes (at_index k (sent s)) r' v'"
  shows "v = v'"
proof -
  have "synod_inv nodes (plain B) (synod_of k (drv s) (net s) (sent s))"
    using assms(1) sys_ok_inv by (auto simp: sys_inv_def)
  moreover have "nodes \<noteq> []" using assms(1) by (auto simp: sys_inv_def sys_ok_def)
  ultimately show ?thesis using chosen_agree [of nodes "plain B" _ r v r' v'] assms(2,3) by fastforce
qed

lemma chosen_plain:
  assumes "sys_inv nodes B s" and "chosen nodes (at_index k (sent s)) r v"
  shows "plain B v"
proof -
  have "synod_inv nodes (plain B) (synod_of k (drv s) (net s) (sent s))"
    using assms(1) sys_ok_inv by (auto simp: sys_inv_def)
  with assms(2) show ?thesis by (auto simp: synod_inv_def offers_ok_def chosen_def)
qed

lemma delivered_length: "sys_inv nodes B s \<Longrightarrow> p \<in> set nodes \<Longrightarrow> length (delivered s p) = next_index (drv s p)"
  by (auto simp: sys_inv_def sys_ok_def log_ok_def)

section \<open>A run of three drivers\<close>

definition demo_node :: "string \<Rightarrow> endpoint_id" where
  "demo_node name = EndpointId name Internal"

definition demo_nodes :: "endpoint_id list" where
  "demo_nodes = map demo_node [''a'', ''b'', ''c'']"

definition demo_config :: paxos_config where
  "demo_config = \<lparr>heartbeat_threshold = 5, heartbeat_period_ms = Timestamp 1000 0, next_index_period_ms = Timestamp 1000 0,
     retry_defer_time_ms = Timestamp 1000 0, proposal_increment = 1000, remote_next_index_thresh = 100,
     cfg_max_failable = 1\<rparr>"

text \<open>
  Node \<open>a\<close> inserts a bundle; \<open>a\<close> and \<open>b\<close> promise, accept and learn it while every message to
  \<open>c\<close> is delayed.
\<close>

definition demo_actions :: "nat sys_action list" where
  "demo_actions = [Insert (demo_node ''a'') 1 ''u'' 7, Deliver 0, Deliver 0, Deliver 1, Deliver 1, Deliver 1, Deliver 1,
     Deliver 2, Deliver 4, Deliver 2, Deliver 3]"

definition demo_run :: "nat paxos_sys option" where
  "demo_run = Option.bind (sys_init demo_nodes demo_config) (\<lambda>s. sys_run demo_nodes s demo_actions)"

lemmas paxos_eval = sys_init_def create_initial_def node_result_def insert_bundle_def is_leader_def
  propose_next_index_def ensure_instance_def put_instance_def paxos_instance_new_def unat_checked_def
  send_all_def handle_paxos_message_def handle_buffered_messages.simps handle_multi_def is_dropped_prepare_def
  min_complete_index_def handle_prepare_def handle_promise_def handle_accept_def handle_learn_def
  majority_def max_vrnd_vval_def learn_and_deliver_def deliver_learned_entries_def deliver_loop.simps
  learned_at_def buffer_message_def less_eq_endpoint_id_def less_endpoint_id_def eid_rank_def
  demo_node_def demo_nodes_def demo_config_def demo_actions_def demo_run_def Let_def

lemma demo_logs:
  "map_option (\<lambda>s. (delivered s (demo_node ''a''), delivered s (demo_node ''b''), delivered s (demo_node ''c''))) demo_run =
     Some ([PL_Bundle 7], [PL_Bundle 7], [])"
  by (simp add: paxos_eval)

lemma demo_accepts:
  "map_option (\<lambda>s. {(demo_node ''a'', m), (demo_node ''b'', m)} \<subseteq> set (sent s)) demo_run = Some True"
  if "m = DM_MultiPaxosMessage (Multi (demo_node ''a'') demo_nodes 0 (Accept 1 (PL_Bundle 7)))"
  using that by (simp add: paxos_eval)

lemma demo_state:
  obtains s where "demo_run = Some s" and "sys_reach demo_nodes demo_config s"
    and "delivered s (demo_node ''a'') = [PL_Bundle 7]" and "delivered s (demo_node ''b'') = [PL_Bundle 7]"
proof -
  from demo_logs obtain s where s: "demo_run = Some s"
    and log: "delivered s (demo_node ''a'') = [PL_Bundle 7]" "delivered s (demo_node ''b'') = [PL_Bundle 7]"
    by auto
  have "sys_reach demo_nodes demo_config s"
    using s by (auto simp: demo_run_def bind_eq_Some_conv intro: sys_run_reach reach_init)
  from that [OF s this log] show thesis .
qed

lemma demo_nodes_distinct: "distinct demo_nodes"
  by (simp add: demo_nodes_def demo_node_def)

lemma demo_nodes_in: "demo_node ''a'' \<in> set demo_nodes" "demo_node ''b'' \<in> set demo_nodes"
  by (simp_all add: demo_nodes_def)

section \<open>Properties\<close>

text \<open>
  C1: Agreement of the replicated log. In every reachable state of a group of drivers with a
  fixed configuration, over a network that delays, reorders and loses messages, the logs
  delivered at any two nodes are the same up to the length of the shorter one, and every
  value a node has learned at an index is the one any node delivered there.
\<close>

theorem paxos_log_agreement:
  assumes "sys_reach nodes config s" and "distinct nodes" and "p \<in> set nodes" and "q \<in> set nodes"
  shows "take (length (delivered s q)) (delivered s p) = take (length (delivered s p)) (delivered s q) \<and>
    (\<forall>k r v. learned_at (drv s p) k = Some (r, v) \<longrightarrow> k < length (delivered s q) \<longrightarrow> v = delivered s q ! k)"
proof (intro conjI allI impI)
  have inv: "sys_inv nodes (\<lambda>_. True) s" by (rule sys_reach_inv [OF assms(1,2)])
  show "take (length (delivered s q)) (delivered s p) = take (length (delivered s p)) (delivered s q)"
    using delivered_chosen [OF inv assms(3)] delivered_chosen [OF inv assms(4)] chosen_same [OF inv]
    by (intro nth_equalityI) (simp, fastforce)
  fix k r v
  assume "learned_at (drv s p) k = Some (r, v)" and "k < length (delivered s q)"
  with learned_chosen [OF inv] delivered_chosen [OF inv assms(4)] chosen_same [OF inv]
  show "v = delivered s q ! k" by blast
qed

theorem paxos_log_agreement_witness:
  "\<exists>s. demo_run = Some s \<and> delivered s (demo_node ''b'') = [PL_Bundle 7] \<and>
     take (length (delivered s (demo_node ''b''))) (delivered s (demo_node ''a'')) =
       take (length (delivered s (demo_node ''a''))) (delivered s (demo_node ''b''))"
proof -
  obtain s where "demo_run = Some s" "sys_reach demo_nodes demo_config s"
    "delivered s (demo_node ''b'') = [PL_Bundle 7]" by (rule demo_state)
  with paxos_log_agreement [OF _ demo_nodes_distinct demo_nodes_in] show ?thesis by blast
qed

text \<open>
  C2: Refinement. At every log index, the drivers of a reachable state, with the messages under
  way and those in the buffers of the nodes, are in a state the single-instance protocol of
  \<open>Synod\<close> reaches from its initial state, and the number of entries a node has delivered is
  its \<open>next_index\<close>.
\<close>

theorem paxos_index_refines_synod:
  assumes "sys_reach nodes config s" and "distinct nodes"
  shows "(synod_step nodes (plain (\<lambda>_. True)))\<^sup>*\<^sup>* synod_init (synod_of i (drv s) (net s) (sent s)) \<and>
    (\<forall>p \<in> set nodes. length (delivered s p) = next_index (drv s p))"
  using sys_reach_inv [OF assms] delivered_length by (auto simp: sys_inv_def sys_ok_def)

theorem paxos_index_refines_synod_witness:
  "\<exists>s. demo_run = Some s \<and>
     (synod_step demo_nodes (plain (\<lambda>_. True)))\<^sup>*\<^sup>* synod_init (synod_of 0 (drv s) (net s) (sent s))"
proof -
  obtain s where "demo_run = Some s" "sys_reach demo_nodes demo_config s" by (rule demo_state)
  with paxos_index_refines_synod [OF _ demo_nodes_distinct] show ?thesis by blast
qed

text \<open>
  C20: Validity. Every entry a node delivers is a bundle some node was asked to insert earlier
  in the run, or a change of leader; the configuration of the group never changes.
\<close>

theorem paxos_validity:
  assumes "sys_init nodes config = Some s0" and "sys_run nodes s0 as = Some s" and "distinct nodes"
    and "p \<in> set nodes" and "v \<in> set (delivered s p)"
  shows "(\<exists>q r u b. Insert q r u b \<in> set as \<and> v = PL_Bundle b) \<or> (\<exists>lid. v = PL_LeaderChanged lid)"
proof -
  let ?B = "\<lambda>b. \<exists>q r u. Insert q r u b \<in> set as"
  have inv: "sys_inv nodes ?B s"
    by (rule sys_run_inv [OF sys_inv_init [OF assms(3,1)] assms(2)]) blast
  obtain k where "k < length (delivered s p)" "v = delivered s p ! k"
    using assms(5) by (auto simp: in_set_conv_nth)
  with delivered_chosen [OF inv assms(4)] chosen_plain [OF inv] have "plain ?B v" by blast
  then show ?thesis by (cases v) (auto simp: plain_def)
qed

theorem paxos_validity_witness:
  "\<exists>q r u b. Insert q r u b \<in> set demo_actions \<and> PL_Bundle (7 :: nat) = PL_Bundle b"
proof -
  obtain s where s: "demo_run = Some s" "delivered s (demo_node ''a'') = [PL_Bundle 7]" by (rule demo_state)
  then obtain s0 where "sys_init demo_nodes demo_config = Some s0" "sys_run demo_nodes s0 demo_actions = Some s"
    by (auto simp: demo_run_def bind_eq_Some_conv)
  from paxos_validity [OF this demo_nodes_distinct demo_nodes_in(1), of "PL_Bundle 7"] s show ?thesis by auto
qed

text \<open>
  C21: One value per round. Although rounds carry no node name, so that several nodes may use
  the same round, the \<open>Accept\<close> messages of one index and one round all carry the same value.
\<close>

theorem paxos_round_value_unique:
  assumes "sys_reach nodes config s" and "distinct nodes"
    and "(dst, DM_MultiPaxosMessage (Multi a ns i (Accept c v))) \<in> set (sent s)"
    and "(dst', DM_MultiPaxosMessage (Multi a' ns' i (Accept c v'))) \<in> set (sent s)"
  shows "v = v'"
proof -
  have inv: "sys_ok nodes (\<lambda>_. True) (drv s) (net s) (sent s) (delivered s)"
    using sys_reach_inv [OF assms(1,2)] by (simp add: sys_inv_def)
  have mem: "(dst, a, m) \<in># at_index i ps" if "(dst, DM_MultiPaxosMessage (Multi a ns i m)) \<in> set ps" for dst a ns m
    and ps :: "'a packet list"
    using that by (force simp: at_index_def)
  have "offer (at_index i (sent s)) c v" "offer (at_index i (sent s)) c v'"
    unfolding offer_def using mem assms(3,4) by blast+
  moreover have "nodes \<noteq> []" using inv by (simp add: sys_ok_def)
  ultimately show ?thesis
    using synod.offer_unique [of nodes "plain (\<lambda>_. True)" "synod_of i (drv s) (net s) (sent s)" c v v']
      sys_ok_inv [OF inv] by simp
qed

theorem paxos_round_value_unique_witness:
  "\<exists>s. demo_run = Some s \<and>
     {v. \<exists>dst a ns. (dst, DM_MultiPaxosMessage (Multi a ns 0 (Accept 1 v))) \<in> set (sent s)} = {PL_Bundle 7}"
proof -
  obtain s where s: "demo_run = Some s" "sys_reach demo_nodes demo_config s" by (rule demo_state)
  have "(demo_node ''a'', DM_MultiPaxosMessage (Multi (demo_node ''a'') demo_nodes 0 (Accept 1 (PL_Bundle 7)))) \<in> set (sent s)"
    using demo_accepts [OF refl] unfolding s(1) by simp
  with paxos_round_value_unique [OF s(2) demo_nodes_distinct] s(1) show ?thesis by blast
qed

end
