(* ===== verification/Paxos_Purge.thy ===== *)
theory Paxos_Purge
  imports Paxos_Agreement
begin

text \<open>
  What the drivers of \<open>src/src/paxos.rs\<close> know of each other's \<open>next_index\<close>: the numbers a node
  holds in \<open>remote_next_indices\<close> never exceed the real ones, so an index below
  \<open>min_complete_index\<close>, whose instance is dropped and whose messages are ignored, has been
  delivered by every node of the group.
\<close>

section \<open>What the handlers keep of the known indices\<close>

definition no_reconfig :: "'b pl_entry list \<Rightarrow> bool" where
  "no_reconfig es \<longleftrightarrow> list_all (plain (\<lambda>_. True)) es"

lemma no_reconfig_simps [simp]:
  "no_reconfig []" "no_reconfig (es @ es') \<longleftrightarrow> no_reconfig es \<and> no_reconfig es'"
  by (auto simp: no_reconfig_def)

text \<open>
  The index grows, the known indices of the others stay unless a reconfiguration is delivered,
  and no answer about the own index is sent.
\<close>

definition keeps_known ::
  "'b paxos_driver \<Rightarrow> 'b paxos_effect list \<times> 'b pl_entry list \<times> 'b paxos_driver \<Rightarrow> bool" where
  "keeps_known d res \<longleftrightarrow>
     (case res of
        (out, es, d') \<Rightarrow>
          next_index d \<le> next_index d' \<and>
          (no_reconfig es \<longrightarrow> remote_next_indices d' = remote_next_indices d) \<and>
          (\<forall>dst q k. (dst, DM_NextIndexResponse q k) \<notin> set (sends out)))"

lemma keeps_known_seq:
  "keeps_known d (out, es, d1) \<Longrightarrow> keeps_known d1 (out', es', d2) \<Longrightarrow> keeps_known d (out @ out', es @ es', d2)"
  by (auto simp: keeps_known_def)

lemma keeps_known_same:
  assumes "remote_next_indices d' = remote_next_indices d" and "next_index d' = next_index d"
  shows "keeps_known d' res = keeps_known d res"
  using assms by (auto simp: keeps_known_def split: prod.splits)

lemma process_entry_known:
  "no_reconfig [v] \<Longrightarrow> remote_next_indices (process_entry v d) = remote_next_indices d"
  by (cases v) (auto simp: no_reconfig_def plain_def)

lemma deliver_loop_known: "deliver_loop d = (es, d') \<Longrightarrow> keeps_known d ([], es, d')"
proof (induction d arbitrary: es d' rule: deliver_loop.induct)
  case (1 d)
  show ?case
  proof (cases "learned_at d (next_index d)")
    case None
    with "1.prems" show ?thesis by (simp add: deliver_loop.simps keeps_known_def)
  next
    case (Some rv)
    then obtain r v es' where rv: "rv = (r, v)" and es: "es = v # es'"
      and rec: "deliver_loop (process_entry v (d\<lparr>next_index := next_index d + 1\<rparr>)) = (es', d')"
      using "1.prems" by (auto simp: deliver_loop.simps [of d] split: prod.splits)
    have "keeps_known d ([], [v], process_entry v (d\<lparr>next_index := next_index d + 1\<rparr>))"
      by (simp add: keeps_known_def process_entry_known)
    from keeps_known_seq [OF this "1.IH" [OF Some rv [symmetric] rec]] show ?thesis by (simp add: es)
  qed
qed

lemma deliver_known: "deliver_learned_entries d = (es, d') \<Longrightarrow> keeps_known d ([], es, d')"
  using deliver_loop_known [of d]
  by (auto simp: deliver_learned_entries_def keeps_known_def split: prod.splits if_splits)

lemma learn_and_deliver_known: "learn_and_deliver d i entry x rv = (es, d') \<Longrightarrow> keeps_known d ([], es, d')"
  unfolding learn_and_deliver_def by (drule deliver_known) (simp add: keeps_known_def)

lemma keeps_known_out:
  "keeps_known d ([], es, d') \<Longrightarrow> (\<forall>dst q k. (dst, DM_NextIndexResponse q k) \<notin> set (sends out)) \<Longrightarrow>
     keeps_known d (out, es, d')"
  by (auto simp: keeps_known_def)

lemma handle_accept_known:
  assumes "handle_accept p d multi c v = Some (out, es, d')"
  shows "keeps_known d (out, es, d')"
proof (rule keeps_known_out)
  show "keeps_known d ([], es, d')"
    using assms unfolding handle_accept_def Let_def
    by (auto simp: keeps_known_def [of d "([], [], _)"] dest: learn_and_deliver_known
        split: if_splits prod.splits option.splits)
  show "\<forall>dst q k. (dst, DM_NextIndexResponse q k) \<notin> set (sends out)"
    using assms unfolding handle_accept_def Let_def by (auto split: if_splits prod.splits option.splits)
qed

lemma handle_learn_known:
  assumes "handle_learn d multi c = Some (out, es, d')"
  shows "keeps_known d (out, es, d')"
  using assms unfolding handle_learn_def Let_def
  by (auto simp: keeps_known_def [of d "([], [], _)"] bind_eq_Some_conv dest: learn_and_deliver_known
      split: if_splits prod.splits option.splits)

lemma handle_multi_known:
  assumes "handle_multi p d multi = Some (out, es, d')"
  shows "keeps_known d (out, es, d')"
proof (cases "is_dropped_prepare d multi \<or> mp_index multi < min_complete_index d \<or> next_index d < mp_index multi")
  case True
  with assms have "es = []" "out = []" "next_index d' = next_index d" "remote_next_indices d' = remote_next_indices d"
    by (auto simp: handle_multi_def buffer_message_def split: if_splits)
  then show ?thesis by (simp add: keeps_known_def)
next
  case False
  then show ?thesis
  proof (cases "mp_message multi")
    case (Prepare c)
    with assms False show ?thesis
      by (auto simp: handle_multi_def handle_prepare_def keeps_known_def Let_def split: if_splits prod.splits)
  next
    case (Promise c vv)
    with assms False show ?thesis
      by (auto simp: handle_multi_def handle_promise_def keeps_known_def Let_def
          split: if_splits prod.splits option.splits)
  qed (use assms False in \<open>auto simp: handle_multi_def intro: handle_accept_known handle_learn_known\<close>)
qed

lemma handle_buffered_known:
  "handle_buffered_messages p d = Some (out, es, d') \<Longrightarrow> keeps_known d (out, es, d')"
proof (induction p d arbitrary: out es d' rule: handle_buffered_messages.induct)
  case (1 p d)
  show ?case
  proof (cases "\<exists>index messages rest. buffered_messages d = (index, messages) # rest \<and> index \<le> next_index d")
    case False
    then have "out = []" "es = []" "d' = d"
      using "1.prems" by (auto simp: handle_buffered_messages.simps [of p d] split: list.splits)
    then show ?thesis by (simp add: keeps_known_def)
  next
    case True
    then obtain index messages rest where
      buf: "buffered_messages d = (index, messages) # rest" and low: "index \<le> next_index d" by blast
    show ?thesis
    proof (cases messages)
      case Nil
      have "handle_buffered_messages p (d\<lparr>buffered_messages := bm_remove index (buffered_messages d)\<rparr>) =
          Some (out, es, d')"
        using "1.prems" buf low Nil by (simp add: handle_buffered_messages.simps [of p d])
      from "1.IH"(1) [OF buf refl low Nil this] show ?thesis
        using keeps_known_same [of "d\<lparr>buffered_messages := bm_remove index (buffered_messages d)\<rparr>" d] by simp
    next
      case (Cons multi messages')
      let ?d = "d\<lparr>buffered_messages := (index, messages') # rest\<rparr>"
      obtain out1 es1 d1 out2 es2 where
        step: "handle_multi p ?d multi = Some (out1, es1, d1)" and
        rec: "handle_buffered_messages p d1 = Some (out2, es2, d')" and
        res: "out = out1 @ out2" "es = es1 @ es2"
        using "1.prems" buf low Cons
        by (auto simp: handle_buffered_messages.simps [of p d] bind_eq_Some_conv)
      have "keeps_known d (out1, es1, d1)"
        using handle_multi_known [OF step] keeps_known_same [of ?d d] by simp
      from keeps_known_seq [OF this "1.IH"(2) [OF buf refl low Cons step refl refl rec]] show ?thesis
        by (simp only: res)
    qed
  qed
qed
lemma inform_learned_known:
  "inform_learned_loop p q sl d = Some (out, es, d') \<Longrightarrow> keeps_known d (out, es, d')"
proof (induction p q sl d arbitrary: out es d' rule: inform_learned_loop.induct)
  case (1 p q sl d)
  obtain out1 es1 d1 where b: "handle_buffered_messages p d = Some (out1, es1, d1)"
    using "1.prems" by (auto simp: inform_learned_loop.simps [of p q sl d] bind_eq_Some_conv)
  note known = handle_buffered_known [OF b]
  note res = "1.prems" [unfolded inform_learned_loop.simps [of p q sl d] b, simplified]
  show ?case
  proof (cases "\<exists>r ev. bm_get sl (next_index d1) = Some r \<and> usable_learned d1 r = Some ev")
    case False
    with res have "es = es1" "d' = d1" "\<forall>dst q k. (dst, DM_NextIndexResponse q k) \<in> set (sends out) \<longrightarrow>
        (dst, DM_NextIndexResponse q k) \<in> set (sends out1)"
      by (auto split: option.splits)
    with known show ?thesis by (auto simp: keeps_known_def)
  next
    case True
    then obtain r entry v where r: "bm_get sl (next_index d1) = Some r"
      and ev: "usable_learned d1 r = Some (entry, v)" by fastforce
    let ?d = "d1\<lparr>paxos_instances := bm_insert (next_index d1)
        (entry\<lparr>learned_rnd_val := Some (r, v)\<rparr>) (paxos_instances d1)\<rparr>"
    obtain es2 d2 where del: "deliver_learned_entries ?d = (es2, d2)" by fastforce
    obtain out3 es3 where rec: "inform_learned_loop p q sl d2 = Some (out3, es3, d')"
      and out: "out = out1 @ out3" "es = es1 @ es2 @ es3"
      using res r ev del by (auto simp: bind_eq_Some_conv)
    have "keeps_known d1 ([], es2, d2)" using deliver_known [OF del] keeps_known_same [of ?d d1] by simp
    from keeps_known_seq [OF known keeps_known_seq [OF this
        "1.IH" [OF b refl refl r ev refl del [symmetric] rec]]]
    show ?thesis by (simp add: out)
  qed
qed

lemma sync_fold_fields [simp]:
  "next_index (fold sync_learned ivs d) = next_index d"
  "remote_next_indices (fold sync_learned ivs d) = remote_next_indices d"
  by (induction ivs arbitrary: d) (auto simp: sync_learned_def split: prod.splits option.splits)

lemma log_sync_response_known:
  assumes "handle_log_sync_response p d response = Some (out, es, d')"
  shows "keeps_known d (out, es, d')"
proof -
  obtain es1 d1 es2 where del: "deliver_learned_entries (fold sync_learned response d) = (es1, d1)"
    and buf: "handle_buffered_messages p d1 = Some (out, es2, d')" and es: "es = es1 @ es2"
    using assms by (auto simp: handle_log_sync_response_def bind_eq_Some_conv split: prod.splits)
  have "keeps_known d ([], es1, d1)"
    using deliver_known [OF del] keeps_known_same [of "fold sync_learned response d" d] by simp
  from keeps_known_seq [OF this handle_buffered_known [OF buf]] show ?thesis by (simp add: es)
qed

lemma message_internal_known:
  assumes "handle_paxos_message_internal p d m = Some (out, es, d')"
    and "\<And>q. m \<noteq> DM_NextIndexRequest q" and "\<And>q k. m \<noteq> DM_NextIndexResponse q k"
  shows "keeps_known d (out, es, d')"
proof (cases m)
  case (DM_InformLearned q sl)
  with assms(1) show ?thesis by (simp add: inform_learned_known)
next
  case (DM_LogSyncRequest q index)
  with assms(1) show ?thesis by (auto simp: keeps_known_def bind_eq_Some_conv)
next
  case (DM_StartNewNode start)
  with assms(1) show ?thesis by (auto simp: keeps_known_def)
qed (use assms in \<open>auto simp: keeps_known_def [of d "(_, [], _)"] bind_eq_Some_conv
      intro: handle_multi_known log_sync_response_known\<close>)

lemma propose_known:
  "propose_next_index p r d v = Some (out, d') \<Longrightarrow> keeps_known d (out, [], d')"
  by (auto simp: propose_next_index_def keeps_known_def bind_eq_Some_conv Let_def split: prod.splits if_splits)

lemma informs_known: "inform_learned_msgs p d eids = Some out \<Longrightarrow> keeps_known d (out, [], d)"
  by (induction eids arbitrary: out) (auto simp: keeps_known_def bind_eq_Some_conv)

lemma insert_known:
  assumes "insert_bundle p r u d e = Some (out, d')"
  shows "keeps_known d (out, [], d')"
  using assms propose_known [of p r "d\<lparr>next_insert := Some (u, e)\<rparr>"]
  by (auto simp: insert_bundle_def keeps_known_def bind_eq_Some_conv split: if_splits)

lemma timer_known:
  assumes "timer_event p r d e = Some (out, d')"
  shows "keeps_known d (out, [], d')"
proof (cases e)
  case (RetryInsert u)
  with assms propose_known [of p r d] show ?thesis
    by (auto simp: retry_insert_def keeps_known_def bind_eq_Some_conv split: option.splits if_splits)
next
  case LeaderHeartbeat
  with assms propose_known [of p r "d\<lparr>heartbeat := Suc (heartbeat d)\<rparr>"] informs_known [of p]
  show ?thesis
    by (fastforce simp: leader_heartbeat_def broadcast_inform_learned_def keeps_known_def bind_eq_Some_conv
        unat_checked_def Let_def split: if_splits)
next
  case NextIndex
  with assms show ?thesis by (auto simp: next_index_timer_def keeps_known_def)
qed

section \<open>The known indices are behind the real ones\<close>

definition known_ok ::
  "endpoint_id list \<Rightarrow> (endpoint_id \<Rightarrow> 'b paxos_driver) \<Rightarrow> 'b packet list \<Rightarrow> bool" where
  "known_ok nodes D H \<longleftrightarrow>
     (\<forall>p \<in> set nodes. \<forall>q \<in> set nodes.
        \<exists>k \<le> next_index (D q). bm_get (remote_next_indices (D p)) q = Some k) \<and>
     (\<forall>p \<in> set nodes. set (bm_keys (remote_next_indices (D p))) \<subseteq> set nodes) \<and>
     (\<forall>dst q k. (dst, DM_NextIndexResponse q k) \<in> set H \<longrightarrow> k \<le> next_index (D q))"

lemma known_ok_quiet:
  assumes ok: "known_ok nodes D H" and keeps: "keeps_known (D p) (out, es, d')" and es: "no_reconfig es"
  shows "known_ok nodes (D(p := d')) (H @ sends out)"
proof -
  have grow: "next_index (D q) \<le> next_index ((D(p := d')) q)" for q
    using keeps by (simp add: keeps_known_def)
  have same: "remote_next_indices ((D(p := d')) q) = remote_next_indices (D q)" for q
    using keeps es by (simp add: keeps_known_def)
  have new: "(dst, DM_NextIndexResponse q k) \<in> set (H @ sends out) \<longleftrightarrow> (dst, DM_NextIndexResponse q k) \<in> set H"
    for dst q k
    using keeps by (auto simp: keeps_known_def)
  show ?thesis
    unfolding known_ok_def new same
    using ok grow unfolding known_ok_def by (blast intro: order_trans)
qed

lemma known_ok_reply:
  assumes ok: "known_ok nodes D H"
  shows "known_ok nodes D (H @ [(dst, DM_NextIndexResponse p (next_index (D p)))])"
  using ok by (auto simp: known_ok_def)

lemma known_ok_response:
  assumes ok: "known_ok nodes D H" and mem: "(p, DM_NextIndexResponse q index) \<in> set H"
    and p: "p \<in> set nodes" and res: "handle_next_index_response (D p) q index = Some (out, es, d')"
  shows "known_ok nodes (D(p := d')) H \<and> out = [] \<and> es = []"
proof -
  obtain cur where cur: "bm_get (remote_next_indices (D p)) q = Some cur"
    and d': "next_index d' = next_index (D p)"
      "remote_next_indices d' = bm_insert q (max cur index) (remote_next_indices (D p))"
    and out: "out = []" "es = []"
    using res by (auto simp: handle_next_index_response_def Let_def split: option.splits)
  have "(q, cur) \<in> set (remote_next_indices (D p))" using cur by (auto dest: map_of_SomeD)
  then have q: "q \<in> set nodes" using ok p by (force simp: known_ok_def bm_keys_def)
  have idx: "index \<le> next_index (D q)" "cur \<le> next_index (D q)"
    using ok mem p q cur unfolding known_ok_def by force+
  have "\<exists>k \<le> next_index ((D(p := d')) b). bm_get (remote_next_indices ((D(p := d')) a)) b = Some k"
    if "a \<in> set nodes" "b \<in> set nodes" for a b
    using ok that idx d' unfolding known_ok_def by auto
  moreover have "set (bm_keys (remote_next_indices ((D(p := d')) a))) \<subseteq> set nodes" if "a \<in> set nodes" for a
    using ok that q unfolding known_ok_def by (cases "a = p") (auto simp: d' bm_keys_def)
  moreover have "k \<le> next_index ((D(p := d')) a)" if "(dst, DM_NextIndexResponse a k) \<in> set H" for dst a k
    using ok that unfolding known_ok_def by (auto simp: d')
  ultimately show ?thesis using out by (simp add: known_ok_def)
qed

lemma delivered_no_reconfig:
  assumes "sys_inv nodes B s" and "p \<in> set nodes" and "delivered s p = old @ es"
  shows "no_reconfig es"
proof -
  have "plain (\<lambda>_. True) v" if "v \<in> set es" for v
  proof -
    obtain k where "k < length (delivered s p)" "v = delivered s p ! k"
      using \<open>v \<in> set es\<close> assms(3) by (metis in_set_conv_nth Un_iff set_append)
    with delivered_chosen [OF assms(1,2)] chosen_plain [OF assms(1)] have "plain B v" by blast
    then show ?thesis by (cases v) (auto simp: plain_def)
  qed
  then show ?thesis by (simp add: no_reconfig_def list_all_iff)
qed

lemma known_ok_message:
  assumes ok: "known_ok nodes (drv s) (sent s)" and p: "p \<in> set nodes"
    and mem: "\<And>q k. m = DM_NextIndexResponse q k \<Longrightarrow> (p, m) \<in> set (sent s)"
    and res: "handle_paxos_message p (drv s p) m = Some (out, es, d')" and es: "no_reconfig es"
  shows "known_ok nodes ((drv s)(p := d')) (sent s @ sends out)"
proof -
  obtain out1 es1 d1 out2 es2 where r1: "handle_paxos_message_internal p (drv s p) m = Some (out1, es1, d1)"
    and r2: "handle_buffered_messages p d1 = Some (out2, es2, d')" and out: "out = out1 @ out2" "es = es1 @ es2"
    using res by (auto simp: handle_paxos_message_def bind_eq_Some_conv)
  have es': "no_reconfig es1" "no_reconfig es2" using es out by auto
  have "known_ok nodes ((drv s)(p := d1)) (sent s @ sends out1)"
  proof (cases "(\<exists>q. m = DM_NextIndexRequest q) \<or> (\<exists>q k. m = DM_NextIndexResponse q k)")
    case True
    then show ?thesis
    proof (elim disjE exE)
      fix q assume "m = DM_NextIndexRequest q"
      with r1 known_ok_reply [OF ok, of q p] show ?thesis by auto
    next
      fix q k assume "m = DM_NextIndexResponse q k"
      with r1 known_ok_response [OF ok _ p, of q k out1 es1 d1] mem show ?thesis by auto
    qed
  next
    case False
    with known_ok_quiet [OF ok message_internal_known [OF r1] es'(1)] show ?thesis by blast
  qed
  from known_ok_quiet [OF this, of p out2 es2 d'] handle_buffered_known [OF r2] es'(2) show ?thesis
    by (simp add: out)
qed

lemma known_ok_step:
  assumes inv: "sys_inv nodes (\<lambda>_. True) s" and ok: "known_ok nodes (drv s) (sent s)"
    and step: "sys_step nodes s a = Some s'"
  shows "known_ok nodes (drv s') (sent s')"
proof -
  have inv': "sys_inv nodes (\<lambda>_. True) s'" by (rule sys_inv_step [OF inv step]) simp
  show ?thesis
  proof (cases a)
    case (Deliver k)
    let ?N = "take k (net s) @ drop (Suc k) (net s)"
    obtain p m where pm: "net s ! k = (p, m)" by fastforce
    with step Deliver obtain out es d' where k: "k < length (net s)" and p: "p \<in> set nodes"
      and res: "handle_paxos_message p (drv s p) m = Some (out, es, d')"
      and s': "s' = node_result p (out, es, d') (s\<lparr>net := ?N\<rparr>)"
      by (auto split: if_splits)
    have "(p, m) \<in> set (net s)" using k pm by (metis nth_mem)
    then have mem: "(p, m) \<in> set (sent s)" if "m = DM_NextIndexResponse q i" for q i
      using inv that unfolding sys_inv_def sys_ok_def net_sent_def by force
    have "no_reconfig es" using delivered_no_reconfig [OF inv' p] by (simp add: s' node_result_def)
    with known_ok_message [OF ok p mem res] show ?thesis by (simp add: s' node_result_def)
  next
    case (Drop k)
    with step ok show ?thesis by (auto split: if_splits)
  next
    case (Timer p r e)
    with step obtain out d' where "timer_event p r (drv s p) e = Some (out, d')"
      and "s' = node_result p (out, [], d') s" by (auto split: if_splits)
    with known_ok_quiet [OF ok timer_known] show ?thesis by (simp add: node_result_def)
  next
    case (Insert p r u b)
    with step obtain out d' where "insert_bundle p r u (drv s p) (User_Bundle b) = Some (out, d')"
      and "s' = node_result p (out, [], d') s" by (auto split: if_splits)
    with known_ok_quiet [OF ok insert_known] show ?thesis by (simp add: node_result_def)
  qed
qed

lemma known_ok_init:
  assumes "sys_init nodes config = Some s"
  shows "known_ok nodes (drv s) (sent s)"
proof -
  have get: "bm_get (fold (\<lambda>node. bm_insert node (0 :: nat)) ns m) q = (if q \<in> set ns then Some 0 else bm_get m q)"
    for ns :: "endpoint_id list" and m q by (induction ns arbitrary: m) auto
  have keys: "fst ` set (fold (\<lambda>node. bm_insert node (0 :: nat)) ns m) = set ns \<union> fst ` set m" for ns :: "endpoint_id list" and m
    by (induction ns arbitrary: m) auto
  have s: "remote_next_indices (drv s p) = fold (\<lambda>node. bm_insert node 0) nodes []" "sent s = []" for p
    using assms by (auto simp: sys_init_def create_initial_def split: list.splits)
  show ?thesis by (simp add: known_ok_def s get keys bm_keys_def)
qed

lemma sys_reach_known:
  assumes "sys_reach nodes config s" and "distinct nodes"
  shows "known_ok nodes (drv s) (sent s)"
  using assms
  by (induction rule: sys_reach.induct) (auto intro: known_ok_init known_ok_step sys_reach_inv)

section \<open>Properties\<close>

text \<open>
  C22: Discarding is safe. In every reachable state of a group with a fixed configuration, an
  index below a node's \<open>min_complete_index\<close> (whose instance the node drops and whose messages
  it ignores) has been delivered by every node of the group.
\<close>

theorem paxos_purge_safe:
  assumes "sys_reach nodes config s" and "distinct nodes" and "p \<in> set nodes" and "q \<in> set nodes"
    and "i < min_complete_index (drv s p)"
  shows "i < length (delivered s q)"
proof -
  obtain k where k: "k \<le> next_index (drv s q)" "bm_get (remote_next_indices (drv s p)) q = Some k"
    using sys_reach_known [OF assms(1,2)] assms(3,4) unfolding known_ok_def by blast
  from k(2) have "k \<in> snd ` set (remote_next_indices (drv s p))" by (force dest: map_of_SomeD)
  with assms(5) have "i < k" using min_complete_le [of "min_complete_index (drv s p)" "drv s p"] by fastforce
  with k(1) show ?thesis using delivered_length [OF sys_reach_inv [OF assms(1,2)] assms(4)] by simp
qed

definition pair_nodes :: "endpoint_id list" where
  "pair_nodes = map demo_node [''a'', ''b'']"

text \<open>Two drivers agree on a bundle; then \<open>a\<close> asks both for their indices and gets the answers.\<close>

definition pair_actions :: "nat sys_action list" where
  "pair_actions = [Insert (demo_node ''a'') 1 ''u'' 7, Deliver 0, Deliver 0, Deliver 0, Deliver 0, Deliver 0,
     Deliver 0, Deliver 0, Deliver 0, Deliver 0, Deliver 0,
     Timer (demo_node ''a'') 0 NextIndex, Deliver 0, Deliver 0, Deliver 0, Deliver 0]"

definition pair_run :: "nat paxos_sys option" where
  "pair_run = Option.bind (sys_init pair_nodes demo_config) (\<lambda>s. sys_run pair_nodes s pair_actions)"

lemma pair_complete: "map_option (\<lambda>s. min_complete_index (drv s (demo_node ''a''))) pair_run = Some 1"
  by (simp add: pair_run_def pair_nodes_def pair_actions_def paxos_eval
      next_index_timer_def handle_next_index_response_def)

theorem paxos_purge_safe_witness:
  "\<exists>s. pair_run = Some s \<and> 0 < min_complete_index (drv s (demo_node ''a'')) \<and> 0 < length (delivered s (demo_node ''b''))"
proof -
  from pair_complete obtain s where s: "pair_run = Some s" and min: "min_complete_index (drv s (demo_node ''a'')) = 1"
    by auto
  have "sys_reach pair_nodes demo_config s"
    using s by (auto simp: pair_run_def bind_eq_Some_conv intro: sys_run_reach reach_init)
  then have "0 < length (delivered s (demo_node ''b''))"
    by (rule paxos_purge_safe [where p = "demo_node ''a''"]) (simp_all add: min pair_nodes_def, simp_all add: demo_node_def)
  with s min show ?thesis by auto
qed

end
