(* ===== verification/Paxos_Driver.thy ===== *)
theory Paxos_Driver
  imports Paxos
begin

text \<open>
  Properties of a single driver of \<open>src/src/paxos.rs\<close>: the buffers of early messages are
  drained up to \<open>next_index\<close>, and the nodes proposed for removal leave a majority.
\<close>

section \<open>The buffers\<close>

lemma buffer_message_wf: "bm_wf (buffered_messages d) \<Longrightarrow> bm_wf (buffered_messages (buffer_message d multi))"
  by (auto simp: buffer_message_def split: option.split)

lemma handle_multi_wf:
  assumes "handle_multi p d multi = Some (out, es, d')" and "bm_wf (buffered_messages d)"
  shows "bm_wf (buffered_messages d')"
  using handle_multi_fields [OF assms(1)] assms(2) buffer_message_wf by auto

lemma buffered_drained:
  "handle_buffered_messages p d = Some (out, es, d') \<Longrightarrow> bm_wf (buffered_messages d) \<Longrightarrow>
     bm_wf (buffered_messages d') \<and> (\<forall>k \<in> set (bm_keys (buffered_messages d')). next_index d' < k)"
proof (induction p d arbitrary: out es d' rule: handle_buffered_messages.induct)
  case (1 p d)
  show ?case
  proof (cases "\<exists>index messages rest. buffered_messages d = (index, messages) # rest \<and> index \<le> next_index d")
    case False
    then have d': "d' = d"
      using "1.prems"(1) by (auto simp: handle_buffered_messages.simps [of p d] split: list.splits)
    show ?thesis
    proof (cases "buffered_messages d")
      case (Cons e rest)
      with False have "next_index d < fst e" by (cases e) auto
      with Cons "1.prems"(2) show ?thesis by (auto simp: d' bm_wf_def bm_keys_def)
    qed (simp add: d' bm_wf_def bm_keys_def)
  next
    case True
    then obtain index messages rest where
      buf: "buffered_messages d = (index, messages) # rest" and low: "index \<le> next_index d" by blast
    show ?thesis
    proof (cases messages)
      case Nil
      have "handle_buffered_messages p (d\<lparr>buffered_messages := bm_remove index (buffered_messages d)\<rparr>) =
          Some (out, es, d')"
        using "1.prems"(1) buf low Nil by (simp add: handle_buffered_messages.simps [of p d])
      from "1.IH"(1) [OF buf refl low Nil this] "1.prems"(2) show ?thesis by simp
    next
      case (Cons multi messages')
      let ?d = "d\<lparr>buffered_messages := (index, messages') # rest\<rparr>"
      obtain out1 es1 d1 out2 es2 where
        step: "handle_multi p ?d multi = Some (out1, es1, d1)" and
        rec: "handle_buffered_messages p d1 = Some (out2, es2, d')"
        using "1.prems"(1) buf low Cons
        by (auto simp: handle_buffered_messages.simps [of p d] bind_eq_Some_conv)
      have "bm_wf (buffered_messages ?d)" using "1.prems"(2) buf by (simp add: bm_wf_def)
      from "1.IH"(2) [OF buf refl low Cons step refl refl rec] handle_multi_wf [OF step this] show ?thesis
        by blast
    qed
  qed
qed
section \<open>Nothing is left to deliver\<close>

definition settled :: "'b paxos_driver \<Rightarrow> bool" where
  "settled d \<longleftrightarrow> learned_at d (next_index d) = None"

lemma deliver_loop_settled: "deliver_loop d = (es, d') \<Longrightarrow> settled d'"
proof (induction d arbitrary: es d' rule: deliver_loop.induct)
  case (1 d)
  show ?case
  proof (cases "learned_at d (next_index d)")
    case None
    with "1.prems" show ?thesis by (simp add: deliver_loop.simps settled_def)
  next
    case (Some rv)
    obtain r v where rv: "rv = (r, v)" by fastforce
    from "1.prems" Some rv obtain es' where
      "deliver_loop (process_entry v (d\<lparr>next_index := next_index d + 1\<rparr>)) = (es', d')"
      by (auto simp: deliver_loop.simps [of d] split: prod.splits)
    from "1.IH" [OF Some rv [symmetric] this] show ?thesis .
  qed
qed

lemma deliver_settled: "deliver_learned_entries d = (es, d') \<Longrightarrow> settled d'"
  using deliver_loop_settled [of d]
  by (auto simp: deliver_learned_entries_def settled_def learned_at_def split: prod.splits if_splits)

lemma settled_put:
  assumes "settled d" and "ensure_instance d j = (entry, x)"
  shows "settled (put_instance d j entry x')"
  using assms by (auto simp: settled_def learned_at_def put_instance_def ensure_instance_def split: option.splits)

lemma handle_multi_settled:
  assumes "handle_multi p d multi = Some (out, es, d')" and "settled d"
  shows "settled d'"
proof (cases "is_dropped_prepare d multi \<or> mp_index multi < min_complete_index d \<or> next_index d < mp_index multi")
  case True
  with assms have "learned_at d' = learned_at d" "next_index d' = next_index d"
    by (auto simp: handle_multi_def buffer_message_def learned_at_def fun_eq_iff split: if_splits)
  with assms(2) show ?thesis by (simp add: settled_def)
next
  case False
  obtain entry x where e: "ensure_instance d (mp_index multi) = (entry, x)" by fastforce
  note put = settled_put [OF assms(2) e]
  from False assms(1) show ?thesis
    by (cases "mp_message multi")
      (auto simp: handle_multi_def handler_defs e Let_def put bind_eq_Some_conv learn_and_deliver_def
        dest: deliver_settled split: if_splits option.splits prod.splits)
qed

lemma handle_buffered_settled:
  "handle_buffered_messages p d = Some (out, es, d') \<Longrightarrow> settled d \<Longrightarrow> settled d'"
proof (induction p d arbitrary: out es d' rule: handle_buffered_messages.induct)
  case (1 p d)
  have same: "settled (d\<lparr>buffered_messages := b\<rparr>)" for b
    using "1.prems"(2) by (simp add: settled_def learned_at_def)
  show ?case
  proof (cases "\<exists>index messages rest. buffered_messages d = (index, messages) # rest \<and> index \<le> next_index d")
    case False
    then show ?thesis
      using "1.prems" by (auto simp: handle_buffered_messages.simps [of p d] split: list.splits)
  next
    case True
    then obtain index messages rest where
      buf: "buffered_messages d = (index, messages) # rest" and low: "index \<le> next_index d" by blast
    show ?thesis
    proof (cases messages)
      case Nil
      have "handle_buffered_messages p (d\<lparr>buffered_messages := bm_remove index (buffered_messages d)\<rparr>) =
          Some (out, es, d')"
        using "1.prems"(1) buf low Nil by (simp add: handle_buffered_messages.simps [of p d])
      from "1.IH"(1) [OF buf refl low Nil this same] show ?thesis .
    next
      case (Cons multi messages')
      let ?d = "d\<lparr>buffered_messages := (index, messages') # rest\<rparr>"
      obtain out1 es1 d1 out2 es2 where
        step: "handle_multi p ?d multi = Some (out1, es1, d1)" and
        rec: "handle_buffered_messages p d1 = Some (out2, es2, d')"
        using "1.prems"(1) buf low Cons
        by (auto simp: handle_buffered_messages.simps [of p d] bind_eq_Some_conv)
      from "1.IH"(2) [OF buf refl low Cons step refl refl rec handle_multi_settled [OF step same]] show ?thesis .
    qed
  qed
qed

text \<open>What the handler of a message leaves, before the buffers are drained again.\<close>

lemma buffered_fields_wf:
  assumes "handle_buffered_messages p d = Some (out, es, d')" and "bm_wf (buffered_messages d)" and "settled d"
  shows "bm_wf (buffered_messages d') \<and> settled d'"
  using buffered_drained [OF assms(1,2)] handle_buffered_settled [OF assms(1,3)] by blast

lemma inform_learned_settled:
  "inform_learned_loop p q sl d = Some (out, es, d') \<Longrightarrow> bm_wf (buffered_messages d) \<Longrightarrow> settled d \<Longrightarrow>
     bm_wf (buffered_messages d') \<and> settled d'"
proof (induction p q sl d arbitrary: out es d' rule: inform_learned_loop.induct)
  case (1 p q sl d)
  obtain out1 es1 d1 where b: "handle_buffered_messages p d = Some (out1, es1, d1)"
    using "1.prems"(1) by (auto simp: inform_learned_loop.simps [of p q sl d] bind_eq_Some_conv)
  note ok = buffered_fields_wf [OF b "1.prems"(2,3)]
  note res = "1.prems"(1) [unfolded inform_learned_loop.simps [of p q sl d] b, simplified]
  show ?case
  proof (cases "\<exists>r ev. bm_get sl (next_index d1) = Some r \<and> usable_learned d1 r = Some ev")
    case False
    with res have "d' = d1" by (auto split: option.splits)
    with ok show ?thesis by simp
  next
    case True
    then obtain r entry v where r: "bm_get sl (next_index d1) = Some r"
      and ev: "usable_learned d1 r = Some (entry, v)" by fastforce
    let ?d = "d1\<lparr>paxos_instances := bm_insert (next_index d1)
        (entry\<lparr>learned_rnd_val := Some (r, v)\<rparr>) (paxos_instances d1)\<rparr>"
    obtain es2 d2 where del: "deliver_learned_entries ?d = (es2, d2)" by fastforce
    obtain out3 es3 where rec: "inform_learned_loop p q sl d2 = Some (out3, es3, d')"
      using res r ev del by (auto simp: bind_eq_Some_conv)
    have "bm_wf (buffered_messages d2)" using deliver_learned_fields [OF del] ok by simp
    with "1.IH" [OF b refl refl r ev refl del [symmetric] rec] deliver_settled [OF del] show ?thesis by blast
  qed
qed

lemma sync_fold_buffers [simp]: "buffered_messages (fold sync_learned ivs d) = buffered_messages d"
  by (induction ivs arbitrary: d) (auto simp: sync_learned_def split: prod.splits option.splits)

lemma log_sync_settled:
  assumes "handle_log_sync_response p d response = Some (out, es, d')" and "bm_wf (buffered_messages d)"
  shows "bm_wf (buffered_messages d') \<and> settled d'"
proof -
  obtain es1 d1 es2 where del: "deliver_learned_entries (fold sync_learned response d) = (es1, d1)"
    and buf: "handle_buffered_messages p d1 = Some (out, es2, d')"
    using assms(1) by (auto simp: handle_log_sync_response_def bind_eq_Some_conv split: prod.splits)
  have "bm_wf (buffered_messages d1)" using deliver_learned_fields [OF del] assms(2) by simp
  from buffered_fields_wf [OF buf this deliver_settled [OF del]] show ?thesis .
qed

lemma map_of_fold_remove: "map_of (fold bm_remove ks m) i = (if i \<in> set ks then None else map_of m i)"
  by (induction ks arbitrary: m) auto

lemma message_internal_settled:
  assumes "handle_paxos_message_internal p d m = Some (out, es, d')"
    and "bm_wf (buffered_messages d)" and "settled d"
  shows "bm_wf (buffered_messages d') \<and> settled d'"
proof (cases m)
  case (DM_MultiPaxosMessage multi)
  with assms show ?thesis by (auto intro: handle_multi_wf handle_multi_settled)
next
  case (DM_InformLearned q sl)
  with assms show ?thesis by (auto dest: inform_learned_settled)
next
  case (DM_LogSyncResponse response)
  with assms show ?thesis by (auto dest: log_sync_settled)
next
  case (DM_NextIndexResponse q index)
  with assms show ?thesis
    by (auto simp: handle_next_index_response_def settled_def learned_at_def map_of_fold_remove Let_def
        split: option.splits if_splits)
qed (use assms in \<open>auto simp: settled_def learned_at_def bind_eq_Some_conv\<close>)

section \<open>Nodes to remove\<close>

lemma maybe_dead_loop_spec:
  "maybe_dead_loop d cur rs acc = Some eids \<Longrightarrow> max_reconfig_size d = Some sz \<Longrightarrow> length acc \<le> sz \<Longrightarrow>
     length eids \<le> sz \<and>
     (\<exists>new. eids = acc @ new \<and> set new \<subseteq> {eid. eid \<noteq> cur \<and> (\<exists>i. (eid, i) \<in> set rs \<and>
        i + remote_next_index_thresh (paxos_config d) < next_index d)} \<and> length new \<le> length rs \<and>
        (distinct (map fst rs) \<longrightarrow> distinct new))"
proof (induction rs arbitrary: acc)
  case (Cons e rs)
  obtain eid i where e: "e = (eid, i)" by fastforce
  show ?case
  proof (cases "eid \<noteq> cur \<and> length acc < sz \<and> i + remote_next_index_thresh (paxos_config d) < next_index d")
    case True
    then have "maybe_dead_loop d cur rs (acc @ [eid]) = Some eids" using Cons.prems by (simp add: e)
    from Cons.IH [OF this Cons.prems(2)] True obtain new where
      new: "length eids \<le> sz" "eids = acc @ eid # new" "set new \<subseteq> {eid. eid \<noteq> cur \<and> (\<exists>i. (eid, i) \<in> set rs \<and>
        i + remote_next_index_thresh (paxos_config d) < next_index d)}" "length new \<le> length rs"
        "distinct (map fst rs) \<longrightarrow> distinct new" by auto
    have "distinct (map fst (e # rs)) \<longrightarrow> distinct (eid # new)" using new(3,5) by (force simp: e)
    with new True show ?thesis by (intro conjI exI [of _ "eid # new"]) (auto simp: e)
  next
    case False
    then have "maybe_dead_loop d cur rs acc = Some eids" using Cons.prems by (auto simp: e split: if_splits)
    from Cons.IH [OF this Cons.prems(2,3)] show ?thesis by (fastforce simp: e)
  qed
qed simp

section \<open>Properties\<close>

text \<open>
  C23: What a driver holds after a message. The handler of any message, when it does not panic,
  leaves no buffered message of an index up to \<open>next_index\<close> and no learned value at
  \<open>next_index\<close>: everything that can be processed or delivered has been, as the comment on
  \<open>handle_buffered_messages\<close> demands.
\<close>

theorem handle_paxos_message_settles:
  assumes "handle_paxos_message this_eid d message = Some (out, es, d')"
    and "bm_wf (buffered_messages d)" and "settled d"
  shows "settled d' \<and> bm_wf (buffered_messages d') \<and>
    (\<forall>k \<in> set (bm_keys (buffered_messages d')). next_index d' < k)"
proof -
  obtain out1 es1 d1 out2 es2 where r1: "handle_paxos_message_internal this_eid d message = Some (out1, es1, d1)"
    and r2: "handle_buffered_messages this_eid d1 = Some (out2, es2, d')"
    using assms(1) by (auto simp: handle_paxos_message_def bind_eq_Some_conv)
  note ok = message_internal_settled [OF r1 assms(2,3)]
  with buffered_drained [OF r2] handle_buffered_settled [OF r2] show ?thesis by blast
qed

definition solo_driver :: "nat paxos_driver" where
  "solo_driver =
     \<lparr>paxos_config = \<lparr>heartbeat_threshold = 5, heartbeat_period_ms = Timestamp 1 0,
        next_index_period_ms = Timestamp 1 0, retry_defer_time_ms = Timestamp 1 0, proposal_increment = 10,
        remote_next_index_thresh = 2, cfg_max_failable = 1\<rparr>,
      paxos_nodes = map (\<lambda>n. EndpointId n Internal) [''a'', ''b'', ''c'', ''d'', ''e''],
      remote_next_indices = map (\<lambda>n. (EndpointId n Internal, if n = ''b'' then 0 else 4)) [''a'', ''b'', ''c'', ''d'', ''e''],
      next_index = 4, paxos_instances = [],
      buffered_messages = [(5, [Multi (EndpointId ''b'' Internal) [] 5 (Learn 1)])],
      leader = \<lparr>lid_gen = 0, lid_eid = EndpointId ''a'' Internal\<rparr>, heartbeat = 0,
      unconfirmed_eids = [], next_insert = None\<rparr>"

theorem handle_paxos_message_settles_witness:
  "case handle_paxos_message (EndpointId ''a'' Internal) solo_driver (DM_LogSyncResponse [(4, 1, PL_Bundle 9)]) of
     Some (out, es, d') \<Rightarrow> es = [PL_Bundle 9] \<and> settled d' \<and> buffered_messages d' = []
   | None \<Rightarrow> False"
proof -
  have "\<exists>out d'. handle_paxos_message (EndpointId ''a'' Internal) solo_driver (DM_LogSyncResponse [(4, 1, PL_Bundle 9)]) =
      Some (out, [PL_Bundle 9], d') \<and> buffered_messages d' = []"
    by (simp add: solo_driver_def handle_paxos_message_def handle_log_sync_response_def sync_learned_def
        deliver_learned_entries_def deliver_loop.simps learned_at_def handle_buffered_messages.simps
        handle_multi_def is_dropped_prepare_def min_complete_index_def handle_learn_def ensure_instance_def
        put_instance_def paxos_instance_new_def unat_checked_def majority_def bm_remove_def Let_def)
  then obtain out d' where
    "handle_paxos_message (EndpointId ''a'' Internal) solo_driver (DM_LogSyncResponse [(4, 1, PL_Bundle 9)]) =
      Some (out, [PL_Bundle 9], d')" "buffered_messages d' = []" by blast
  moreover from handle_paxos_message_settles [OF this(1)] have "settled d'"
    by (simp add: solo_driver_def settled_def learned_at_def)
  ultimately show ?thesis by simp
qed

text \<open>
  C24: Nodes proposed for removal. \<open>get_maybe_dead\<close> names distinct nodes other than the caller
  whose known index lags behind by more than the threshold, and so few of them that even if
  \<open>max_failable\<close> more nodes fail, they are a strict minority of the group (whenever the group
  tolerates \<open>max_failable\<close> failures at all).
\<close>

theorem get_maybe_dead_minority:
  assumes "get_maybe_dead d cur_eid = Some eids" and "paxos_nodes d \<noteq> []"
    and "bm_wf (remote_next_indices d)"
  shows "distinct eids \<and> cur_eid \<notin> set eids \<and>
    (\<forall>eid \<in> set eids. \<exists>i. bm_get (remote_next_indices d) eid = Some i \<and>
       i + remote_next_index_thresh (paxos_config d) < next_index d) \<and>
    (2 * max_failable d < paxos_group_size d \<longrightarrow> 2 * (length eids + max_failable d) < paxos_group_size d) \<and>
    (paxos_group_size d \<le> 2 * max_failable d \<longrightarrow> eids = [])"
proof -
  obtain sz where sz: "max_reconfig_size d = Some sz"
    using assms(2) by (auto simp: max_reconfig_size_def paxos_group_size_def Let_def)
  have bound: "2 * max_failable d < paxos_group_size d \<longrightarrow> 2 * (sz + max_failable d) < paxos_group_size d"
    "paxos_group_size d \<le> 2 * max_failable d \<longrightarrow> sz = 0"
    using sz by (auto simp: max_reconfig_size_def Let_def split: if_splits; presburger)+
  from maybe_dead_loop_spec [OF assms(1) [unfolded get_maybe_dead_def] sz]
  have eids: "length eids \<le> sz" "set eids \<subseteq> {eid. eid \<noteq> cur_eid \<and> (\<exists>i. (eid, i) \<in> set (remote_next_indices d) \<and>
        i + remote_next_index_thresh (paxos_config d) < next_index d)}" "distinct eids"
    using bm_wf_distinct [OF assms(3)] by auto
  with bound bm_get_set [OF assms(3)] show ?thesis by fastforce
qed

theorem get_maybe_dead_minority_witness:
  "get_maybe_dead solo_driver (EndpointId ''a'' Internal) = Some [EndpointId ''b'' Internal] \<and>
     2 * (length [EndpointId ''b'' Internal] + max_failable solo_driver) < paxos_group_size solo_driver"
proof -
  have dead: "get_maybe_dead solo_driver (EndpointId ''a'' Internal) = Some [EndpointId ''b'' Internal]"
    by (simp add: get_maybe_dead_def solo_driver_def max_reconfig_size_def paxos_group_size_def
        max_failable_def Let_def)
  have "paxos_nodes solo_driver \<noteq> []" "bm_wf (remote_next_indices solo_driver)"
    by (simp_all add: solo_driver_def less_endpoint_id_def eid_rank_def)
  from get_maybe_dead_minority [OF dead this] show ?thesis
    using dead by (auto simp: max_failable_def paxos_group_size_def solo_driver_def)
qed

end
