(* ===== verification/Free_Node_Manager.thy ===== *)
theory Free_Node_Manager
  imports Schema
begin

text \<open>
  The free node manager of the master, \<open>src/src/free_node_manager.rs\<close>: the heartbeats of the
  nodes that belong to no group, the requests for nodes by reconfigurations, and \<open>process\<close>,
  which hands free nodes out to reconfigurations and to new slave groups. The manager's
  decisions are persisted as a \<open>FreeNodeManagerPLm\<close> and only take effect in \<open>handle_plm\<close>.
  Of the master's context the manager reads its own endpoint, the leader map and the two
  sizes of the configuration. The identifiers drawn at random are functions of the number
  of the draw. \<open>None\<close> is a panic; in \<open>process\<close> it is also the loop over the slave groups that
  never ends when \<open>slave_group_size\<close> is 0.
\<close>

section \<open>Data\<close>

datatype free_node_type = NewSlaveFreeNode | ReconfigFreeNode

instantiation free_node_type :: linorder
begin

definition less_eq_free_node_type :: "free_node_type \<Rightarrow> free_node_type \<Rightarrow> bool" where
  "a \<le> b \<longleftrightarrow> a = NewSlaveFreeNode \<or> b = ReconfigFreeNode"

definition less_free_node_type :: "free_node_type \<Rightarrow> free_node_type \<Rightarrow> bool" where
  "a < b \<longleftrightarrow> a = NewSlaveFreeNode \<and> b = ReconfigFreeNode"

instance
proof
  fix x y :: free_node_type
  show "x \<le> y \<or> y \<le> x" by (cases x) (auto simp: less_eq_free_node_type_def)
  show "(x < y) = (x \<le> y \<and> \<not> y \<le> x)"
    by (cases x; cases y) (auto simp: less_eq_free_node_type_def less_free_node_type_def)
qed (auto simp: less_eq_free_node_type_def intro: free_node_type.exhaust)

end

type_synonym slave_groups = "(slave_group_id, endpoint_id list \<times> coord_group_id list) btree"

record free_node_plm =
  new_slave_groups :: slave_groups
  new_nodes :: "(endpoint_id \<times> free_node_type) list"
  nodes_dead :: "endpoint_id list"
  granted_reconfig_eids :: "(paxos_group_id, endpoint_id list) btree"

definition HEARTBEAT_DEAD_THRESHOLD :: nat where "HEARTBEAT_DEAD_THRESHOLD = 6"

definition HEARTBEAT_BACKUP_VALUE :: nat where "HEARTBEAT_BACKUP_VALUE = 3"

record free_node_manager =
  free_nodes :: "(endpoint_id, free_node_type) btree"
  pending_new_free_nodes :: "(endpoint_id \<times> free_node_type) bset"
  free_node_heartbeat :: "(endpoint_id, nat) btree"
  requested_reconfig_eids :: "(paxos_group_id, nat) btree"

record master_ctx =
  mc_this_eid :: endpoint_id
  mc_leader_map :: "leader_map versioned_value"
  slave_group_size :: nat
  num_coords :: nat

datatype free_node_msg = FreeNodeRegistered leadership_id | ShutdownNode

definition master_lid :: "master_ctx \<Rightarrow> leadership_id option" where
  "master_lid ctx = bm_get (vv_value (mc_leader_map ctx)) MasterGid"

definition master_is_leader :: "master_ctx \<Rightarrow> bool option" where
  "master_is_leader ctx = map_option (\<lambda>lid. lid_eid lid = mc_this_eid ctx) (master_lid ctx)"

section \<open>Operations\<close>

definition fnm_new :: free_node_manager where
  "fnm_new = \<lparr>free_nodes = [], pending_new_free_nodes = [], free_node_heartbeat = [], requested_reconfig_eids = []\<rparr>"

definition fnm_create_reconfig :: "(endpoint_id, free_node_type) btree \<Rightarrow> free_node_manager" where
  "fnm_create_reconfig nodes =
     \<lparr>free_nodes = nodes, pending_new_free_nodes = [],
      free_node_heartbeat = fold (\<lambda>(eid, _). bm_insert eid 0) nodes [], requested_reconfig_eids = []\<rparr>"

definition handle_register :: "endpoint_id \<Rightarrow> free_node_type \<Rightarrow> free_node_manager \<Rightarrow> free_node_manager" where
  "handle_register sender_eid node_type m =
     m\<lparr>pending_new_free_nodes := bs_insert (sender_eid, node_type) (pending_new_free_nodes m)\<rparr>"

definition handle_heartbeat ::
  "master_ctx \<Rightarrow> endpoint_id \<Rightarrow> leadership_id \<Rightarrow> free_node_manager \<Rightarrow> free_node_manager option" where
  "handle_heartbeat ctx sender_eid heartbeat_lid m =
     do { leading \<leftarrow> master_is_leader ctx;
          if \<not> leading then None
          else
            do { cur_lid \<leftarrow> master_lid ctx;
                 Some (if heartbeat_lid = cur_lid \<and> bm_contains (free_node_heartbeat m) sender_eid
                       then m\<lparr>free_node_heartbeat := bm_modify sender_eid (\<lambda>_. 0) (free_node_heartbeat m)\<rparr>
                       else m) } }"

definition fnm_handle_timer :: "master_ctx \<Rightarrow> free_node_manager \<Rightarrow> free_node_manager option" where
  "fnm_handle_timer ctx m =
     do { leading \<leftarrow> master_is_leader ctx;
          if leading then
            (if list_all (\<lambda>(_, count). count + 1 < 2 ^ 32) (free_node_heartbeat m)
             then Some (m\<lparr>free_node_heartbeat := bm_map_values (\<lambda>count. count + 1) (free_node_heartbeat m)\<rparr>)
             else None)
          else Some m }"

definition fnm_leader_changed :: "master_ctx \<Rightarrow> free_node_manager \<Rightarrow> free_node_manager option" where
  "fnm_leader_changed ctx m =
     do { leading \<leftarrow> master_is_leader ctx;
          Some (if \<not> leading then
                  m\<lparr>pending_new_free_nodes := [],
                    free_node_heartbeat := bm_map_values (\<lambda>_. HEARTBEAT_BACKUP_VALUE) (free_node_heartbeat m),
                    requested_reconfig_eids := []\<rparr>
                else m) }"

definition request_new_eids :: "paxos_group_id \<Rightarrow> nat \<Rightarrow> free_node_manager \<Rightarrow> free_node_manager" where
  "request_new_eids gid count m =
     m\<lparr>requested_reconfig_eids := bm_insert gid count (requested_reconfig_eids m)\<rparr>"

definition add_free_node :: "endpoint_id \<times> free_node_type \<Rightarrow> free_node_manager \<Rightarrow> free_node_manager" where
  "add_free_node n m =
     m\<lparr>free_nodes := bm_insert (fst n) (snd n) (free_nodes m),
       free_node_heartbeat := bm_insert (fst n) 0 (free_node_heartbeat m)\<rparr>"

definition remove_free_node :: "endpoint_id \<Rightarrow> free_node_manager \<Rightarrow> free_node_manager" where
  "remove_free_node eid m =
     m\<lparr>free_nodes := bm_remove eid (free_nodes m),
       free_node_heartbeat := bm_remove eid (free_node_heartbeat m)\<rparr>"

text \<open>
  The messages of \<open>handle_plm\<close> are only sent by the leader; a new slave group without nodes panics.
  The master's leader map always has the entry of the master's own group (the code keeps one
  entry per group), so it is looked up once here and not once per node. The trace for tests is left out.
\<close>

definition fnm_handle_plm ::
  "master_ctx \<Rightarrow> free_node_plm \<Rightarrow> free_node_manager
    \<Rightarrow> ((endpoint_id \<times> free_node_msg) list \<times> slave_groups \<times> free_node_manager) option" where
  "fnm_handle_plm ctx plm m =
     do { leading \<leftarrow> master_is_leader ctx;
          cur_lid \<leftarrow> master_lid ctx;
          if list_ex (\<lambda>(_, eids, _). eids = []) (new_slave_groups plm) then None
          else
            (let m1 = fold add_free_node (new_nodes plm) m;
                 m2 = fold remove_free_node (nodes_dead plm) m1;
                 m3 = fold (\<lambda>(_, eids). fold remove_free_node eids) (granted_reconfig_eids plm) m2;
                 m4 = fold (\<lambda>(_, eids, _). fold remove_free_node eids) (new_slave_groups plm) m3
             in Some
                  (if leading
                   then map (\<lambda>(eid, _). (eid, FreeNodeRegistered cur_lid)) (new_nodes plm) @
                        map (\<lambda>eid. (eid, ShutdownNode)) (nodes_dead plm)
                   else [],
                   new_slave_groups plm, m4)) }"

text \<open>The two sets \<open>available_reconfig_nodes\<close> and \<open>available_slave_nodes\<close>.\<close>

type_synonym available = "endpoint_id bset \<times> endpoint_id bset"

definition add_available :: "endpoint_id \<times> free_node_type \<Rightarrow> available \<Rightarrow> available" where
  "add_available n av =
     (case snd n of
        ReconfigFreeNode \<Rightarrow> (bs_insert (fst n) (fst av), snd av)
      | NewSlaveFreeNode \<Rightarrow> (fst av, bs_insert (fst n) (snd av)))"

fun add_alive ::
  "(endpoint_id, nat) btree \<Rightarrow> (endpoint_id \<times> free_node_type) list \<Rightarrow> available \<Rightarrow> available option" where
  "add_alive hb [] av = Some av"
| "add_alive hb (n # ns) av =
     do { count \<leftarrow> bm_get hb (fst n);
          add_alive hb ns (if count < HEARTBEAT_BACKUP_VALUE then add_available n av else av) }"

definition available_nodes :: "free_node_manager \<Rightarrow> free_node_plm \<Rightarrow> available option" where
  "available_nodes m plm =
     do { av1 \<leftarrow> add_alive (free_node_heartbeat m) (free_nodes m) ([], []);
          let av2 = fold add_available (free_nodes m @ new_nodes plm) av1;
          Some (fold (\<lambda>eid av. (bs_remove eid (fst av), bs_remove eid (snd av))) (nodes_dead plm) av2) }"

text \<open>A request that cannot be met in full ends the granting.\<close>

fun grant_loop ::
  "(paxos_group_id \<times> nat) list \<Rightarrow> endpoint_id list \<Rightarrow> (paxos_group_id, nat) btree
    \<Rightarrow> (paxos_group_id, endpoint_id list) btree
    \<Rightarrow> (paxos_group_id, nat) btree \<times> (paxos_group_id, endpoint_id list) btree" where
  "grant_loop [] it requested granted = (requested, granted)"
| "grant_loop ((gid, count) # rest) it requested granted =
     (if count \<le> length it
      then grant_loop rest (drop count it) (bm_remove gid requested) (bm_insert gid (take count it) granted)
      else (requested, granted))"

function slave_group_loop ::
  "nat \<Rightarrow> nat \<Rightarrow> (nat \<Rightarrow> slave_group_id) \<Rightarrow> (nat \<Rightarrow> nat \<Rightarrow> coord_group_id) \<Rightarrow> nat \<Rightarrow> endpoint_id list
    \<Rightarrow> slave_groups \<Rightarrow> slave_groups option" where
  "slave_group_loop group_size coords mk_sid mk_cid k it groups =
     (if group_size = 0 then None
      else if group_size \<le> length it
      then slave_group_loop group_size coords mk_sid mk_cid (Suc k) (drop group_size it)
             (bm_insert (mk_sid k) (take group_size it, map (mk_cid k) [0..<coords]) groups)
      else Some groups)"
  by pat_completeness auto
termination
  by (relation "measure (\<lambda>(_, _, _, _, _, it, _). length it)") auto

declare slave_group_loop.simps [simp del]

text \<open>Returns the granted nodes, the \<open>PLm\<close> added to the bundle, and the manager.\<close>

definition process ::
  "master_ctx \<Rightarrow> (nat \<Rightarrow> slave_group_id) \<Rightarrow> (nat \<Rightarrow> nat \<Rightarrow> coord_group_id) \<Rightarrow> free_node_manager
    \<Rightarrow> ((paxos_group_id, endpoint_id list) btree \<times> free_node_plm \<times> free_node_manager) option" where
  "process ctx mk_sid mk_cid m =
     do { leading \<leftarrow> master_is_leader ctx;
          if \<not> leading then None
          else
            do { let plm = \<lparr>new_slave_groups = [], new_nodes = pending_new_free_nodes m,
                       nodes_dead = map fst (filter (\<lambda>(_, count). count \<ge> HEARTBEAT_DEAD_THRESHOLD) (free_node_heartbeat m)),
                       granted_reconfig_eids = []\<rparr>;
                 let m1 = m\<lparr>pending_new_free_nodes := []\<rparr>;
                 (reconfig_nodes, slave_nodes) \<leftarrow> available_nodes m1 plm;
                 let (requested, granted) =
                   grant_loop (requested_reconfig_eids m1) reconfig_nodes (requested_reconfig_eids m1) [];
                 groups \<leftarrow> slave_group_loop (slave_group_size ctx) (num_coords ctx) mk_sid mk_cid 0 slave_nodes [];
                 Some (granted, plm\<lparr>granted_reconfig_eids := granted, new_slave_groups := groups\<rparr>,
                       m1\<lparr>requested_reconfig_eids := requested\<rparr>) } }"

definition free_node_eids :: "free_node_manager \<Rightarrow> endpoint_id list" where
  "free_node_eids m = bm_keys (free_nodes m)"
section \<open>The invariant\<close>

definition fnm_ok :: "free_node_manager \<Rightarrow> bool" where
  "fnm_ok m \<longleftrightarrow>
     bm_wf (free_nodes m) \<and> bm_wf (free_node_heartbeat m) \<and>
     fst ` set (free_nodes m) = fst ` set (free_node_heartbeat m) \<and>
     bs_wf (pending_new_free_nodes m) \<and> bm_wf (requested_reconfig_eids m)"

lemma fnm_ok_add: "fnm_ok m \<Longrightarrow> fnm_ok (add_free_node n m)"
  by (simp add: fnm_ok_def add_free_node_def)

lemma fnm_ok_remove: "fnm_ok m \<Longrightarrow> fnm_ok (remove_free_node eid m)"
  by (simp add: fnm_ok_def remove_free_node_def)

lemma fold_inv: "(\<And>x s. P s \<Longrightarrow> P (f x s)) \<Longrightarrow> P s \<Longrightarrow> P (fold f xs s)"
  by (induction xs arbitrary: s) auto

lemma handle_plm_state:
  "fnm_handle_plm ctx plm m = Some (msgs, groups, m') \<Longrightarrow>
     m' = fold (\<lambda>(_, eids, _). fold remove_free_node eids) (new_slave_groups plm)
       (fold (\<lambda>(_, eids). fold remove_free_node eids) (granted_reconfig_eids plm)
         (fold remove_free_node (nodes_dead plm) (fold add_free_node (new_nodes plm) m)))"
  by (auto simp: fnm_handle_plm_def bind_eq_Some_conv Let_def split: if_splits)

lemma fnm_ok_handle_plm:
  assumes "fnm_ok m" and "fnm_handle_plm ctx plm m = Some (msgs, groups, m')"
  shows "fnm_ok m'"
proof -
  note handle_plm_state [OF assms(2)]
  moreover have "fnm_ok (fold remove_free_node eids m)" if "fnm_ok m" for eids m
    using that by (rule fold_inv [rotated]) (rule fnm_ok_remove)
  ultimately show ?thesis
    using assms(1) by (auto intro!: fold_inv fnm_ok_add fnm_ok_remove)
qed

lemma keys_remove_free [simp]:
  "fst ` set (free_nodes (remove_free_node eid m)) = fst ` set (free_nodes m) - {eid}"
  by (simp add: remove_free_node_def)

lemma keys_fold_remove:
  "fst ` set (free_nodes (fold remove_free_node eids m)) = fst ` set (free_nodes m) - set eids"
  by (induction eids arbitrary: m) auto

lemma keys_fold_add:
  "fst ` set (free_nodes (fold add_free_node ns m)) = fst ` set (free_nodes m) \<union> fst ` set ns"
  by (induction ns arbitrary: m) (auto simp: add_free_node_def)

lemma keys_fold_groups:
  "fst ` set (free_nodes (fold (\<lambda>x. fold remove_free_node (f x)) gs m)) =
     fst ` set (free_nodes m) - (\<Union>x \<in> set gs. set (f x))"
  by (induction gs arbitrary: m) (auto simp: keys_fold_remove)

lemma handle_plm_free:
  assumes "fnm_handle_plm ctx plm m = Some (msgs, groups, m')"
  shows "fst ` set (free_nodes m') =
    fst ` set (free_nodes m) \<union> fst ` set (new_nodes plm) - set (nodes_dead plm) -
      (\<Union>(_, eids) \<in> set (granted_reconfig_eids plm). set eids) -
      (\<Union>(_, eids, _) \<in> set (new_slave_groups plm). set eids)"
  unfolding handle_plm_state [OF assms] case_prod_unfold
  by (simp add: keys_fold_groups keys_fold_remove keys_fold_add)

section \<open>Handing nodes out\<close>

text \<open>The nodes of a type that the sets are built from: those that are free or about to be, and not dead.\<close>

definition not_dead :: "free_node_type \<Rightarrow> free_node_manager \<Rightarrow> endpoint_id set" where
  "not_dead t m =
     {eid. (eid, t) \<in> set (free_nodes m) \<union> set (pending_new_free_nodes m) \<and>
        (\<forall>count. bm_get (free_node_heartbeat m) eid = Some count \<longrightarrow> count < HEARTBEAT_DEAD_THRESHOLD)}"




lemma fold_add_available:
  "set (fst (fold add_available ns av)) = set (fst av) \<union> {e. (e, ReconfigFreeNode) \<in> set ns} \<and>
   set (snd (fold add_available ns av)) = set (snd av) \<union> {e. (e, NewSlaveFreeNode) \<in> set ns}"
  by (induction ns arbitrary: av) (auto simp: add_available_def split: free_node_type.splits)

lemma add_alive_subset:
  "add_alive hb ns av = Some av' \<Longrightarrow>
     set (fst av') \<subseteq> set (fst av) \<union> {e. (e, ReconfigFreeNode) \<in> set ns} \<and>
     set (snd av') \<subseteq> set (snd av) \<union> {e. (e, NewSlaveFreeNode) \<in> set ns}"
proof (induction ns arbitrary: av)
  case (Cons n ns)
  then obtain count where
    "add_alive hb ns (if count < HEARTBEAT_BACKUP_VALUE then add_available n av else av) = Some av'"
    by (auto simp: bind_eq_Some_conv)
  from Cons.IH [OF this] show ?case
    by (cases n) (auto simp: add_available_def split: free_node_type.splits if_splits)
qed simp

lemma available_wf:
  "bs_wf (fst av) \<Longrightarrow> bs_wf (snd av) \<Longrightarrow> bs_wf (fst (add_available n av)) \<and> bs_wf (snd (add_available n av))"
  by (auto simp: add_available_def split: free_node_type.splits)

lemma add_alive_wf:
  "add_alive hb ns av = Some av' \<Longrightarrow> bs_wf (fst av) \<Longrightarrow> bs_wf (snd av) \<Longrightarrow> bs_wf (fst av') \<and> bs_wf (snd av')"
proof (induction ns arbitrary: av)
  case (Cons n ns)
  then obtain count where
    "add_alive hb ns (if count < HEARTBEAT_BACKUP_VALUE then add_available n av else av) = Some av'"
    by (auto simp: bind_eq_Some_conv)
  from Cons.IH [OF this] Cons.prems(2,3) available_wf [of av n] show ?case by (simp split: if_splits)
qed simp

lemma fold_available_wf:
  "bs_wf (fst av) \<Longrightarrow> bs_wf (snd av) \<Longrightarrow>
     bs_wf (fst (fold add_available ns av)) \<and> bs_wf (snd (fold add_available ns av))"
  by (induction ns arbitrary: av) (auto simp: available_wf)

lemma fold_dead:
  "set (fst (fold (\<lambda>eid av. (bs_remove eid (fst av), bs_remove eid (snd av))) dead av)) = set (fst av) - set dead \<and>
   set (snd (fold (\<lambda>eid av. (bs_remove eid (fst av), bs_remove eid (snd av))) dead av)) = set (snd av) - set dead"
  by (induction dead arbitrary: av) auto

lemma fold_dead_wf:
  "bs_wf (fst av) \<Longrightarrow> bs_wf (snd av) \<Longrightarrow>
   bs_wf (fst (fold (\<lambda>eid av. (bs_remove eid (fst av), bs_remove eid (snd av))) dead av)) \<and>
   bs_wf (snd (fold (\<lambda>eid av. (bs_remove eid (fst av), bs_remove eid (snd av))) dead av))"
  by (induction dead arbitrary: av) auto

text \<open>The sets the nodes are drawn from: every node that is not dead.\<close>

lemma available_not_dead:
  assumes "fnm_ok m" and "available_nodes (m\<lparr>pending_new_free_nodes := []\<rparr>) plm = Some (R, S)"
    and "new_nodes plm = pending_new_free_nodes m"
    and "nodes_dead plm = map fst (filter (\<lambda>(_, count). count \<ge> HEARTBEAT_DEAD_THRESHOLD) (free_node_heartbeat m))"
  shows "set R = not_dead ReconfigFreeNode m \<and> set S = not_dead NewSlaveFreeNode m \<and> bs_wf R \<and> bs_wf S"
proof -
  let ?ns = "free_nodes m @ pending_new_free_nodes m"
  let ?rm = "\<lambda>eid av. (bs_remove eid (fst av), bs_remove eid (snd av)) :: available"
  obtain av where av: "add_alive (free_node_heartbeat m) (free_nodes m) ([], []) = Some av"
    and RS: "(R, S) = fold ?rm (nodes_dead plm) (fold add_available ?ns av)"
    using assms(2,3) by (auto simp: available_nodes_def bind_eq_Some_conv Let_def)
  have wf: "bm_wf (free_node_heartbeat m)" using assms(1) by (simp add: fnm_ok_def)
  have dead: "e \<in> set (nodes_dead plm) \<longleftrightarrow>
      (\<exists>count. bm_get (free_node_heartbeat m) e = Some count \<and> HEARTBEAT_DEAD_THRESHOLD \<le> count)" for e
    unfolding assms(4) bm_get_set [OF wf, symmetric] by force
  have sets: "set R = set (fst (fold add_available ?ns av)) - set (nodes_dead plm)"
    "set S = set (snd (fold add_available ?ns av)) - set (nodes_dead plm)"
    using fold_dead [of "nodes_dead plm" "fold add_available ?ns av"] RS by (metis fst_conv snd_conv)+
  have "bs_wf R \<and> bs_wf S"
    using fold_dead_wf [of "fold add_available ?ns av" "nodes_dead plm"] fold_available_wf [of av ?ns]
      add_alive_wf [OF av] RS by (metis fst_conv snd_conv sorted_wrt.simps(1))
  moreover have "set R = not_dead ReconfigFreeNode m" "set S = not_dead NewSlaveFreeNode m"
    unfolding sets using add_alive_subset [OF av] fold_add_available [of ?ns av]
    by (auto simp: not_dead_def dead not_le)
  ultimately show ?thesis by blast
qed




lemma slave_group_loop_total: "0 < sz \<Longrightarrow> slave_group_loop sz coords mk_sid mk_cid k it groups \<noteq> None"
  by (induction sz coords mk_sid mk_cid k it groups rule: slave_group_loop.induct)
    (subst slave_group_loop.simps, simp)

lemma add_alive_total:
  "fst ` set ns \<subseteq> fst ` set hb \<Longrightarrow> \<exists>av'. add_alive hb ns av = Some av'"
proof (induction ns arbitrary: av)
  case (Cons n ns)
  have "bm_get hb (fst n) \<noteq> None" unfolding bm_get_None using Cons.prems by auto
  then obtain count where "bm_get hb (fst n) = Some count" by auto
  moreover obtain av' where
    "add_alive hb ns (if count < HEARTBEAT_BACKUP_VALUE then add_available n av else av) = Some av'"
    using Cons.IH Cons.prems by (meson image_mono order_trans set_subset_Cons)
  ultimately show ?case by simp
qed simp
text \<open>What \<open>process\<close> computes, with the two sets of nodes it draws from.\<close>

lemma process_parts:
  assumes "process ctx mk_sid mk_cid m = Some (granted, plm, m')" and "fnm_ok m"
  obtains R S requested groups where
    "set R = not_dead ReconfigFreeNode m" "distinct R" "set S = not_dead NewSlaveFreeNode m" "distinct S"
    "grant_loop (requested_reconfig_eids m) R (requested_reconfig_eids m) [] = (requested, granted)"
    "slave_group_loop (slave_group_size ctx) (num_coords ctx) mk_sid mk_cid 0 S [] = Some groups"
    "m' = m\<lparr>pending_new_free_nodes := [], requested_reconfig_eids := requested\<rparr>"
    "granted_reconfig_eids plm = granted" "new_slave_groups plm = groups"
    "new_nodes plm = pending_new_free_nodes m"
    "nodes_dead plm = map fst (filter (\<lambda>(_, count). count \<ge> HEARTBEAT_DEAD_THRESHOLD) (free_node_heartbeat m))"
proof -
  let ?plm = "\<lparr>new_slave_groups = [], new_nodes = pending_new_free_nodes m,
     nodes_dead = map fst (filter (\<lambda>(_, count). count \<ge> HEARTBEAT_DEAD_THRESHOLD) (free_node_heartbeat m)),
     granted_reconfig_eids = []\<rparr>"
  let ?m = "m\<lparr>pending_new_free_nodes := []\<rparr>"
  have "\<exists>R S. available_nodes ?m ?plm = Some (R, S)"
    using assms(1) by (auto simp: process_def bind_eq_Some_conv Let_def split: if_splits)
  then obtain R S where av: "available_nodes ?m ?plm = Some (R, S)" by blast
  obtain requested granted' where gl': "grant_loop (requested_reconfig_eids m) R (requested_reconfig_eids m) [] = (requested, granted')"
    by fastforce
  obtain groups where sl: "slave_group_loop (slave_group_size ctx) (num_coords ctx) mk_sid mk_cid 0 S [] = Some groups"
    and gl: "granted' = granted"
    and m': "m' = m\<lparr>pending_new_free_nodes := [], requested_reconfig_eids := requested\<rparr>"
    and plm: "plm = ?plm\<lparr>granted_reconfig_eids := granted, new_slave_groups := groups\<rparr>"
    using assms(1) gl' by (auto simp: process_def av bind_eq_Some_conv Let_def split: if_splits)
  note gl = gl' [unfolded gl]
  from available_not_dead [OF assms(2) av]
  have "set R = not_dead ReconfigFreeNode m" "distinct R" "set S = not_dead NewSlaveFreeNode m" "distinct S"
    by (auto dest: strict_sorted_iff [THEN iffD1])
  with gl sl m' plm show thesis by (intro that [of R S requested groups]) auto
qed

lemma distinct_takes: "distinct it \<Longrightarrow> concat xss = take n it \<Longrightarrow> distinct (concat xss) \<and> set (concat xss) \<subseteq> set it"
  by (simp add: distinct_take set_take_subset)


lemma get_removed_heartbeats: "bm_get (bm_map_values f m) k = map_option f (bm_get m k)"
  by (induction m) (auto simp: bm_map_values_def)

lemma keys_map_values: "fst ` set (bm_map_values f m) = fst ` set m"
  by (force simp: bm_map_values_def)

lemma keys_modify: "fst ` set (bm_modify k f m) = fst ` set m"
  using bm_keys_modify [of k f m] by (metis list.set_map)

lemma grant_loop_wf: "grant_loop reqs it rq gr = (rq', gr') \<Longrightarrow> bm_wf rq \<Longrightarrow> bm_wf rq'"
  by (induction reqs it rq gr rule: grant_loop.induct) (auto split: if_splits)

lemma fnm_ok_process:
  assumes "fnm_ok m" and "process ctx mk_sid mk_cid m = Some (granted, plm, m')"
  shows "fnm_ok m'"
proof -
  from process_parts [OF assms(2,1)] obtain R requested where
    "grant_loop (requested_reconfig_eids m) R (requested_reconfig_eids m) [] = (requested, granted)"
    "m' = m\<lparr>pending_new_free_nodes := [], requested_reconfig_eids := requested\<rparr>" by metis
  with assms(1) show ?thesis by (auto simp: fnm_ok_def dest: grant_loop_wf)
qed

section \<open>Runs of the manager\<close>

text \<open>Everything the master does to its manager, as one step; the \<open>PLm\<close>s are arbitrary.\<close>

datatype fnm_event =
    Ev_Register endpoint_id free_node_type
  | Ev_Heartbeat master_ctx endpoint_id leadership_id
  | Ev_Timer master_ctx
  | Ev_LeaderChanged master_ctx
  | Ev_Request paxos_group_id nat
  | Ev_Plm master_ctx free_node_plm
  | Ev_Process master_ctx "nat \<Rightarrow> slave_group_id" "nat \<Rightarrow> nat \<Rightarrow> coord_group_id"

fun fnm_event_step :: "fnm_event \<Rightarrow> free_node_manager \<Rightarrow> free_node_manager option" where
  "fnm_event_step (Ev_Register eid t) m = Some (handle_register eid t m)"
| "fnm_event_step (Ev_Heartbeat ctx eid lid) m = handle_heartbeat ctx eid lid m"
| "fnm_event_step (Ev_Timer ctx) m = fnm_handle_timer ctx m"
| "fnm_event_step (Ev_LeaderChanged ctx) m = fnm_leader_changed ctx m"
| "fnm_event_step (Ev_Request gid n) m = Some (request_new_eids gid n m)"
| "fnm_event_step (Ev_Plm ctx plm) m = map_option (\<lambda>(_, _, m'). m') (fnm_handle_plm ctx plm m)"
| "fnm_event_step (Ev_Process ctx mk_sid mk_cid) m = map_option (\<lambda>(_, _, m'). m') (process ctx mk_sid mk_cid m)"

fun fnm_run :: "fnm_event list \<Rightarrow> free_node_manager \<Rightarrow> free_node_manager option" where
  "fnm_run [] m = Some m"
| "fnm_run (e # es) m = Option.bind (fnm_event_step e m) (fnm_run es)"

lemma fnm_ok_step: "fnm_ok m \<Longrightarrow> fnm_event_step e m = Some m' \<Longrightarrow> fnm_ok m'"
proof (induction e)
  case (Ev_Plm ctx plm)
  then show ?case by (auto intro: fnm_ok_handle_plm)
next
  case (Ev_Process ctx mk_sid mk_cid)
  then show ?case by (auto intro: fnm_ok_process)
next
  case (Ev_Heartbeat ctx eid lid)
  then have "m' = m \<or> m' = m\<lparr>free_node_heartbeat := bm_modify eid (\<lambda>_. 0) (free_node_heartbeat m)\<rparr>"
    by (auto simp: handle_heartbeat_def bind_eq_Some_conv split: if_splits)
  with Ev_Heartbeat.prems(1) show ?case by (elim disjE) (simp_all add: fnm_ok_def keys_modify)
next
  case (Ev_Timer ctx)
  then have "m' = m \<or> m' = m\<lparr>free_node_heartbeat := bm_map_values (\<lambda>count. count + 1) (free_node_heartbeat m)\<rparr>"
    by (auto simp: fnm_handle_timer_def bind_eq_Some_conv split: if_splits)
  with Ev_Timer.prems(1) show ?case by (elim disjE) (simp_all add: fnm_ok_def keys_map_values)
next
  case (Ev_LeaderChanged ctx)
  then obtain leading where "m' = (if \<not> leading then m\<lparr>pending_new_free_nodes := [],
      free_node_heartbeat := bm_map_values (\<lambda>_. HEARTBEAT_BACKUP_VALUE) (free_node_heartbeat m),
      requested_reconfig_eids := []\<rparr> else m)"
    by (auto simp: fnm_leader_changed_def bind_eq_Some_conv)
  with Ev_LeaderChanged.prems(1) show ?case by (simp add: fnm_ok_def keys_map_values)
qed (simp_all add: fnm_ok_def handle_register_def request_new_eids_def, (elim conjE; hypsubst; simp)+)

lemma fnm_ok_run: "fnm_ok m \<Longrightarrow> fnm_run es m = Some m' \<Longrightarrow> fnm_ok m'"
  by (induction es arbitrary: m) (auto simp: bind_eq_Some_conv dest: fnm_ok_step)

lemma fnm_ok_initial: "fnm_ok fnm_new" "bm_wf nodes \<Longrightarrow> fnm_ok (fnm_create_reconfig nodes)"
proof -
  have "fst ` set (fold (\<lambda>(eid, _). bm_insert eid (0 :: nat)) ns m) = fst ` set ns \<union> fst ` set m \<and>
      (bm_wf m \<longrightarrow> bm_wf (fold (\<lambda>(eid, _). bm_insert eid 0) ns m))"
    for ns :: "(endpoint_id \<times> free_node_type) list" and m
    by (induction ns arbitrary: m) (simp_all add: case_prod_unfold)
  then show "bm_wf nodes \<Longrightarrow> fnm_ok (fnm_create_reconfig nodes)"
    by (simp add: fnm_ok_def fnm_create_reconfig_def)
qed (simp add: fnm_ok_def fnm_new_def)

lemma process_defined:
  assumes "fnm_ok m" and "master_is_leader ctx = Some True" and "0 < slave_group_size ctx"
  shows "process ctx mk_sid mk_cid m \<noteq> None"
proof -
  have "\<exists>av. add_alive (free_node_heartbeat m) (free_nodes m) ([], []) = Some av"
    using assms(1) by (intro add_alive_total) (simp add: fnm_ok_def)
  then obtain av where av: "add_alive (free_node_heartbeat m) (free_nodes m) ([], []) = Some av" by blast
  let ?dead = "map fst (filter (\<lambda>(_, count). count \<ge> HEARTBEAT_DEAD_THRESHOLD) (free_node_heartbeat m))"
  obtain R S where RS: "fold (\<lambda>eid av. (bs_remove eid (fst av), bs_remove eid (snd av))) ?dead
      (fold add_available (pending_new_free_nodes m) (fold add_available (free_nodes m) av)) = (R, S)" by fastforce
  obtain rq gr where "grant_loop (requested_reconfig_eids m) R (requested_reconfig_eids m) [] = (rq, gr)" by fastforce
  moreover obtain groups where
    "slave_group_loop (slave_group_size ctx) (num_coords ctx) mk_sid mk_cid 0 S [] = Some groups"
    using slave_group_loop_total [OF assms(3)] by blast
  ultimately show ?thesis using assms(2) by (simp add: process_def available_nodes_def av RS Let_def)
qed

section \<open>A manager with nodes of both types\<close>

definition ex_eid :: "string \<Rightarrow> endpoint_id" where
  "ex_eid name = EndpointId name Internal"

definition ex_ctx :: master_ctx where
  "ex_ctx = \<lparr>mc_this_eid = ex_eid ''m'', mc_leader_map = vv_new [(MasterGid, \<lparr>lid_gen = 0, lid_eid = ex_eid ''m''\<rparr>)],
     slave_group_size = 2, num_coords = 1\<rparr>"

text \<open>Node \<open>d\<close> is dead and \<open>e\<close> has just registered.\<close>

definition ex_fnm :: free_node_manager where
  "ex_fnm = \<lparr>free_nodes = [(ex_eid ''a'', ReconfigFreeNode), (ex_eid ''b'', NewSlaveFreeNode),
       (ex_eid ''c'', NewSlaveFreeNode), (ex_eid ''d'', NewSlaveFreeNode)],
     pending_new_free_nodes = [(ex_eid ''e'', NewSlaveFreeNode)],
     free_node_heartbeat = [(ex_eid ''a'', 2), (ex_eid ''b'', 0), (ex_eid ''c'', 1), (ex_eid ''d'', 6)],
     requested_reconfig_eids = [(SlaveGid ''s'', 1)]\<rparr>"

definition ex_sid :: "nat \<Rightarrow> slave_group_id" where
  "ex_sid k = CHR ''s'' # replicate k (CHR ''x'')"

lemmas fnm_eval = process_def master_is_leader_def master_lid_def ex_ctx_def ex_fnm_def vv_new_def available_nodes_def
  add_available_def bs_remove_def slave_group_loop.simps HEARTBEAT_DEAD_THRESHOLD_def HEARTBEAT_BACKUP_VALUE_def
  less_endpoint_id_def less_eq_endpoint_id_def eid_rank_def ex_eid_def ex_sid_def Let_def

lemma ex_fnm_ok: "fnm_ok ex_fnm"
  by (auto simp: fnm_ok_def fnm_eval)


lemma ex_process:
  "process ex_ctx ex_sid (\<lambda>_ _. ''coord'') ex_fnm =
     Some ([(SlaveGid ''s'', [ex_eid ''a''])],
       \<lparr>new_slave_groups = [(ex_sid 0, [ex_eid ''b'', ex_eid ''c''], [''coord''])],
        new_nodes = [(ex_eid ''e'', NewSlaveFreeNode)], nodes_dead = [ex_eid ''d''],
        granted_reconfig_eids = [(SlaveGid ''s'', [ex_eid ''a''])]\<rparr>,
       ex_fnm\<lparr>pending_new_free_nodes := [], requested_reconfig_eids := []\<rparr>)"
  by (simp add: fnm_eval bm_remove_def)




section \<open>Properties\<close>

text \<open>
  C37: The invariant of the free node manager, and that its work ends. In every manager that any
  sequence of events builds from a new or a reconfigured one, the nodes and their heartbeats
  are sorted maps over the same keys; therefore the \<open>unwrap\<close> in \<open>process\<close> never fails, and
  the leader's \<open>process\<close> returns whenever the configured slave group size is positive.
\<close>

theorem free_node_manager_process_returns:
  assumes "fnm_run es m0 = Some m" and "m0 = fnm_new \<or> (\<exists>nodes. bm_wf nodes \<and> m0 = fnm_create_reconfig nodes)"
    and "master_is_leader ctx = Some True" and "0 < slave_group_size ctx"
  shows "fnm_ok m \<and> (\<exists>granted plm m'. process ctx mk_sid mk_cid m = Some (granted, plm, m') \<and> fnm_ok m')"
proof -
  have ok: "fnm_ok m" using assms(1,2) fnm_ok_initial fnm_ok_run by blast
  obtain granted plm m' where "process ctx mk_sid mk_cid m = Some (granted, plm, m')"
    using process_defined [OF ok assms(3,4), of mk_sid mk_cid] by auto
  with ok fnm_ok_process [OF ok] show ?thesis by blast
qed

theorem free_node_manager_process_returns_witness:
  "\<exists>m m' granted plm. fnm_run [Ev_Register (ex_eid ''a'') ReconfigFreeNode, Ev_Request MasterGid 1] fnm_new = Some m \<and>
     process ex_ctx ex_sid (\<lambda>_ _. ''coord'') m = Some (granted, plm, m')"
proof -
  obtain m where "fnm_run [Ev_Register (ex_eid ''a'') ReconfigFreeNode, Ev_Request MasterGid 1] fnm_new = Some m"
    by simp
  moreover from free_node_manager_process_returns [OF this, of ex_ctx ex_sid "\<lambda>_ _. ''coord''"]
  have "\<exists>granted plm m'. process ex_ctx ex_sid (\<lambda>_ _. ''coord'') m = Some (granted, plm, m')"
    by (auto simp: ex_ctx_def master_is_leader_def master_lid_def vv_new_def)
  ultimately show ?thesis by blast
qed





text \<open>
  C40: No node is lost or kept twice. After the decisions of \<open>process\<close> are persisted and applied by
  \<open>handle_plm\<close>, the manager holds exactly the nodes that were free or had registered, less the
  dead ones, those granted to reconfigurations and those in new slave groups.
\<close>

theorem free_nodes_conserved:
  assumes "fnm_ok m" and "process ctx mk_sid mk_cid m = Some (granted, plm, m1)"
    and "fnm_handle_plm ctx' plm m1 = Some (msgs, groups, m2)"
  shows "fnm_ok m2 \<and> groups = new_slave_groups plm \<and>
    set (free_node_eids m2) =
      set (free_node_eids m) \<union> fst ` set (pending_new_free_nodes m)
        - {eid. \<exists>count \<ge> HEARTBEAT_DEAD_THRESHOLD. bm_get (free_node_heartbeat m) eid = Some count}
        - set (concat (map snd granted)) - (\<Union>(sid, eids, cids) \<in> set groups. set eids)"
proof -
  obtain requested where m1: "m1 = m\<lparr>pending_new_free_nodes := [], requested_reconfig_eids := requested\<rparr>"
    and plm: "granted_reconfig_eids plm = granted" "new_nodes plm = pending_new_free_nodes m"
      "nodes_dead plm = map fst (filter (\<lambda>(_, count). count \<ge> HEARTBEAT_DEAD_THRESHOLD) (free_node_heartbeat m))"
    using process_parts [OF assms(2,1)] by metis
  have dead: "set (nodes_dead plm) = {eid. \<exists>count \<ge> HEARTBEAT_DEAD_THRESHOLD. bm_get (free_node_heartbeat m) eid = Some count}"
  proof -
    have "bm_wf (free_node_heartbeat m)" using assms(1) by (simp add: fnm_ok_def)
    then show ?thesis unfolding plm(3) by (force simp: bm_get_set [symmetric])
  qed
  have "groups = new_slave_groups plm"
    using assms(3) by (auto simp: fnm_handle_plm_def bind_eq_Some_conv Let_def split: if_splits)
  moreover have "fnm_ok m2" using fnm_ok_handle_plm [OF fnm_ok_process [OF assms(1,2)] assms(3)] .
  moreover note handle_plm_free [OF assms(3)]
  ultimately show ?thesis
    by (simp add: free_node_eids_def bm_keys_def m1 plm(1,2) dead case_prod_unfold)
qed

theorem free_nodes_conserved_witness:
  "\<exists>m1 m2 granted plm msgs groups. process ex_ctx ex_sid (\<lambda>_ _. ''coord'') ex_fnm = Some (granted, plm, m1) \<and>
     fnm_handle_plm ex_ctx plm m1 = Some (msgs, groups, m2) \<and> set (free_node_eids m2) = {ex_eid ''e''}"
proof -
  let ?plm = "\<lparr>new_slave_groups = [(ex_sid 0, [ex_eid ''b'', ex_eid ''c''], [''coord''])],
        new_nodes = [(ex_eid ''e'', NewSlaveFreeNode)], nodes_dead = [ex_eid ''d''],
        granted_reconfig_eids = [(SlaveGid ''s'', [ex_eid ''a''])]\<rparr>"
  let ?m1 = "ex_fnm\<lparr>pending_new_free_nodes := [], requested_reconfig_eids := []\<rparr>"
  have "\<exists>msgs groups m2. fnm_handle_plm ex_ctx ?plm ?m1 = Some (msgs, groups, m2)"
    by (simp add: fnm_handle_plm_def fnm_eval)
  then obtain msgs groups m2 where plm: "fnm_handle_plm ex_ctx ?plm ?m1 = Some (msgs, groups, m2)" by blast
  from free_nodes_conserved [OF ex_fnm_ok ex_process plm]
  have "set (free_node_eids m2) = {ex_eid ''e''}"
    by (auto simp: free_node_eids_def bm_keys_def ex_fnm_def HEARTBEAT_DEAD_THRESHOLD_def ex_eid_def
        split: if_splits)
  with ex_process plm show ?thesis by blast
qed

end
