(* ===== verification/Network_Driver.thy ===== *)
theory Network_Driver
  imports Schema "HOL-Library.Sublist"
begin

text \<open>
  The network driver, \<open>src/src/network_driver.rs\<close>, and the part of a slave that drives it
  (\<open>handle_incoming_message\<close>, \<open>process_bundle\<close>, \<open>deliver_blocked_messages\<close> and the leader map
  updates of \<open>handle_input\<close> in \<open>src/src/slave.rs\<close>). Messages between groups name the leaderships
  of the sender and of the receiver. The leader of the receiving group drops a message whose
  leaderships are out of date and buffers one from a leadership it does not know yet, until the
  change of the remote leadership is in its own log. \<open>None\<close> is a panic: a failed \<open>debug_assert\<close>
  (both build profiles keep them) or an \<open>unwrap\<close> of a missing entry. The payloads are opaque.
\<close>

section \<open>Data\<close>

record 'p remote_message =
  payload :: 'p
  from_lid :: leadership_id
  from_gid :: paxos_group_id
  to_lid :: leadership_id
  to_gid :: paxos_group_id

record remote_leader_changed_plm =
  rlc_gid :: paxos_group_id
  rlc_lid :: leadership_id

record 'p network_driver =
  network_buffer :: "(paxos_group_id, 'p remote_message list) btree"
  nd_gen :: gen

abbreviation from_gen :: "'p remote_message \<Rightarrow> gen" where
  "from_gen m \<equiv> lid_gen (from_lid m)"

section \<open>Operations\<close>

definition nd_new :: "leader_map versioned_value \<Rightarrow> 'p network_driver" where
  "nd_new lm =
     \<lparr>network_buffer = fold (\<lambda>(gid, _) b. bm_insert gid [] b) (vv_value lm) [], nd_gen = vv_gen lm\<rparr>"

text \<open>The update of the buffer's keys at the start of \<open>receive\<close>.\<close>

definition nd_refresh :: "leader_map versioned_value \<Rightarrow> 'p network_driver \<Rightarrow> 'p network_driver" where
  "nd_refresh lm d =
     (if nd_gen d < vv_gen lm then
        (let added = fold (\<lambda>(gid, _) b. if bm_contains b gid then b else bm_insert gid [] b)
                       (vv_value lm) (network_buffer d);
             removed_gids = filter (\<lambda>gid. \<not> bm_contains (vv_value lm) gid) (bm_keys added)
         in \<lparr>network_buffer = fold bm_remove removed_gids added, nd_gen = vv_gen lm\<rparr>)
      else d)"

text \<open>
  The result of \<open>receive\<close>: the payload to deliver, the leader changes added to the bundle, and
  the driver.
\<close>

definition receive ::
  "paxos_group_id \<Rightarrow> endpoint_id \<Rightarrow> leader_map versioned_value \<Rightarrow> 'p remote_message \<Rightarrow> 'p network_driver
    \<Rightarrow> ('p option \<times> remote_leader_changed_plm list \<times> 'p network_driver) option" where
  "receive this_gid this_eid lm m d0 =
     (let d = nd_refresh lm d0 in
      do { this_lid \<leftarrow> bm_get (vv_value lm) this_gid;
           if lid_eid this_lid \<noteq> this_eid \<or> lid_eid (to_lid m) \<noteq> lid_eid this_lid \<or>
              lid_gen this_lid < lid_gen (to_lid m)
           then None
           else if lid_gen (to_lid m) < lid_gen this_lid then Some (None, [], d)
           else
             do { buffer \<leftarrow> bm_get (network_buffer d) (from_gid m);
                  let change = \<lparr>rlc_gid = from_gid m, rlc_lid = from_lid m\<rparr>;
                  let with_buffer = (\<lambda>b. d\<lparr>network_buffer := bm_modify (from_gid m) (\<lambda>_. b) (network_buffer d)\<rparr>);
                  case buffer of
                    new # _ \<Rightarrow>
                      (if from_gen m < from_gen new then Some (None, [], d)
                       else if from_gen m = from_gen new then Some (None, [], with_buffer (buffer @ [m]))
                       else Some (None, [change], with_buffer [m]))
                  | [] \<Rightarrow>
                      do { cur_from_lid \<leftarrow> bm_get (vv_value lm) (from_gid m);
                           if from_gen m < lid_gen cur_from_lid then Some (None, [], d)
                           else if from_gen m = lid_gen cur_from_lid then Some (Some (payload m), [], d)
                           else Some (None, [change], with_buffer [m]) } } })"

definition deliver_blocked_messages ::
  "paxos_group_id \<Rightarrow> leadership_id \<Rightarrow> 'p network_driver \<Rightarrow> 'p list \<times> 'p network_driver" where
  "deliver_blocked_messages gid lid d =
     (case bm_get (network_buffer d) gid of
        None \<Rightarrow> ([], d)
      | Some [] \<Rightarrow> ([], d)
      | Some (new # rest) \<Rightarrow>
          (if lid_gen lid > from_gen new
           then ([], d\<lparr>network_buffer := bm_modify gid (\<lambda>_. []) (network_buffer d)\<rparr>)
           else if lid_gen lid = from_gen new
           then (map payload (new # rest), d\<lparr>network_buffer := bm_modify gid (\<lambda>_. []) (network_buffer d)\<rparr>)
           else ([], d)))"

definition nd_leader_changed :: "'p network_driver \<Rightarrow> 'p network_driver" where
  "nd_leader_changed d = d\<lparr>network_buffer := bm_map_values (\<lambda>_. []) (network_buffer d)\<rparr>"

section \<open>The slave around the driver\<close>

text \<open>
  The fields of \<open>SlaveContext\<close> that the driver reads or that decide what it reads;
  \<open>sn_paxos_nodes\<close> is \<open>paxos_driver.paxos_nodes()\<close> and \<open>sn_changes\<close> is \<open>slave_bundle.remote_leader_changes\<close>. The operations return the payloads
  passed on to \<open>handle_input\<close>.
\<close>

record 'p slave_net =
  sn_this_gid :: paxos_group_id
  sn_this_eid :: endpoint_id
  sn_gossip :: gossip_data
  sn_leader_map :: "leader_map versioned_value"
  sn_all_eids :: "endpoint_id bset versioned_value"
  sn_paxos_nodes :: "endpoint_id list"
  sn_driver :: "'p network_driver"
  sn_changes :: "remote_leader_changed_plm list"

definition slave_lid :: "'p slave_net \<Rightarrow> leadership_id option" where
  "slave_lid s = bm_get (vv_value (sn_leader_map s)) (sn_this_gid s)"

definition slave_is_leader :: "'p slave_net \<Rightarrow> bool option" where
  "slave_is_leader s = map_option (\<lambda>lid. lid_eid lid = sn_this_eid s) (slave_lid s)"

definition slave_remote_message :: "'p remote_message \<Rightarrow> 'p slave_net \<Rightarrow> ('p list \<times> 'p slave_net) option" where
  "slave_remote_message m s =
     do { leading \<leftarrow> slave_is_leader s;
          if leading then
            do { (delivered, changes, d) \<leftarrow> receive (sn_this_gid s) (sn_this_eid s) (sn_leader_map s) m (sn_driver s);
                 Some (case delivered of None \<Rightarrow> [] | Some p \<Rightarrow> [p],
                       s\<lparr>sn_driver := d, sn_changes := sn_changes s @ changes\<rparr>) }
          else Some ([], s) }"

definition slave_remote_leader_changed_gossip ::
  "paxos_group_id \<Rightarrow> leadership_id \<Rightarrow> 'p slave_net \<Rightarrow> 'p slave_net option" where
  "slave_remote_leader_changed_gossip gid lid s =
     do { leading \<leftarrow> slave_is_leader s;
          Some (if leading then
                  (case bm_get (vv_value (sn_leader_map s)) gid of
                     Some cur_lid \<Rightarrow>
                       (if lid_gen lid > lid_gen cur_lid
                        then s\<lparr>sn_changes := sn_changes s @ [\<lparr>rlc_gid = gid, rlc_lid = lid\<rparr>]\<rparr> else s)
                   | None \<Rightarrow> s)
                else s) }"

definition slave_remote_leader_changed :: "remote_leader_changed_plm \<Rightarrow> 'p slave_net \<Rightarrow> 'p slave_net" where
  "slave_remote_leader_changed c s =
     (case bm_get (vv_value (sn_leader_map s)) (rlc_gid c) of
        Some cur_lid \<Rightarrow>
          (if lid_gen (rlc_lid c) > lid_gen cur_lid
           then s\<lparr>sn_leader_map := vv_update (sn_leader_map s) (bm_insert (rlc_gid c) (rlc_lid c))\<rparr> else s)
      | None \<Rightarrow> s)"

definition slave_gossip_data :: "gossip_data \<Rightarrow> leader_map \<Rightarrow> 'p slave_net \<Rightarrow> 'p slave_net option" where
  "slave_gossip_data gossip some_lm s =
     (if gossip_gen (sn_gossip s) < gossip_gen gossip then
        do { lm \<leftarrow> update_leader_map (sn_leader_map s) (sn_gossip s) some_lm gossip;
             let others = concat (map snd (filter (\<lambda>(sid, _). SlaveGid sid \<noteq> sn_this_gid s)
                            (slave_address_config (gossip_get gossip))));
             let all_eids = fold bs_insert
                              (others @ sn_paxos_nodes s @ master_address_config (gossip_get gossip)) [];
             Some (s\<lparr>sn_leader_map := lm, sn_all_eids := vv_set (sn_all_eids s) all_eids, sn_gossip := gossip\<rparr>) }
      else Some s)"

fun slave_deliver_blocked ::
  "remote_leader_changed_plm list \<Rightarrow> 'p slave_net \<Rightarrow> ('p list \<times> 'p slave_net) option" where
  "slave_deliver_blocked [] s = Some ([], s)"
| "slave_deliver_blocked (c # cs) s =
     do { cur_lid \<leftarrow> bm_get (vv_value (sn_leader_map s)) (rlc_gid c);
          let (ps, d) = (if lid_gen (rlc_lid c) = lid_gen cur_lid
                         then deliver_blocked_messages (rlc_gid c) (rlc_lid c) (sn_driver s)
                         else ([], sn_driver s));
          (ps', s') \<leftarrow> slave_deliver_blocked cs (s\<lparr>sn_driver := d\<rparr>);
          Some (ps @ ps', s') }"

text \<open>A learned bundle: first the persisted data, then the messages that were blocked.\<close>

definition slave_bundle ::
  "remote_leader_changed_plm list \<Rightarrow> (gossip_data \<times> leader_map) option \<Rightarrow> 'p slave_net
    \<Rightarrow> ('p list \<times> 'p slave_net) option" where
  "slave_bundle cs gossip s =
     do { let s1 = fold slave_remote_leader_changed cs s;
          s2 \<leftarrow> (case gossip of None \<Rightarrow> Some s1 | Some (g, some_lm) \<Rightarrow> slave_gossip_data g some_lm s1);
          slave_deliver_blocked cs s2 }"

definition slave_leader_changed :: "leadership_id \<Rightarrow> 'p slave_net \<Rightarrow> 'p slave_net" where
  "slave_leader_changed lid s =
     (let s1 = s\<lparr>sn_leader_map := vv_update (sn_leader_map s) (bm_insert (sn_this_gid s) lid)\<rparr>;
          s2 = (if lid_eid lid = sn_this_eid s then s1\<lparr>sn_changes := []\<rparr> else s1)
      in s2\<lparr>sn_driver := nd_leader_changed (sn_driver s2)\<rparr>)"

text \<open>\<open>maybe_start_insert\<close> takes the changes out of the bundle when it hands it to the Paxos driver.\<close>

definition slave_take_changes :: "'p slave_net \<Rightarrow> remote_leader_changed_plm list \<times> 'p slave_net" where
  "slave_take_changes s = (sn_changes s, s\<lparr>sn_changes := []\<rparr>)"

section \<open>The flow of messages from one group\<close>

text \<open>
  For one remote group: \<open>c\<close> the known generation of its leadership, \<open>b\<close> the buffer, \<open>D\<close> the
  delivered payloads and \<open>R\<close> the received messages, with \<open>h\<close> the generation of a payload's
  sender.
\<close>

definition of_gen :: "gen \<Rightarrow> 'p remote_message list \<Rightarrow> 'p remote_message list" where
  "of_gen g ms = filter (\<lambda>m. from_gen m = g) ms"

definition flow_ok ::
  "('p \<Rightarrow> gen) \<Rightarrow> gen option \<Rightarrow> 'p remote_message list \<Rightarrow> 'p list \<Rightarrow> 'p remote_message list \<Rightarrow> bool" where
  "flow_ok h c b D R \<longleftrightarrow>
     set b \<subseteq> set R \<and> sorted (map h D) \<and>
     (\<forall>g. prefix (filter (\<lambda>p. h p = g) D) (map payload (of_gen g R))) \<and>
     (\<forall>k. c = Some k \<longrightarrow>
        (\<forall>p \<in> set D. h p \<le> k) \<and>
        (b = [] \<longrightarrow> (\<forall>m \<in> set R. from_gen m \<le> k) \<and> filter (\<lambda>p. h p = k) D = map payload (of_gen k R)) \<and>
        (b \<noteq> [] \<longrightarrow> k < from_gen (hd b) \<and> b = of_gen (from_gen (hd b)) R \<and>
           (\<forall>m \<in> set R. from_gen m \<le> from_gen (hd b))))"

lemma of_gen_snoc: "of_gen g (ms @ [m]) = of_gen g ms @ (if from_gen m = g then [m] else [])"
  by (simp add: of_gen_def)

lemma of_gen_above: "\<forall>m \<in> set ms. from_gen m \<le> k \<Longrightarrow> k < g \<Longrightarrow> of_gen g ms = []"
  by (auto simp: of_gen_def filter_empty_conv)

lemma flow_ok_prefix: "flow_ok h c b D R \<Longrightarrow> prefix (filter (\<lambda>p. h p = g) D) (map payload (of_gen g R))"
  by (simp add: flow_ok_def)

lemma flow_ok_init: "flow_ok h c [] [] []"
  by (simp add: flow_ok_def of_gen_def)

lemma flow_ok_unknown: "flow_ok h c b D R \<Longrightarrow> set b' \<subseteq> set R \<Longrightarrow> flow_ok h None b' D R"
  by (simp add: flow_ok_def)

lemma prefix_snoc: "prefix xs ys \<Longrightarrow> prefix xs (ys @ zs)"
  by (rule prefix_order.trans) auto

text \<open>A message of an old leadership is dropped.\<close>

lemma flow_ok_drop:
  assumes "flow_ok h (Some k) b D R" and "from_gen m < (if b = [] then k else from_gen (hd b))"
  shows "flow_ok h (Some k) b D (R @ [m])"
  using assms unfolding flow_ok_def of_gen_snoc by (auto intro: prefix_snoc split: if_splits)

text \<open>A message of the known leadership is delivered, or appended to the buffer of a newer one.\<close>

lemma flow_ok_deliver:
  assumes "flow_ok h (Some k) [] D R" and "from_gen m = k" and "h (payload m) = k"
  shows "flow_ok h (Some k) [] (D @ [payload m]) (R @ [m])"
  using assms unfolding flow_ok_def of_gen_snoc by (auto simp: sorted_append)

lemma flow_ok_push:
  assumes "flow_ok h (Some k) b D R" and "b \<noteq> []" and "from_gen m = from_gen (hd b)"
  shows "flow_ok h (Some k) (b @ [m]) D (R @ [m])"
  using assms unfolding flow_ok_def of_gen_snoc by (auto intro: prefix_snoc)

lemma flow_ok_replace:
  assumes "flow_ok h (Some k) b D R" and "(if b = [] then k else from_gen (hd b)) < from_gen m"
  shows "flow_ok h (Some k) [m] D (R @ [m])"
proof -
  have "of_gen (from_gen m) R = []"
    using assms by (intro of_gen_above [of _ "if b = [] then k else from_gen (hd b)"]) (auto simp: flow_ok_def)
  with assms show ?thesis unfolding flow_ok_def of_gen_snoc by (auto intro: prefix_snoc split: if_splits)
qed

text \<open>A newer leadership becomes known: messages of it are delivered, older ones dropped.\<close>

lemma flow_ok_advance_same:
  assumes "flow_ok h (Some k) b D R" and "k < k'" and "b \<noteq> []" and "from_gen (hd b) = k'"
    and "\<forall>m \<in> set b. h (payload m) = from_gen m"
  shows "flow_ok h (Some k') [] (D @ map payload b) R"
proof -
  have b: "b = of_gen k' R" and top: "\<forall>m \<in> set R. from_gen m \<le> k'" and low: "\<forall>p \<in> set D. h p \<le> k"
    using assms(1,3,4) by (auto simp: flow_ok_def)
  have hb: "\<forall>m \<in> set b. h (payload m) = k'" using assms(5) by (subst (asm) (1) b) (auto simp: b of_gen_def)
  have D: "filter (\<lambda>p. h p = k') D = []" using low assms(2) by (auto simp: filter_empty_conv)
  have sel: "filter (\<lambda>p. h p = g) (map payload b) = (if g = k' then map payload b else [])" for g
    using hb by (auto simp: filter_empty_conv intro!: filter_True)
  have "sorted (map h (D @ map payload b))"
  proof -
    have "sorted (map h (map payload b))" using hb by (auto simp: sorted_iff_nth_mono)
    moreover have "sorted (map h D)" using assms(1) by (simp add: flow_ok_def)
    ultimately show ?thesis using low hb assms(2) by (fastforce simp: sorted_append)
  qed
  moreover have "prefix (filter (\<lambda>p. h p = g) (D @ map payload b)) (map payload (of_gen g R))" for g
    using flow_ok_prefix [OF assms(1), of g] by (cases "g = k'") (simp_all add: sel D b [symmetric])
  ultimately show ?thesis using top low hb assms(2) by (auto simp: flow_ok_def sel D b [symmetric])
qed

lemma flow_ok_advance_drop:
  assumes "flow_ok h (Some k) b D R" and "k < k'" and "b = [] \<or> from_gen (hd b) < k'"
  shows "flow_ok h (Some k') [] D R"
proof -
  have top: "\<forall>m \<in> set R. from_gen m < k'" and low: "\<forall>p \<in> set D. h p \<le> k"
    using assms by (fastforce simp: flow_ok_def)+
  have "of_gen k' R = []" "filter (\<lambda>p. h p = k') D = []"
    using top low assms(2) by (auto simp: filter_empty_conv of_gen_def)
  with top low assms(1,2) show ?thesis by (fastforce simp: flow_ok_def)
qed

lemma flow_ok_advance_keep:
  assumes "flow_ok h (Some k) b D R" and "k < k'" and "b \<noteq> []" and "k' < from_gen (hd b)"
  shows "flow_ok h (Some k') b D R"
  using assms by (auto simp: flow_ok_def)

section \<open>The flow through a slave\<close>

definition buf :: "'p network_driver \<Rightarrow> paxos_group_id \<Rightarrow> 'p remote_message list" where
  "buf d gid = (case bm_get (network_buffer d) gid of None \<Rightarrow> [] | Some b \<Rightarrow> b)"

definition known_gen :: "leader_map versioned_value \<Rightarrow> paxos_group_id \<Rightarrow> gen option" where
  "known_gen lm gid = map_option lid_gen (bm_get (vv_value lm) gid)"

text \<open>The payloads are labelled with their sender's group and generation, \<open>src\<close>.\<close>

definition net_inv ::
  "('p \<Rightarrow> paxos_group_id \<times> gen) \<Rightarrow> 'p slave_net \<Rightarrow> 'p remote_message list \<Rightarrow> 'p list \<Rightarrow> bool" where
  "net_inv src s R D \<longleftrightarrow>
     (\<forall>m \<in> set R. src (payload m) = (from_gid m, from_gen m)) \<and>
     (\<forall>gid. flow_ok (snd \<circ> src) (known_gen (sn_leader_map s) gid) (buf (sn_driver s) gid)
        (filter (\<lambda>p. fst (src p) = gid) D) (filter (\<lambda>m. from_gid m = gid) R))"

lemma buf_new [simp]: "buf (nd_new lm) gid = []"
proof -
  have "bm_get (fold (\<lambda>(gid, _) b. bm_insert gid [] b) es acc) gid \<in> {None, Some []}"
    if "bm_get acc gid \<in> {None, Some []}" for acc :: "(paxos_group_id, 'a remote_message list) btree" and es :: leader_map
    using that
  proof (induction es arbitrary: acc)
    case (Cons e es)
    from Cons.prems have "bm_get (bm_insert (fst e) [] acc) gid \<in> {None, Some []}" by simp
    from Cons.IH [OF this] show ?case by (simp add: case_prod_unfold)
  qed simp
  from this [of "[]" "vv_value lm"] show ?thesis
    by (auto simp: buf_def nd_new_def split: option.splits)
qed

lemma buf_leader_changed [simp]: "buf (nd_leader_changed d) gid = []"
  by (simp add: buf_def nd_leader_changed_def split: option.splits)

lemma buf_modify:
  "buf (d\<lparr>network_buffer := bm_modify gid (\<lambda>_. b) (network_buffer d)\<rparr>) gid' =
     (if gid' = gid \<and> bm_get (network_buffer d) gid \<noteq> None then b else buf d gid')"
  by (auto simp: buf_def split: option.splits)

lemma get_add_keys:
  "bm_get (fold (\<lambda>(gid, _) b. if bm_contains b gid then b else bm_insert gid [] b) es acc) gid =
     (case bm_get acc gid of Some b \<Rightarrow> Some b | None \<Rightarrow> if gid \<in> fst ` set es then Some [] else None)"
proof (induction es arbitrary: acc)
  case (Cons e es)
  then show ?case
    by (cases "bm_get acc (fst e)"; cases "gid = fst e")
      (simp_all add: case_prod_unfold bm_contains_def del: bm_contains_iff split: option.splits)
qed (simp split: option.splits)

lemma get_remove_keys: "bm_get (fold bm_remove ks acc) k = (if k \<in> set ks then None else bm_get acc k)"
  by (induction ks arbitrary: acc) auto

text \<open>After the refresh the buffers of the known groups are what they were.\<close>

lemma buf_refresh:
  "buf (nd_refresh lm d) gid =
     (if nd_gen d < vv_gen lm \<and> bm_get (vv_value lm) gid = None then [] else buf d gid)"
proof (cases "nd_gen d < vv_gen lm")
  case True
  define A where "A = fold (\<lambda>(gid, _) b. if bm_contains b gid then b else bm_insert gid [] b) (vv_value lm) (network_buffer d)"
  have get: "bm_get A gid = (case bm_get (network_buffer d) gid of Some b \<Rightarrow> Some b
      | None \<Rightarrow> if bm_get (vv_value lm) gid \<noteq> None then Some [] else None)"
    unfolding A_def get_add_keys by (simp add: bm_get_None split: option.splits)
  have keys: "gid \<in> set (bm_keys A) \<longleftrightarrow> bm_get A gid \<noteq> None"
    by (simp add: bm_keys_def bm_get_None)
  have "network_buffer (nd_refresh lm d) =
      fold bm_remove (filter (\<lambda>gid. \<not> bm_contains (vv_value lm) gid) (bm_keys A)) A"
    unfolding nd_refresh_def A_def [symmetric] Let_def using True by simp
  then have "bm_get (network_buffer (nd_refresh lm d)) gid = (if bm_get (vv_value lm) gid = None then None else bm_get A gid)"
    using keys by (auto simp: get_remove_keys bm_contains_def simp del: bm_contains_iff)
  then show ?thesis using True get by (auto simp: buf_def split: option.splits)
qed (simp add: nd_refresh_def)

lemma net_inv_refresh:
  assumes "net_inv src s R D"
  shows "net_inv src (s\<lparr>sn_driver := nd_refresh (sn_leader_map s) (sn_driver s)\<rparr>) R D"
  unfolding net_inv_def
proof (intro conjI allI)
  fix gid
  have "flow_ok (snd \<circ> src) (known_gen (sn_leader_map s) gid) (buf (sn_driver s) gid)
      (filter (\<lambda>p. fst (src p) = gid) D) (filter (\<lambda>m. from_gid m = gid) R)"
    using assms by (simp add: net_inv_def)
  then show "flow_ok (snd \<circ> src) (known_gen (sn_leader_map (s\<lparr>sn_driver := nd_refresh (sn_leader_map s) (sn_driver s)\<rparr>)) gid)
      (buf (sn_driver (s\<lparr>sn_driver := nd_refresh (sn_leader_map s) (sn_driver s)\<rparr>)) gid)
      (filter (\<lambda>p. fst (src p) = gid) D) (filter (\<lambda>m. from_gid m = gid) R)"
    by (auto simp: buf_refresh known_gen_def intro: flow_ok_unknown)
qed (use assms in \<open>simp add: net_inv_def\<close>)

lemma flow_ok_unknown_snoc:
  assumes "flow_ok h None b D R" and "set b' \<subseteq> insert m (set b)"
  shows "flow_ok h None b' D (R @ [m])"
  using assms unfolding flow_ok_def of_gen_snoc by (auto intro: prefix_snoc)

text \<open>What one message does to the flow from its sender's group.\<close>

lemma flow_ok_receive:
  assumes ok: "flow_ok h c b D R" and lab: "h (payload m) = from_gen m"
    and new: "(ps, b') =
      (if b \<noteq> [] then
         (if from_gen m < from_gen (hd b) then ([], b)
          else if from_gen m = from_gen (hd b) then ([], b @ [m]) else ([], [m]))
       else if from_gen m < the c then ([], b)
       else if from_gen m = the c then ([payload m], b) else ([], [m]))"
    and known: "b = [] \<Longrightarrow> c \<noteq> None"
  shows "flow_ok h c b' (D @ ps) (R @ [m])"
proof (cases c)
  case None
  with known new have ps: "ps = []" and b': "set b' \<subseteq> insert m (set b)" by (auto split: if_splits)
  have "flow_ok h None b' D (R @ [m])" by (rule flow_ok_unknown_snoc [OF ok [unfolded None] b'])
  with None ps show ?thesis by simp
next
  case (Some k)
  note ok = ok [unfolded Some]
  consider "from_gen m < (if b = [] then k else from_gen (hd b))"
    | "from_gen m = (if b = [] then k else from_gen (hd b))"
    | "(if b = [] then k else from_gen (hd b)) < from_gen m" by linarith
  then show ?thesis
  proof cases
    case 1
    with new Some have "ps = []" "b' = b" by (auto split: if_splits)
    with flow_ok_drop [OF ok 1] Some show ?thesis by simp
  next
    case 2
    show ?thesis
    proof (cases "b = []")
      case True
      with 2 new Some have "ps = [payload m]" "b' = []" by auto
      with flow_ok_deliver [of h k D R m] ok 2 True lab Some show ?thesis by simp
    next
      case False
      with 2 new have "ps = []" "b' = b @ [m]" by auto
      with flow_ok_push [OF ok False, of m] 2 False Some show ?thesis by simp
    qed
  next
    case 3
    with new Some have "ps = []" "b' = [m]" by (auto split: if_splits)
    with flow_ok_replace [OF ok 3] Some show ?thesis by simp
  qed
qed

definition accepts :: "'p slave_net \<Rightarrow> 'p remote_message \<Rightarrow> bool" where
  "accepts s m \<longleftrightarrow> slave_is_leader s = Some True \<and> map_option lid_gen (slave_lid s) = Some (lid_gen (to_lid m))"

text \<open>What \<open>receive\<close> does to the buffers, its refresh done.\<close>

lemma receive_cases:
  assumes "receive gid0 eid lm m d0 = Some (delivered, changes, d')" and "bm_get (vv_value lm) gid0 = Some lid"
    and "lid_gen (to_lid m) = lid_gen lid"
  defines "d \<equiv> nd_refresh lm d0"
  shows "\<exists>b'. (\<forall>gid. buf d' gid = (if gid = from_gid m then b' else buf d gid)) \<and>
    (buf d (from_gid m) = [] \<longrightarrow> known_gen lm (from_gid m) \<noteq> None) \<and>
    (case delivered of None \<Rightarrow> [] | Some p \<Rightarrow> [p], b') =
      (let b = buf d (from_gid m) in
       if b \<noteq> [] then
         (if from_gen m < from_gen (hd b) then ([], b)
          else if from_gen m = from_gen (hd b) then ([], b @ [m]) else ([], [m]))
       else if from_gen m < the (known_gen lm (from_gid m)) then ([], b)
       else if from_gen m = the (known_gen lm (from_gid m)) then ([payload m], b) else ([], [m]))"
proof -
  obtain b where b: "bm_get (network_buffer d) (from_gid m) = Some b"
    using assms(1-3) unfolding receive_def d_def Let_def by (auto simp: bind_eq_Some_conv split: if_splits)
  then have bb: "buf d (from_gid m) = b" by (simp add: buf_def)
  note unf = assms(1) [unfolded receive_def Let_def, folded d_def]
  show ?thesis
  proof (cases b)
    case Nil
    from unf assms(2,3) b Nil obtain cur where cur: "bm_get (vv_value lm) (from_gid m) = Some cur"
      by (auto simp: bind_eq_Some_conv split: if_splits)
    have known: "known_gen lm (from_gid m) = Some (lid_gen cur)" by (simp add: known_gen_def cur)
    from unf assms(2,3) b Nil cur show ?thesis
      by (auto simp: bb known buf_modify split: if_splits) (simp_all add: buf_def)
  next
    case (Cons new rest)
    from unf assms(2,3) b Cons show ?thesis
      by (auto simp: bb buf_modify split: if_splits) (simp_all add: buf_def)
  qed
qed

lemma net_inv_message:
  assumes inv: "net_inv src s R D" and step: "slave_remote_message m s = Some (ps, s')"
    and lab: "src (payload m) = (from_gid m, from_gen m)"
  shows "net_inv src s' (if accepts s m then R @ [m] else R) (D @ ps)"
proof (cases "slave_is_leader s = Some True")
  case False
  then have "s' = s" "ps = []" using step by (auto simp: slave_remote_message_def bind_eq_Some_conv split: if_splits)
  with False inv show ?thesis by (simp add: accepts_def)
next
  case True
  let ?d = "nd_refresh (sn_leader_map s) (sn_driver s)"
  note inv = net_inv_refresh [OF inv]
  from True obtain lid where lid: "bm_get (vv_value (sn_leader_map s)) (sn_this_gid s) = Some lid"
    by (auto simp: slave_is_leader_def slave_lid_def)
  from step True obtain delivered changes d' where
    rec: "receive (sn_this_gid s) (sn_this_eid s) (sn_leader_map s) m (sn_driver s) = Some (delivered, changes, d')"
    and ps: "ps = (case delivered of None \<Rightarrow> [] | Some p \<Rightarrow> [p])"
    and s': "s' = s\<lparr>sn_driver := d', sn_changes := sn_changes s @ changes\<rparr>"
    by (auto simp: slave_remote_message_def bind_eq_Some_conv split: if_splits)
  have acc: "accepts s m \<longleftrightarrow> lid_gen (to_lid m) = lid_gen lid"
    using True lid by (auto simp: accepts_def slave_lid_def)
  show ?thesis
  proof (cases "accepts s m")
    case False
    with acc rec lid have "delivered = None" "d' = ?d" by (auto simp: receive_def Let_def split: if_splits)
    with inv False show ?thesis by (simp add: ps s' net_inv_def)
  next
    case True
    with acc have "lid_gen (to_lid m) = lid_gen lid" by simp
    from receive_cases [OF rec lid this] obtain b' where
      buf: "\<forall>gid. buf d' gid = (if gid = from_gid m then b' else buf ?d gid)"
      and known: "buf ?d (from_gid m) = [] \<Longrightarrow> known_gen (sn_leader_map s) (from_gid m) \<noteq> None"
      and new: "(ps, b') = (let b = buf ?d (from_gid m) in
         if b \<noteq> [] then
           (if from_gen m < from_gen (hd b) then ([], b)
            else if from_gen m = from_gen (hd b) then ([], b @ [m]) else ([], [m]))
         else if from_gen m < the (known_gen (sn_leader_map s) (from_gid m)) then ([], b)
         else if from_gen m = the (known_gen (sn_leader_map s) (from_gid m)) then ([payload m], b) else ([], [m]))"
      unfolding ps [symmetric] by blast
    have psm: "set ps \<subseteq> {payload m}" using new by (auto simp: Let_def split: if_splits)
    have fl: "flow_ok (snd \<circ> src) (known_gen (sn_leader_map s) gid) (buf ?d gid)
        (filter (\<lambda>p. fst (src p) = gid) D) (filter (\<lambda>m. from_gid m = gid) R)" for gid
      using inv by (simp add: net_inv_def)
    have "flow_ok (snd \<circ> src) (known_gen (sn_leader_map s) gid) (buf d' gid)
        (filter (\<lambda>p. fst (src p) = gid) (D @ ps)) (filter (\<lambda>m. from_gid m = gid) (R @ [m]))" for gid
    proof (cases "gid = from_gid m")
      case True
      have "filter (\<lambda>p. fst (src p) = gid) ps = ps"
        by (rule filter_True) (use psm lab True in auto)
      with flow_ok_receive [OF fl [of gid] _ new [unfolded Let_def, folded True] known [folded True]] True buf lab
      show ?thesis by simp
    next
      case False
      have "filter (\<lambda>p. fst (src p) = gid) ps = []"
        using psm lab False by (auto simp: filter_empty_conv)
      with False fl [of gid] buf show ?thesis by simp
    qed
    with True inv lab show ?thesis by (auto simp: net_inv_def s')
  qed
qed

section \<open>A bundle\<close>

lemma rlc_fields [simp]:
  "sn_driver (slave_remote_leader_changed c s) = sn_driver s"
  "sn_gossip (slave_remote_leader_changed c s) = sn_gossip s"
  "sn_changes (slave_remote_leader_changed c s) = sn_changes s"
  "sn_this_gid (slave_remote_leader_changed c s) = sn_this_gid s"
  "sn_this_eid (slave_remote_leader_changed c s) = sn_this_eid s"
  by (simp_all add: slave_remote_leader_changed_def split: option.splits)

lemma rlc_fold_driver [simp]: "sn_driver (fold slave_remote_leader_changed cs s) = sn_driver s"
  by (induction cs arbitrary: s) auto

lemma known_rlc:
  "known_gen (sn_leader_map (slave_remote_leader_changed c s)) gid =
     (if gid = rlc_gid c then map_option (\<lambda>k. max k (lid_gen (rlc_lid c))) (known_gen (sn_leader_map s) gid)
      else known_gen (sn_leader_map s) gid)"
  by (auto simp: slave_remote_leader_changed_def known_gen_def vv_update_def split: option.splits)

text \<open>The changes of a bundle raise the known generation, to that of one of them.\<close>

lemma known_rlc_fold:
  "known_gen (sn_leader_map (fold slave_remote_leader_changed cs s)) gid = known_gen (sn_leader_map s) gid \<or>
   (\<exists>k c. known_gen (sn_leader_map s) gid = Some k \<and> c \<in> set cs \<and> rlc_gid c = gid \<and> k < lid_gen (rlc_lid c) \<and>
      known_gen (sn_leader_map (fold slave_remote_leader_changed cs s)) gid = Some (lid_gen (rlc_lid c)))"
proof (induction cs arbitrary: s)
  case (Cons c cs)
  let ?s = "slave_remote_leader_changed c s"
  show ?case
  proof (cases "known_gen (sn_leader_map ?s) gid = known_gen (sn_leader_map s) gid")
    case True
    then show ?thesis using Cons.IH [of ?s] by auto
  next
    case False
    then have gid: "rlc_gid c = gid" by (cases "rlc_gid c = gid") (simp_all add: known_rlc)
    with False obtain k where k0: "known_gen (sn_leader_map s) gid = Some k"
      by (cases "known_gen (sn_leader_map s) gid") (simp_all add: known_rlc)
    with gid False have "max k (lid_gen (rlc_lid c)) \<noteq> k" by (simp add: known_rlc)
    with k0 gid have k: "known_gen (sn_leader_map s) gid = Some k" "rlc_gid c = gid" "k < lid_gen (rlc_lid c)"
      "known_gen (sn_leader_map ?s) gid = Some (lid_gen (rlc_lid c))"
      by (simp_all add: known_rlc max_def split: if_splits)
    from Cons.IH [of ?s] show ?thesis
    proof
      assume "known_gen (sn_leader_map (fold slave_remote_leader_changed cs ?s)) gid = known_gen (sn_leader_map ?s) gid"
      with k show ?thesis by (intro disjI2 exI [of _ k] exI [of _ c]) simp
    next
      assume "\<exists>k' c'. known_gen (sn_leader_map ?s) gid = Some k' \<and> c' \<in> set cs \<and> rlc_gid c' = gid \<and> k' < lid_gen (rlc_lid c') \<and>
        known_gen (sn_leader_map (fold slave_remote_leader_changed cs ?s)) gid = Some (lid_gen (rlc_lid c'))"
      then obtain c' where "c' \<in> set cs" "rlc_gid c' = gid" "lid_gen (rlc_lid c) < lid_gen (rlc_lid c')"
        "known_gen (sn_leader_map (fold slave_remote_leader_changed cs ?s)) gid = Some (lid_gen (rlc_lid c'))"
        by (auto simp: k(4))
      with k show ?thesis by (intro disjI2 exI [of _ k] exI [of _ c']) simp
    qed
  qed
qed simp

lemma update_leader_map_get:
  assumes "update_leader_map lm old some_lm g = Some lm'"
    and "\<And>sid. gid = SlaveGid sid \<Longrightarrow> sid \<in> set (bm_keys (slave_address_config (gossip_get g))) \<Longrightarrow>
      sid \<in> set (bm_keys (slave_address_config (gossip_get old)))"
  shows "bm_get (vv_value lm') gid = None \<or> bm_get (vv_value lm') gid = bm_get (vv_value lm) gid"
proof -
  let ?new = "bm_keys (slave_address_config (gossip_get g))" and ?old = "bm_keys (slave_address_config (gossip_get old))"
  let ?add = "filter (\<lambda>sid. sid \<notin> set ?old) ?new"
  from assms(1) obtain lm1 where lm1: "add_new_gids ?add lm some_lm = Some lm1"
    and lm': "lm' = fold (\<lambda>sid lm. vv_update lm (bm_remove (SlaveGid sid))) (filter (\<lambda>sid. sid \<notin> set ?new) ?old) lm1"
    by (auto simp: update_leader_map_def Let_def bind_eq_Some_conv)
  have "add_new_gids_unversioned ?add (vv_value lm) some_lm = Some (vv_value lm1)"
    using add_new_gids_value [of ?add lm some_lm] lm1 by simp
  from add_new_gids_unversioned_get [OF this, of gid] assms(2)
  have "bm_get (vv_value lm1) gid = bm_get (vv_value lm) gid" by (auto split: if_splits)
  then show ?thesis by (simp add: lm' fold_vv_value fold_remove_get)
qed

lemma deliver_blocked_buf:
  assumes "deliver_blocked_messages gid lid d = (ps, d')"
  defines "b \<equiv> buf d gid"
  shows "ps = (if b \<noteq> [] \<and> from_gen (hd b) = lid_gen lid then map payload b else [])"
    and "buf d' gid' = (if gid' = gid then (if b \<noteq> [] \<and> from_gen (hd b) \<le> lid_gen lid then [] else b) else buf d gid')"
  using assms(1) unfolding b_def
  by (auto simp: deliver_blocked_messages_def buf_def split: option.splits list.splits if_splits)

text \<open>
  While a bundle is processed the leader map is ahead: for a group whose known generation has
  risen from \<open>k0\<close>, a change with the new generation is still among those to be handled.
\<close>

definition pend_inv ::
  "('p \<Rightarrow> paxos_group_id \<times> gen) \<Rightarrow> remote_leader_changed_plm list \<Rightarrow> 'p slave_net \<Rightarrow> 'p remote_message list \<Rightarrow> 'p list \<Rightarrow> bool" where
  "pend_inv src cs s R D \<longleftrightarrow>
     (\<forall>m \<in> set R. src (payload m) = (from_gid m, from_gen m)) \<and>
     (\<forall>gid. \<exists>k0.
        (k0 = known_gen (sn_leader_map s) gid \<or>
         (\<exists>a k. k0 = Some a \<and> known_gen (sn_leader_map s) gid = Some k \<and> a < k \<and>
            (\<exists>c \<in> set cs. rlc_gid c = gid \<and> lid_gen (rlc_lid c) = k))) \<and>
        flow_ok (snd \<circ> src) k0 (buf (sn_driver s) gid)
          (filter (\<lambda>p. fst (src p) = gid) D) (filter (\<lambda>m. from_gid m = gid) R))"

lemma pend_inv_done: "pend_inv src [] s R D \<Longrightarrow> net_inv src s R D"
  by (simp add: pend_inv_def net_inv_def)

lemma flow_ok_settle:
  assumes "flow_ok h k0 b D R" and "k0 = Some k \<or> (\<exists>a. k0 = Some a \<and> a < k)"
    and "\<forall>m \<in> set b. h (payload m) = from_gen m"
  shows "flow_ok h (Some k) (if b \<noteq> [] \<and> from_gen (hd b) \<le> k then [] else b)
    (D @ (if b \<noteq> [] \<and> from_gen (hd b) = k then map payload b else [])) R"
proof (cases "k0 = Some k")
  case True
  with assms(1) have "b = [] \<or> k < from_gen (hd b)" by (auto simp: flow_ok_def)
  with assms(1) True show ?thesis by auto
next
  case False
  with assms(2) obtain a where a: "k0 = Some a" "a < k" by auto
  note ok = assms(1) [unfolded a(1)]
  consider "b = [] \<or> from_gen (hd b) < k" | "b \<noteq> []" "from_gen (hd b) = k" | "b \<noteq> []" "k < from_gen (hd b)"
    by linarith
  then show ?thesis
  proof cases
    case 1
    then have e: "(if b \<noteq> [] \<and> from_gen (hd b) \<le> k then [] else b) = []" "\<not> (b \<noteq> [] \<and> from_gen (hd b) = k)" by auto
    show ?thesis unfolding e(1) if_not_P [OF e(2)] using flow_ok_advance_drop [OF ok a(2) 1] by simp
  next
    case 2
    with flow_ok_advance_same [OF ok a(2) 2 assms(3)] show ?thesis by simp
  next
    case 3
    with flow_ok_advance_keep [OF ok a(2) 3] show ?thesis by simp
  qed
qed

lemma pend_inv_step:
  assumes pend: "pend_inv src (c # cs) s R D" and known: "known_gen (sn_leader_map s) (rlc_gid c) = Some k"
    and del: "(if lid_gen (rlc_lid c) = k then deliver_blocked_messages (rlc_gid c) (rlc_lid c) (sn_driver s)
       else ([], sn_driver s)) = (ps, d)"
  shows "pend_inv src cs (s\<lparr>sn_driver := d\<rparr>) R (D @ ps)"
proof -
  let ?ok = "\<lambda>D k0 b gid. flow_ok (snd \<circ> src) k0 b (filter (\<lambda>p. fst (src p) = gid) D) (filter (\<lambda>m. from_gid m = gid) R)"
  let ?b = "buf (sn_driver s) (rlc_gid c)"
  have lab: "\<forall>m \<in> set R. src (payload m) = (from_gid m, from_gen m)" using pend by (simp add: pend_inv_def)
  have ex: "\<exists>k0. (k0 = known_gen (sn_leader_map s) gid \<or>
         (\<exists>a k. k0 = Some a \<and> known_gen (sn_leader_map s) gid = Some k \<and> a < k \<and>
            (\<exists>c' \<in> set (c # cs). rlc_gid c' = gid \<and> lid_gen (rlc_lid c') = k))) \<and>
        ?ok D k0 (buf (sn_driver s) gid) gid" for gid
    using pend by (simp add: pend_inv_def)
  have blab: "\<forall>m \<in> set ?b. from_gid m = rlc_gid c \<and> src (payload m) = (rlc_gid c, from_gen m)"
    using ex [of "rlc_gid c"] lab by (fastforce simp: flow_ok_def)
  have other: "\<exists>k0. (k0 = known_gen (sn_leader_map s) gid \<or>
         (\<exists>a k. k0 = Some a \<and> known_gen (sn_leader_map s) gid = Some k \<and> a < k \<and>
            (\<exists>c' \<in> set cs. rlc_gid c' = gid \<and> lid_gen (rlc_lid c') = k))) \<and>
        ?ok D k0 (buf (sn_driver s) gid) gid" if "gid \<noteq> rlc_gid c \<or> lid_gen (rlc_lid c) \<noteq> k" for gid
    using ex [of gid] that known by fastforce
  have "\<exists>k0. (k0 = known_gen (sn_leader_map s) gid \<or>
         (\<exists>a k. k0 = Some a \<and> known_gen (sn_leader_map s) gid = Some k \<and> a < k \<and>
            (\<exists>c' \<in> set cs. rlc_gid c' = gid \<and> lid_gen (rlc_lid c') = k))) \<and>
        ?ok (D @ ps) k0 (buf d gid) gid" for gid
  proof (cases "lid_gen (rlc_lid c) = k")
    case False
    with del have "ps = []" "d = sn_driver s" by auto
    with False other show ?thesis by simp
  next
    case True
    then have "deliver_blocked_messages (rlc_gid c) (rlc_lid c) (sn_driver s) = (ps, d)" using del by simp
    note d = deliver_blocked_buf [OF this, unfolded True]
    show ?thesis
    proof (cases "gid = rlc_gid c")
      case True
      from ex [of gid] True known obtain k0 where k0: "k0 = Some k \<or> (\<exists>a. k0 = Some a \<and> a < k)" "?ok D k0 ?b gid" by auto
      have "filter (\<lambda>p. fst (src p) = gid) ps = ps"
        by (rule filter_True) (use blab True in \<open>auto simp: d(1)\<close>)
      moreover have "?ok D k0 ?b gid \<Longrightarrow> flow_ok (snd \<circ> src) (Some k) (buf d gid) (filter (\<lambda>p. fst (src p) = gid) D @ ps)
          (filter (\<lambda>m. from_gid m = gid) R)"
        using flow_ok_settle [OF k0(2,1)] blab by (simp add: d True)
      ultimately show ?thesis using k0(2) known True by (intro exI [of _ "Some k"]) simp
    next
      case False
      have "filter (\<lambda>p. fst (src p) = gid) ps = []"
        using blab False by (auto simp: d(1) filter_empty_conv)
      moreover have "buf d gid = buf (sn_driver s) gid" using False by (simp add: d(2))
      ultimately show ?thesis using other [of gid] False by simp
    qed
  qed
  with lab show ?thesis by (simp add: pend_inv_def)
qed

lemma pend_inv_deliver:
  "pend_inv src cs s R D \<Longrightarrow> slave_deliver_blocked cs s = Some (ps, s') \<Longrightarrow> net_inv src s' R (D @ ps)"
proof (induction cs arbitrary: s D ps)
  case Nil
  then show ?case by (simp add: pend_inv_done)
next
  case (Cons c cs)
  obtain cur where cur: "bm_get (vv_value (sn_leader_map s)) (rlc_gid c) = Some cur"
    using Cons.prems(2) by (auto simp: bind_eq_Some_conv)
  obtain ps1 d where d: "(if lid_gen (rlc_lid c) = lid_gen cur
      then deliver_blocked_messages (rlc_gid c) (rlc_lid c) (sn_driver s) else ([], sn_driver s)) = (ps1, d)"
    by (rule prod.exhaust)
  obtain ps2 where rest: "slave_deliver_blocked cs (s\<lparr>sn_driver := d\<rparr>) = Some (ps2, s')" and ps: "ps = ps1 @ ps2"
    using Cons.prems(2) by (auto simp: cur d bind_eq_Some_conv)
  have "pend_inv src cs (s\<lparr>sn_driver := d\<rparr>) R (D @ ps1)"
    by (rule pend_inv_step [OF Cons.prems(1) _ d]) (simp add: known_gen_def cur)
  from Cons.IH [OF this rest] show ?case by (simp add: ps)
qed

text \<open>A group that the gossip adds is one no message has come from in this leadership.\<close>

definition fresh_groups :: "(gossip_data \<times> leader_map) option \<Rightarrow> 'p slave_net \<Rightarrow> 'p remote_message list \<Rightarrow> bool" where
  "fresh_groups gossip s R \<longleftrightarrow>
     (case gossip of
        None \<Rightarrow> True
      | Some (g, _) \<Rightarrow>
          \<forall>m \<in> set R. \<forall>sid \<in> set (bm_keys (slave_address_config (gossip_get g))).
            from_gid m = SlaveGid sid \<longrightarrow> sid \<in> set (bm_keys (slave_address_config (gossip_get (sn_gossip s)))))"

lemma rlc_fold_gossip [simp]: "sn_gossip (fold slave_remote_leader_changed cs s) = sn_gossip s"
  by (induction cs arbitrary: s) auto

lemma pend_inv_rlc:
  assumes "net_inv src s R D"
  shows "pend_inv src cs (fold slave_remote_leader_changed cs s) R D"
  unfolding pend_inv_def
proof (intro conjI allI)
  show "\<forall>m \<in> set R. src (payload m) = (from_gid m, from_gen m)" using assms by (simp add: net_inv_def)
  fix gid
  have ok: "flow_ok (snd \<circ> src) (known_gen (sn_leader_map s) gid) (buf (sn_driver s) gid)
      (filter (\<lambda>p. fst (src p) = gid) D) (filter (\<lambda>m. from_gid m = gid) R)"
    using assms by (simp add: net_inv_def)
  let ?s = "fold slave_remote_leader_changed cs s"
  show "\<exists>k0. (k0 = known_gen (sn_leader_map ?s) gid \<or>
         (\<exists>a k. k0 = Some a \<and> known_gen (sn_leader_map ?s) gid = Some k \<and> a < k \<and>
            (\<exists>c \<in> set cs. rlc_gid c = gid \<and> lid_gen (rlc_lid c) = k))) \<and>
        flow_ok (snd \<circ> src) k0 (buf (sn_driver ?s) gid)
          (filter (\<lambda>p. fst (src p) = gid) D) (filter (\<lambda>m. from_gid m = gid) R)"
    using known_rlc_fold [of cs s gid] ok by (intro exI [of _ "known_gen (sn_leader_map s) gid"]) auto
qed

lemma flow_ok_no_messages:
  assumes "flow_ok h c b D []"
  shows "b = [] \<and> D = []"
proof -
  have "\<forall>p \<in> set D. filter (\<lambda>q. h q = h p) D = []"
    using assms by (auto simp: flow_ok_def of_gen_def)
  then have "D = []" by (cases D) auto
  with assms show ?thesis by (simp add: flow_ok_def)
qed

lemma pend_inv_gossip:
  assumes pend: "pend_inv src cs s R D" and step: "slave_gossip_data g some_lm s = Some s'"
    and fresh: "fresh_groups (Some (g, some_lm)) s R"
  shows "pend_inv src cs s' R D"
proof (cases "gossip_gen (sn_gossip s) < gossip_gen g")
  case False
  with pend step show ?thesis by (simp add: slave_gossip_data_def)
next
  case True
  with step obtain lm where lm: "update_leader_map (sn_leader_map s) (sn_gossip s) some_lm g = Some lm"
    and s': "sn_leader_map s' = lm" "sn_driver s' = sn_driver s"
    by (auto simp: slave_gossip_data_def bind_eq_Some_conv Let_def)
  show ?thesis unfolding pend_inv_def
  proof (intro conjI allI)
    show "\<forall>m \<in> set R. src (payload m) = (from_gid m, from_gen m)" using pend by (simp add: pend_inv_def)
    fix gid
    let ?D = "filter (\<lambda>p. fst (src p) = gid) D" and ?R = "filter (\<lambda>m. from_gid m = gid) R" and ?b = "buf (sn_driver s) gid"
    from pend obtain k0 where
      k0: "k0 = known_gen (sn_leader_map s) gid \<or>
         (\<exists>a k. k0 = Some a \<and> known_gen (sn_leader_map s) gid = Some k \<and> a < k \<and>
            (\<exists>c \<in> set cs. rlc_gid c = gid \<and> lid_gen (rlc_lid c) = k))"
      and ok: "flow_ok (snd \<circ> src) k0 ?b ?D ?R" unfolding pend_inv_def by blast
    show "\<exists>k0. (k0 = known_gen (sn_leader_map s') gid \<or>
         (\<exists>a k. k0 = Some a \<and> known_gen (sn_leader_map s') gid = Some k \<and> a < k \<and>
            (\<exists>c \<in> set cs. rlc_gid c = gid \<and> lid_gen (rlc_lid c) = k))) \<and>
        flow_ok (snd \<circ> src) k0 (buf (sn_driver s') gid) ?D ?R"
    proof (cases "?R = []")
      case True
      with flow_ok_no_messages ok have "?b = []" "?D = []" by auto
      with True show ?thesis by (intro exI [of _ "known_gen (sn_leader_map s') gid"]) (simp add: s' flow_ok_init)
    next
      case False
      then have "bm_get (vv_value lm) gid = None \<or> bm_get (vv_value lm) gid = bm_get (vv_value (sn_leader_map s)) gid"
        using fresh by (intro update_leader_map_get [OF lm]) (auto simp: fresh_groups_def filter_empty_conv)
      then consider "known_gen lm gid = None" | "known_gen lm gid = known_gen (sn_leader_map s) gid"
        by (auto simp: known_gen_def)
      then show ?thesis
      proof cases
        case 1
        have "flow_ok (snd \<circ> src) None ?b ?D ?R" using ok by (rule flow_ok_unknown) (use ok in \<open>simp add: flow_ok_def\<close>)
        with 1 show ?thesis by (intro exI [of _ None]) (simp add: s')
      next
        case 2
        with k0 ok show ?thesis by (intro exI [of _ k0]) (simp add: s')
      qed
    qed
  qed
qed

lemma net_inv_bundle:
  assumes "net_inv src s R D" and "slave_bundle cs gossip s = Some (ps, s')" and "fresh_groups gossip s R"
  shows "net_inv src s' R (D @ ps)"
proof -
  let ?s1 = "fold slave_remote_leader_changed cs s"
  from assms(2) obtain s2 where
    s2: "(case gossip of None \<Rightarrow> Some ?s1 | Some (g, some_lm) \<Rightarrow> slave_gossip_data g some_lm ?s1) = Some s2"
    and del: "slave_deliver_blocked cs s2 = Some (ps, s')"
    by (auto simp: slave_bundle_def Let_def bind_eq_Some_conv)
  have "pend_inv src cs s2 R D"
    using pend_inv_rlc [OF assms(1), of cs] s2 assms(3)
    by (cases gossip) (auto intro: pend_inv_gossip simp: fresh_groups_def)
  then show ?thesis by (rule pend_inv_deliver [OF _ del])
qed

section \<open>Runs of a slave\<close>

text \<open>
  The events that reach the network part of a slave, with the messages accepted and the payloads
  delivered since the last change of its own group's leadership.
\<close>

inductive net_reach ::
  "('p \<Rightarrow> paxos_group_id \<times> gen) \<Rightarrow> 'p slave_net \<Rightarrow> 'p remote_message list \<Rightarrow> 'p list \<Rightarrow> bool" for src where
  start: "sn_driver s = nd_new (sn_leader_map s) \<Longrightarrow> net_reach src s [] []"
| message: "net_reach src s R D \<Longrightarrow> src (payload m) = (from_gid m, from_gen m) \<Longrightarrow>
    slave_remote_message m s = Some (ps, s') \<Longrightarrow>
    net_reach src s' (if accepts s m then R @ [m] else R) (D @ ps)"
| gossiped: "net_reach src s R D \<Longrightarrow> slave_remote_leader_changed_gossip gid lid s = Some s' \<Longrightarrow> net_reach src s' R D"
| taken: "net_reach src s R D \<Longrightarrow> slave_take_changes s = (cs, s') \<Longrightarrow> net_reach src s' R D"
| learned: "net_reach src s R D \<Longrightarrow> fresh_groups gossip s R \<Longrightarrow> slave_bundle cs gossip s = Some (ps, s') \<Longrightarrow>
    net_reach src s' R (D @ ps)"
| leader: "net_reach src s R D \<Longrightarrow> net_reach src (slave_leader_changed lid s) [] []"

lemma net_inv_start: "\<forall>gid. buf (sn_driver s) gid = [] \<Longrightarrow> net_inv src s [] []"
  by (simp add: net_inv_def flow_ok_init)

lemma net_reach_inv: "net_reach src s R D \<Longrightarrow> net_inv src s R D"
proof (induction rule: net_reach.induct)
  case (start s)
  have "\<forall>gid. buf (sn_driver s) gid = []" unfolding start by simp
  then show ?case by (rule net_inv_start)
next
  case (message s R D m ps s')
  from message.IH message.hyps(3,2) show ?case by (rule net_inv_message)
next
  case (gossiped s R D gid lid s')
  from gossiped.hyps(2) have "sn_leader_map s' = sn_leader_map s \<and> sn_driver s' = sn_driver s"
    by (auto simp: slave_remote_leader_changed_gossip_def bind_eq_Some_conv split: if_splits option.splits)
  with gossiped.IH show ?case by (simp add: net_inv_def)
next
  case (taken s R D cs s')
  then have "s' = s\<lparr>sn_changes := []\<rparr>" by (simp add: slave_take_changes_def)
  with taken.IH show ?case by (simp add: net_inv_def)
next
  case (learned s R D gossip cs ps s')
  from learned.IH learned.hyps(3,2) show ?case by (rule net_inv_bundle)
next
  case (leader s R D lid)
  have "\<forall>gid. buf (sn_driver (slave_leader_changed lid s)) gid = []"
    by (simp add: slave_leader_changed_def Let_def)
  then show ?case by (rule net_inv_start)
qed

section \<open>Properties\<close>

definition ex_lid :: "nat \<Rightarrow> string \<Rightarrow> leadership_id" where
  "ex_lid g name = \<lparr>lid_gen = g, lid_eid = EndpointId name Internal\<rparr>"

definition ex_msg :: "nat \<Rightarrow> nat \<Rightarrow> (paxos_group_id \<times> nat \<times> nat) remote_message" where
  "ex_msg g i = \<lparr>payload = (MasterGid, g, i), from_lid = ex_lid g ''m'', from_gid = MasterGid,
     to_lid = ex_lid 0 ''a'', to_gid = SlaveGid ''s''\<rparr>"

definition ex_net :: "(paxos_group_id \<times> nat \<times> nat) slave_net" where
  "ex_net =
     (let lm = vv_new [(MasterGid, ex_lid 0 ''m''), (SlaveGid ''s'', ex_lid 0 ''a'')]
      in \<lparr>sn_this_gid = SlaveGid ''s'', sn_this_eid = EndpointId ''a'' Internal, sn_gossip = gossip_new [] [],
          sn_leader_map = lm, sn_all_eids = vv_new [], sn_paxos_nodes = [], sn_driver = nd_new lm, sn_changes = []\<rparr>)"

definition ex_change :: remote_leader_changed_plm where
  "ex_change = \<lparr>rlc_gid = MasterGid, rlc_lid = ex_lid 1 ''m''\<rparr>"

text \<open>
  C36: Messages from another group reach the backend of a slave in order and without gaps. In every
  run, among the messages accepted since the slave's own group last changed its leader: those
  delivered from any leadership of a group are a prefix of those accepted from it; a group's
  deliveries never fall back to an older leadership; and while nothing newer than the known
  leadership was heard of, everything accepted from it has been delivered.
\<close>

theorem network_fifo:
  assumes "net_reach src s R D"
  shows "prefix (filter (\<lambda>p. src p = (gid, g)) D) (map payload (filter (\<lambda>m. from_gid m = gid \<and> from_gen m = g) R)) \<and>
    sorted (map (\<lambda>p. snd (src p)) (filter (\<lambda>p. fst (src p) = gid) D)) \<and>
    (\<forall>lid. bm_get (vv_value (sn_leader_map s)) gid = Some lid \<longrightarrow>
       (\<forall>m \<in> set R. from_gid m = gid \<longrightarrow> from_gen m \<le> lid_gen lid) \<longrightarrow>
       filter (\<lambda>p. src p = (gid, lid_gen lid)) D =
         map payload (filter (\<lambda>m. from_gid m = gid \<and> from_gen m = lid_gen lid) R))"
proof -
  let ?D = "filter (\<lambda>p. fst (src p) = gid) D" and ?R = "filter (\<lambda>m. from_gid m = gid) R"
  have ok: "flow_ok (snd \<circ> src) (known_gen (sn_leader_map s) gid) (buf (sn_driver s) gid) ?D ?R"
    using net_reach_inv [OF assms] by (simp add: net_inv_def)
  have D: "filter (\<lambda>p. src p = (gid, g)) D = filter (\<lambda>p. (snd \<circ> src) p = g) ?D" for g
    by (auto intro!: filter_cong simp: prod_eq_iff)
  have R: "filter (\<lambda>m. from_gid m = gid \<and> from_gen m = g) R = of_gen g ?R" for g
    by (auto simp: of_gen_def intro!: filter_cong)
  have "filter (\<lambda>p. (snd \<circ> src) p = lid_gen lid) ?D = map payload (of_gen (lid_gen lid) ?R)"
    if "bm_get (vv_value (sn_leader_map s)) gid = Some lid"
      and top: "\<forall>m \<in> set R. from_gid m = gid \<longrightarrow> from_gen m \<le> lid_gen lid" for lid
  proof -
    have "known_gen (sn_leader_map s) gid = Some (lid_gen lid)" using that(1) by (simp add: known_gen_def)
    note ok' = ok [unfolded this]
    have "buf (sn_driver s) gid = []"
    proof (rule ccontr)
      assume ne: "buf (sn_driver s) gid \<noteq> []"
      then have "hd (buf (sn_driver s) gid) \<in> set ?R" and "lid_gen lid < from_gen (hd (buf (sn_driver s) gid))"
        using ok' hd_in_set [OF ne] by (simp_all add: flow_ok_def subset_iff)
      with top show False by fastforce
    qed
    with ok' show ?thesis by (simp add: flow_ok_def)
  qed
  with flow_ok_prefix [OF ok, of g] ok show ?thesis
    by (simp add: D R flow_ok_def comp_def)
qed

lemmas net_eval = Let_def ex_net_def ex_msg_def ex_lid_def ex_change_def slave_remote_message_def slave_is_leader_def
  slave_lid_def receive_def nd_refresh_def nd_new_def vv_new_def slave_bundle_def slave_remote_leader_changed_def
  deliver_blocked_messages_def vv_update_def gen_next_def accepts_def less_paxos_group_id_def

text \<open>Two messages of a new master leadership are buffered and delivered once the change is learned.\<close>

theorem network_fifo_witness:
  "\<exists>s. net_reach (\<lambda>(gid, g, _). (gid, g)) s [ex_msg 1 0, ex_msg 1 1] [(MasterGid, 1, 0), (MasterGid, 1, 1)] \<and>
     filter (\<lambda>(gid, g, _). (gid, g) = (MasterGid, 1)) [(MasterGid, 1::nat, 0::nat), (MasterGid, 1, 1)] =
       map payload [ex_msg 1 0, ex_msg 1 1]"
proof -
  let ?src = "\<lambda>(gid, g, _). (gid, g)"
  have 0: "net_reach ?src ex_net [] []" by (rule net_reach.start) (simp add: ex_net_def Let_def)
  let ?s = "\<lambda>ms. ex_net\<lparr>sn_driver := \<lparr>network_buffer = [(MasterGid, ms), (SlaveGid ''s'', [])], nd_gen = 0\<rparr>,
    sn_changes := [ex_change]\<rparr>"
  have s1: "slave_remote_message (ex_msg 1 0) ex_net = Some ([], ?s [ex_msg 1 0])" by (simp add: net_eval)
  have 1: "net_reach ?src (?s [ex_msg 1 0]) [ex_msg 1 0] []"
    using net_reach.message [OF 0 _ s1] by (simp add: net_eval)
  have s2: "slave_remote_message (ex_msg 1 1) (?s [ex_msg 1 0]) = Some ([], ?s [ex_msg 1 0, ex_msg 1 1])"
    by (simp add: net_eval)
  have 2: "net_reach ?src (?s [ex_msg 1 0, ex_msg 1 1]) [ex_msg 1 0, ex_msg 1 1] []"
    using net_reach.message [OF 1 _ s2] by (simp add: net_eval)
  obtain s3 where s3: "slave_bundle [ex_change] None (?s [ex_msg 1 0, ex_msg 1 1]) =
      Some ([(MasterGid, 1, 0), (MasterGid, 1, 1)], s3)"
    and lm: "bm_get (vv_value (sn_leader_map s3)) MasterGid = Some (ex_lid 1 ''m'')"
    by (simp add: net_eval)
  have "net_reach ?src s3 [ex_msg 1 0, ex_msg 1 1] [(MasterGid, 1, 0), (MasterGid, 1, 1)]"
    using net_reach.learned [OF 2 _ s3] by (simp add: fresh_groups_def)
  with network_fifo [OF this, of MasterGid 1] show ?thesis
    by (intro exI [of _ s3]) (simp add: ex_msg_def ex_lid_def lm)
qed

text \<open>
  A slave group that is not yet in the gossip already keeps the leadership of its own group, which
  its Paxos log decides. The gossip that first lists the group replaces it by what the master
  recorded when the group was created, whatever leadership the group has reached since.
\<close>

lemma gossip_overwrites_own_leadership:
  assumes "slave_gossip_data g some_lm s = Some s'" and "gossip_gen (sn_gossip s) < gossip_gen g"
    and "sn_this_gid s = SlaveGid sid"
    and "sid \<notin> set (bm_keys (slave_address_config (gossip_get (sn_gossip s))))"
    and "sid \<in> set (bm_keys (slave_address_config (gossip_get g)))"
  shows "slave_lid s' = bm_get some_lm (SlaveGid sid)"
proof -
  let ?new = "bm_keys (slave_address_config (gossip_get g))"
    and ?old = "bm_keys (slave_address_config (gossip_get (sn_gossip s)))"
  let ?add = "filter (\<lambda>sid. sid \<notin> set ?old) ?new"
  from assms(1,2) obtain lm1 where lm1: "add_new_gids ?add (sn_leader_map s) some_lm = Some lm1"
    and s': "sn_leader_map s' = fold (\<lambda>sid lm. vv_update lm (bm_remove (SlaveGid sid)))
        (filter (\<lambda>sid. sid \<notin> set ?new) ?old) lm1" "sn_this_gid s' = sn_this_gid s"
    by (auto simp: slave_gossip_data_def update_leader_map_def Let_def bind_eq_Some_conv)
  have "add_new_gids_unversioned ?add (vv_value (sn_leader_map s)) some_lm = Some (vv_value lm1)"
    using add_new_gids_value [of ?add "sn_leader_map s" some_lm] lm1 by simp
  from add_new_gids_unversioned_get [OF this, of "SlaveGid sid"] assms(4,5)
  have "bm_get (vv_value lm1) (SlaveGid sid) = bm_get some_lm (SlaveGid sid)" by auto
  with assms(3,5) show ?thesis by (simp add: s' slave_lid_def fold_vv_value fold_remove_get image_iff)
qed

end
