(* ===== verification/Paxos2PC.thy ===== *)
theory Paxos2PC
  imports Network_Driver
begin

text \<open>
  The commit protocol of a write transaction, \<open>src/src/paxos2pc_tm.rs\<close> and
  \<open>src/src/paxos2pc_rm.rs\<close>: a transaction manager (TM) that keeps nothing in its log and
  resource managers (RMs) that persist \<open>Prepared\<close>, \<open>Committed\<close> and \<open>Aborted\<close> in theirs. The
  code is generic in its payload types and in the callbacks of the application; here the payload
  types are type variables and the callbacks a record of functions, \<open>rm_inner\<close> and \<open>tm_inner\<close>.
  A handler returns its effects in the order the code performs them, the new context, the new
  state machine and the action for its owner. \<open>None\<close> is a panic, of the handler or of a callback.
\<close>

section \<open>Messages and log entries\<close>

datatype ('p, 'k, 'a, 'r, 't) rm_plm =
    RM_PreparedPLm query_id 't "'r list" 'p
  | RM_CommittedPLm query_id 'k
  | RM_AbortedPLm query_id 'a

record ('q, 'r, 't) prepare =
  pr_query_id :: query_id
  pr_tm :: 't
  pr_rms :: "'r list"
  pr_payload :: 'q

record 't check_prepared =
  cp_query_id :: query_id
  cp_tm :: 't

datatype ('q, 'r, 't) rm_message =
    RM_Prepare "('q, 'r, 't) prepare"
  | RM_CheckPrepared "'t check_prepared"
  | RM_Abort query_id 't
  | RM_Commit query_id 't

datatype ('r, 't) tm_message =
    TM_Prepared query_id 'r
  | TM_InformPrepared query_id 't "'r list"
  | TM_Wait query_id 'r
  | TM_Aborted query_id 'r

datatype p2pc_action = P2PC_Wait | P2PC_Exit

section \<open>Resource managers\<close>

text \<open>The traits \<open>Paxos2PCRMInner\<close> and \<open>RMServerContext\<close>, less the effects.\<close>

record ('c, 'x, 'i, 'q, 'p, 'k, 'a, 'r, 't) rm_inner =
  inner_new :: "'q \<Rightarrow> 'x \<Rightarrow> 'c \<Rightarrow> ('i option \<times> 'x \<times> 'c) option"
  inner_new_follower :: "'p \<Rightarrow> 'c \<Rightarrow> ('i \<times> 'c) option"
  early_aborted :: "'i \<Rightarrow> 'c \<Rightarrow> ('i \<times> 'c) option"
  mk_prepared_plm :: "'i \<Rightarrow> 'c \<Rightarrow> ('p \<times> 'i \<times> 'c) option"
  prepared_plm_inserted :: "'i \<Rightarrow> 'c \<Rightarrow> ('i \<times> 'c) option"
  mk_committed_plm :: "'i \<Rightarrow> 'c \<Rightarrow> ('k \<times> 'i \<times> 'c) option"
  committed_plm_inserted :: "query_id \<Rightarrow> 'i \<Rightarrow> 'c \<Rightarrow> ('i \<times> 'c) option"
  mk_aborted_plm :: "'i \<Rightarrow> 'c \<Rightarrow> ('a \<times> 'i \<times> 'c) option"
  aborted_plm_inserted :: "'i \<Rightarrow> 'c \<Rightarrow> ('i \<times> 'c) option"
  inner_reconfig_snapshot :: "'i \<Rightarrow> 'i"
  rm_node_path :: "'c \<Rightarrow> 'r"
  rm_is_leader :: "'c \<Rightarrow> bool option"
  rm_leader_map :: "'c \<Rightarrow> leader_map"
  tm_to_gid :: "'t \<Rightarrow> paxos_group_id"

datatype rm_state =
    Follower
  | WaitingInsertingPrepared (orig_tm_lid: leadership_id)
  | InsertingPrepared (orig_tm_lid: leadership_id)
  | Prepared
  | InsertingCommitted
  | InsertingPreparedAborted
  | InsertingAborted

record ('i, 'r, 't) rm_exec_outer =
  rx_query_id :: query_id
  rx_tm :: 't
  rx_rms :: "'r list"
  rx_state :: rm_state
  rx_inner :: 'i

datatype ('i, 'r, 't) rm_outer = RM_Committed | RM_Aborted | RM_Exec "('i, 'r, 't) rm_exec_outer"

datatype ('p, 'k, 'a, 'r, 't) rm_effect =
    Push "('p, 'k, 'a, 'r, 't) rm_plm"
  | To_TM 't "('r, 't) tm_message"

type_synonym ('c, 'i, 'p, 'k, 'a, 'r, 't) rm_res =
  "(('p, 'k, 'a, 'r, 't) rm_effect list \<times> 'c \<times> ('i, 'r, 't) rm_outer \<times> p2pc_action) option"
type_synonym ('c, 'i, 'p, 'k, 'a, 'r, 't) rm_con_res =
  "('p, 'k, 'a, 'r, 't) rm_effect list \<times> 'c \<times> (query_id, ('i, 'r, 't) rm_outer) btree \<times> query_id \<times> p2pc_action"

definition rm_new ::
  "('c, 'x, 'i, 'q, 'p, 'k, 'a, 'r, 't) rm_inner \<Rightarrow> 'c \<Rightarrow> query_id \<Rightarrow> 't \<Rightarrow> 'r list \<Rightarrow> 'i \<Rightarrow> ('i, 'r, 't) rm_outer option" where
  "rm_new ops c query_id tm rms inner =
     do { lid \<leftarrow> bm_get (rm_leader_map ops c) (tm_to_gid ops tm);
          Some (RM_Exec \<lparr>rx_query_id = query_id, rx_tm = tm, rx_rms = rms,
                  rx_state = WaitingInsertingPrepared lid, rx_inner = inner\<rparr>) }"

definition rm_init_follower ::
  "('c, 'x, 'i, 'q, 'p, 'k, 'a, 'r, 't) rm_inner \<Rightarrow> 'c \<Rightarrow> ('i, 'r, 't) rm_outer \<Rightarrow> ('c \<times> ('i, 'r, 't) rm_outer) option" where
  "rm_init_follower ops c out =
     (case out of
        RM_Exec es \<Rightarrow>
          do { (i, c') \<leftarrow> prepared_plm_inserted ops (rx_inner es) c;
               Some (c', RM_Exec (es\<lparr>rx_inner := i, rx_state := Follower\<rparr>)) }
      | _ \<Rightarrow> Some (c, out))"

text \<open>The three sends of \<open>Paxos2PCRMExecOuter\<close>.\<close>

definition send_prepared ::
  "('c, 'x, 'i, 'q, 'p, 'k, 'a, 'r, 't) rm_inner \<Rightarrow> 'c \<Rightarrow> ('i, 'r, 't) rm_exec_outer \<Rightarrow> ('p, 'k, 'a, 'r, 't) rm_effect" where
  "send_prepared ops c es = To_TM (rx_tm es) (TM_Prepared (rx_query_id es) (rm_node_path ops c))"

definition send_inform_prepared ::
  "('i, 'r, 't) rm_exec_outer \<Rightarrow> ('p, 'k, 'a, 'r, 't) rm_effect" where
  "send_inform_prepared es = To_TM (rx_tm es) (TM_InformPrepared (rx_query_id es) (rx_tm es) (rx_rms es))"

definition send_wait ::
  "('c, 'x, 'i, 'q, 'p, 'k, 'a, 'r, 't) rm_inner \<Rightarrow> 'c \<Rightarrow> ('i, 'r, 't) rm_exec_outer \<Rightarrow> ('p, 'k, 'a, 'r, 't) rm_effect" where
  "send_wait ops c es = To_TM (rx_tm es) (TM_Wait (rx_query_id es) (rm_node_path ops c))"

text \<open>A handler that does nothing.\<close>

abbreviation rm_idle where
  "rm_idle c out \<equiv> Some ([], c, out, P2PC_Wait)"

definition rm_handle_prepare ::
  "('c, 'x, 'i, 'q, 'p, 'k, 'a, 'r, 't) rm_inner \<Rightarrow> 'c \<Rightarrow> ('i, 'r, 't) rm_outer \<Rightarrow> ('c, 'i, 'p, 'k, 'a, 'r, 't) rm_res" where
  "rm_handle_prepare ops c out =
     (case out of
        RM_Exec es \<Rightarrow>
          (case rx_state es of
             Prepared \<Rightarrow> Some ([send_prepared ops c es], c, out, P2PC_Wait)
           | _ \<Rightarrow> rm_idle c out)
      | _ \<Rightarrow> rm_idle c out)"

definition rm_handle_commit ::
  "('c, 'x, 'i, 'q, 'p, 'k, 'a, 'r, 't) rm_inner \<Rightarrow> 'c \<Rightarrow> ('i, 'r, 't) rm_outer \<Rightarrow> ('c, 'i, 'p, 'k, 'a, 'r, 't) rm_res" where
  "rm_handle_commit ops c out =
     (case out of
        RM_Exec es \<Rightarrow>
          (case rx_state es of
             Prepared \<Rightarrow>
               do { (plm, i, c') \<leftarrow> mk_committed_plm ops (rx_inner es) c;
                    Some ([Push (RM_CommittedPLm (rx_query_id es) plm)], c',
                          RM_Exec (es\<lparr>rx_inner := i, rx_state := InsertingCommitted\<rparr>), P2PC_Wait) }
           | _ \<Rightarrow> rm_idle c out)
      | _ \<Rightarrow> rm_idle c out)"

definition rm_handle_abort ::
  "('c, 'x, 'i, 'q, 'p, 'k, 'a, 'r, 't) rm_inner \<Rightarrow> 'c \<Rightarrow> ('i, 'r, 't) rm_outer \<Rightarrow> ('c, 'i, 'p, 'k, 'a, 'r, 't) rm_res" where
  "rm_handle_abort ops c out =
     (case out of
        RM_Exec es \<Rightarrow>
          (case rx_state es of
             WaitingInsertingPrepared _ \<Rightarrow>
               do { (i, c') \<leftarrow> early_aborted ops (rx_inner es) c;
                    Some ([], c', RM_Exec (es\<lparr>rx_inner := i\<rparr>), P2PC_Exit) }
           | InsertingPrepared _ \<Rightarrow> Some ([], c, RM_Exec (es\<lparr>rx_state := InsertingPreparedAborted\<rparr>), P2PC_Wait)
           | Prepared \<Rightarrow>
               do { (plm, i, c') \<leftarrow> mk_aborted_plm ops (rx_inner es) c;
                    Some ([Push (RM_AbortedPLm (rx_query_id es) plm)], c',
                          RM_Exec (es\<lparr>rx_inner := i, rx_state := InsertingAborted\<rparr>), P2PC_Wait) }
           | _ \<Rightarrow> rm_idle c out)
      | _ \<Rightarrow> rm_idle c out)"

definition rm_handle_check_prepared ::
  "('c, 'x, 'i, 'q, 'p, 'k, 'a, 'r, 't) rm_inner \<Rightarrow> 't check_prepared \<Rightarrow> 'c \<Rightarrow> ('i, 'r, 't) rm_outer \<Rightarrow> ('c, 'i, 'p, 'k, 'a, 'r, 't) rm_res" where
  "rm_handle_check_prepared ops check c out =
     (case out of
        RM_Exec es \<Rightarrow>
          (case rx_state es of
             Follower \<Rightarrow> rm_idle c out
           | WaitingInsertingPrepared _ \<Rightarrow> Some ([send_wait ops c es], c, out, P2PC_Wait)
           | InsertingPrepared _ \<Rightarrow> Some ([send_wait ops c es], c, out, P2PC_Wait)
           | InsertingPreparedAborted \<Rightarrow> Some ([send_wait ops c es], c, out, P2PC_Wait)
           | Prepared \<Rightarrow> Some ([send_prepared ops c es], c, out, P2PC_Wait)
           | InsertingCommitted \<Rightarrow> Some ([send_prepared ops c es], c, out, P2PC_Wait)
           | InsertingAborted \<Rightarrow> Some ([send_prepared ops c es], c, out, P2PC_Wait))
      | RM_Committed \<Rightarrow>
          Some ([To_TM (cp_tm check) (TM_Prepared (cp_query_id check) (rm_node_path ops c))], c, out, P2PC_Wait)
      | RM_Aborted \<Rightarrow>
          Some ([To_TM (cp_tm check) (TM_Aborted (cp_query_id check) (rm_node_path ops c))], c, out, P2PC_Wait))"

definition rm_handle_prepared_plm ::
  "('c, 'x, 'i, 'q, 'p, 'k, 'a, 'r, 't) rm_inner \<Rightarrow> 'c \<Rightarrow> ('i, 'r, 't) rm_outer \<Rightarrow> ('c, 'i, 'p, 'k, 'a, 'r, 't) rm_res" where
  "rm_handle_prepared_plm ops c out =
     (case out of
        RM_Exec es \<Rightarrow>
          (case rx_state es of
             InsertingPrepared orig_lid \<Rightarrow>
               do { cur_tm_lid \<leftarrow> bm_get (rm_leader_map ops c) (tm_to_gid ops (rx_tm es));
                    let eff = (if orig_lid \<noteq> cur_tm_lid then send_inform_prepared es else send_prepared ops c es);
                    (i, c') \<leftarrow> prepared_plm_inserted ops (rx_inner es) c;
                    Some ([eff], c', RM_Exec (es\<lparr>rx_inner := i, rx_state := Prepared\<rparr>), P2PC_Wait) }
           | InsertingPreparedAborted \<Rightarrow>
               do { (i, c') \<leftarrow> prepared_plm_inserted ops (rx_inner es) c;
                    (plm, i', c'') \<leftarrow> mk_aborted_plm ops i c';
                    Some ([Push (RM_AbortedPLm (rx_query_id es) plm)], c'',
                          RM_Exec (es\<lparr>rx_inner := i', rx_state := InsertingAborted\<rparr>), P2PC_Wait) }
           | _ \<Rightarrow> rm_idle c out)
      | _ \<Rightarrow> rm_idle c out)"

definition rm_handle_committed_plm ::
  "('c, 'x, 'i, 'q, 'p, 'k, 'a, 'r, 't) rm_inner \<Rightarrow> 'c \<Rightarrow> ('i, 'r, 't) rm_outer \<Rightarrow> ('c, 'i, 'p, 'k, 'a, 'r, 't) rm_res" where
  "rm_handle_committed_plm ops c out =
     (case out of
        RM_Exec es \<Rightarrow>
          (if rx_state es \<in> {Follower, InsertingCommitted} then
             do { (_, c') \<leftarrow> committed_plm_inserted ops (rx_query_id es) (rx_inner es) c;
                  Some ([], c', RM_Committed, P2PC_Wait) }
           else rm_idle c out)
      | _ \<Rightarrow> rm_idle c out)"

definition rm_handle_aborted_plm ::
  "('c, 'x, 'i, 'q, 'p, 'k, 'a, 'r, 't) rm_inner \<Rightarrow> 'c \<Rightarrow> ('i, 'r, 't) rm_outer \<Rightarrow> ('c, 'i, 'p, 'k, 'a, 'r, 't) rm_res" where
  "rm_handle_aborted_plm ops c out =
     (case out of
        RM_Exec es \<Rightarrow>
          (if rx_state es \<in> {Follower, InsertingAborted} then
             do { (_, c') \<leftarrow> aborted_plm_inserted ops (rx_inner es) c;
                  Some ([], c', RM_Aborted, P2PC_Wait) }
           else rm_idle c out)
      | _ \<Rightarrow> rm_idle c out)"

definition rm_start_inserting ::
  "('c, 'x, 'i, 'q, 'p, 'k, 'a, 'r, 't) rm_inner \<Rightarrow> 'c \<Rightarrow> ('i, 'r, 't) rm_outer \<Rightarrow> ('c, 'i, 'p, 'k, 'a, 'r, 't) rm_res" where
  "rm_start_inserting ops c out =
     (case out of
        RM_Exec es \<Rightarrow>
          (case rx_state es of
             WaitingInsertingPrepared lid \<Rightarrow>
               do { (plm, i, c') \<leftarrow> mk_prepared_plm ops (rx_inner es) c;
                    Some ([Push (RM_PreparedPLm (rx_query_id es) (rx_tm es) (rx_rms es) plm)], c',
                          RM_Exec (es\<lparr>rx_inner := i, rx_state := InsertingPrepared lid\<rparr>), P2PC_Wait) }
           | _ \<Rightarrow> rm_idle c out)
      | _ \<Rightarrow> rm_idle c out)"

definition rm_remote_leader_changed ::
  "('c, 'x, 'i, 'q, 'p, 'k, 'a, 'r, 't) rm_inner \<Rightarrow> remote_leader_changed_plm \<Rightarrow> 'c \<Rightarrow> ('i, 'r, 't) rm_outer \<Rightarrow> ('c, 'i, 'p, 'k, 'a, 'r, 't) rm_res" where
  "rm_remote_leader_changed ops change c out =
     (case out of
        RM_Exec es \<Rightarrow>
          (case rx_state es of
             Prepared \<Rightarrow>
               Some (if rlc_gid change = tm_to_gid ops (rx_tm es) then [send_inform_prepared es] else [], c, out, P2PC_Wait)
           | _ \<Rightarrow> rm_idle c out)
      | _ \<Rightarrow> rm_idle c out)"

definition rm_leader_changed ::
  "('c, 'x, 'i, 'q, 'p, 'k, 'a, 'r, 't) rm_inner \<Rightarrow> 'c \<Rightarrow> ('i, 'r, 't) rm_outer \<Rightarrow> ('c, 'i, 'p, 'k, 'a, 'r, 't) rm_res" where
  "rm_leader_changed ops c out =
     (case out of
        RM_Exec es \<Rightarrow>
          (case rx_state es of
             Follower \<Rightarrow>
               do { leading \<leftarrow> rm_is_leader ops c;
                    if leading then
                      Some ([send_inform_prepared es], c, RM_Exec (es\<lparr>rx_state := Prepared\<rparr>), P2PC_Wait)
                    else rm_idle c out }
           | Prepared \<Rightarrow> Some ([], c, RM_Exec (es\<lparr>rx_state := Follower\<rparr>), P2PC_Wait)
           | InsertingCommitted \<Rightarrow> Some ([], c, RM_Exec (es\<lparr>rx_state := Follower\<rparr>), P2PC_Wait)
           | InsertingAborted \<Rightarrow> Some ([], c, RM_Exec (es\<lparr>rx_state := Follower\<rparr>), P2PC_Wait)
           | _ \<Rightarrow>
               do { (i, c') \<leftarrow> early_aborted ops (rx_inner es) c;
                    Some ([], c', RM_Exec (es\<lparr>rx_inner := i\<rparr>), P2PC_Exit) })
      | _ \<Rightarrow> rm_idle c out)"

definition rm_reconfig_snapshot ::
  "('c, 'x, 'i, 'q, 'p, 'k, 'a, 'r, 't) rm_inner \<Rightarrow> ('i, 'r, 't) rm_outer \<Rightarrow> ('i, 'r, 't) rm_outer option" where
  "rm_reconfig_snapshot ops out =
     (case out of
        RM_Exec es \<Rightarrow>
          (if rx_state es \<in> {Follower, Prepared, InsertingCommitted, InsertingAborted} then
             Some (RM_Exec (es\<lparr>rx_state := Follower, rx_inner := inner_reconfig_snapshot ops (rx_inner es)\<rparr>))
           else None)
      | _ \<Rightarrow> Some out)"

section \<open>The container of the resource managers\<close>

text \<open>A result of a handler on the state machine of \<open>query_id\<close>, with the machine put back.\<close>

definition rm_put ::
  "query_id \<Rightarrow> (query_id, ('i, 'r, 't) rm_outer) btree \<Rightarrow> ('c, 'i, 'p, 'k, 'a, 'r, 't) rm_res \<Rightarrow> ('c, 'i, 'p, 'k, 'a, 'r, 't) rm_con_res option" where
  "rm_put query_id con res =
     do { (eff, c, out, act) \<leftarrow> res; Some (eff, c, bm_insert query_id out con, query_id, act) }"

definition handle_rm_plm ::
  "('c, 'x, 'i, 'q, 'p, 'k, 'a, 'r, 't) rm_inner \<Rightarrow> ('p, 'k, 'a, 'r, 't) rm_plm \<Rightarrow> 'c \<Rightarrow> (query_id, ('i, 'r, 't) rm_outer) btree
    \<Rightarrow> ('c, 'i, 'p, 'k, 'a, 'r, 't) rm_con_res option" where
  "handle_rm_plm ops plm c con =
     (case plm of
        RM_PreparedPLm query_id tm rms prepared \<Rightarrow>
          do { leading \<leftarrow> rm_is_leader ops c;
               if leading then
                 do { out \<leftarrow> bm_get con query_id;
                      rm_put query_id con (rm_handle_prepared_plm ops c out) }
               else
                 do { (inner, c') \<leftarrow> inner_new_follower ops prepared c;
                      out \<leftarrow> rm_new ops c' query_id tm rms inner;
                      (c'', out') \<leftarrow> rm_init_follower ops c' out;
                      Some ([], c'', bm_insert query_id out' con, query_id, P2PC_Wait) } }
      | RM_CommittedPLm query_id _ \<Rightarrow>
          do { out \<leftarrow> bm_get con query_id; rm_put query_id con (rm_handle_committed_plm ops c out) }
      | RM_AbortedPLm query_id _ \<Rightarrow>
          do { out \<leftarrow> bm_get con query_id; rm_put query_id con (rm_handle_aborted_plm ops c out) })"

definition handle_rm_msg ::
  "('c, 'x, 'i, 'q, 'p, 'k, 'a, 'r, 't) rm_inner \<Rightarrow> ('q, 'r, 't) rm_message \<Rightarrow> 'c \<Rightarrow> (query_id, ('i, 'r, 't) rm_outer) btree \<Rightarrow> 'x
    \<Rightarrow> (('c, 'i, 'p, 'k, 'a, 'r, 't) rm_con_res \<times> 'x) option" where
  "handle_rm_msg ops msg c con extra =
     (case msg of
        RM_Prepare p \<Rightarrow>
          (case bm_get con (pr_query_id p) of
             Some out \<Rightarrow>
               map_option (\<lambda>res. (res, extra)) (rm_put (pr_query_id p) con (rm_handle_prepare ops c out))
           | None \<Rightarrow>
               do { (made, extra', c') \<leftarrow> inner_new ops (pr_payload p) extra c;
                    case made of
                      Some inner \<Rightarrow>
                        do { out \<leftarrow> rm_new ops c' (pr_query_id p) (pr_tm p) (pr_rms p) inner;
                             Some (([], c', bm_insert (pr_query_id p) out con, pr_query_id p, P2PC_Wait), extra') }
                    | None \<Rightarrow>
                        Some (([To_TM (pr_tm p) (TM_Aborted (pr_query_id p) (rm_node_path ops c'))], c', con,
                               pr_query_id p, P2PC_Wait), extra') })
      | RM_CheckPrepared check \<Rightarrow>
          (case bm_get con (cp_query_id check) of
             Some out \<Rightarrow>
               map_option (\<lambda>res. (res, extra)) (rm_put (cp_query_id check) con (rm_handle_check_prepared ops check c out))
           | None \<Rightarrow>
               Some (([To_TM (cp_tm check) (TM_Aborted (cp_query_id check) (rm_node_path ops c))], c, con,
                      cp_query_id check, P2PC_Wait), extra))
      | RM_Abort query_id _ \<Rightarrow>
          (case bm_get con query_id of
             Some out \<Rightarrow> map_option (\<lambda>res. (res, extra)) (rm_put query_id con (rm_handle_abort ops c out))
           | None \<Rightarrow> Some (([], c, con, query_id, P2PC_Wait), extra))
      | RM_Commit query_id _ \<Rightarrow>
          (case bm_get con query_id of
             Some out \<Rightarrow> map_option (\<lambda>res. (res, extra)) (rm_put query_id con (rm_handle_commit ops c out))
           | None \<Rightarrow> Some (([], c, con, query_id, P2PC_Wait), extra)))"

section \<open>Transaction managers\<close>

record ('d, 'j, 'r, 't) tm_inner =
  new_rec :: "'d \<Rightarrow> 'j \<times> 'd"
  inner_committed :: "'j \<Rightarrow> 'd \<Rightarrow> 'j \<times> 'd"
  inner_aborted :: "'j \<Rightarrow> 'd \<Rightarrow> 'j \<times> 'd"
  tm_node_path :: "'d \<Rightarrow> 't"
  rm_to_gid :: "'r \<Rightarrow> paxos_group_id"

datatype ('q, 'r, 't) tm_state =
    Preparing (all_rms: "'r list") "('r, ('q, 'r, 't) prepare) btree"
  | CheckingPrepared (all_rms: "'r list") "('r, 't check_prepared) btree"

record ('q, 'r, 't, 'j) tm_outer =
  tx_query_id :: query_id
  tx_state :: "('q, 'r, 't) tm_state"
  tx_inner :: 'j

type_synonym ('q, 'r, 't) tm_sends = "('r \<times> ('q, 'r, 't) rm_message) list"

type_synonym ('d, 'q, 'r, 't, 'j) tm_res = "('q, 'r, 't) tm_sends \<times> 'd \<times> ('q, 'r, 't, 'j) tm_outer \<times> p2pc_action"
type_synonym ('d, 'q, 'r, 't, 'j) tm_con_res =
  "('q, 'r, 't) tm_sends \<times> 'd \<times> (query_id, ('q, 'r, 't, 'j) tm_outer) btree \<times> query_id \<times> p2pc_action"

definition start_orig ::
  "('d, 'j, ('r::linorder), 't) tm_inner \<Rightarrow> 'd \<Rightarrow> query_id \<Rightarrow> 'j \<Rightarrow> ('r, 'q) btree \<Rightarrow> ('q, 'r, 't) tm_sends \<times> ('q, 'r, 't, 'j) tm_outer" where
  "start_orig ops d query_id inner prepare_payloads =
     (let rms = bm_keys prepare_payloads;
          prepares = map (\<lambda>(rm, pl). (rm, \<lparr>pr_query_id = query_id, pr_tm = tm_node_path ops d,
                                                 pr_rms = rms, pr_payload = pl\<rparr>)) prepare_payloads
      in (map (\<lambda>(rm, p). (rm, RM_Prepare p)) prepares,
          \<lparr>tx_query_id = query_id,
           tx_state = Preparing rms (fold (\<lambda>(rm, p). bm_insert rm p) prepares []), tx_inner = inner\<rparr>))"

definition start_rec ::
  "('d, 'j, ('r::linorder), 't) tm_inner \<Rightarrow> 'd \<Rightarrow> query_id \<Rightarrow> 'j \<Rightarrow> 'r list \<Rightarrow> ('q, 'r, 't) tm_sends \<times> ('q, 'r, 't, 'j) tm_outer" where
  "start_rec ops d query_id inner rms =
     (let check = \<lparr>cp_query_id = query_id, cp_tm = tm_node_path ops d\<rparr>
      in (map (\<lambda>rm. (rm, RM_CheckPrepared check)) rms,
          \<lparr>tx_query_id = query_id,
           tx_state = CheckingPrepared rms (fold (\<lambda>rm. bm_insert rm check) rms []), tx_inner = inner\<rparr>))"

abbreviation tm_idle where
  "tm_idle d out \<equiv> ([], d, out, P2PC_Wait)"

definition tm_commit ::
  "('d, 'j, ('r::linorder), 't) tm_inner \<Rightarrow> 'd \<Rightarrow> ('q, 'r, 't, 'j) tm_outer \<Rightarrow> 'r list \<Rightarrow> ('d, 'q, 'r, 't, 'j) tm_res" where
  "tm_commit ops d out rms =
     (let (i, d') = inner_committed ops (tx_inner out) d
      in (map (\<lambda>rm. (rm, RM_Commit (tx_query_id out) (tm_node_path ops d))) rms, d',
          out\<lparr>tx_inner := i\<rparr>, P2PC_Exit))"

definition tm_handle_prepared ::
  "('d, 'j, ('r::linorder), 't) tm_inner \<Rightarrow> 'r \<Rightarrow> 'd \<Rightarrow> ('q, 'r, 't, 'j) tm_outer \<Rightarrow> ('d, 'q, 'r, 't, 'j) tm_res" where
  "tm_handle_prepared ops rm d out =
     (case tx_state out of
        Preparing rms remaining \<Rightarrow>
          (let remaining' = bm_remove rm remaining; out' = out\<lparr>tx_state := Preparing rms remaining'\<rparr>
           in if remaining' = [] then tm_commit ops d out' rms else tm_idle d out')
      | CheckingPrepared rms remaining \<Rightarrow>
          (let remaining' = bm_remove rm remaining; out' = out\<lparr>tx_state := CheckingPrepared rms remaining'\<rparr>
           in if remaining' = [] then tm_commit ops d out' rms else tm_idle d out'))"

definition tm_handle_aborted ::
  "('d, 'j, ('r::linorder), 't) tm_inner \<Rightarrow> 'd \<Rightarrow> ('q, 'r, 't, 'j) tm_outer \<Rightarrow> ('d, 'q, 'r, 't, 'j) tm_res" where
  "tm_handle_aborted ops d out =
     (let (i, d') = inner_aborted ops (tx_inner out) d
      in (map (\<lambda>rm. (rm, RM_Abort (tx_query_id out) (tm_node_path ops d))) (all_rms (tx_state out)), d',
          out\<lparr>tx_inner := i\<rparr>, P2PC_Exit))"

definition tm_handle_wait ::
  "'r \<Rightarrow> 'd \<Rightarrow> ('q, 'r, 't, 'j) tm_outer \<Rightarrow> ('d, 'q, 'r, 't, 'j) tm_res" where
  "tm_handle_wait rm d out =
     (case tx_state out of
        CheckingPrepared rms remaining \<Rightarrow>
          (case bm_get remaining rm of
             Some check \<Rightarrow> ([(rm, RM_CheckPrepared check)], d, out, P2PC_Wait)
           | None \<Rightarrow> tm_idle d out)
      | Preparing _ _ \<Rightarrow> tm_idle d out)"

definition tm_remote_leader_changed ::
  "('d, 'j, ('r::linorder), 't) tm_inner \<Rightarrow> remote_leader_changed_plm \<Rightarrow> 'd \<Rightarrow> ('q, 'r, 't, 'j) tm_outer \<Rightarrow> ('d, 'q, 'r, 't, 'j) tm_res" where
  "tm_remote_leader_changed ops change d out =
     (case tx_state out of
        Preparing rms remaining \<Rightarrow>
          (map (\<lambda>(rm, p). (rm, RM_Prepare p)) (filter (\<lambda>(rm, _). rm_to_gid ops rm = rlc_gid change) remaining),
           d, out, P2PC_Wait)
      | CheckingPrepared rms remaining \<Rightarrow>
          (map (\<lambda>(rm, check). (rm, RM_CheckPrepared check))
             (filter (\<lambda>(rm, _). rm_to_gid ops rm = rlc_gid change) remaining),
           d, out, P2PC_Wait))"

definition tm_put ::
  "query_id \<Rightarrow> (query_id, ('q, 'r, 't, 'j) tm_outer) btree \<Rightarrow> ('d, 'q, 'r, 't, 'j) tm_res \<Rightarrow> ('d, 'q, 'r, 't, 'j) tm_con_res" where
  "tm_put query_id con res = (case res of (sends, d, out, act) \<Rightarrow> (sends, d, bm_insert query_id out con, query_id, act))"

definition handle_tm_msg ::
  "('d, 'j, ('r::linorder), 't) tm_inner \<Rightarrow> ('r, 't) tm_message \<Rightarrow> 'd \<Rightarrow> (query_id, ('q, 'r, 't, 'j) tm_outer) btree \<Rightarrow> ('d, 'q, 'r, 't, 'j) tm_con_res" where
  "handle_tm_msg ops msg d con =
     (case msg of
        TM_Prepared query_id rm \<Rightarrow>
          (case bm_get con query_id of
             Some out \<Rightarrow> tm_put query_id con (tm_handle_prepared ops rm d out)
           | None \<Rightarrow> ([], d, con, query_id, P2PC_Wait))
      | TM_Aborted query_id _ \<Rightarrow>
          (case bm_get con query_id of
             Some out \<Rightarrow> tm_put query_id con (tm_handle_aborted ops d out)
           | None \<Rightarrow> ([], d, con, query_id, P2PC_Wait))
      | TM_InformPrepared query_id _ rms \<Rightarrow>
          (case bm_get con query_id of
             Some _ \<Rightarrow> ([], d, con, query_id, P2PC_Wait)
           | None \<Rightarrow>
               (let (inner, d') = new_rec ops d; (sends, out) = start_rec ops d' query_id inner rms
                in (sends, d', bm_insert query_id out con, query_id, P2PC_Wait)))
      | TM_Wait query_id rm \<Rightarrow>
          (case bm_get con query_id of
             Some out \<Rightarrow> tm_put query_id con (tm_handle_wait rm d out)
           | None \<Rightarrow> ([], d, con, query_id, P2PC_Wait)))"

end
