(* ===== verification/Tablet.thy ===== *)
theory Tablet
  imports Storage_Views Paxos2PC
begin

text \<open>
  The part of a tablet (\<open>src/src/tablet.rs\<close>) that decides which reads and writes may proceed:
  the Region Isolation Algorithm, the column locks, the transactions that have not prepared
  (\<open>MSQueryES\<close>) and the main loop that grants requests. Reads and writes carry timestamps; a read
  is granted only when no earlier undecided write can touch its region, and a write only when no
  later read that was granted can see it.

  A set of requests (ordered by the unique query id first) is a map from that id; a set of regions
  is a list without duplicates, whose order decides nothing. Informing the execution state that
  waits for a grant is an effect. \<open>None\<close> is a panic.
\<close>

section \<open>Data\<close>

type_synonym tnode_path = "slave_group_id \<times> tablet_group_id"
type_synonym cnode_path = "slave_group_id \<times> coord_group_id"

text \<open>A \<open>RequestedReadProtected\<close> without its own id: the region and the id of the originator.\<close>

type_synonym requests = "(query_id, read_region \<times> query_id) btree"

record verifying_region =
  v_orig_p :: query_id
  m_waiting_read_protected :: requests
  v_read_protected :: "read_region list"
  v_write_protected :: "write_region list"

record rw_region =
  rw_orig_p :: query_id
  m_read_protected :: "read_region list"
  m_write_protected :: "write_region list"

datatype col_set = CS_Cols "col_name list" | CS_All

definition col_set_contains :: "col_set \<Rightarrow> col_name \<Rightarrow> bool" where
  "col_set_contains cs col = (case cs of CS_Cols cols \<Rightarrow> col \<in> set cols | CS_All \<Rightarrow> True)"

record requested_locked_cols =
  lc_timestamp :: timestamp
  lc_cols :: col_set
  lc_orig_p :: query_id

record ms_query_es =
  ms_root_query_id :: query_id
  ms_sharding_gen :: sharding_gen
  ms_root_lid :: leadership_id
  ms_timestamp :: timestamp
  ms_update_views :: update_views
  pending_queries :: "query_id bset"

record fq_prepared =
  fq_sharding_gen :: sharding_gen
  fq_region_lock :: rw_region
  fq_timestamp :: timestamp
  fq_update_view :: generic_table

type_synonym fq_plm = "(fq_prepared, unit, unit, tnode_path, cnode_path) rm_plm"

datatype tablet_plm =
    PLm_LockedCols query_id timestamp col_set
  | PLm_ReadProtected query_id timestamp read_region
  | PLm_FinishQuery fq_plm

text \<open>What the main loop reads of the schema change in progress.\<close>

datatype ddl_es = DDL_None | DDL_Alter col_name timestamp | DDL_Drop timestamp | DDL_Dropped timestamp | DDL_ShardSplit

record tablet_ctx =
  t_this_sid :: slave_group_id
  t_this_tid :: tablet_group_id
  t_this_eid :: endpoint_id
  t_leader_map :: leader_map
  t_storage :: generic_mv_table
  t_schema :: table_schema
  presence_timestamp :: timestamp
  verifying_writes :: "(timestamp, verifying_region) btree"
  inserting_prepared_writes :: "(timestamp, rw_region) btree"
  prepared_writes :: "(timestamp, rw_region) btree"
  committed_writes :: "(timestamp, rw_region) btree"
  waiting_read_protected :: "(timestamp, requests) btree"
  inserting_read_protected :: "(timestamp, requests) btree"
  read_protected :: "(timestamp, read_region list) btree"
  waiting_locked_cols :: "(query_id, requested_locked_cols) btree"
  inserting_locked_cols :: "(query_id, requested_locked_cols) btree"
  ms_root_query_map :: "(query_id, query_id) btree"
  tablet_bundle :: "tablet_plm list"

definition tablet_is_leader :: "tablet_ctx \<Rightarrow> bool option" where
  "tablet_is_leader c =
     map_option (\<lambda>lid. lid_eid lid = t_this_eid c) (bm_get (t_leader_map c) (SlaveGid (t_this_sid c)))"

definition push_plm :: "tablet_plm \<Rightarrow> tablet_ctx \<Rightarrow> tablet_ctx" where
  "push_plm plm c = c\<lparr>tablet_bundle := tablet_bundle c @ [plm]\<rparr>"

text \<open>Insertion into a \<open>BTreeSet\<close> of regions, and into a multimap of them and of requests.\<close>

definition region_add :: "'a \<Rightarrow> 'a list \<Rightarrow> 'a list" where
  "region_add x xs = (if x \<in> set xs then xs else xs @ [x])"

definition regions_insert :: "timestamp \<Rightarrow> 'a \<Rightarrow> (timestamp, 'a list) btree \<Rightarrow> (timestamp, 'a list) btree" where
  "regions_insert t x m = bm_insert t (region_add x (case bm_get m t of None \<Rightarrow> [] | Some xs \<Rightarrow> xs)) m"

definition requests_insert ::
  "timestamp \<Rightarrow> query_id \<Rightarrow> read_region \<times> query_id \<Rightarrow> (timestamp, requests) btree \<Rightarrow> (timestamp, requests) btree" where
  "requests_insert t qid req m =
     bm_insert t (bm_insert qid req (case bm_get m t of None \<Rightarrow> [] | Some reqs \<Rightarrow> reqs)) m"

text \<open>Removal of a request; a timestamp without requests is removed as well.\<close>

definition requests_remove ::
  "timestamp \<Rightarrow> query_id \<Rightarrow> (timestamp, requests) btree
    \<Rightarrow> ((read_region \<times> query_id) \<times> (timestamp, requests) btree) option" where
  "requests_remove t qid m =
     do { reqs \<leftarrow> bm_get m t;
          req \<leftarrow> bm_get reqs qid;
          let reqs' = bm_remove qid reqs;
          Some (req, if reqs' = [] then bm_remove t m else bm_insert t reqs' m) }"

section \<open>Requests\<close>

text \<open>\<open>remove_read_protected_request\<close> and \<open>remove_inserting_read_protected_request\<close>; \<open>None\<close> when there is none.\<close>

definition remove_read_protected_request ::
  "timestamp \<Rightarrow> query_id \<Rightarrow> tablet_ctx \<Rightarrow> ((read_region \<times> query_id) \<times> tablet_ctx) option" where
  "remove_read_protected_request t qid c =
     map_option (\<lambda>(req, m). (req, c\<lparr>waiting_read_protected := m\<rparr>)) (requests_remove t qid (waiting_read_protected c))"

definition remove_inserting_read_protected_request ::
  "timestamp \<Rightarrow> query_id \<Rightarrow> tablet_ctx \<Rightarrow> ((read_region \<times> query_id) \<times> tablet_ctx) option" where
  "remove_inserting_read_protected_request t qid c =
     map_option (\<lambda>(req, m). (req, c\<lparr>inserting_read_protected := m\<rparr>)) (requests_remove t qid (inserting_read_protected c))"

definition remove_m_read_protected_request ::
  "timestamp \<Rightarrow> query_id \<Rightarrow> tablet_ctx \<Rightarrow> ((read_region \<times> query_id) \<times> tablet_ctx) option" where
  "remove_m_read_protected_request t qid c =
     do { v \<leftarrow> bm_get (verifying_writes c) t;
          req \<leftarrow> bm_get (m_waiting_read_protected v) qid;
          Some (req, c\<lparr>verifying_writes := bm_modify t
                  (m_waiting_read_protected_update (bm_remove qid)) (verifying_writes c)\<rparr>) }"

definition add_requested_locked_columns ::
  "query_id \<Rightarrow> query_id \<Rightarrow> timestamp \<Rightarrow> col_set \<Rightarrow> tablet_ctx \<Rightarrow> tablet_ctx" where
  "add_requested_locked_columns qid orig_p t cols c =
     c\<lparr>waiting_locked_cols :=
         bm_insert qid \<lparr>lc_timestamp = t, lc_cols = cols, lc_orig_p = orig_p\<rparr> (waiting_locked_cols c)\<rparr>"

text \<open>A loop that returns \<open>false\<close> at the first element whose test fails, panicking with the test.\<close>

fun all_opt :: "('a \<Rightarrow> bool option) \<Rightarrow> 'a list \<Rightarrow> bool option" where
  "all_opt f [] = Some True"
| "all_opt f (x # xs) =
     (case f x of None \<Rightarrow> None | Some False \<Rightarrow> Some False | Some True \<Rightarrow> all_opt f xs)"

definition check_write_region_isolation :: "write_region \<Rightarrow> timestamp \<Rightarrow> tablet_ctx \<Rightarrow> bool option" where
  "check_write_region_isolation w t c =
     all_opt (is_surely_isolated_multiread w)
       (map (\<lambda>(_, v). v_read_protected v) (filter (\<lambda>(t', _). t < t') (verifying_writes c)) @
        map (\<lambda>(_, r). m_read_protected r) (filter (\<lambda>(t', _). t < t') (prepared_writes c)) @
        map (\<lambda>(_, r). m_read_protected r) (filter (\<lambda>(t', _). t < t') (inserting_prepared_writes c)) @
        map (\<lambda>(_, r). m_read_protected r) (filter (\<lambda>(t', _). t < t') (committed_writes c)) @
        map snd (filter (\<lambda>(t', _). t \<le> t') (read_protected c)) @
        map (\<lambda>(_, reqs). fold (\<lambda>(_, region, _). region_add region) reqs [])
          (filter (\<lambda>(t', _). t \<le> t') (inserting_read_protected c)))"

text \<open>
  \<open>get_msquery_id\<close>: the transaction of a root query at this tablet, created when there is none. The
  id is drawn at random; \<open>Inl\<close> is the error. The message that registers it is left out.
\<close>

datatype register_error = TimestampConflict | InvalidLeadershipId

definition get_msquery_id ::
  "query_id \<Rightarrow> query_id \<Rightarrow> slave_group_id \<Rightarrow> leadership_id \<Rightarrow> sharding_gen \<Rightarrow> timestamp
    \<Rightarrow> (query_id, ms_query_es) btree \<Rightarrow> tablet_ctx
    \<Rightarrow> (register_error + query_id \<times> (query_id, ms_query_es) btree \<times> tablet_ctx) option" where
  "get_msquery_id new_qid root_query_id root_sid root_lid sharding_gen t ess c =
     (case bm_get (ms_root_query_map c) root_query_id of
        Some qid \<Rightarrow> Some (Inr (qid, ess, c))
      | None \<Rightarrow>
          if bm_contains (verifying_writes c) t \<or> bm_contains (inserting_prepared_writes c) t \<or>
             bm_contains (prepared_writes c) t \<or> bm_contains (committed_writes c) t
          then Some (Inl TimestampConflict)
          else
            do { cur_lid \<leftarrow> bm_get (t_leader_map c) (SlaveGid root_sid);
                 if lid_gen cur_lid > lid_gen root_lid \<or>
                    (lid_gen cur_lid = lid_gen root_lid \<and> lid_eid cur_lid > lid_eid root_lid)
                 then Some (Inl InvalidLeadershipId)
                 else
                   Some (Inr (new_qid,
                     bm_insert new_qid \<lparr>ms_root_query_id = root_query_id, ms_sharding_gen = sharding_gen,
                       ms_root_lid = root_lid, ms_timestamp = t, ms_update_views = [], pending_queries = []\<rparr> ess,
                     c\<lparr>ms_root_query_map := bm_insert root_query_id new_qid (ms_root_query_map c),
                       verifying_writes := bm_insert t \<lparr>v_orig_p = new_qid, m_waiting_read_protected = [],
                         v_read_protected = [], v_write_protected = []\<rparr> (verifying_writes c)\<rparr>)) })"

text \<open>
  The region locks of the execution states: a read of a transaction (\<open>ms_table_read_es.rs\<close>), a
  write of one (\<open>ms_table_write_es.rs\<close>, \<open>ms_table_insert_es.rs\<close>, \<open>ms_table_delete_es.rs\<close>), whose
  \<open>Some None\<close> is the error \<open>WriteRegionConflictWithSubsequentRead\<close>, and a read outside of a
  transaction (\<open>table_read_es.rs\<close>).
\<close>

definition request_region_read ::
  "query_id \<Rightarrow> query_id \<Rightarrow> timestamp \<Rightarrow> read_region \<Rightarrow> tablet_ctx \<Rightarrow> tablet_ctx option" where
  "request_region_read protect_qid orig_p t region c =
     do { v \<leftarrow> bm_get (verifying_writes c) t;
          Some (c\<lparr>verifying_writes := bm_insert t
                   (v\<lparr>m_waiting_read_protected := bm_insert protect_qid (region, orig_p) (m_waiting_read_protected v)\<rparr>)
                   (verifying_writes c)\<rparr>) }"

definition request_region_write ::
  "query_id \<Rightarrow> query_id \<Rightarrow> timestamp \<Rightarrow> read_region \<Rightarrow> write_region \<Rightarrow> tablet_ctx \<Rightarrow> tablet_ctx option option" where
  "request_region_write protect_qid orig_p t region w c =
     do { isolated \<leftarrow> check_write_region_isolation w t c;
          if \<not> isolated then Some None
          else
            do { v \<leftarrow> bm_get (verifying_writes c) t;
                 Some (Some (c\<lparr>verifying_writes := bm_insert t
                   (v\<lparr>m_waiting_read_protected := bm_insert protect_qid (region, orig_p) (m_waiting_read_protected v),
                      v_write_protected := region_add w (v_write_protected v)\<rparr>)
                   (verifying_writes c)\<rparr>)) } }"

definition request_table_read :: "query_id \<Rightarrow> query_id \<Rightarrow> timestamp \<Rightarrow> read_region \<Rightarrow> tablet_ctx \<Rightarrow> tablet_ctx" where
  "request_table_read protect_qid orig_p t region c =
     c\<lparr>waiting_read_protected := requests_insert t protect_qid (region, orig_p) (waiting_read_protected c)\<rparr>"

text \<open>The update view that a finished write adds to its transaction.\<close>

definition add_update_view ::
  "query_id \<Rightarrow> nat \<Rightarrow> generic_table \<Rightarrow> (query_id, ms_query_es) btree \<Rightarrow> (query_id, ms_query_es) btree option" where
  "add_update_view qid tier view ess =
     do { es \<leftarrow> bm_get ess qid;
          tier' \<leftarrow> (if 0 < tier then Some (tier - 1) else None);
          Some (bm_insert qid (es\<lparr>ms_update_views := bm_insert tier' view (ms_update_views es)\<rparr>) ess) }"

text \<open>The exit of a transaction; the execution states it has pending exit with it and hold no lock.\<close>

definition exit_ms_query_es ::
  "query_id \<Rightarrow> (query_id, ms_query_es) btree \<Rightarrow> tablet_ctx \<Rightarrow> ((query_id, ms_query_es) btree \<times> tablet_ctx) option" where
  "exit_ms_query_es qid ess c =
     do { es \<leftarrow> bm_get ess qid;
          Some (bm_remove qid ess,
                c\<lparr>ms_root_query_map := bm_remove (ms_root_query_id es) (ms_root_query_map c),
                  verifying_writes := bm_remove (ms_timestamp es) (verifying_writes c)\<rparr>) }"

section \<open>The main loop\<close>

datatype loop_action =
    Grant_Global_Cols query_id
  | Grant_Local_Cols query_id
  | Grant_Table_Dropped query_id
  | Grant_Read timestamp query_id
  | Grant_M_Read timestamp query_id
  | Deadlock_Abort query_id timestamp

text \<open>What can be done for one column lock: for \<open>Cols\<close> the loop over the columns stops at the first that is too low.\<close>

definition locked_cols_action :: "tablet_ctx \<Rightarrow> ddl_es \<Rightarrow> query_id \<Rightarrow> requested_locked_cols \<Rightarrow> loop_action option" where
  "locked_cols_action c ddl qid req =
     (let global_locked =
            lc_timestamp req \<le> presence_timestamp c \<and>
            (case lc_cols req of
               CS_Cols cols \<Rightarrow> list_all (\<lambda>col. lc_timestamp req \<le> get_lat (val_cols (t_schema c)) col) cols
             | CS_All \<Rightarrow> lc_timestamp req \<le> get_min_lat (val_cols (t_schema c)))
      in if global_locked then Some (Grant_Global_Cols qid)
         else case ddl of
             DDL_None \<Rightarrow> Some (Grant_Local_Cols qid)
           | DDL_ShardSplit \<Rightarrow> Some (Grant_Local_Cols qid)
           | DDL_Alter col prepared \<Rightarrow>
               if \<not> (col_set_contains (lc_cols req) col \<and> prepared \<le> lc_timestamp req)
               then Some (Grant_Local_Cols qid) else None
           | DDL_Drop prepared \<Rightarrow> if lc_timestamp req < prepared then Some (Grant_Local_Cols qid) else None
           | DDL_Dropped dropped \<Rightarrow>
               if lc_timestamp req < dropped then Some (Grant_Local_Cols qid) else Some (Grant_Table_Dropped qid))"

fun locked_cols_loop ::
  "tablet_ctx \<Rightarrow> ddl_es \<Rightarrow> (query_id \<times> requested_locked_cols) list \<Rightarrow> loop_action option" where
  "locked_cols_loop c ddl [] = None"
| "locked_cols_loop c ddl ((qid, req) # rest) =
     (case locked_cols_action c ddl qid req of Some a \<Rightarrow> Some a | None \<Rightarrow> locked_cols_loop c ddl rest)"

definition of_rw :: "rw_region \<Rightarrow> verifying_region" where
  "of_rw r = \<lparr>v_orig_p = rw_orig_p r, m_waiting_read_protected = [],
     v_read_protected = m_read_protected r, v_write_protected = m_write_protected r\<rparr>"

text \<open>The undecided writes in one map; a timestamp in two of the maps fails the assertion.\<close>

definition add_cur_write ::
  "timestamp \<times> verifying_region \<Rightarrow> (timestamp, verifying_region) btree option \<Rightarrow> (timestamp, verifying_region) btree option" where
  "add_cur_write e acc =
     do { m \<leftarrow> acc; if bm_contains m (fst e) then None else Some (bm_insert (fst e) (snd e) m) }"

definition all_cur_writes :: "tablet_ctx \<Rightarrow> (timestamp, verifying_region) btree option" where
  "all_cur_writes c =
     fold add_cur_write (map (\<lambda>(t, r). (t, of_rw r)) (inserting_prepared_writes c @ prepared_writes c))
       (Some (fold (\<lambda>(t, v). bm_insert t v) (verifying_writes c) []))"

text \<open>A loop that stops at the first element whose test is \<open>true\<close>, panicking with the test.\<close>

fun find_opt :: "('a \<Rightarrow> bool option) \<Rightarrow> 'a list \<Rightarrow> 'a option option" where
  "find_opt f [] = Some None"
| "find_opt f (x # xs) =
     (case f x of None \<Rightarrow> None | Some True \<Rightarrow> Some (Some x) | Some False \<Rightarrow> find_opt f xs)"

definition flat_requests :: "(timestamp, requests) btree \<Rightarrow> (timestamp \<times> query_id \<times> read_region \<times> query_id) list" where
  "flat_requests m = concat (map (\<lambda>(t, reqs). map (\<lambda>req. (t, req)) reqs) m)"

text \<open>The first waiting read that no write of \<open>cum\<close> can touch.\<close>

definition grantable_read :: "write_region list \<Rightarrow> (timestamp, requests) btree \<Rightarrow> loop_action option option" where
  "grantable_read cum waiting =
     map_option (map_option (\<lambda>(t, qid, _). Grant_Read t qid))
       (find_opt (\<lambda>(_, _, region, _). is_surely_isolated_multiwrite cum region) (flat_requests waiting))"

fun cur_writes_loop ::
  "(timestamp, requests) btree \<Rightarrow> write_region list \<Rightarrow> timestamp \<Rightarrow> (timestamp \<times> verifying_region) list
    \<Rightarrow> loop_action option option" where
  "cur_writes_loop waiting cum prev [] = grantable_read cum (filter (\<lambda>(t, _). prev \<le> t) waiting)"
| "cur_writes_loop waiting cum prev ((cur, v) # rest) =
     do { m \<leftarrow> find_opt (\<lambda>(_, region, _). is_surely_isolated_multiwrite cum region) (m_waiting_read_protected v);
          case m of
            Some (qid, _) \<Rightarrow> Some (Some (Grant_M_Read cur qid))
          | None \<Rightarrow>
              do { r \<leftarrow> grantable_read cum (filter (\<lambda>(t, _). prev \<le> t \<and> t < cur) waiting);
                   case r of
                     Some a \<Rightarrow> Some (Some a)
                   | None \<Rightarrow> cur_writes_loop waiting (fold region_add (v_write_protected v) cum) cur rest } }"

definition region_action :: "tablet_ctx \<Rightarrow> loop_action option option" where
  "region_action c =
     do { writes \<leftarrow> all_cur_writes c;
          case writes of
            [] \<Rightarrow>
              Some (case flat_requests (waiting_read_protected c) of
                      [] \<Rightarrow> None | (t, qid, _) # _ \<Rightarrow> Some (Grant_Read t qid))
          | (first_ts, v) # rest \<Rightarrow>
              (case filter (\<lambda>(t, _). t < first_ts) (waiting_read_protected c) of
                 (t, reqs) # _ \<Rightarrow>
                   (case reqs of [] \<Rightarrow> None | (qid, _) # _ \<Rightarrow> Some (Some (Grant_Read t qid)))
               | [] \<Rightarrow>
                   (case m_waiting_read_protected v of
                      (qid, _) # _ \<Rightarrow> Some (Some (Grant_M_Read first_ts qid))
                    | [] \<Rightarrow> cur_writes_loop (waiting_read_protected c) (v_write_protected v) first_ts rest)) }"

text \<open>A waiting read that an unprepared write at its own timestamp can touch aborts that write.\<close>

fun deadlock_loop ::
  "(timestamp, verifying_region) btree \<Rightarrow> (timestamp \<times> requests) list \<Rightarrow> loop_action option option" where
  "deadlock_loop verifying [] = Some None"
| "deadlock_loop verifying ((t, reqs) # rest) =
     (case bm_get verifying t of
        None \<Rightarrow> deadlock_loop verifying rest
      | Some v \<Rightarrow>
          do { r \<leftarrow> find_opt (\<lambda>(_, region, _). map_option Not (is_surely_isolated_multiwrite (v_write_protected v) region)) reqs;
               case r of
                 Some _ \<Rightarrow> Some (Some (Deadlock_Abort (v_orig_p v) t))
               | None \<Rightarrow> deadlock_loop verifying rest })"

definition main_loop_action :: "ddl_es \<Rightarrow> tablet_ctx \<Rightarrow> loop_action option option" where
  "main_loop_action ddl c =
     (case locked_cols_loop c ddl (waiting_locked_cols c) of
        Some a \<Rightarrow> Some (Some a)
      | None \<Rightarrow>
          do { r \<leftarrow> region_action c;
               case r of
                 Some a \<Rightarrow> Some (Some a)
               | None \<Rightarrow> deadlock_loop (verifying_writes c) (waiting_read_protected c) })"

text \<open>The execution state that is informed of a grant, and of what.\<close>

datatype inform =
    Local_Locked_Cols query_id query_id
  | Global_Locked_Cols query_id query_id
  | Table_Dropped query_id
  | Local_Read_Protected query_id query_id
  | Global_Read_Protected query_id query_id
  | M_Local_Read_Protected query_id query_id

definition grant_local_locked_cols :: "query_id \<Rightarrow> tablet_ctx \<Rightarrow> (inform list \<times> tablet_ctx) option" where
  "grant_local_locked_cols qid c =
     do { req \<leftarrow> bm_get (waiting_locked_cols c) qid;
          Some ([Local_Locked_Cols (lc_orig_p req) qid],
                push_plm (PLm_LockedCols qid (lc_timestamp req) (lc_cols req))
                  (c\<lparr>waiting_locked_cols := bm_remove qid (waiting_locked_cols c),
                     inserting_locked_cols := bm_insert qid req (inserting_locked_cols c)\<rparr>)) }"

definition grant_local_read_protected ::
  "timestamp \<Rightarrow> query_id \<Rightarrow> tablet_ctx \<Rightarrow> (inform list \<times> tablet_ctx) option" where
  "grant_local_read_protected t qid c =
     do { (req, c') \<leftarrow> remove_read_protected_request t qid c;
          Some ([Local_Read_Protected (snd req) qid],
                push_plm (PLm_ReadProtected qid t (fst req))
                  (c'\<lparr>inserting_read_protected := requests_insert t qid req (inserting_read_protected c')\<rparr>)) }"

definition grant_m_local_read_protected ::
  "timestamp \<Rightarrow> query_id \<Rightarrow> tablet_ctx \<Rightarrow> (inform list \<times> tablet_ctx) option" where
  "grant_m_local_read_protected t qid c =
     do { v \<leftarrow> bm_get (verifying_writes c) t;
          req \<leftarrow> bm_get (m_waiting_read_protected v) qid;
          Some ([M_Local_Read_Protected (snd req) qid],
                c\<lparr>verifying_writes := bm_insert t
                    (v\<lparr>m_waiting_read_protected := bm_remove qid (m_waiting_read_protected v),
                       v_read_protected := region_add (fst req) (v_read_protected v)\<rparr>)
                    (verifying_writes c)\<rparr>) }"

text \<open>
  One iteration: the requests that are granted leave the waiting maps. \<open>None\<close> in the result is an
  iteration that changed nothing, which ends the loop.
\<close>

definition run_main_loop_iteration ::
  "ddl_es \<Rightarrow> (query_id, ms_query_es) btree \<times> tablet_ctx
    \<Rightarrow> (inform list \<times> (query_id, ms_query_es) btree \<times> tablet_ctx) option option" where
  "run_main_loop_iteration ddl s =
     (case s of (ess, c) \<Rightarrow>
        do { a \<leftarrow> main_loop_action ddl c;
             case a of
               None \<Rightarrow> Some None
             | Some (Grant_Global_Cols qid) \<Rightarrow>
                 do { req \<leftarrow> bm_get (waiting_locked_cols c) qid;
                      Some (Some ([Global_Locked_Cols (lc_orig_p req) qid], ess,
                                  c\<lparr>waiting_locked_cols := bm_remove qid (waiting_locked_cols c)\<rparr>)) }
             | Some (Grant_Local_Cols qid) \<Rightarrow>
                 do { (told, c') \<leftarrow> grant_local_locked_cols qid c; Some (Some (told, ess, c')) }
             | Some (Grant_Table_Dropped qid) \<Rightarrow>
                 do { req \<leftarrow> bm_get (waiting_locked_cols c) qid;
                      Some (Some ([Table_Dropped (lc_orig_p req)], ess,
                                  c\<lparr>waiting_locked_cols := bm_remove qid (waiting_locked_cols c)\<rparr>)) }
             | Some (Grant_Read t qid) \<Rightarrow>
                 do { (told, c') \<leftarrow> grant_local_read_protected t qid c; Some (Some (told, ess, c')) }
             | Some (Grant_M_Read t qid) \<Rightarrow>
                 do { (told, c') \<leftarrow> grant_m_local_read_protected t qid c; Some (Some (told, ess, c')) }
             | Some (Deadlock_Abort orig_p t) \<Rightarrow>
                 do { (ess', c') \<leftarrow> exit_ms_query_es orig_p ess c; Some (Some ([], ess', c')) } })"

text \<open>The loop, without the execution states it informs; \<open>None\<close> would also be a loop that never ends.\<close>

partial_function (option) run_main_loop ::
  "ddl_es \<Rightarrow> (query_id, ms_query_es) btree \<times> tablet_ctx
    \<Rightarrow> (inform list \<times> (query_id, ms_query_es) btree \<times> tablet_ctx) option" where
  "run_main_loop ddl s =
     do { r \<leftarrow> run_main_loop_iteration ddl s;
          case r of
            None \<Rightarrow> Some ([], s)
          | Some (told, s') \<Rightarrow> do { (told', s'') \<leftarrow> run_main_loop ddl s'; Some (told @ told', s'') } }"

text \<open>The loop as it is evaluated.\<close>

lemma run_main_loop_code [code]:
  "run_main_loop ddl s =
     (case run_main_loop_iteration ddl s of
        None \<Rightarrow> None
      | Some None \<Rightarrow> Some ([], s)
      | Some (Some (told, s')) \<Rightarrow>
          (case run_main_loop ddl s' of None \<Rightarrow> None | Some (told', s'') \<Rightarrow> Some (told @ told', s'')))"
  by (subst run_main_loop.simps) (auto split: option.splits bind_split)

end
