(* ===== verification/Finish_Query.thy ===== *)
theory Finish_Query
  imports Tablet
begin

text \<open>
  The only application of the commit protocol, \<open>src/src/finish_query_rm_es.rs\<close> and
  \<open>src/src/finish_query_tm_es.rs\<close>, and the tablet around it: what \<open>handle_input\<close> of
  \<open>src/src/tablet.rs\<close> does with a learned bundle, a message of the protocol, a change of a remote
  leadership, a change of its own, and the snapshot for a new node. The application moves the
  region lock of a transaction from the unprepared writes to the prepared and the committed ones
  and commits its update view to storage.
\<close>

section \<open>The application's callbacks\<close>

text \<open>\<open>FinishQueryRMInner\<close> has the fields of the log entry \<open>FinishQueryRMPrepared\<close>.\<close>

type_synonym fq_inner = fq_prepared

definition fq_new ::
  "query_id \<Rightarrow> (query_id, ms_query_es) btree \<Rightarrow> tablet_ctx
    \<Rightarrow> (fq_inner option \<times> (query_id, ms_query_es) btree \<times> tablet_ctx) option" where
  "fq_new qid ess c =
     (case bm_get ess qid of
        Some es \<Rightarrow>
          if pending_queries es \<noteq> [] then None
          else
            do { v \<leftarrow> bm_get (verifying_writes c) (ms_timestamp es);
                 if m_waiting_read_protected v \<noteq> [] then None
                 else
                   (let lock = \<lparr>rw_orig_p = v_orig_p v, m_read_protected = v_read_protected v,
                                m_write_protected = v_write_protected v\<rparr>
                    in Some (Some \<lparr>fq_sharding_gen = ms_sharding_gen es, fq_region_lock = lock,
                                   fq_timestamp = ms_timestamp es,
                                   fq_update_view = compress_updates_views (ms_update_views es)\<rparr>,
                             bm_remove qid ess,
                             c\<lparr>ms_root_query_map := bm_remove (ms_root_query_id es) (ms_root_query_map c),
                               verifying_writes := bm_remove (ms_timestamp es) (verifying_writes c),
                               inserting_prepared_writes :=
                                 bm_insert (ms_timestamp es) lock (inserting_prepared_writes c)\<rparr>)) }
      | None \<Rightarrow> Some (None, ess, c))"

definition fq_early_aborted :: "fq_inner \<Rightarrow> tablet_ctx \<Rightarrow> (fq_inner \<times> tablet_ctx) option" where
  "fq_early_aborted i c =
     Some (i, c\<lparr>inserting_prepared_writes := bm_remove (fq_timestamp i) (inserting_prepared_writes c)\<rparr>)"

definition fq_prepared_plm_inserted :: "fq_inner \<Rightarrow> tablet_ctx \<Rightarrow> (fq_inner \<times> tablet_ctx) option" where
  "fq_prepared_plm_inserted i c =
     Some (i, c\<lparr>inserting_prepared_writes := bm_remove (fq_timestamp i) (inserting_prepared_writes c),
                prepared_writes := bm_insert (fq_timestamp i) (fq_region_lock i) (prepared_writes c)\<rparr>)"

definition fq_committed_plm_inserted :: "query_id \<Rightarrow> fq_inner \<Rightarrow> tablet_ctx \<Rightarrow> (fq_inner \<times> tablet_ctx) option" where
  "fq_committed_plm_inserted query_id i c =
     do { lock \<leftarrow> bm_get (prepared_writes c) (fq_timestamp i);
          Some (i, c\<lparr>t_storage := commit_to_storage (t_storage c) (fq_timestamp i) (fq_update_view i),
                     prepared_writes := bm_remove (fq_timestamp i) (prepared_writes c),
                     committed_writes := bm_insert (fq_timestamp i) lock (committed_writes c)\<rparr>) }"

definition fq_aborted_plm_inserted :: "fq_inner \<Rightarrow> tablet_ctx \<Rightarrow> (fq_inner \<times> tablet_ctx) option" where
  "fq_aborted_plm_inserted i c =
     do { _ \<leftarrow> bm_get (prepared_writes c) (fq_timestamp i);
          Some (i, c\<lparr>prepared_writes := bm_remove (fq_timestamp i) (prepared_writes c)\<rparr>) }"

definition fq_rm ::
  "(tablet_ctx, (query_id, ms_query_es) btree, fq_inner, query_id, fq_prepared, unit, unit, tnode_path, cnode_path) rm_inner" where
  "fq_rm =
     \<lparr>inner_new = fq_new,
      inner_new_follower = (\<lambda>p c. Some (p, c)),
      early_aborted = fq_early_aborted,
      mk_prepared_plm = (\<lambda>i c. Some (i, i, c)),
      prepared_plm_inserted = fq_prepared_plm_inserted,
      mk_committed_plm = (\<lambda>i c. Some ((), i, c)),
      committed_plm_inserted = fq_committed_plm_inserted,
      mk_aborted_plm = (\<lambda>i c. Some ((), i, c)),
      aborted_plm_inserted = fq_aborted_plm_inserted,
      inner_reconfig_snapshot = (\<lambda>i. i),
      rm_node_path = (\<lambda>c. (t_this_sid c, t_this_tid c)),
      rm_is_leader = tablet_is_leader,
      rm_leader_map = t_leader_map,
      tm_to_gid = (\<lambda>tm. SlaveGid (fst tm))\<rparr>"

text \<open>The transaction manager of a coordinator; its context is left out, since no callback uses it.\<close>

record 'resp fq_tm_inner =
  response_data :: "'resp option"
  fq_committed :: bool

definition fq_tm :: "cnode_path \<Rightarrow> (unit, 'resp fq_tm_inner, tnode_path, cnode_path) tm_inner" where
  "fq_tm this_path =
     \<lparr>new_rec = (\<lambda>d. (\<lparr>response_data = None, fq_committed = False\<rparr>, d)),
      inner_committed = (\<lambda>i d. (i\<lparr>fq_committed := True\<rparr>, d)),
      inner_aborted = (\<lambda>i d. (i\<lparr>fq_committed := False\<rparr>, d)),
      tm_node_path = (\<lambda>_. this_path),
      rm_to_gid = (\<lambda>rm. SlaveGid (fst rm))\<rparr>"

section \<open>The tablet\<close>

type_synonym fq_outer = "(fq_inner, tnode_path, cnode_path) rm_outer"
type_synonym fq_effect = "(fq_prepared, unit, unit, tnode_path, cnode_path) rm_effect"
type_synonym tm_send = "cnode_path \<times> (tnode_path, cnode_path) tm_message"

record tablet =
  tb_ctx :: tablet_ctx
  ms_query_ess :: "(query_id, ms_query_es) btree"
  finish_query_ess :: "(query_id, fq_outer) btree"
  tb_ddl_es :: ddl_es

text \<open>\<open>push_plm\<close> adds to the bundle, \<open>send_to_tm\<close> sends.\<close>

fun perform_effect :: "fq_effect \<Rightarrow> tm_send list \<times> tablet_ctx \<Rightarrow> tm_send list \<times> tablet_ctx" where
  "perform_effect (Push plm) (sends, c) = (sends, push_plm (PLm_FinishQuery plm) c)"
| "perform_effect (To_TM tm msg) (sends, c) = (sends @ [(tm, msg)], c)"

text \<open>A result of the container with the effects done; an action \<open>Exit\<close> removes the state machine.\<close>

definition fq_done ::
  "fq_effect list \<times> tablet_ctx \<times> (query_id, fq_outer) btree \<times> query_id \<times> p2pc_action \<Rightarrow> tablet
    \<Rightarrow> tm_send list \<times> tablet" where
  "fq_done res tb =
     (case res of (effs, c, con, qid, act) \<Rightarrow>
        case fold perform_effect effs ([], c) of (sends, c') \<Rightarrow>
          (sends, tb\<lparr>tb_ctx := c',
                     finish_query_ess := (case act of P2PC_Wait \<Rightarrow> con | P2PC_Exit \<Rightarrow> bm_remove qid con)\<rparr>))"

definition tablet_finish_query_msg ::
  "(query_id, tnode_path, cnode_path) rm_message \<Rightarrow> tablet \<Rightarrow> (tm_send list \<times> tablet) option" where
  "tablet_finish_query_msg msg tb =
     do { (res, ess) \<leftarrow> handle_rm_msg fq_rm msg (tb_ctx tb) (finish_query_ess tb) (ms_query_ess tb);
          Some (fq_done res (tb\<lparr>ms_query_ess := ess\<rparr>)) }"

text \<open>One log entry. The schema learns of locked columns; the leader informs the one who asked.\<close>

definition apply_plm :: "tablet_plm \<Rightarrow> tablet \<Rightarrow> (inform list \<times> tm_send list \<times> tablet) option" where
  "apply_plm plm tb =
     (let c = tb_ctx tb in
      case plm of
        PLm_LockedCols qid t cols \<Rightarrow>
          (let vcs = (case cols of
                        CS_Cols cs \<Rightarrow> fold (\<lambda>col m. update_lat m col t) cs (val_cols (t_schema c))
                      | CS_All \<Rightarrow> update_all_lats (val_cols (t_schema c)) t);
               c1 = c\<lparr>t_schema := (t_schema c)\<lparr>val_cols := vcs\<rparr>, presence_timestamp := max (presence_timestamp c) t\<rparr>
           in do { leading \<leftarrow> tablet_is_leader c1;
                   if leading then
                     do { req \<leftarrow> bm_get (inserting_locked_cols c1) qid;
                          Some ([Global_Locked_Cols (lc_orig_p req) qid], [],
                                tb\<lparr>tb_ctx := c1\<lparr>inserting_locked_cols := bm_remove qid (inserting_locked_cols c1)\<rparr>\<rparr>) }
                   else Some ([], [], tb\<lparr>tb_ctx := c1\<rparr>) })
      | PLm_ReadProtected qid t region \<Rightarrow>
          (let c1 = c\<lparr>read_protected := regions_insert t region (read_protected c)\<rparr>
           in do { leading \<leftarrow> tablet_is_leader c1;
                   if leading then
                     do { (req, c2) \<leftarrow> remove_inserting_read_protected_request t qid c1;
                          Some ([Global_Read_Protected (snd req) qid], [], tb\<lparr>tb_ctx := c2\<rparr>) }
                   else Some ([], [], tb\<lparr>tb_ctx := c1\<rparr>) })
      | PLm_FinishQuery p \<Rightarrow>
          do { res \<leftarrow> handle_rm_plm fq_rm p c (finish_query_ess tb);
               let (sends, tb') = fq_done res tb;
               Some ([], sends, tb') })"

text \<open>\<open>start_inserting\<close> of every state machine, in the order of the container; the action is ignored.\<close>

fun start_inserting_loop ::
  "(query_id \<times> fq_outer) list \<Rightarrow> tablet \<Rightarrow> (tm_send list \<times> tablet) option" where
  "start_inserting_loop [] tb = Some ([], tb)"
| "start_inserting_loop ((qid, out) # rest) tb =
     do { (effs, c, out', _) \<leftarrow> rm_start_inserting fq_rm (tb_ctx tb) out;
          let (sends, c') = fold perform_effect effs ([], c);
          (sends', tb') \<leftarrow> start_inserting_loop rest
             (tb\<lparr>tb_ctx := c', finish_query_ess := bm_insert qid out' (finish_query_ess tb)\<rparr>);
          Some (sends @ sends', tb') }"

fun apply_plms :: "tablet_plm list \<Rightarrow> tablet \<Rightarrow> (inform list \<times> tm_send list \<times> tablet) option" where
  "apply_plms [] tb = Some ([], [], tb)"
| "apply_plms (plm # plms) tb =
     do { (told, sends, tb1) \<leftarrow> apply_plm plm tb;
          (told', sends', tb2) \<leftarrow> apply_plms plms tb1;
          Some (told @ told', sends @ sends', tb2) }"

text \<open>
  A learned bundle. The leader then runs the main loop, starts inserting and hands its bundle to
  the slave, the last component of the result.
\<close>

definition tablet_learn ::
  "tablet_plm list \<Rightarrow> tablet \<Rightarrow> (inform list \<times> tm_send list \<times> tablet_plm list option \<times> tablet) option" where
  "tablet_learn bundle tb =
     do { (told, sends, tb1) \<leftarrow> apply_plms bundle tb;
          leading \<leftarrow> tablet_is_leader (tb_ctx tb1);
          if leading then
            do { (told', ess, c) \<leftarrow> run_main_loop (tb_ddl_es tb1) (ms_query_ess tb1, tb_ctx tb1);
                 (sends', tb2) \<leftarrow> start_inserting_loop (finish_query_ess tb1) (tb1\<lparr>tb_ctx := c, ms_query_ess := ess\<rparr>);
                 Some (told @ told', sends @ sends', Some (tablet_bundle (tb_ctx tb2)),
                       tb2\<lparr>tb_ctx := (tb_ctx tb2)\<lparr>tablet_bundle := []\<rparr>\<rparr>) }
          else Some (told, sends, None, tb1) }"

text \<open>
  The leader changes: every state machine is told, those that exit are removed. \<open>ddl\<close> is the schema
  change that is left after it was told.
\<close>

fun leader_changed_loop :: "(query_id \<times> fq_outer) list \<Rightarrow> tablet \<Rightarrow> (tm_send list \<times> tablet) option" where
  "leader_changed_loop [] tb = Some ([], tb)"
| "leader_changed_loop ((qid, out) # rest) tb =
     do { (effs, c, out', act) \<leftarrow> rm_leader_changed fq_rm (tb_ctx tb) out;
          let (sends, tb1) = fq_done (effs, c, bm_insert qid out' (finish_query_ess tb), qid, act) tb;
          (sends', tb2) \<leftarrow> leader_changed_loop rest tb1;
          Some (sends @ sends', tb2) }"

definition wink_away :: "tablet \<Rightarrow> tablet" where
  "wink_away tb =
     tb\<lparr>ms_query_ess := [],
        tb_ctx := (tb_ctx tb)\<lparr>verifying_writes := [], inserting_prepared_writes := [],
                              waiting_read_protected := [], inserting_read_protected := [],
                              waiting_locked_cols := [], inserting_locked_cols := [], ms_root_query_map := []\<rparr>\<rparr>"

definition tablet_leader_changed ::
  "leadership_id \<Rightarrow> ddl_es \<Rightarrow> tablet \<Rightarrow> (inform list \<times> tm_send list \<times> tablet_plm list option \<times> tablet) option" where
  "tablet_leader_changed lid ddl tb =
     (let c = tb_ctx tb;
          c1 = c\<lparr>t_leader_map := bm_insert (SlaveGid (t_this_sid c)) lid (t_leader_map c)\<rparr>
      in do { leading \<leftarrow> tablet_is_leader c1;
              let c2 = (if leading then c1\<lparr>tablet_bundle := []\<rparr> else c1);
              (sends, tb0) \<leftarrow> leader_changed_loop (finish_query_ess tb) (tb\<lparr>tb_ctx := c2\<rparr>);
              let tb1 = tb0\<lparr>tb_ddl_es := ddl\<rparr>;
              if leading then
                do { (told, ess, c3) \<leftarrow> run_main_loop (tb_ddl_es tb1) (ms_query_ess tb1, tb_ctx tb1);
                     Some (told, sends, Some (tablet_bundle c3),
                           tb1\<lparr>ms_query_ess := ess, tb_ctx := c3\<lparr>tablet_bundle := []\<rparr>\<rparr>) }
              else Some ([], sends, None, wink_away tb1) })"

text \<open>The state machines when the leadership of a remote group changes.\<close>

fun remote_leader_changed_loop ::
  "remote_leader_changed_plm \<Rightarrow> (query_id \<times> fq_outer) list \<Rightarrow> tablet \<Rightarrow> (tm_send list \<times> tablet) option" where
  "remote_leader_changed_loop change [] tb = Some ([], tb)"
| "remote_leader_changed_loop change ((qid, out) # rest) tb =
     do { (effs, c, out', act) \<leftarrow> rm_remote_leader_changed fq_rm change (tb_ctx tb) out;
          let (sends, tb1) = fq_done (effs, c, bm_insert qid out' (finish_query_ess tb), qid, act) tb;
          (sends', tb2) \<leftarrow> remote_leader_changed_loop change rest tb1;
          Some (sends @ sends', tb2) }"

text \<open>
  The snapshot for a node that joins the group, and the tablet it starts. \<open>ddl\<close> is the snapshot of
  the schema change.
\<close>

definition snapshot_ess :: "(query_id, fq_outer) btree \<Rightarrow> (query_id, fq_outer) btree" where
  "snapshot_ess con =
     fold (\<lambda>(qid, out) acc. case rm_reconfig_snapshot fq_rm out of Some out' \<Rightarrow> bm_insert qid out' acc | None \<Rightarrow> acc) con []"

definition tablet_snapshot :: "endpoint_id \<Rightarrow> ddl_es \<Rightarrow> tablet \<Rightarrow> tablet" where
  "tablet_snapshot new_eid ddl tb =
     tb\<lparr>ms_query_ess := [], tb_ddl_es := ddl, finish_query_ess := snapshot_ess (finish_query_ess tb),
        tb_ctx := (tb_ctx tb)\<lparr>t_this_eid := new_eid, verifying_writes := [], inserting_prepared_writes := [],
                              waiting_read_protected := [], inserting_read_protected := [],
                              waiting_locked_cols := [], inserting_locked_cols := [], ms_root_query_map := [],
                              tablet_bundle := []\<rparr>\<rparr>"

end
