(* ===== verification/Tablet_Isolation.thy ===== *)
theory Tablet_Isolation
  imports Finish_Query
begin

text \<open>
  The Region Isolation Algorithm is correct: in every state of a tablet, an undecided write is
  isolated from every read granted at a later timestamp, whether the read belongs to a transaction
  or not. The main loop grants a read only when this is so and ends; once it has ended every read
  that still waits is in conflict with an earlier undecided write.
\<close>

section \<open>Regions\<close>

abbreviation isolated :: "write_region \<Rightarrow> read_region \<Rightarrow> bool" where
  "isolated w r \<equiv> is_surely_isolated w r = Some True"

lemma all_opt_True: "all_opt f xs = Some True \<longleftrightarrow> (\<forall>x \<in> set xs. f x = Some True)"
  by (induction xs) (auto split: option.splits bool.splits)

lemma map_option_Not: "map_option Not x = Some True \<longleftrightarrow> x = Some False" "map_option Not x = Some False \<longleftrightarrow> x = Some True"
  by (cases x; auto)+

lemma multiwrite_iff: "is_surely_isolated_multiwrite ws r = Some True \<longleftrightarrow> (\<forall>w \<in> set ws. isolated w r)"
  unfolding is_surely_isolated_multiwrite_def map_option_Not any_opt_False ..

lemma multiread_iff: "is_surely_isolated_multiread w rs = Some True \<longleftrightarrow> (\<forall>r \<in> set rs. isolated w r)"
  unfolding is_surely_isolated_multiread_def map_option_Not any_opt_False ..

lemma find_opt_Some: "find_opt f xs = Some (Some x) \<Longrightarrow> x \<in> set xs \<and> f x = Some True"
  by (induction xs) (auto split: option.splits bool.splits)

lemma find_opt_None: "find_opt f xs = Some None \<longleftrightarrow> (\<forall>x \<in> set xs. f x = Some False)"
  by (induction xs) (auto split: option.splits bool.splits)

lemma set_region_add [simp]: "set (region_add x xs) = insert x (set xs)"
  by (auto simp: region_add_def)

lemma set_fold_region_add [simp]: "set (fold region_add xs ys) = set xs \<union> set ys"
  by (induction xs arbitrary: ys) auto

section \<open>The undecided writes and the granted reads\<close>

definition at :: "('k, 'v) btree \<Rightarrow> 'k \<Rightarrow> ('v \<Rightarrow> 'a set) \<Rightarrow> 'a set" where
  "at m t f = (case bm_get m t of None \<Rightarrow> {} | Some v \<Rightarrow> f v)"

lemma at_simps [simp]:
  "at [] t f = {}"
  "at (bm_remove k m) t f = (if t = k then {} else at m t f)"
  by (simp_all add: at_def)

lemma at_insert [simp]: "at (bm_insert k v m) t f = (if t = k then f v else at m t f)" for k :: "'k::linorder"
  by (simp add: at_def)

lemma in_at: "x \<in> at m t f \<longleftrightarrow> (\<exists>v. bm_get m t = Some v \<and> x \<in> f v)"
  by (auto simp: at_def split: option.splits)

text \<open>The regions a request set asks for.\<close>

definition asked :: "requests \<Rightarrow> read_region set" where
  "asked reqs = {region. \<exists>qid orig. bm_get reqs qid = Some (region, orig)}"

definition writes_at :: "tablet_ctx \<Rightarrow> timestamp \<Rightarrow> write_region set" where
  "writes_at c t =
     at (verifying_writes c) t (\<lambda>v. set (v_write_protected v)) \<union>
     at (inserting_prepared_writes c) t (\<lambda>r. set (m_write_protected r)) \<union>
     at (prepared_writes c) t (\<lambda>r. set (m_write_protected r))"

definition reads_at :: "tablet_ctx \<Rightarrow> timestamp \<Rightarrow> read_region set" where
  "reads_at c t = at (read_protected c) t set \<union> at (inserting_read_protected c) t asked"

definition m_reads_at :: "tablet_ctx \<Rightarrow> timestamp \<Rightarrow> read_region set" where
  "m_reads_at c t =
     at (verifying_writes c) t (\<lambda>v. set (v_read_protected v)) \<union>
     at (inserting_prepared_writes c) t (\<lambda>r. set (m_read_protected r)) \<union>
     at (prepared_writes c) t (\<lambda>r. set (m_read_protected r)) \<union>
     at (committed_writes c) t (\<lambda>r. set (m_read_protected r))"

definition region_inv :: "tablet_ctx \<Rightarrow> bool" where
  "region_inv c \<longleftrightarrow>
     (\<forall>t t' w r. w \<in> writes_at c t \<longrightarrow>
        (t \<le> t' \<and> r \<in> reads_at c t' \<or> t < t' \<and> r \<in> m_reads_at c t') \<longrightarrow> isolated w r)"

lemma region_inv_mono:
  assumes "region_inv c"
    and "\<And>t. writes_at c' t \<subseteq> writes_at c t" "\<And>t. reads_at c' t \<subseteq> reads_at c t" "\<And>t. m_reads_at c' t \<subseteq> m_reads_at c t"
  shows "region_inv c'"
  using assms unfolding region_inv_def by blast

text \<open>The maps of a tablet are sorted, its requests have an owner, and no timestamp is used twice.\<close>

definition tablet_wf :: "tablet_ctx \<Rightarrow> bool" where
  "tablet_wf c \<longleftrightarrow>
     bm_wf (verifying_writes c) \<and> bm_wf (inserting_prepared_writes c) \<and> bm_wf (prepared_writes c) \<and>
     bm_wf (committed_writes c) \<and> bm_wf (waiting_read_protected c) \<and> bm_wf (inserting_read_protected c) \<and>
     bm_wf (read_protected c) \<and> bm_wf (waiting_locked_cols c) \<and> bm_wf (inserting_locked_cols c) \<and>
     (\<forall>t reqs. bm_get (waiting_read_protected c) t = Some reqs \<longrightarrow> bm_wf reqs \<and> reqs \<noteq> []) \<and>
     (\<forall>t reqs. bm_get (inserting_read_protected c) t = Some reqs \<longrightarrow> bm_wf reqs) \<and>
     (\<forall>t v. bm_get (verifying_writes c) t = Some v \<longrightarrow> bm_wf (m_waiting_read_protected v)) \<and>
     (\<forall>t v. bm_get (verifying_writes c) t = Some v \<longrightarrow>
        bm_get (inserting_prepared_writes c) t = None \<and> bm_get (prepared_writes c) t = None \<and> bm_get (committed_writes c) t = None) \<and>
     (\<forall>t r. bm_get (inserting_prepared_writes c) t = Some r \<longrightarrow>
        bm_get (prepared_writes c) t = None \<and> bm_get (committed_writes c) t = None) \<and>
     (\<forall>t r. bm_get (prepared_writes c) t = Some r \<longrightarrow> bm_get (committed_writes c) t = None)"

section \<open>The check of a write\<close>

lemma in_fold_regions:
  "set (fold (\<lambda>(_, region, _). region_add region) reqs acc) = set acc \<union> (fst ` snd ` set reqs)"
  by (induction reqs arbitrary: acc) auto

lemma asked_set: "bm_wf reqs \<Longrightarrow> asked reqs = fst ` snd ` set reqs"
  unfolding asked_def by (force simp: bm_get_set [symmetric])

lemma check_write_sound:
  assumes "check_write_region_isolation w t c = Some True" and wf: "tablet_wf c"
    and "t \<le> t' \<and> r \<in> reads_at c t' \<or> t < t' \<and> r \<in> m_reads_at c t'"
  shows "isolated w r"
proof -
  note all = assms(1) [unfolded check_write_region_isolation_def all_opt_True set_append ball_Un multiread_iff]
  from assms(3) show ?thesis
  proof (elim disjE conjE)
    assume le: "t \<le> t'" and "r \<in> reads_at c t'"
    then consider rs where "bm_get (read_protected c) t' = Some rs" "r \<in> set rs"
      | reqs where "bm_get (inserting_read_protected c) t' = Some reqs" "r \<in> asked reqs"
      by (auto simp: reads_at_def in_at)
    then show ?thesis
    proof cases
      case 1
      with all le show ?thesis by (fastforce dest: map_of_SomeD)
    next
      case 2
      have "r \<in> set (fold (\<lambda>(_, region, _). region_add region) reqs [])"
        using 2 wf asked_set [of reqs] by (auto simp: tablet_wf_def in_fold_regions)
      moreover have "(t', reqs) \<in> set (inserting_read_protected c)" using 2(1) by (rule map_of_SomeD)
      ultimately show ?thesis using all le by fastforce
    qed
  next
    assume less: "t < t'" and "r \<in> m_reads_at c t'"
    then consider v where "bm_get (verifying_writes c) t' = Some v" "r \<in> set (v_read_protected v)"
      | p where "bm_get (inserting_prepared_writes c) t' = Some p" "r \<in> set (m_read_protected p)"
      | p where "bm_get (prepared_writes c) t' = Some p" "r \<in> set (m_read_protected p)"
      | p where "bm_get (committed_writes c) t' = Some p" "r \<in> set (m_read_protected p)"
      by (auto simp: m_reads_at_def in_at)
    then show ?thesis
      by cases (use less all in \<open>fastforce dest: map_of_SomeD\<close>)+
  qed
qed

section \<open>The writes the main loop looks at\<close>

lemma fold_add_cur_write:
  assumes "distinct (map fst es)" and "\<forall>e \<in> set es. bm_get m (fst e) = None"
  shows "fold add_cur_write es (Some m) = Some (fold (\<lambda>(t, v). bm_insert t v) es m)"
  using assms
proof (induction es arbitrary: m)
  case (Cons e es)
  then have "add_cur_write e (Some m) = Some (bm_insert (fst e) (snd e) m)"
    by (simp add: add_cur_write_def bm_get_None [symmetric])
  moreover have "\<forall>e' \<in> set es. bm_get (bm_insert (fst e) (snd e) m) (fst e') = None"
    using Cons.prems by (auto simp: image_iff)
  ultimately show ?case using Cons.prems(1) Cons.IH by (simp add: case_prod_unfold)
qed simp

definition cur_write :: "tablet_ctx \<Rightarrow> timestamp \<Rightarrow> verifying_region option" where
  "cur_write c t =
     (case bm_get (verifying_writes c) t of
        Some v \<Rightarrow> Some v
      | None \<Rightarrow>
          map_option of_rw
            (case bm_get (inserting_prepared_writes c) t of Some r \<Rightarrow> Some r | None \<Rightarrow> bm_get (prepared_writes c) t))"

lemma map_of_rev_distinct: "distinct (map fst m) \<Longrightarrow> map_of (rev m) k = map_of m k"
  by (metis map_of_eq_Some_iff option.exhaust set_rev distinct_rev rev_map)

lemma map_of_rev_wf: "bm_wf m \<Longrightarrow> map_of (rev m) k = bm_get m k"
  by (rule map_of_rev_distinct) (rule bm_wf_distinct)

lemma all_cur_writes_spec:
  assumes "tablet_wf c"
  obtains ws where "all_cur_writes c = Some ws" and "bm_wf ws" and "\<And>t. bm_get ws t = cur_write c t"
proof -
  let ?V = "fold (\<lambda>(t, v). bm_insert t v) (verifying_writes c) []"
  let ?es = "map (\<lambda>(t, r). (t, of_rw r)) (inserting_prepared_writes c @ prepared_writes c)"
  have wf: "bm_wf (verifying_writes c)" "bm_wf (inserting_prepared_writes c)" "bm_wf (prepared_writes c)"
    and dis: "\<And>t. bm_get (inserting_prepared_writes c) t \<noteq> None \<Longrightarrow> bm_get (prepared_writes c) t = None"
      "\<And>t. bm_get (verifying_writes c) t \<noteq> None \<Longrightarrow> bm_get (inserting_prepared_writes c) t = None \<and> bm_get (prepared_writes c) t = None"
    using assms by (auto simp: tablet_wf_def)
  have V: "bm_get ?V t = bm_get (verifying_writes c) t" for t
    by (simp add: bm.get_fold_ins map_of_rev_wf [OF wf(1)] split: option.splits)
  have keys: "map fst ?es = map fst (inserting_prepared_writes c) @ map fst (prepared_writes c)"
    by (simp add: case_prod_unfold comp_def)
  have dist: "distinct (map fst ?es)"
    unfolding keys using dis(1) bm_wf_distinct [OF wf(2)] bm_wf_distinct [OF wf(3)]
    by (auto simp: bm_get_None image_iff)
  have fresh: "\<forall>e \<in> set ?es. bm_get ?V (fst e) = None"
  proof
    fix e assume "e \<in> set ?es"
    then have "fst e \<in> fst ` set (inserting_prepared_writes c) \<or> fst e \<in> fst ` set (prepared_writes c)" by force
    then show "bm_get ?V (fst e) = None" unfolding V
      using dis(2) [of "fst e"] by (cases "bm_get (verifying_writes c) (fst e)") (auto simp: bm_get_None)
  qed
  let ?ws = "fold (\<lambda>(t, v). bm_insert t v) ?es ?V"
  have "all_cur_writes c = Some ?ws" unfolding all_cur_writes_def by (rule fold_add_cur_write [OF dist fresh])
  moreover have "bm_wf ?ws" by (intro bm.wf_fold_ins) simp
  moreover have "bm_get ?ws t = cur_write c t" for t
  proof -
    have "map_of (rev ?es) t = map_of ?es t" using dist by (rule map_of_rev_distinct)
    also have "\<dots> = map_option of_rw (case bm_get (inserting_prepared_writes c) t of Some r \<Rightarrow> Some r | None \<Rightarrow> bm_get (prepared_writes c) t)"
      by (auto simp: map_of_map map_add_def split: option.splits)
    finally have es: "map_of (rev ?es) t = \<dots>" .
    have "bm_get ?ws t = (case map_of (rev ?es) t of Some v \<Rightarrow> Some v | None \<Rightarrow> bm_get ?V t)"
      by (rule bm.get_fold_ins)
    then show ?thesis using dis(2) [of t] unfolding es V
      by (auto simp: cur_write_def split: option.splits)
  qed
  ultimately show thesis by (rule that)
qed

lemma writes_at_cur: "tablet_wf c \<Longrightarrow> writes_at c t = (case cur_write c t of None \<Rightarrow> {} | Some v \<Rightarrow> set (v_write_protected v))"
  by (auto simp: writes_at_def cur_write_def at_def of_rw_def tablet_wf_def split: option.splits)

section \<open>What the main loop grants\<close>

lemma in_flat_requests: "(t, qid, req) \<in> set (flat_requests m) \<longleftrightarrow> (\<exists>reqs. (t, reqs) \<in> set m \<and> (qid, req) \<in> set reqs)"
  by (auto simp: flat_requests_def)

lemma multiwrite_False: "is_surely_isolated_multiwrite ws r = Some False \<Longrightarrow> \<exists>w \<in> set ws. \<not> isolated w r"
  using multiwrite_iff [of ws r] by auto

lemma grantable_read_Some:
  assumes "grantable_read cum waiting = Some (Some a)"
  obtains t qid region orig reqs where "a = Grant_Read t qid" and "(t, reqs) \<in> set waiting"
    and "(qid, region, orig) \<in> set reqs" and "\<forall>w \<in> set cum. isolated w region"
proof -
  from assms obtain t qid region orig where
    "find_opt (\<lambda>(_, _, region, _). is_surely_isolated_multiwrite cum region) (flat_requests waiting) = Some (Some (t, qid, region, orig))"
    and a: "a = Grant_Read t qid"
    by (auto simp: grantable_read_def)
  from find_opt_Some [OF this(1)] a that show thesis
    by (auto simp: in_flat_requests multiwrite_iff)
qed

lemma grantable_read_None:
  assumes "grantable_read cum waiting = Some None" and "(t, reqs) \<in> set waiting" and "(qid, region, orig) \<in> set reqs"
  shows "\<exists>w \<in> set cum. \<not> isolated w region"
proof -
  have "\<forall>x \<in> set (flat_requests waiting). (\<lambda>(_, _, region, _). is_surely_isolated_multiwrite cum region) x = Some False"
    using assms(1) unfolding find_opt_None [symmetric] by (auto simp: grantable_read_def)
  then have "is_surely_isolated_multiwrite cum region = Some False"
    using assms(2,3) in_flat_requests [of t qid "(region, orig)" waiting] by fastforce
  then show ?thesis by (rule multiwrite_False)
qed

text \<open>The loop over the later writes, with \<open>cum\<close> the regions of the writes up to \<open>prev\<close>.\<close>

lemma cur_writes_loop_Some:
  assumes "cur_writes_loop waiting cum prev rest = Some (Some a)" and "sorted_wrt (<) (prev # map fst rest)"
  shows "(\<exists>t qid region orig reqs. a = Grant_Read t qid \<and> prev \<le> t \<and> (t, reqs) \<in> set waiting \<and> (qid, region, orig) \<in> set reqs \<and>
       (\<forall>w \<in> set cum. isolated w region) \<and>
       (\<forall>t' v. (t', v) \<in> set rest \<longrightarrow> t' \<le> t \<longrightarrow> (\<forall>w \<in> set (v_write_protected v). isolated w region))) \<or>
     (\<exists>t qid region orig v. a = Grant_M_Read t qid \<and> (t, v) \<in> set rest \<and> (qid, region, orig) \<in> set (m_waiting_read_protected v) \<and>
       (\<forall>w \<in> set cum. isolated w region) \<and>
       (\<forall>t' v. (t', v) \<in> set rest \<longrightarrow> t' < t \<longrightarrow> (\<forall>w \<in> set (v_write_protected v). isolated w region)))"
  using assms
proof (induction rest arbitrary: cum prev)
  case Nil
  then have "grantable_read cum (filter (\<lambda>(t, _). prev \<le> t) waiting) = Some (Some a)" by simp
  then show ?case by (rule grantable_read_Some) auto
next
  case (Cons e rest)
  obtain cur v where e: "e = (cur, v)" by fastforce
  have sorted: "prev < cur" "sorted_wrt (<) (cur # map fst rest)" "\<forall>x \<in> fst ` set rest. cur < x" using Cons.prems(2) by (auto simp: e)
  from Cons.prems(1) obtain m where
    m: "find_opt (\<lambda>(_, region, _). is_surely_isolated_multiwrite cum region) (m_waiting_read_protected v) = Some m"
    by (auto simp: e bind_eq_Some_conv)
  show ?case
  proof (cases m)
    case (Some x)
    obtain qid region orig where x: "x = (qid, region, orig)" by (cases x) auto
    have a: "a = Grant_M_Read cur qid" using Cons.prems(1) m Some by (auto simp: e x)
    have f: "(qid, region, orig) \<in> set (m_waiting_read_protected v)" "\<forall>w \<in> set cum. isolated w region"
      using find_opt_Some [OF m [unfolded Some]] by (auto simp: x multiwrite_iff)
    show ?thesis
      by (rule disjI2, rule exI [of _ cur], rule exI [of _ qid], rule exI [of _ region], rule exI [of _ orig], rule exI [of _ v])
        (use a f sorted(3) in \<open>auto simp: e\<close>)
  next
    case None
    from Cons.prems(1) m None obtain r where
      r: "grantable_read cum (filter (\<lambda>(t, _). prev \<le> t \<and> t < cur) waiting) = Some r"
      by (auto simp: e bind_eq_Some_conv)
    show ?thesis
    proof (cases r)
      case (Some b)
      with Cons.prems(1) m None r have b: "b = a" by (simp add: e)
      have "grantable_read cum (filter (\<lambda>(t, _). prev \<le> t \<and> t < cur) waiting) = Some (Some a)" using r Some b by simp
      then show ?thesis
      proof (rule grantable_read_Some)
        fix t qid region orig reqs
        assume g: "a = Grant_Read t qid" "(t, reqs) \<in> set (filter (\<lambda>(t, _). prev \<le> t \<and> t < cur) waiting)"
          "(qid, region, orig) \<in> set reqs" "\<forall>w \<in> set cum. isolated w region"
        show ?thesis
          by (rule disjI1, rule exI [of _ t], rule exI [of _ qid], rule exI [of _ region], rule exI [of _ orig], rule exI [of _ reqs])
            (use g sorted(3) in \<open>auto simp: e\<close>)
      qed
    next
      case r: None
      have rest: "cur_writes_loop waiting (fold region_add (v_write_protected v) cum) cur rest = Some (Some a)"
        using Cons.prems(1) m None \<open>grantable_read _ _ = Some r\<close> r by (simp add: e)
      have cum: "set (fold region_add (v_write_protected v) cum) = set (v_write_protected v) \<union> set cum" by simp
      from Cons.IH [OF rest sorted(2)] show ?thesis
      proof
        assume "\<exists>t qid region orig reqs. a = Grant_Read t qid \<and> cur \<le> t \<and> (t, reqs) \<in> set waiting \<and> (qid, region, orig) \<in> set reqs \<and>
           (\<forall>w \<in> set (fold region_add (v_write_protected v) cum). isolated w region) \<and>
           (\<forall>t' v. (t', v) \<in> set rest \<longrightarrow> t' \<le> t \<longrightarrow> (\<forall>w \<in> set (v_write_protected v). isolated w region))"
        then obtain t qid region orig reqs where g: "a = Grant_Read t qid" "cur \<le> t" "(t, reqs) \<in> set waiting" "(qid, region, orig) \<in> set reqs"
          "\<forall>w \<in> set (v_write_protected v) \<union> set cum. isolated w region"
          "\<forall>t' v. (t', v) \<in> set rest \<longrightarrow> t' \<le> t \<longrightarrow> (\<forall>w \<in> set (v_write_protected v). isolated w region)" unfolding cum by blast
        show ?thesis
          by (rule disjI1, rule exI [of _ t], rule exI [of _ qid], rule exI [of _ region], rule exI [of _ orig], rule exI [of _ reqs])
            (use g sorted(1) in \<open>auto simp: e\<close>)
      next
        assume "\<exists>t qid region orig v'. a = Grant_M_Read t qid \<and> (t, v') \<in> set rest \<and> (qid, region, orig) \<in> set (m_waiting_read_protected v') \<and>
           (\<forall>w \<in> set (fold region_add (v_write_protected v) cum). isolated w region) \<and>
           (\<forall>t' v. (t', v) \<in> set rest \<longrightarrow> t' < t \<longrightarrow> (\<forall>w \<in> set (v_write_protected v). isolated w region))"
        then obtain t qid region orig v' where g: "a = Grant_M_Read t qid" "(t, v') \<in> set rest" "(qid, region, orig) \<in> set (m_waiting_read_protected v')"
          "\<forall>w \<in> set (v_write_protected v) \<union> set cum. isolated w region"
          "\<forall>t' v. (t', v) \<in> set rest \<longrightarrow> t' < t \<longrightarrow> (\<forall>w \<in> set (v_write_protected v). isolated w region)" unfolding cum by blast
        show ?thesis
          by (rule disjI2, rule exI [of _ t], rule exI [of _ qid], rule exI [of _ region], rule exI [of _ orig], rule exI [of _ v'])
            (use g in \<open>auto simp: e\<close>)
      qed
    qed
  qed
qed

lemma cur_writes_loop_None:
  assumes "cur_writes_loop waiting cum prev rest = Some None" and "sorted_wrt (<) (prev # map fst rest)"
  shows "(\<forall>t reqs qid region orig. prev \<le> t \<longrightarrow> (t, reqs) \<in> set waiting \<longrightarrow> (qid, region, orig) \<in> set reqs \<longrightarrow>
       (\<exists>w \<in> set cum \<union> (\<Union>(t', v) \<in> {e \<in> set rest. fst e \<le> t}. set (v_write_protected v)). \<not> isolated w region)) \<and>
     (\<forall>t v qid region orig. (t, v) \<in> set rest \<longrightarrow> (qid, region, orig) \<in> set (m_waiting_read_protected v) \<longrightarrow>
       (\<exists>w \<in> set cum \<union> (\<Union>(t', v) \<in> {e \<in> set rest. fst e < t}. set (v_write_protected v)). \<not> isolated w region))"
  using assms
proof (induction rest arbitrary: cum prev)
  case Nil
  then have "grantable_read cum (filter (\<lambda>(t, _). prev \<le> t) waiting) = Some None" by simp
  from grantable_read_None [OF this] show ?case by fastforce
next
  case (Cons e rest)
  obtain cur v where e: "e = (cur, v)" by fastforce
  have sorted: "prev < cur" "sorted_wrt (<) (cur # map fst rest)" "\<forall>x \<in> fst ` set rest. cur < x" using Cons.prems(2) by (auto simp: e)
  obtain m where m0: "find_opt (\<lambda>(_, region, _). is_surely_isolated_multiwrite cum region) (m_waiting_read_protected v) = Some m"
    using Cons.prems(1) by (auto simp: e bind_eq_Some_conv)
  have "m = None" using Cons.prems(1) m0 by (cases m) (auto simp: e)
  with m0 have m: "find_opt (\<lambda>(_, region, _). is_surely_isolated_multiwrite cum region) (m_waiting_read_protected v) = Some None" by simp
  have r: "grantable_read cum (filter (\<lambda>(t, _). prev \<le> t \<and> t < cur) waiting) = Some None"
    and rest: "cur_writes_loop waiting (fold region_add (v_write_protected v) cum) cur rest = Some None"
    using Cons.prems(1) m by (auto simp: e bind_eq_Some_conv split: option.splits)
  have mw: "\<exists>w \<in> set cum. \<not> isolated w region" if "(qid, region, orig) \<in> set (m_waiting_read_protected v)" for qid region orig
    using that m unfolding find_opt_None by (intro multiwrite_False) auto
  have cum: "set (fold region_add (v_write_protected v) cum) = set (v_write_protected v) \<union> set cum" by simp
  note IH = Cons.IH [OF rest sorted(2), unfolded cum]
  show ?case
  proof (intro conjI allI impI)
    fix t reqs qid region orig
    assume a: "prev \<le> t" "(t, reqs) \<in> set waiting" "(qid, region, orig) \<in> set reqs"
    show "\<exists>w \<in> set cum \<union> (\<Union>(t', v) \<in> {e' \<in> set (e # rest). fst e' \<le> t}. set (v_write_protected v)). \<not> isolated w region"
    proof (cases "t < cur")
      case True
      then show ?thesis using grantable_read_None [OF r, of t reqs qid region orig] a by auto
    next
      case False
      then have "cur \<le> t" by simp
      with IH a obtain w where
        "w \<in> set (v_write_protected v) \<union> set cum \<union> (\<Union>(t', v) \<in> {e \<in> set rest. fst e \<le> t}. set (v_write_protected v))" "\<not> isolated w region"
        by blast
      then show ?thesis using \<open>cur \<le> t\<close> by (intro bexI [of _ w]) (auto simp: e)
    qed
  next
    fix t v' qid region orig
    assume a: "(t, v') \<in> set (e # rest)" "(qid, region, orig) \<in> set (m_waiting_read_protected v')"
    show "\<exists>w \<in> set cum \<union> (\<Union>(t', v) \<in> {e' \<in> set (e # rest). fst e' < t}. set (v_write_protected v)). \<not> isolated w region"
    proof (cases "(t, v') = e")
      case True
      with a mw show ?thesis by (fastforce simp: e)
    next
      case False
      then have mem: "(t, v') \<in> set rest" using a by simp
      with sorted(3) have "cur < t" by force
      from IH mem a(2) obtain w where
        "w \<in> set (v_write_protected v) \<union> set cum \<union> (\<Union>(t', v) \<in> {e \<in> set rest. fst e < t}. set (v_write_protected v))" "\<not> isolated w region"
        by blast
      then show ?thesis using \<open>cur < t\<close> by (intro bexI [of _ w]) (auto simp: e)
    qed
  qed
qed

lemma writes_at_list:
  assumes "tablet_wf c" and "bm_wf ws" and "\<And>t. bm_get ws t = cur_write c t"
  shows "w \<in> writes_at c t \<longleftrightarrow> (\<exists>v. (t, v) \<in> set ws \<and> w \<in> set (v_write_protected v))"
  using assms by (auto simp: writes_at_cur bm_get_set split: option.splits)

lemma cur_write_waiting:
  "cur_write c t = Some v \<Longrightarrow> m_waiting_read_protected v \<noteq> [] \<Longrightarrow> bm_get (verifying_writes c) t = Some v"
  by (auto simp: cur_write_def of_rw_def split: option.splits)

lemma waiting_get:
  assumes "tablet_wf c" and "(t, reqs) \<in> set (waiting_read_protected c)" and "(qid, req) \<in> set reqs"
  shows "bm_get (waiting_read_protected c) t = Some reqs \<and> bm_get reqs qid = Some req"
  using assms by (auto simp: tablet_wf_def bm_get_set)

text \<open>A grant of the main loop is of a request that waits and that no earlier undecided write can touch.\<close>

definition grant_ok :: "tablet_ctx \<Rightarrow> loop_action \<Rightarrow> bool" where
  "grant_ok c a \<longleftrightarrow>
     (\<exists>t qid region orig reqs. a = Grant_Read t qid \<and> bm_get (waiting_read_protected c) t = Some reqs \<and>
        bm_get reqs qid = Some (region, orig) \<and> (\<forall>t' \<le> t. \<forall>w \<in> writes_at c t'. isolated w region)) \<or>
     (\<exists>t qid region orig v. a = Grant_M_Read t qid \<and> bm_get (verifying_writes c) t = Some v \<and>
        bm_get (m_waiting_read_protected v) qid = Some (region, orig) \<and>
        (\<forall>t' < t. \<forall>w \<in> writes_at c t'. isolated w region))"

lemma grant_ok_read:
  assumes "tablet_wf c" and "(t, reqs) \<in> set (waiting_read_protected c)" and "(qid, region, orig) \<in> set reqs"
    and "\<And>t' w. t' \<le> t \<Longrightarrow> w \<in> writes_at c t' \<Longrightarrow> isolated w region"
  shows "grant_ok c (Grant_Read t qid)"
  using waiting_get [OF assms(1-3)] assms(4) unfolding grant_ok_def by blast

lemma grant_ok_m_read:
  assumes "tablet_wf c" and "cur_write c t = Some v" and "(qid, region, orig) \<in> set (m_waiting_read_protected v)"
    and "\<And>t' w. t' < t \<Longrightarrow> w \<in> writes_at c t' \<Longrightarrow> isolated w region"
  shows "grant_ok c (Grant_M_Read t qid)"
proof -
  have v: "bm_get (verifying_writes c) t = Some v" by (rule cur_write_waiting [OF assms(2)]) (use assms(3) in auto)
  then have "bm_wf (m_waiting_read_protected v)" using assms(1) unfolding tablet_wf_def by blast
  with assms(3) have "bm_get (m_waiting_read_protected v) qid = Some (region, orig)" by (simp add: bm_get_set)
  with v assms(4) show ?thesis unfolding grant_ok_def by blast
qed

lemma region_action_sound:
  assumes wf: "tablet_wf c" and act: "region_action c = Some (Some a)"
  shows "grant_ok c a"
proof -
  obtain ws where ws: "all_cur_writes c = Some ws" "bm_wf ws" "\<And>t. bm_get ws t = cur_write c t"
    using all_cur_writes_spec [OF wf] by blast
  note wl = writes_at_list [OF wf ws(2,3)]
  note act = act [unfolded region_action_def ws(1), simplified]
  show ?thesis
  proof (cases ws)
    case Nil
    with act obtain t qid req where a: "a = Grant_Read t qid" and "(t, qid, req) \<in> set (flat_requests (waiting_read_protected c))"
      by (auto split: list.splits)
    then obtain reqs where "(t, reqs) \<in> set (waiting_read_protected c)" "(qid, req) \<in> set reqs" by (auto simp: in_flat_requests)
    then show ?thesis unfolding a by (cases req) (rule grant_ok_read [OF wf], auto simp: wl Nil)
  next
    case (Cons e rest)
    obtain first_ts v where e: "e = (first_ts, v)" by fastforce
    have low: "first_ts \<le> t'" if "(t', v') \<in> set ws" for t' v' using that ws(2) by (auto simp: Cons e intro: less_imp_le)
    have sorted: "sorted_wrt (<) (first_ts # map fst rest)" using ws(2) by (simp add: Cons e bm_wf_def)
    show ?thesis
    proof (cases "filter (\<lambda>(t, _). t < first_ts) (waiting_read_protected c)")
      case f: (Cons x xs)
      obtain t reqs where x: "x = (t, reqs)" by fastforce
      have mem: "(t, reqs) \<in> set (waiting_read_protected c)" "t < first_ts"
        using arg_cong [OF f, of set] by (auto simp: x)
      from act f obtain qid req where a: "a = Grant_Read t qid" "(qid, req) \<in> set reqs"
        by (auto simp: Cons e x split: list.splits)
      have "\<not> (t' \<le> t \<and> w \<in> writes_at c t')" for t' w using low mem(2) by (fastforce simp: wl)
      then show ?thesis unfolding a(1) using a(2) by (cases req) (auto intro: grant_ok_read [OF wf mem(1)])
    next
      case f: Nil
      show ?thesis
      proof (cases "m_waiting_read_protected v")
        case m: (Cons x xs)
        obtain qid region orig where x: "x = (qid, region, orig)" by (cases x) auto
        have a: "a = Grant_M_Read first_ts qid" using act f m by (simp add: Cons e x)
        have "cur_write c first_ts = Some v" using ws(3) [of first_ts] by (simp add: Cons e)
        then show ?thesis unfolding a
          by (rule grant_ok_m_read [OF wf, of _ _ _ region orig]) (use low in \<open>fastforce simp: m x wl\<close>)+
      next
        case m: Nil
        have loop: "cur_writes_loop (waiting_read_protected c) (v_write_protected v) first_ts rest = Some (Some a)"
          using act f m by (simp add: Cons e)
        from cur_writes_loop_Some [OF loop sorted] show ?thesis
        proof (elim disjE exE conjE)
          fix t qid region orig reqs
          assume g: "a = Grant_Read t qid" "(t, reqs) \<in> set (waiting_read_protected c)" "(qid, region, orig) \<in> set reqs"
            "\<forall>w \<in> set (v_write_protected v). isolated w region"
            "\<forall>t' v. (t', v) \<in> set rest \<longrightarrow> t' \<le> t \<longrightarrow> (\<forall>w \<in> set (v_write_protected v). isolated w region)"
          show ?thesis unfolding g(1)
            by (rule grant_ok_read [OF wf g(2,3)]) (use g(4,5) in \<open>auto simp: wl Cons e\<close>)
        next
          fix t qid region orig v'
          assume g: "a = Grant_M_Read t qid" "(t, v') \<in> set rest" "(qid, region, orig) \<in> set (m_waiting_read_protected v')"
            "\<forall>w \<in> set (v_write_protected v). isolated w region"
            "\<forall>t' v. (t', v) \<in> set rest \<longrightarrow> t' < t \<longrightarrow> (\<forall>w \<in> set (v_write_protected v). isolated w region)"
          have "cur_write c t = Some v'"
            using ws(2) g(2) bm_get_set [of ws t v'] by (simp add: ws(3) [symmetric] Cons)
          then show ?thesis unfolding g(1)
            by (rule grant_ok_m_read [OF wf _ g(3)]) (use g(4,5) in \<open>auto simp: wl Cons e\<close>)
        qed
      qed
    qed
  qed
qed

text \<open>When the main loop finds nothing to grant, every request is in conflict with an earlier undecided write.\<close>

lemma region_action_complete:
  assumes wf: "tablet_wf c" and act: "region_action c = Some None"
  shows "(\<forall>t reqs qid region orig. bm_get (waiting_read_protected c) t = Some reqs \<longrightarrow> bm_get reqs qid = Some (region, orig) \<longrightarrow>
       (\<exists>t' \<le> t. \<exists>w \<in> writes_at c t'. \<not> isolated w region)) \<and>
     (\<forall>t v qid region orig. bm_get (verifying_writes c) t = Some v \<longrightarrow> bm_get (m_waiting_read_protected v) qid = Some (region, orig) \<longrightarrow>
       (\<exists>t' < t. \<exists>w \<in> writes_at c t'. \<not> isolated w region))"
proof -
  obtain ws where ws: "all_cur_writes c = Some ws" "bm_wf ws" "\<And>t. bm_get ws t = cur_write c t"
    using all_cur_writes_spec [OF wf] by blast
  note wl = writes_at_list [OF wf ws(2,3)]
  note act = act [unfolded region_action_def ws(1), simplified]
  have ver: "(t, v) \<in> set ws" if "bm_get (verifying_writes c) t = Some v" for t v
    using that ws(2) by (simp add: bm_get_set ws(3) cur_write_def)
  show ?thesis
  proof (cases ws)
    case Nil
    with act have "flat_requests (waiting_read_protected c) = []" by (auto split: list.splits)
    then have "\<not> (bm_get (waiting_read_protected c) t = Some reqs \<and> bm_get reqs qid = Some req)" for t reqs qid req
      using in_flat_requests [of t qid req "waiting_read_protected c"] by (auto dest: map_of_SomeD)
    moreover have "bm_get (verifying_writes c) t = None" for t using ver Nil by (cases "bm_get (verifying_writes c) t") auto
    ultimately show ?thesis by auto
  next
    case (Cons e rest)
    obtain first_ts v where e: "e = (first_ts, v)" by fastforce
    have sorted: "sorted_wrt (<) (first_ts # map fst rest)" using ws(2) by (simp add: Cons e bm_wf_def)
    have f: "filter (\<lambda>(t, _). t < first_ts) (waiting_read_protected c) = []"
      and m: "m_waiting_read_protected v = []"
      and loop: "cur_writes_loop (waiting_read_protected c) (v_write_protected v) first_ts rest = Some None"
      using act by (auto simp: Cons e split: list.splits)
    note none = cur_writes_loop_None [OF loop sorted]
    have w: "\<exists>t' \<le> t. w \<in> writes_at c t'" if "w \<in> set (v_write_protected v) \<union>
        (\<Union>(t', v) \<in> {e \<in> set rest. fst e \<le> t}. set (v_write_protected v))" "first_ts \<le> t" for w t
      using that by (auto simp: wl Cons e)
    have w': "\<exists>t' < t. w \<in> writes_at c t'" if "w \<in> set (v_write_protected v) \<union>
        (\<Union>(t', v) \<in> {e \<in> set rest. fst e < t}. set (v_write_protected v))" "first_ts < t" for w t
      using that by (auto simp: wl Cons e)
    show ?thesis
    proof (intro conjI allI impI)
      fix t reqs qid region orig
      assume a: "bm_get (waiting_read_protected c) t = Some reqs" "bm_get reqs qid = Some (region, orig)"
      then have mem: "(t, reqs) \<in> set (waiting_read_protected c)" "(qid, region, orig) \<in> set reqs" by (auto dest: map_of_SomeD)
      with f have "first_ts \<le> t" by (force simp: filter_empty_conv)
      from conjunct1 [OF none, rule_format, OF this mem] w [OF _ this]
      show "\<exists>t' \<le> t. \<exists>w \<in> writes_at c t'. \<not> isolated w region" by blast
    next
      fix t v' qid region orig
      assume a: "bm_get (verifying_writes c) t = Some v'" "bm_get (m_waiting_read_protected v') qid = Some (region, orig)"
      then have mem: "(t, v') \<in> set ws" "(qid, region, orig) \<in> set (m_waiting_read_protected v')" by (auto dest: map_of_SomeD ver)
      with m have rest: "(t, v') \<in> set rest" by (auto simp: Cons e)
      with sorted have "first_ts < t" by force
      from conjunct2 [OF none, rule_format, OF rest mem(2)] w' [OF _ this]
      show "\<exists>t' < t. \<exists>w \<in> writes_at c t'. \<not> isolated w region" by blast
    qed
  qed
qed

section \<open>The operations keep the invariant\<close>

lemma asked_simps [simp]:
  "asked [] = {}"
  by (simp add: asked_def)

lemma asked_remove: "asked (bm_remove qid reqs) \<subseteq> asked reqs"
  by (auto simp: asked_def split: if_splits)

lemma requests_insert_get:
  "bm_get (requests_insert t qid req m) t' =
     (if t' = t then Some (bm_insert qid req (case bm_get m t of None \<Rightarrow> [] | Some reqs \<Rightarrow> reqs)) else bm_get m t')"
  by (simp add: requests_insert_def)

lemma regions_insert_get:
  "bm_get (regions_insert t x m) t' =
     (if t' = t then Some (region_add x (case bm_get m t of None \<Rightarrow> [] | Some xs \<Rightarrow> xs)) else bm_get m t')"
  by (simp add: regions_insert_def)

lemma requests_remove_Some:
  assumes "requests_remove t qid m = Some (req, m')"
  obtains reqs where "bm_get m t = Some reqs" and "bm_get reqs qid = Some req"
    and "m' = (if bm_remove qid reqs = [] then bm_remove t m else bm_insert t (bm_remove qid reqs) m)"
  using assms by (auto simp: requests_remove_def bind_eq_Some_conv Let_def)

lemma requests_remove_ok:
  assumes "requests_remove t qid m = Some (req, m')" and "bm_wf m"
    and "\<forall>t reqs. bm_get m t = Some reqs \<longrightarrow> bm_wf reqs"
  shows "bm_wf m' \<and> (\<forall>t reqs. bm_get m' t = Some reqs \<longrightarrow> bm_wf reqs) \<and>
    ((\<forall>t reqs. bm_get m t = Some reqs \<longrightarrow> reqs \<noteq> []) \<longrightarrow> (\<forall>t reqs. bm_get m' t = Some reqs \<longrightarrow> reqs \<noteq> []))"
  using assms by (elim requests_remove_Some) (auto split: if_splits)

lemma requests_insert_ok:
  assumes "bm_wf m" and "\<forall>t reqs. bm_get m t = Some reqs \<longrightarrow> bm_wf reqs"
  shows "bm_wf (requests_insert t qid req m)"
    and "\<forall>t' reqs. bm_get (requests_insert t qid req m) t' = Some reqs \<longrightarrow> bm_wf reqs"
  using assms by (auto simp: requests_insert_get requests_insert_def split: option.splits)

lemma bm_insert_not_Nil [simp]: "bm_insert k v m \<noteq> []"
  by (cases m) auto

lemma asked_insert: "asked (bm_insert qid req reqs) \<subseteq> insert (fst req) (asked reqs)"
  unfolding asked_def by (auto split: if_splits)

text \<open>New requests protect nothing yet.\<close>

lemma request_region_read_ok:
  assumes "request_region_read p orig t region c = Some c'" and "tablet_wf c" and "region_inv c"
  shows "tablet_wf c' \<and> region_inv c'"
proof -
  from assms(1) obtain v where v: "bm_get (verifying_writes c) t = Some v"
    and c': "c' = c\<lparr>verifying_writes := bm_insert t
      (v\<lparr>m_waiting_read_protected := bm_insert p (region, orig) (m_waiting_read_protected v)\<rparr>) (verifying_writes c)\<rparr>"
    by (auto simp: request_region_read_def bind_eq_Some_conv)
  have "tablet_wf c'" using assms(2) v by (simp add: c' tablet_wf_def)
  moreover have "region_inv c'"
    by (rule region_inv_mono [OF assms(3)]) (auto simp: c' writes_at_def reads_at_def m_reads_at_def in_at v at_def)
  ultimately show ?thesis by simp
qed

lemma request_table_read_ok:
  assumes "tablet_wf c" and "region_inv c"
  shows "tablet_wf (request_table_read p orig t region c) \<and> region_inv (request_table_read p orig t region c)"
proof -
  let ?c = "request_table_read p orig t region c"
  have "tablet_wf ?c"
    using assms(1) requests_insert_ok [of "waiting_read_protected c" t p "(region, orig)"]
    by (auto simp: tablet_wf_def request_table_read_def requests_insert_get split: if_splits)
  moreover have "region_inv ?c"
    by (rule region_inv_mono [OF assms(2)]) (auto simp: request_table_read_def writes_at_def reads_at_def m_reads_at_def)
  ultimately show ?thesis by simp
qed

text \<open>A write is added when its region is isolated from the later reads.\<close>

lemma request_region_write_ok:
  assumes req: "request_region_write p orig t region w c = Some (Some c')" and wf: "tablet_wf c" and inv: "region_inv c"
  shows "tablet_wf c' \<and> region_inv c'"
proof -
  from req obtain v where chk: "check_write_region_isolation w t c = Some True" and v: "bm_get (verifying_writes c) t = Some v"
    and c': "c' = c\<lparr>verifying_writes := bm_insert t
      (v\<lparr>m_waiting_read_protected := bm_insert p (region, orig) (m_waiting_read_protected v),
         v_write_protected := region_add w (v_write_protected v)\<rparr>) (verifying_writes c)\<rparr>"
    by (auto simp: request_region_write_def bind_eq_Some_conv split: if_splits)
  have "tablet_wf c'" using wf v by (simp add: c' tablet_wf_def)
  moreover have "region_inv c'" unfolding region_inv_def
  proof (intro allI impI)
    fix ts t' w' r
    assume "w' \<in> writes_at c' ts" and "ts \<le> t' \<and> r \<in> reads_at c' t' \<or> ts < t' \<and> r \<in> m_reads_at c' t'"
    moreover have "reads_at c' t' = reads_at c t'" "m_reads_at c' t' = m_reads_at c t'"
      by (auto simp: c' reads_at_def m_reads_at_def in_at v at_def)
    moreover have "writes_at c' ts = writes_at c ts \<union> (if ts = t then {w} else {})"
      by (auto simp: c' writes_at_def in_at v)
    ultimately show "isolated w' r"
      using inv check_write_sound [OF chk wf, of t' r] unfolding region_inv_def by (auto split: if_splits)
  qed
  ultimately show ?thesis by simp
qed

text \<open>The grants of the main loop.\<close>

lemma grant_local_read_protected_ok:
  assumes g: "grant_local_read_protected t qid c = Some (told, c')" and ok: "grant_ok c (Grant_Read t qid)"
    and wf: "tablet_wf c" and inv: "region_inv c"
  shows "tablet_wf c' \<and> region_inv c'"
proof -
  from ok obtain region orig reqs where r: "bm_get (waiting_read_protected c) t = Some reqs"
    "bm_get reqs qid = Some (region, orig)" and iso: "\<And>t' w. t' \<le> t \<Longrightarrow> w \<in> writes_at c t' \<Longrightarrow> isolated w region"
    by (auto simp: grant_ok_def)
  from g obtain req m where m: "requests_remove t qid (waiting_read_protected c) = Some (req, m)"
    and c': "c' = push_plm (PLm_ReadProtected qid t (fst req)) (c\<lparr>waiting_read_protected := m,
      inserting_read_protected := requests_insert t qid req (inserting_read_protected c)\<rparr>)"
    by (auto simp: grant_local_read_protected_def remove_read_protected_request_def bind_eq_Some_conv)
  have req: "req = (region, orig)" using m r by (auto simp: requests_remove_def Let_def)
  have "tablet_wf c'"
    using wf requests_remove_ok [OF m] requests_insert_ok [of "inserting_read_protected c" t qid req]
    unfolding tablet_wf_def by (simp add: c' push_plm_def)
  moreover have "region_inv c'" unfolding region_inv_def
  proof (intro allI impI)
    fix ts t' w r
    assume "w \<in> writes_at c' ts" and "ts \<le> t' \<and> r \<in> reads_at c' t' \<or> ts < t' \<and> r \<in> m_reads_at c' t'"
    moreover have "writes_at c' ts = writes_at c ts" "m_reads_at c' t' = m_reads_at c t'"
      by (simp_all add: c' push_plm_def writes_at_def m_reads_at_def)
    moreover have "reads_at c' t' \<subseteq> reads_at c t' \<union> (if t' = t then {region} else {})"
      using asked_insert [of qid req "case bm_get (inserting_read_protected c) t of None \<Rightarrow> [] | Some reqs \<Rightarrow> reqs"]
      by (auto simp: c' push_plm_def reads_at_def at_def requests_insert_get req simp del: bm_insert.simps split: if_splits option.splits)
    ultimately show "isolated w r"
      using inv iso unfolding region_inv_def by (auto split: if_splits)
  qed
  ultimately show ?thesis by simp
qed

lemma grant_m_local_read_protected_ok:
  assumes g: "grant_m_local_read_protected t qid c = Some (told, c')" and ok: "grant_ok c (Grant_M_Read t qid)"
    and wf: "tablet_wf c" and inv: "region_inv c"
  shows "tablet_wf c' \<and> region_inv c'"
proof -
  from ok obtain region orig v where v: "bm_get (verifying_writes c) t = Some v"
    "bm_get (m_waiting_read_protected v) qid = Some (region, orig)"
    and iso: "\<And>t' w. t' < t \<Longrightarrow> w \<in> writes_at c t' \<Longrightarrow> isolated w region"
    by (auto simp: grant_ok_def)
  from g v have c': "c' = c\<lparr>verifying_writes := bm_insert t
      (v\<lparr>m_waiting_read_protected := bm_remove qid (m_waiting_read_protected v),
         v_read_protected := region_add region (v_read_protected v)\<rparr>) (verifying_writes c)\<rparr>"
    by (simp add: grant_m_local_read_protected_def)
  have "tablet_wf c'" using wf v(1) by (simp add: c' tablet_wf_def)
  moreover have "region_inv c'" unfolding region_inv_def
  proof (intro allI impI)
    fix ts t' w r
    assume "w \<in> writes_at c' ts" and "ts \<le> t' \<and> r \<in> reads_at c' t' \<or> ts < t' \<and> r \<in> m_reads_at c' t'"
    moreover have "writes_at c' ts = writes_at c ts" "reads_at c' t' = reads_at c t'"
      by (auto simp: c' writes_at_def reads_at_def at_def v)
    moreover have "m_reads_at c' t' \<subseteq> m_reads_at c t' \<union> (if t' = t then {region} else {})"
      by (auto simp: c' m_reads_at_def in_at v split: if_splits)
    ultimately show "isolated w r"
      using inv iso unfolding region_inv_def by (auto split: if_splits)
  qed
  ultimately show ?thesis by simp
qed

lemma region_inv_cong:
  assumes "region_inv c" and "\<And>t. writes_at c' t = writes_at c t" and "\<And>t. reads_at c' t = reads_at c t"
    and "\<And>t. m_reads_at c' t = m_reads_at c t"
  shows "region_inv c'"
  by (rule region_inv_mono [OF assms(1)]) (simp_all add: assms(2-4))

lemma exit_ms_query_es_ok:
  assumes "exit_ms_query_es qid ess c = Some (ess', c')" and "tablet_wf c" and "region_inv c"
  shows "tablet_wf c' \<and> region_inv c'"
proof -
  from assms(1) obtain es where es: "bm_get ess qid = Some es"
    by (auto simp: exit_ms_query_es_def bind_eq_Some_conv)
  with assms(1) have c': "c' = c\<lparr>ms_root_query_map := bm_remove (ms_root_query_id es) (ms_root_query_map c),
      verifying_writes := bm_remove (ms_timestamp es) (verifying_writes c)\<rparr>"
    by (auto simp: exit_ms_query_es_def)
  have "tablet_wf c'" using assms(2) by (auto simp: c' tablet_wf_def split: if_splits)
  moreover have "region_inv c'"
    by (rule region_inv_mono [OF assms(3)]) (auto simp: c' writes_at_def reads_at_def m_reads_at_def split: if_splits)
  ultimately show ?thesis by simp
qed

lemma get_msquery_id_ok:
  assumes "get_msquery_id new_qid root_qid root_sid root_lid sg t ess c = Some (Inr (qid, ess', c'))"
    and "tablet_wf c" and "region_inv c"
  shows "tablet_wf c' \<and> region_inv c'"
proof (cases "bm_get (ms_root_query_map c) root_qid")
  case (Some a)
  with assms show ?thesis by (simp add: get_msquery_id_def)
next
  case None
  with assms(1) have free: "bm_get (verifying_writes c) t = None" "bm_get (inserting_prepared_writes c) t = None"
      "bm_get (prepared_writes c) t = None" "bm_get (committed_writes c) t = None"
    and c': "c' = c\<lparr>ms_root_query_map := bm_insert root_qid new_qid (ms_root_query_map c),
      verifying_writes := bm_insert t \<lparr>v_orig_p = new_qid, m_waiting_read_protected = [],
        v_read_protected = [], v_write_protected = []\<rparr> (verifying_writes c)\<rparr>"
    by (auto simp: get_msquery_id_def bind_eq_Some_conv bm_get_None split: if_splits)
  have "tablet_wf c'" using assms(2) free by (auto simp: c' tablet_wf_def split: if_splits)
  moreover have "region_inv c'"
    by (rule region_inv_cong [OF assms(3)])
      (auto simp: c' writes_at_def reads_at_def m_reads_at_def at_def free split: if_splits)
  ultimately show ?thesis by simp
qed

lemma locked_cols_ok:
  assumes "tablet_wf c" and "region_inv c" and "bm_wf wl" and "bm_wf il"
  shows "tablet_wf (c\<lparr>waiting_locked_cols := wl, inserting_locked_cols := il, tablet_bundle := b\<rparr>) \<and>
    region_inv (c\<lparr>waiting_locked_cols := wl, inserting_locked_cols := il, tablet_bundle := b\<rparr>)"
  using assms by (auto simp: tablet_wf_def intro!: region_inv_cong [OF assms(2)] simp: writes_at_def reads_at_def m_reads_at_def)

text \<open>The callbacks of the commit protocol.\<close>

lemma fq_new_ok:
  assumes "fq_new qid ess c = Some (made, ess', c')" and "tablet_wf c" and "region_inv c"
  shows "tablet_wf c' \<and> region_inv c'"
proof (cases "bm_get ess qid")
  case None
  with assms show ?thesis by (simp add: fq_new_def)
next
  case (Some es)
  with assms(1) obtain v where v: "bm_get (verifying_writes c) (ms_timestamp es) = Some v"
    and c': "c' = c\<lparr>ms_root_query_map := bm_remove (ms_root_query_id es) (ms_root_query_map c),
      verifying_writes := bm_remove (ms_timestamp es) (verifying_writes c),
      inserting_prepared_writes := bm_insert (ms_timestamp es)
        \<lparr>rw_orig_p = v_orig_p v, m_read_protected = v_read_protected v, m_write_protected = v_write_protected v\<rparr>
        (inserting_prepared_writes c)\<rparr>"
    by (auto simp: fq_new_def bind_eq_Some_conv Let_def split: if_splits)
  have "tablet_wf c'" using assms(2) v by (auto simp: c' tablet_wf_def split: if_splits)
  moreover have "region_inv c'"
    by (rule region_inv_mono [OF assms(3)])
      (auto simp: c' writes_at_def reads_at_def m_reads_at_def in_at v split: if_splits)
  ultimately show ?thesis by simp
qed

lemma fq_early_aborted_ok:
  assumes "fq_early_aborted i c = Some (i', c')" and "tablet_wf c" and "region_inv c"
  shows "tablet_wf c' \<and> region_inv c'"
proof -
  have c': "c' = c\<lparr>inserting_prepared_writes := bm_remove (fq_timestamp i) (inserting_prepared_writes c)\<rparr>"
    using assms(1) by (auto simp: fq_early_aborted_def)
  have "tablet_wf c'" using assms(2) by (auto simp: c' tablet_wf_def split: if_splits)
  moreover have "region_inv c'"
    by (rule region_inv_mono [OF assms(3)]) (auto simp: c' writes_at_def reads_at_def m_reads_at_def split: if_splits)
  ultimately show ?thesis by simp
qed

lemma fq_prepared_plm_inserted_ok:
  assumes "fq_prepared_plm_inserted i c = Some (i', c')" and "tablet_wf c" and "region_inv c"
    and "bm_get (inserting_prepared_writes c) (fq_timestamp i) = Some (fq_region_lock i)"
  shows "tablet_wf c' \<and> region_inv c'"
proof -
  have c': "c' = c\<lparr>inserting_prepared_writes := bm_remove (fq_timestamp i) (inserting_prepared_writes c),
      prepared_writes := bm_insert (fq_timestamp i) (fq_region_lock i) (prepared_writes c)\<rparr>"
    using assms(1) by (auto simp: fq_prepared_plm_inserted_def)
  have "tablet_wf c'" using assms(2,4) by (auto simp: c' tablet_wf_def split: if_splits)
  moreover have "region_inv c'"
    by (rule region_inv_mono [OF assms(3)])
      (auto simp: c' writes_at_def reads_at_def m_reads_at_def in_at assms(4) split: if_splits)
  ultimately show ?thesis by simp
qed

lemma fq_committed_plm_inserted_ok:
  assumes "fq_committed_plm_inserted qid i c = Some (i', c')" and "tablet_wf c" and "region_inv c"
  shows "tablet_wf c' \<and> region_inv c'"
proof -
  from assms(1) obtain lock where lock: "bm_get (prepared_writes c) (fq_timestamp i) = Some lock"
    and c': "c' = c\<lparr>t_storage := commit_to_storage (t_storage c) (fq_timestamp i) (fq_update_view i),
      prepared_writes := bm_remove (fq_timestamp i) (prepared_writes c),
      committed_writes := bm_insert (fq_timestamp i) lock (committed_writes c)\<rparr>"
    by (auto simp: fq_committed_plm_inserted_def bind_eq_Some_conv)
  have "bm_get (verifying_writes c) (fq_timestamp i) = None \<and> bm_get (inserting_prepared_writes c) (fq_timestamp i) = None"
    using assms(2) lock unfolding tablet_wf_def by (metis option.distinct(1) option.exhaust)
  then have "tablet_wf c'" using assms(2) by (auto simp: c' tablet_wf_def split: if_splits)
  moreover have "region_inv c'"
    by (rule region_inv_mono [OF assms(3)])
      (auto simp: c' writes_at_def reads_at_def m_reads_at_def in_at lock split: if_splits)
  ultimately show ?thesis by simp
qed

lemma fq_aborted_plm_inserted_ok:
  assumes "fq_aborted_plm_inserted i c = Some (i', c')" and "tablet_wf c" and "region_inv c"
  shows "tablet_wf c' \<and> region_inv c'"
proof -
  have c': "c' = c\<lparr>prepared_writes := bm_remove (fq_timestamp i) (prepared_writes c)\<rparr>"
    using assms(1) by (auto simp: fq_aborted_plm_inserted_def bind_eq_Some_conv)
  have "tablet_wf c'" using assms(2) by (auto simp: c' tablet_wf_def split: if_splits)
  moreover have "region_inv c'"
    by (rule region_inv_mono [OF assms(3)]) (auto simp: c' writes_at_def reads_at_def m_reads_at_def split: if_splits)
  ultimately show ?thesis by simp
qed

end
