(* ===== verification/Tablet_Main_Loop.thy ===== *)
theory Tablet_Main_Loop
  imports Tablet_Isolation
begin

text \<open>
  The main loop of a tablet (\<open>run_main_loop\<close> of \<open>src/src/tablet.rs\<close>) on the Region Isolation state alone: an
  iteration does not panic there, the loop ends when nothing is added between the iterations,
  every iteration keeps the isolation of the granted reads, and when the loop ends each request that still waits is in conflict with an undecided write before it.
\<close>

section \<open>The state the loop runs on\<close>

text \<open>The regions of a tablet are bounds of its key columns.\<close>

definition waiting_at :: "tablet_ctx \<Rightarrow> timestamp \<Rightarrow> read_region set" where
  "waiting_at c t =
     at (waiting_read_protected c) t asked \<union> at (verifying_writes c) t (\<lambda>v. asked (m_waiting_read_protected v))"

definition tablet_typed :: "tablet_ctx \<Rightarrow> bool" where
  "tablet_typed c \<longleftrightarrow>
     (\<forall>t. \<forall>w \<in> writes_at c t. region_typed (key_cols (t_schema c)) (wr_row_region w)) \<and>
     (\<forall>t. \<forall>r \<in> waiting_at c t. region_typed (key_cols (t_schema c)) (rr_row_region r))"

lemma tablet_typed_mono:
  assumes "tablet_typed c" and "key_cols (t_schema c') = key_cols (t_schema c)"
    and "\<And>t. writes_at c' t \<subseteq> writes_at c t" and "\<And>t. waiting_at c' t \<subseteq> waiting_at c t"
  shows "tablet_typed c'"
  using assms unfolding tablet_typed_def by (metis subsetD)

text \<open>An unprepared write belongs to a transaction at its timestamp.\<close>

definition ess_linked :: "(query_id, ms_query_es) btree \<Rightarrow> tablet_ctx \<Rightarrow> bool" where
  "ess_linked ess c \<longleftrightarrow>
     (\<forall>t v. bm_get (verifying_writes c) t = Some v \<longrightarrow>
        (\<exists>es. bm_get ess (v_orig_p v) = Some es \<and> ms_timestamp es = t))"

definition loop_ok :: "(query_id, ms_query_es) btree \<times> tablet_ctx \<Rightarrow> bool" where
  "loop_ok s \<longleftrightarrow> (case s of (ess, c) \<Rightarrow> tablet_wf c \<and> region_inv c \<and> tablet_typed c \<and> ess_linked ess c)"

text \<open>What is left to grant or abort.\<close>

definition load :: "tablet_ctx \<Rightarrow> nat" where
  "load c =
     length (waiting_locked_cols c) +
     (\<Sum>(t, reqs) \<leftarrow> waiting_read_protected c. length reqs) +
     (\<Sum>(t, v) \<leftarrow> verifying_writes c. Suc (length (m_waiting_read_protected v)))"

lemma sum_insert:
  assumes "bm_get m k = Some v" and "bm_wf m"
  shows "(\<Sum>(k, v) \<leftarrow> bm_insert k v' m. f k v) + f k v = (\<Sum>(k, v) \<leftarrow> m. f k v) + (f k v' :: nat)"
  using assms
proof (induction m)
  case (Cons e m)
  obtain a b where e: "e = (a, b)" by (cases e)
  have "a < k" if "k \<noteq> a"
    using Cons.prems that map_of_SomeD [of m k v] by (auto simp: e)
  with Cons show ?case by (cases "k = a") (auto simp: e)
qed simp

lemma sum_remove:
  assumes "bm_get m k = Some v" and "bm_wf m"
  shows "(\<Sum>(k, v) \<leftarrow> bm_remove k m. f k v) + f k v = (\<Sum>(k, v) \<leftarrow> m. (f k v :: nat))"
proof -
  have drop: "k \<notin> fst ` set xs \<Longrightarrow> bm_remove k xs = xs" for xs
    by (auto simp: bm_remove_def image_iff filter_id_conv)
  show ?thesis using assms
  proof (induction m)
    case (Cons e m)
    obtain a b where e: "e = (a, b)" by (cases e)
    show ?case
    proof (cases "a = k")
      case True
      with Cons.prems have "bm_remove k m = m" by (intro drop) (auto simp: e)
      with Cons.prems True show ?thesis by (simp add: e bm_remove_def)
    next
      case False
      with Cons show ?thesis by (simp add: e bm_remove_def)
    qed
  qed simp
qed

lemma length_remove:
  assumes "bm_get m k = Some v" and "bm_wf m"
  shows "length (bm_remove k m) < length m"
  using sum_remove [OF assms, of "\<lambda>_ _. 1"] by (simp add: case_prod_beta' sum_list_triv)

section \<open>The loop does not panic\<close>

lemma any_opt_some: "(\<And>x. x \<in> set xs \<Longrightarrow> f x \<noteq> None) \<Longrightarrow> \<exists>b. any_opt f xs = Some b"
  using any_opt_total [of xs f] by auto

lemma find_opt_some: "(\<And>x. x \<in> set xs \<Longrightarrow> f x \<noteq> None) \<Longrightarrow> \<exists>r. find_opt f xs = Some r"
  by (induction xs) (auto split: option.splits bool.splits)

lemma isolated_some:
  assumes "region_typed kcols (wr_row_region w)" and "region_typed kcols (rr_row_region r)"
  shows "is_surely_isolated w r \<noteq> None"
  using might_row_region_intersect_total [of "rr_row_region r" kcols "wr_row_region w"] assms
  by (simp add: is_surely_isolated_def region_typed_def)

lemma multiwrite_some:
  assumes "\<And>w. w \<in> set ws \<Longrightarrow> region_typed kcols (wr_row_region w)" and "region_typed kcols (rr_row_region r)"
  shows "is_surely_isolated_multiwrite ws r \<noteq> None"
  using any_opt_total [of ws "\<lambda>w. map_option Not (is_surely_isolated w r)"] isolated_some [OF assms(1) assms(2)]
  by (simp add: is_surely_isolated_multiwrite_def)

abbreviation typed_requests :: "(col_name \<times> col_type) list \<Rightarrow> requests \<Rightarrow> bool" where
  "typed_requests kcols reqs \<equiv> \<forall>(qid, region, orig) \<in> set reqs. region_typed kcols (rr_row_region region)"

lemma grantable_read_some:
  assumes "\<And>w. w \<in> set cum \<Longrightarrow> region_typed kcols (wr_row_region w)"
    and "\<forall>(t, reqs) \<in> set waiting. typed_requests kcols reqs"
  shows "\<exists>r. grantable_read cum waiting = Some r"
proof -
  have "\<exists>r. find_opt (\<lambda>(_, _, region, _). is_surely_isolated_multiwrite cum region) (flat_requests waiting) = Some r"
  proof (rule find_opt_some)
    fix x assume "x \<in> set (flat_requests waiting)"
    then obtain t qid region orig reqs where "x = (t, qid, region, orig)" "(t, reqs) \<in> set waiting" "(qid, region, orig) \<in> set reqs"
      using in_flat_requests by (metis surj_pair)
    with assms show "(case x of (_, _, region, _) \<Rightarrow> is_surely_isolated_multiwrite cum region) \<noteq> None"
      using multiwrite_some [of cum kcols region] by fastforce
  qed
  then show ?thesis by (auto simp: grantable_read_def)
qed

lemma cur_writes_loop_some:
  assumes "\<forall>(t, v) \<in> set ws. typed_requests kcols (m_waiting_read_protected v) \<and>
      (\<forall>w \<in> set (v_write_protected v). region_typed kcols (wr_row_region w))"
    and "\<And>w. w \<in> set cum \<Longrightarrow> region_typed kcols (wr_row_region w)"
    and "\<forall>(t, reqs) \<in> set waiting. typed_requests kcols reqs"
  shows "\<exists>r. cur_writes_loop waiting cum prev ws = Some r"
  using assms(1,2)
proof (induction ws arbitrary: cum prev)
  case Nil
  then show ?case using grantable_read_some [of cum kcols] assms(3) by auto
next
  case (Cons e ws)
  obtain cur v where e: "e = (cur, v)" by (cases e)
  have "\<exists>m. find_opt (\<lambda>(_, region, _). is_surely_isolated_multiwrite cum region) (m_waiting_read_protected v) = Some m"
    using Cons.prems multiwrite_some [of cum kcols] by (intro find_opt_some) (fastforce simp: e)
  then obtain m where m: "find_opt (\<lambda>(_, region, _). is_surely_isolated_multiwrite cum region) (m_waiting_read_protected v) = Some m" ..
  obtain r where r: "grantable_read cum (filter (\<lambda>(t, _). prev \<le> t \<and> t < cur) waiting) = Some r"
    using grantable_read_some [of cum kcols "filter (\<lambda>(t, _). prev \<le> t \<and> t < cur) waiting"] Cons.prems(2) assms(3) by auto
  have "\<exists>r. cur_writes_loop waiting (fold region_add (v_write_protected v) cum) cur ws = Some r"
    by (rule Cons.IH) (use Cons.prems in \<open>auto simp: e\<close>)
  then show ?case by (auto simp: e m r split: option.splits)
qed

lemma deadlock_loop_some:
  assumes "\<And>t v w. bm_get verifying t = Some v \<Longrightarrow> w \<in> set (v_write_protected v) \<Longrightarrow> region_typed kcols (wr_row_region w)"
    and "\<forall>(t, reqs) \<in> set waiting. typed_requests kcols reqs"
  shows "\<exists>r. deadlock_loop verifying waiting = Some r"
  using assms(2)
proof (induction waiting)
  case (Cons e waiting)
  obtain t reqs where e: "e = (t, reqs)" by (cases e)
  show ?case
  proof (cases "bm_get verifying t")
    case (Some v)
    have "\<exists>m. find_opt (\<lambda>(_, region, _). map_option Not (is_surely_isolated_multiwrite (v_write_protected v) region)) reqs = Some m"
      using Cons.prems multiwrite_some [of "v_write_protected v" kcols] assms(1) [OF Some]
      by (intro find_opt_some) (fastforce simp: e)
    with Cons Some show ?thesis by (auto simp: e split: option.splits)
  qed (use Cons in \<open>auto simp: e\<close>)
qed simp

text \<open>The typing of a tablet, on the lists the loops run over.\<close>

lemma tablet_typed_lists:
  assumes "tablet_typed c" and "tablet_wf c"
  shows "\<forall>(t, reqs) \<in> set (waiting_read_protected c). typed_requests (key_cols (t_schema c)) reqs"
    and "cur_write c t = Some v \<Longrightarrow> typed_requests (key_cols (t_schema c)) (m_waiting_read_protected v)"
    and "cur_write c t = Some v \<Longrightarrow> w \<in> set (v_write_protected v) \<Longrightarrow> region_typed (key_cols (t_schema c)) (wr_row_region w)"
proof -
  have "region_typed (key_cols (t_schema c)) (rr_row_region region)"
    if "(t, reqs) \<in> set (waiting_read_protected c)" "(qid, region, orig) \<in> set reqs" for t reqs qid region orig
  proof -
    have "region \<in> waiting_at c t" using waiting_get [OF assms(2) that] by (auto simp: waiting_at_def in_at asked_def)
    with assms(1) show ?thesis by (auto simp: tablet_typed_def)
  qed
  then show "\<forall>(t, reqs) \<in> set (waiting_read_protected c). typed_requests (key_cols (t_schema c)) reqs" by blast
  show "typed_requests (key_cols (t_schema c)) (m_waiting_read_protected v)" if v: "cur_write c t = Some v"
  proof clarify
    fix qid region orig assume "(qid, region, orig) \<in> set (m_waiting_read_protected v)"
    moreover from this have "bm_get (verifying_writes c) t = Some v" by (intro cur_write_waiting [OF v]) auto
    moreover from this have "bm_wf (m_waiting_read_protected v)" using assms(2) unfolding tablet_wf_def by blast
    ultimately have "region \<in> waiting_at c t" by (auto simp: waiting_at_def in_at asked_def bm_get_set)
    with assms(1) show "region_typed (key_cols (t_schema c)) (rr_row_region region)" by (auto simp: tablet_typed_def)
  qed
  show "region_typed (key_cols (t_schema c)) (wr_row_region w)" if "cur_write c t = Some v" "w \<in> set (v_write_protected v)"
    using assms(1) writes_at_cur [OF assms(2), of t] that unfolding tablet_typed_def by auto
qed

lemma region_action_some:
  assumes wf: "tablet_wf c" and typed: "tablet_typed c"
  shows "\<exists>r. region_action c = Some r"
proof -
  obtain ws where ws: "all_cur_writes c = Some ws" "bm_wf ws" "\<And>t. bm_get ws t = cur_write c t"
    using all_cur_writes_spec [OF wf] by blast
  note lists = tablet_typed_lists [OF typed wf]
  have cur: "(t, v) \<in> set ws \<Longrightarrow> cur_write c t = Some v" for t v using ws(2,3) by (simp add: bm_get_set)
  have loop: "\<exists>r. cur_writes_loop (waiting_read_protected c) (v_write_protected v) first rest = Some r"
    if "ws = (first, v) # rest" for first v rest
  proof (rule cur_writes_loop_some [OF _ _ lists(1)])
    show "\<forall>(t, v) \<in> set rest. typed_requests (key_cols (t_schema c)) (m_waiting_read_protected v) \<and>
        (\<forall>w \<in> set (v_write_protected v). region_typed (key_cols (t_schema c)) (wr_row_region w))"
    proof (rule ballI)
      fix e assume e: "e \<in> set rest"
      obtain t v' where tv: "e = (t, v')" by (cases e)
      with e that have "cur_write c t = Some v'" by (intro cur) simp
      from lists(2,3) [OF this] show "case e of (t, v) \<Rightarrow> typed_requests (key_cols (t_schema c)) (m_waiting_read_protected v) \<and>
        (\<forall>w \<in> set (v_write_protected v). region_typed (key_cols (t_schema c)) (wr_row_region w))"
        by (simp add: tv)
    qed
    fix w assume "w \<in> set (v_write_protected v)"
    with cur [of first v] that lists(3) show "region_typed (key_cols (t_schema c)) (wr_row_region w)" by auto
  qed
  have nonempty: "reqs \<noteq> []" if "filter (\<lambda>(t, _). t < first) (waiting_read_protected c) = (t, reqs) # es" for first t reqs es
  proof -
    have "(t, reqs) \<in> set (filter (\<lambda>(t, _). t < first) (waiting_read_protected c))" unfolding that by simp
    then show ?thesis using wf by (auto simp: tablet_wf_def bm_get_set)
  qed
  show ?thesis
    by (cases ws) (auto simp: region_action_def ws(1) dest: nonempty loop split: list.splits prod.splits)
qed

lemma main_loop_action_some:
  assumes "tablet_wf c" and "tablet_typed c"
  shows "\<exists>r. main_loop_action ddl c = Some r"
proof -
  obtain r where r: "region_action c = Some r" using region_action_some [OF assms] by blast
  have "cur_write c t = Some v" if "bm_get (verifying_writes c) t = Some v" for t v
    using that by (simp add: cur_write_def)
  then obtain r' where "deadlock_loop (verifying_writes c) (waiting_read_protected c) = Some r'"
    using deadlock_loop_some [OF _ tablet_typed_lists(1) [OF assms(2,1)], of "verifying_writes c"]
      tablet_typed_lists(3) [OF assms(2,1)] by blast
  with r show ?thesis by (auto simp: main_loop_action_def split: option.splits)
qed

section \<open>What the loop picks\<close>

lemma locked_cols_loop_Some:
  "locked_cols_loop c ddl reqs = Some a \<Longrightarrow>
     \<exists>(qid, req) \<in> set reqs. a \<in> {Grant_Global_Cols qid, Grant_Local_Cols qid, Grant_Table_Dropped qid}"
  by (induction reqs) (auto simp: locked_cols_action_def Let_def split: option.splits if_splits ddl_es.splits)

lemma locked_cols_loop_None:
  "locked_cols_loop c ddl reqs = None \<longleftrightarrow> (\<forall>(qid, req) \<in> set reqs. locked_cols_action c ddl qid req = None)"
  by (induction reqs) (auto split: option.splits)

lemma deadlock_loop_Some:
  "deadlock_loop verifying waiting = Some (Some a) \<Longrightarrow> \<exists>t v. bm_get verifying t = Some v \<and> a = Deadlock_Abort (v_orig_p v) t"
proof (induction waiting)
  case (Cons e waiting)
  obtain t reqs where e: "e = (t, reqs)" by (cases e)
  from Cons.prems Cons.IH show ?case
    by (cases "bm_get verifying t") (auto simp: e bind_eq_Some_conv split: option.splits)
qed simp

lemma deadlock_loop_None:
  assumes "deadlock_loop verifying waiting = Some None" and "(t, reqs) \<in> set waiting" and "(qid, region, orig) \<in> set reqs"
    and v: "bm_get verifying t = Some v" and w: "w \<in> set (v_write_protected v)"
  shows "isolated w region"
  using assms(1,2)
proof (induction waiting)
  case (Cons e waiting)
  have rest: "deadlock_loop verifying waiting = Some None"
    using Cons.prems(1) by (cases e) (auto simp: bind_eq_Some_conv split: option.splits)
  show ?case
  proof (cases "e = (t, reqs)")
    case True
    have "find_opt (\<lambda>(_, region, _). map_option Not (is_surely_isolated_multiwrite (v_write_protected v) region)) reqs = Some None"
      using Cons.prems(1) v by (auto simp: True bind_eq_Some_conv split: option.splits) (metis not_Some_eq surj_pair)
    with assms(3) have "is_surely_isolated_multiwrite (v_write_protected v) region = Some True"
      by (auto simp: find_opt_None map_option_Not)
    with w show ?thesis by (simp add: multiwrite_iff)
  qed (use Cons rest in auto)
qed simp

section \<open>An iteration\<close>

text \<open>The loop has nothing left to do.\<close>

definition loop_settled :: "ddl_es \<Rightarrow> tablet_ctx \<Rightarrow> bool" where
  "loop_settled ddl c \<longleftrightarrow>
     (\<forall>qid req. bm_get (waiting_locked_cols c) qid = Some req \<longrightarrow> locked_cols_action c ddl qid req = None) \<and>
     (\<forall>t reqs qid region orig. bm_get (waiting_read_protected c) t = Some reqs \<longrightarrow> bm_get reqs qid = Some (region, orig) \<longrightarrow>
        (\<exists>t' \<le> t. \<exists>w \<in> writes_at c t'. \<not> isolated w region) \<and>
        (\<forall>v. bm_get (verifying_writes c) t = Some v \<longrightarrow> (\<forall>w \<in> set (v_write_protected v). isolated w region))) \<and>
     (\<forall>t v qid region orig. bm_get (verifying_writes c) t = Some v \<longrightarrow> bm_get (m_waiting_read_protected v) qid = Some (region, orig) \<longrightarrow>
        (\<exists>t' < t. \<exists>w \<in> writes_at c t'. \<not> isolated w region))"

lemma main_loop_settled:
  assumes wf: "tablet_wf c" and act: "main_loop_action ddl c = Some None"
  shows "loop_settled ddl c"
proof -
  have cols: "locked_cols_loop c ddl (waiting_locked_cols c) = None" and reg: "region_action c = Some None"
    and dead: "deadlock_loop (verifying_writes c) (waiting_read_protected c) = Some None"
    using act by (auto simp: main_loop_action_def bind_eq_Some_conv split: option.splits)
  have "locked_cols_action c ddl qid req = None" if "bm_get (waiting_locked_cols c) qid = Some req" for qid req
    using cols map_of_SomeD [OF that] by (auto simp: locked_cols_loop_None)
  moreover have "isolated w region" if "bm_get (waiting_read_protected c) t = Some reqs" "bm_get reqs qid = Some (region, orig)"
    "bm_get (verifying_writes c) t = Some v" "w \<in> set (v_write_protected v)" for t reqs qid region orig v w
    by (rule deadlock_loop_None [OF dead map_of_SomeD [OF that(1)] map_of_SomeD [OF that(2)] that(3,4)])
  ultimately show ?thesis using region_action_complete [OF wf reg] unfolding loop_settled_def by blast
qed

text \<open>A request that is granted leaves its waiting map; an aborted transaction leaves with its write.\<close>

lemma sum_request_remove:
  assumes "requests_remove t qid m = Some (req, m')" and "bm_wf m" and "\<And>reqs. bm_get m t = Some reqs \<Longrightarrow> bm_wf reqs"
  shows "(\<Sum>(t, reqs) \<leftarrow> m'. length reqs) < (\<Sum>(t, reqs) \<leftarrow> m. length reqs)"
proof -
  from assms(1) obtain reqs where r: "bm_get m t = Some reqs" "bm_get reqs qid = Some req"
    and m': "m' = (if bm_remove qid reqs = [] then bm_remove t m else bm_insert t (bm_remove qid reqs) m)"
    by (auto simp: requests_remove_def bind_eq_Some_conv Let_def split: if_splits)
  have len: "length (bm_remove qid reqs) < length reqs" by (rule length_remove [OF r(2) assms(3) [OF r(1)]])
  have rem: "(\<Sum>(t, reqs) \<leftarrow> bm_remove t m. length reqs) + length reqs = (\<Sum>(t, reqs) \<leftarrow> m. length reqs)"
    by (rule sum_remove [OF r(1) assms(2)])
  have ins: "(\<Sum>(t, reqs) \<leftarrow> bm_insert t (bm_remove qid reqs) m. length reqs) + length reqs =
      (\<Sum>(t, reqs) \<leftarrow> m. length reqs) + length (bm_remove qid reqs)"
    by (rule sum_insert [OF r(1) assms(2)])
  show ?thesis
  proof (cases "bm_remove qid reqs = []")
    case True
    then have eq: "m' = bm_remove t m" by (simp add: m')
    from rem len show ?thesis unfolding eq by linarith
  next
    case False
    then have eq: "m' = bm_insert t (bm_remove qid reqs) m" by (simp add: m')
    from ins len show ?thesis unfolding eq by linarith
  qed
qed

lemma waiting_remove:
  assumes "requests_remove t qid m = Some (req, m')"
  shows "at m' t' asked \<subseteq> at m t' asked"
proof -
  from assms obtain reqs where "bm_get m t = Some reqs"
    and "m' = (if bm_remove qid reqs = [] then bm_remove t m else bm_insert t (bm_remove qid reqs) m)"
    by (auto simp: requests_remove_def bind_eq_Some_conv Let_def split: if_splits)
  then show ?thesis using asked_remove [of qid reqs] by (auto simp: at_def split: if_splits)
qed

lemma grant_read_step:
  assumes g: "grant_local_read_protected t qid c = Some (told, c')" and ok: "loop_ok (ess, c)"
    and gr: "grant_ok c (Grant_Read t qid)"
  shows "loop_ok (ess, c') \<and> load c' < load c"
proof -
  from g obtain req m where m: "requests_remove t qid (waiting_read_protected c) = Some (req, m)"
    and c': "c' = push_plm (PLm_ReadProtected qid t (fst req)) (c\<lparr>waiting_read_protected := m,
      inserting_read_protected := requests_insert t qid req (inserting_read_protected c)\<rparr>)"
    by (auto simp: grant_local_read_protected_def remove_read_protected_request_def bind_eq_Some_conv)
  have wf: "tablet_wf c" "region_inv c" "tablet_typed c" "ess_linked ess c" using ok by (auto simp: loop_ok_def)
  have "tablet_typed c'"
    by (rule tablet_typed_mono [OF wf(3)])
      (use waiting_remove [OF m] in \<open>auto simp: c' push_plm_def writes_at_def waiting_at_def\<close>)
  moreover have "ess_linked ess c'" using wf(4) by (simp add: ess_linked_def c' push_plm_def)
  moreover have "load c' < load c"
    using sum_request_remove [OF m] wf(1) by (auto simp: load_def c' push_plm_def tablet_wf_def)
  ultimately show ?thesis using grant_local_read_protected_ok [OF g gr wf(1,2)] by (simp add: loop_ok_def)
qed

lemma grant_m_read_step:
  assumes g: "grant_m_local_read_protected t qid c = Some (told, c')" and ok: "loop_ok (ess, c)"
    and gr: "grant_ok c (Grant_M_Read t qid)"
  shows "loop_ok (ess, c') \<and> load c' < load c"
proof -
  from g obtain v req where v: "bm_get (verifying_writes c) t = Some v" "bm_get (m_waiting_read_protected v) qid = Some req"
    and c': "c' = c\<lparr>verifying_writes := bm_insert t
      (v\<lparr>m_waiting_read_protected := bm_remove qid (m_waiting_read_protected v),
         v_read_protected := region_add (fst req) (v_read_protected v)\<rparr>) (verifying_writes c)\<rparr>"
    by (auto simp: grant_m_local_read_protected_def bind_eq_Some_conv)
  have wf: "tablet_wf c" "region_inv c" "tablet_typed c" "ess_linked ess c" using ok by (auto simp: loop_ok_def)
  have "tablet_typed c'"
    by (rule tablet_typed_mono [OF wf(3)])
      (use asked_remove [of qid "m_waiting_read_protected v"] in \<open>auto simp: c' writes_at_def waiting_at_def at_def v\<close>)
  moreover have "ess_linked ess c'" using wf(4) v by (auto simp: ess_linked_def c')
  moreover have "bm_wf (verifying_writes c)" "bm_wf (m_waiting_read_protected v)" using wf(1) v unfolding tablet_wf_def by auto
  then have "load c' < load c"
    using sum_insert [OF v(1), where f = "\<lambda>t v. Suc (length (m_waiting_read_protected v))"
        and v' = "v\<lparr>m_waiting_read_protected := bm_remove qid (m_waiting_read_protected v),
          v_read_protected := region_add (fst req) (v_read_protected v)\<rparr>"] length_remove [OF v(2)]
    by (simp add: load_def c')
  ultimately show ?thesis using grant_m_local_read_protected_ok [OF g gr wf(1,2)] by (simp add: loop_ok_def)
qed

lemma exit_ms_query_es_step:
  assumes v: "bm_get (verifying_writes c) t = Some v" and ok: "loop_ok (ess, c)"
  shows "\<exists>ess' c'. exit_ms_query_es (v_orig_p v) ess c = Some (ess', c') \<and> loop_ok (ess', c') \<and> load c' < load c"
proof -
  have wf: "tablet_wf c" "region_inv c" "tablet_typed c" "ess_linked ess c" using ok by (auto simp: loop_ok_def)
  from wf(4) v obtain es where es: "bm_get ess (v_orig_p v) = Some es" "ms_timestamp es = t"
    unfolding ess_linked_def by blast
  define c' where "c' = c\<lparr>ms_root_query_map := bm_remove (ms_root_query_id es) (ms_root_query_map c),
    verifying_writes := bm_remove t (verifying_writes c)\<rparr>"
  have ex: "exit_ms_query_es (v_orig_p v) ess c = Some (bm_remove (v_orig_p v) ess, c')"
    by (simp add: exit_ms_query_es_def es c'_def)
  have "tablet_typed c'"
    by (rule tablet_typed_mono [OF wf(3)]) (auto simp: c'_def writes_at_def waiting_at_def at_def split: if_splits)
  moreover have "ess_linked (bm_remove (v_orig_p v) ess) c'"
    using wf(4) es by (fastforce simp: ess_linked_def c'_def split: if_splits)
  moreover have "load c' < load c"
    using sum_remove [OF v, where f = "\<lambda>t v. Suc (length (m_waiting_read_protected v))"] wf(1)
    by (simp add: load_def c'_def tablet_wf_def)
  ultimately show ?thesis using exit_ms_query_es_ok [OF ex wf(1,2)] ex by (auto simp: loop_ok_def)
qed

lemma cols_step:
  assumes ok: "loop_ok (ess, c)" and w: "bm_get (waiting_locked_cols c) qid = Some req" and il: "bm_wf il"
  shows "loop_ok (ess, c\<lparr>waiting_locked_cols := bm_remove qid (waiting_locked_cols c), inserting_locked_cols := il, tablet_bundle := b\<rparr>) \<and>
    load (c\<lparr>waiting_locked_cols := bm_remove qid (waiting_locked_cols c), inserting_locked_cols := il, tablet_bundle := b\<rparr>) < load c"
proof -
  let ?c = "c\<lparr>waiting_locked_cols := bm_remove qid (waiting_locked_cols c), inserting_locked_cols := il, tablet_bundle := b\<rparr>"
  have wf: "tablet_wf c" "region_inv c" "tablet_typed c" "ess_linked ess c" using ok by (auto simp: loop_ok_def)
  have "bm_wf (waiting_locked_cols c)" using wf(1) by (simp add: tablet_wf_def)
  note 1 = locked_cols_ok [OF wf(1,2) bm_wf_remove [OF this] il, where b = b] and 2 = length_remove [OF w this]
  have "tablet_typed ?c" by (rule tablet_typed_mono [OF wf(3)]) (auto simp: writes_at_def waiting_at_def)
  moreover have "ess_linked ess ?c" using wf(4) by (simp add: ess_linked_def)
  moreover have "load ?c < load c" using 2 by (simp add: load_def)
  ultimately show ?thesis using 1 by (simp add: loop_ok_def)
qed

lemma iteration_ok:
  assumes ok: "loop_ok (ess, c)"
  obtains (stop) "run_main_loop_iteration ddl (ess, c) = Some None" "loop_settled ddl c"
  | (step) told ess' c' where "run_main_loop_iteration ddl (ess, c) = Some (Some (told, ess', c'))"
      "loop_ok (ess', c')" "load c' < load c"
proof -
  have wf: "tablet_wf c" "region_inv c" "tablet_typed c" using ok by (auto simp: loop_ok_def)
  obtain r where r: "main_loop_action ddl c = Some r" using main_loop_action_some [OF wf(1,3)] by blast
  show thesis
  proof (cases r)
    case None
    with r main_loop_settled [OF wf(1)] show thesis by (intro stop) (simp_all add: run_main_loop_iteration_def)
  next
    case (Some a)
    consider (cols) "locked_cols_loop c ddl (waiting_locked_cols c) = Some a"
      | (region) "region_action c = Some (Some a)"
      | (deadlock) "deadlock_loop (verifying_writes c) (waiting_read_protected c) = Some (Some a)"
      using r Some by (auto simp: main_loop_action_def bind_eq_Some_conv split: option.splits)
    then show thesis
    proof cases
      case cols
      then obtain qid req where q: "(qid, req) \<in> set (waiting_locked_cols c)"
        and a: "a \<in> {Grant_Global_Cols qid, Grant_Local_Cols qid, Grant_Table_Dropped qid}"
        using locked_cols_loop_Some by fastforce
      then have w: "bm_get (waiting_locked_cols c) qid = Some req" using wf(1) by (simp add: tablet_wf_def bm_get_set)
      have il: "bm_wf (inserting_locked_cols c)" using wf(1) by (simp add: tablet_wf_def)
      note 1 = cols_step [OF ok w il, of "tablet_bundle c", simplified]
      note 2 = cols_step [OF ok w bm_wf_insert [OF il, where k = qid and v = req],
        where b = "tablet_bundle c @ [PLm_LockedCols qid (lc_timestamp req) (lc_cols req)]"]
      from a 1 2 show thesis
        by (auto simp: run_main_loop_iteration_def r Some w grant_local_locked_cols_def push_plm_def intro!: step)
    next
      case region
      from region_action_sound [OF wf(1) this] have gr: "grant_ok c a" .
      then consider (read) t qid where "a = Grant_Read t qid" | (m_read) t qid where "a = Grant_M_Read t qid"
        unfolding grant_ok_def by blast
      then show thesis
      proof cases
        case read
        with gr obtain told c' where g: "grant_local_read_protected t qid c = Some (told, c')"
          by (auto simp: grant_ok_def grant_local_read_protected_def remove_read_protected_request_def requests_remove_def Let_def)
        with grant_read_step [OF g ok] gr read show thesis by (intro step) (auto simp: run_main_loop_iteration_def r Some)
      next
        case m_read
        with gr obtain told c' where g: "grant_m_local_read_protected t qid c = Some (told, c')"
          by (auto simp: grant_ok_def grant_m_local_read_protected_def)
        with grant_m_read_step [OF g ok] gr m_read show thesis by (intro step) (auto simp: run_main_loop_iteration_def r Some)
      qed
    next
      case deadlock
      from deadlock_loop_Some [OF this] obtain t v where v: "bm_get (verifying_writes c) t = Some v"
        and a: "a = Deadlock_Abort (v_orig_p v) t" by blast
      from exit_ms_query_es_step [OF v ok] a show thesis
        by (elim exE conjE, intro step) (auto simp: run_main_loop_iteration_def r Some)
    qed
  qed
qed

lemma run_main_loop_ok:
  assumes "loop_ok (ess, c)"
  shows "\<exists>told ess' c'. run_main_loop ddl (ess, c) = Some (told, ess', c') \<and> loop_ok (ess', c') \<and> loop_settled ddl c'"
  using assms
proof (induction "load c" arbitrary: ess c rule: less_induct)
  case less
  from less.prems show ?case
  proof (cases rule: iteration_ok [of _ _ ddl])
    case stop
    with less.prems show ?thesis by (auto simp: run_main_loop.simps [of ddl "(ess, c)"])
  next
    case (step told ess' c')
    from less.hyps [OF step(3,2)] obtain told' ess'' c'' where
      "run_main_loop ddl (ess', c') = Some (told', ess'', c'')" "loop_ok (ess'', c'')" "loop_settled ddl c''" by blast
    with step(1) show ?thesis by (auto simp: run_main_loop.simps [of ddl "(ess, c)"])
  qed
qed

text \<open>A tablet with an unprepared write of all rows at timestamp 5 and reads that wait at 3 and at 7.\<close>

definition ex_all :: read_region where
  "ex_all = \<lparr>rr_row_region = [[PCB_Int (mk_col_bound Unbounded Unbounded)]], rr_val_col_region = [''v'']\<rparr>"

definition ex_leader :: endpoint_id where
  "ex_leader = EndpointId ''e'' Internal"

definition ex_tablet :: tablet_ctx where
  "ex_tablet =
     \<lparr>t_this_sid = ''s'', t_this_tid = ''t'', t_this_eid = ex_leader, t_leader_map = [(SlaveGid ''s'', mk_first ex_leader)],
      t_storage = [], t_schema = ex_schema, presence_timestamp = mk_t 0,
      verifying_writes = [(mk_t 5, \<lparr>v_orig_p = ''q'', m_waiting_read_protected = [(''m'', ex_all, ''q'')], v_read_protected = [],
        v_write_protected = [\<lparr>wr_row_region = rr_row_region ex_all, wr_presence = True, wr_val_col_region = [''v'']\<rparr>]\<rparr>)],
      inserting_prepared_writes = [], prepared_writes = [], committed_writes = [],
      waiting_read_protected = [(mk_t 3, [(''a'', ex_all, ''x'')]), (mk_t 7, [(''b'', ex_all, ''y'')])],
      inserting_read_protected = [], read_protected = [], waiting_locked_cols = [], inserting_locked_cols = [],
      ms_root_query_map = [(''r'', ''q'')], tablet_bundle = []\<rparr>"

definition ex_ess :: "(query_id, ms_query_es) btree" where
  "ex_ess = [(''q'', \<lparr>ms_root_query_id = ''r'', ms_sharding_gen = 0, ms_root_lid = mk_first ex_leader, ms_timestamp = mk_t 5,
     ms_update_views = [], pending_queries = [''m'']\<rparr>)]"

lemma ex_loop_ok: "loop_ok (ex_ess, ex_tablet)"
proof -
  have kc: "key_cols ex_schema = ex_kcols" by (simp add: ex_schema_def)
  have ty: "region_typed ex_kcols [[PCB_Int (mk_col_bound Unbounded Unbounded)]]" by (simp add: ex_simps)
  have t: "mk_t 3 < mk_t 7" by code_simp
  have "tablet_wf ex_tablet" using t by (simp add: tablet_wf_def ex_tablet_def)
  moreover have "region_inv ex_tablet" by (simp add: region_inv_def ex_tablet_def reads_at_def m_reads_at_def in_at)
  moreover have "tablet_typed ex_tablet" using ty
    by (auto simp: tablet_typed_def ex_tablet_def kc writes_at_def waiting_at_def in_at asked_def ex_all_def split: if_splits)
  moreover have "ess_linked ex_ess ex_tablet" by (simp add: ess_linked_def ex_tablet_def ex_ess_def)
  ultimately show ?thesis by (simp add: loop_ok_def)
qed

end
