(* ===== verification/Paxos2PC_Contract.thy ===== *)
theory Paxos2PC_Contract
  imports Paxos2PC
begin

text \<open>
  What the resource managers of \<open>src/src/paxos2pc_rm.rs\<close> need of an application and what they
  promise it: the contract of the trait \<open>Paxos2PCRMInner\<close> as a locale. The application holds a
  resource for every transaction (for a tablet, the region lock at the timestamp), unprepared
  first and prepared later. The container of state machines then calls the callbacks only in the
  states they are meant for, and inserts into the log only entries that are expected when they are
  learned, so learning them never panics.
\<close>

section \<open>The state of a container\<close>

definition same_env ::
  "('c, 'x, 'i, 'q, 'p, 'k, 'a, 'r, 't) rm_inner \<Rightarrow> 'c \<Rightarrow> 'c \<Rightarrow> bool" where
  "same_env ops c c' \<longleftrightarrow>
     rm_node_path ops c' = rm_node_path ops c \<and> rm_is_leader ops c' = rm_is_leader ops c \<and>
     rm_leader_map ops c' = rm_leader_map ops c"

fun unprepared :: "rm_state \<Rightarrow> bool" where
  "unprepared (WaitingInsertingPrepared _) = True"
| "unprepared (InsertingPrepared _) = True"
| "unprepared InsertingPreparedAborted = True"
| "unprepared _ = False"

definition out_ok ::
  "('c, 'x, 'i, 'q, 'p, 'k, 'a, 'r, 't) rm_inner \<Rightarrow> ('i \<Rightarrow> 'c \<Rightarrow> bool) \<Rightarrow> ('i \<Rightarrow> 'c \<Rightarrow> bool) \<Rightarrow> 'c \<Rightarrow> query_id \<Rightarrow> ('i, 'r, 't) rm_outer \<Rightarrow> bool" where
  "out_ok ops pend prep c qid out =
     (case out of
        RM_Exec es \<Rightarrow>
          rx_query_id es = qid \<and> bm_get (rm_leader_map ops c) (tm_to_gid ops (rx_tm es)) \<noteq> None \<and>
          (if unprepared (rx_state es) then pend (rx_inner es) c else prep (rx_inner es) c)
      | _ \<Rightarrow> True)"

definition con_ok ::
  "('c, 'x, 'i, 'q, 'p, 'k, 'a, 'r, 't) rm_inner \<Rightarrow> ('i \<Rightarrow> 'c \<Rightarrow> bool) \<Rightarrow> ('i \<Rightarrow> 'c \<Rightarrow> bool) \<Rightarrow> ('i \<Rightarrow> 's) \<Rightarrow> 'c \<Rightarrow> (query_id, ('i, 'r, 't) rm_outer) btree \<Rightarrow> bool" where
  "con_ok ops pend prep slot c con \<longleftrightarrow>
     bm_wf con \<and>
     (\<forall>qid out. bm_get con qid = Some out \<longrightarrow> out_ok ops pend prep c qid out) \<and>
     (\<forall>qid qid' es es'. bm_get con qid = Some (RM_Exec es) \<longrightarrow> bm_get con qid' = Some (RM_Exec es') \<longrightarrow> qid \<noteq> qid' \<longrightarrow>
        slot (rx_inner es) \<noteq> slot (rx_inner es'))"

fun plm_qid :: "('p, 'k, 'a, 'r, 't) rm_plm \<Rightarrow> query_id" where
  "plm_qid (RM_PreparedPLm qid _ _ _) = qid"
| "plm_qid (RM_CommittedPLm qid _) = qid"
| "plm_qid (RM_AbortedPLm qid _) = qid"

text \<open>A log entry that a state machine waits for.\<close>

definition due ::
  "('c, 'x, 'i, 'q, 'p, 'k, 'a, 'r, 't) rm_inner \<Rightarrow> ('i, 'r, 't) rm_outer \<Rightarrow> ('p, 'k, 'a, 'r, 't) rm_plm \<Rightarrow> bool" where
  "due ops out plm =
     (case out of
        RM_Exec es \<Rightarrow>
          plm_qid plm = rx_query_id es \<and>
          (case plm of
             RM_PreparedPLm _ tm rms p \<Rightarrow>
               tm = rx_tm es \<and> rms = rx_rms es \<and> ((\<exists>lid. rx_state es = InsertingPrepared lid) \<or> rx_state es = InsertingPreparedAborted) \<and>
               (\<forall>d. inner_new_follower ops p d = Some (rx_inner es, d))
           | RM_CommittedPLm _ _ \<Rightarrow> rx_state es = InsertingCommitted
           | RM_AbortedPLm _ _ \<Rightarrow> rx_state es = InsertingAborted)
      | _ \<Rightarrow> False)"

lemma due_Exec: "due ops out plm \<Longrightarrow> \<exists>es. out = RM_Exec es"
  by (cases out) (auto simp: due_def)

definition plm_due ::
  "('c, 'x, 'i, 'q, 'p, 'k, 'a, 'r, 't) rm_inner \<Rightarrow> (query_id, ('i, 'r, 't) rm_outer) btree \<Rightarrow> ('p, 'k, 'a, 'r, 't) rm_plm \<Rightarrow> bool" where
  "plm_due ops con plm \<longleftrightarrow> (\<exists>out. bm_get con (plm_qid plm) = Some out \<and> due ops out plm)"

text \<open>What a handler inserts into the log.\<close>

definition pushes :: "('p, 'k, 'a, 'r, 't) rm_effect list \<Rightarrow> ('p, 'k, 'a, 'r, 't) rm_plm list" where
  "pushes effs = concat (map (\<lambda>e. case e of Push plm \<Rightarrow> [plm] | To_TM _ _ \<Rightarrow> []) effs)"

lemma pushes_simps [simp]:
  "pushes [] = []" "pushes (Push plm # effs) = plm # pushes effs" "pushes (To_TM tm msg # effs) = pushes effs"
  by (simp_all add: pushes_def)

definition act_put ::
  "p2pc_action \<Rightarrow> query_id \<Rightarrow> (query_id, 'v) btree \<Rightarrow> (query_id, 'v) btree" where
  "act_put act qid con = (case act of P2PC_Wait \<Rightarrow> con | P2PC_Exit \<Rightarrow> bm_remove qid con)"

definition frame ::
  "('i \<Rightarrow> 'c \<Rightarrow> bool) \<Rightarrow> ('i \<Rightarrow> 'c \<Rightarrow> bool) \<Rightarrow> ('i \<Rightarrow> 's) \<Rightarrow> 's \<Rightarrow> 'c \<Rightarrow> 'c \<Rightarrow> bool" where
  "frame pend prep slot s c c' \<longleftrightarrow>
     (\<forall>j. slot j \<noteq> s \<longrightarrow> (pend j c \<longrightarrow> pend j c') \<and> (prep j c \<longrightarrow> prep j c'))"

lemma frame_refl [simp]: "frame pend prep slot s c c"
  by (simp add: frame_def)

lemma frame_trans: "frame pend prep slot s a b \<Longrightarrow> frame pend prep slot s b c \<Longrightarrow> frame pend prep slot s a c"
  by (simp add: frame_def)

section \<open>The contract\<close>

locale rm_contract =
  fixes ops :: "('c, 'x, 'i, 'q, 'p, 'k, 'a, 'r, 't) rm_inner"
    and cinv :: "'x \<Rightarrow> 'c \<Rightarrow> bool"
    and pend :: "'i \<Rightarrow> 'c \<Rightarrow> bool"
    and prep :: "'i \<Rightarrow> 'c \<Rightarrow> bool"
    and slot :: "'i \<Rightarrow> 's"
    and keeps :: "'c \<Rightarrow> 'c \<Rightarrow> bool"
  assumes keeps_refl: "keeps c c"
    and keeps_trans: "keeps c c' \<Longrightarrow> keeps c' c'' \<Longrightarrow> keeps c c''"
    and keeps_env: "keeps c c' \<Longrightarrow> same_env ops c c'"
    and new_None: "inner_new ops q x c = Some (None, x', c') \<Longrightarrow> x' = x \<and> c' = c"
    and new_Some: "cinv x c \<Longrightarrow> inner_new ops q x c = Some (Some i, x', c') \<Longrightarrow>
      cinv x' c' \<and> keeps c c' \<and> frame pend prep slot (slot i) c c' \<and> pend i c' \<and>
      (\<forall>j. pend j c \<or> prep j c \<longrightarrow> slot j \<noteq> slot i)"
    and early: "cinv x c \<Longrightarrow> pend i c \<Longrightarrow>
      \<exists>c'. early_aborted ops i c = Some (i, c') \<and> cinv x c' \<and> keeps c c' \<and> frame pend prep slot (slot i) c c'"
    and mk_prepared: "\<exists>p. mk_prepared_plm ops i c = Some (p, i, c) \<and> (\<forall>d. inner_new_follower ops p d = Some (i, d))"
    and prepared: "cinv x c \<Longrightarrow> pend i c \<Longrightarrow>
      \<exists>c'. prepared_plm_inserted ops i c = Some (i, c') \<and> cinv x c' \<and> keeps c c' \<and> frame pend prep slot (slot i) c c' \<and> prep i c'"
    and mk_committed: "\<exists>k. mk_committed_plm ops i c = Some (k, i, c)"
    and committed: "cinv x c \<Longrightarrow> prep i c \<Longrightarrow>
      \<exists>c'. committed_plm_inserted ops qid i c = Some (i, c') \<and> cinv x c' \<and> keeps c c' \<and> frame pend prep slot (slot i) c c'"
    and mk_aborted: "\<exists>a. mk_aborted_plm ops i c = Some (a, i, c)"
    and aborted: "cinv x c \<Longrightarrow> prep i c \<Longrightarrow>
      \<exists>c'. aborted_plm_inserted ops i c = Some (i, c') \<and> cinv x c' \<and> keeps c c' \<and> frame pend prep slot (slot i) c c'"
    and snapshot: "inner_reconfig_snapshot ops i = i"
begin

abbreviation ok where "ok \<equiv> out_ok ops pend prep"
abbreviation cok where "cok \<equiv> con_ok ops pend prep slot"
abbreviation apart where "apart \<equiv> frame pend prep slot"

text \<open>A step of one state machine: what it leaves of the others and of the log.\<close>

definition step_ok ::
  "'x \<Rightarrow> 'c \<Rightarrow> query_id \<Rightarrow> ('i, 'r, 't) rm_outer \<Rightarrow> ('p, 'k, 'a, 'r, 't) rm_effect list \<Rightarrow> 'c
    \<Rightarrow> ('i, 'r, 't) rm_outer \<Rightarrow> p2pc_action \<Rightarrow> bool" where
  "step_ok x c qid out effs c' out' act \<longleftrightarrow>
     cinv x c' \<and> keeps c c' \<and>
     (act = P2PC_Wait \<longrightarrow> ok c' qid out') \<and>
     (\<forall>j. (\<forall>es. out = RM_Exec es \<longrightarrow> slot (rx_inner es) \<noteq> slot j) \<longrightarrow> (pend j c \<longrightarrow> pend j c') \<and> (prep j c \<longrightarrow> prep j c')) \<and>
     (\<forall>es'. out' = RM_Exec es' \<longrightarrow> (\<exists>es. out = RM_Exec es \<and> slot (rx_inner es') = slot (rx_inner es))) \<and>
     (pushes effs = [] \<or> act = P2PC_Wait \<and> (\<exists>plm. pushes effs = [plm] \<and> plm_qid plm = qid \<and> due ops out' plm))"

text \<open>
  A step that needs no log entry: the entries that were due still are, an entry is inserted only
  when none was due, and what is persisted of the machine stays.
\<close>

definition quiet ::
  "('i, 'r, 't) rm_outer \<Rightarrow> ('p, 'k, 'a, 'r, 't) rm_effect list \<Rightarrow> ('i, 'r, 't) rm_outer \<Rightarrow> p2pc_action \<Rightarrow> bool" where
  "quiet out effs out' act \<longleftrightarrow>
     (\<forall>plm. due ops out plm \<longrightarrow> act = P2PC_Wait \<and> due ops out' plm) \<and>
     (pushes effs \<noteq> [] \<longrightarrow> (\<forall>plm. \<not> due ops out plm)) \<and>
     (case act of P2PC_Wait \<Rightarrow> rm_reconfig_snapshot ops out' | P2PC_Exit \<Rightarrow> None) = rm_reconfig_snapshot ops out"

lemmas step_simps = step_ok_def quiet_def keeps_refl out_ok_def due_def rm_reconfig_snapshot_def snapshot

lemma ok_keeps: "ok c qid out \<Longrightarrow> keeps c c' \<Longrightarrow>
   (\<forall>es. out = RM_Exec es \<longrightarrow> (pend (rx_inner es) c \<longrightarrow> pend (rx_inner es) c') \<and> (prep (rx_inner es) c \<longrightarrow> prep (rx_inner es) c')) \<Longrightarrow>
   ok c' qid out"
  using keeps_env [of c c'] by (auto simp: out_ok_def same_env_def split: rm_outer.splits if_splits)

lemma step_ok_refl: "cinv x c \<Longrightarrow> ok c qid out \<Longrightarrow> pushes effs = [] \<Longrightarrow> step_ok x c qid out effs c out act"
  by (simp add: step_ok_def keeps_refl)

lemma quiet_refl: "pushes effs = [] \<Longrightarrow> quiet out effs out P2PC_Wait"
  by (simp add: quiet_def)

text \<open>The handlers of the messages.\<close>

lemma handle_commit_ok:
  assumes "cinv x c" and "ok c qid out"
  shows "\<exists>effs out'. rm_handle_commit ops c out = Some (effs, c, out', P2PC_Wait) \<and> step_ok x c qid out effs c out' P2PC_Wait \<and>
    quiet out effs out' P2PC_Wait"
proof (cases "\<exists>es. out = RM_Exec es \<and> rx_state es = Prepared")
  case True
  then obtain es where es: "out = RM_Exec es" "rx_state es = Prepared" by blast
  obtain k where "mk_committed_plm ops (rx_inner es) c = Some (k, rx_inner es, c)" using mk_committed by blast
  with es assms show ?thesis
    by (auto simp: rm_handle_commit_def step_simps split: rm_plm.splits)
next
  case False
  then have "rm_handle_commit ops c out = rm_idle c out"
    by (auto simp: rm_handle_commit_def split: rm_outer.splits rm_state.splits)
  with assms show ?thesis by (simp add: step_ok_refl quiet_refl)
qed

lemma handle_abort_ok:
  assumes "cinv x c" and "ok c qid out"
  shows "\<exists>effs c' out' act. rm_handle_abort ops c out = Some (effs, c', out', act) \<and> step_ok x c qid out effs c' out' act \<and>
    quiet out effs out' act"
proof (cases out)
  case (RM_Exec es)
  show ?thesis
  proof (cases "rx_state es")
    case (WaitingInsertingPrepared lid)
    with RM_Exec assms have "pend (rx_inner es) c" by (simp add: out_ok_def)
    from early [OF assms(1) this] obtain c' where "early_aborted ops (rx_inner es) c = Some (rx_inner es, c')" "cinv x c'"
      "keeps c c'" "apart (slot (rx_inner es)) c c'" by blast
    with WaitingInsertingPrepared RM_Exec show ?thesis
      by (auto simp: rm_handle_abort_def step_simps frame_def split: rm_plm.splits)
  next
    case Prepared
    obtain a where "mk_aborted_plm ops (rx_inner es) c = Some (a, rx_inner es, c)" using mk_aborted by blast
    with Prepared RM_Exec assms show ?thesis
      by (auto simp: rm_handle_abort_def step_simps split: rm_plm.splits)
  qed (use RM_Exec assms in \<open>auto simp: rm_handle_abort_def step_simps split: rm_plm.splits\<close>)
qed (use assms in \<open>simp_all add: rm_handle_abort_def step_ok_refl quiet_refl\<close>)

lemma handle_prepare_ok:
  assumes "cinv x c" and "ok c qid out"
  shows "\<exists>effs. rm_handle_prepare ops c out = Some (effs, c, out, P2PC_Wait) \<and> pushes effs = []"
  by (auto simp: rm_handle_prepare_def send_prepared_def split: rm_outer.splits rm_state.splits)

lemma handle_check_prepared_ok:
  shows "\<exists>effs. rm_handle_check_prepared ops check c out = Some (effs, c, out, P2PC_Wait) \<and> pushes effs = []"
  by (auto simp: rm_handle_check_prepared_def send_prepared_def send_wait_def split: rm_outer.splits rm_state.splits)

text \<open>The handlers of the log entries that were waited for.\<close>

lemma handle_prepared_plm_ok:
  assumes "cinv x c" and "ok c qid out" and "due ops out (RM_PreparedPLm qid tm rms p)"
  shows "\<exists>effs c' out'. rm_handle_prepared_plm ops c out = Some (effs, c', out', P2PC_Wait) \<and> step_ok x c qid out effs c' out' P2PC_Wait"
proof -
  from assms(3) obtain es where es: "out = RM_Exec es" "(\<exists>lid. rx_state es = InsertingPrepared lid) \<or> rx_state es = InsertingPreparedAborted"
    by (auto simp: due_def split: rm_outer.splits)
  with assms(2) have "pend (rx_inner es) c" and q: "rx_query_id es = qid"
    and lid: "\<exists>lid. bm_get (rm_leader_map ops c) (tm_to_gid ops (rx_tm es)) = Some lid" by (auto simp: out_ok_def)
  from prepared [OF assms(1) this(1)] obtain c' where c': "prepared_plm_inserted ops (rx_inner es) c = Some (rx_inner es, c')" "cinv x c'"
    "keeps c c'" "apart (slot (rx_inner es)) c c'" "prep (rx_inner es) c'" by blast
  obtain a where a: "mk_aborted_plm ops (rx_inner es) c' = Some (a, rx_inner es, c')" using mk_aborted by blast
  have env: "rm_leader_map ops c' = rm_leader_map ops c" using keeps_env [OF c'(3)] by (simp add: same_env_def)
  from es(2) show ?thesis
  proof
    assume "\<exists>lid. rx_state es = InsertingPrepared lid"
    with es(1) c' lid q show ?thesis
      by (auto simp: rm_handle_prepared_plm_def step_ok_def out_ok_def due_def frame_def env Let_def
          send_prepared_def send_inform_prepared_def)
  next
    assume "rx_state es = InsertingPreparedAborted"
    with es(1) c' a lid q show ?thesis
      by (auto simp: rm_handle_prepared_plm_def step_ok_def out_ok_def due_def frame_def env)
  qed
qed

lemma handle_committed_plm_ok:
  assumes "cinv x c" and "ok c qid out" and "due ops out (RM_CommittedPLm qid k)"
  shows "\<exists>c'. rm_handle_committed_plm ops c out = Some ([], c', RM_Committed, P2PC_Wait) \<and> step_ok x c qid out [] c' RM_Committed P2PC_Wait"
proof -
  from assms(3) obtain es where es: "out = RM_Exec es" "rx_state es = InsertingCommitted"
    by (auto simp: due_def split: rm_outer.splits)
  with assms(2) have "prep (rx_inner es) c" by (simp add: out_ok_def)
  from committed [OF assms(1) this, of "rx_query_id es"] es show ?thesis
    by (auto simp: rm_handle_committed_plm_def step_ok_def out_ok_def frame_def)
qed

lemma handle_aborted_plm_ok:
  assumes "cinv x c" and "ok c qid out" and "due ops out (RM_AbortedPLm qid a)"
  shows "\<exists>c'. rm_handle_aborted_plm ops c out = Some ([], c', RM_Aborted, P2PC_Wait) \<and> step_ok x c qid out [] c' RM_Aborted P2PC_Wait"
proof -
  from assms(3) obtain es where es: "out = RM_Exec es" "rx_state es = InsertingAborted"
    by (auto simp: due_def split: rm_outer.splits)
  with assms(2) have "prep (rx_inner es) c" by (simp add: out_ok_def)
  from aborted [OF assms(1) this] es show ?thesis
    by (auto simp: rm_handle_aborted_plm_def step_ok_def out_ok_def frame_def)
qed

lemma start_inserting_ok:
  assumes "cinv x c" and "ok c qid out"
  shows "\<exists>effs out'. rm_start_inserting ops c out = Some (effs, c, out', P2PC_Wait) \<and> step_ok x c qid out effs c out' P2PC_Wait \<and>
    quiet out effs out' P2PC_Wait"
proof (cases "\<exists>es lid. out = RM_Exec es \<and> rx_state es = WaitingInsertingPrepared lid")
  case True
  then obtain es lid where es: "out = RM_Exec es" "rx_state es = WaitingInsertingPrepared lid" by blast
  obtain p where "mk_prepared_plm ops (rx_inner es) c = Some (p, rx_inner es, c)"
    "\<forall>d. inner_new_follower ops p d = Some (rx_inner es, d)" using mk_prepared by blast
  with es assms show ?thesis
    by (auto simp: rm_start_inserting_def step_simps split: rm_plm.splits)
next
  case False
  then have "rm_start_inserting ops c out = rm_idle c out"
    by (auto simp: rm_start_inserting_def split: rm_outer.splits rm_state.splits)
  with assms show ?thesis by (simp add: step_ok_refl quiet_refl)
qed

text \<open>A node that gains the leadership with all its machines followers.\<close>

lemma leader_changed_ok:
  assumes "cinv x c" and "ok c qid out" and "rm_is_leader ops c = Some True"
    and "\<And>es. out = RM_Exec es \<Longrightarrow> rx_state es = Follower"
  shows "\<exists>effs out'. rm_leader_changed ops c out = Some (effs, c, out', P2PC_Wait) \<and> step_ok x c qid out effs c out' P2PC_Wait \<and>
    quiet out effs out' P2PC_Wait"
  using assms by (cases out) (auto simp: rm_leader_changed_def step_simps send_inform_prepared_def split: rm_plm.splits)

lemma remote_leader_changed_ok:
  shows "\<exists>effs. rm_remote_leader_changed ops change c out = Some (effs, c, out, P2PC_Wait) \<and> pushes effs = []"
  by (auto simp: rm_remote_leader_changed_def send_inform_prepared_def split: rm_outer.splits rm_state.splits)

section \<open>The container\<close>

lemma cok_put:
  assumes con: "cok c con" and out: "bm_get con qid = Some out" and st: "step_ok x c qid out effs c' out' act"
  shows "cok c' (act_put act qid (bm_insert qid out' con))"
proof -
  have ok: "\<And>qid out. bm_get con qid = Some out \<Longrightarrow> ok c qid out"
    and slots: "\<And>qid qid' es es'. bm_get con qid = Some (RM_Exec es) \<Longrightarrow> bm_get con qid' = Some (RM_Exec es') \<Longrightarrow> qid \<noteq> qid' \<Longrightarrow>
        slot (rx_inner es) \<noteq> slot (rx_inner es')" and wf: "bm_wf con"
    using con unfolding con_ok_def by blast+
  have other: "ok c' qid' out''" if g: "bm_get con qid' = Some out''" and ne: "qid' \<noteq> qid" for qid' out''
  proof (rule ok_keeps [OF ok [OF g]])
    show "keeps c c'" using st by (simp add: step_ok_def)
    have "slot (rx_inner es) \<noteq> slot (rx_inner es'')" if "out = RM_Exec es" "out'' = RM_Exec es''" for es es''
      using slots [of qid es qid' es''] out g ne that by simp
    then show "\<forall>es. out'' = RM_Exec es \<longrightarrow>
      (pend (rx_inner es) c \<longrightarrow> pend (rx_inner es) c') \<and> (prep (rx_inner es) c \<longrightarrow> prep (rx_inner es) c')"
      using st unfolding step_ok_def by simp
  qed
  have mine: "act = P2PC_Wait \<Longrightarrow> ok c' qid out'" using st by (simp add: step_ok_def)
  have slot': "out' = RM_Exec es' \<Longrightarrow> \<exists>es. out = RM_Exec es \<and> slot (rx_inner es') = slot (rx_inner es)" for es'
    using st by (simp add: step_ok_def)
  show ?thesis
  proof (cases act)
    case P2PC_Wait
    have "slot (rx_inner es1) \<noteq> slot (rx_inner es2)" if "bm_get (bm_insert qid out' con) q1 = Some (RM_Exec es1)"
      "bm_get (bm_insert qid out' con) q2 = Some (RM_Exec es2)" "q1 \<noteq> q2" for q1 q2 es1 es2
      using that slots out slot' by (fastforce split: if_splits)
    with P2PC_Wait wf mine other show ?thesis unfolding con_ok_def by (auto simp: act_put_def)
  next
    case P2PC_Exit
    have "slot (rx_inner es1) \<noteq> slot (rx_inner es2)" if "bm_get (bm_remove qid (bm_insert qid out' con)) q1 = Some (RM_Exec es1)"
      "bm_get (bm_remove qid (bm_insert qid out' con)) q2 = Some (RM_Exec es2)" "q1 \<noteq> q2" for q1 q2 es1 es2
      using that slots by (fastforce split: if_splits)
    with P2PC_Exit wf other show ?thesis unfolding con_ok_def by (auto simp: act_put_def split: if_splits)
  qed
qed

lemma due_put:
  assumes "bm_get con qid = Some out" and "plm_due ops con plm"
    and "plm_qid plm = qid \<Longrightarrow> due ops out plm \<Longrightarrow> act = P2PC_Wait \<and> due ops out' plm"
  shows "plm_due ops (act_put act qid (bm_insert qid out' con)) plm"
  using assms by (cases "plm_qid plm = qid") (auto simp: plm_due_def act_put_def split: p2pc_action.splits)

text \<open>
  What a call on the container promises: the invariant, the entries that were due still are, what
  is persisted stays, and what it inserts into the log is due and was not before.
\<close>

definition call_ok ::
  "'x \<Rightarrow> 'c \<Rightarrow> (query_id, ('i, 'r, 't) rm_outer) btree \<Rightarrow> ('p, 'k, 'a, 'r, 't) rm_effect list \<Rightarrow> 'c
    \<Rightarrow> (query_id, ('i, 'r, 't) rm_outer) btree \<Rightarrow> bool" where
  "call_ok x c con effs c' con' \<longleftrightarrow>
     cinv x c' \<and> keeps c c' \<and> cok c' con' \<and>
     (\<forall>plm. plm_due ops con plm \<longrightarrow> plm_due ops con' plm) \<and>
     (\<forall>qid. Option.bind (bm_get con' qid) (rm_reconfig_snapshot ops) = Option.bind (bm_get con qid) (rm_reconfig_snapshot ops)) \<and>
     (pushes effs = [] \<or>
      (\<exists>plm. pushes effs = [plm] \<and> plm_due ops con' plm \<and> (\<forall>plm'. plm_qid plm' = plm_qid plm \<longrightarrow> \<not> plm_due ops con plm')))"

lemma call_ok_step:
  assumes "cok c con" and out: "bm_get con qid = Some out" and st: "step_ok x c qid out effs c' out' act"
    and q: "quiet out effs out' act"
  shows "call_ok x c con effs c' (act_put act qid (bm_insert qid out' con))"
proof -
  have keep: "due ops out plm \<Longrightarrow> act = P2PC_Wait \<and> due ops out' plm"
    and fresh: "pushes effs \<noteq> [] \<Longrightarrow> \<not> due ops out plm" for plm using q by (auto simp: quiet_def)
  have "pushes effs = [] \<or> act = P2PC_Wait \<and> (\<exists>plm. pushes effs = [plm] \<and> plm_qid plm = qid \<and> due ops out' plm)"
    using st by (simp add: step_ok_def)
  then have "pushes effs = [] \<or> (\<exists>plm. pushes effs = [plm] \<and> plm_due ops (act_put act qid (bm_insert qid out' con)) plm \<and>
      (\<forall>plm'. plm_qid plm' = plm_qid plm \<longrightarrow> \<not> plm_due ops con plm'))"
    using fresh out by (auto simp: plm_due_def act_put_def)
  moreover have "plm_due ops con plm \<longrightarrow> plm_due ops (act_put act qid (bm_insert qid out' con)) plm" for plm
    using due_put [OF out, of plm act out'] keep by blast
  moreover have "Option.bind (bm_get (act_put act qid (bm_insert qid out' con)) qid') (rm_reconfig_snapshot ops) =
      Option.bind (bm_get con qid') (rm_reconfig_snapshot ops)" for qid'
    using q out by (auto simp: act_put_def quiet_def split: p2pc_action.splits)
  moreover have "cinv x c'" "keeps c c'" using st by (auto simp: step_ok_def)
  ultimately show ?thesis using cok_put [OF assms(1) out st] by (simp add: call_ok_def)
qed

lemma bm_insert_same: "bm_wf m \<Longrightarrow> bm_get m k = Some v \<Longrightarrow> bm_insert k v m = m" for m :: "(query_id, 'v) btree"
  by (rule bm_canonical) auto

lemma call_ok_idle:
  assumes "cinv x c" and "cok c con" and "pushes effs = []"
  shows "call_ok x c con effs c con"
  using assms by (simp add: call_ok_def keeps_refl)

lemma call_ok_new:
  assumes c: "cinv x c" and con: "cok c con" and none: "bm_get con qid = None"
    and mk: "inner_new ops q x c = Some (Some i, x', c')" and out: "rm_new ops c' qid tm rms i = Some out"
  shows "call_ok x' c con [] c' (bm_insert qid out con)"
proof -
  from new_Some [OF c mk] have c': "cinv x' c'" "keeps c c'" "apart (slot i) c c'" "pend i c'"
    and free: "\<And>j. pend j c \<or> prep j c \<Longrightarrow> slot j \<noteq> slot i" by auto
  obtain es where es: "out = RM_Exec es" "rx_inner es = i" "rx_query_id es = qid" "unprepared (rx_state es)"
    "bm_get (rm_leader_map ops c') (tm_to_gid ops (rx_tm es)) \<noteq> None" "\<exists>lid. rx_state es = WaitingInsertingPrepared lid"
    using out by (auto simp: rm_new_def bind_eq_Some_conv)
  have ok: "bm_get con q1 = Some o1 \<Longrightarrow> ok c q1 o1" for q1 o1 using con by (simp add: con_ok_def)
  have sl: "slot (rx_inner e) \<noteq> slot i" if "bm_get con q1 = Some (RM_Exec e)" for q1 e
    using free [of "rx_inner e"] ok [OF that] by (auto simp: out_ok_def split: if_splits)
  have "ok c' q1 o1" if "bm_get con q1 = Some o1" for q1 o1
    using ok_keeps [OF ok [OF that] c'(2)] sl that c'(3) by (auto simp: frame_def)
  moreover have "ok c' qid out" using es c' by (simp add: out_ok_def)
  moreover have "slot (rx_inner e1) \<noteq> slot (rx_inner e2)" if "bm_get (bm_insert qid out con) q1 = Some (RM_Exec e1)"
    "bm_get (bm_insert qid out con) q2 = Some (RM_Exec e2)" "q1 \<noteq> q2" for q1 q2 e1 e2
    using that sl es con unfolding con_ok_def by (fastforce split: if_splits)
  ultimately have "cok c' (bm_insert qid out con)" using con unfolding con_ok_def by auto
  moreover have "plm_due ops con plm \<longrightarrow> plm_due ops (bm_insert qid out con) plm" for plm
    using none by (auto simp: plm_due_def)
  moreover have "Option.bind (bm_get (bm_insert qid out con) qid') (rm_reconfig_snapshot ops) =
      Option.bind (bm_get con qid') (rm_reconfig_snapshot ops)" for qid'
    using none es by (auto simp: rm_reconfig_snapshot_def)
  ultimately show ?thesis using c' by (simp add: call_ok_def)
qed

lemma handle_rm_msg_ok:
  assumes c: "cinv x c" and con: "cok c con" and h: "handle_rm_msg ops msg c con x = Some ((effs, c', con', qid, act), x')"
  shows "call_ok x' c con effs c' (act_put act qid con')"
proof -
  have ok: "ok c q1 o1" if "bm_get con q1 = Some o1" for q1 o1 using con that by (simp add: con_ok_def)
  have wf: "bm_wf con" using con by (simp add: con_ok_def)
  show ?thesis
  proof (cases msg)
    case (RM_Prepare p)
    show ?thesis
    proof (cases "bm_get con (pr_query_id p)")
      case None
      from h RM_Prepare None obtain made x1 c1 where mk: "inner_new ops (pr_payload p) x c = Some (made, x1, c1)"
        by (auto simp: handle_rm_msg_def bind_eq_Some_conv)
      show ?thesis
      proof (cases made)
        case None
        with new_None [of "pr_payload p" x c x1 c1] mk h RM_Prepare \<open>bm_get con (pr_query_id p) = None\<close> call_ok_idle [OF c con, of effs]
        show ?thesis by (auto simp: handle_rm_msg_def act_put_def)
      next
        case (Some i)
        with mk h RM_Prepare None call_ok_new [OF c con None, of "pr_payload p" i x1 c1]
        show ?thesis by (auto simp: handle_rm_msg_def bind_eq_Some_conv act_put_def)
      qed
    next
      case (Some out)
      from handle_prepare_ok [OF c ok [OF Some]] obtain effs' where
        "rm_handle_prepare ops c out = Some (effs', c, out, P2PC_Wait)" "pushes effs' = []" by blast
      with h RM_Prepare Some bm_insert_same [OF wf Some] call_ok_idle [OF c con] show ?thesis
        by (auto simp: handle_rm_msg_def rm_put_def act_put_def)
    qed
  next
    case (RM_CheckPrepared check)
    show ?thesis
    proof (cases "bm_get con (cp_query_id check)")
      case None
      with h RM_CheckPrepared call_ok_idle [OF c con, of effs] show ?thesis by (auto simp: handle_rm_msg_def act_put_def)
    next
      case (Some out)
      from handle_check_prepared_ok [of check c out] obtain effs' where
        "rm_handle_check_prepared ops check c out = Some (effs', c, out, P2PC_Wait)" "pushes effs' = []" by blast
      with h RM_CheckPrepared Some bm_insert_same [OF wf Some] call_ok_idle [OF c con] show ?thesis
        by (auto simp: handle_rm_msg_def rm_put_def act_put_def)
    qed
  next
    case (RM_Abort q1 tm)
    show ?thesis
    proof (cases "bm_get con q1")
      case None
      with h RM_Abort call_ok_idle [OF c con, of effs] show ?thesis by (auto simp: handle_rm_msg_def act_put_def)
    next
      case (Some out)
      from handle_abort_ok [OF c ok [OF Some]] obtain effs' c1 out' act' where
        a: "rm_handle_abort ops c out = Some (effs', c1, out', act')" "step_ok x c q1 out effs' c1 out' act'"
        "quiet out effs' out' act'" by blast
      from call_ok_step [OF con Some a(2,3)] h RM_Abort Some a(1) show ?thesis
        by (auto simp: handle_rm_msg_def rm_put_def)
    qed
  next
    case (RM_Commit q1 tm)
    show ?thesis
    proof (cases "bm_get con q1")
      case None
      with h RM_Commit call_ok_idle [OF c con, of effs] show ?thesis by (auto simp: handle_rm_msg_def act_put_def)
    next
      case (Some out)
      from handle_commit_ok [OF c ok [OF Some]] obtain effs' out' where
        a: "rm_handle_commit ops c out = Some (effs', c, out', P2PC_Wait)" "step_ok x c q1 out effs' c out' P2PC_Wait"
        "quiet out effs' out' P2PC_Wait" by blast
      from call_ok_step [OF con Some a(2,3)] h RM_Commit Some a(1) show ?thesis
        by (auto simp: handle_rm_msg_def rm_put_def)
    qed
  qed
qed

text \<open>A log entry that was due is learned without a panic.\<close>

lemma handle_rm_plm_ok:
  assumes c: "cinv x c" and con: "cok c con" and lead: "rm_is_leader ops c = Some True" and d: "plm_due ops con plm"
  shows "\<exists>effs c' con'. handle_rm_plm ops plm c con = Some (effs, c', con', plm_qid plm, P2PC_Wait) \<and>
    cinv x c' \<and> keeps c c' \<and> cok c' con' \<and>
    (\<forall>plm'. plm_qid plm' \<noteq> plm_qid plm \<longrightarrow> plm_due ops con plm' \<longrightarrow> plm_due ops con' plm') \<and>
    (pushes effs = [] \<or> (\<exists>plm'. pushes effs = [plm'] \<and> plm_qid plm' = plm_qid plm \<and> plm_due ops con' plm'))"
proof -
  from d obtain out where out: "bm_get con (plm_qid plm) = Some out" "due ops out plm" by (auto simp: plm_due_def)
  have ok: "ok c (plm_qid plm) out" using con out(1) by (simp add: con_ok_def)
  have "\<exists>effs c' out'. handle_rm_plm ops plm c con = rm_put (plm_qid plm) con (Some (effs, c', out', P2PC_Wait)) \<and>
      step_ok x c (plm_qid plm) out effs c' out' P2PC_Wait"
  proof (cases plm)
    case (RM_PreparedPLm qid tm rms p)
    with handle_prepared_plm_ok [OF c ok] out lead show ?thesis by (fastforce simp: handle_rm_plm_def)
  next
    case (RM_CommittedPLm qid k)
    with handle_committed_plm_ok [OF c ok] out show ?thesis by (fastforce simp: handle_rm_plm_def)
  next
    case (RM_AbortedPLm qid a)
    with handle_aborted_plm_ok [OF c ok] out show ?thesis by (fastforce simp: handle_rm_plm_def)
  qed
  then obtain effs c' out' where h: "handle_rm_plm ops plm c con = Some (effs, c', bm_insert (plm_qid plm) out' con, plm_qid plm, P2PC_Wait)"
    and st: "step_ok x c (plm_qid plm) out effs c' out' P2PC_Wait" by (auto simp: rm_put_def)
  have "plm_qid plm' \<noteq> plm_qid plm \<longrightarrow> plm_due ops con plm' \<longrightarrow> plm_due ops (bm_insert (plm_qid plm) out' con) plm'" for plm'
    by (auto simp: plm_due_def)
  moreover have "pushes effs = [] \<or> (\<exists>plm'. pushes effs = [plm'] \<and> plm_qid plm' = plm_qid plm \<and>
      plm_due ops (bm_insert (plm_qid plm) out' con) plm')"
    using st by (auto simp: step_ok_def plm_due_def)
  ultimately show ?thesis using h st cok_put [OF con out(1) st] by (auto simp: step_ok_def act_put_def)
qed

end

section \<open>Replicas\<close>

text \<open>
  A follower learns the log only. It is in the state that a snapshot of the leader would give it, up
  to the part of the application's state that \<open>sim\<close> relates.
\<close>

definition con_snap ::
  "('c, 'x, 'i, 'q, 'p, 'k, 'a, 'r, 't) rm_inner \<Rightarrow> (query_id, ('i, 'r, 't) rm_outer) btree
    \<Rightarrow> (query_id, ('i, 'r, 't) rm_outer) btree \<Rightarrow> bool" where
  "con_snap ops con fcon \<longleftrightarrow>
     bm_wf fcon \<and> (\<forall>qid. bm_get fcon qid = Option.bind (bm_get con qid) (rm_reconfig_snapshot ops))"

locale rm_replica = rm_contract ops cinv pend prep slot keeps
  for ops :: "('c, 'x, 'i, 'q, 'p, 'k, 'a, 'r, 't) rm_inner"
    and cinv :: "'x \<Rightarrow> 'c \<Rightarrow> bool" and pend :: "'i \<Rightarrow> 'c \<Rightarrow> bool" and prep :: "'i \<Rightarrow> 'c \<Rightarrow> bool"
    and slot :: "'i \<Rightarrow> 's" and keeps :: "'c \<Rightarrow> 'c \<Rightarrow> bool" +
  fixes sim :: "'c \<Rightarrow> 'c \<Rightarrow> bool"
  assumes sim_env: "sim c d \<Longrightarrow> rm_leader_map ops d = rm_leader_map ops c"
    and sim_new: "sim c d \<Longrightarrow> inner_new ops q x c = Some (made, x', c') \<Longrightarrow> sim c' d"
    and sim_early: "sim c d \<Longrightarrow> early_aborted ops i c = Some (i', c') \<Longrightarrow> sim c' d"
    and sim_prepared: "sim c d \<Longrightarrow> pend i c \<Longrightarrow> prepared_plm_inserted ops i c = Some (i', c') \<Longrightarrow>
      \<exists>d'. prepared_plm_inserted ops i d = Some (i', d') \<and> sim c' d'"
    and sim_committed: "sim c d \<Longrightarrow> prep i c \<Longrightarrow> committed_plm_inserted ops qid i c = Some (i', c') \<Longrightarrow>
      \<exists>d'. committed_plm_inserted ops qid i d = Some (i', d') \<and> sim c' d'"
    and sim_aborted: "sim c d \<Longrightarrow> prep i c \<Longrightarrow> aborted_plm_inserted ops i c = Some (i', c') \<Longrightarrow>
      \<exists>d'. aborted_plm_inserted ops i d = Some (i', d') \<and> sim c' d'"
begin

lemma con_snap_insert:
  assumes "con_snap ops con fcon" and "rm_reconfig_snapshot ops out = Some fout"
  shows "con_snap ops (bm_insert qid out con) (bm_insert qid fout fcon)"
  using assms by (simp add: con_snap_def)

text \<open>Messages do not concern a follower.\<close>

lemma sim_msg:
  assumes c: "cinv x c" and con: "cok c con" and sim: "sim c d"
    and h: "handle_rm_msg ops msg c con x = Some ((effs, c', con', qid, act), x')"
  shows "sim c' d"
proof -
  have abort: "sim c1 d" if "rm_handle_abort ops c out = Some (effs1, c1, out1, act1)" for out effs1 c1 out1 act1
  proof (cases "\<exists>es lid. out = RM_Exec es \<and> rx_state es = WaitingInsertingPrepared lid")
    case True
    with that sim sim_early show ?thesis by (auto simp: rm_handle_abort_def bind_eq_Some_conv)
  next
    case False
    have "mk_aborted_plm ops i c = Some (a, i', c2) \<Longrightarrow> c2 = c" for i a i' c2 using mk_aborted [of i c] by auto
    with that False have "c1 = c"
      by (auto simp: rm_handle_abort_def bind_eq_Some_conv split: rm_outer.splits rm_state.splits)
    with sim show ?thesis by simp
  qed
  have "c1 = c" if "rm_handle_commit ops c out = Some (effs1, c1, out1, act1)" for out effs1 c1 out1 act1
  proof -
    have "mk_committed_plm ops i c = Some (a, i', c2) \<Longrightarrow> c2 = c" for i a i' c2 using mk_committed [of i c] by auto
    with that show ?thesis by (auto simp: rm_handle_commit_def bind_eq_Some_conv split: rm_outer.splits rm_state.splits)
  qed
  moreover have "c1 = c" if "rm_handle_prepare ops c out = Some (effs1, c1, out1, act1)" for out effs1 c1 out1 act1
    using that by (auto simp: rm_handle_prepare_def split: rm_outer.splits rm_state.splits)
  moreover have "c1 = c" if "rm_handle_check_prepared ops check c out = Some (effs1, c1, out1, act1)" for check out effs1 c1 out1 act1
    using that handle_check_prepared_ok [of check c out] by auto
  ultimately show ?thesis using h sim abort sim_new [OF sim]
    by (cases msg) (fastforce simp: handle_rm_msg_def rm_put_def bind_eq_Some_conv split: option.splits)+
qed

text \<open>The follower handles a log entry that was due at the leader, and stays a snapshot of it.\<close>

lemma follower_plm:
  assumes c: "cinv x c" and con: "cok c con" and lead: "rm_is_leader ops c = Some True" and d: "plm_due ops con plm"
    and sim: "sim c d" and snap: "con_snap ops con fcon" and follow: "rm_is_leader ops d = Some False"
    and h: "handle_rm_plm ops plm c con = Some (effs, c', con', qid, act)"
  shows "\<exists>d' fcon'. handle_rm_plm ops plm d fcon = Some ([], d', fcon', qid, P2PC_Wait) \<and> sim c' d' \<and> con_snap ops con' fcon'"
proof -
  from d obtain es where out: "bm_get con (plm_qid plm) = Some (RM_Exec es)" and due: "due ops (RM_Exec es) plm"
    unfolding plm_due_def using due_Exec by blast
  have ok: "ok c (plm_qid plm) (RM_Exec es)" using con out by (simp add: con_ok_def)
  then obtain lid where lid: "bm_get (rm_leader_map ops c) (tm_to_gid ops (rx_tm es)) = Some lid" by (auto simp: out_ok_def)
  have fout: "bm_get fcon (plm_qid plm) = rm_reconfig_snapshot ops (RM_Exec es)" using snap out by (simp add: con_snap_def)
  show ?thesis
  proof (cases plm)
    case (RM_PreparedPLm q1 tm rms p)
    from due RM_PreparedPLm ok have st: "(\<exists>lid. rx_state es = InsertingPrepared lid) \<or> rx_state es = InsertingPreparedAborted"
      and p: "inner_new_follower ops p d = Some (rx_inner es, d)" "tm = rx_tm es" "rms = rx_rms es" "q1 = rx_query_id es"
      and pend: "pend (rx_inner es) c" by (auto simp: due_def out_ok_def)
    from prepared [OF c pend] obtain c1 where c1: "prepared_plm_inserted ops (rx_inner es) c = Some (rx_inner es, c1)" by blast
    obtain a where a: "mk_aborted_plm ops (rx_inner es) c1 = Some (a, rx_inner es, c1)" using mk_aborted by blast
    from sim_prepared [OF sim pend c1] obtain d1 where d1: "prepared_plm_inserted ops (rx_inner es) d = Some (rx_inner es, d1)" "sim c1 d1" by blast
    have "\<exists>out'. con' = bm_insert q1 out' con \<and> c' = c1 \<and> qid = q1 \<and> rm_reconfig_snapshot ops out' = Some (RM_Exec (es\<lparr>rx_state := Follower\<rparr>))"
      using st h RM_PreparedPLm out lead c1 a lid
      by (auto simp: handle_rm_plm_def rm_put_def rm_handle_prepared_plm_def rm_reconfig_snapshot_def snapshot)
    then obtain out' where o': "con' = bm_insert q1 out' con" "c' = c1" "qid = q1"
      "rm_reconfig_snapshot ops out' = Some (RM_Exec (es\<lparr>rx_state := Follower\<rparr>))" by blast
    have eq: "es\<lparr>rx_state := Follower\<rparr> = \<lparr>rx_query_id = rx_query_id es, rx_tm = rx_tm es, rx_rms = rx_rms es,
        rx_state = Follower, rx_inner = rx_inner es\<rparr>" by (cases es) simp
    have "handle_rm_plm ops plm d fcon = Some ([], d1, bm_insert q1 (RM_Exec (es\<lparr>rx_state := Follower\<rparr>)) fcon, q1, P2PC_Wait)"
      unfolding eq using RM_PreparedPLm follow p d1 lid sim_env [OF sim]
      by (simp add: handle_rm_plm_def rm_new_def rm_init_follower_def)
    then show ?thesis using o' d1 con_snap_insert [OF snap o'(4), of q1] by blast
  next
    case (RM_CommittedPLm q1 k)
    from due RM_CommittedPLm ok have st: "rx_state es = InsertingCommitted" and prep: "prep (rx_inner es) c" by (auto simp: due_def out_ok_def)
    from committed [OF c prep] obtain c1 where c1: "committed_plm_inserted ops (rx_query_id es) (rx_inner es) c = Some (rx_inner es, c1)" by blast
    from sim_committed [OF sim prep c1] obtain d1 where d1: "committed_plm_inserted ops (rx_query_id es) (rx_inner es) d = Some (rx_inner es, d1)" "sim c1 d1" by blast
    have "con' = bm_insert q1 RM_Committed con \<and> c' = c1 \<and> qid = q1"
      using st h RM_CommittedPLm out c1 by (auto simp: handle_rm_plm_def rm_put_def rm_handle_committed_plm_def)
    moreover have "handle_rm_plm ops plm d fcon = Some ([], d1, bm_insert q1 RM_Committed fcon, q1, P2PC_Wait)"
      using RM_CommittedPLm fout st d1
      by (simp add: handle_rm_plm_def rm_put_def rm_handle_committed_plm_def rm_reconfig_snapshot_def snapshot)
    ultimately show ?thesis using d1 con_snap_insert [OF snap, of RM_Committed RM_Committed q1] by (auto simp: rm_reconfig_snapshot_def)
  next
    case (RM_AbortedPLm q1 k)
    from due RM_AbortedPLm ok have st: "rx_state es = InsertingAborted" and prep: "prep (rx_inner es) c" by (auto simp: due_def out_ok_def)
    from aborted [OF c prep] obtain c1 where c1: "aborted_plm_inserted ops (rx_inner es) c = Some (rx_inner es, c1)" by blast
    from sim_aborted [OF sim prep c1] obtain d1 where d1: "aborted_plm_inserted ops (rx_inner es) d = Some (rx_inner es, d1)" "sim c1 d1" by blast
    have "con' = bm_insert q1 RM_Aborted con \<and> c' = c1 \<and> qid = q1"
      using st h RM_AbortedPLm out c1 by (auto simp: handle_rm_plm_def rm_put_def rm_handle_aborted_plm_def)
    moreover have "handle_rm_plm ops plm d fcon = Some ([], d1, bm_insert q1 RM_Aborted fcon, q1, P2PC_Wait)"
      using RM_AbortedPLm fout st d1
      by (simp add: handle_rm_plm_def rm_put_def rm_handle_aborted_plm_def rm_reconfig_snapshot_def snapshot)
    ultimately show ?thesis using d1 con_snap_insert [OF snap, of RM_Aborted RM_Aborted q1] by (auto simp: rm_reconfig_snapshot_def)
  qed
qed

end

end
