(* ===== verification/Tablet_Commit.thy ===== *)
theory Tablet_Commit
  imports Tablet_Main_Loop Paxos2PC_Contract
begin

text \<open>
  The callbacks of \<open>src/src/finish_query_rm_es.rs\<close> fulfil the contract of the resource managers. The
  resource of a transaction is the region lock at its timestamp; what every callback keeps is what
  the reads that are protected in the log see of the storage.
\<close>

section \<open>What protected reads see\<close>

text \<open>
  A read outside of a transaction is protected at its timestamp once it is in \<open>read_protected\<close>; a
  read of a transaction sees what precedes the transaction, and is protected once that is committed.
\<close>

definition protected_read :: "tablet_ctx \<Rightarrow> timestamp \<Rightarrow> read_region \<Rightarrow> bool" where
  "protected_read c t r \<longleftrightarrow>
     (\<exists>t' \<ge> t. r \<in> at (read_protected c) t' set) \<or>
     (\<exists>t' > t. r \<in> at (committed_writes c) t' (\<lambda>l. set (m_read_protected l)))"

definition sees_same :: "tablet_ctx \<Rightarrow> tablet_ctx \<Rightarrow> timestamp \<Rightarrow> read_region \<Rightarrow> bool" where
  "sees_same c c' t r \<longleftrightarrow>
     (\<forall>schema vcols. set vcols \<subseteq> set (rr_val_col_region r) \<longrightarrow> region_typed (key_cols (t_schema c)) (rr_row_region r) \<longrightarrow>
        simple_presence_snapshot (t_storage c') schema (rr_row_region r) vcols t =
        simple_presence_snapshot (t_storage c) schema (rr_row_region r) vcols t)"

definition reads_kept :: "tablet_ctx \<Rightarrow> tablet_ctx \<Rightarrow> bool" where
  "reads_kept c c' \<longleftrightarrow>
     key_cols (t_schema c') = key_cols (t_schema c) \<and>
     (\<forall>t r. protected_read c t r \<longrightarrow> protected_read c' t r \<and> sees_same c c' t r)"

lemma reads_kept_refl [simp]: "reads_kept c c"
  by (simp add: reads_kept_def sees_same_def)

lemma reads_kept_trans: "reads_kept c c' \<Longrightarrow> reads_kept c' c'' \<Longrightarrow> reads_kept c c''"
  unfolding reads_kept_def sees_same_def by auto

lemma protected_read_mono:
  assumes "protected_read c t r" and "\<And>t. at (read_protected c) t set \<subseteq> at (read_protected c') t set"
    and "\<And>t. at (committed_writes c) t (\<lambda>l. set (m_read_protected l)) \<subseteq> at (committed_writes c') t (\<lambda>l. set (m_read_protected l))"
  shows "protected_read c' t r"
  using assms unfolding protected_read_def by blast

lemma reads_kept_same:
  assumes "t_storage c' = t_storage c" and "key_cols (t_schema c') = key_cols (t_schema c)"
    and "\<And>t. at (read_protected c) t set \<subseteq> at (read_protected c') t set"
    and "\<And>t. at (committed_writes c) t (\<lambda>l. set (m_read_protected l)) \<subseteq> at (committed_writes c') t (\<lambda>l. set (m_read_protected l))"
  shows "reads_kept c c'"
  using assms(1,2) protected_read_mono [OF _ assms(3,4)] by (simp add: reads_kept_def sees_same_def)

text \<open>An update view that stays within some of the write regions.\<close>

definition view_covered :: "write_region list \<Rightarrow> generic_table \<Rightarrow> bool" where
  "view_covered ws view \<longleftrightarrow> (\<forall>key v. bm_get view key = Some v \<longrightarrow> (\<exists>w \<in> set ws. view_within w [(key, v)]))"

lemma view_covered_mono: "view_covered ws view \<Longrightarrow> set ws \<subseteq> set ws' \<Longrightarrow> view_covered ws' view"
  unfolding view_covered_def by blast

lemma view_covered_compress:
  assumes "\<forall>view \<in> snd ` set views. view_covered ws view"
  shows "view_covered ws (compress_updates_views views)"
  using assms unfolding view_covered_def
  by (auto simp: bm_get_compress_updates_views dest!: first_update_SomeD)

lemma covered_snapshot:
  assumes iso: "\<And>w. w \<in> set ws \<Longrightarrow> isolated w r" and "view_covered ws view" and cols: "set vcols \<subseteq> set (rr_val_col_region r)"
    and "storage_ok kcols storage" and "view_ok kcols view" and "region_typed kcols (rr_row_region r)"
  shows "simple_presence_snapshot (commit_to_storage storage t view) schema (rr_row_region r) vcols t' =
    simple_presence_snapshot storage schema (rr_row_region r) vcols t'"
proof -
  have "bm_get view key = None" if "region_wants (rr_row_region r) vcols key" for key
  proof (rule ccontr)
    assume "bm_get view key \<noteq> None"
    then obtain v where "bm_get view key = Some v" by blast
    with assms(2) obtain w where "w \<in> set ws" "view_within w [(key, v)]" unfolding view_covered_def by blast
    from isolated_disjoint [OF iso [OF this(1)] this(2) cols that] show False by simp
  qed
  with assms(4-6) show ?thesis
    by (intro simple_presence_snapshot_cong [OF storage_ok_commit]) (auto simp: read_cell_commit)
qed

section \<open>The invariant of the application\<close>

definition lock_ok :: "tablet_ctx \<Rightarrow> fq_inner \<Rightarrow> bool" where
  "lock_ok c i \<longleftrightarrow>
     view_ok (key_cols (t_schema c)) (fq_update_view i) \<and>
     view_covered (m_write_protected (fq_region_lock i)) (fq_update_view i)"

definition fq_pend :: "fq_inner \<Rightarrow> tablet_ctx \<Rightarrow> bool" where
  "fq_pend i c \<longleftrightarrow> bm_get (inserting_prepared_writes c) (fq_timestamp i) = Some (fq_region_lock i) \<and> lock_ok c i"

definition fq_prep :: "fq_inner \<Rightarrow> tablet_ctx \<Rightarrow> bool" where
  "fq_prep i c \<longleftrightarrow> bm_get (prepared_writes c) (fq_timestamp i) = Some (fq_region_lock i) \<and> lock_ok c i"

text \<open>The update views of a transaction stay within the regions it may write.\<close>

definition views_ok :: "(query_id, ms_query_es) btree \<Rightarrow> tablet_ctx \<Rightarrow> bool" where
  "views_ok ess c \<longleftrightarrow>
     (\<forall>qid es. bm_get ess qid = Some es \<longrightarrow>
        (\<exists>v. bm_get (verifying_writes c) (ms_timestamp es) = Some v \<and> v_orig_p v = qid \<and>
           (\<forall>view \<in> snd ` set (ms_update_views es).
              view_ok (key_cols (t_schema c)) view \<and> view_covered (v_write_protected v) view)))"

definition fq_inv :: "(query_id, ms_query_es) btree \<Rightarrow> tablet_ctx \<Rightarrow> bool" where
  "fq_inv ess c \<longleftrightarrow>
     loop_ok (ess, c) \<and> bm_wf ess \<and> views_ok ess c \<and> storage_ok (key_cols (t_schema c)) (t_storage c)"

text \<open>What the callbacks leave alone.\<close>

definition fq_keeps :: "tablet_ctx \<Rightarrow> tablet_ctx \<Rightarrow> bool" where
  "fq_keeps c c' \<longleftrightarrow>
     reads_kept c c' \<and> t_this_sid c' = t_this_sid c \<and> t_this_tid c' = t_this_tid c \<and> t_this_eid c' = t_this_eid c \<and>
     t_leader_map c' = t_leader_map c \<and> t_schema c' = t_schema c \<and> presence_timestamp c' = presence_timestamp c \<and>
     waiting_read_protected c' = waiting_read_protected c \<and> inserting_read_protected c' = inserting_read_protected c \<and>
     read_protected c' = read_protected c \<and> waiting_locked_cols c' = waiting_locked_cols c \<and>
     inserting_locked_cols c' = inserting_locked_cols c \<and> tablet_bundle c' = tablet_bundle c"

lemma fq_keeps_refl: "fq_keeps c c"
  by (simp add: fq_keeps_def)

lemma fq_keeps_trans: "fq_keeps c c' \<Longrightarrow> fq_keeps c' c'' \<Longrightarrow> fq_keeps c c''"
  unfolding fq_keeps_def by (auto intro: reads_kept_trans)

lemma fq_inv_parts:
  assumes "fq_inv ess c"
  shows "tablet_wf c" and "region_inv c" and "tablet_typed c" and "ess_linked ess c" and "bm_wf ess" and "views_ok ess c"
    and "storage_ok (key_cols (t_schema c)) (t_storage c)"
  using assms by (auto simp: fq_inv_def loop_ok_def)

lemma fq_inv_I:
  assumes "tablet_wf c" and "region_inv c" and "tablet_typed c" and "ess_linked ess c" and "bm_wf ess" and "views_ok ess c"
    and "storage_ok (key_cols (t_schema c)) (t_storage c)"
  shows "fq_inv ess c"
  using assms by (simp add: fq_inv_def loop_ok_def)

lemma views_ok_cong:
  "views_ok ess c \<Longrightarrow> verifying_writes c' = verifying_writes c \<Longrightarrow> key_cols (t_schema c') = key_cols (t_schema c) \<Longrightarrow> views_ok ess c'"
  by (simp add: views_ok_def)

lemma ess_linked_cong: "ess_linked ess c \<Longrightarrow> verifying_writes c' = verifying_writes c \<Longrightarrow> ess_linked ess c'"
  by (simp add: ess_linked_def)

section \<open>The callbacks\<close>

lemma fq_early_contract:
  assumes inv: "fq_inv ess c" and p: "fq_pend i c"
  shows "\<exists>c'. fq_early_aborted i c = Some (i, c') \<and> fq_inv ess c' \<and> fq_keeps c c' \<and> frame fq_pend fq_prep fq_timestamp (fq_timestamp i) c c'"
proof -
  note parts = fq_inv_parts [OF inv]
  define c' where "c' = c\<lparr>inserting_prepared_writes := bm_remove (fq_timestamp i) (inserting_prepared_writes c)\<rparr>"
  have h: "fq_early_aborted i c = Some (i, c')" by (simp add: fq_early_aborted_def c'_def)
  have "fq_inv ess c'"
  proof (rule fq_inv_I)
    show "tablet_wf c'" "region_inv c'" using fq_early_aborted_ok [OF h parts(1,2)] by auto
    show "tablet_typed c'"
      by (rule tablet_typed_mono [OF parts(3)]) (auto simp: c'_def writes_at_def waiting_at_def split: if_splits)
    show "views_ok ess c'" "ess_linked ess c'" "bm_wf ess" "storage_ok (key_cols (t_schema c')) (t_storage c')"
      using parts by (simp_all add: views_ok_def ess_linked_def c'_def)
  qed
  moreover have "fq_keeps c c'" unfolding fq_keeps_def by (auto intro!: reads_kept_same simp: c'_def)
  moreover have "frame fq_pend fq_prep fq_timestamp (fq_timestamp i) c c'"
    by (auto simp: frame_def fq_pend_def fq_prep_def lock_ok_def c'_def)
  ultimately show ?thesis using h by blast
qed

lemma fq_prepared_contract:
  assumes inv: "fq_inv ess c" and p: "fq_pend i c"
  shows "\<exists>c'. fq_prepared_plm_inserted i c = Some (i, c') \<and> fq_inv ess c' \<and> fq_keeps c c' \<and>
    frame fq_pend fq_prep fq_timestamp (fq_timestamp i) c c' \<and> fq_prep i c'"
proof -
  note parts = fq_inv_parts [OF inv]
  have lock: "bm_get (inserting_prepared_writes c) (fq_timestamp i) = Some (fq_region_lock i)" using p by (simp add: fq_pend_def)
  define c' where "c' = c\<lparr>inserting_prepared_writes := bm_remove (fq_timestamp i) (inserting_prepared_writes c),
    prepared_writes := bm_insert (fq_timestamp i) (fq_region_lock i) (prepared_writes c)\<rparr>"
  have h: "fq_prepared_plm_inserted i c = Some (i, c')" by (simp add: fq_prepared_plm_inserted_def c'_def)
  have "fq_inv ess c'"
  proof (rule fq_inv_I)
    show "tablet_wf c'" "region_inv c'" using fq_prepared_plm_inserted_ok [OF h parts(1,2) lock] by auto
    show "tablet_typed c'"
      by (rule tablet_typed_mono [OF parts(3)]) (auto simp: c'_def writes_at_def waiting_at_def in_at lock split: if_splits)
    show "views_ok ess c'" "ess_linked ess c'" "bm_wf ess" "storage_ok (key_cols (t_schema c')) (t_storage c')"
      using parts by (simp_all add: views_ok_def ess_linked_def c'_def)
  qed
  moreover have "fq_keeps c c'" unfolding fq_keeps_def by (auto intro!: reads_kept_same simp: c'_def)
  moreover have "frame fq_pend fq_prep fq_timestamp (fq_timestamp i) c c'" "fq_prep i c'"
    using p by (auto simp: frame_def fq_pend_def fq_prep_def lock_ok_def c'_def)
  ultimately show ?thesis using h by blast
qed

lemma fq_aborted_contract:
  assumes inv: "fq_inv ess c" and p: "fq_prep i c"
  shows "\<exists>c'. fq_aborted_plm_inserted i c = Some (i, c') \<and> fq_inv ess c' \<and> fq_keeps c c' \<and>
    frame fq_pend fq_prep fq_timestamp (fq_timestamp i) c c'"
proof -
  note parts = fq_inv_parts [OF inv]
  define c' where "c' = c\<lparr>prepared_writes := bm_remove (fq_timestamp i) (prepared_writes c)\<rparr>"
  have h: "fq_aborted_plm_inserted i c = Some (i, c')" using p by (simp add: fq_aborted_plm_inserted_def c'_def fq_prep_def)
  have "fq_inv ess c'"
  proof (rule fq_inv_I)
    show "tablet_wf c'" "region_inv c'" using fq_aborted_plm_inserted_ok [OF h parts(1,2)] by auto
    show "tablet_typed c'"
      by (rule tablet_typed_mono [OF parts(3)]) (auto simp: c'_def writes_at_def waiting_at_def split: if_splits)
    show "views_ok ess c'" "ess_linked ess c'" "bm_wf ess" "storage_ok (key_cols (t_schema c')) (t_storage c')"
      using parts by (simp_all add: views_ok_def ess_linked_def c'_def)
  qed
  moreover have "fq_keeps c c'" unfolding fq_keeps_def by (auto intro!: reads_kept_same simp: c'_def)
  moreover have "frame fq_pend fq_prep fq_timestamp (fq_timestamp i) c c'"
    by (auto simp: frame_def fq_pend_def fq_prep_def lock_ok_def c'_def)
  ultimately show ?thesis using h by blast
qed

text \<open>The commit: no protected read sees it.\<close>

lemma commit_reads_kept:
  assumes inv: "fq_inv ess c" and p: "fq_prep i c"
    and c': "c' = c\<lparr>t_storage := commit_to_storage (t_storage c) (fq_timestamp i) (fq_update_view i),
      prepared_writes := bm_remove (fq_timestamp i) (prepared_writes c),
      committed_writes := bm_insert (fq_timestamp i) (fq_region_lock i) (committed_writes c)\<rparr>"
  shows "reads_kept c c'"
proof -
  note parts = fq_inv_parts [OF inv]
  have view: "view_ok (key_cols (t_schema c)) (fq_update_view i)"
    "view_covered (m_write_protected (fq_region_lock i)) (fq_update_view i)"
    and lock: "bm_get (prepared_writes c) (fq_timestamp i) = Some (fq_region_lock i)"
    using p by (auto simp: fq_prep_def lock_ok_def)
  have free: "bm_get (committed_writes c) (fq_timestamp i) = None" using parts(1) lock unfolding tablet_wf_def by blast
  have writes: "w \<in> writes_at c (fq_timestamp i)" if "w \<in> set (m_write_protected (fq_region_lock i))" for w
    using that lock by (simp add: writes_at_def at_def)
  have "sees_same c c' t r" if pr: "protected_read c t r" for t r
    unfolding sees_same_def
  proof (intro allI impI)
    fix schema vcols
    assume cols: "set vcols \<subseteq> set (rr_val_col_region r)" and ty: "region_typed (key_cols (t_schema c)) (rr_row_region r)"
    show "simple_presence_snapshot (t_storage c') schema (rr_row_region r) vcols t =
      simple_presence_snapshot (t_storage c) schema (rr_row_region r) vcols t"
    proof (cases "t < fq_timestamp i")
      case True
      then show ?thesis using snapshot_before_commit [OF parts(7) view(1) ty] by (simp add: c')
    next
      case False
      have "isolated w r" if "w \<in> set (m_write_protected (fq_region_lock i))" for w
      proof -
        from pr have "(\<exists>t' \<ge> t. r \<in> reads_at c t') \<or> (\<exists>t' > t. r \<in> m_reads_at c t')"
          unfolding protected_read_def reads_at_def m_reads_at_def by blast
        with False writes [OF that] parts(2) show ?thesis unfolding region_inv_def by (meson le_less_trans leI order_trans)
      qed
      then show ?thesis using covered_snapshot [OF _ view(2) cols parts(7) view(1) ty] by (simp add: c')
    qed
  qed
  moreover have "protected_read c t r \<Longrightarrow> protected_read c' t r" for t r
    by (erule protected_read_mono) (auto simp: c' at_def free)
  ultimately show ?thesis by (simp add: reads_kept_def c')
qed

lemma fq_committed_contract:
  assumes inv: "fq_inv ess c" and p: "fq_prep i c"
  shows "\<exists>c'. fq_committed_plm_inserted qid i c = Some (i, c') \<and> fq_inv ess c' \<and> fq_keeps c c' \<and>
    frame fq_pend fq_prep fq_timestamp (fq_timestamp i) c c'"
proof -
  note parts = fq_inv_parts [OF inv]
  have view: "view_ok (key_cols (t_schema c)) (fq_update_view i)"
    and lock: "bm_get (prepared_writes c) (fq_timestamp i) = Some (fq_region_lock i)"
    using p by (auto simp: fq_prep_def lock_ok_def)
  define c' where "c' = c\<lparr>t_storage := commit_to_storage (t_storage c) (fq_timestamp i) (fq_update_view i),
      prepared_writes := bm_remove (fq_timestamp i) (prepared_writes c),
      committed_writes := bm_insert (fq_timestamp i) (fq_region_lock i) (committed_writes c)\<rparr>"
  have h: "fq_committed_plm_inserted qid i c = Some (i, c')" using lock by (simp add: fq_committed_plm_inserted_def c'_def)
  have "fq_inv ess c'"
  proof (rule fq_inv_I)
    show "tablet_wf c'" "region_inv c'" using fq_committed_plm_inserted_ok [OF h parts(1,2)] by auto
    show "tablet_typed c'"
      by (rule tablet_typed_mono [OF parts(3)]) (auto simp: c'_def writes_at_def waiting_at_def split: if_splits)
    show "views_ok ess c'" "ess_linked ess c'" "bm_wf ess" "storage_ok (key_cols (t_schema c')) (t_storage c')"
      using parts storage_ok_commit [OF parts(7) view] by (simp_all add: views_ok_def ess_linked_def c'_def)
  qed
  moreover have "fq_keeps c c'" unfolding fq_keeps_def
    by (intro conjI commit_reads_kept [OF inv p c'_def]) (simp_all add: c'_def)
  moreover have "frame fq_pend fq_prep fq_timestamp (fq_timestamp i) c c'"
    by (auto simp: frame_def fq_pend_def fq_prep_def lock_ok_def c'_def)
  ultimately show ?thesis using h by blast
qed

lemma ess_remove_ok:
  assumes "ess_linked ess c" and "bm_get ess qid = Some es" and "bm_get (verifying_writes c) (ms_timestamp es) = Some v" "v_orig_p v = qid"
    and "verifying_writes c' = bm_remove (ms_timestamp es) (verifying_writes c)" and "key_cols (t_schema c') = key_cols (t_schema c)"
  shows "ess_linked (bm_remove qid ess) c'" and "views_ok ess c \<Longrightarrow> views_ok (bm_remove qid ess) c'"
proof -
  show "ess_linked (bm_remove qid ess) c'"
    using assms(1,2,5) unfolding ess_linked_def by (fastforce split: if_splits)
  show "views_ok (bm_remove qid ess) c'" if views: "views_ok ess c"
    unfolding views_ok_def
  proof (intro allI impI)
    fix qid' es' assume "bm_get (bm_remove qid ess) qid' = Some es'"
    then have q: "qid' \<noteq> qid" "bm_get ess qid' = Some es'" by (auto split: if_splits)
    with views obtain v' where v': "bm_get (verifying_writes c) (ms_timestamp es') = Some v'" "v_orig_p v' = qid'"
      "\<forall>view \<in> snd ` set (ms_update_views es'). view_ok (key_cols (t_schema c)) view \<and> view_covered (v_write_protected v') view"
      unfolding views_ok_def by blast
    with assms(3,4) q have "ms_timestamp es' \<noteq> ms_timestamp es" by auto
    with v' show "\<exists>v. bm_get (verifying_writes c') (ms_timestamp es') = Some v \<and> v_orig_p v = qid' \<and>
        (\<forall>view \<in> snd ` set (ms_update_views es'). view_ok (key_cols (t_schema c')) view \<and> view_covered (v_write_protected v) view)"
      by (simp add: assms(5,6))
  qed
qed

lemma fq_new_contract:
  assumes inv: "fq_inv ess c" and h: "fq_new qid ess c = Some (Some i, ess', c')"
  shows "fq_inv ess' c' \<and> fq_keeps c c' \<and> frame fq_pend fq_prep fq_timestamp (fq_timestamp i) c c' \<and> fq_pend i c' \<and>
    (\<forall>j. fq_pend j c \<or> fq_prep j c \<longrightarrow> fq_timestamp j \<noteq> fq_timestamp i)"
proof -
  note parts = fq_inv_parts [OF inv]
  from h obtain es v where es: "bm_get ess qid = Some es" and v: "bm_get (verifying_writes c) (ms_timestamp es) = Some v"
    and ess': "ess' = bm_remove qid ess"
    and i: "i = \<lparr>fq_sharding_gen = ms_sharding_gen es,
      fq_region_lock = \<lparr>rw_orig_p = v_orig_p v, m_read_protected = v_read_protected v, m_write_protected = v_write_protected v\<rparr>,
      fq_timestamp = ms_timestamp es, fq_update_view = compress_updates_views (ms_update_views es)\<rparr>"
    and c': "c' = c\<lparr>ms_root_query_map := bm_remove (ms_root_query_id es) (ms_root_query_map c),
      verifying_writes := bm_remove (ms_timestamp es) (verifying_writes c),
      inserting_prepared_writes := bm_insert (ms_timestamp es)
        \<lparr>rw_orig_p = v_orig_p v, m_read_protected = v_read_protected v, m_write_protected = v_write_protected v\<rparr>
        (inserting_prepared_writes c)\<rparr>"
    by (auto simp: fq_new_def bind_eq_Some_conv Let_def split: if_splits option.splits)
  from parts(6) es v have orig: "v_orig_p v = qid" and views: "\<forall>view \<in> snd ` set (ms_update_views es).
      view_ok (key_cols (t_schema c)) view \<and> view_covered (v_write_protected v) view"
    unfolding views_ok_def by fastforce+
  have free: "bm_get (inserting_prepared_writes c) (ms_timestamp es) = None" "bm_get (prepared_writes c) (ms_timestamp es) = None"
    using parts(1) v unfolding tablet_wf_def by blast+
  note rem = ess_remove_ok [OF parts(4) es v orig, of c']
  have "fq_inv ess' c'"
  proof (rule fq_inv_I)
    show "tablet_wf c'" "region_inv c'" using fq_new_ok [OF h parts(1,2)] by auto
    show "tablet_typed c'"
      by (rule tablet_typed_mono [OF parts(3)]) (auto simp: c' writes_at_def waiting_at_def in_at v split: if_splits)
    show "ess_linked ess' c'" "views_ok ess' c'" unfolding ess' using rem parts(6) by (simp_all add: c')
    show "bm_wf ess'" "storage_ok (key_cols (t_schema c')) (t_storage c')" using parts by (simp_all add: ess' c')
  qed
  moreover have "fq_keeps c c'" unfolding fq_keeps_def by (auto intro!: reads_kept_same simp: c')
  moreover have "frame fq_pend fq_prep fq_timestamp (fq_timestamp i) c c'"
    by (auto simp: frame_def fq_pend_def fq_prep_def lock_ok_def c' i)
  moreover have "fq_pend i c'"
    using views view_ok_compress [of "ms_update_views es"] view_covered_compress [of "ms_update_views es"]
    by (simp add: fq_pend_def lock_ok_def c' i)
  moreover have "fq_pend j c \<or> fq_prep j c \<longrightarrow> fq_timestamp j \<noteq> fq_timestamp i" for j
    using free by (auto simp: fq_pend_def fq_prep_def i)
  ultimately show ?thesis by blast
qed

interpretation fq: rm_contract fq_rm fq_inv fq_pend fq_prep fq_timestamp fq_keeps
proof
  fix c c' assume "fq_keeps c c'"
  then show "same_env fq_rm c c'" by (simp add: same_env_def fq_rm_def fq_keeps_def tablet_is_leader_def)
next
  fix qid ess c ess' c' assume "inner_new fq_rm qid ess c = Some (None, ess', c')"
  then show "ess' = ess \<and> c' = c"
    by (auto simp: fq_rm_def fq_new_def bind_eq_Some_conv Let_def split: if_splits option.splits)
next
  fix i c show "\<exists>p. mk_prepared_plm fq_rm i c = Some (p, i, c) \<and> (\<forall>d. inner_new_follower fq_rm p d = Some (i, d))"
    by (simp add: fq_rm_def)
qed (simp_all add: fq_keeps_refl fq_rm_def fq_new_contract fq_early_contract fq_prepared_contract fq_committed_contract
    fq_aborted_contract, metis fq_keeps_trans)

text \<open>A follower has what the leader persisted and nothing else.\<close>

definition fq_sim :: "endpoint_id \<Rightarrow> tablet_ctx \<Rightarrow> tablet_ctx \<Rightarrow> bool" where
  "fq_sim eid c d \<longleftrightarrow>
     d = c\<lparr>t_this_eid := eid, verifying_writes := [], inserting_prepared_writes := [], waiting_read_protected := [],
           inserting_read_protected := [], waiting_locked_cols := [], inserting_locked_cols := [], ms_root_query_map := [],
           tablet_bundle := []\<rparr>"

interpretation fq: rm_replica fq_rm fq_inv fq_pend fq_prep fq_timestamp fq_keeps "fq_sim eid" for eid
proof
  fix c d assume "fq_sim eid c d"
  then show "rm_leader_map fq_rm d = rm_leader_map fq_rm c" by (cases d) (simp add: fq_sim_def fq_rm_def)
next
  fix c d qid ess made ess' c' assume "fq_sim eid c d" "inner_new fq_rm qid ess c = Some (made, ess', c')"
  then show "fq_sim eid c' d"
    by (auto simp: fq_sim_def fq_rm_def fq_new_def bind_eq_Some_conv Let_def split: if_splits option.splits)
next
  fix c d i i' c' assume "fq_sim eid c d" "early_aborted fq_rm i c = Some (i', c')"
  then show "fq_sim eid c' d" by (auto simp: fq_sim_def fq_rm_def fq_early_aborted_def)
next
  fix c d i i' c' assume "fq_sim eid c d" "fq_pend i c" "prepared_plm_inserted fq_rm i c = Some (i', c')"
  then show "\<exists>d'. prepared_plm_inserted fq_rm i d = Some (i', d') \<and> fq_sim eid c' d'"
    by (cases c; cases d) (auto simp: fq_sim_def fq_rm_def fq_prepared_plm_inserted_def bm_remove_def)
next
  fix c d i i' c' qid assume "fq_sim eid c d" "fq_prep i c" "committed_plm_inserted fq_rm qid i c = Some (i', c')"
  then show "\<exists>d'. committed_plm_inserted fq_rm qid i d = Some (i', d') \<and> fq_sim eid c' d'"
    by (cases c; cases d) (auto simp: fq_sim_def fq_rm_def fq_committed_plm_inserted_def bind_eq_Some_conv)
next
  fix c d i i' c' assume "fq_sim eid c d" "fq_prep i c" "aborted_plm_inserted fq_rm i c = Some (i', c')"
  then show "\<exists>d'. aborted_plm_inserted fq_rm i d = Some (i', d') \<and> fq_sim eid c' d'"
    by (cases c; cases d) (auto simp: fq_sim_def fq_rm_def fq_aborted_plm_inserted_def bind_eq_Some_conv)
qed

end
