(* ===== verification/Tablet_Safety.thy ===== *)
theory Tablet_Safety
  imports Tablet_Commit
begin

text \<open>
  A tablet as a state machine: what its leader does between two learned bundles, the learned
  bundles, and the takeover by another node of its group. The state is the leader's tablet and the
  bundle it has handed to the log. The invariant ties the region locks, the state machines of the
  commit protocol and the log entries under way together.
\<close>

section \<open>Log entries under way\<close>

definition get_req :: "(timestamp, requests) btree \<Rightarrow> timestamp \<Rightarrow> query_id \<Rightarrow> (read_region \<times> query_id) option" where
  "get_req m t qid = Option.bind (bm_get m t) (\<lambda>reqs. bm_get reqs qid)"

lemma get_req_Nil [simp]: "get_req [] t qid = None"
  by (simp add: get_req_def)

lemma get_req_insert [simp]:
  "get_req (requests_insert t qid req m) t' qid' = (if t' = t \<and> qid' = qid then Some req else get_req m t' qid')"
  by (auto simp: get_req_def requests_insert_def split: option.splits)

lemma get_req_remove:
  assumes "requests_remove t qid m = Some (req, m')"
  shows "get_req m t qid = Some req" and "get_req m' t' qid' = (if t' = t \<and> qid' = qid then None else get_req m t' qid')"
proof -
  from assms obtain reqs where r: "bm_get m t = Some reqs" "bm_get reqs qid = Some req"
    and m': "m' = (if bm_remove qid reqs = [] then bm_remove t m else bm_insert t (bm_remove qid reqs) m)"
    by (auto simp: requests_remove_def bind_eq_Some_conv Let_def split: if_splits)
  then show "get_req m t qid = Some req" by (simp add: get_req_def)
  have "get_req m' t qid' = bm_get (bm_remove qid reqs) qid'"
    by (cases "bm_remove qid reqs = []") (simp_all add: get_req_def m')
  moreover have "t' \<noteq> t \<Longrightarrow> get_req m' t' qid' = get_req m t' qid'" by (simp add: get_req_def m')
  ultimately show "get_req m' t' qid' = (if t' = t \<and> qid' = qid then None else get_req m t' qid')"
    using r by (cases "t' = t") (simp_all add: get_req_def)
qed

lemma get_req_removable:
  assumes "get_req m t qid = Some req"
  shows "\<exists>m'. requests_remove t qid m = Some (req, m')"
proof -
  from assms obtain reqs where "bm_get m t = Some reqs" "bm_get reqs qid = Some req"
    by (auto simp: get_req_def bind_eq_Some_conv)
  then show ?thesis by (simp add: requests_remove_def Let_def)
qed

datatype log_key = K_Cols query_id | K_Read timestamp query_id | K_Finish query_id

fun plm_key :: "tablet_plm \<Rightarrow> log_key" where
  "plm_key (PLm_LockedCols qid _ _) = K_Cols qid"
| "plm_key (PLm_ReadProtected qid t _) = K_Read t qid"
| "plm_key (PLm_FinishQuery plm) = K_Finish (plm_qid plm)"

text \<open>The leader holds what it needs to learn an entry.\<close>

fun expected :: "tablet_ctx \<Rightarrow> (query_id, fq_outer) btree \<Rightarrow> tablet_plm \<Rightarrow> bool" where
  "expected c con (PLm_LockedCols qid _ _) = (bm_get (inserting_locked_cols c) qid \<noteq> None)"
| "expected c con (PLm_ReadProtected qid t region) = (\<exists>orig. get_req (inserting_read_protected c) t qid = Some (region, orig))"
| "expected c con (PLm_FinishQuery plm) = plm_due fq_rm con plm"

definition queue_ok :: "tablet_plm list \<Rightarrow> tablet_ctx \<Rightarrow> (query_id, fq_outer) btree \<Rightarrow> bool" where
  "queue_ok plms c con \<longleftrightarrow> distinct (map plm_key plms) \<and> (\<forall>plm \<in> set plms. expected c con plm)"

text \<open>Requests have ids of their own.\<close>

definition ids_fresh :: "tablet_ctx \<Rightarrow> bool" where
  "ids_fresh c \<longleftrightarrow>
     (\<forall>t qid. get_req (waiting_read_protected c) t qid \<noteq> None \<longrightarrow> get_req (inserting_read_protected c) t qid = None) \<and>
     (\<forall>qid. bm_get (waiting_locked_cols c) qid \<noteq> None \<longrightarrow> bm_get (inserting_locked_cols c) qid = None)"

text \<open>The invariant; \<open>plms\<close> are the entries handed to the log and not learned yet.\<close>

abbreviation fq_con_ok :: "tablet_ctx \<Rightarrow> (query_id, fq_outer) btree \<Rightarrow> bool" where
  "fq_con_ok \<equiv> con_ok fq_rm fq_pend fq_prep fq_timestamp"

definition ctx_ok :: "tablet_plm list \<Rightarrow> (query_id, fq_outer) btree \<Rightarrow> (query_id, ms_query_es) btree \<Rightarrow> tablet_ctx \<Rightarrow> bool" where
  "ctx_ok plms con ess c \<longleftrightarrow>
     tablet_is_leader c = Some True \<and> fq_inv ess c \<and> fq_con_ok c con \<and> ids_fresh c \<and> queue_ok (plms @ tablet_bundle c) c con"

definition tablet_ok :: "tablet \<times> tablet_plm list \<Rightarrow> bool" where
  "tablet_ok s \<longleftrightarrow> (case s of (tb, plms) \<Rightarrow> ctx_ok plms (finish_query_ess tb) (ms_query_ess tb) (tb_ctx tb))"

section \<open>The steps\<close>

text \<open>
  What the leader does with its requests, its transactions and the messages of the commit protocol. A single iteration
  of the main loop is a step too: between two iterations the execution states that were informed may make requests.
\<close>

inductive local_step :: "tablet \<Rightarrow> tablet \<Rightarrow> bool" where
  register:
    "get_msquery_id new_qid root root_sid root_lid gen t (ms_query_ess tb) (tb_ctx tb) = Some (Inr (qid, ess, c)) \<Longrightarrow>
     bm_get (ms_query_ess tb) new_qid = None \<Longrightarrow>
     local_step tb (tb\<lparr>tb_ctx := c, ms_query_ess := ess\<rparr>)"
| tx_read:
    "region_typed (key_cols (t_schema (tb_ctx tb))) (rr_row_region region) \<Longrightarrow>
     request_region_read qid orig t region (tb_ctx tb) = Some c \<Longrightarrow>
     local_step tb (tb\<lparr>tb_ctx := c\<rparr>)"
| tx_write:
    "region_typed (key_cols (t_schema (tb_ctx tb))) (rr_row_region region) \<Longrightarrow>
     region_typed (key_cols (t_schema (tb_ctx tb))) (wr_row_region w) \<Longrightarrow>
     request_region_write qid orig t region w (tb_ctx tb) = Some (Some c) \<Longrightarrow>
     local_step tb (tb\<lparr>tb_ctx := c\<rparr>)"
| table_read:
    "region_typed (key_cols (t_schema (tb_ctx tb))) (rr_row_region region) \<Longrightarrow>
     get_req (inserting_read_protected (tb_ctx tb)) t qid = None \<Longrightarrow>
     local_step tb (tb\<lparr>tb_ctx := request_table_read qid orig t region (tb_ctx tb)\<rparr>)"
| lock_cols:
    "bm_get (inserting_locked_cols (tb_ctx tb)) qid = None \<Longrightarrow>
     local_step tb (tb\<lparr>tb_ctx := add_requested_locked_columns qid orig t cols (tb_ctx tb)\<rparr>)"
| update_view:
    "bm_get (ms_query_ess tb) qid = Some es \<Longrightarrow> bm_get (verifying_writes (tb_ctx tb)) (ms_timestamp es) = Some v \<Longrightarrow>
     view_ok (key_cols (t_schema (tb_ctx tb))) view \<Longrightarrow> view_covered (v_write_protected v) view \<Longrightarrow>
     add_update_view qid tier view (ms_query_ess tb) = Some ess \<Longrightarrow>
     local_step tb (tb\<lparr>ms_query_ess := ess\<rparr>)"
| exit_tx:
    "exit_ms_query_es qid (ms_query_ess tb) (tb_ctx tb) = Some (ess, c) \<Longrightarrow>
     local_step tb (tb\<lparr>tb_ctx := c, ms_query_ess := ess\<rparr>)"
| main_loop:
    "run_main_loop (tb_ddl_es tb) (ms_query_ess tb, tb_ctx tb) = Some (told, ess, c) \<Longrightarrow>
     local_step tb (tb\<lparr>tb_ctx := c, ms_query_ess := ess\<rparr>)"
| iteration:
    "run_main_loop_iteration (tb_ddl_es tb) (ms_query_ess tb, tb_ctx tb) = Some (Some (told, ess, c)) \<Longrightarrow>
     local_step tb (tb\<lparr>tb_ctx := c, ms_query_ess := ess\<rparr>)"
| finish_msg:
    "tablet_finish_query_msg msg tb = Some (sends, tb') \<Longrightarrow> local_step tb tb'"

text \<open>The entries of a bundle, with local steps after each of them.\<close>

inductive learn_steps :: "tablet_plm list \<Rightarrow> tablet \<Rightarrow> tablet \<Rightarrow> bool" where
  learned: "local_step\<^sup>*\<^sup>* tb tb' \<Longrightarrow> learn_steps [] tb tb'"
| entry: "apply_plm plm tb = Some (told, sends, tb1) \<Longrightarrow> local_step\<^sup>*\<^sup>* tb1 tb2 \<Longrightarrow> learn_steps plms tb2 tb' \<Longrightarrow> learn_steps (plm # plms) tb tb'"

text \<open>All steps: those of the leader, changes of the schema and of remote leaderships, the log, the takeover.\<close>

inductive tablet_step :: "tablet \<times> tablet_plm list \<Rightarrow> tablet \<times> tablet_plm list \<Rightarrow> bool" where
  local: "local_step tb tb' \<Longrightarrow> tablet_step (tb, plms) (tb', plms)"
| schema_change:
    "key_cols schema = key_cols (t_schema (tb_ctx tb)) \<Longrightarrow>
     tablet_step (tb, plms) (tb\<lparr>tb_ctx := (tb_ctx tb)\<lparr>t_schema := schema\<rparr>, tb_ddl_es := ddl\<rparr>, plms)"
| remote_leader:
    "gid \<noteq> SlaveGid (t_this_sid (tb_ctx tb)) \<Longrightarrow>
     remote_leader_changed_loop \<lparr>rlc_gid = gid, rlc_lid = lid\<rparr> (finish_query_ess tb)
       (tb\<lparr>tb_ctx := (tb_ctx tb)\<lparr>t_leader_map := bm_insert gid lid (t_leader_map (tb_ctx tb))\<rparr>\<rparr>) = Some (sends, tb') \<Longrightarrow>
     tablet_step (tb, plms) (tb', plms)"
| learn:
    "tablet_learn plms tb = Some (told, sends, Some plms', tb') \<Longrightarrow> tablet_step (tb, plms) (tb', plms')"
| learn_replies:
    "learn_steps plms tb tb1 \<Longrightarrow> start_inserting_loop (finish_query_ess tb1) tb1 = Some (sends, tb2) \<Longrightarrow>
     tablet_step (tb, plms) (tb2\<lparr>tb_ctx := (tb_ctx tb2)\<lparr>tablet_bundle := []\<rparr>\<rparr>, tablet_bundle (tb_ctx tb2))"
| takeover:
    "lid_eid lid = eid \<Longrightarrow>
     tablet_leader_changed lid ddl (tablet_snapshot eid ddl' tb) = Some (told, sends, Some plms', tb') \<Longrightarrow>
     tablet_step (tb, plms) (tb', plms')"

section \<open>What depends on which part of the state\<close>

lemma fq_con_ok_cong:
  assumes "fq_con_ok c con" and "inserting_prepared_writes c' = inserting_prepared_writes c" and "prepared_writes c' = prepared_writes c"
    and "key_cols (t_schema c') = key_cols (t_schema c)"
    and "\<And>gid. bm_get (t_leader_map c) gid \<noteq> None \<Longrightarrow> bm_get (t_leader_map c') gid \<noteq> None"
  shows "fq_con_ok c' con"
proof -
  have "fq_pend i c' = fq_pend i c" "fq_prep i c' = fq_prep i c" for i
    using assms by (simp_all add: fq_pend_def fq_prep_def lock_ok_def)
  moreover have "rm_leader_map fq_rm c = t_leader_map c" "rm_leader_map fq_rm c' = t_leader_map c'" by (simp_all add: fq_rm_def)
  ultimately have "out_ok fq_rm fq_pend fq_prep c' qid out" if "out_ok fq_rm fq_pend fq_prep c qid out" for qid out
    using that assms(5) by (auto simp: out_ok_def split: rm_outer.splits if_splits)
  with assms(1) show ?thesis by (simp add: con_ok_def)
qed

lemma queue_ok_cong:
  assumes "queue_ok plms c con" and "\<And>plm. plm \<in> set plms \<Longrightarrow> expected c con plm \<Longrightarrow> expected c' con' plm"
  shows "queue_ok plms c' con'"
  using assms by (auto simp: queue_ok_def)

lemma queue_ok_tl: "queue_ok (plm # plms) c con \<Longrightarrow> queue_ok plms c con"
  by (simp add: queue_ok_def)

text \<open>A step that changes no lock, no state machine and no entry under way.\<close>

lemma ctx_ok_request:
  assumes ok: "ctx_ok plms con ess c" and inv: "fq_inv ess' c'" and fresh: "ids_fresh c'"
    and same: "inserting_prepared_writes c' = inserting_prepared_writes c" "prepared_writes c' = prepared_writes c"
      "t_schema c' = t_schema c" "t_leader_map c' = t_leader_map c" "t_this_sid c' = t_this_sid c" "t_this_eid c' = t_this_eid c"
      "inserting_read_protected c' = inserting_read_protected c" "inserting_locked_cols c' = inserting_locked_cols c"
      "tablet_bundle c' = tablet_bundle c"
  shows "ctx_ok plms con ess' c'"
proof -
  have "fq_con_ok c con" using ok by (simp add: ctx_ok_def)
  then have "fq_con_ok c' con" by (rule fq_con_ok_cong) (simp_all add: same)
  moreover have "expected c' con plm = expected c con plm" for plm by (cases plm) (simp_all add: same)
  then have "queue_ok (plms @ tablet_bundle c') c' con" using ok same by (simp add: ctx_ok_def queue_ok_def)
  moreover have "tablet_is_leader c' = Some True" using ok same by (simp add: ctx_ok_def tablet_is_leader_def)
  ultimately show ?thesis using inv fresh by (simp add: ctx_ok_def)
qed

lemma ctx_ok_parts:
  assumes "ctx_ok plms con ess c"
  shows "tablet_is_leader c = Some True" "fq_inv ess c" "fq_con_ok c con" "ids_fresh c" "queue_ok (plms @ tablet_bundle c) c con"
  using assms by (simp_all add: ctx_ok_def)

section \<open>Requests\<close>

lemma views_ok_grow:
  assumes "views_ok ess c" and "bm_get (verifying_writes c) t = Some v" and "v_orig_p v' = v_orig_p v"
    and "set (v_write_protected v) \<subseteq> set (v_write_protected v')"
    and "verifying_writes c' = bm_insert t v' (verifying_writes c)" and "key_cols (t_schema c') = key_cols (t_schema c)"
  shows "views_ok ess c'"
  unfolding views_ok_def
proof (intro allI impI)
  fix qid es assume "bm_get ess qid = Some es"
  with assms(1) obtain u where u: "bm_get (verifying_writes c) (ms_timestamp es) = Some u" "v_orig_p u = qid"
    "\<forall>view \<in> snd ` set (ms_update_views es). view_ok (key_cols (t_schema c)) view \<and> view_covered (v_write_protected u) view"
    unfolding views_ok_def by blast
  show "\<exists>v. bm_get (verifying_writes c') (ms_timestamp es) = Some v \<and> v_orig_p v = qid \<and>
      (\<forall>view \<in> snd ` set (ms_update_views es). view_ok (key_cols (t_schema c')) view \<and> view_covered (v_write_protected v) view)"
  proof (cases "ms_timestamp es = t")
    case True
    with u assms(2-6) show ?thesis by (auto intro: view_covered_mono)
  next
    case False
    with u assms(5,6) show ?thesis by simp
  qed
qed

lemma ess_linked_grow:
  assumes "ess_linked ess c" and "bm_get (verifying_writes c) t = Some v" and "v_orig_p v' = v_orig_p v"
    and "verifying_writes c' = bm_insert t v' (verifying_writes c)"
  shows "ess_linked ess c'"
  using assms by (auto simp: ess_linked_def)

lemma tablet_typed_grow:
  assumes "tablet_typed c" and "key_cols (t_schema c') = key_cols (t_schema c)"
    and "\<And>t w. w \<in> writes_at c' t \<Longrightarrow> w \<in> writes_at c t \<or> region_typed (key_cols (t_schema c)) (wr_row_region w)"
    and "\<And>t r. r \<in> waiting_at c' t \<Longrightarrow> r \<in> waiting_at c t \<or> region_typed (key_cols (t_schema c)) (rr_row_region r)"
  shows "tablet_typed c'"
  using assms unfolding tablet_typed_def by metis

lemma tx_read_inv:
  assumes inv: "fq_inv ess c" and ty: "region_typed (key_cols (t_schema c)) (rr_row_region region)"
    and req: "request_region_read qid orig t region c = Some c'"
  shows "fq_inv ess c'"
proof -
  note parts = fq_inv_parts [OF inv]
  from req obtain v where v: "bm_get (verifying_writes c) t = Some v" and c': "c' = c\<lparr>verifying_writes := bm_insert t
      (v\<lparr>m_waiting_read_protected := bm_insert qid (region, orig) (m_waiting_read_protected v)\<rparr>) (verifying_writes c)\<rparr>"
    by (auto simp: request_region_read_def bind_eq_Some_conv)
  show ?thesis
  proof (rule fq_inv_I)
    show "tablet_wf c'" "region_inv c'" using request_region_read_ok [OF req parts(1,2)] by auto
    show "tablet_typed c'"
      by (rule tablet_typed_grow [OF parts(3)])
        (use v ty asked_insert [of qid "(region, orig)" "m_waiting_read_protected v"] in
          \<open>auto simp: c' writes_at_def waiting_at_def in_at split: if_splits\<close>)
    show "ess_linked ess c'" by (rule ess_linked_grow [OF parts(4) v]) (simp_all add: c')
    show "views_ok ess c'" by (rule views_ok_grow [OF parts(6) v]) (simp_all add: c')
    show "bm_wf ess" "storage_ok (key_cols (t_schema c')) (t_storage c')" using parts by (simp_all add: c')
  qed
qed

lemma tx_write_inv:
  assumes inv: "fq_inv ess c" and ty: "region_typed (key_cols (t_schema c)) (rr_row_region region)"
    and tw: "region_typed (key_cols (t_schema c)) (wr_row_region w)"
    and req: "request_region_write qid orig t region w c = Some (Some c')"
  shows "fq_inv ess c'"
proof -
  note parts = fq_inv_parts [OF inv]
  from req obtain v where v: "bm_get (verifying_writes c) t = Some v" and c': "c' = c\<lparr>verifying_writes := bm_insert t
      (v\<lparr>m_waiting_read_protected := bm_insert qid (region, orig) (m_waiting_read_protected v),
         v_write_protected := region_add w (v_write_protected v)\<rparr>) (verifying_writes c)\<rparr>"
    by (auto simp: request_region_write_def bind_eq_Some_conv split: if_splits)
  show ?thesis
  proof (rule fq_inv_I)
    show "tablet_wf c'" "region_inv c'" using request_region_write_ok [OF req parts(1,2)] by auto
    show "tablet_typed c'"
      by (rule tablet_typed_grow [OF parts(3)])
        (use v ty tw asked_insert [of qid "(region, orig)" "m_waiting_read_protected v"] in
          \<open>auto simp: c' writes_at_def waiting_at_def in_at split: if_splits\<close>)
    show "ess_linked ess c'" by (rule ess_linked_grow [OF parts(4) v]) (simp_all add: c')
    show "views_ok ess c'" by (rule views_ok_grow [OF parts(6) v]) (auto simp add: c')
    show "bm_wf ess" "storage_ok (key_cols (t_schema c')) (t_storage c')" using parts by (simp_all add: c')
  qed
qed

lemma at_requests_insert: "at (requests_insert t qid req m) t' asked \<subseteq> insert (fst req) (at m t' asked)"
  using asked_insert [of qid req "case bm_get m t of None \<Rightarrow> [] | Some reqs \<Rightarrow> reqs"]
  by (auto simp: at_def requests_insert_get simp del: bm_insert.simps split: if_splits option.splits)

lemma table_read_inv:
  assumes inv: "fq_inv ess c" and ty: "region_typed (key_cols (t_schema c)) (rr_row_region region)"
  shows "fq_inv ess (request_table_read qid orig t region c)"
proof -
  note parts = fq_inv_parts [OF inv]
  let ?c = "request_table_read qid orig t region c"
  show ?thesis
  proof (rule fq_inv_I)
    show "tablet_wf ?c" "region_inv ?c" using request_table_read_ok [OF parts(1,2)] by auto
    show "tablet_typed ?c"
      by (rule tablet_typed_grow [OF parts(3)])
        (use ty at_requests_insert [of t qid "(region, orig)" "waiting_read_protected c"] in
          \<open>auto simp: request_table_read_def writes_at_def waiting_at_def\<close>)
    show "ess_linked ess ?c" "views_ok ess ?c" "bm_wf ess" "storage_ok (key_cols (t_schema ?c)) (t_storage ?c)"
      using parts by (simp_all add: request_table_read_def ess_linked_def views_ok_def)
  qed
qed

lemma register_inv:
  assumes inv: "fq_inv ess c" and req: "get_msquery_id new_qid root sid lid gen t ess c = Some (Inr (qid, ess', c'))"
    and new: "bm_get ess new_qid = None"
  shows "fq_inv ess' c'"
proof (cases "bm_get (ms_root_query_map c) root")
  case (Some a)
  with assms show ?thesis by (simp add: get_msquery_id_def)
next
  case None
  note parts = fq_inv_parts [OF inv]
  have free: "bm_get (verifying_writes c) t = None"
    and c': "c' = c\<lparr>ms_root_query_map := bm_insert root new_qid (ms_root_query_map c),
      verifying_writes := bm_insert t \<lparr>v_orig_p = new_qid, m_waiting_read_protected = [],
        v_read_protected = [], v_write_protected = []\<rparr> (verifying_writes c)\<rparr>"
    and ess': "ess' = bm_insert new_qid \<lparr>ms_root_query_id = root, ms_sharding_gen = gen, ms_root_lid = lid,
      ms_timestamp = t, ms_update_views = [], pending_queries = []\<rparr> ess"
    using req by (auto simp: get_msquery_id_def None bind_eq_Some_conv bm_contains_def simp del: bm_contains_iff split: if_splits)
  show ?thesis
  proof (rule fq_inv_I)
    show "tablet_wf c'" "region_inv c'" using get_msquery_id_ok [OF req parts(1,2)] by auto
    show "tablet_typed c'"
      by (rule tablet_typed_mono [OF parts(3)]) (auto simp: c' writes_at_def waiting_at_def asked_def split: if_splits)
    show "ess_linked ess' c'" using parts(4) new by (fastforce simp: ess_linked_def c' ess')
    show "views_ok ess' c'" using parts(6) free by (fastforce simp: views_ok_def c' ess')
    show "bm_wf ess'" "storage_ok (key_cols (t_schema c')) (t_storage c')" using parts by (simp_all add: c' ess')
  qed
qed

lemma update_view_inv:
  assumes inv: "fq_inv ess c" and es: "bm_get ess qid = Some es" and v: "bm_get (verifying_writes c) (ms_timestamp es) = Some v"
    and view: "view_ok (key_cols (t_schema c)) view" "view_covered (v_write_protected v) view"
    and upd: "add_update_view qid tier view ess = Some ess'"
  shows "fq_inv ess' c"
proof -
  note parts = fq_inv_parts [OF inv]
  from upd es obtain tier' where ess': "ess' = bm_insert qid (es\<lparr>ms_update_views := bm_insert tier' view (ms_update_views es)\<rparr>) ess"
    by (auto simp: add_update_view_def bind_eq_Some_conv split: if_splits)
  have set_insert: "set (bm_insert k x m) \<subseteq> insert (k, x) (set m)" for k :: nat and x :: generic_table and m
    by (induction m) auto
  show ?thesis
  proof (rule fq_inv_I)
    show "ess_linked ess' c" using parts(4) es by (fastforce simp: ess_linked_def ess')
    from parts(6) es v have orig: "v_orig_p v = qid" and old: "\<forall>view \<in> snd ` set (ms_update_views es).
        view_ok (key_cols (t_schema c)) view \<and> view_covered (v_write_protected v) view"
      unfolding views_ok_def by fastforce+
    then have "\<forall>view \<in> snd ` set (bm_insert tier' view (ms_update_views es)).
        view_ok (key_cols (t_schema c)) view \<and> view_covered (v_write_protected v) view"
      using view set_insert [of tier' view "ms_update_views es"] by fastforce
    with orig parts(6) v show "views_ok ess' c" by (auto simp: views_ok_def ess')
    show "bm_wf ess'" using parts by (simp add: ess')
  qed (use parts in simp_all)
qed

section \<open>The main loop\<close>

text \<open>What is left of a tablet when everything that is not in the log is dropped.\<close>

definition persisted :: "tablet_ctx \<Rightarrow> tablet_ctx" where
  "persisted c =
     c\<lparr>verifying_writes := [], inserting_prepared_writes := [], waiting_read_protected := [], inserting_read_protected := [],
       waiting_locked_cols := [], inserting_locked_cols := [], ms_root_query_map := [], tablet_bundle := []\<rparr>"

lemma persisted_fields:
  assumes "persisted c' = persisted c"
  shows "t_storage c' = t_storage c" "t_schema c' = t_schema c" "read_protected c' = read_protected c"
    "committed_writes c' = committed_writes c" "prepared_writes c' = prepared_writes c" "t_leader_map c' = t_leader_map c"
    "t_this_sid c' = t_this_sid c" "t_this_eid c' = t_this_eid c"
  using arg_cong [OF assms, of t_storage] arg_cong [OF assms, of t_schema] arg_cong [OF assms, of read_protected]
    arg_cong [OF assms, of committed_writes] arg_cong [OF assms, of prepared_writes] arg_cong [OF assms, of t_leader_map]
    arg_cong [OF assms, of t_this_sid] arg_cong [OF assms, of t_this_eid]
  by (simp_all add: persisted_def)

lemma persisted_reads_kept: "persisted c' = persisted c \<Longrightarrow> reads_kept c c'"
  using persisted_fields [of c' c] by (intro reads_kept_same) simp_all

lemma exit_tx_Some:
  assumes "exit_ms_query_es qid ess c = Some (ess', c')"
  obtains es where "bm_get ess qid = Some es" and "ess' = bm_remove qid ess"
    and "c' = c\<lparr>ms_root_query_map := bm_remove (ms_root_query_id es) (ms_root_query_map c),
      verifying_writes := bm_remove (ms_timestamp es) (verifying_writes c)\<rparr>"
  using assms unfolding exit_ms_query_es_def by (cases "bm_get ess qid") auto

lemma exit_tx_inv:
  assumes inv: "fq_inv ess c" and ex: "exit_ms_query_es qid ess c = Some (ess', c')"
  shows "fq_inv ess' c'"
proof -
  note parts = fq_inv_parts [OF inv]
  from ex obtain es where es: "bm_get ess qid = Some es" and ess': "ess' = bm_remove qid ess"
    and c': "c' = c\<lparr>ms_root_query_map := bm_remove (ms_root_query_id es) (ms_root_query_map c),
      verifying_writes := bm_remove (ms_timestamp es) (verifying_writes c)\<rparr>"
    by (rule exit_tx_Some)
  from parts(6) es obtain v where v: "bm_get (verifying_writes c) (ms_timestamp es) = Some v" "v_orig_p v = qid"
    unfolding views_ok_def by blast
  note rem = ess_remove_ok [OF parts(4) es v, of c']
  show ?thesis
  proof (rule fq_inv_I)
    show "tablet_wf c'" "region_inv c'" using exit_ms_query_es_ok [OF ex parts(1,2)] by auto
    show "tablet_typed c'"
      by (rule tablet_typed_mono [OF parts(3)]) (auto simp: c' writes_at_def waiting_at_def at_def split: if_splits)
    show "ess_linked ess' c'" "views_ok ess' c'" unfolding ess' using rem parts(6) by (simp_all add: c')
    show "bm_wf ess'" "storage_ok (key_cols (t_schema c')) (t_storage c')" using parts by (simp_all add: ess' c')
  qed
qed

lemma exit_tx_ok:
  assumes ok: "ctx_ok plms con ess c" and ex: "exit_ms_query_es qid ess c = Some (ess', c')"
  shows "ctx_ok plms con ess' c' \<and> persisted c' = persisted c"
proof -
  from ex obtain es where "bm_get ess qid = Some es" "ess' = bm_remove qid ess" and c': "c' = c\<lparr>ms_root_query_map := bm_remove (ms_root_query_id es) (ms_root_query_map c),
      verifying_writes := bm_remove (ms_timestamp es) (verifying_writes c)\<rparr>"
    by (rule exit_tx_Some)
  have "ctx_ok plms con ess' c'"
    by (rule ctx_ok_request [OF ok exit_tx_inv [OF ctx_ok_parts(2) [OF ok] ex]])
      (use ctx_ok_parts(4) [OF ok] in \<open>simp_all add: c' ids_fresh_def\<close>)
  then show ?thesis by (simp add: c' persisted_def)
qed

text \<open>An entry that is pushed is new in the queue.\<close>

lemma queue_ok_push:
  assumes q: "queue_ok (plms @ tablet_bundle c) c con" and ex: "expected c' con plm" and b: "tablet_bundle c' = tablet_bundle c @ [plm]"
    and old: "\<And>p. expected c con p \<Longrightarrow> expected c' con p" and new: "\<And>p. expected c con p \<Longrightarrow> plm_key p \<noteq> plm_key plm"
  shows "queue_ok (plms @ tablet_bundle c') c' con"
  using assms by (auto simp: queue_ok_def) blast+

lemma grant_cols_ok:
  assumes ok: "ctx_ok plms con ess c" and g: "grant_local_locked_cols qid c = Some (told, c')"
  shows "ctx_ok plms con ess c' \<and> persisted c' = persisted c"
proof -
  note parts = ctx_ok_parts [OF ok]
  note inv = fq_inv_parts [OF parts(2)]
  from g obtain req where w: "bm_get (waiting_locked_cols c) qid = Some req"
    and c': "c' = c\<lparr>waiting_locked_cols := bm_remove qid (waiting_locked_cols c),
      inserting_locked_cols := bm_insert qid req (inserting_locked_cols c),
      tablet_bundle := tablet_bundle c @ [PLm_LockedCols qid (lc_timestamp req) (lc_cols req)]\<rparr>"
    by (auto simp: grant_local_locked_cols_def bind_eq_Some_conv push_plm_def)
  have il: "bm_wf (inserting_locked_cols c)" using inv(1) by (simp add: tablet_wf_def)
  have lo: "loop_ok (ess, c)" using parts(2) by (simp add: fq_inv_def)
  from cols_step [OF lo w bm_wf_insert [OF il]] have "loop_ok (ess, c')" by (simp add: c')
  then have "fq_inv ess c'" using inv by (simp add: fq_inv_def c' views_ok_def)
  moreover have "fq_con_ok c' con" by (rule fq_con_ok_cong [OF parts(3)]) (simp_all add: c')
  moreover have "ids_fresh c'" using parts(4) by (auto simp: ids_fresh_def c')
  moreover have free: "bm_get (inserting_locked_cols c) qid = None" using parts(4) w by (simp add: ids_fresh_def)
  have "queue_ok (plms @ tablet_bundle c') c' con"
  proof (rule queue_ok_push [OF parts(5)])
    show "expected c con p \<Longrightarrow> expected c' con p" for p by (cases p) (auto simp: c')
    show "expected c con p \<Longrightarrow> plm_key p \<noteq> plm_key (PLm_LockedCols qid (lc_timestamp req) (lc_cols req))" for p
      using free by (cases p) auto
  qed (simp_all add: c')
  moreover have "tablet_is_leader c' = Some True" using parts(1) by (simp add: c' tablet_is_leader_def)
  ultimately show ?thesis by (simp add: ctx_ok_def c' persisted_def)
qed

lemma grant_read_ok:
  assumes ok: "ctx_ok plms con ess c" and g: "grant_local_read_protected t qid c = Some (told, c')"
    and gr: "grant_ok c (Grant_Read t qid)"
  shows "ctx_ok plms con ess c' \<and> persisted c' = persisted c"
proof -
  note parts = ctx_ok_parts [OF ok]
  note inv = fq_inv_parts [OF parts(2)]
  from g obtain req m where m: "requests_remove t qid (waiting_read_protected c) = Some (req, m)"
    and c': "c' = c\<lparr>waiting_read_protected := m, inserting_read_protected := requests_insert t qid req (inserting_read_protected c),
      tablet_bundle := tablet_bundle c @ [PLm_ReadProtected qid t (fst req)]\<rparr>"
    by (auto simp: grant_local_read_protected_def remove_read_protected_request_def bind_eq_Some_conv push_plm_def)
  note rem = get_req_remove [OF m]
  have lo: "loop_ok (ess, c)" using parts(2) by (simp add: fq_inv_def)
  from grant_read_step [OF g lo gr] have "loop_ok (ess, c')" by simp
  then have "fq_inv ess c'" using inv by (simp add: fq_inv_def c' views_ok_def)
  moreover have "fq_con_ok c' con" by (rule fq_con_ok_cong [OF parts(3)]) (simp_all add: c')
  moreover have "ids_fresh c'" using parts(4) rem(2) by (auto simp: ids_fresh_def c' split: if_splits)
  moreover have free: "get_req (inserting_read_protected c) t qid = None" using parts(4) rem(1) by (simp add: ids_fresh_def)
  have "queue_ok (plms @ tablet_bundle c') c' con"
  proof (rule queue_ok_push [OF parts(5)])
    show "expected c con p \<Longrightarrow> expected c' con p" for p using free by (cases p) (auto simp: c')
    show "expected c con p \<Longrightarrow> plm_key p \<noteq> plm_key (PLm_ReadProtected qid t (fst req))" for p
      using free by (cases p) auto
  qed (simp_all add: c' prod_eq_iff)
  moreover have "tablet_is_leader c' = Some True" using parts(1) by (simp add: c' tablet_is_leader_def)
  ultimately show ?thesis by (simp add: ctx_ok_def c' persisted_def)
qed

lemma grant_m_read_ok:
  assumes ok: "ctx_ok plms con ess c" and g: "grant_m_local_read_protected t qid c = Some (told, c')"
    and gr: "grant_ok c (Grant_M_Read t qid)"
  shows "ctx_ok plms con ess c' \<and> persisted c' = persisted c"
proof -
  note parts = ctx_ok_parts [OF ok]
  note inv = fq_inv_parts [OF parts(2)]
  from g obtain v req where v: "bm_get (verifying_writes c) t = Some v"
    and c': "c' = c\<lparr>verifying_writes := bm_insert t
      (v\<lparr>m_waiting_read_protected := bm_remove qid (m_waiting_read_protected v),
         v_read_protected := region_add (fst req) (v_read_protected v)\<rparr>) (verifying_writes c)\<rparr>"
    by (auto simp: grant_m_local_read_protected_def bind_eq_Some_conv)
  have lo: "loop_ok (ess, c)" using parts(2) by (simp add: fq_inv_def)
  have "views_ok ess c'" by (rule views_ok_grow [OF inv(6) v]) (simp_all add: c')
  then have "fq_inv ess c'" using grant_m_read_step [OF g lo gr] inv by (simp add: fq_inv_def c')
  then have "ctx_ok plms con ess c'"
    by (rule ctx_ok_request [OF ok]) (use parts(4) in \<open>simp_all add: c' ids_fresh_def\<close>)
  then show ?thesis by (simp add: c' persisted_def)
qed

lemma cols_removed_ok:
  assumes ok: "ctx_ok plms con ess c" and w: "bm_get (waiting_locked_cols c) qid = Some req"
    and c': "c' = c\<lparr>waiting_locked_cols := bm_remove qid (waiting_locked_cols c)\<rparr>"
  shows "ctx_ok plms con ess c' \<and> persisted c' = persisted c"
proof -
  note parts = ctx_ok_parts [OF ok]
  note inv = fq_inv_parts [OF parts(2)]
  have il: "bm_wf (inserting_locked_cols c)" using inv(1) by (simp add: tablet_wf_def)
  have lo: "loop_ok (ess, c)" using parts(2) by (simp add: fq_inv_def)
  have "loop_ok (ess, c')" using cols_step [OF lo w il, of "tablet_bundle c"] by (simp add: c')
  then have "fq_inv ess c'" using inv by (simp add: fq_inv_def c' views_ok_def)
  then have "ctx_ok plms con ess c'"
    by (rule ctx_ok_request [OF ok]) (use parts(4) in \<open>simp_all add: c' ids_fresh_def\<close>)
  then show ?thesis by (simp add: c' persisted_def)
qed

lemma iteration_ctx_ok:
  assumes ok: "ctx_ok plms con ess c" and it: "run_main_loop_iteration ddl (ess, c) = Some (Some (told, ess', c'))"
  shows "ctx_ok plms con ess' c' \<and> persisted c' = persisted c"
proof -
  note inv = fq_inv_parts [OF ctx_ok_parts(2) [OF ok]]
  from it obtain a where a: "main_loop_action ddl c = Some (Some a)"
    by (auto simp: run_main_loop_iteration_def bind_eq_Some_conv split: option.splits)
  have grant: "grant_ok c a" if "\<exists>t qid. a = Grant_Read t qid \<or> a = Grant_M_Read t qid"
  proof -
    have "region_action c = Some (Some a)"
      using a that by (auto simp: main_loop_action_def bind_eq_Some_conv split: option.splits
          dest!: locked_cols_loop_Some deadlock_loop_Some)
    then show ?thesis by (rule region_action_sound [OF inv(1)])
  qed
  show ?thesis
  proof (cases a)
    case (Grant_Global_Cols qid)
    with it a cols_removed_ok [OF ok] show ?thesis by (auto simp: run_main_loop_iteration_def bind_eq_Some_conv)
  next
    case (Grant_Local_Cols qid)
    with it a grant_cols_ok [OF ok] show ?thesis by (auto simp: run_main_loop_iteration_def bind_eq_Some_conv)
  next
    case (Grant_Table_Dropped qid)
    with it a cols_removed_ok [OF ok] show ?thesis by (auto simp: run_main_loop_iteration_def bind_eq_Some_conv)
  next
    case (Grant_Read t qid)
    with it a grant_read_ok [OF ok] grant show ?thesis by (auto simp: run_main_loop_iteration_def bind_eq_Some_conv)
  next
    case (Grant_M_Read t qid)
    with it a grant_m_read_ok [OF ok] grant show ?thesis by (auto simp: run_main_loop_iteration_def bind_eq_Some_conv)
  next
    case (Deadlock_Abort qid t)
    with it a exit_tx_ok [OF ok] show ?thesis by (auto simp: run_main_loop_iteration_def bind_eq_Some_conv)
  qed
qed

lemma main_loop_ctx_ok:
  assumes "ctx_ok plms con ess c"
  shows "\<exists>told ess' c'. run_main_loop ddl (ess, c) = Some (told, ess', c') \<and> ctx_ok plms con ess' c' \<and> persisted c' = persisted c"
  using assms
proof (induction "load c" arbitrary: ess c rule: less_induct)
  case less
  have "loop_ok (ess, c)" using less.prems by (simp add: ctx_ok_def fq_inv_def)
  then show ?case
  proof (cases rule: iteration_ok [of _ _ ddl])
    case stop
    with less.prems show ?thesis by (auto simp: run_main_loop.simps [of ddl "(ess, c)"])
  next
    case (step told ess' c')
    from iteration_ctx_ok [OF less.prems step(1)] less.hyps [OF step(3), of ess'] obtain told' ess'' c'' where
      "run_main_loop ddl (ess', c') = Some (told', ess'', c'')" "ctx_ok plms con ess'' c''" "persisted c'' = persisted c" by auto
    with step(1) show ?thesis by (auto simp: run_main_loop.simps [of ddl "(ess, c)"])
  qed
qed

end
