(* ===== verification/Tablet_Steps.thy ===== *)
theory Tablet_Steps
  imports Tablet_Safety
begin

text \<open>
  Every step of a tablet keeps its invariant and what the protected reads see. So protected reads
  are repeatable for ever, a learned bundle never panics the leader, and a follower that learns the
  log is in the state that a snapshot of the leader would give it.
\<close>

section \<open>Effects\<close>

lemma perform_effects:
  "\<exists>sends'. fold perform_effect effs (sends, c) = (sends', c\<lparr>tablet_bundle := tablet_bundle c @ map PLm_FinishQuery (pushes effs)\<rparr>)"
proof (induction effs arbitrary: sends c)
  case (Cons e effs)
  show ?case
  proof (cases e)
    case (Push plm)
    then show ?thesis using Cons [of sends "push_plm (PLm_FinishQuery plm) c"] by (simp add: push_plm_def)
  next
    case (To_TM tm msg)
    then show ?thesis using Cons by simp
  qed
qed simp

lemma fq_inv_bundle: "fq_inv ess (c\<lparr>tablet_bundle := b\<rparr>) = fq_inv ess c"
proof -
  have "writes_at (c\<lparr>tablet_bundle := b\<rparr>) = writes_at c" "reads_at (c\<lparr>tablet_bundle := b\<rparr>) = reads_at c"
    "m_reads_at (c\<lparr>tablet_bundle := b\<rparr>) = m_reads_at c" "waiting_at (c\<lparr>tablet_bundle := b\<rparr>) = waiting_at c"
    by (simp_all add: writes_at_def reads_at_def m_reads_at_def waiting_at_def fun_eq_iff)
  then show ?thesis
    by (simp add: fq_inv_def loop_ok_def tablet_wf_def region_inv_def tablet_typed_def ess_linked_def views_ok_def)
qed

lemma queue_ok_Cons:
  "queue_ok (plm # plms) c con \<longleftrightarrow> plm_key plm \<notin> plm_key ` set plms \<and> expected c con plm \<and> queue_ok plms c con"
  by (auto simp: queue_ok_def)

lemma queue_ok_finish:
  assumes q: "queue_ok plms c con" and old: "\<And>p. PLm_FinishQuery p \<in> set plms \<Longrightarrow> plm_due fq_rm con p \<Longrightarrow> plm_due fq_rm con' p"
    and ins: "inserting_read_protected c' = inserting_read_protected c" "inserting_locked_cols c' = inserting_locked_cols c"
    and new: "new = [] \<or> (\<exists>p. new = [p] \<and> plm_due fq_rm con' p \<and> K_Finish (plm_qid p) \<notin> plm_key ` set plms)"
  shows "queue_ok (plms @ map PLm_FinishQuery new) c' con'"
proof -
  have "expected c' con' p" if "p \<in> set plms" for p
    using q that old ins by (cases p) (auto simp: queue_ok_def)
  with q new show ?thesis by (auto simp: queue_ok_def image_iff)
qed

text \<open>A call on the container, with its effects done.\<close>

lemma ctx_ok_call:
  assumes ok: "ctx_ok plms con ess c" and call: "fq.call_ok ess' c con effs c1 con'"
  shows "ctx_ok plms con' ess' (c1\<lparr>tablet_bundle := tablet_bundle c1 @ map PLm_FinishQuery (pushes effs)\<rparr>)"
proof -
  note parts = ctx_ok_parts [OF ok]
  let ?c = "c1\<lparr>tablet_bundle := tablet_bundle c1 @ map PLm_FinishQuery (pushes effs)\<rparr>"
  from call have c1: "fq_inv ess' c1" "fq_keeps c c1" "fq_con_ok c1 con'" and old: "\<And>p. plm_due fq_rm con p \<Longrightarrow> plm_due fq_rm con' p"
    and new: "pushes effs = [] \<or> (\<exists>p. pushes effs = [p] \<and> plm_due fq_rm con' p \<and>
      (\<forall>p'. plm_qid p' = plm_qid p \<longrightarrow> \<not> plm_due fq_rm con p'))"
    by (auto simp: fq.call_ok_def)
  from c1(2) have same: "t_this_sid c1 = t_this_sid c" "t_this_eid c1 = t_this_eid c" "t_leader_map c1 = t_leader_map c"
    "inserting_read_protected c1 = inserting_read_protected c" "inserting_locked_cols c1 = inserting_locked_cols c"
    "waiting_read_protected c1 = waiting_read_protected c" "waiting_locked_cols c1 = waiting_locked_cols c"
    "tablet_bundle c1 = tablet_bundle c" by (simp_all add: fq_keeps_def)
  have "K_Finish (plm_qid p) \<notin> plm_key ` set (plms @ tablet_bundle c)"
    if "\<And>p'. plm_qid p' = plm_qid p \<Longrightarrow> \<not> plm_due fq_rm con p'" for p
  proof
    assume "K_Finish (plm_qid p) \<in> plm_key ` set (plms @ tablet_bundle c)"
    then obtain x where x: "x \<in> set (plms @ tablet_bundle c)" "plm_key x = K_Finish (plm_qid p)" by fastforce
    with parts(5) have "expected c con x" by (simp add: queue_ok_def)
    with x(2) that show False by (cases x) auto
  qed
  with new have new': "pushes effs = [] \<or> (\<exists>p. pushes effs = [p] \<and> plm_due fq_rm con' p \<and>
      K_Finish (plm_qid p) \<notin> plm_key ` set (plms @ tablet_bundle c))" by metis
  have "queue_ok ((plms @ tablet_bundle c) @ map PLm_FinishQuery (pushes effs)) ?c con'"
    by (rule queue_ok_finish [OF parts(5) _ _ _ new']) (simp_all add: old same)
  moreover have "fq_con_ok ?c con'" by (rule fq_con_ok_cong [OF c1(3)]) simp_all
  moreover have "tablet_is_leader ?c = Some True" using parts(1) by (simp add: tablet_is_leader_def same)
  moreover have "ids_fresh ?c" using parts(4) by (simp add: ids_fresh_def same)
  ultimately show ?thesis using c1(1) by (simp add: ctx_ok_def fq_inv_bundle same)
qed

lemma fq_sim_persisted: "fq_sim (t_this_eid c) c (persisted c)"
  by (simp add: fq_sim_def persisted_def)

lemma fq_sim_eq: "fq_sim (t_this_eid c) c' (persisted c) \<Longrightarrow> t_this_eid c' = t_this_eid c \<Longrightarrow> persisted c' = persisted c"
  by (simp add: fq_sim_def persisted_def)

lemma persisted_bundle [simp]: "persisted (c\<lparr>tablet_bundle := b\<rparr>) = persisted c"
  by (simp add: persisted_def)

text \<open>What is persisted of the state machines.\<close>

abbreviation con_persist :: "(query_id, fq_outer) btree \<Rightarrow> query_id \<Rightarrow> fq_outer option" where
  "con_persist con qid \<equiv> Option.bind (bm_get con qid) (rm_reconfig_snapshot fq_rm)"

lemma finish_msg_ok:
  assumes ok: "tablet_ok (tb, plms)" and h: "tablet_finish_query_msg msg tb = Some (sends, tb')"
  shows "tablet_ok (tb', plms) \<and> persisted (tb_ctx tb') = persisted (tb_ctx tb) \<and>
    con_persist (finish_query_ess tb') = con_persist (finish_query_ess tb)"
proof -
  from h obtain effs c con qid act ess where r: "handle_rm_msg fq_rm msg (tb_ctx tb) (finish_query_ess tb) (ms_query_ess tb) =
      Some ((effs, c, con, qid, act), ess)" and d: "fq_done (effs, c, con, qid, act) (tb\<lparr>ms_query_ess := ess\<rparr>) = (sends, tb')"
    by (auto simp: tablet_finish_query_msg_def bind_eq_Some_conv)
  have cok: "ctx_ok plms (finish_query_ess tb) (ms_query_ess tb) (tb_ctx tb)" using ok by (simp add: tablet_ok_def)
  note parts = ctx_ok_parts [OF cok]
  note call = fq.handle_rm_msg_ok [OF parts(2,3) r]
  obtain s where s: "fold perform_effect effs ([], c) = (s, c\<lparr>tablet_bundle := tablet_bundle c @ map PLm_FinishQuery (pushes effs)\<rparr>)"
    using perform_effects by blast
  from d have tb': "tb' = tb\<lparr>ms_query_ess := ess, tb_ctx := c\<lparr>tablet_bundle := tablet_bundle c @ map PLm_FinishQuery (pushes effs)\<rparr>,
      finish_query_ess := act_put act qid con\<rparr>"
    by (simp add: fq_done_def s act_put_def)
  have "t_this_eid c = t_this_eid (tb_ctx tb)" using call by (simp add: fq.call_ok_def fq_keeps_def)
  with fq.sim_msg [OF parts(2,3) fq_sim_persisted r] have "persisted c = persisted (tb_ctx tb)" by (rule fq_sim_eq)
  moreover have "con_persist (act_put act qid con) = con_persist (finish_query_ess tb)"
    using call by (simp add: fq.call_ok_def fun_eq_iff)
  ultimately show ?thesis using ctx_ok_call [OF cok call] by (simp add: tablet_ok_def tb')
qed

section \<open>Learned log entries\<close>

text \<open>
  The first of the entries under way is learned: the leader does not panic, keeps its invariant
  with the rest of the entries, and the protected reads see what they saw.
\<close>

lemma apply_cols_ok:
  assumes ok: "ctx_ok (PLm_LockedCols qid t cols # plms) con ess c"
    and c': "c' = c\<lparr>t_schema := schema, presence_timestamp := pt, inserting_locked_cols := bm_remove qid (inserting_locked_cols c)\<rparr>"
    and key: "key_cols schema = key_cols (t_schema c)"
  shows "ctx_ok plms con ess c' \<and> reads_kept c c'"
proof -
  note parts = ctx_ok_parts [OF ok]
  note inv = fq_inv_parts [OF parts(2)]
  have views: "writes_at c' t = writes_at c t" "reads_at c' t = reads_at c t" "m_reads_at c' t = m_reads_at c t"
    "waiting_at c' t = waiting_at c t" for t
    by (simp_all add: c' writes_at_def reads_at_def m_reads_at_def waiting_at_def)
  have "fq_inv ess c'"
  proof (rule fq_inv_I)
    show "tablet_wf c'" using inv(1) by (simp add: c' tablet_wf_def)
    show "region_inv c'" by (rule region_inv_cong [OF inv(2)]) (simp_all add: views)
    show "tablet_typed c'" by (rule tablet_typed_mono [OF inv(3)]) (simp_all add: views, simp add: c' key)
    show "ess_linked ess c'" "views_ok ess c'" "bm_wf ess" "storage_ok (key_cols (t_schema c')) (t_storage c')"
      using inv by (simp_all add: c' key ess_linked_def views_ok_def)
  qed
  moreover have "fq_con_ok c' con" by (rule fq_con_ok_cong [OF parts(3)]) (simp_all add: c' key)
  moreover have "queue_ok (plms @ tablet_bundle c') c' con"
  proof (rule queue_ok_cong [of _ c con])
    show "queue_ok (plms @ tablet_bundle c') c con" using parts(5) by (simp add: queue_ok_def c')
    have "K_Cols qid \<notin> plm_key ` set (plms @ tablet_bundle c)" using parts(5) by (simp add: queue_ok_Cons del: set_append)
    then show "expected c con p \<Longrightarrow> expected c' con p" if "p \<in> set (plms @ tablet_bundle c')" for p
      using that by (cases p rule: tablet_plm.exhaust) (force simp: c')+
  qed
  moreover have "ids_fresh c'" using parts(4) by (auto simp: ids_fresh_def c')
  moreover have "tablet_is_leader c' = Some True" using parts(1) by (simp add: c' tablet_is_leader_def)
  moreover have "reads_kept c c'" by (rule reads_kept_same) (simp_all add: c' key)
  ultimately show ?thesis by (simp add: ctx_ok_def)
qed

lemma at_regions_insert: "at (regions_insert t r m) t' set = (if t' = t then insert r (at m t set) else at m t' set)"
  by (auto simp: at_def regions_insert_def split: option.splits)

lemma apply_read_ok:
  assumes ok: "ctx_ok (PLm_ReadProtected qid t region # plms) con ess c"
    and rem: "requests_remove t qid (inserting_read_protected c) = Some (req, m)"
    and c': "c' = c\<lparr>read_protected := regions_insert t region (read_protected c), inserting_read_protected := m\<rparr>"
  shows "ctx_ok plms con ess c' \<and> reads_kept c c'"
proof -
  note parts = ctx_ok_parts [OF ok]
  note inv = fq_inv_parts [OF parts(2)]
  note req = get_req_remove [OF rem]
  from parts(5) obtain orig where "get_req (inserting_read_protected c) t qid = Some (region, orig)" by (auto simp: queue_ok_def)
  then have mine: "region \<in> at (inserting_read_protected c) t asked" by (auto simp: get_req_def in_at asked_def bind_eq_Some_conv)
  have views: "writes_at c' t = writes_at c t" "m_reads_at c' t = m_reads_at c t" "waiting_at c' t = waiting_at c t" for t
    by (simp_all add: c' writes_at_def m_reads_at_def waiting_at_def)
  have reads: "reads_at c' t' \<subseteq> reads_at c t'" for t'
    using mine waiting_remove [OF rem, of t'] by (auto simp: c' reads_at_def at_regions_insert)
  have "fq_inv ess c'"
  proof (rule fq_inv_I)
    show "tablet_wf c'"
      using inv(1) requests_remove_ok [OF rem] unfolding tablet_wf_def by (simp add: c' regions_insert_def)
    show "region_inv c'" by (rule region_inv_mono [OF inv(2)]) (simp_all add: views reads)
    show "tablet_typed c'" by (rule tablet_typed_mono [OF inv(3)]) (simp_all add: views, simp add: c')
    show "ess_linked ess c'" "views_ok ess c'" "bm_wf ess" "storage_ok (key_cols (t_schema c')) (t_storage c')"
      using inv by (simp_all add: c' ess_linked_def views_ok_def)
  qed
  moreover have "fq_con_ok c' con" by (rule fq_con_ok_cong [OF parts(3)]) (simp_all add: c')
  moreover have "queue_ok (plms @ tablet_bundle c') c' con"
  proof (rule queue_ok_cong [of _ c con])
    show "queue_ok (plms @ tablet_bundle c') c con" using parts(5) by (simp add: queue_ok_def c')
    have "K_Read t qid \<notin> plm_key ` set (plms @ tablet_bundle c)" using parts(5) by (simp add: queue_ok_Cons del: set_append)
    then show "expected c con p \<Longrightarrow> expected c' con p" if "p \<in> set (plms @ tablet_bundle c')" for p
      using that by (cases p rule: tablet_plm.exhaust) (force simp: c' req(2))+
  qed
  moreover have "ids_fresh c'" using parts(4) by (auto simp: ids_fresh_def c' req(2))
  moreover have "tablet_is_leader c' = Some True" using parts(1) by (simp add: c' tablet_is_leader_def)
  moreover have "reads_kept c c'" by (rule reads_kept_same) (auto simp: c' at_regions_insert)
  ultimately show ?thesis by (simp add: ctx_ok_def)
qed

lemma apply_finish_ok:
  assumes ok: "ctx_ok (PLm_FinishQuery plm # plms) con ess c"
  shows "\<exists>effs c1 con'. handle_rm_plm fq_rm plm c con = Some (effs, c1, con', plm_qid plm, P2PC_Wait) \<and> reads_kept c c1 \<and>
    ctx_ok plms con' ess (c1\<lparr>tablet_bundle := tablet_bundle c1 @ map PLm_FinishQuery (pushes effs)\<rparr>)"
proof -
  note parts = ctx_ok_parts [OF ok]
  have lead: "rm_is_leader fq_rm c = Some True" using parts(1) by (simp add: fq_rm_def)
  have "plm_due fq_rm con plm" using parts(5) by (simp add: queue_ok_def)
  from fq.handle_rm_plm_ok [OF parts(2,3) lead this] obtain effs c1 con' where
    h: "handle_rm_plm fq_rm plm c con = Some (effs, c1, con', plm_qid plm, P2PC_Wait)" "fq_inv ess c1" "fq_keeps c c1" "fq_con_ok c1 con'"
    and old: "\<And>p. plm_qid p \<noteq> plm_qid plm \<Longrightarrow> plm_due fq_rm con p \<Longrightarrow> plm_due fq_rm con' p"
    and new: "pushes effs = [] \<or> (\<exists>p. pushes effs = [p] \<and> plm_qid p = plm_qid plm \<and> plm_due fq_rm con' p)" by blast
  let ?c = "c1\<lparr>tablet_bundle := tablet_bundle c1 @ map PLm_FinishQuery (pushes effs)\<rparr>"
  from h(3) have same: "t_this_sid c1 = t_this_sid c" "t_this_eid c1 = t_this_eid c" "t_leader_map c1 = t_leader_map c"
    "inserting_read_protected c1 = inserting_read_protected c" "inserting_locked_cols c1 = inserting_locked_cols c"
    "waiting_read_protected c1 = waiting_read_protected c" "waiting_locked_cols c1 = waiting_locked_cols c"
    "tablet_bundle c1 = tablet_bundle c" "reads_kept c c1" by (simp_all add: fq_keeps_def)
  have key: "K_Finish (plm_qid plm) \<notin> plm_key ` set (plms @ tablet_bundle c)" and q: "queue_ok (plms @ tablet_bundle c) c con"
    using parts(5) by (auto simp: queue_ok_def)
  have "queue_ok ((plms @ tablet_bundle c) @ map PLm_FinishQuery (pushes effs)) ?c con'"
  proof (rule queue_ok_finish [OF q])
    fix p assume p: "PLm_FinishQuery p \<in> set (plms @ tablet_bundle c)" and due: "plm_due fq_rm con p"
    from imageI [OF p, of plm_key] key have "plm_qid p \<noteq> plm_qid plm" by auto
    with due show "plm_due fq_rm con' p" by (intro old)
  qed (use new key in \<open>auto simp: same\<close>)
  moreover have "fq_con_ok ?c con'" by (rule fq_con_ok_cong [OF h(4)]) simp_all
  moreover have "tablet_is_leader ?c = Some True" using parts(1) by (simp add: tablet_is_leader_def same)
  moreover have "ids_fresh ?c" using parts(4) by (simp add: ids_fresh_def same)
  ultimately show ?thesis using h same by (simp add: ctx_ok_def fq_inv_bundle)
qed

lemma apply_plm_ok:
  assumes ok: "tablet_ok (tb, plm # plms)"
  shows "\<exists>told sends tb'. apply_plm plm tb = Some (told, sends, tb') \<and> tablet_ok (tb', plms) \<and>
    reads_kept (tb_ctx tb) (tb_ctx tb') \<and> tb_ddl_es tb' = tb_ddl_es tb"
proof -
  have cok: "ctx_ok (plm # plms) (finish_query_ess tb) (ms_query_ess tb) (tb_ctx tb)" using ok by (simp add: tablet_ok_def)
  note parts = ctx_ok_parts [OF cok]
  from parts(5) have ex: "expected (tb_ctx tb) (finish_query_ess tb) plm" by (simp add: queue_ok_def)
  from parts(1) obtain lid where lid: "bm_get (t_leader_map (tb_ctx tb)) (SlaveGid (t_this_sid (tb_ctx tb))) = Some lid"
    "lid_eid lid = t_this_eid (tb_ctx tb)" by (auto simp: tablet_is_leader_def)
  show ?thesis
  proof (cases plm)
    case (PLm_LockedCols qid t cols)
    from ex PLm_LockedCols obtain req where "bm_get (inserting_locked_cols (tb_ctx tb)) qid = Some req" by auto
    with lid PLm_LockedCols show ?thesis using apply_cols_ok [OF cok [unfolded PLm_LockedCols] refl]
      by (simp add: apply_plm_def Let_def tablet_is_leader_def tablet_ok_def)
  next
    case (PLm_ReadProtected qid t region)
    from ex PLm_ReadProtected obtain orig where "get_req (inserting_read_protected (tb_ctx tb)) t qid = Some (region, orig)" by auto
    from get_req_removable [OF this] obtain m where m: "requests_remove t qid (inserting_read_protected (tb_ctx tb)) = Some ((region, orig), m)" by blast
    with PLm_ReadProtected lid apply_read_ok [OF cok [unfolded PLm_ReadProtected] m refl] show ?thesis
      by (simp add: apply_plm_def Let_def tablet_is_leader_def tablet_ok_def remove_inserting_read_protected_request_def)
  next
    case (PLm_FinishQuery p)
    from apply_finish_ok [OF cok [unfolded PLm_FinishQuery]] obtain effs c1 con' where
      h: "handle_rm_plm fq_rm p (tb_ctx tb) (finish_query_ess tb) = Some (effs, c1, con', plm_qid p, P2PC_Wait)" "reads_kept (tb_ctx tb) c1"
      "ctx_ok plms con' (ms_query_ess tb) (c1\<lparr>tablet_bundle := tablet_bundle c1 @ map PLm_FinishQuery (pushes effs)\<rparr>)" by blast
    obtain s where s: "fold perform_effect effs ([], c1) = (s, c1\<lparr>tablet_bundle := tablet_bundle c1 @ map PLm_FinishQuery (pushes effs)\<rparr>)"
      using perform_effects by blast
    have "reads_kept c1 (c1\<lparr>tablet_bundle := tablet_bundle c1 @ map PLm_FinishQuery (pushes effs)\<rparr>)" by (rule reads_kept_same) simp_all
    with h(2) reads_kept_trans PLm_FinishQuery h(1,3) show ?thesis
      by (simp add: apply_plm_def fq_done_def s tablet_ok_def)
  qed
qed

lemma apply_plms_ok:
  assumes "tablet_ok (tb, plms)"
  shows "\<exists>told sends tb'. apply_plms plms tb = Some (told, sends, tb') \<and> tablet_ok (tb', []) \<and>
    reads_kept (tb_ctx tb) (tb_ctx tb') \<and> tb_ddl_es tb' = tb_ddl_es tb"
  using assms
proof (induction plms arbitrary: tb)
  case (Cons plm plms)
  from apply_plm_ok [OF Cons.prems] obtain told sends tb1 where
    1: "apply_plm plm tb = Some (told, sends, tb1)" "tablet_ok (tb1, plms)" "reads_kept (tb_ctx tb) (tb_ctx tb1)" "tb_ddl_es tb1 = tb_ddl_es tb" by blast
  from Cons.IH [OF 1(2)] obtain told' sends' tb2 where
    "apply_plms plms tb1 = Some (told', sends', tb2)" "tablet_ok (tb2, [])" "reads_kept (tb_ctx tb1) (tb_ctx tb2)" "tb_ddl_es tb2 = tb_ddl_es tb1" by blast
  with 1 show ?case by (auto intro: reads_kept_trans)
qed simp

section \<open>Inserting the prepared entries\<close>

lemma start_inserting_loop_ok:
  assumes "tablet_ok (tb, plms)" and "distinct (map fst outs)" and "\<And>qid out. (qid, out) \<in> set outs \<Longrightarrow> bm_get (finish_query_ess tb) qid = Some out"
  shows "\<exists>sends tb'. start_inserting_loop outs tb = Some (sends, tb') \<and> tablet_ok (tb', plms) \<and>
    persisted (tb_ctx tb') = persisted (tb_ctx tb) \<and> con_persist (finish_query_ess tb') = con_persist (finish_query_ess tb)"
  using assms
proof (induction outs arbitrary: tb)
  case (Cons e outs)
  obtain qid out where e: "e = (qid, out)" by (cases e)
  have cok: "ctx_ok plms (finish_query_ess tb) (ms_query_ess tb) (tb_ctx tb)" using Cons.prems(1) by (simp add: tablet_ok_def)
  note parts = ctx_ok_parts [OF cok]
  have out: "bm_get (finish_query_ess tb) qid = Some out" using Cons.prems(3) by (simp add: e)
  have "out_ok fq_rm fq_pend fq_prep (tb_ctx tb) qid out" using parts(3) out by (simp add: con_ok_def)
  from fq.start_inserting_ok [OF parts(2) this] obtain effs out' where
    st: "rm_start_inserting fq_rm (tb_ctx tb) out = Some (effs, tb_ctx tb, out', P2PC_Wait)"
    "fq.step_ok (ms_query_ess tb) (tb_ctx tb) qid out effs (tb_ctx tb) out' P2PC_Wait" "fq.quiet out effs out' P2PC_Wait" by blast
  let ?c = "(tb_ctx tb)\<lparr>tablet_bundle := tablet_bundle (tb_ctx tb) @ map PLm_FinishQuery (pushes effs)\<rparr>"
  let ?tb = "tb\<lparr>tb_ctx := ?c, finish_query_ess := bm_insert qid out' (finish_query_ess tb)\<rparr>"
  have call: "fq.call_ok (ms_query_ess tb) (tb_ctx tb) (finish_query_ess tb) effs (tb_ctx tb) (bm_insert qid out' (finish_query_ess tb))"
    using fq.call_ok_step [OF parts(3) out st(2,3)] by (simp add: act_put_def)
  obtain s where s: "fold perform_effect effs ([], tb_ctx tb) = (s, ?c)" using perform_effects by blast
  have ok: "tablet_ok (?tb, plms)" using ctx_ok_call [OF cok call] by (simp add: tablet_ok_def)
  have "bm_get (finish_query_ess ?tb) q = Some x" if "(q, x) \<in> set outs" for q x
    using that Cons.prems(2,3) by (auto simp: e rev_image_eqI)
  with Cons.IH [OF ok] Cons.prems(2) obtain sends tb' where
    "start_inserting_loop outs ?tb = Some (sends, tb')" "tablet_ok (tb', plms)" "persisted (tb_ctx tb') = persisted ?c"
    "con_persist (finish_query_ess tb') = con_persist (finish_query_ess ?tb)" by (auto simp: e)
  moreover have "con_persist (finish_query_ess ?tb) = con_persist (finish_query_ess tb)"
    using call by (simp add: fq.call_ok_def fun_eq_iff)
  ultimately show ?case using st(1) s by (simp add: e)
qed simp

text \<open>A learned bundle: the leader applies it, runs the main loop, inserts and hands over its next bundle.\<close>

text \<open>The end of a bundle at the leader: it starts inserting and hands its next bundle over.\<close>

lemma hand_over_ok:
  assumes ok: "tablet_ok (tb, [])"
  shows "\<exists>sends tb2. start_inserting_loop (finish_query_ess tb) tb = Some (sends, tb2) \<and>
    tablet_ok (tb2\<lparr>tb_ctx := (tb_ctx tb2)\<lparr>tablet_bundle := []\<rparr>\<rparr>, tablet_bundle (tb_ctx tb2)) \<and>
    persisted ((tb_ctx tb2)\<lparr>tablet_bundle := []\<rparr>) = persisted (tb_ctx tb) \<and>
    con_persist (finish_query_ess tb2) = con_persist (finish_query_ess tb) \<and> bm_wf (finish_query_ess tb2)"
proof -
  have wf: "bm_wf (finish_query_ess tb)" using ok by (simp add: tablet_ok_def ctx_ok_def con_ok_def)
  from start_inserting_loop_ok [OF ok bm_wf_distinct [OF wf]] wf obtain sends tb2 where
    3: "start_inserting_loop (finish_query_ess tb) tb = Some (sends, tb2)" "tablet_ok (tb2, [])"
    "persisted (tb_ctx tb2) = persisted (tb_ctx tb)" "con_persist (finish_query_ess tb2) = con_persist (finish_query_ess tb)"
    by (auto simp: bm_get_set)
  let ?c = "(tb_ctx tb2)\<lparr>tablet_bundle := []\<rparr>"
  have cok2: "ctx_ok [] (finish_query_ess tb2) (ms_query_ess tb2) (tb_ctx tb2)" using 3(2) by (simp add: tablet_ok_def)
  note parts = ctx_ok_parts [OF cok2]
  have "fq_con_ok ?c (finish_query_ess tb2)" by (rule fq_con_ok_cong [OF parts(3)]) simp_all
  moreover have "expected ?c (finish_query_ess tb2) p = expected (tb_ctx tb2) (finish_query_ess tb2) p" for p by (cases p) simp_all
  ultimately have "ctx_ok (tablet_bundle (tb_ctx tb2)) (finish_query_ess tb2) (ms_query_ess tb2) ?c"
    using parts by (simp add: ctx_ok_def fq_inv_bundle ids_fresh_def tablet_is_leader_def queue_ok_def)
  then have "tablet_ok (tb2\<lparr>tb_ctx := ?c\<rparr>, tablet_bundle (tb_ctx tb2))" by (simp add: tablet_ok_def)
  moreover have "bm_wf (finish_query_ess tb2)" using parts(3) by (simp add: con_ok_def)
  ultimately show ?thesis using 3 by simp
qed

lemma tablet_learn_ok:
  assumes ok: "tablet_ok (tb, plms)"
  shows "\<exists>told sends plms' tb'. tablet_learn plms tb = Some (told, sends, Some plms', tb') \<and> tablet_ok (tb', plms') \<and>
    reads_kept (tb_ctx tb) (tb_ctx tb') \<and>
    (\<exists>told sends tb1. apply_plms plms tb = Some (told, sends, tb1) \<and> persisted (tb_ctx tb') = persisted (tb_ctx tb1) \<and>
       con_persist (finish_query_ess tb') = con_persist (finish_query_ess tb1) \<and> bm_wf (finish_query_ess tb'))"
proof -
  from apply_plms_ok [OF ok] obtain told sends tb1 where
    1: "apply_plms plms tb = Some (told, sends, tb1)" "tablet_ok (tb1, [])" "reads_kept (tb_ctx tb) (tb_ctx tb1)" by blast
  have cok: "ctx_ok [] (finish_query_ess tb1) (ms_query_ess tb1) (tb_ctx tb1)" using 1(2) by (simp add: tablet_ok_def)
  from main_loop_ctx_ok [OF cok, of "tb_ddl_es tb1"] obtain told' ess c where
    2: "run_main_loop (tb_ddl_es tb1) (ms_query_ess tb1, tb_ctx tb1) = Some (told', ess, c)"
    "ctx_ok [] (finish_query_ess tb1) ess c" "persisted c = persisted (tb_ctx tb1)" by blast
  have "tablet_ok (tb1\<lparr>tb_ctx := c, ms_query_ess := ess\<rparr>, [])" using 2(2) by (simp add: tablet_ok_def)
  from hand_over_ok [OF this] obtain sends' tb2 where
    3: "start_inserting_loop (finish_query_ess tb1) (tb1\<lparr>tb_ctx := c, ms_query_ess := ess\<rparr>) = Some (sends', tb2)"
    "tablet_ok (tb2\<lparr>tb_ctx := (tb_ctx tb2)\<lparr>tablet_bundle := []\<rparr>\<rparr>, tablet_bundle (tb_ctx tb2))"
    "persisted ((tb_ctx tb2)\<lparr>tablet_bundle := []\<rparr>) = persisted c"
    "con_persist (finish_query_ess tb2) = con_persist (finish_query_ess tb1)" "bm_wf (finish_query_ess tb2)" by auto
  have "persisted ((tb_ctx tb2)\<lparr>tablet_bundle := []\<rparr>) = persisted (tb_ctx tb1)" using 2(3) 3(3) by simp
  moreover from this have "reads_kept (tb_ctx tb) ((tb_ctx tb2)\<lparr>tablet_bundle := []\<rparr>)" using 1(3) persisted_reads_kept reads_kept_trans by blast
  ultimately show ?thesis
    using 1(1) 2(1) 3 ctx_ok_parts(1) [OF cok] by (simp add: tablet_learn_def)
qed

end
