(* ===== verification/Tablet_Replicas.thy ===== *)
theory Tablet_Replicas
  imports Tablet_Steps
begin

text \<open>
  The steps of a tablet that involve other nodes: changes of a remote leadership, the takeover of
  the tablet by another node of its group, and what a follower makes of the log. With them, every
  reachable tablet is correct: its protected reads are repeatable, its log never panics, and its
  followers agree with it.
\<close>

section \<open>Remote leaderships\<close>

lemma tablet_quiet_call:
  assumes ok: "tablet_ok (tb, plms)"
    and call: "fq.call_ok (ms_query_ess tb) (tb_ctx tb) (finish_query_ess tb) effs (tb_ctx tb) con"
  shows "\<exists>s. fold perform_effect effs ([], tb_ctx tb) =
      (s, (tb_ctx tb)\<lparr>tablet_bundle := tablet_bundle (tb_ctx tb) @ map PLm_FinishQuery (pushes effs)\<rparr>) \<and>
    tablet_ok (tb\<lparr>tb_ctx := (tb_ctx tb)\<lparr>tablet_bundle := tablet_bundle (tb_ctx tb) @ map PLm_FinishQuery (pushes effs)\<rparr>,
      finish_query_ess := con\<rparr>, plms) \<and> con_persist con = con_persist (finish_query_ess tb)"
proof -
  have cok: "ctx_ok plms (finish_query_ess tb) (ms_query_ess tb) (tb_ctx tb)" using ok by (simp add: tablet_ok_def)
  have "con_persist con = con_persist (finish_query_ess tb)" using call by (simp add: fq.call_ok_def fun_eq_iff)
  then show ?thesis using ctx_ok_call [OF cok call] perform_effects [of effs "[]" "tb_ctx tb"] by (simp add: tablet_ok_def)
qed

lemma remote_loop_ok:
  assumes "tablet_ok (tb, plms)" and "\<And>qid out. (qid, out) \<in> set outs \<Longrightarrow> bm_get (finish_query_ess tb) qid = Some out"
    and "remote_leader_changed_loop change outs tb = Some (sends, tb')"
  shows "tb' = tb"
  using assms
proof (induction outs arbitrary: tb sends)
  case (Cons e outs)
  obtain qid out where e: "e = (qid, out)" by (cases e)
  have cok: "ctx_ok plms (finish_query_ess tb) (ms_query_ess tb) (tb_ctx tb)" using Cons.prems(1) by (simp add: tablet_ok_def)
  have out: "bm_get (finish_query_ess tb) qid = Some out" using Cons.prems(2) by (simp add: e)
  have wf: "bm_wf (finish_query_ess tb)" using ctx_ok_parts(3) [OF cok] by (simp add: con_ok_def)
  from fq.remote_leader_changed_ok [of change "tb_ctx tb" out] obtain effs where
    r: "rm_remote_leader_changed fq_rm change (tb_ctx tb) out = Some (effs, tb_ctx tb, out, P2PC_Wait)" "pushes effs = []" by blast
  obtain s where s: "fold perform_effect effs ([], tb_ctx tb) = (s, (tb_ctx tb)\<lparr>tablet_bundle := tablet_bundle (tb_ctx tb) @ []\<rparr>)"
    using perform_effects [of effs "[]" "tb_ctx tb"] r(2) by auto
  have "fq_done (effs, tb_ctx tb, bm_insert qid out (finish_query_ess tb), qid, P2PC_Wait) tb = (s, tb)"
    by (simp add: fq_done_def s fq.bm_insert_same [OF wf out])
  with Cons.prems(3) r(1) obtain sends' where "remote_leader_changed_loop change outs tb = Some (sends', tb')"
    by (auto simp: e bind_eq_Some_conv)
  with Cons.IH [OF Cons.prems(1)] Cons.prems(2) show ?case by auto
qed simp

lemma remote_leader_ok:
  assumes ok: "tablet_ok (tb, plms)" and gid: "gid \<noteq> SlaveGid (t_this_sid (tb_ctx tb))"
    and h: "remote_leader_changed_loop \<lparr>rlc_gid = gid, rlc_lid = lid\<rparr> (finish_query_ess tb)
       (tb\<lparr>tb_ctx := (tb_ctx tb)\<lparr>t_leader_map := bm_insert gid lid (t_leader_map (tb_ctx tb))\<rparr>\<rparr>) = Some (sends, tb')"
  shows "tablet_ok (tb', plms) \<and> reads_kept (tb_ctx tb) (tb_ctx tb')"
proof -
  let ?c = "(tb_ctx tb)\<lparr>t_leader_map := bm_insert gid lid (t_leader_map (tb_ctx tb))\<rparr>"
  have cok: "ctx_ok plms (finish_query_ess tb) (ms_query_ess tb) (tb_ctx tb)" using ok by (simp add: tablet_ok_def)
  note parts = ctx_ok_parts [OF cok]
  note inv = fq_inv_parts [OF parts(2)]
  have views: "writes_at ?c = writes_at (tb_ctx tb)" "reads_at ?c = reads_at (tb_ctx tb)"
    "m_reads_at ?c = m_reads_at (tb_ctx tb)" "waiting_at ?c = waiting_at (tb_ctx tb)"
    by (simp_all add: writes_at_def reads_at_def m_reads_at_def waiting_at_def fun_eq_iff)
  have "fq_inv (ms_query_ess tb) ?c"
    using parts(2) views by (simp add: fq_inv_def loop_ok_def tablet_wf_def region_inv_def tablet_typed_def ess_linked_def views_ok_def)
  moreover have "fq_con_ok ?c (finish_query_ess tb)" by (rule fq_con_ok_cong [OF parts(3)]) simp_all
  moreover have "expected ?c (finish_query_ess tb) p = expected (tb_ctx tb) (finish_query_ess tb) p" for p by (cases p) simp_all
  ultimately have ok': "tablet_ok (tb\<lparr>tb_ctx := ?c\<rparr>, plms)"
    using parts gid by (simp add: tablet_ok_def ctx_ok_def ids_fresh_def tablet_is_leader_def queue_ok_def)
  have wf: "bm_wf (finish_query_ess tb)" using parts(3) by (simp add: con_ok_def)
  have "tb' = tb\<lparr>tb_ctx := ?c\<rparr>" by (rule remote_loop_ok [OF ok' _ h]) (use wf in \<open>simp add: bm_get_set\<close>)
  moreover have "reads_kept (tb_ctx tb) ?c" by (rule reads_kept_same) simp_all
  ultimately show ?thesis using ok' by simp
qed

section \<open>Takeover\<close>

lemma snapshot_ess_get:
  assumes "bm_wf con"
  shows "bm_wf (snapshot_ess con)" and "bm_get (snapshot_ess con) qid = con_persist con qid"
proof -
  let ?f = "\<lambda>(qid, out) acc. case rm_reconfig_snapshot fq_rm out of Some out' \<Rightarrow> bm_insert qid out' acc | None \<Rightarrow> acc"
  have "bm_wf (fold ?f xs acc)" if "bm_wf acc" for xs :: "(query_id, fq_outer) btree" and acc
    using that by (induction xs arbitrary: acc) (auto split: option.splits)
  then show "bm_wf (snapshot_ess con)" by (simp add: snapshot_ess_def)
  have "bm_get (fold ?f xs acc) qid = (case con_persist xs qid of Some out \<Rightarrow> Some out | None \<Rightarrow> bm_get acc qid)"
    if "distinct (map fst xs)" for xs acc
    using that
  proof (induction xs arbitrary: acc)
    case (Cons e xs)
    obtain q out where e: "e = (q, out)" by (cases e)
    have "bm_get xs q = None" using Cons.prems by (auto simp: e bm_get_None)
    with Cons show ?case by (cases "q = qid") (auto simp: e split: option.splits)
  qed simp
  from this [OF bm_wf_distinct [OF assms], of "[]"] show "bm_get (snapshot_ess con) qid = con_persist con qid"
    by (simp add: snapshot_ess_def split: option.splits)
qed

lemma snapshot_follower:
  assumes "rm_reconfig_snapshot fq_rm out = Some (RM_Exec es)"
  shows "rx_state es = Follower \<and> (\<exists>es'. out = RM_Exec es' \<and> \<not> unprepared (rx_state es') \<and> es = es'\<lparr>rx_state := Follower\<rparr>)"
  using assms by (auto simp: rm_reconfig_snapshot_def fq_rm_def split: rm_outer.splits if_splits)

lemma takeover_start_ok:
  assumes ok: "tablet_ok (tb, plms)" and c: "c = tb_ctx tb"
    and c': "c' = (persisted c)\<lparr>t_this_eid := eid, t_leader_map := bm_insert (SlaveGid (t_this_sid c)) lid (t_leader_map c)\<rparr>"
    and eid: "lid_eid lid = eid"
  shows "ctx_ok [] (snapshot_ess (finish_query_ess tb)) [] c'" and "reads_kept c c'"
proof -
  have cok: "ctx_ok plms (finish_query_ess tb) (ms_query_ess tb) c" using ok by (simp add: tablet_ok_def c)
  note parts = ctx_ok_parts [OF cok]
  note inv = fq_inv_parts [OF parts(2)]
  have wf: "bm_wf (finish_query_ess tb)" using parts(3) by (simp add: con_ok_def)
  note snap = snapshot_ess_get [OF wf]
  have "fq_inv [] c'"
  proof (rule fq_inv_I)
    show "tablet_wf c'" using inv(1) by (simp add: c' persisted_def tablet_wf_def)
    show "region_inv c'"
      by (rule region_inv_mono [OF inv(2)]) (auto simp: c' persisted_def writes_at_def reads_at_def m_reads_at_def)
    show "tablet_typed c'" by (rule tablet_typed_mono [OF inv(3)]) (auto simp: c' persisted_def writes_at_def waiting_at_def)
    show "ess_linked [] c'" "views_ok [] c'" "bm_wf []" "storage_ok (key_cols (t_schema c')) (t_storage c')"
      using inv(7) by (simp_all add: c' persisted_def ess_linked_def views_ok_def)
  qed
  moreover have "fq_con_ok c' (snapshot_ess (finish_query_ess tb))"
    unfolding con_ok_def
  proof (intro conjI allI impI)
    show "bm_wf (snapshot_ess (finish_query_ess tb))" by (rule snap)
    have prep: "fq_prep i c \<Longrightarrow> fq_prep i c'" for i by (simp add: fq_prep_def lock_ok_def c' persisted_def)
    fix qid out assume "bm_get (snapshot_ess (finish_query_ess tb)) qid = Some out"
    then obtain out0 where o: "bm_get (finish_query_ess tb) qid = Some out0" "rm_reconfig_snapshot fq_rm out0 = Some out"
      by (auto simp: snap(2) bind_eq_Some_conv)
    with parts(3) have "out_ok fq_rm fq_pend fq_prep c qid out0" by (simp add: con_ok_def)
    with o(2) show "out_ok fq_rm fq_pend fq_prep c' qid out"
      using snapshot_follower [of out0] prep
      by (cases out) (fastforce simp: out_ok_def fq_rm_def c' persisted_def)+
  next
    fix qid qid' es es'
    assume "bm_get (snapshot_ess (finish_query_ess tb)) qid = Some (RM_Exec es)"
      "bm_get (snapshot_ess (finish_query_ess tb)) qid' = Some (RM_Exec es')" "qid \<noteq> qid'"
    with parts(3) show "fq_timestamp (rx_inner es) \<noteq> fq_timestamp (rx_inner es')"
      by (fastforce simp: snap(2) bind_eq_Some_conv con_ok_def dest!: snapshot_follower)
  qed
  moreover have "ids_fresh c'" "queue_ok ([] @ tablet_bundle c') c' con" for con
    by (simp_all add: c' persisted_def ids_fresh_def queue_ok_def)
  moreover have "tablet_is_leader c' = Some True" using eid by (simp add: c' persisted_def tablet_is_leader_def)
  ultimately show "ctx_ok [] (snapshot_ess (finish_query_ess tb)) [] c'" by (simp add: ctx_ok_def)
  show "reads_kept c c'" by (rule reads_kept_same) (simp_all add: c' persisted_def)
qed

lemma leader_changed_loop_ok:
  assumes "tablet_ok (tb, plms)" and "distinct (map fst outs)"
    and "\<And>qid out. (qid, out) \<in> set outs \<Longrightarrow> bm_get (finish_query_ess tb) qid = Some out \<and> (\<forall>es. out = RM_Exec es \<longrightarrow> rx_state es = Follower)"
  shows "\<exists>sends tb'. leader_changed_loop outs tb = Some (sends, tb') \<and> tablet_ok (tb', plms) \<and>
    persisted (tb_ctx tb') = persisted (tb_ctx tb) \<and> con_persist (finish_query_ess tb') = con_persist (finish_query_ess tb)"
  using assms
proof (induction outs arbitrary: tb)
  case (Cons e outs)
  obtain qid out where e: "e = (qid, out)" by (cases e)
  have cok: "ctx_ok plms (finish_query_ess tb) (ms_query_ess tb) (tb_ctx tb)" using Cons.prems(1) by (simp add: tablet_ok_def)
  note parts = ctx_ok_parts [OF cok]
  have out: "bm_get (finish_query_ess tb) qid = Some out" and fol: "\<And>es. out = RM_Exec es \<Longrightarrow> rx_state es = Follower"
    using Cons.prems(3) [of qid out] by (simp_all add: e)
  have o: "out_ok fq_rm fq_pend fq_prep (tb_ctx tb) qid out" using parts(3) out by (simp add: con_ok_def)
  have lead: "rm_is_leader fq_rm (tb_ctx tb) = Some True" using parts(1) by (simp add: fq_rm_def)
  from fq.leader_changed_ok [OF parts(2) o lead fol] obtain effs out' where
    st: "rm_leader_changed fq_rm (tb_ctx tb) out = Some (effs, tb_ctx tb, out', P2PC_Wait)"
    "fq.step_ok (ms_query_ess tb) (tb_ctx tb) qid out effs (tb_ctx tb) out' P2PC_Wait" "fq.quiet out effs out' P2PC_Wait" by blast
  let ?con = "bm_insert qid out' (finish_query_ess tb)"
  let ?c = "(tb_ctx tb)\<lparr>tablet_bundle := tablet_bundle (tb_ctx tb) @ map PLm_FinishQuery (pushes effs)\<rparr>"
  let ?tb = "tb\<lparr>tb_ctx := ?c, finish_query_ess := ?con\<rparr>"
  have call: "fq.call_ok (ms_query_ess tb) (tb_ctx tb) (finish_query_ess tb) effs (tb_ctx tb) ?con"
    using fq.call_ok_step [OF parts(3) out st(2,3)] by (simp add: act_put_def)
  from tablet_quiet_call [OF Cons.prems(1) call] obtain s where s: "fold perform_effect effs ([], tb_ctx tb) = (s, ?c)"
    and ok: "tablet_ok (?tb, plms)" and same: "con_persist ?con = con_persist (finish_query_ess tb)" by blast
  have "bm_get (finish_query_ess ?tb) q = Some x \<and> (\<forall>es. x = RM_Exec es \<longrightarrow> rx_state es = Follower)" if "(q, x) \<in> set outs" for q x
    using that Cons.prems(2,3) by (auto simp: e rev_image_eqI)
  with Cons.IH [OF ok] Cons.prems(2) obtain sends tb' where
    "leader_changed_loop outs ?tb = Some (sends, tb')" "tablet_ok (tb', plms)" "persisted (tb_ctx tb') = persisted ?c"
    "con_persist (finish_query_ess tb') = con_persist ?con" by (auto simp: e)
  moreover have "fq_done (effs, tb_ctx tb, ?con, qid, P2PC_Wait) tb = (s, ?tb)" by (simp add: fq_done_def s)
  ultimately show ?case using st(1) same by (simp add: e)
qed simp

text \<open>Another node of the group takes over, with what the log holds.\<close>

lemma takeover_ok:
  assumes ok: "tablet_ok (tb, plms)" and eid: "lid_eid lid = eid"
  shows "\<exists>told sends plms' tb'. tablet_leader_changed lid ddl (tablet_snapshot eid ddl' tb) = Some (told, sends, Some plms', tb') \<and>
    tablet_ok (tb', plms') \<and> reads_kept (tb_ctx tb) (tb_ctx tb')"
proof -
  let ?con = "snapshot_ess (finish_query_ess tb)"
  define c' where "c' = (persisted (tb_ctx tb))\<lparr>t_this_eid := eid,
    t_leader_map := bm_insert (SlaveGid (t_this_sid (tb_ctx tb))) lid (t_leader_map (tb_ctx tb))\<rparr>"
  define tb0 where "tb0 = (tablet_snapshot eid ddl' tb)\<lparr>tb_ctx := c'\<rparr>"
  note start = takeover_start_ok [OF ok refl c'_def eid]
  have con: "fq_con_ok (tb_ctx tb) (finish_query_ess tb)" using ok by (simp add: tablet_ok_def ctx_ok_def)
  then have wf: "bm_wf (finish_query_ess tb)" by (simp add: con_ok_def)
  note snap = snapshot_ess_get [OF wf]
  have ok0: "tablet_ok (tb0, [])" using start(1) by (simp add: tablet_ok_def tb0_def tablet_snapshot_def)
  have follow: "bm_get (finish_query_ess tb0) qid = Some out \<and> (\<forall>es. out = RM_Exec es \<longrightarrow> rx_state es = Follower)"
    if "(qid, out) \<in> set ?con" for qid out
  proof -
    have "bm_get ?con qid = Some out" using that snap(1) by (simp add: bm_get_set)
    then show ?thesis using snapshot_follower by (auto simp: snap(2) bind_eq_Some_conv tb0_def tablet_snapshot_def)
  qed
  from leader_changed_loop_ok [OF ok0 bm_wf_distinct [OF snap(1)] follow] obtain sends tb1 where
    1: "leader_changed_loop ?con tb0 = Some (sends, tb1)" "tablet_ok (tb1, [])" "persisted (tb_ctx tb1) = persisted c'"
    by (auto simp: tb0_def)
  have "ctx_ok [] (finish_query_ess tb1) (ms_query_ess tb1) (tb_ctx tb1)" using 1(2) by (simp add: tablet_ok_def)
  from main_loop_ctx_ok [OF this, of ddl] obtain told ess c3 where
    2: "run_main_loop ddl (ms_query_ess tb1, tb_ctx tb1) = Some (told, ess, c3)" "ctx_ok [] (finish_query_ess tb1) ess c3"
    "persisted c3 = persisted (tb_ctx tb1)" by blast
  note parts = ctx_ok_parts [OF 2(2)]
  let ?c = "c3\<lparr>tablet_bundle := []\<rparr>"
  let ?tb = "tb1\<lparr>tb_ddl_es := ddl, ms_query_ess := ess, tb_ctx := ?c\<rparr>"
  have "fq_con_ok ?c (finish_query_ess tb1)" by (rule fq_con_ok_cong [OF parts(3)]) simp_all
  moreover have "expected ?c (finish_query_ess tb1) p = expected c3 (finish_query_ess tb1) p" for p by (cases p) simp_all
  ultimately have ok': "tablet_ok (?tb, tablet_bundle c3)"
    using parts by (simp add: tablet_ok_def ctx_ok_def fq_inv_bundle ids_fresh_def tablet_is_leader_def queue_ok_def)
  have kept: "reads_kept (tb_ctx tb) ?c"
    using reads_kept_trans [OF start(2)] persisted_reads_kept [of ?c c'] 1(3) 2(3) by simp
  have lead: "tablet_is_leader c' = Some True" using ctx_ok_parts(1) [OF start(1)] .
  have c0: "(tb_ctx (tablet_snapshot eid ddl' tb))\<lparr>t_leader_map := bm_insert (SlaveGid (t_this_sid (tb_ctx (tablet_snapshot eid ddl' tb)))) lid
      (t_leader_map (tb_ctx (tablet_snapshot eid ddl' tb)))\<rparr> = c'" "c'\<lparr>tablet_bundle := []\<rparr> = c'"
    by (simp_all add: tablet_snapshot_def c'_def persisted_def)
  have "finish_query_ess (tablet_snapshot eid ddl' tb) = ?con" by (simp add: tablet_snapshot_def)
  then have "tablet_leader_changed lid ddl (tablet_snapshot eid ddl' tb) = Some (told, sends, Some (tablet_bundle c3), ?tb)"
    using 1(1) 2(1) by (simp add: tablet_leader_changed_def Let_def c0 lead tb0_def)
  with ok' kept show ?thesis by auto
qed

section \<open>Steps\<close>

lemma tablet_ok_request:
  assumes ok: "tablet_ok (tb, plms)" and inv: "fq_inv ess c" and fresh: "ids_fresh c"
    and same: "persisted c = persisted (tb_ctx tb)" "inserting_prepared_writes c = inserting_prepared_writes (tb_ctx tb)"
      "inserting_read_protected c = inserting_read_protected (tb_ctx tb)" "inserting_locked_cols c = inserting_locked_cols (tb_ctx tb)"
      "tablet_bundle c = tablet_bundle (tb_ctx tb)"
  shows "tablet_ok (tb\<lparr>tb_ctx := c, ms_query_ess := ess\<rparr>, plms)"
  using ctx_ok_request [OF ok [unfolded tablet_ok_def, simplified] inv fresh] persisted_fields [OF same(1)] same(2-5)
  by (simp add: tablet_ok_def)

lemma local_step_ok:
  assumes "local_step tb tb'" and ok: "tablet_ok (tb, plms)"
  shows "tablet_ok (tb', plms) \<and> persisted (tb_ctx tb') = persisted (tb_ctx tb) \<and>
    con_persist (finish_query_ess tb') = con_persist (finish_query_ess tb)"
proof -
  have cok: "ctx_ok plms (finish_query_ess tb) (ms_query_ess tb) (tb_ctx tb)" using ok by (simp add: tablet_ok_def)
  note parts = ctx_ok_parts [OF cok]
  note fresh = parts(4) [unfolded ids_fresh_def]
  from assms(1) show ?thesis
  proof cases
    case (register new_qid root root_sid root_lid gen t qid ess c)
    from register(2) have "c = tb_ctx tb \<or> (\<exists>m v. c = (tb_ctx tb)\<lparr>ms_root_query_map := m, verifying_writes := v\<rparr>)"
      by (auto simp: get_msquery_id_def bind_eq_Some_conv split: option.splits if_splits)
    with tablet_ok_request [OF ok register_inv [OF parts(2) register(2,3)]] fresh register(1) show ?thesis
      by (auto simp: persisted_def ids_fresh_def)
  next
    case (tx_read region qid orig t c)
    from tx_read(3) obtain v where "c = (tb_ctx tb)\<lparr>verifying_writes := v\<rparr>"
      by (auto simp: request_region_read_def bind_eq_Some_conv)
    with tablet_ok_request [OF ok tx_read_inv [OF parts(2) tx_read(2,3)]] fresh tx_read(1) show ?thesis
      by (simp add: persisted_def ids_fresh_def)
  next
    case (tx_write region w qid orig t c)
    from tx_write(4) obtain v where "c = (tb_ctx tb)\<lparr>verifying_writes := v\<rparr>"
      by (auto simp: request_region_write_def bind_eq_Some_conv split: if_splits)
    with tablet_ok_request [OF ok tx_write_inv [OF parts(2) tx_write(2,3,4)]] fresh tx_write(1) show ?thesis
      by (simp add: persisted_def ids_fresh_def)
  next
    case (table_read region t qid orig)
    with tablet_ok_request [OF ok table_read_inv [OF parts(2) table_read(2), of qid orig t]] fresh show ?thesis
      by (simp add: request_table_read_def persisted_def ids_fresh_def)
  next
    case (lock_cols qid orig t cols)
    let ?c = "add_requested_locked_columns qid orig t cols (tb_ctx tb)"
    note inv = fq_inv_parts [OF parts(2)]
    have "bm_wf (waiting_locked_cols ?c)" "bm_wf (inserting_locked_cols (tb_ctx tb))"
      using inv(1) by (simp_all add: add_requested_locked_columns_def tablet_wf_def)
    from locked_cols_ok [OF inv(1,2) this, of "tablet_bundle (tb_ctx tb)"] have "tablet_wf ?c" "region_inv ?c" 
      by (simp_all add: add_requested_locked_columns_def)
    moreover have "tablet_typed ?c"
      by (rule tablet_typed_mono [OF inv(3)]) (simp_all add: add_requested_locked_columns_def writes_at_def waiting_at_def)
    ultimately have "fq_inv (ms_query_ess tb) ?c"
      using inv by (intro fq_inv_I) (simp_all add: add_requested_locked_columns_def ess_linked_def views_ok_def)
    from tablet_ok_request [OF ok this] fresh lock_cols show ?thesis
      by (auto simp: add_requested_locked_columns_def persisted_def ids_fresh_def)
  next
    case (update_view qid es v view tier ess)
    from tablet_ok_request [OF ok update_view_inv [OF parts(2) update_view(2-6)]] parts(4) update_view(1) show ?thesis by simp
  next
    case (exit_tx qid ess c)
    with exit_tx_ok [OF cok exit_tx(2)] show ?thesis by (simp add: tablet_ok_def)
  next
    case (main_loop told ess c)
    with main_loop_ctx_ok [OF cok, of "tb_ddl_es tb"] show ?thesis by (auto simp: tablet_ok_def)
  next
    case (iteration told ess c)
    with iteration_ctx_ok [OF cok iteration(2)] show ?thesis by (simp add: tablet_ok_def)
  next
    case (finish_msg msg sends)
    with finish_msg_ok [OF ok] show ?thesis by blast
  qed
qed

lemma local_steps_ok:
  assumes "local_step\<^sup>*\<^sup>* tb tb'" and "tablet_ok (tb, plms)"
  shows "tablet_ok (tb', plms) \<and> persisted (tb_ctx tb') = persisted (tb_ctx tb)"
  using assms by (induction rule: rtranclp_induct) (use local_step_ok in fastforce)+

lemma learn_steps_ok:
  assumes "learn_steps plms tb tb'" and "tablet_ok (tb, plms)"
  shows "tablet_ok (tb', []) \<and> reads_kept (tb_ctx tb) (tb_ctx tb')"
  using assms
proof (induction rule: learn_steps.induct)
  case (learned tb tb')
  with local_steps_ok [OF learned.hyps learned.prems] persisted_reads_kept show ?case by blast
next
  case (entry plm tb told sends tb1 tb2 plms tb')
  from apply_plm_ok [OF entry.prems] entry.hyps(1) have 1: "tablet_ok (tb1, plms)" "reads_kept (tb_ctx tb) (tb_ctx tb1)" by auto
  from local_steps_ok [OF entry.hyps(2) 1(1)] have 2: "tablet_ok (tb2, plms)" "reads_kept (tb_ctx tb1) (tb_ctx tb2)" using persisted_reads_kept by auto
  from entry.IH [OF 2(1)] 1(2) 2(2) show ?case using reads_kept_trans by blast
qed

lemma schema_change_ok:
  assumes ok: "tablet_ok (tb, plms)" and key: "key_cols schema = key_cols (t_schema (tb_ctx tb))"
  shows "tablet_ok (tb\<lparr>tb_ctx := (tb_ctx tb)\<lparr>t_schema := schema\<rparr>, tb_ddl_es := ddl\<rparr>, plms) \<and>
    reads_kept (tb_ctx tb) ((tb_ctx tb)\<lparr>t_schema := schema\<rparr>)"
proof -
  let ?c = "(tb_ctx tb)\<lparr>t_schema := schema\<rparr>"
  have cok: "ctx_ok plms (finish_query_ess tb) (ms_query_ess tb) (tb_ctx tb)" using ok by (simp add: tablet_ok_def)
  note parts = ctx_ok_parts [OF cok]
  have views: "writes_at ?c = writes_at (tb_ctx tb)" "reads_at ?c = reads_at (tb_ctx tb)"
    "m_reads_at ?c = m_reads_at (tb_ctx tb)" "waiting_at ?c = waiting_at (tb_ctx tb)"
    by (simp_all add: writes_at_def reads_at_def m_reads_at_def waiting_at_def fun_eq_iff)
  have "fq_inv (ms_query_ess tb) ?c"
    using parts(2) views key by (simp add: fq_inv_def loop_ok_def tablet_wf_def region_inv_def tablet_typed_def ess_linked_def views_ok_def)
  moreover have "fq_con_ok ?c (finish_query_ess tb)" by (rule fq_con_ok_cong [OF parts(3)]) (simp_all add: key)
  moreover have "expected ?c (finish_query_ess tb) p = expected (tb_ctx tb) (finish_query_ess tb) p" for p by (cases p) simp_all
  moreover have "reads_kept (tb_ctx tb) ?c" by (rule reads_kept_same) (simp_all add: key)
  ultimately show ?thesis using parts by (simp add: tablet_ok_def ctx_ok_def ids_fresh_def tablet_is_leader_def queue_ok_def)
qed

lemma tablet_step_ok:
  assumes "tablet_step s s'" and "tablet_ok s"
  shows "tablet_ok s' \<and> reads_kept (tb_ctx (fst s)) (tb_ctx (fst s'))"
  using assms
proof cases
  case (local tb tb' plms)
  with local_step_ok [OF local(3)] persisted_reads_kept assms(2) show ?thesis by auto
next
  case (schema_change schema tb plms ddl)
  with schema_change_ok assms(2) show ?thesis by auto
next
  case (remote_leader gid tb lid sends tb' plms)
  with remote_leader_ok assms(2) show ?thesis by auto
next
  case (learn plms tb told sends plms' tb')
  with tablet_learn_ok [of tb plms] assms(2) show ?thesis by auto
next
  case (learn_replies plms tb tb1 sends tb2)
  with learn_steps_ok assms(2) have 1: "tablet_ok (tb1, [])" "reads_kept (tb_ctx tb) (tb_ctx tb1)" by auto
  with hand_over_ok [OF 1(1)] learn_replies(4) show ?thesis
    using persisted_reads_kept [of "(tb_ctx tb2)\<lparr>tablet_bundle := []\<rparr>" "tb_ctx tb1"] reads_kept_trans by (auto simp: learn_replies(1,2))
next
  case (takeover lid eid ddl ddl' tb told sends plms' tb' plms)
  with takeover_ok [of tb plms lid eid ddl ddl'] assms(2) show ?thesis by auto
qed

section \<open>Followers\<close>

lemma tablet_snapshot_alt:
  "tablet_snapshot eid ddl tb =
     \<lparr>tb_ctx = (persisted (tb_ctx tb))\<lparr>t_this_eid := eid\<rparr>, ms_query_ess = [],
      finish_query_ess = snapshot_ess (finish_query_ess tb), tb_ddl_es = ddl\<rparr>"
proof -
  have "c\<lparr>t_this_eid := eid, verifying_writes := [], inserting_prepared_writes := [], waiting_read_protected := [],
      inserting_read_protected := [], waiting_locked_cols := [], inserting_locked_cols := [], ms_root_query_map := [],
      tablet_bundle := []\<rparr> = (persisted c)\<lparr>t_this_eid := eid\<rparr>" for c
    by (rule tablet_ctx.equality) (simp_all add: persisted_def)
  then show ?thesis unfolding tablet_snapshot_def by (intro tablet.equality) simp_all
qed

lemma snapshot_eq:
  assumes "persisted (tb_ctx tb') = persisted (tb_ctx tb)" and "con_persist (finish_query_ess tb') = con_persist (finish_query_ess tb)"
    and "bm_wf (finish_query_ess tb)" and "bm_wf (finish_query_ess tb')"
  shows "tablet_snapshot eid ddl tb' = tablet_snapshot eid ddl tb"
proof -
  have "snapshot_ess (finish_query_ess tb') = snapshot_ess (finish_query_ess tb)"
    using assms(2) snapshot_ess_get [OF assms(3)] snapshot_ess_get [OF assms(4)] by (intro bm_canonical) (simp_all add: fun_eq_iff)
  then show ?thesis using assms(1) by (simp add: tablet_snapshot_alt)
qed

lemma snapshot_follows:
  assumes "tablet_is_leader (tb_ctx tb) = Some True" and "eid \<noteq> t_this_eid (tb_ctx tb)"
  shows "tablet_is_leader (tb_ctx (tablet_snapshot eid ddl tb)) = Some False"
  using assms by (auto simp: tablet_is_leader_def tablet_snapshot_def)

lemma follower_apply_plm:
  assumes ok: "tablet_ok (tb, plm # plms)" and eid: "eid \<noteq> t_this_eid (tb_ctx tb)" and h: "apply_plm plm tb = Some (told, sends, tb')"
  shows "apply_plm plm (tablet_snapshot eid ddl tb) = Some ([], [], tablet_snapshot eid ddl tb')"
proof -
  have cok: "ctx_ok (plm # plms) (finish_query_ess tb) (ms_query_ess tb) (tb_ctx tb)" using ok by (simp add: tablet_ok_def)
  note parts = ctx_ok_parts [OF cok]
  let ?fb = "tablet_snapshot eid ddl tb"
  from parts(1) obtain lid where lid: "bm_get (t_leader_map (tb_ctx tb)) (SlaveGid (t_this_sid (tb_ctx tb))) = Some lid"
    "lid_eid lid = t_this_eid (tb_ctx tb)" by (auto simp: tablet_is_leader_def)
  show ?thesis
  proof (cases plm)
    case (PLm_LockedCols qid t cols)
    with h lid eid show ?thesis
      by (cases cols) (auto simp: apply_plm_def Let_def tablet_is_leader_def tablet_snapshot_alt persisted_def bind_eq_Some_conv
          intro!: tablet_ctx.equality)
  next
    case (PLm_ReadProtected qid t region)
    with h lid eid show ?thesis
      by (auto simp: apply_plm_def Let_def tablet_is_leader_def tablet_snapshot_alt persisted_def bind_eq_Some_conv
          remove_inserting_read_protected_request_def intro!: tablet_ctx.equality)
  next
    case (PLm_FinishQuery p)
    have wf: "bm_wf (finish_query_ess tb)" using parts(3) by (simp add: con_ok_def)
    note snap = snapshot_ess_get [OF wf]
    have lead: "rm_is_leader fq_rm (tb_ctx tb) = Some True" using parts(1) by (simp add: fq_rm_def)
    have follow: "rm_is_leader fq_rm (tb_ctx ?fb) = Some False" using snapshot_follows [OF parts(1) eid] by (simp add: fq_rm_def)
    have due: "plm_due fq_rm (finish_query_ess tb) p" using parts(5) by (simp add: queue_ok_def PLm_FinishQuery)
    have sim: "fq_sim eid (tb_ctx tb) (tb_ctx ?fb)" by (simp add: fq_sim_def tablet_snapshot_def)
    have con: "con_snap fq_rm (finish_query_ess tb) (finish_query_ess ?fb)" using snap by (simp add: con_snap_def tablet_snapshot_def)
    from fq.handle_rm_plm_ok [OF parts(2,3) lead due] obtain effs c con' where
      r: "handle_rm_plm fq_rm p (tb_ctx tb) (finish_query_ess tb) = Some (effs, c, con', plm_qid p, P2PC_Wait)" "fq_con_ok c con'" by blast
    from fq.follower_plm [OF parts(2,3) lead due sim con follow r(1)] obtain d fcon where
      f: "handle_rm_plm fq_rm p (tb_ctx ?fb) (finish_query_ess ?fb) = Some ([], d, fcon, plm_qid p, P2PC_Wait)"
      "fq_sim eid c d" "con_snap fq_rm con' fcon" by blast
    have wf': "bm_wf con'" using r(2) by (simp add: con_ok_def)
    have fcon: "fcon = snapshot_ess con'"
      using f(3) snapshot_ess_get [OF wf'] by (intro bm_canonical) (simp_all add: con_snap_def)
    obtain s where s: "fold perform_effect effs ([], c) = (s, c\<lparr>tablet_bundle := tablet_bundle c @ map PLm_FinishQuery (pushes effs)\<rparr>)"
      using perform_effects by blast
    from h r(1) have "tb' = tb\<lparr>tb_ctx := c\<lparr>tablet_bundle := tablet_bundle c @ map PLm_FinishQuery (pushes effs)\<rparr>, finish_query_ess := con'\<rparr>"
      by (simp add: PLm_FinishQuery apply_plm_def fq_done_def s)
    moreover have "apply_plm plm ?fb = Some ([], [], ?fb\<lparr>tb_ctx := d, finish_query_ess := fcon\<rparr>)"
      using f(1) by (simp add: PLm_FinishQuery apply_plm_def fq_done_def)
    ultimately show ?thesis using f(2) by (simp add: tablet_snapshot_def fq_sim_def fcon)
  qed
qed

lemma apply_plm_eid:
  assumes ok: "tablet_ok (tb, plm # plms)" and h: "apply_plm plm tb = Some (told, sends, tb')"
  shows "t_this_eid (tb_ctx tb') = t_this_eid (tb_ctx tb)"
proof (cases plm)
  case (PLm_FinishQuery p)
  have cok: "ctx_ok (plm # plms) (finish_query_ess tb) (ms_query_ess tb) (tb_ctx tb)" using ok by (simp add: tablet_ok_def)
  note parts = ctx_ok_parts [OF cok]
  have lead: "rm_is_leader fq_rm (tb_ctx tb) = Some True" using parts(1) by (simp add: fq_rm_def)
  have due: "plm_due fq_rm (finish_query_ess tb) p" using parts(5) by (simp add: queue_ok_def PLm_FinishQuery)
  from fq.handle_rm_plm_ok [OF parts(2,3) lead due] obtain effs c con' where
    r: "handle_rm_plm fq_rm p (tb_ctx tb) (finish_query_ess tb) = Some (effs, c, con', plm_qid p, P2PC_Wait)" "fq_keeps (tb_ctx tb) c" by blast
  obtain s where "fold perform_effect effs ([], c) = (s, c\<lparr>tablet_bundle := tablet_bundle c @ map PLm_FinishQuery (pushes effs)\<rparr>)"
    using perform_effects by blast
  with h r show ?thesis by (auto simp: PLm_FinishQuery apply_plm_def fq_done_def fq_keeps_def)
qed (use h in \<open>auto simp: apply_plm_def Let_def bind_eq_Some_conv remove_inserting_read_protected_request_def split: if_splits\<close>)

lemma follower_apply_plms:
  assumes "tablet_ok (tb, plms)" and "eid \<noteq> t_this_eid (tb_ctx tb)" and "apply_plms plms tb = Some (told, sends, tb')"
  shows "apply_plms plms (tablet_snapshot eid ddl tb) = Some ([], [], tablet_snapshot eid ddl tb') \<and>
    t_this_eid (tb_ctx tb') = t_this_eid (tb_ctx tb)"
  using assms
proof (induction plms arbitrary: tb told sends)
  case (Cons plm plms)
  from apply_plm_ok [OF Cons.prems(1)] obtain told1 sends1 tb1 where
    1: "apply_plm plm tb = Some (told1, sends1, tb1)" "tablet_ok (tb1, plms)" by blast
  with Cons.prems(3) obtain told2 sends2 where 2: "apply_plms plms tb1 = Some (told2, sends2, tb')" by (auto simp: bind_eq_Some_conv)
  have eid: "t_this_eid (tb_ctx tb1) = t_this_eid (tb_ctx tb)" by (rule apply_plm_eid [OF Cons.prems(1) 1(1)])
  from Cons.IH [OF 1(2) _ 2] Cons.prems(2) follower_apply_plm [OF Cons.prems(1,2) 1(1), of ddl] eid show ?case by simp
qed simp

lemma follower_learn:
  assumes ok: "tablet_ok (tb, plms)" and eid: "eid \<noteq> t_this_eid (tb_ctx tb)"
    and h: "tablet_learn plms tb = Some (told, sends, plms', tb')"
  shows "tablet_learn plms (tablet_snapshot eid ddl tb) = Some ([], [], None, tablet_snapshot eid ddl tb')"
proof -
  from tablet_learn_ok [OF ok] h obtain told1 sends1 tb1 where 1: "apply_plms plms tb = Some (told1, sends1, tb1)"
    "persisted (tb_ctx tb') = persisted (tb_ctx tb1)" "con_persist (finish_query_ess tb') = con_persist (finish_query_ess tb1)"
    "bm_wf (finish_query_ess tb')" by auto
  from follower_apply_plms [OF ok eid 1(1)] have f: "apply_plms plms (tablet_snapshot eid ddl tb) = Some ([], [], tablet_snapshot eid ddl tb1)"
    and e: "t_this_eid (tb_ctx tb1) = t_this_eid (tb_ctx tb)" by auto
  from apply_plms_ok [OF ok] 1(1) have ok1: "ctx_ok [] (finish_query_ess tb1) (ms_query_ess tb1) (tb_ctx tb1)" by (simp add: tablet_ok_def)
  have wf: "bm_wf (finish_query_ess tb1)" using ctx_ok_parts(3) [OF ok1] by (simp add: con_ok_def)
  have "tablet_is_leader (tb_ctx (tablet_snapshot eid ddl tb1)) = Some False"
    by (rule snapshot_follows [OF ctx_ok_parts(1) [OF ok1]]) (simp add: e eid)
  moreover have "tablet_snapshot eid ddl tb' = tablet_snapshot eid ddl tb1" by (rule snapshot_eq [OF 1(2,3) wf 1(4)])
  ultimately show ?thesis using f by (simp add: tablet_learn_def)
qed

end
