(* ===== verification/Tablet_Theorems.thy ===== *)
theory Tablet_Theorems
  imports Tablet_Replicas
begin

text \<open>
  What holds of every run of a tablet, across the commits of its transactions, schema changes and
  takeovers by other nodes of its group: protected reads are repeatable and the followers agree
  with the leader. A run is a sequence of \<open>tablet_step\<close>; an executable version
  of the steps evaluates concrete runs.
\<close>

section \<open>Runs\<close>

text \<open>A tablet as the slave creates it, at its leader.\<close>

definition tablet_start :: "tablet \<Rightarrow> bool" where
  "tablet_start tb \<longleftrightarrow>
     tablet_is_leader (tb_ctx tb) = Some True \<and>
     storage_ok (key_cols (t_schema (tb_ctx tb))) (t_storage (tb_ctx tb)) \<and>
     ms_query_ess tb = [] \<and> finish_query_ess tb = [] \<and>
     verifying_writes (tb_ctx tb) = [] \<and> inserting_prepared_writes (tb_ctx tb) = [] \<and>
     prepared_writes (tb_ctx tb) = [] \<and> committed_writes (tb_ctx tb) = [] \<and>
     waiting_read_protected (tb_ctx tb) = [] \<and> inserting_read_protected (tb_ctx tb) = [] \<and>
     read_protected (tb_ctx tb) = [] \<and> waiting_locked_cols (tb_ctx tb) = [] \<and>
     inserting_locked_cols (tb_ctx tb) = [] \<and> tablet_bundle (tb_ctx tb) = []"

lemma tablet_start_ok: "tablet_start tb \<Longrightarrow> tablet_ok (tb, [])"
  by (simp add: tablet_start_def tablet_ok_def ctx_ok_def fq_inv_def loop_ok_def tablet_wf_def region_inv_def tablet_typed_def
      ess_linked_def views_ok_def con_ok_def ids_fresh_def queue_ok_def writes_at_def reads_at_def m_reads_at_def waiting_at_def at_def)

definition tablet_reachable :: "tablet \<times> tablet_plm list \<Rightarrow> bool" where
  "tablet_reachable s \<longleftrightarrow> (\<exists>tb. tablet_start tb \<and> tablet_step\<^sup>*\<^sup>* (tb, []) s)"

lemma tablet_run_ok:
  assumes "tablet_step\<^sup>*\<^sup>* s s'" and "tablet_ok s"
  shows "tablet_ok s' \<and> reads_kept (tb_ctx (fst s)) (tb_ctx (fst s'))"
  using assms
proof (induction rule: rtranclp_induct)
  case (step s1 s2)
  with tablet_step_ok [OF step.hyps(2)] show ?case using reads_kept_trans by blast
qed simp

lemma tablet_reachable_ok: "tablet_reachable s \<Longrightarrow> tablet_ok s"
  unfolding tablet_reachable_def using tablet_run_ok tablet_start_ok by blast

section \<open>Steps that are evaluated\<close>

datatype tablet_event =
    Ev_Register query_id query_id slave_group_id leadership_id sharding_gen timestamp
  | Ev_Tx_Write query_id query_id timestamp read_region write_region
  | Ev_Table_Read query_id query_id timestamp read_region
  | Ev_Update_View query_id timestamp nat generic_table
  | Ev_Main_Loop
  | Ev_Finish_Query "(query_id, tnode_path, cnode_path) rm_message"
  | Ev_Learn
  | Ev_Takeover leadership_id

definition covered_check :: "write_region list \<Rightarrow> generic_table \<Rightarrow> bool" where
  "covered_check ws view \<longleftrightarrow> (\<forall>e \<in> set view. \<exists>w \<in> set ws. view_within w [e])"

lemma covered_check_sound: "covered_check ws view \<Longrightarrow> view_covered ws view"
  by (auto simp: covered_check_def view_covered_def dest!: map_of_SomeD)

fun tablet_exec :: "tablet_event \<Rightarrow> tablet \<times> tablet_plm list \<Rightarrow> (tablet \<times> tablet_plm list) option" where
  "tablet_exec (Ev_Register new_qid root sid lid gen t) (tb, plms) =
     (if bm_get (ms_query_ess tb) new_qid \<noteq> None then None
      else case get_msquery_id new_qid root sid lid gen t (ms_query_ess tb) (tb_ctx tb) of
        Some (Inr (qid, ess, c)) \<Rightarrow> Some (tb\<lparr>tb_ctx := c, ms_query_ess := ess\<rparr>, plms) | _ \<Rightarrow> None)"
| "tablet_exec (Ev_Tx_Write qid orig t region w) (tb, plms) =
     (if region_typed (key_cols (t_schema (tb_ctx tb))) (rr_row_region region) \<and>
         region_typed (key_cols (t_schema (tb_ctx tb))) (wr_row_region w)
      then case request_region_write qid orig t region w (tb_ctx tb) of
        Some (Some c) \<Rightarrow> Some (tb\<lparr>tb_ctx := c\<rparr>, plms) | _ \<Rightarrow> None
      else None)"
| "tablet_exec (Ev_Table_Read qid orig t region) (tb, plms) =
     (if region_typed (key_cols (t_schema (tb_ctx tb))) (rr_row_region region) \<and>
         get_req (inserting_read_protected (tb_ctx tb)) t qid = None
      then Some (tb\<lparr>tb_ctx := request_table_read qid orig t region (tb_ctx tb)\<rparr>, plms) else None)"
| "tablet_exec (Ev_Update_View qid t tier view) (tb, plms) =
     (case (bm_get (ms_query_ess tb) qid, bm_get (verifying_writes (tb_ctx tb)) t) of
        (Some es, Some v) \<Rightarrow>
          if ms_timestamp es = t \<and> view_ok (key_cols (t_schema (tb_ctx tb))) view \<and> covered_check (v_write_protected v) view
          then case add_update_view qid tier view (ms_query_ess tb) of
            Some ess \<Rightarrow> Some (tb\<lparr>ms_query_ess := ess\<rparr>, plms) | None \<Rightarrow> None
          else None
      | _ \<Rightarrow> None)"
| "tablet_exec Ev_Main_Loop (tb, plms) =
     (case run_main_loop (tb_ddl_es tb) (ms_query_ess tb, tb_ctx tb) of
        Some (told, ess, c) \<Rightarrow> Some (tb\<lparr>tb_ctx := c, ms_query_ess := ess\<rparr>, plms) | None \<Rightarrow> None)"
| "tablet_exec (Ev_Finish_Query msg) (tb, plms) =
     (case tablet_finish_query_msg msg tb of Some (sends, tb') \<Rightarrow> Some (tb', plms) | None \<Rightarrow> None)"
| "tablet_exec Ev_Learn (tb, plms) =
     (case tablet_learn plms tb of Some (told, sends, Some plms', tb') \<Rightarrow> Some (tb', plms') | _ \<Rightarrow> None)"
| "tablet_exec (Ev_Takeover lid) (tb, plms) =
     (case tablet_leader_changed lid (tb_ddl_es tb) (tablet_snapshot (lid_eid lid) (tb_ddl_es tb) tb) of
        Some (told, sends, Some plms', tb') \<Rightarrow> Some (tb', plms') | _ \<Rightarrow> None)"

lemma tablet_exec_step: "tablet_exec ev s = Some s' \<Longrightarrow> tablet_step s s'"
  by (cases "(ev, s)" rule: tablet_exec.cases)
    (auto split: option.splits sum.splits if_splits intro: tablet_step.intros local_step.intros covered_check_sound)

fun tablet_execs :: "tablet_event list \<Rightarrow> tablet \<times> tablet_plm list \<Rightarrow> (tablet \<times> tablet_plm list) option" where
  "tablet_execs [] s = Some s"
| "tablet_execs (ev # evs) s = (case tablet_exec ev s of None \<Rightarrow> None | Some s' \<Rightarrow> tablet_execs evs s')"

lemma tablet_execs_run: "tablet_execs evs s = Some s' \<Longrightarrow> tablet_step\<^sup>*\<^sup>* s s'"
  by (induction evs s rule: tablet_execs.induct)
    (auto split: option.splits intro: converse_rtranclp_into_rtranclp tablet_exec_step)

text \<open>
  A read of the keys above 5 at timestamp 9 and a transaction at 5 that writes keys up to 5: the
  read is protected first, then the transaction prepares and commits.
\<close>

definition ex_high :: read_region where
  "ex_high = \<lparr>rr_row_region = [[PCB_Int (mk_col_bound (Excluded 5) Unbounded)]], rr_val_col_region = [''v'']\<rparr>"

definition ex_start :: tablet where
  "ex_start = \<lparr>tb_ctx = ex_tablet\<lparr>t_storage := ex_storage, verifying_writes := [], waiting_read_protected := [],
     ms_root_query_map := []\<rparr>, ms_query_ess = [], finish_query_ess = [], tb_ddl_es = DDL_None\<rparr>"

definition ex_protect :: "tablet_event list" where
  "ex_protect =
     [Ev_Register ''n'' ''r'' ''s'' (mk_first ex_leader) 0 (mk_t 5),
      Ev_Table_Read ''p'' ''x'' (mk_t 9) ex_high,
      Ev_Tx_Write ''w'' ''o'' (mk_t 5) \<lparr>rr_row_region = ex_region, rr_val_col_region = [''v'']\<rparr>
        \<lparr>wr_row_region = ex_region, wr_presence = True, wr_val_col_region = [''v'']\<rparr>,
      Ev_Main_Loop, Ev_Learn, Ev_Learn]"

definition ex_commit :: "tablet_event list" where
  "ex_commit =
     [Ev_Update_View ''n'' (mk_t 5) 1 ex_view,
      Ev_Finish_Query (RM_Prepare \<lparr>pr_query_id = ''f'', pr_tm = (''s'', ''c''), pr_rms = [(''s'', ''t'')], pr_payload = ''n''\<rparr>),
      Ev_Learn, Ev_Learn, Ev_Finish_Query (RM_Commit ''f'' (''s'', ''c'')), Ev_Learn, Ev_Learn,
      Ev_Takeover \<lparr>lid_gen = 1, lid_eid = EndpointId ''z'' Internal\<rparr>]"

definition ex_state :: "tablet_event list \<Rightarrow> tablet \<times> tablet_plm list" where
  "ex_state evs = the (tablet_execs evs (ex_start, []))"

lemma ex_start_ok: "tablet_start ex_start"
  using ex_storage_ok by (simp add: tablet_start_def ex_start_def ex_tablet_def ex_schema_def tablet_is_leader_def mk_first_def)

lemma ex_protect_run: "tablet_execs ex_protect (ex_start, []) = Some (ex_state ex_protect)"
  by code_simp

lemma ex_commit_run: "tablet_execs (ex_protect @ ex_commit) (ex_start, []) = Some (ex_state (ex_protect @ ex_commit))"
  by code_simp

lemma ex_reachable: "tablet_reachable (ex_state ex_protect)"
  unfolding tablet_reachable_def using ex_start_ok tablet_execs_run [OF ex_protect_run] by blast

lemma ex_commit_rest: "tablet_execs ex_commit (ex_state ex_protect) = Some (ex_state (ex_protect @ ex_commit))"
  by code_simp

lemma ex_protected: "protected_read (tb_ctx (fst (ex_state ex_protect))) (mk_t 9) ex_high"
proof -
  have "read_protected (tb_ctx (fst (ex_state ex_protect))) = [(mk_t 9, [ex_high])]" by code_simp
  then show ?thesis by (auto simp: protected_read_def at_def intro!: exI [of _ "mk_t 9"])
qed

lemma ex_commit_wrote:
  "read_cell (t_storage (tb_ctx (fst (ex_state (ex_protect @ ex_commit))))) (mk_t 5) ([CV_Int 1], Some ''v'') =
     Some (mk_t 5, Some (CV_Int 50))"
  by code_simp

section \<open>Properties\<close>

text \<open>
  C3: what a protected read sees never changes. A read is protected at a timestamp once it is in
  the log of the tablet, or once the transaction at a later timestamp that made it is committed.
  From then on, whatever happens at the tablet (other transactions that write, prepare, commit or
  abort, schema changes, changes of leadership, a takeover by another node from the log), it stays
  protected and returns the same snapshot of the columns it asked for.
\<close>

theorem protected_reads_repeatable:
  assumes "tablet_reachable s" and "tablet_step\<^sup>*\<^sup>* s s'" and "protected_read (tb_ctx (fst s)) t r"
    and "region_typed (key_cols (t_schema (tb_ctx (fst s)))) (rr_row_region r)" and "set vcols \<subseteq> set (rr_val_col_region r)"
  shows "protected_read (tb_ctx (fst s')) t r \<and>
    simple_presence_snapshot (t_storage (tb_ctx (fst s'))) schema (rr_row_region r) vcols t =
    simple_presence_snapshot (t_storage (tb_ctx (fst s))) schema (rr_row_region r) vcols t"
  using tablet_run_ok [OF assms(2) tablet_reachable_ok [OF assms(1)]] assms(3-5) by (simp add: reads_kept_def sees_same_def)

theorem protected_reads_repeatable_witness:
  "read_cell (t_storage (tb_ctx (fst (ex_state (ex_protect @ ex_commit))))) (mk_t 5) ([CV_Int 1], Some ''v'') =
     Some (mk_t 5, Some (CV_Int 50)) \<and>
   protected_read (tb_ctx (fst (ex_state (ex_protect @ ex_commit)))) (mk_t 9) ex_high \<and>
   simple_presence_snapshot (t_storage (tb_ctx (fst (ex_state (ex_protect @ ex_commit))))) ex_schema (rr_row_region ex_high) [''v''] (mk_t 9) =
   simple_presence_snapshot (t_storage (tb_ctx (fst (ex_state ex_protect)))) ex_schema (rr_row_region ex_high) [''v''] (mk_t 9)"
proof (rule conjI [OF ex_commit_wrote], rule protected_reads_repeatable [OF ex_reachable tablet_execs_run [OF ex_commit_rest] ex_protected])
  show "region_typed (key_cols (t_schema (tb_ctx (fst (ex_state ex_protect))))) (rr_row_region ex_high)" by code_simp
  show "set [''v''] \<subseteq> set (rr_val_col_region ex_high)" by (simp add: ex_high_def)
qed

text \<open>
  C4: the followers of a tablet agree with its leader. A follower that holds the snapshot of the
  leader's tablet learns the leader's bundle without a panic, sends nothing, and ends up with the
  snapshot of what the leader has become, although the leader also held unprepared transactions
  and requests, ran its main loop and began to insert further entries.
\<close>

theorem followers_agree:
  assumes "tablet_reachable (tb, plms)" and "eid \<noteq> t_this_eid (tb_ctx tb)"
    and "tablet_learn plms tb = Some (told, sends, plms', tb')"
  shows "tablet_learn plms (tablet_snapshot eid ddl tb) = Some ([], [], None, tablet_snapshot eid ddl tb')"
  using follower_learn [OF tablet_reachable_ok [OF assms(1)] assms(2,3)] .

text \<open>
  C18: what the leader does between two bundles changes nothing of what a new node would start from:
  requests, transactions that have not prepared, the main loop and the messages of the commit
  protocol reach the replicated state only through the log.
\<close>

theorem local_steps_not_replicated:
  assumes "tablet_reachable (tb, plms)" and "local_step tb tb'"
  shows "tablet_snapshot eid ddl tb' = tablet_snapshot eid ddl tb"
proof -
  note ok = tablet_reachable_ok [OF assms(1)]
  from local_step_ok [OF assms(2) ok] have step: "tablet_ok (tb', plms)" "persisted (tb_ctx tb') = persisted (tb_ctx tb)"
    "con_persist (finish_query_ess tb') = con_persist (finish_query_ess tb)" by auto
  have wf: "bm_wf (finish_query_ess x)" if "tablet_ok (x, plms)" for x
    using that by (simp add: tablet_ok_def ctx_ok_def con_ok_def)
  show ?thesis by (rule snapshot_eq [OF step(2,3) wf [OF ok] wf [OF step(1)]])
qed

text \<open>The bundle of the main loop, handed over and about to be learned.\<close>

definition ex_handed :: "tablet_event list" where
  "ex_handed = take 5 ex_protect"

lemma ex_handed_run: "tablet_execs ex_handed (ex_start, []) = Some (ex_state ex_handed)"
  by code_simp

lemma ex_handed_reachable: "tablet_reachable (fst (ex_state ex_handed), snd (ex_state ex_handed))"
  unfolding tablet_reachable_def using ex_start_ok tablet_execs_run [OF ex_handed_run] by auto

theorem followers_agree_witness:
  "\<exists>tb'. read_protected (tb_ctx tb') = [(mk_t 9, [ex_high])] \<and>
     tablet_learn (snd (ex_state ex_handed)) (tablet_snapshot (EndpointId ''z'' Internal) DDL_None (fst (ex_state ex_handed))) =
     Some ([], [], None, tablet_snapshot (EndpointId ''z'' Internal) DDL_None tb')"
proof -
  define res where "res = the (tablet_learn (snd (ex_state ex_handed)) (fst (ex_state ex_handed)))"
  have l: "tablet_learn (snd (ex_state ex_handed)) (fst (ex_state ex_handed)) = Some res" unfolding res_def by code_simp
  obtain told sends plms' tb' where res: "res = (told, sends, plms', tb')" by (cases res)
  have "read_protected (tb_ctx (snd (snd (snd res)))) = [(mk_t 9, [ex_high])]" unfolding res_def by code_simp
  moreover have "EndpointId ''z'' Internal \<noteq> t_this_eid (tb_ctx (fst (ex_state ex_handed)))" by code_simp
  ultimately show ?thesis using followers_agree [OF ex_handed_reachable _ l [unfolded res], of "EndpointId ''z'' Internal" DDL_None] res
    by auto
qed

theorem local_steps_not_replicated_witness:
  "\<exists>tb'. local_step (fst (ex_state ex_protect)) tb' \<and>
     tablet_snapshot ex_leader DDL_None tb' = tablet_snapshot ex_leader DDL_None (fst (ex_state ex_protect))"
proof -
  let ?tb = "fst (ex_state ex_protect)"
  let ?tb' = "?tb\<lparr>tb_ctx := request_table_read ''u'' ''x'' (mk_t 3) ex_high (tb_ctx ?tb)\<rparr>"
  have "region_typed (key_cols (t_schema (tb_ctx ?tb))) (rr_row_region ex_high)" by code_simp
  moreover have "get_req (inserting_read_protected (tb_ctx ?tb)) (mk_t 3) ''u'' = None" by code_simp
  ultimately have "local_step ?tb ?tb'" by (rule local_step.table_read)
  moreover have "tablet_reachable (?tb, snd (ex_state ex_protect))" using ex_reachable by simp
  ultimately show ?thesis using local_steps_not_replicated by blast
qed

end
