(* ===== verification/Tablet_Callbacks.thy ===== *)
theory Tablet_Callbacks
  imports Tablet_Theorems
begin

text \<open>
  The main loop and the learning of a bundle together with the execution states they inform. \<open>execute_once\<close> and
  \<open>execute_once_ctx\<close> of \<open>src/src/tablet.rs\<close> call the execution state of the query that had asked; it goes on and
  may ask for more. The execution states are a parameter here: any state \<open>'e\<close> and any reaction to what they are told, as
  long as it consists of the requests and other local steps of the tablet, does not panic itself and does not ask for ever.
\<close>

section \<open>Reactions of the execution states\<close>

type_synonym 'e reply = "inform \<Rightarrow> 'e \<Rightarrow> tablet \<Rightarrow> ('e \<times> tablet) option"

fun inform_all :: "'e reply \<Rightarrow> inform list \<Rightarrow> 'e \<Rightarrow> tablet \<Rightarrow> ('e \<times> tablet) option" where
  "inform_all reply [] e tb = Some (e, tb)"
| "inform_all reply (i # is) e tb = do { (e', tb') \<leftarrow> reply i e tb; inform_all reply is e' tb' }"

partial_function (option) main_loop_with :: "'e reply \<Rightarrow> 'e \<Rightarrow> tablet \<Rightarrow> ('e \<times> tablet) option" where
  "main_loop_with reply e tb =
     do { r \<leftarrow> run_main_loop_iteration (tb_ddl_es tb) (ms_query_ess tb, tb_ctx tb);
          case r of
            None \<Rightarrow> Some (e, tb)
          | Some (told, ess, c) \<Rightarrow>
              do { (e', tb') \<leftarrow> inform_all reply told e (tb\<lparr>tb_ctx := c, ms_query_ess := ess\<rparr>);
                   main_loop_with reply e' tb' } }"

fun apply_plms_with :: "'e reply \<Rightarrow> tablet_plm list \<Rightarrow> 'e \<Rightarrow> tablet \<Rightarrow> (tm_send list \<times> 'e \<times> tablet) option" where
  "apply_plms_with reply [] e tb = Some ([], e, tb)"
| "apply_plms_with reply (plm # plms) e tb =
     do { (told, sends, tb1) \<leftarrow> apply_plm plm tb;
          (e1, tb2) \<leftarrow> inform_all reply told e tb1;
          (sends', e2, tb3) \<leftarrow> apply_plms_with reply plms e1 tb2;
          Some (sends @ sends', e2, tb3) }"

definition tablet_learn_with ::
  "'e reply \<Rightarrow> tablet_plm list \<Rightarrow> 'e \<Rightarrow> tablet \<Rightarrow> (tm_send list \<times> tablet_plm list option \<times> 'e \<times> tablet) option" where
  "tablet_learn_with reply bundle e tb =
     do { (sends, e1, tb1) \<leftarrow> apply_plms_with reply bundle e tb;
          leading \<leftarrow> tablet_is_leader (tb_ctx tb1);
          if leading then
            do { (e2, tb2) \<leftarrow> main_loop_with reply e1 tb1;
                 (sends', tb3) \<leftarrow> start_inserting_loop (finish_query_ess tb2) tb2;
                 Some (sends @ sends', Some (tablet_bundle (tb_ctx tb3)), e2, tb3\<lparr>tb_ctx := (tb_ctx tb3)\<lparr>tablet_bundle := []\<rparr>\<rparr>) }
          else Some (sends, None, e1, tb1) }"

text \<open>
  What is required of the reactions: they return, they change the tablet by its local steps only, and \<open>work\<close>
  bounds what they may still ask for, so that a new request (which adds to the load) uses some of it up.
\<close>

definition replies_ok :: "'e reply \<Rightarrow> ('e \<Rightarrow> nat) \<Rightarrow> bool" where
  "replies_ok reply work \<longleftrightarrow>
     (\<forall>i e tb plms. tablet_ok (tb, plms) \<longrightarrow>
        (\<exists>e' tb'. reply i e tb = Some (e', tb') \<and> local_step\<^sup>*\<^sup>* tb tb' \<and>
           load (tb_ctx tb') + work e' \<le> load (tb_ctx tb) + work e))"

lemma inform_all_ok:
  assumes reply: "replies_ok reply work" and "tablet_ok (tb, plms)"
  shows "\<exists>e' tb'. inform_all reply is e tb = Some (e', tb') \<and> local_step\<^sup>*\<^sup>* tb tb' \<and> load (tb_ctx tb') + work e' \<le> load (tb_ctx tb) + work e"
  using assms(2)
proof (induction "is" arbitrary: e tb)
  case (Cons i "is")
  from reply Cons.prems obtain e1 tb1 where 1: "reply i e tb = Some (e1, tb1)" "local_step\<^sup>*\<^sup>* tb tb1"
    "load (tb_ctx tb1) + work e1 \<le> load (tb_ctx tb) + work e" unfolding replies_ok_def by meson
  from Cons.IH [of tb1 e1] local_steps_ok [OF 1(2) Cons.prems] obtain e2 tb2 where
    2: "inform_all reply is e1 tb1 = Some (e2, tb2)" "local_step\<^sup>*\<^sup>* tb1 tb2" "load (tb_ctx tb2) + work e2 \<le> load (tb_ctx tb1) + work e1" by blast
  with 1 show ?case by (intro exI [of _ e2] exI [of _ tb2]) (auto intro: rtranclp_trans)
qed auto

section \<open>The loop ends\<close>

lemma main_loop_with_ok:
  assumes reply: "replies_ok reply work" and "tablet_ok (tb, plms)"
  shows "\<exists>e' tb'. main_loop_with reply e tb = Some (e', tb') \<and> local_step\<^sup>*\<^sup>* tb tb' \<and> loop_settled (tb_ddl_es tb') (tb_ctx tb')"
  using assms(2)
proof (induction "load (tb_ctx tb) + work e" arbitrary: e tb rule: less_induct)
  case less
  have "loop_ok (ms_query_ess tb, tb_ctx tb)" using less.prems by (simp add: tablet_ok_def ctx_ok_def fq_inv_def)
  then show ?case
  proof (cases rule: iteration_ok [of _ _ "tb_ddl_es tb"])
    case stop
    then show ?thesis by (auto simp: main_loop_with.simps [of reply e tb])
  next
    case (step told ess c)
    let ?tb = "tb\<lparr>tb_ctx := c, ms_query_ess := ess\<rparr>"
    have 1: "local_step tb ?tb" by (rule local_step.iteration [OF step(1)])
    with less.prems have "tablet_ok (?tb, plms)" using local_step_ok by blast
    from inform_all_ok [OF reply this, of told e] obtain e1 tb1 where
      2: "inform_all reply told e ?tb = Some (e1, tb1)" "local_step\<^sup>*\<^sup>* ?tb tb1" "load (tb_ctx tb1) + work e1 \<le> load c + work e" by auto
    then have ok1: "tablet_ok (tb1, plms)" using local_steps_ok [OF _ \<open>tablet_ok (?tb, plms)\<close>] by blast
    have "load (tb_ctx tb1) + work e1 < load (tb_ctx tb) + work e" using 2(3) step(3) by simp
    from less.hyps [OF this ok1] obtain e2 tb2 where
      3: "main_loop_with reply e1 tb1 = Some (e2, tb2)" "local_step\<^sup>*\<^sup>* tb1 tb2" "loop_settled (tb_ddl_es tb2) (tb_ctx tb2)" by blast
    have "main_loop_with reply e tb = Some (e2, tb2)" using step(1) 2(1) 3(1) by (simp add: main_loop_with.simps [of reply e tb])
    moreover have "local_step\<^sup>*\<^sup>* tb tb2" using 1 2(2) 3(2) by (meson converse_rtranclp_into_rtranclp rtranclp_trans)
    ultimately show ?thesis using 3(3) by blast
  qed
qed

lemma learn_steps_then: "learn_steps plms tb tb' \<Longrightarrow> local_step\<^sup>*\<^sup>* tb' tb'' \<Longrightarrow> learn_steps plms tb tb''"
  by (induction rule: learn_steps.induct) (auto intro: learn_steps.intros rtranclp_trans)

lemma apply_plms_with_ok:
  assumes reply: "replies_ok reply work" and "tablet_ok (tb, plms)"
  shows "\<exists>sends e' tb'. apply_plms_with reply plms e tb = Some (sends, e', tb') \<and> learn_steps plms tb tb'"
  using assms(2)
proof (induction plms arbitrary: e tb)
  case Nil
  then show ?case by (auto intro: learn_steps.learned)
next
  case (Cons plm plms)
  from apply_plm_ok [OF Cons.prems] obtain told sends tb1 where 1: "apply_plm plm tb = Some (told, sends, tb1)" "tablet_ok (tb1, plms)" by blast
  from inform_all_ok [OF reply 1(2), of told e] obtain e1 tb2 where 2: "inform_all reply told e tb1 = Some (e1, tb2)" "local_step\<^sup>*\<^sup>* tb1 tb2" by blast
  from Cons.IH [of tb2 e1] local_steps_ok [OF 2(2) 1(2)] obtain sends' e2 tb3 where
    3: "apply_plms_with reply plms e1 tb2 = Some (sends', e2, tb3)" "learn_steps plms tb2 tb3" by blast
  with 1 2 show ?case by (auto intro: learn_steps.entry)
qed

lemma learn_with_ok:
  assumes reply: "replies_ok reply work" and ok: "tablet_ok (tb, plms)"
  shows "\<exists>sends plms' e' tb'. tablet_learn_with reply plms e tb = Some (sends, Some plms', e', tb') \<and> tablet_step (tb, plms) (tb', plms')"
proof -
  from apply_plms_with_ok [OF reply ok, of e] obtain sends e1 tb1 where
    1: "apply_plms_with reply plms e tb = Some (sends, e1, tb1)" "learn_steps plms tb tb1" by blast
  then have ok1: "tablet_ok (tb1, [])" using learn_steps_ok [OF _ ok] by blast
  from main_loop_with_ok [OF reply ok1, of e1] obtain e2 tb2 where 2: "main_loop_with reply e1 tb1 = Some (e2, tb2)" "local_step\<^sup>*\<^sup>* tb1 tb2" by blast
  then have ok2: "tablet_ok (tb2, [])" using local_steps_ok [OF _ ok1] by blast
  from hand_over_ok [OF ok2] obtain sends' tb3 where 3: "start_inserting_loop (finish_query_ess tb2) tb2 = Some (sends', tb3)" by blast
  have "tablet_is_leader (tb_ctx tb1) = Some True" using ok1 by (simp add: tablet_ok_def ctx_ok_def)
  with 1(1) 2(1) 3 have "tablet_learn_with reply plms e tb =
      Some (sends @ sends', Some (tablet_bundle (tb_ctx tb3)), e2, tb3\<lparr>tb_ctx := (tb_ctx tb3)\<lparr>tablet_bundle := []\<rparr>\<rparr>)"
    by (simp add: tablet_learn_with_def)
  with tablet_step.learn_replies [OF learn_steps_then [OF 1(2) 2(2)] 3] show ?thesis by blast
qed

lemma reachable_step: "tablet_reachable s \<Longrightarrow> tablet_step s s' \<Longrightarrow> tablet_reachable s'"
  unfolding tablet_reachable_def by (meson rtranclp.rtrancl_into_rtrancl)

lemma reachable_local:
  assumes "local_step\<^sup>*\<^sup>* tb tb'" and "tablet_reachable (tb, plms)"
  shows "tablet_reachable (tb', plms)"
  using assms by (induction rule: rtranclp_induct) (auto intro: reachable_step tablet_step.local)

section \<open>An execution state that reads twice\<close>

text \<open>
  A query that asks for a second read, of the keys above 5 at timestamp 4, when its first one is granted locally; the state is
  the number of reads it still wants.
\<close>

fun ex_reply :: "nat reply" where
  "ex_reply (Local_Read_Protected orig qid) (Suc n) tb =
     (if region_typed (key_cols (t_schema (tb_ctx tb))) (rr_row_region ex_high) \<and>
         get_req (inserting_read_protected (tb_ctx tb)) (mk_t 4) (CHR ''2'' # qid) = None
      then Some (n, tb\<lparr>tb_ctx := request_table_read (CHR ''2'' # qid) orig (mk_t 4) ex_high (tb_ctx tb)\<rparr>)
      else Some (n, tb))"
| "ex_reply i e tb = Some (e, tb)"

lemma length_bm_insert: "length (bm_insert k v m) \<le> Suc (length m)"
  by (induction m) auto

lemma sum_insert_new: "bm_get m k = None \<Longrightarrow> (\<Sum>(k, v) \<leftarrow> bm_insert k v' m. f k v) = (\<Sum>(k, v) \<leftarrow> m. f k v) + (f k v' :: nat)"
  by (induction m) (auto split: if_splits)

lemma load_table_read:
  assumes "tablet_wf c"
  shows "load (request_table_read qid orig t region c) \<le> Suc (load c)"
proof -
  let ?m = "waiting_read_protected c" and ?sum = "\<lambda>m. \<Sum>(t, reqs) \<leftarrow> m. length reqs"
  have "?sum (requests_insert t qid (region, orig) ?m) \<le> Suc (?sum ?m)"
  proof (cases "bm_get ?m t")
    case None
    from sum_insert_new [OF None, where f = "\<lambda>t. length"] None show ?thesis by (simp add: requests_insert_def)
  next
    case (Some reqs)
    have "bm_wf ?m" using assms by (simp add: tablet_wf_def)
    from sum_insert [OF Some this, where f = "\<lambda>t. length" and v' = "bm_insert qid (region, orig) reqs"] length_bm_insert [of qid "(region, orig)" reqs] Some
    show ?thesis by (simp add: requests_insert_def)
  qed
  then show ?thesis by (simp add: request_table_read_def load_def)
qed

lemma ex_reply_ok: "replies_ok ex_reply (\<lambda>n. n)"
  unfolding replies_ok_def
proof (intro allI impI)
  fix i and e :: nat and tb and plms
  assume "tablet_ok (tb, plms)"
  then have wf: "tablet_wf (tb_ctx tb)" by (simp add: tablet_ok_def ctx_ok_def fq_inv_def loop_ok_def)
  show "\<exists>e' tb'. ex_reply i e tb = Some (e', tb') \<and> local_step\<^sup>*\<^sup>* tb tb' \<and> load (tb_ctx tb') + e' \<le> load (tb_ctx tb) + e"
  proof (cases "(i, e, tb)" rule: ex_reply.cases)
    case (1 orig qid n tb')
    with wf local_step.table_read [of tb' ex_high "mk_t 4" "CHR ''2'' # qid" orig]
      load_table_read [of "tb_ctx tb'" "CHR ''2'' # qid" orig "mk_t 4" ex_high] show ?thesis by auto
  qed auto
qed

section \<open>Properties\<close>

text \<open>
  C17: The main loop of a reachable tablet, with the execution states that it informs in every iteration, ends and does not panic,
  for all reactions of the execution states that return themselves, act on the tablet by its local steps only and do
  not ask for ever (\<open>replies_ok\<close>). Then the granted reads are isolated from the undecided writes (part of \<open>loop_ok\<close>), and the
  loop has granted all it can: each column lock that still waits is held up by a schema change, each read that still
  waits is in conflict with an undecided write that is not later, though not with an unprepared one at its own
  timestamp, and each read of a transaction that still waits is in conflict with an earlier undecided write.
\<close>

theorem main_loop_settles:
  assumes "tablet_reachable (tb, plms)" and "replies_ok reply work"
  shows "\<exists>e' tb'. main_loop_with reply e tb = Some (e', tb') \<and> tablet_reachable (tb', plms) \<and>
    loop_ok (ms_query_ess tb', tb_ctx tb') \<and> loop_settled (tb_ddl_es tb') (tb_ctx tb')"
proof -
  from main_loop_with_ok [OF assms(2) tablet_reachable_ok [OF assms(1)], of e] obtain e' tb' where
    r: "main_loop_with reply e tb = Some (e', tb')" "local_step\<^sup>*\<^sup>* tb tb'" "loop_settled (tb_ddl_es tb') (tb_ctx tb')" by blast
  have reach: "tablet_reachable (tb', plms)" by (rule reachable_local [OF r(2) assms(1)])
  then have "loop_ok (ms_query_ess tb', tb_ctx tb')" using tablet_reachable_ok [OF reach] by (simp add: tablet_ok_def ctx_ok_def fq_inv_def)
  with r reach show ?thesis by blast
qed

theorem main_loop_settles_witness:
  "tablet_reachable (ex_state (take 3 ex_protect)) \<and>
   (\<exists>e' tb'. main_loop_with ex_reply 1 (fst (ex_state (take 3 ex_protect))) = Some (e', tb') \<and> loop_settled (tb_ddl_es tb') (tb_ctx tb'))"
proof -
  have "tablet_execs (take 3 ex_protect) (ex_start, []) = Some (ex_state (take 3 ex_protect))" by code_simp
  then have reach: "tablet_reachable (ex_state (take 3 ex_protect))" unfolding tablet_reachable_def using ex_start_ok tablet_execs_run by blast
  then have "tablet_reachable (fst (ex_state (take 3 ex_protect)), snd (ex_state (take 3 ex_protect)))" by simp
  from main_loop_settles [OF this ex_reply_ok, of 1] reach show ?thesis by blast
qed

text \<open>
  C5: The transactions of a tablet never make its log panic: in every reachable state the leader can learn the bundle
  it has handed to the log, of column locks, protected reads and entries of the commit protocol of transactions, together with the reactions
  of the execution states that it informs of each entry and in the main loop (for reactions as in \<open>replies_ok\<close>);
  it hands over its next bundle, and the result is reachable again. And any node of the group can take over as the
  leader from what the log holds. The entries of schema changes and of splits are not part of this log.
\<close>

theorem transaction_log_never_panics:
  assumes "tablet_reachable (tb, plms)" and "replies_ok reply work"
  shows "(\<exists>sends plms' e' tb'. tablet_learn_with reply plms e tb = Some (sends, Some plms', e', tb') \<and> tablet_reachable (tb', plms')) \<and>
    (\<exists>told sends plms' tb'. tablet_leader_changed lid ddl (tablet_snapshot (lid_eid lid) ddl' tb) = Some (told, sends, Some plms', tb') \<and>
       tablet_reachable (tb', plms'))"
proof -
  note ok = tablet_reachable_ok [OF assms(1)]
  from learn_with_ok [OF assms(2) ok, of e] reachable_step [OF assms(1)] have "\<exists>sends plms' e' tb'.
      tablet_learn_with reply plms e tb = Some (sends, Some plms', e', tb') \<and> tablet_reachable (tb', plms')" by blast
  moreover from takeover_ok [OF ok refl, of lid ddl ddl'] obtain told sends plms' tb' where
    t: "tablet_leader_changed lid ddl (tablet_snapshot (lid_eid lid) ddl' tb) = Some (told, sends, Some plms', tb')" by blast
  moreover have "tablet_reachable (tb', plms')" by (rule reachable_step [OF assms(1) tablet_step.takeover [OF refl t]])
  ultimately show ?thesis by blast
qed

theorem transaction_log_never_panics_witness:
  "snd (ex_state ex_handed) \<noteq> [] \<and>
   (\<exists>sends plms' e' tb'. tablet_learn_with ex_reply (snd (ex_state ex_handed)) 1 (fst (ex_state ex_handed)) = Some (sends, Some plms', e', tb') \<and>
      tablet_reachable (tb', plms'))"
proof -
  have "snd (ex_state ex_handed) \<noteq> []" by code_simp
  with transaction_log_never_panics [OF ex_handed_reachable ex_reply_ok, of 1] show ?thesis by blast
qed

end
