(* ===== verification/Stm2PC.thy ===== *)
theory Stm2PC
  imports Network_Driver
begin

text \<open>
  The commit protocol of the schema changes, \<open>src/src/stmpaxos2pc_tm.rs\<close> and
  \<open>src/src/stmpaxos2pc_rm.rs\<close>. Unlike the protocol of the write transactions, the transaction
  manager (TM) persists \<open>Prepared\<close>, \<open>Committed\<close>, \<open>Aborted\<close> and \<open>Closed\<close> in its log. As there, the
  pl types are type variables, the callbacks of the application are records of functions, a
  handler returns its effects in order, the new context, the new state machine and the action for
  its owner, and \<open>None\<close> is a panic. What a callback sends itself is part of its context. The
  payloads of \<open>Abort\<close>, \<open>Aborted\<close>, \<open>Closed\<close> and of the two log entries for an abort have no fields
  in any application and are left out.
\<close>

section \<open>Messages and log entries\<close>

datatype ('p, 'k, 'z) stm_tm_plm =
    STM_PreparedPLm query_id 'p
  | STM_CommittedPLm query_id 'k
  | STM_AbortedPLm query_id
  | STM_ClosedPLm query_id 'z

datatype ('t, 'u, 'w) stm_rm_plm =
    SRM_PreparedPLm query_id 't 'u
  | SRM_CommittedPLm query_id 'w
  | SRM_AbortedPLm query_id

datatype ('m, 'n, 't) stm_rm_message =
    STM_Prepare query_id 't 'm
  | STM_Abort query_id 't
  | STM_Commit query_id 't 'n

record ('q, 'r) stm_prepared =
  sp_query_id :: query_id
  sp_rm :: 'r
  sp_payload :: 'q

datatype ('q, 'r) stm_tm_message =
    STM_Prepared "('q, 'r) stm_prepared"
  | STM_Aborted query_id
  | STM_Closed query_id 'r

section \<open>Transaction managers\<close>

text \<open>The traits \<open>STMPaxos2PCTMInner\<close> and \<open>TMServerContext\<close>, less the effects.\<close>

record ('c, 'i, 'p, 'k, 'z, 'm, 'n, 'q, 'r, 't) stm_tm_inner =
  stm_new_follower :: "'p \<Rightarrow> 'c \<Rightarrow> ('i \<times> 'c) option"
  stm_mk_prepared_plm :: "'i \<Rightarrow> 'c \<Rightarrow> ('p \<times> 'i \<times> 'c) option"
  stm_prepared_plm_inserted :: "'i \<Rightarrow> 'c \<Rightarrow> (('r, 'm) btree \<times> 'i \<times> 'c) option"
  stm_mk_committed_plm :: "('r, 'q) btree \<Rightarrow> 'i \<Rightarrow> 'c \<Rightarrow> ('k \<times> 'i \<times> 'c) option"
  stm_committed_plm_inserted :: "query_id \<Rightarrow> 'k \<Rightarrow> 'i \<Rightarrow> 'c \<Rightarrow> (('r, 'n) btree \<times> 'i \<times> 'c) option"
  stm_mk_aborted_plm :: "'i \<Rightarrow> 'c \<Rightarrow> ('i \<times> 'c) option"
  stm_aborted_plm_inserted :: "'i \<Rightarrow> 'c \<Rightarrow> (('r, unit) btree \<times> 'i \<times> 'c) option"
  stm_mk_closed_plm :: "'i \<Rightarrow> 'c \<Rightarrow> ('z \<times> 'i \<times> 'c) option"
  stm_closed_plm_inserted :: "query_id \<Rightarrow> 'z \<Rightarrow> 'i \<Rightarrow> 'c \<Rightarrow> ('i \<times> 'c) option"
  stm_inner_leader_changed :: "'i \<Rightarrow> 'c \<Rightarrow> ('i \<times> 'c) option"
  stm_inner_snapshot :: "'i \<Rightarrow> 'i"
  stm_tm_path :: "'c \<Rightarrow> 't"
  stm_tm_is_leader :: "'c \<Rightarrow> bool option"
  stm_rm_to_gid :: "'r \<Rightarrow> paxos_group_id"

datatype ('m, 'n, 'r) stm_follower =
    FS_Preparing "('r, 'm) btree"
  | FS_Committed "('r, 'n) btree"
  | FS_Aborted "('r, unit) btree"

datatype ('q, 'r) stm_tm_state =
    TS_Following
  | TS_Start
  | TS_WaitingInsertTMPrepared
  | TS_InsertTMPreparing
  | TS_Preparing "'r bset" "('r, 'q) btree"
  | TS_InsertingTMCommitted
  | TS_Committed "'r bset"
  | TS_InsertingTMAborted
  | TS_Aborted "'r bset"
  | TS_InsertingTMClosed

record ('i, 'm, 'n, 'q, 'r) stm_tm_outer =
  st_query_id :: query_id
  st_follower :: "('m, 'n, 'r) stm_follower option"
  st_state :: "('q, 'r) stm_tm_state"
  st_inner :: 'i

datatype ('p, 'k, 'z, 'm, 'n, 'r, 't) stm_tm_effect =
    TM_Push "('p, 'k, 'z) stm_tm_plm"
  | To_RM 'r "('m, 'n, 't) stm_rm_message"

datatype stm_tm_action = STM_Wait | STM_Exit

type_synonym ('c, 'i, 'p, 'k, 'z, 'm, 'n, 'q, 'r, 't) stm_tm_res =
  "(('p, 'k, 'z, 'm, 'n, 'r, 't) stm_tm_effect list \<times> 'c \<times> ('i, 'm, 'n, 'q, 'r) stm_tm_outer \<times> stm_tm_action) option"
type_synonym ('i, 'm, 'n, 'q, 'r) stm_tm_con = "(query_id, ('i, 'm, 'n, 'q, 'r) stm_tm_outer) btree"
type_synonym ('c, 'i, 'p, 'k, 'z, 'm, 'n, 'q, 'r, 't) stm_tm_con_res =
  "(('p, 'k, 'z, 'm, 'n, 'r, 't) stm_tm_effect list \<times> 'c \<times> ('i, 'm, 'n, 'q, 'r) stm_tm_con) option"

abbreviation stm_tm_idle where
  "stm_tm_idle c es \<equiv> Some ([], c, es, STM_Wait)"

definition stm_tm_new :: "query_id \<Rightarrow> 'i \<Rightarrow> ('i, 'm, 'n, 'q, 'r) stm_tm_outer" where
  "stm_tm_new qid inner = \<lparr>st_query_id = qid, st_follower = None, st_state = TS_Start, st_inner = inner\<rparr>"

definition stm_init_follower ::
  "('c, 'i, 'p, 'k, 'z, 'm, 'n, 'q, 'r, 't) stm_tm_inner \<Rightarrow> 'c \<Rightarrow> ('i, 'm, 'n, 'q, 'r) stm_tm_outer
    \<Rightarrow> ('c \<times> ('i, 'm, 'n, 'q, 'r) stm_tm_outer) option" where
  "stm_init_follower ops c es =
     do { (payloads, i, c') \<leftarrow> stm_prepared_plm_inserted ops (st_inner es) c;
          Some (c', es\<lparr>st_inner := i, st_follower := Some (FS_Preparing payloads), st_state := TS_Following\<rparr>) }"

text \<open>Messages.\<close>

definition stm_handle_prepared ::
  "('c, 'i, 'p, 'k, 'z, 'm, 'n, 'q, 'r::linorder, 't) stm_tm_inner \<Rightarrow> ('q, 'r) stm_prepared \<Rightarrow> 'c
    \<Rightarrow> ('i, 'm, 'n, 'q, 'r) stm_tm_outer \<Rightarrow> ('c, 'i, 'p, 'k, 'z, 'm, 'n, 'q, 'r, 't) stm_tm_res" where
  "stm_handle_prepared ops prepared c es =
     (case st_state es of
        TS_Preparing remaining responses \<Rightarrow>
          if sp_rm prepared \<in> set remaining
          then
            (let remaining' = bs_remove (sp_rm prepared) remaining;
                 responses' = bm_insert (sp_rm prepared) (sp_payload prepared) responses
             in if remaining' = []
                then do { (pl, i, c') \<leftarrow> stm_mk_committed_plm ops responses' (st_inner es) c;
                          Some ([TM_Push (STM_CommittedPLm (st_query_id es) pl)], c',
                                es\<lparr>st_inner := i, st_state := TS_InsertingTMCommitted\<rparr>, STM_Wait) }
                else stm_tm_idle c (es\<lparr>st_state := TS_Preparing remaining' responses'\<rparr>))
          else stm_tm_idle c es
      | _ \<Rightarrow> stm_tm_idle c es)"

definition stm_handle_aborted ::
  "('c, 'i, 'p, 'k, 'z, 'm, 'n, 'q, 'r, 't) stm_tm_inner \<Rightarrow> 'c
    \<Rightarrow> ('i, 'm, 'n, 'q, 'r) stm_tm_outer \<Rightarrow> ('c, 'i, 'p, 'k, 'z, 'm, 'n, 'q, 'r, 't) stm_tm_res" where
  "stm_handle_aborted ops c es =
     (case st_state es of
        TS_Preparing _ _ \<Rightarrow>
          do { (i, c') \<leftarrow> stm_mk_aborted_plm ops (st_inner es) c;
               Some ([TM_Push (STM_AbortedPLm (st_query_id es))], c',
                     es\<lparr>st_inner := i, st_state := TS_InsertingTMAborted\<rparr>, STM_Wait) }
      | _ \<Rightarrow> stm_tm_idle c es)"

definition stm_handle_closed ::
  "('c, 'i, 'p, 'k, 'z, 'm, 'n, 'q, 'r, 't) stm_tm_inner \<Rightarrow> 'r \<Rightarrow> 'c
    \<Rightarrow> ('i, 'm, 'n, 'q, 'r) stm_tm_outer \<Rightarrow> ('c, 'i, 'p, 'k, 'z, 'm, 'n, 'q, 'r, 't) stm_tm_res" where
  "stm_handle_closed ops rm c es =
     (let close = (\<lambda>remaining with_remaining.
            if rm \<in> set remaining
            then
              (let remaining' = bs_remove rm remaining
               in if remaining' = []
                  then do { (pl, i, c') \<leftarrow> stm_mk_closed_plm ops (st_inner es) c;
                            Some ([TM_Push (STM_ClosedPLm (st_query_id es) pl)], c',
                                  es\<lparr>st_inner := i, st_state := TS_InsertingTMClosed\<rparr>, STM_Wait) }
                  else stm_tm_idle c (es\<lparr>st_state := with_remaining remaining'\<rparr>))
            else stm_tm_idle c es)
      in case st_state es of
           TS_Committed remaining \<Rightarrow> close remaining TS_Committed
         | TS_Aborted remaining \<Rightarrow> close remaining TS_Aborted
         | _ \<Rightarrow> stm_tm_idle c es)"

text \<open>Log entries. The broadcasts go to the keys of the payloads, in their order.\<close>

definition stm_advance_to_prepared ::
  "('c, 'i, 'p, 'k, 'z, 'm, 'n, 'q, 'r, 't) stm_tm_inner \<Rightarrow> ('r, 'm) btree \<Rightarrow> 'c \<Rightarrow> ('i, 'm, 'n, 'q, 'r) stm_tm_outer
    \<Rightarrow> ('p, 'k, 'z, 'm, 'n, 'r, 't) stm_tm_effect list \<times> ('i, 'm, 'n, 'q, 'r) stm_tm_outer" where
  "stm_advance_to_prepared ops payloads c es =
     (map (\<lambda>(rm, pl). To_RM rm (STM_Prepare (st_query_id es) (stm_tm_path ops c) pl)) payloads,
      es\<lparr>st_follower := Some (FS_Preparing payloads), st_state := TS_Preparing (bm_keys payloads) []\<rparr>)"

definition stm_advance_to_committed ::
  "('c, 'i, 'p, 'k, 'z, 'm, 'n, 'q, 'r, 't) stm_tm_inner \<Rightarrow> ('r, 'n) btree \<Rightarrow> 'c \<Rightarrow> ('i, 'm, 'n, 'q, 'r) stm_tm_outer
    \<Rightarrow> ('p, 'k, 'z, 'm, 'n, 'r, 't) stm_tm_effect list \<times> ('i, 'm, 'n, 'q, 'r) stm_tm_outer" where
  "stm_advance_to_committed ops payloads c es =
     (map (\<lambda>(rm, pl). To_RM rm (STM_Commit (st_query_id es) (stm_tm_path ops c) pl)) payloads,
      es\<lparr>st_follower := Some (FS_Committed payloads), st_state := TS_Committed (bm_keys payloads)\<rparr>)"

definition stm_advance_to_aborted ::
  "('c, 'i, 'p, 'k, 'z, 'm, 'n, 'q, 'r, 't) stm_tm_inner \<Rightarrow> ('r, unit) btree \<Rightarrow> 'c \<Rightarrow> ('i, 'm, 'n, 'q, 'r) stm_tm_outer
    \<Rightarrow> ('p, 'k, 'z, 'm, 'n, 'r, 't) stm_tm_effect list \<times> ('i, 'm, 'n, 'q, 'r) stm_tm_outer" where
  "stm_advance_to_aborted ops payloads c es =
     (map (\<lambda>(rm, _). To_RM rm (STM_Abort (st_query_id es) (stm_tm_path ops c))) payloads,
      es\<lparr>st_follower := Some (FS_Aborted payloads), st_state := TS_Aborted (bm_keys payloads)\<rparr>)"

definition stm_handle_prepared_plm ::
  "('c, 'i, 'p, 'k, 'z, 'm, 'n, 'q, 'r, 't) stm_tm_inner \<Rightarrow> 'c
    \<Rightarrow> ('i, 'm, 'n, 'q, 'r) stm_tm_outer \<Rightarrow> ('c, 'i, 'p, 'k, 'z, 'm, 'n, 'q, 'r, 't) stm_tm_res" where
  "stm_handle_prepared_plm ops c es =
     (case st_state es of
        TS_InsertTMPreparing \<Rightarrow>
          do { (payloads, i, c') \<leftarrow> stm_prepared_plm_inserted ops (st_inner es) c;
               let (effs, es') = stm_advance_to_prepared ops payloads c' (es\<lparr>st_inner := i\<rparr>);
               Some (effs, c', es', STM_Wait) }
      | _ \<Rightarrow> stm_tm_idle c es)"

definition stm_handle_committed_plm ::
  "('c, 'i, 'p, 'k, 'z, 'm, 'n, 'q, 'r, 't) stm_tm_inner \<Rightarrow> query_id \<Rightarrow> 'k \<Rightarrow> 'c
    \<Rightarrow> ('i, 'm, 'n, 'q, 'r) stm_tm_outer \<Rightarrow> ('c, 'i, 'p, 'k, 'z, 'm, 'n, 'q, 'r, 't) stm_tm_res" where
  "stm_handle_committed_plm ops qid plm c es =
     (case st_state es of
        TS_Following \<Rightarrow>
          do { (payloads, i, c') \<leftarrow> stm_committed_plm_inserted ops qid plm (st_inner es) c;
               stm_tm_idle c' (es\<lparr>st_inner := i, st_follower := Some (FS_Committed payloads)\<rparr>) }
      | TS_InsertingTMCommitted \<Rightarrow>
          do { (payloads, i, c') \<leftarrow> stm_committed_plm_inserted ops qid plm (st_inner es) c;
               let (effs, es') = stm_advance_to_committed ops payloads c' (es\<lparr>st_inner := i\<rparr>);
               Some (effs, c', es', STM_Wait) }
      | _ \<Rightarrow> stm_tm_idle c es)"

definition stm_handle_aborted_plm ::
  "('c, 'i, 'p, 'k, 'z, 'm, 'n, 'q, 'r, 't) stm_tm_inner \<Rightarrow> 'c
    \<Rightarrow> ('i, 'm, 'n, 'q, 'r) stm_tm_outer \<Rightarrow> ('c, 'i, 'p, 'k, 'z, 'm, 'n, 'q, 'r, 't) stm_tm_res" where
  "stm_handle_aborted_plm ops c es =
     (case st_state es of
        TS_Following \<Rightarrow>
          do { (payloads, i, c') \<leftarrow> stm_aborted_plm_inserted ops (st_inner es) c;
               stm_tm_idle c' (es\<lparr>st_inner := i, st_follower := Some (FS_Aborted payloads)\<rparr>) }
      | TS_InsertingTMAborted \<Rightarrow>
          do { (payloads, i, c') \<leftarrow> stm_aborted_plm_inserted ops (st_inner es) c;
               let (effs, es') = stm_advance_to_aborted ops payloads c' (es\<lparr>st_inner := i\<rparr>);
               Some (effs, c', es', STM_Wait) }
      | _ \<Rightarrow> stm_tm_idle c es)"

definition stm_handle_closed_plm ::
  "('c, 'i, 'p, 'k, 'z, 'm, 'n, 'q, 'r, 't) stm_tm_inner \<Rightarrow> query_id \<Rightarrow> 'z \<Rightarrow> 'c
    \<Rightarrow> ('i, 'm, 'n, 'q, 'r) stm_tm_outer \<Rightarrow> ('c, 'i, 'p, 'k, 'z, 'm, 'n, 'q, 'r, 't) stm_tm_res" where
  "stm_handle_closed_plm ops qid plm c es =
     (if st_state es = TS_Following \<or> st_state es = TS_InsertingTMClosed
      then do { (i, c') \<leftarrow> stm_closed_plm_inserted ops qid plm (st_inner es) c;
                Some ([], c', es\<lparr>st_inner := i\<rparr>, STM_Exit) }
      else stm_tm_idle c es)"

text \<open>Insertion, changes of leadership, snapshots.\<close>

definition stm_start_inserting ::
  "('c, 'i, 'p, 'k, 'z, 'm, 'n, 'q, 'r, 't) stm_tm_inner \<Rightarrow> 'c
    \<Rightarrow> ('i, 'm, 'n, 'q, 'r) stm_tm_outer \<Rightarrow> ('c, 'i, 'p, 'k, 'z, 'm, 'n, 'q, 'r, 't) stm_tm_res" where
  "stm_start_inserting ops c es =
     (case st_state es of
        TS_WaitingInsertTMPrepared \<Rightarrow>
          do { (pl, i, c') \<leftarrow> stm_mk_prepared_plm ops (st_inner es) c;
               Some ([TM_Push (STM_PreparedPLm (st_query_id es) pl)], c',
                     es\<lparr>st_inner := i, st_state := TS_InsertTMPreparing\<rparr>, STM_Wait) }
      | _ \<Rightarrow> stm_tm_idle c es)"

definition stm_leader_changed ::
  "('c, 'i, 'p, 'k, 'z, 'm, 'n, 'q, 'r, 't) stm_tm_inner \<Rightarrow> 'c
    \<Rightarrow> ('i, 'm, 'n, 'q, 'r) stm_tm_outer \<Rightarrow> ('c, 'i, 'p, 'k, 'z, 'm, 'n, 'q, 'r, 't) stm_tm_res" where
  "stm_leader_changed ops c es =
     (case st_state es of
        TS_Following \<Rightarrow>
          do { leading \<leftarrow> stm_tm_is_leader ops c;
               if leading
               then do { follower \<leftarrow> st_follower es;
                         let (effs, es') =
                           (case follower of
                              FS_Preparing payloads \<Rightarrow> stm_advance_to_prepared ops payloads c es
                            | FS_Committed payloads \<Rightarrow> stm_advance_to_committed ops payloads c es
                            | FS_Aborted payloads \<Rightarrow> stm_advance_to_aborted ops payloads c es);
                         Some (effs, c, es', STM_Wait) }
               else stm_tm_idle c es }
      | TS_Start \<Rightarrow> do { (i, c') \<leftarrow> stm_inner_leader_changed ops (st_inner es) c; Some ([], c', es\<lparr>st_inner := i\<rparr>, STM_Exit) }
      | TS_WaitingInsertTMPrepared \<Rightarrow>
          do { (i, c') \<leftarrow> stm_inner_leader_changed ops (st_inner es) c; Some ([], c', es\<lparr>st_inner := i\<rparr>, STM_Exit) }
      | TS_InsertTMPreparing \<Rightarrow>
          do { (i, c') \<leftarrow> stm_inner_leader_changed ops (st_inner es) c; Some ([], c', es\<lparr>st_inner := i\<rparr>, STM_Exit) }
      | _ \<Rightarrow>
          do { (i, c') \<leftarrow> stm_inner_leader_changed ops (st_inner es) c;
               stm_tm_idle c' (es\<lparr>st_state := TS_Following, st_inner := i\<rparr>) })"

definition stm_reconfig_snapshot ::
  "('c, 'i, 'p, 'k, 'z, 'm, 'n, 'q, 'r, 't) stm_tm_inner \<Rightarrow> ('i, 'm, 'n, 'q, 'r) stm_tm_outer
    \<Rightarrow> ('i, 'm, 'n, 'q, 'r) stm_tm_outer option" where
  "stm_reconfig_snapshot ops es =
     (if st_state es \<in> {TS_Start, TS_WaitingInsertTMPrepared, TS_InsertTMPreparing} then None
      else Some (es\<lparr>st_state := TS_Following, st_inner := stm_inner_snapshot ops (st_inner es)\<rparr>))"

text \<open>Messages are sent again to the RMs of a group that have not responded, when its leadership changes.\<close>

fun stm_resend :: "(paxos_group_id \<Rightarrow> bool) \<Rightarrow> ('r \<Rightarrow> paxos_group_id) \<Rightarrow> ('r, 'x) btree \<Rightarrow> ('r \<Rightarrow> 'x \<Rightarrow> 'e) \<Rightarrow> 'r list \<Rightarrow> 'e list option" where
  "stm_resend hit gid_of payloads mk [] = Some []"
| "stm_resend hit gid_of payloads mk (rm # rms) =
     (if hit (gid_of rm)
      then do { pl \<leftarrow> bm_get payloads rm;
                effs \<leftarrow> stm_resend hit gid_of payloads mk rms;
                Some (mk rm pl # effs) }
      else stm_resend hit gid_of payloads mk rms)"

definition stm_remote_leader_changed ::
  "('c, 'i, 'p, 'k, 'z, 'm, 'n, 'q, 'r, 't) stm_tm_inner \<Rightarrow> remote_leader_changed_plm \<Rightarrow> 'c
    \<Rightarrow> ('i, 'm, 'n, 'q, 'r) stm_tm_outer \<Rightarrow> ('c, 'i, 'p, 'k, 'z, 'm, 'n, 'q, 'r, 't) stm_tm_res" where
  "stm_remote_leader_changed ops change c es =
     (let hit = (\<lambda>gid. gid = rlc_gid change); qid = st_query_id es; tm = stm_tm_path ops c in
      case st_state es of
        TS_Preparing remaining _ \<Rightarrow>
          (case st_follower es of
             Some (FS_Preparing payloads) \<Rightarrow>
               do { effs \<leftarrow> stm_resend hit (stm_rm_to_gid ops) payloads (\<lambda>rm pl. To_RM rm (STM_Prepare qid tm pl)) remaining;
                    Some (effs, c, es, STM_Wait) }
           | _ \<Rightarrow> None)
      | TS_Committed remaining \<Rightarrow>
          (case st_follower es of
             Some (FS_Committed payloads) \<Rightarrow>
               do { effs \<leftarrow> stm_resend hit (stm_rm_to_gid ops) payloads (\<lambda>rm pl. To_RM rm (STM_Commit qid tm pl)) remaining;
                    Some (effs, c, es, STM_Wait) }
           | _ \<Rightarrow> None)
      | TS_Aborted remaining \<Rightarrow>
          (case st_follower es of
             Some (FS_Aborted payloads) \<Rightarrow>
               do { effs \<leftarrow> stm_resend hit (stm_rm_to_gid ops) payloads (\<lambda>rm _. To_RM rm (STM_Abort qid tm)) remaining;
                    Some (effs, c, es, STM_Wait) }
           | _ \<Rightarrow> None)
      | _ \<Rightarrow> stm_tm_idle c es)"

section \<open>The container of the transaction managers\<close>

text \<open>\<open>handle_action\<close>: an action \<open>Exit\<close> removes the state machine.\<close>

definition stm_tm_put ::
  "query_id \<Rightarrow> ('i, 'm, 'n, 'q, 'r) stm_tm_con \<Rightarrow> ('c, 'i, 'p, 'k, 'z, 'm, 'n, 'q, 'r, 't) stm_tm_res
    \<Rightarrow> ('c, 'i, 'p, 'k, 'z, 'm, 'n, 'q, 'r, 't) stm_tm_con_res" where
  "stm_tm_put qid con res =
     do { (effs, c, es, act) \<leftarrow> res;
          Some (effs, c, case act of STM_Wait \<Rightarrow> bm_insert qid es con | STM_Exit \<Rightarrow> bm_remove qid con) }"

definition stm_handle_msg ::
  "('c, 'i, 'p, 'k, 'z, 'm, 'n, 'q, 'r::linorder, 't) stm_tm_inner \<Rightarrow> ('q, 'r) stm_tm_message \<Rightarrow> 'c
    \<Rightarrow> ('i, 'm, 'n, 'q, 'r) stm_tm_con \<Rightarrow> ('c, 'i, 'p, 'k, 'z, 'm, 'n, 'q, 'r, 't) stm_tm_con_res" where
  "stm_handle_msg ops msg c con =
     (case msg of
        STM_Prepared prepared \<Rightarrow>
          do { es \<leftarrow> bm_get con (sp_query_id prepared);
               stm_tm_put (sp_query_id prepared) con (stm_handle_prepared ops prepared c es) }
      | STM_Aborted qid \<Rightarrow> do { es \<leftarrow> bm_get con qid; stm_tm_put qid con (stm_handle_aborted ops c es) }
      | STM_Closed qid rm \<Rightarrow> do { es \<leftarrow> bm_get con qid; stm_tm_put qid con (stm_handle_closed ops rm c es) })"

text \<open>A loop over the state machines; each is told in turn.\<close>

fun stm_tm_loop ::
  "('c \<Rightarrow> ('i, 'm, 'n, 'q, 'r) stm_tm_outer \<Rightarrow> ('c, 'i, 'p, 'k, 'z, 'm, 'n, 'q, 'r, 't) stm_tm_res) \<Rightarrow> query_id list \<Rightarrow> 'c
    \<Rightarrow> ('i, 'm, 'n, 'q, 'r) stm_tm_con \<Rightarrow> ('c, 'i, 'p, 'k, 'z, 'm, 'n, 'q, 'r, 't) stm_tm_con_res" where
  "stm_tm_loop handler [] c con = Some ([], c, con)"
| "stm_tm_loop handler (qid # qids) c con =
     do { es \<leftarrow> bm_get con qid;
          (effs, c', con') \<leftarrow> stm_tm_put qid con (handler c es);
          (effs', c'', con'') \<leftarrow> stm_tm_loop handler qids c' con';
          Some (effs @ effs', c'', con'') }"

definition stm_handle_bundle_processed ::
  "('c, 'i, 'p, 'k, 'z, 'm, 'n, 'q, 'r, 't) stm_tm_inner \<Rightarrow> 'c
    \<Rightarrow> ('i, 'm, 'n, 'q, 'r) stm_tm_con \<Rightarrow> ('c, 'i, 'p, 'k, 'z, 'm, 'n, 'q, 'r, 't) stm_tm_con_res" where
  "stm_handle_bundle_processed ops c con = stm_tm_loop (stm_start_inserting ops) (bm_keys con) c con"

definition stm_handle_plm ::
  "('c, 'i, 'p, 'k, 'z, 'm, 'n, 'q, 'r, 't) stm_tm_inner \<Rightarrow> ('p, 'k, 'z) stm_tm_plm \<Rightarrow> 'c
    \<Rightarrow> ('i, 'm, 'n, 'q, 'r) stm_tm_con \<Rightarrow> ('c, 'i, 'p, 'k, 'z, 'm, 'n, 'q, 'r, 't) stm_tm_con_res" where
  "stm_handle_plm ops plm c con =
     (case plm of
        STM_PreparedPLm qid pl \<Rightarrow>
          do { leading \<leftarrow> stm_tm_is_leader ops c;
               if leading
               then do { es \<leftarrow> bm_get con qid; stm_tm_put qid con (stm_handle_prepared_plm ops c es) }
               else do { (i, c') \<leftarrow> stm_new_follower ops pl c;
                         (c'', es) \<leftarrow> stm_init_follower ops c' (stm_tm_new qid i);
                         Some ([], c'', bm_insert qid es con) } }
      | STM_CommittedPLm qid pl \<Rightarrow>
          do { es \<leftarrow> bm_get con qid; stm_tm_put qid con (stm_handle_committed_plm ops qid pl c es) }
      | STM_AbortedPLm qid \<Rightarrow> do { es \<leftarrow> bm_get con qid; stm_tm_put qid con (stm_handle_aborted_plm ops c es) }
      | STM_ClosedPLm qid pl \<Rightarrow>
          do { es \<leftarrow> bm_get con qid; stm_tm_put qid con (stm_handle_closed_plm ops qid pl c es) })"

definition stm_handle_rlc ::
  "('c, 'i, 'p, 'k, 'z, 'm, 'n, 'q, 'r, 't) stm_tm_inner \<Rightarrow> remote_leader_changed_plm \<Rightarrow> 'c
    \<Rightarrow> ('i, 'm, 'n, 'q, 'r) stm_tm_con \<Rightarrow> ('c, 'i, 'p, 'k, 'z, 'm, 'n, 'q, 'r, 't) stm_tm_con_res" where
  "stm_handle_rlc ops change c con = stm_tm_loop (stm_remote_leader_changed ops change) (bm_keys con) c con"

definition stm_handle_lc ::
  "('c, 'i, 'p, 'k, 'z, 'm, 'n, 'q, 'r, 't) stm_tm_inner \<Rightarrow> 'c
    \<Rightarrow> ('i, 'm, 'n, 'q, 'r) stm_tm_con \<Rightarrow> ('c, 'i, 'p, 'k, 'z, 'm, 'n, 'q, 'r, 't) stm_tm_con_res" where
  "stm_handle_lc ops c con = stm_tm_loop (stm_leader_changed ops) (bm_keys con) c con"

definition stm_handle_reconfig_snapshot ::
  "('c, 'i, 'p, 'k, 'z, 'm, 'n, 'q, 'r, 't) stm_tm_inner \<Rightarrow> ('i, 'm, 'n, 'q, 'r) stm_tm_con \<Rightarrow> ('i, 'm, 'n, 'q, 'r) stm_tm_con" where
  "stm_handle_reconfig_snapshot ops con =
     fold (\<lambda>(qid, es) acc. case stm_reconfig_snapshot ops es of Some es' \<Rightarrow> bm_insert qid es' acc | None \<Rightarrow> acc) con []"

section \<open>Resource managers\<close>

text \<open>
  The traits \<open>STMPaxos2PCRMInner\<close> and \<open>RMServerContext\<close>, less the effects. \<open>mk_closed\<close> makes an empty
  pl. A resource manager that is not ready to prepare returns \<open>None\<close> from \<open>mk_prepared_plm\<close>.
\<close>

record ('c, 'i, 'm, 'n, 'q, 'u, 'w, 'x, 'r) stm_rm_inner =
  srm_inner_new :: "'m \<Rightarrow> 'c \<Rightarrow> ('i \<times> 'c) option"
  srm_new_follower :: "'u \<Rightarrow> 'c \<Rightarrow> ('i \<times> 'c) option"
  srm_mk_prepared_plm :: "'i \<Rightarrow> 'c \<Rightarrow> ('u option \<times> 'i \<times> 'c) option"
  srm_prepared_plm_inserted :: "'i \<Rightarrow> 'c \<Rightarrow> ('q \<times> 'i \<times> 'c) option"
  srm_mk_committed_plm :: "'n \<Rightarrow> 'i \<Rightarrow> 'c \<Rightarrow> ('w \<times> 'i \<times> 'c) option"
  srm_committed_plm_inserted :: "query_id \<Rightarrow> 'w \<Rightarrow> 'i \<Rightarrow> 'c \<Rightarrow> ('x \<times> 'i \<times> 'c) option"
  srm_mk_aborted_plm :: "'i \<Rightarrow> 'c \<Rightarrow> ('i \<times> 'c) option"
  srm_aborted_plm_inserted :: "'i \<Rightarrow> 'c \<Rightarrow> ('i \<times> 'c) option"
  srm_inner_snapshot :: "'i \<Rightarrow> 'i"
  srm_node_path :: "'c \<Rightarrow> 'r"
  srm_is_leader :: "'c \<Rightarrow> bool option"

datatype ('q, 'r) stm_rm_state =
    RS_Follower
  | RS_Working
  | RS_InsertingPrepared
  | RS_Prepared "('q, 'r) stm_prepared"
  | RS_InsertingCommitted
  | RS_InsertingPreparedAborted
  | RS_InsertingAborted

record ('i, 'q, 'r, 't) stm_rm_outer =
  sr_query_id :: query_id
  sr_tm :: 't
  sr_follower :: "('q, 'r) stm_prepared option"
  sr_state :: "('q, 'r) stm_rm_state"
  sr_inner :: 'i

datatype ('u, 'w, 'q, 'r, 't) stm_rm_effect =
    RM_Push "('t, 'u, 'w) stm_rm_plm"
  | Reply_TM 't "('q, 'r) stm_tm_message"

datatype 'x stm_rm_action = SRM_Wait | SRM_Exit "'x option"

type_synonym ('c, 'i, 'q, 'u, 'w, 'x, 'r, 't) stm_rm_res =
  "(('u, 'w, 'q, 'r, 't) stm_rm_effect list \<times> 'c \<times> ('i, 'q, 'r, 't) stm_rm_outer \<times> 'x stm_rm_action) option"

abbreviation stm_rm_idle where
  "stm_rm_idle c es \<equiv> Some ([], c, es, SRM_Wait)"

definition srm_new :: "query_id \<Rightarrow> 't \<Rightarrow> 'i \<Rightarrow> ('i, 'q, 'r, 't) stm_rm_outer" where
  "srm_new qid tm inner = \<lparr>sr_query_id = qid, sr_tm = tm, sr_follower = None, sr_state = RS_Working, sr_inner = inner\<rparr>"

definition srm_closed ::
  "('c, 'i, 'm, 'n, 'q, 'u, 'w, 'x, 'r) stm_rm_inner \<Rightarrow> 'c \<Rightarrow> query_id \<Rightarrow> 't \<Rightarrow> ('u, 'w, 'q, 'r, 't) stm_rm_effect" where
  "srm_closed ops c qid tm = Reply_TM tm (STM_Closed qid (srm_node_path ops c))"

text \<open>\<open>_handle_prepared_plm\<close>: the response to the TM, which is also held for a later leader.\<close>

definition srm_hold_prepared ::
  "('c, 'i, 'm, 'n, 'q, 'u, 'w, 'x, 'r) stm_rm_inner \<Rightarrow> 'c \<Rightarrow> ('i, 'q, 'r, 't) stm_rm_outer
    \<Rightarrow> (('q, 'r) stm_prepared \<times> 'c \<times> ('i, 'q, 'r, 't) stm_rm_outer) option" where
  "srm_hold_prepared ops c es =
     do { (pl, i, c') \<leftarrow> srm_prepared_plm_inserted ops (sr_inner es) c;
          let prepared = \<lparr>sp_query_id = sr_query_id es, sp_rm = srm_node_path ops c, sp_payload = pl\<rparr>;
          Some (prepared, c', es\<lparr>sr_inner := i, sr_follower := Some prepared\<rparr>) }"

definition srm_init_follower ::
  "('c, 'i, 'm, 'n, 'q, 'u, 'w, 'x, 'r) stm_rm_inner \<Rightarrow> 'c \<Rightarrow> ('i, 'q, 'r, 't) stm_rm_outer
    \<Rightarrow> ('c \<times> ('i, 'q, 'r, 't) stm_rm_outer) option" where
  "srm_init_follower ops c es =
     do { (_, c', es') \<leftarrow> srm_hold_prepared ops c es; Some (c', es'\<lparr>sr_state := RS_Follower\<rparr>) }"

text \<open>Messages.\<close>

definition srm_handle_prepare :: "'c \<Rightarrow> ('i, 'q, 'r, 't) stm_rm_outer \<Rightarrow> ('c, 'i, 'q, 'u, 'w, 'x, 'r, 't) stm_rm_res" where
  "srm_handle_prepare c es =
     (case sr_state es of
        RS_Prepared prepared \<Rightarrow> Some ([Reply_TM (sr_tm es) (STM_Prepared prepared)], c, es, SRM_Wait)
      | _ \<Rightarrow> stm_rm_idle c es)"

definition srm_handle_commit ::
  "('c, 'i, 'm, 'n, 'q, 'u, 'w, 'x, 'r) stm_rm_inner \<Rightarrow> 'n \<Rightarrow> 'c \<Rightarrow> ('i, 'q, 'r, 't) stm_rm_outer
    \<Rightarrow> ('c, 'i, 'q, 'u, 'w, 'x, 'r, 't) stm_rm_res" where
  "srm_handle_commit ops commit c es =
     (case sr_state es of
        RS_Prepared _ \<Rightarrow>
          do { (pl, i, c') \<leftarrow> srm_mk_committed_plm ops commit (sr_inner es) c;
               Some ([RM_Push (SRM_CommittedPLm (sr_query_id es) pl)], c',
                     es\<lparr>sr_inner := i, sr_state := RS_InsertingCommitted\<rparr>, SRM_Wait) }
      | _ \<Rightarrow> None)"

definition srm_abort_prepared ::
  "('c, 'i, 'm, 'n, 'q, 'u, 'w, 'x, 'r) stm_rm_inner \<Rightarrow> 'c \<Rightarrow> ('i, 'q, 'r, 't) stm_rm_outer
    \<Rightarrow> ('c, 'i, 'q, 'u, 'w, 'x, 'r, 't) stm_rm_res" where
  "srm_abort_prepared ops c es =
     do { (i, c') \<leftarrow> srm_mk_aborted_plm ops (sr_inner es) c;
          Some ([RM_Push (SRM_AbortedPLm (sr_query_id es))], c',
                es\<lparr>sr_inner := i, sr_state := RS_InsertingAborted\<rparr>, SRM_Wait) }"

definition srm_handle_abort ::
  "('c, 'i, 'm, 'n, 'q, 'u, 'w, 'x, 'r) stm_rm_inner \<Rightarrow> 'c \<Rightarrow> ('i, 'q, 'r, 't) stm_rm_outer
    \<Rightarrow> ('c, 'i, 'q, 'u, 'w, 'x, 'r, 't) stm_rm_res" where
  "srm_handle_abort ops c es =
     (case sr_state es of
        RS_Working \<Rightarrow> Some ([srm_closed ops c (sr_query_id es) (sr_tm es)], c, es, SRM_Exit None)
      | RS_InsertingPrepared \<Rightarrow> stm_rm_idle c (es\<lparr>sr_state := RS_InsertingPreparedAborted\<rparr>)
      | RS_Prepared _ \<Rightarrow> srm_abort_prepared ops c es
      | _ \<Rightarrow> None)"

text \<open>Log entries.\<close>

definition srm_handle_prepared_plm ::
  "('c, 'i, 'm, 'n, 'q, 'u, 'w, 'x, 'r) stm_rm_inner \<Rightarrow> 'c \<Rightarrow> ('i, 'q, 'r, 't) stm_rm_outer
    \<Rightarrow> ('c, 'i, 'q, 'u, 'w, 'x, 'r, 't) stm_rm_res" where
  "srm_handle_prepared_plm ops c es =
     (case sr_state es of
        RS_InsertingPrepared \<Rightarrow>
          do { (prepared, c', es') \<leftarrow> srm_hold_prepared ops c es;
               Some ([Reply_TM (sr_tm es) (STM_Prepared prepared)], c', es'\<lparr>sr_state := RS_Prepared prepared\<rparr>, SRM_Wait) }
      | RS_InsertingPreparedAborted \<Rightarrow>
          do { (_, c', es') \<leftarrow> srm_hold_prepared ops c es; srm_abort_prepared ops c' es' }
      | _ \<Rightarrow> None)"

definition srm_handle_committed_plm ::
  "('c, 'i, 'm, 'n, 'q, 'u, 'w, 'x, 'r) stm_rm_inner \<Rightarrow> query_id \<Rightarrow> 'w \<Rightarrow> 'c \<Rightarrow> ('i, 'q, 'r, 't) stm_rm_outer
    \<Rightarrow> ('c, 'i, 'q, 'u, 'w, 'x, 'r, 't) stm_rm_res" where
  "srm_handle_committed_plm ops qid pl c es =
     (case sr_state es of
        RS_Follower \<Rightarrow>
          do { (x, i, c') \<leftarrow> srm_committed_plm_inserted ops qid pl (sr_inner es) c;
               Some ([], c', es\<lparr>sr_inner := i\<rparr>, SRM_Exit (Some x)) }
      | RS_InsertingCommitted \<Rightarrow>
          do { (x, i, c') \<leftarrow> srm_committed_plm_inserted ops qid pl (sr_inner es) c;
               Some ([srm_closed ops c' (sr_query_id es) (sr_tm es)], c', es\<lparr>sr_inner := i\<rparr>, SRM_Exit (Some x)) }
      | _ \<Rightarrow> None)"

definition srm_handle_aborted_plm ::
  "('c, 'i, 'm, 'n, 'q, 'u, 'w, 'x, 'r) stm_rm_inner \<Rightarrow> 'c \<Rightarrow> ('i, 'q, 'r, 't) stm_rm_outer
    \<Rightarrow> ('c, 'i, 'q, 'u, 'w, 'x, 'r, 't) stm_rm_res" where
  "srm_handle_aborted_plm ops c es =
     (case sr_state es of
        RS_Follower \<Rightarrow>
          do { (i, c') \<leftarrow> srm_aborted_plm_inserted ops (sr_inner es) c;
               Some ([], c', es\<lparr>sr_inner := i\<rparr>, SRM_Exit None) }
      | RS_InsertingAborted \<Rightarrow>
          do { (i, c') \<leftarrow> srm_aborted_plm_inserted ops (sr_inner es) c;
               Some ([srm_closed ops c' (sr_query_id es) (sr_tm es)], c', es\<lparr>sr_inner := i\<rparr>, SRM_Exit None) }
      | _ \<Rightarrow> None)"

text \<open>Insertion, changes of leadership, snapshots.\<close>

definition srm_start_inserting ::
  "('c, 'i, 'm, 'n, 'q, 'u, 'w, 'x, 'r) stm_rm_inner \<Rightarrow> 'c \<Rightarrow> ('i, 'q, 'r, 't) stm_rm_outer
    \<Rightarrow> ('c, 'i, 'q, 'u, 'w, 'x, 'r, 't) stm_rm_res" where
  "srm_start_inserting ops c es =
     (case sr_state es of
        RS_Working \<Rightarrow>
          do { (m_prepared, i, c') \<leftarrow> srm_mk_prepared_plm ops (sr_inner es) c;
               case m_prepared of
                 Some prepared \<Rightarrow>
                   Some ([RM_Push (SRM_PreparedPLm (sr_query_id es) (sr_tm es) prepared)], c',
                         es\<lparr>sr_inner := i, sr_state := RS_InsertingPrepared\<rparr>, SRM_Wait)
               | None \<Rightarrow> stm_rm_idle c' (es\<lparr>sr_inner := i\<rparr>) }
      | _ \<Rightarrow> stm_rm_idle c es)"

definition srm_leader_changed ::
  "('c, 'i, 'm, 'n, 'q, 'u, 'w, 'x, 'r) stm_rm_inner \<Rightarrow> 'c \<Rightarrow> ('i, 'q, 'r, 't) stm_rm_outer
    \<Rightarrow> ('c, 'i, 'q, 'u, 'w, 'x, 'r, 't) stm_rm_res" where
  "srm_leader_changed ops c es =
     (case sr_state es of
        RS_Follower \<Rightarrow>
          do { leading \<leftarrow> srm_is_leader ops c;
               if leading
               then do { prepared \<leftarrow> sr_follower es; stm_rm_idle c (es\<lparr>sr_state := RS_Prepared prepared\<rparr>) }
               else stm_rm_idle c es }
      | RS_Working \<Rightarrow> Some ([], c, es, SRM_Exit None)
      | RS_InsertingPrepared \<Rightarrow> Some ([], c, es, SRM_Exit None)
      | RS_InsertingPreparedAborted \<Rightarrow> Some ([], c, es, SRM_Exit None)
      | _ \<Rightarrow> stm_rm_idle c (es\<lparr>sr_state := RS_Follower\<rparr>))"

definition srm_reconfig_snapshot ::
  "('c, 'i, 'm, 'n, 'q, 'u, 'w, 'x, 'r) stm_rm_inner \<Rightarrow> ('i, 'q, 'r, 't) stm_rm_outer \<Rightarrow> ('i, 'q, 'r, 't) stm_rm_outer option" where
  "srm_reconfig_snapshot ops es =
     (case sr_state es of
        RS_Working \<Rightarrow> None
      | RS_InsertingPreparedAborted \<Rightarrow> None
      | RS_InsertingPrepared \<Rightarrow> None
      | _ \<Rightarrow> Some (es\<lparr>sr_state := RS_Follower, sr_inner := srm_inner_snapshot ops (sr_inner es)\<rparr>))"

section \<open>The container of the resource managers\<close>

text \<open>
  The trait \<open>Paxos2PCContainer\<close>, implemented by a map in the slave and by the enum \<open>DDLES\<close> in the
  tablet, whose lookup asserts that no other schema change is under way (\<open>None\<close>). What the owner
  does on an action \<open>Exit\<close> is \<open>con_exit\<close>.
\<close>

record ('b, 'o, 'x) stm_container =
  con_get :: "query_id \<Rightarrow> 'b \<Rightarrow> 'o option option"
  con_put :: "query_id \<Rightarrow> 'o \<Rightarrow> 'b \<Rightarrow> 'b"
  con_exit :: "query_id \<Rightarrow> 'x option \<Rightarrow> 'b \<Rightarrow> 'b"

type_synonym ('b, 'c, 'q, 'u, 'w, 'r, 't) stm_rm_con_res =
  "(('u, 'w, 'q, 'r, 't) stm_rm_effect list \<times> 'c \<times> 'b) option"

definition srm_put ::
  "('b, ('i, 'q, 'r, 't) stm_rm_outer, 'x) stm_container \<Rightarrow> query_id \<Rightarrow> 'b \<Rightarrow> ('c, 'i, 'q, 'u, 'w, 'x, 'r, 't) stm_rm_res
    \<Rightarrow> ('b, 'c, 'q, 'u, 'w, 'r, 't) stm_rm_con_res" where
  "srm_put cops qid con res =
     do { (effs, c, es, act) \<leftarrow> res;
          Some (effs, c, case act of SRM_Wait \<Rightarrow> con_put cops qid es con | SRM_Exit x \<Rightarrow> con_exit cops qid x con) }"

definition srm_handle_rm_plm ::
  "('c, 'i, 'm, 'n, 'q, 'u, 'w, 'x, 'r) stm_rm_inner \<Rightarrow> ('b, ('i, 'q, 'r, 't) stm_rm_outer, 'x) stm_container
    \<Rightarrow> ('t, 'u, 'w) stm_rm_plm \<Rightarrow> 'c \<Rightarrow> 'b \<Rightarrow> ('b, 'c, 'q, 'u, 'w, 'r, 't) stm_rm_con_res" where
  "srm_handle_rm_plm ops cops plm c con =
     (case plm of
        SRM_PreparedPLm qid tm pl \<Rightarrow>
          do { leading \<leftarrow> srm_is_leader ops c;
               if leading
               then do { m_es \<leftarrow> con_get cops qid con; es \<leftarrow> m_es; srm_put cops qid con (srm_handle_prepared_plm ops c es) }
               else do { (i, c') \<leftarrow> srm_new_follower ops pl c;
                         (c'', es) \<leftarrow> srm_init_follower ops c' (srm_new qid tm i);
                         Some ([], c'', con_put cops qid es con) } }
      | SRM_CommittedPLm qid pl \<Rightarrow>
          do { m_es \<leftarrow> con_get cops qid con; es \<leftarrow> m_es; srm_put cops qid con (srm_handle_committed_plm ops qid pl c es) }
      | SRM_AbortedPLm qid \<Rightarrow>
          do { m_es \<leftarrow> con_get cops qid con; es \<leftarrow> m_es; srm_put cops qid con (srm_handle_aborted_plm ops c es) })"

definition srm_handle_rm_msg ::
  "('c, 'i, 'm, 'n, 'q, 'u, 'w, 'x, 'r) stm_rm_inner \<Rightarrow> ('b, ('i, 'q, 'r, 't) stm_rm_outer, 'x) stm_container
    \<Rightarrow> ('m, 'n, 't) stm_rm_message \<Rightarrow> 'c \<Rightarrow> 'b \<Rightarrow> ('b, 'c, 'q, 'u, 'w, 'r, 't) stm_rm_con_res" where
  "srm_handle_rm_msg ops cops msg c con =
     (case msg of
        STM_Prepare qid tm pl \<Rightarrow>
          do { m_es \<leftarrow> con_get cops qid con;
               case m_es of
                 Some es \<Rightarrow> srm_put cops qid con (srm_handle_prepare c es)
               | None \<Rightarrow>
                   do { (i, c') \<leftarrow> srm_inner_new ops pl c;
                        Some ([], c', con_put cops qid (srm_new qid tm i) con) } }
      | STM_Abort qid tm \<Rightarrow>
          do { m_es \<leftarrow> con_get cops qid con;
               case m_es of
                 Some es \<Rightarrow> srm_put cops qid con (srm_handle_abort ops c es)
               | None \<Rightarrow> Some ([srm_closed ops c qid tm], c, con) }
      | STM_Commit qid tm pl \<Rightarrow>
          do { m_es \<leftarrow> con_get cops qid con;
               case m_es of
                 Some es \<Rightarrow> srm_put cops qid con (srm_handle_commit ops pl c es)
               | None \<Rightarrow> Some ([srm_closed ops c qid tm], c, con) })"

text \<open>The map of the slave.\<close>

definition map_container :: "((query_id, 'o) btree, 'o, 'x) stm_container" where
  "map_container =
     \<lparr>con_get = (\<lambda>qid con. Some (bm_get con qid)), con_put = bm_insert, con_exit = (\<lambda>qid _. bm_remove qid)\<rparr>"

end
