(* ===== verification/Ddl_Master.thy ===== *)
theory Ddl_Master
  imports Stm2PC Free_Node_Manager Tablet
begin

text \<open>
  The schema changes at the master: the callbacks that \<open>ALTER TABLE\<close>, \<open>DROP TABLE\<close>, \<open>CREATE TABLE\<close>
  and the split of a shard give to the transaction manager of the commit protocol
  (\<open>src/src/alter_table_tm_es.rs\<close>, \<open>drop_table_tm_es.rs\<close>, \<open>create_table_tm_es.rs\<close>,
  \<open>shard_split_tm_es.rs\<close>). A struct with no fields is \<open>unit\<close>, one with a single field is that
  field. What a callback sends is appended to the context; the next reading of the clock and of
  the random number generator are part of the context too. \<open>None\<close> is a panic.
\<close>

section \<open>The context of the master\<close>

datatype ddl_abort = DA_NonUniqueRequestId | DA_ParseError string | DA_InvalidDDLQuery | DA_CancelConfirmed | DA_Unknown
datatype sharding_abort = SA_NonUniqueRequestId | SA_InvalidShardingOp | SA_CancelConfirmed | SA_Unknown

datatype master_output =
    ExternalDDLQuerySuccess endpoint_id request_id timestamp
  | ExternalDDLQueryAborted endpoint_id request_id ddl_abort
  | ExternalShardingSuccess endpoint_id request_id timestamp
  | ExternalShardingAborted endpoint_id request_id sharding_abort
  | MasterGossip slave_group_id leadership_id gossip_data leader_map
  | CommittedQueryId query_id timestamp
  | RequestIdQueryId request_id query_id

record ddl_master =
  dm_ctx :: master_ctx
  dm_gossip :: gossip_data
  external_request_id_map :: "(request_id, query_id) btree"
  dm_clock :: "timestamp \<times> 64 word"
  timestamp_suffix_divisor :: "64 word"
  dm_sent :: "master_output list"

record response_data =
  rd_request_id :: request_id
  rd_sender_eid :: endpoint_id

abbreviation dm_is_leader :: "ddl_master \<Rightarrow> bool option" where
  "dm_is_leader c \<equiv> master_is_leader (dm_ctx c)"

definition dm_send :: "master_output \<Rightarrow> ddl_master \<Rightarrow> ddl_master" where
  "dm_send out c = c\<lparr>dm_sent := dm_sent c @ [out]\<rparr>"

definition dm_cur_timestamp :: "ddl_master \<Rightarrow> timestamp option" where
  "dm_cur_timestamp c = cur_timestamp (fst (dm_clock c)) (snd (dm_clock c)) (timestamp_suffix_divisor c)"

text \<open>\<open>GossipData::update\<close> with a closure that may panic.\<close>

definition gossip_try_update ::
  "(gossip_view \<Rightarrow> ('r \<times> gossip_view) option) \<Rightarrow> ddl_master \<Rightarrow> ('r \<times> ddl_master) option" where
  "gossip_try_update func c =
     do { (r, view) \<leftarrow> func (gossip_get (dm_gossip c));
          Some (r, c\<lparr>dm_gossip := snd (gossip_update (dm_gossip c) (\<lambda>_. (r, view)))\<rparr>) }"

text \<open>\<open>send_to_slave_common\<close> looks the leader up before it checks that this node may send.\<close>

definition send_gossip :: "slave_group_id \<Rightarrow> ddl_master \<Rightarrow> ddl_master option" where
  "send_gossip sid c =
     do { to_lid \<leftarrow> bm_get (vv_value (mc_leader_map (dm_ctx c))) (SlaveGid sid);
          leading \<leftarrow> dm_is_leader c;
          Some (if leading then dm_send (MasterGossip sid to_lid (dm_gossip c) (vv_value (mc_leader_map (dm_ctx c)))) c else c) }"

fun send_gossips :: "slave_group_id list \<Rightarrow> ddl_master \<Rightarrow> ddl_master option" where
  "send_gossips [] c = Some c"
| "send_gossips (sid # sids) c = do { c' \<leftarrow> send_gossip sid c; send_gossips sids c' }"

definition broadcast_gossip :: "ddl_master \<Rightarrow> ddl_master option" where
  "broadcast_gossip c = send_gossips (bm_keys (slave_address_config (gossip_get (dm_gossip c)))) c"

text \<open>The response to the external, by the leader that still has its address.\<close>

definition respond_external ::
  "(endpoint_id \<Rightarrow> request_id \<Rightarrow> master_output) \<Rightarrow> response_data option \<Rightarrow> ddl_master
    \<Rightarrow> (response_data option \<times> ddl_master) option" where
  "respond_external out response c =
     do { leading \<leftarrow> dm_is_leader c;
          Some (case response of
                  Some rd \<Rightarrow>
                    if leading
                    then (None, dm_send (out (rd_sender_eid rd) (rd_request_id rd))
                            (c\<lparr>external_request_id_map := bm_remove (rd_request_id rd) (external_request_id_map c)\<rparr>))
                    else (response, c)
                | None \<Rightarrow> (None, c)) }"

text \<open>The tablets of a table, the resource managers of \<open>ALTER TABLE\<close> and \<open>DROP TABLE\<close>.\<close>

definition get_rms :: "gossip_view \<Rightarrow> table_path \<Rightarrow> tnode_path list option" where
  "get_rms gossip table =
     do { full_gen \<leftarrow> get_last_version (table_generation gossip) table;
          shards \<leftarrow> bm_get (sharding_config gossip) (table, full_gen);
          those (map (\<lambda>(_, tid). map_option (\<lambda>sid. (sid, tid)) (bm_get (tablet_address_config gossip) tid)) shards) }"

text \<open>A map with the same payload for all RMs.\<close>

definition mk_payloads :: "'n \<Rightarrow> 'r::linorder list \<Rightarrow> ('r, 'n) btree" where
  "mk_payloads pl rms = fold (\<lambda>rm. bm_insert rm pl) rms []"

definition get_payloads :: "'n \<Rightarrow> table_path \<Rightarrow> ddl_master \<Rightarrow> (tnode_path, 'n) btree option" where
  "get_payloads pl table c = map_option (mk_payloads pl) (get_rms (gossip_get (dm_gossip c)) table)"

definition max_timestamps :: "timestamp \<Rightarrow> ('r, timestamp) btree \<Rightarrow> timestamp" where
  "max_timestamps t prepared = fold (\<lambda>(_, t') acc. max acc t') prepared t"

section \<open>\<open>ALTER TABLE\<close>\<close>

record alter_op =
  ao_col_name :: col_name
  maybe_col_type :: "col_type option"

record alter_table_tm_inner =
  at_response_data :: "response_data option"
  at_table_path :: table_path
  at_alter_op :: alter_op

record alter_table_tm_prepared =
  atp_table_path :: table_path
  atp_alter_op :: alter_op

definition alter_apply :: "table_path \<Rightarrow> alter_op \<Rightarrow> timestamp \<Rightarrow> gossip_view \<Rightarrow> (timestamp \<times> gossip_view) option" where
  "alter_apply table op timestamp_hint gossip =
     do { (gen, _) \<leftarrow> get_last_version (table_generation gossip) table;
          schema \<leftarrow> bm_get (db_schema gossip) (table, gen);
          t1 \<leftarrow> timestamp_add (get_lat (table_generation gossip) table) (mk_t 1);
          t2 \<leftarrow> timestamp_add (get_lat (val_cols schema) (ao_col_name op)) (mk_t 1);
          let t = max (max timestamp_hint t1) t2;
          cols \<leftarrow> mvm_write (val_cols schema) (ao_col_name op) (maybe_col_type op) t;
          Some (t, gossip\<lparr>table_generation := update_lat (table_generation gossip) table t,
                          db_schema := bm_insert (table, gen) (schema\<lparr>val_cols := cols\<rparr>) (db_schema gossip)\<rparr>) }"

definition alter_committed ::
  "query_id \<Rightarrow> timestamp \<Rightarrow> alter_table_tm_inner \<Rightarrow> ddl_master
    \<Rightarrow> ((tnode_path, timestamp) btree \<times> alter_table_tm_inner \<times> ddl_master) option" where
  "alter_committed qid timestamp_hint i c =
     do { (t, c1) \<leftarrow> gossip_try_update (alter_apply (at_table_path i) (at_alter_op i) timestamp_hint) c;
          (rd, c2) \<leftarrow> respond_external (\<lambda>eid rid. ExternalDDLQuerySuccess eid rid t) (at_response_data i) c1;
          c3 \<leftarrow> broadcast_gossip (dm_send (CommittedQueryId qid t) c2);
          commits \<leftarrow> get_payloads t (at_table_path i) c3;
          Some (commits, i\<lparr>at_response_data := rd\<rparr>, c3) }"

definition alter_tm ::
  "(ddl_master, alter_table_tm_inner, alter_table_tm_prepared, timestamp, unit, alter_op, timestamp, timestamp, tnode_path, unit) stm_tm_inner" where
  "alter_tm =
     \<lparr>stm_new_follower = (\<lambda>pl c. Some (\<lparr>at_response_data = None, at_table_path = atp_table_path pl, at_alter_op = atp_alter_op pl\<rparr>, c)),
      stm_mk_prepared_plm = (\<lambda>i c. Some (\<lparr>atp_table_path = at_table_path i, atp_alter_op = at_alter_op i\<rparr>, i, c)),
      stm_prepared_plm_inserted = (\<lambda>i c. map_option (\<lambda>prepares. (prepares, i, c)) (get_payloads (at_alter_op i) (at_table_path i) c)),
      stm_mk_committed_plm = (\<lambda>prepared i c. map_option (\<lambda>now. (max_timestamps now prepared, i, c)) (dm_cur_timestamp c)),
      stm_committed_plm_inserted = alter_committed,
      stm_mk_aborted_plm = (\<lambda>i c. Some (i, c)),
      stm_aborted_plm_inserted = (\<lambda>i c.
        do { (rd, c') \<leftarrow> respond_external (\<lambda>eid rid. ExternalDDLQueryAborted eid rid DA_Unknown) (at_response_data i) c;
             aborts \<leftarrow> get_payloads () (at_table_path i) c';
             Some (aborts, i\<lparr>at_response_data := rd\<rparr>, c') }),
      stm_mk_closed_plm = (\<lambda>i c. Some ((), i, c)),
      stm_closed_plm_inserted = (\<lambda>_ _ i c. Some (i, c)),
      stm_inner_leader_changed = (\<lambda>i c. Some (i\<lparr>at_response_data := None\<rparr>, c)),
      stm_inner_snapshot = (\<lambda>i. i\<lparr>at_response_data := None\<rparr>),
      stm_tm_path = (\<lambda>_. ()),
      stm_tm_is_leader = dm_is_leader,
      stm_rm_to_gid = (\<lambda>rm. SlaveGid (fst rm))\<rparr>"

section \<open>\<open>DROP TABLE\<close>\<close>

record drop_table_tm_inner =
  dt_response_data :: "response_data option"
  dt_table_path :: table_path

definition drop_apply :: "table_path \<Rightarrow> timestamp \<Rightarrow> gossip_view \<Rightarrow> ((timestamp \<times> tnode_path list) \<times> gossip_view) option" where
  "drop_apply table timestamp_hint gossip =
     do { t1 \<leftarrow> timestamp_add (get_lat (table_generation gossip) table) (mk_t 1);
          let t = max timestamp_hint t1;
          rms \<leftarrow> get_rms gossip table;
          generation \<leftarrow> mvm_write (table_generation gossip) table None t;
          Some ((t, rms), gossip\<lparr>table_generation := generation\<rparr>) }"

definition drop_committed ::
  "query_id \<Rightarrow> timestamp \<Rightarrow> drop_table_tm_inner \<Rightarrow> ddl_master
    \<Rightarrow> ((tnode_path, timestamp) btree \<times> drop_table_tm_inner \<times> ddl_master) option" where
  "drop_committed qid timestamp_hint i c =
     do { ((t, rms), c1) \<leftarrow> gossip_try_update (drop_apply (dt_table_path i) timestamp_hint) c;
          (rd, c2) \<leftarrow> respond_external (\<lambda>eid rid. ExternalDDLQuerySuccess eid rid t) (dt_response_data i) c1;
          c3 \<leftarrow> broadcast_gossip (dm_send (CommittedQueryId qid t) c2);
          Some (mk_payloads t rms, i\<lparr>dt_response_data := rd\<rparr>, c3) }"

definition drop_tm ::
  "(ddl_master, drop_table_tm_inner, table_path, timestamp, unit, unit, timestamp, timestamp, tnode_path, unit) stm_tm_inner" where
  "drop_tm =
     \<lparr>stm_new_follower = (\<lambda>pl c. Some (\<lparr>dt_response_data = None, dt_table_path = pl\<rparr>, c)),
      stm_mk_prepared_plm = (\<lambda>i c. Some (dt_table_path i, i, c)),
      stm_prepared_plm_inserted = (\<lambda>i c. map_option (\<lambda>prepares. (prepares, i, c)) (get_payloads () (dt_table_path i) c)),
      stm_mk_committed_plm = (\<lambda>prepared i c. map_option (\<lambda>now. (max_timestamps now prepared, i, c)) (dm_cur_timestamp c)),
      stm_committed_plm_inserted = drop_committed,
      stm_mk_aborted_plm = (\<lambda>i c. Some (i, c)),
      stm_aborted_plm_inserted = (\<lambda>i c.
        do { (rd, c') \<leftarrow> respond_external (\<lambda>eid rid. ExternalDDLQueryAborted eid rid DA_Unknown) (dt_response_data i) c;
             aborts \<leftarrow> get_payloads () (dt_table_path i) c';
             Some (aborts, i\<lparr>dt_response_data := rd\<rparr>, c') }),
      stm_mk_closed_plm = (\<lambda>i c. Some ((), i, c)),
      stm_closed_plm_inserted = (\<lambda>_ _ i c. Some (i, c)),
      stm_inner_leader_changed = (\<lambda>i c. Some (i\<lparr>dt_response_data := None\<rparr>, c)),
      stm_inner_snapshot = (\<lambda>i. i\<lparr>dt_response_data := None\<rparr>),
      stm_tm_path = (\<lambda>_. ()),
      stm_tm_is_leader = dm_is_leader,
      stm_rm_to_gid = (\<lambda>rm. SlaveGid (fst rm))\<rparr>"

section \<open>\<open>CREATE TABLE\<close>\<close>

type_synonym shard = "tablet_key_range \<times> tablet_group_id \<times> slave_group_id"

record create_table_tm_prepared =
  cp_table_path :: table_path
  cp_key_cols :: "(col_name \<times> col_type) list"
  cp_val_cols :: "(col_name \<times> col_type) list"
  cp_shards :: "shard list"

record create_table_tm_inner =
  ct_response_data :: "response_data option"
  ct_table_path :: table_path
  ct_key_cols :: "(col_name \<times> col_type) list"
  ct_val_cols :: "(col_name \<times> col_type) list"
  ct_shards :: "shard list"
  ct_did_commit :: bool

record create_table_prepare =
  cr_tablet_group_id :: tablet_group_id
  cr_table_path :: table_path
  cr_gen :: gen
  cr_key_range :: tablet_key_range
  cr_key_cols :: "(col_name \<times> col_type) list"
  cr_val_cols :: "(col_name \<times> col_type) list"

definition next_gen :: "full_gen option \<Rightarrow> gen" where
  "next_gen m_cur_full_gen = (case m_cur_full_gen of Some (gen, _) \<Rightarrow> gen_next gen | None \<Rightarrow> 0)"

fun write_val_cols ::
  "(col_name \<times> col_type) list \<Rightarrow> timestamp \<Rightarrow> (col_name, col_type) mvm \<Rightarrow> (col_name, col_type) mvm option" where
  "write_val_cols [] t m = Some m"
| "write_val_cols ((col, ct) # cols) t m = do { m' \<leftarrow> mvm_write m col (Some ct) t; write_val_cols cols t m' }"

definition apply_create :: "create_table_tm_inner \<Rightarrow> timestamp \<Rightarrow> gossip_view \<Rightarrow> (timestamp \<times> gossip_view) option" where
  "apply_create i timestamp_hint gossip =
     do { t1 \<leftarrow> timestamp_add (get_lat (table_generation gossip) (ct_table_path i)) (mk_t 1);
          let t = max timestamp_hint t1;
          let gen = next_gen (get_last_present_version (table_generation gossip) (ct_table_path i));
          generation \<leftarrow> mvm_write (table_generation gossip) (ct_table_path i) (Some (gen, 0)) t;
          if bm_contains (db_schema gossip) (ct_table_path i, gen) then None
          else do {
            cols \<leftarrow> write_val_cols (ct_val_cols i) t mvm_new;
            Some (t, gossip\<lparr>
              table_generation := generation,
              db_schema := bm_insert (ct_table_path i, gen) \<lparr>key_cols = ct_key_cols i, val_cols = cols\<rparr> (db_schema gossip),
              sharding_config := bm_insert (ct_table_path i, (gen, 0)) (map (\<lambda>(range, tid, _). (range, tid)) (ct_shards i)) (sharding_config gossip),
              tablet_address_config := fold (\<lambda>(_, tid, sid). bm_insert tid sid) (ct_shards i) (tablet_address_config gossip)\<rparr>) } }"

definition create_prepares :: "create_table_tm_inner \<Rightarrow> gossip_view \<Rightarrow> (slave_group_id, create_table_prepare) btree" where
  "create_prepares i gossip =
     fold (\<lambda>(range, tid, sid). bm_insert sid
             \<lparr>cr_tablet_group_id = tid, cr_table_path = ct_table_path i,
              cr_gen = next_gen (get_last_present_version (table_generation gossip) (ct_table_path i)),
              cr_key_range = range, cr_key_cols = ct_key_cols i, cr_val_cols = ct_val_cols i\<rparr>) (ct_shards i) []"

definition shard_sids :: "create_table_tm_inner \<Rightarrow> slave_group_id list" where
  "shard_sids i = map (\<lambda>(_, _, sid). sid) (ct_shards i)"

definition create_closed :: "query_id \<Rightarrow> timestamp option \<Rightarrow> create_table_tm_inner \<Rightarrow> ddl_master \<Rightarrow> (create_table_tm_inner \<times> ddl_master) option" where
  "create_closed qid m_timestamp_hint i c =
     (case m_timestamp_hint of
        Some timestamp_hint \<Rightarrow>
          do { (t, c1) \<leftarrow> gossip_try_update (apply_create i timestamp_hint) c;
               (rd, c2) \<leftarrow> respond_external (\<lambda>eid rid. ExternalDDLQuerySuccess eid rid t) (ct_response_data i) c1;
               c3 \<leftarrow> broadcast_gossip (dm_send (CommittedQueryId qid t) c2);
               Some (i\<lparr>ct_response_data := rd\<rparr>, c3) }
      | None \<Rightarrow> Some (i, c))"

definition create_tm ::
  "(ddl_master, create_table_tm_inner, create_table_tm_prepared, unit, timestamp option, create_table_prepare, unit, unit, slave_group_id, unit) stm_tm_inner" where
  "create_tm =
     \<lparr>stm_new_follower = (\<lambda>pl c.
        Some (\<lparr>ct_response_data = None, ct_table_path = cp_table_path pl, ct_key_cols = cp_key_cols pl, ct_val_cols = cp_val_cols pl,
               ct_shards = cp_shards pl, ct_did_commit = False\<rparr>, c)),
      stm_mk_prepared_plm = (\<lambda>i c.
        Some (\<lparr>cp_table_path = ct_table_path i, cp_key_cols = ct_key_cols i, cp_val_cols = ct_val_cols i, cp_shards = ct_shards i\<rparr>, i, c)),
      stm_prepared_plm_inserted = (\<lambda>i c.
        let prepares = create_prepares i (gossip_get (dm_gossip c))
        in if length prepares = length (ct_shards i) then Some (prepares, i, c) else None),
      stm_mk_committed_plm = (\<lambda>_ i c. Some ((), i, c)),
      stm_committed_plm_inserted = (\<lambda>_ _ i c.
        let commits = mk_payloads () (shard_sids i)
        in if length commits = length (ct_shards i) then Some (commits, i\<lparr>ct_did_commit := True\<rparr>, c) else None),
      stm_mk_aborted_plm = (\<lambda>i c. Some (i, c)),
      stm_aborted_plm_inserted = (\<lambda>i c.
        do { (rd, c') \<leftarrow> respond_external (\<lambda>eid rid. ExternalDDLQueryAborted eid rid DA_Unknown) (ct_response_data i) c;
             Some (mk_payloads () (shard_sids i), i\<lparr>ct_did_commit := False, ct_response_data := rd\<rparr>, c') }),
      stm_mk_closed_plm = (\<lambda>i c.
        if ct_did_commit i then map_option (\<lambda>now. (Some now, i, c)) (dm_cur_timestamp c) else Some (None, i, c)),
      stm_closed_plm_inserted = create_closed,
      stm_inner_leader_changed = (\<lambda>i c. Some (i\<lparr>ct_response_data := None\<rparr>, c)),
      stm_inner_snapshot = (\<lambda>i. i\<lparr>ct_response_data := None\<rparr>),
      stm_tm_path = (\<lambda>_. ()),
      stm_tm_is_leader = dm_is_leader,
      stm_rm_to_gid = SlaveGid\<rparr>"

section \<open>The split of a shard\<close>

datatype shard_node_path = SNP_Tablet tnode_path | SNP_Slave slave_group_id

fun snp_rank :: "shard_node_path \<Rightarrow> nat \<times> slave_group_id \<times> tablet_group_id" where
  "snp_rank (SNP_Tablet path) = (0, path)"
| "snp_rank (SNP_Slave sid) = (1, sid, [])"

lemma snp_rank_inj: "snp_rank x = snp_rank y \<longleftrightarrow> x = y"
  by (cases x; cases y) auto

instantiation shard_node_path :: linorder
begin

definition less_eq_shard_node_path :: "shard_node_path \<Rightarrow> shard_node_path \<Rightarrow> bool" where
  "x \<le> y \<longleftrightarrow> snp_rank x \<le> snp_rank y"

definition less_shard_node_path :: "shard_node_path \<Rightarrow> shard_node_path \<Rightarrow> bool" where
  "x < y \<longleftrightarrow> snp_rank x < snp_rank y"

instance
  by standard (auto simp: less_eq_shard_node_path_def less_shard_node_path_def simp flip: snp_rank_inj)

end

record st_range =
  st_sid :: slave_group_id
  st_tid :: tablet_group_id
  st_key_range :: tablet_key_range

record shard_split_tm_prepared =
  ssp_table_path :: table_path
  ssp_target_old :: st_range
  ssp_target_new :: st_range

record shard_split_tm_inner =
  ss_response_data :: "response_data option"
  ss_table_path :: table_path
  ss_target_old :: st_range
  ss_target_new :: st_range
  ss_did_commit :: bool

record shard_split_commit =
  sc_sharding_gen :: sharding_gen
  sc_target_old :: st_range
  sc_target_new :: st_range

definition mk_msgs :: "shard_split_tm_inner \<Rightarrow> 'n \<Rightarrow> ddl_master \<Rightarrow> (shard_node_path, 'n) btree option" where
  "mk_msgs i message c =
     do { let tid = st_tid (ss_target_old i);
          sid \<leftarrow> bm_get (tablet_address_config (gossip_get (dm_gossip c))) tid;
          Some (mk_payloads message [SNP_Tablet (sid, tid), SNP_Slave (st_sid (ss_target_new i))]) }"

definition split_shards ::
  "st_range \<Rightarrow> st_range \<Rightarrow> (tablet_key_range \<times> tablet_group_id) list \<Rightarrow> (tablet_key_range \<times> tablet_group_id) list" where
  "split_shards target_old target_new shards =
     concat (map (\<lambda>shard. if st_tid target_old = snd shard
                          then [(st_key_range target_old, st_tid target_old), (st_key_range target_new, st_tid target_new)]
                          else [shard]) shards)"

definition apply_sharding :: "shard_split_tm_inner \<Rightarrow> timestamp \<Rightarrow> gossip_view \<Rightarrow> (timestamp \<times> gossip_view) option" where
  "apply_sharding i timestamp_hint gossip =
     do { t1 \<leftarrow> timestamp_add (get_lat (table_generation gossip) (ss_table_path i)) (mk_t 1);
          let t = max timestamp_hint t1;
          (gen, sharding_gen) \<leftarrow> get_last_present_version (table_generation gossip) (ss_table_path i);
          let next_full_gen = (gen, gen_next sharding_gen);
          generation \<leftarrow> mvm_write (table_generation gossip) (ss_table_path i) (Some next_full_gen) t;
          shards \<leftarrow> bm_get (sharding_config gossip) (ss_table_path i, (gen, sharding_gen));
          Some (t, gossip\<lparr>
            table_generation := generation,
            sharding_config := bm_insert (ss_table_path i, next_full_gen) (split_shards (ss_target_old i) (ss_target_new i) shards) (sharding_config gossip),
            tablet_address_config := bm_insert (st_tid (ss_target_new i)) (st_sid (ss_target_new i)) (tablet_address_config gossip)\<rparr>) }"

definition split_committed ::
  "query_id \<Rightarrow> unit \<Rightarrow> shard_split_tm_inner \<Rightarrow> ddl_master
    \<Rightarrow> ((shard_node_path, shard_split_commit) btree \<times> shard_split_tm_inner \<times> ddl_master) option" where
  "split_committed _ _ i c =
     do { (_, sharding_gen) \<leftarrow> get_last_version (table_generation (gossip_get (dm_gossip c))) (ss_table_path i);
          commits \<leftarrow> mk_msgs i \<lparr>sc_sharding_gen = gen_next sharding_gen, sc_target_old = ss_target_old i, sc_target_new = ss_target_new i\<rparr> c;
          Some (commits, i\<lparr>ss_did_commit := True\<rparr>, c) }"

definition split_closed :: "query_id \<Rightarrow> timestamp option \<Rightarrow> shard_split_tm_inner \<Rightarrow> ddl_master \<Rightarrow> (shard_split_tm_inner \<times> ddl_master) option" where
  "split_closed qid m_timestamp_hint i c =
     (case m_timestamp_hint of
        Some timestamp_hint \<Rightarrow>
          do { (t, c1) \<leftarrow> gossip_try_update (apply_sharding i timestamp_hint) c;
               (rd, c2) \<leftarrow> respond_external (\<lambda>eid rid. ExternalShardingSuccess eid rid t) (ss_response_data i) c1;
               c3 \<leftarrow> broadcast_gossip (dm_send (CommittedQueryId qid t) c2);
               Some (i\<lparr>ss_response_data := rd\<rparr>, c3) }
      | None \<Rightarrow> Some (i, c))"

definition split_tm ::
  "(ddl_master, shard_split_tm_inner, shard_split_tm_prepared, unit, timestamp option, unit, shard_split_commit, unit, shard_node_path, unit) stm_tm_inner" where
  "split_tm =
     \<lparr>stm_new_follower = (\<lambda>pl c.
        Some (\<lparr>ss_response_data = None, ss_table_path = ssp_table_path pl, ss_target_old = ssp_target_old pl,
               ss_target_new = ssp_target_new pl, ss_did_commit = False\<rparr>, c)),
      stm_mk_prepared_plm = (\<lambda>i c.
        Some (\<lparr>ssp_table_path = ss_table_path i, ssp_target_old = ss_target_old i, ssp_target_new = ss_target_new i\<rparr>, i, c)),
      stm_prepared_plm_inserted = (\<lambda>i c. map_option (\<lambda>prepares. (prepares, i, c)) (mk_msgs i () c)),
      stm_mk_committed_plm = (\<lambda>_ i c. Some ((), i, c)),
      stm_committed_plm_inserted = split_committed,
      stm_mk_aborted_plm = (\<lambda>i c. Some (i, c)),
      stm_aborted_plm_inserted = (\<lambda>i c.
        do { (rd, c') \<leftarrow> respond_external (\<lambda>eid rid. ExternalShardingAborted eid rid SA_Unknown) (ss_response_data i) c;
             aborts \<leftarrow> mk_msgs i () c';
             Some (aborts, i\<lparr>ss_response_data := rd\<rparr>, c') }),
      stm_mk_closed_plm = (\<lambda>i c.
        if ss_did_commit i then map_option (\<lambda>now. (Some now, i, c)) (dm_cur_timestamp c) else Some (None, i, c)),
      stm_closed_plm_inserted = split_closed,
      stm_inner_leader_changed = (\<lambda>i c. Some (i\<lparr>ss_response_data := None\<rparr>, c)),
      stm_inner_snapshot = (\<lambda>i. i\<lparr>ss_response_data := None\<rparr>),
      stm_tm_path = (\<lambda>_. ()),
      stm_tm_is_leader = dm_is_leader,
      stm_rm_to_gid = (\<lambda>rm. case rm of SNP_Tablet (sid, _) \<Rightarrow> SlaveGid sid | SNP_Slave sid \<Rightarrow> SlaveGid sid)\<rparr>"

end
