(* ===== verification/Stm_System.thy ===== *)
theory Stm_System
  imports Stm2PC
begin

text \<open>
  The commit protocol of the schema changes as a whole: the group of the TM, the groups of the RMs
  and the messages between them. A group is given by its leader: the context, the state machines,
  the log entries it has pushed that are not learned yet (\<open>flying\<close>) and the log. Messages may be
  lost, delayed, duplicated and reordered: what was sent once may be delivered any number of times.
  Another node may take over a group at any time from what the log holds; the entries under way are
  lost then. Contexts may change in any way between two calls. This theory has the step relation and
  the invariant of the TM, \<open>Stm_Atomicity\<close> the rest.
\<close>

section \<open>Keys of log entries and messages\<close>

datatype stm_kind = K_Prepared | K_Committed | K_Aborted | K_Closed

fun stm_tm_key :: "('p, 'k, 'z) stm_tm_plm \<Rightarrow> stm_kind \<times> query_id" where
  "stm_tm_key (STM_PreparedPLm qid _) = (K_Prepared, qid)"
| "stm_tm_key (STM_CommittedPLm qid _) = (K_Committed, qid)"
| "stm_tm_key (STM_AbortedPLm qid) = (K_Aborted, qid)"
| "stm_tm_key (STM_ClosedPLm qid _) = (K_Closed, qid)"

fun srm_key :: "('t, 'u, 'w) stm_rm_plm \<Rightarrow> stm_kind \<times> query_id" where
  "srm_key (SRM_PreparedPLm qid _ _) = (K_Prepared, qid)"
| "srm_key (SRM_CommittedPLm qid _) = (K_Committed, qid)"
| "srm_key (SRM_AbortedPLm qid) = (K_Aborted, qid)"

fun stm_msg_key :: "('m, 'n, 't) stm_rm_message \<Rightarrow> stm_kind \<times> query_id" where
  "stm_msg_key (STM_Prepare qid _ _) = (K_Prepared, qid)"
| "stm_msg_key (STM_Abort qid _) = (K_Aborted, qid)"
| "stm_msg_key (STM_Commit qid _ _) = (K_Committed, qid)"

text \<open>What the effects push, what they send, which commit payloads, and which preparations they report.\<close>

fun tm_push :: "('p, 'k, 'z, 'm, 'n, 'r, 't) stm_tm_effect \<Rightarrow> ('p, 'k, 'z) stm_tm_plm list" where
  "tm_push (TM_Push plm) = [plm]"
| "tm_push (To_RM _ _) = []"

definition tm_pushes :: "('p, 'k, 'z, 'm, 'n, 'r, 't) stm_tm_effect list \<Rightarrow> ('p, 'k, 'z) stm_tm_plm list" where
  "tm_pushes effs = concat (map tm_push effs)"

definition tm_sends :: "('p, 'k, 'z, 'm, 'n, 'r, 't) stm_tm_effect list \<Rightarrow> ('r \<times> ('m, 'n, 't) stm_rm_message) set" where
  "tm_sends effs = {(r, msg). To_RM r msg \<in> set effs}"

fun rm_push :: "('u, 'w, 'q, 'r, 't) stm_rm_effect \<Rightarrow> ('t, 'u, 'w) stm_rm_plm list" where
  "rm_push (RM_Push plm) = [plm]"
| "rm_push (Reply_TM _ _) = []"

definition rm_pushes :: "('u, 'w, 'q, 'r, 't) stm_rm_effect list \<Rightarrow> ('t, 'u, 'w) stm_rm_plm list" where
  "rm_pushes effs = concat (map rm_push effs)"

definition rm_replies :: "('u, 'w, 'q, 'r, 't) stm_rm_effect list \<Rightarrow> ('q, 'r) stm_tm_message set" where
  "rm_replies effs = {msg. \<exists>tm. Reply_TM tm msg \<in> set effs}"

definition sent_keys :: "('r \<times> ('m, 'n, 't) stm_rm_message) set \<Rightarrow> ('r \<times> stm_kind \<times> query_id) set" where
  "sent_keys net = (\<lambda>(r, msg). (r, stm_msg_key msg)) ` net"

definition commit_payloads :: "('r \<times> ('m, 'n, 't) stm_rm_message) set \<Rightarrow> (query_id \<times> 'n) set" where
  "commit_payloads net = {(qid, pl). \<exists>r tm. (r, STM_Commit qid tm pl) \<in> net}"

definition reported :: "('q, 'r) stm_tm_message set \<Rightarrow> (query_id \<times> 'r) set" where
  "reported net = {(qid, r). \<exists>pl. STM_Prepared \<lparr>sp_query_id = qid, sp_rm = r, sp_payload = pl\<rparr> \<in> net}"

lemma tm_pushes_simps [simp]:
  "tm_pushes [] = []" "tm_pushes (TM_Push plm # effs) = plm # tm_pushes effs" "tm_pushes (To_RM r msg # effs) = tm_pushes effs"
  "tm_pushes (effs @ effs') = tm_pushes effs @ tm_pushes effs'"
  by (simp_all add: tm_pushes_def)

lemma tm_sends_simps [simp]:
  "tm_sends [] = {}" "tm_sends (TM_Push plm # effs) = tm_sends effs" "tm_sends (To_RM r msg # effs) = insert (r, msg) (tm_sends effs)"
  "tm_sends (effs @ effs') = tm_sends effs \<union> tm_sends effs'"
  by (auto simp: tm_sends_def)

lemma rm_pushes_simps [simp]:
  "rm_pushes [] = []" "rm_pushes (RM_Push plm # effs) = plm # rm_pushes effs" "rm_pushes (Reply_TM tm msg # effs) = rm_pushes effs"
  by (simp_all add: rm_pushes_def)

lemma rm_replies_simps [simp]:
  "rm_replies [] = {}" "rm_replies (RM_Push plm # effs) = rm_replies effs"
  "rm_replies (Reply_TM tm msg # effs) = insert msg (rm_replies effs)"
  by (auto simp: rm_replies_def)

lemma tm_broadcast [simp]:
  "tm_pushes (map (\<lambda>(rm, pl). To_RM rm (f rm pl)) pls) = []"
  "tm_sends (map (\<lambda>(rm, pl). To_RM rm (f rm pl)) pls) = {(r, f r pl) | r pl. (r, pl) \<in> set pls}"
  by (induction pls) auto

lemma sent_keys_Un [simp]: "sent_keys (net \<union> net') = sent_keys net \<union> sent_keys net'" "sent_keys {} = {}"
  by (auto simp: sent_keys_def)

lemma commit_payloads_Un [simp]:
  "commit_payloads (net \<union> net') = commit_payloads net \<union> commit_payloads net'" "commit_payloads {} = {}"
  by (auto simp: commit_payloads_def)

lemma reported_Un [simp]: "reported (net \<union> net') = reported net \<union> reported net'" "reported {} = {}"
  by (auto simp: reported_def)

lemma in_sent_keys: "(r, k, qid) \<in> sent_keys net \<longleftrightarrow> (\<exists>msg. (r, msg) \<in> net \<and> stm_msg_key msg = (k, qid))"
  by (force simp: sent_keys_def)

section \<open>The system\<close>

record ('c, 'i, 'p, 'k, 'z, 'm, 'n, 'q, 'r) stm_tm_group =
  tg_ctx :: 'c
  tg_con :: "('i, 'm, 'n, 'q, 'r) stm_tm_con"
  tg_flying :: "('p, 'k, 'z) stm_tm_plm list"
  tg_log :: "('p, 'k, 'z) stm_tm_plm list"

record ('d, 'b, 'u, 'w, 't) stm_rm_group =
  rg_ctx :: 'd
  rg_con :: 'b
  rg_flying :: "('t, 'u, 'w) stm_rm_plm list"
  rg_log :: "('t, 'u, 'w) stm_rm_plm list"

record ('c, 'i, 'p, 'k, 'z, 'm, 'n, 'q, 'r, 't, 'd, 'b, 'u, 'w) stm_sys =
  sys_tm :: "('c, 'i, 'p, 'k, 'z, 'm, 'n, 'q, 'r) stm_tm_group"
  sys_rm :: "'r \<Rightarrow> ('d, 'b, 'u, 'w, 't) stm_rm_group"
  to_rms :: "('r \<times> ('m, 'n, 't) stm_rm_message) set"
  to_tm :: "('q, 'r) stm_tm_message set"

definition tm_did ::
  "('p, 'k, 'z, 'm, 'n, 'r, 't) stm_tm_effect list \<Rightarrow> ('c, 'i, 'p, 'k, 'z, 'm, 'n, 'q, 'r) stm_tm_group
    \<Rightarrow> ('c, 'i, 'p, 'k, 'z, 'm, 'n, 'q, 'r, 't, 'd, 'b, 'u, 'w) stm_sys \<Rightarrow> ('c, 'i, 'p, 'k, 'z, 'm, 'n, 'q, 'r, 't, 'd, 'b, 'u, 'w) stm_sys" where
  "tm_did effs g s =
     s\<lparr>sys_tm := g\<lparr>tg_flying := tg_flying g @ tm_pushes effs\<rparr>, to_rms := to_rms s \<union> tm_sends effs\<rparr>"

definition rm_did ::
  "'r \<Rightarrow> ('u, 'w, 'q, 'r, 't) stm_rm_effect list \<Rightarrow> ('d, 'b, 'u, 'w, 't) stm_rm_group
    \<Rightarrow> ('c, 'i, 'p, 'k, 'z, 'm, 'n, 'q, 'r, 't, 'd, 'b, 'u, 'w) stm_sys \<Rightarrow> ('c, 'i, 'p, 'k, 'z, 'm, 'n, 'q, 'r, 't, 'd, 'b, 'u, 'w) stm_sys" where
  "rm_did r effs g s =
     s\<lparr>sys_rm := (sys_rm s)(r := g\<lparr>rg_flying := rg_flying g @ rm_pushes effs\<rparr>), to_tm := to_tm s \<union> rm_replies effs\<rparr>"

text \<open>
  The state machines of an RM group at the node that takes over: of those the leader had, each
  that is in the snapshot is told of the new leadership, and stays.
\<close>

definition srm_taken_over ::
  "('d, 'j, 'm, 'n, 'q, 'u, 'w, 'x, 'r) stm_rm_inner \<Rightarrow> ('b, ('j, 'q, 'r, 't) stm_rm_outer, 'x) stm_container
    \<Rightarrow> 'd \<Rightarrow> 'b \<Rightarrow> 'b \<Rightarrow> bool" where
  "srm_taken_over rops cops d con con' \<longleftrightarrow>
     (\<forall>qid es'. con_get cops qid con' = Some (Some es') \<longrightarrow>
        (\<exists>es snap. con_get cops qid con = Some (Some es) \<and> srm_reconfig_snapshot rops es = Some snap \<and>
           (srm_leader_changed rops d snap :: ('d, 'j, 'q, 'u, 'w, 'x, 'r, 't) stm_rm_res) = Some ([], d, es', SRM_Wait)))"

text \<open>A change of an RM group that the protocol has no part in leaves its state machines or drops them.\<close>

definition srm_others :: "('b, 'o, 'x) stm_container \<Rightarrow> 'b \<Rightarrow> 'b \<Rightarrow> bool" where
  "srm_others cops con con' \<longleftrightarrow> (\<forall>qid es. con_get cops qid con' = Some (Some es) \<longrightarrow> con_get cops qid con = Some (Some es))"

inductive stm_step ::
  "('c, 'i, 'p, 'k, 'z, 'm, 'n, 'q, 'r::linorder, 't) stm_tm_inner \<Rightarrow> ('d, 'j, 'm, 'n, 'q, 'u, 'w, 'x, 'r) stm_rm_inner
    \<Rightarrow> ('b, ('j, 'q, 'r, 't) stm_rm_outer, 'x) stm_container
    \<Rightarrow> ('c, 'i, 'p, 'k, 'z, 'm, 'n, 'q, 'r, 't, 'd, 'b, 'u, 'w) stm_sys
    \<Rightarrow> ('c, 'i, 'p, 'k, 'z, 'm, 'n, 'q, 'r, 't, 'd, 'b, 'u, 'w) stm_sys \<Rightarrow> bool"
  for tops rops cops where
  tm_context: "stm_step tops rops cops s (s\<lparr>sys_tm := (sys_tm s)\<lparr>tg_ctx := c\<rparr>\<rparr>)"
| tm_create:
    "bm_get (tg_con (sys_tm s)) qid = None \<Longrightarrow> \<forall>plm \<in> set (tg_log (sys_tm s)). snd (stm_tm_key plm) \<noteq> qid \<Longrightarrow>
     stm_step tops rops cops s (s\<lparr>sys_tm := (sys_tm s)\<lparr>tg_con := bm_insert qid (stm_tm_new qid inner) (tg_con (sys_tm s))\<rparr>\<rparr>)"
| tm_advance:
    "bm_get (tg_con (sys_tm s)) qid = Some es \<Longrightarrow> st_state es = TS_Start \<Longrightarrow>
     stm_step tops rops cops s
       (s\<lparr>sys_tm := (sys_tm s)\<lparr>tg_con := bm_insert qid (es\<lparr>st_state := TS_WaitingInsertTMPrepared\<rparr>) (tg_con (sys_tm s))\<rparr>\<rparr>)"
| tm_refuse:
    "bm_get (tg_con (sys_tm s)) qid = Some es \<Longrightarrow> st_state es \<in> {TS_Start, TS_WaitingInsertTMPrepared} \<Longrightarrow>
     stm_step tops rops cops s (s\<lparr>sys_tm := (sys_tm s)\<lparr>tg_con := bm_remove qid (tg_con (sys_tm s))\<rparr>\<rparr>)"
| tm_message:
    "msg \<in> to_tm s \<Longrightarrow> stm_handle_msg tops msg (tg_ctx (sys_tm s)) (tg_con (sys_tm s)) = Some (effs, c, con) \<Longrightarrow>
     stm_step tops rops cops s (tm_did effs ((sys_tm s)\<lparr>tg_ctx := c, tg_con := con\<rparr>) s)"
| tm_insert:
    "stm_handle_bundle_processed tops (tg_ctx (sys_tm s)) (tg_con (sys_tm s)) = Some (effs, c, con) \<Longrightarrow>
     stm_step tops rops cops s (tm_did effs ((sys_tm s)\<lparr>tg_ctx := c, tg_con := con\<rparr>) s)"
| tm_remote_leader:
    "stm_handle_rlc tops change (tg_ctx (sys_tm s)) (tg_con (sys_tm s)) = Some (effs, c, con) \<Longrightarrow>
     stm_step tops rops cops s (tm_did effs ((sys_tm s)\<lparr>tg_ctx := c, tg_con := con\<rparr>) s)"
| tm_learn:
    "tg_flying (sys_tm s) = plm # plms \<Longrightarrow> stm_handle_plm tops plm (tg_ctx (sys_tm s)) (tg_con (sys_tm s)) = Some (effs, c, con) \<Longrightarrow>
     stm_step tops rops cops s
       (tm_did effs ((sys_tm s)\<lparr>tg_ctx := c, tg_con := con, tg_flying := plms, tg_log := tg_log (sys_tm s) @ [plm]\<rparr>) s)"
| tm_takeover:
    "stm_handle_lc tops c (stm_handle_reconfig_snapshot tops (tg_con (sys_tm s))) = Some (effs, c', con) \<Longrightarrow>
     stm_step tops rops cops s (tm_did effs ((sys_tm s)\<lparr>tg_ctx := c', tg_con := con, tg_flying := []\<rparr>) s)"
| rm_context:
    "srm_node_path rops d = r \<Longrightarrow> srm_others cops (rg_con (sys_rm s r)) con \<Longrightarrow>
     stm_step tops rops cops s (s\<lparr>sys_rm := (sys_rm s)(r := (sys_rm s r)\<lparr>rg_ctx := d, rg_con := con\<rparr>)\<rparr>)"
| rm_message:
    "(r, msg) \<in> to_rms s \<Longrightarrow> srm_handle_rm_msg rops cops msg (rg_ctx (sys_rm s r)) (rg_con (sys_rm s r)) = Some (effs, d, con) \<Longrightarrow>
     stm_step tops rops cops s (rm_did r effs ((sys_rm s r)\<lparr>rg_ctx := d, rg_con := con\<rparr>) s)"
| rm_insert:
    "con_get cops qid (rg_con (sys_rm s r)) = Some (Some es) \<Longrightarrow>
     srm_put cops qid (rg_con (sys_rm s r)) (srm_start_inserting rops (rg_ctx (sys_rm s r)) es) = Some (effs, d, con) \<Longrightarrow>
     stm_step tops rops cops s (rm_did r effs ((sys_rm s r)\<lparr>rg_ctx := d, rg_con := con\<rparr>) s)"
| rm_learn:
    "rg_flying (sys_rm s r) = plm # plms \<Longrightarrow> srm_handle_rm_plm rops cops plm (rg_ctx (sys_rm s r)) (rg_con (sys_rm s r)) = Some (effs, d, con) \<Longrightarrow>
     stm_step tops rops cops s
       (rm_did r effs ((sys_rm s r)\<lparr>rg_ctx := d, rg_con := con, rg_flying := plms, rg_log := rg_log (sys_rm s r) @ [plm]\<rparr>) s)"
| rm_takeover:
    "srm_node_path rops d = r \<Longrightarrow> srm_taken_over rops cops d (rg_con (sys_rm s r)) con \<Longrightarrow>
     stm_step tops rops cops s (s\<lparr>sys_rm := (sys_rm s)(r := (sys_rm s r)\<lparr>rg_ctx := d, rg_con := con, rg_flying := []\<rparr>)\<rparr>)"

definition stm_init ::
  "('d, 'j, 'm, 'n, 'q, 'u, 'w, 'x, 'r) stm_rm_inner \<Rightarrow> ('b, ('j, 'q, 'r, 't) stm_rm_outer, 'x) stm_container
    \<Rightarrow> ('c, 'i, 'p, 'k, 'z, 'm, 'n, 'q, 'r, 't, 'd, 'b, 'u, 'w) stm_sys \<Rightarrow> bool" where
  "stm_init rops cops s \<longleftrightarrow>
     tg_con (sys_tm s) = [] \<and> tg_flying (sys_tm s) = [] \<and> tg_log (sys_tm s) = [] \<and> to_rms s = {} \<and> to_tm s = {} \<and>
     (\<forall>r. srm_node_path rops (rg_ctx (sys_rm s r)) = r \<and> rg_flying (sys_rm s r) = [] \<and> rg_log (sys_rm s r) = [] \<and>
        (\<forall>qid es. con_get cops qid (rg_con (sys_rm s r)) \<noteq> Some (Some es)))"

definition stm_reachable where
  "stm_reachable tops rops cops s \<longleftrightarrow> (\<exists>s0. stm_init rops cops s0 \<and> (stm_step tops rops cops)\<^sup>*\<^sup>* s0 s)"

text \<open>
  What the protocol promises of a reachable state: once an RM has committed, the TM has, no RM aborts, all RMs that commit
  do so with their part \<open>carry\<close> of one payload, and all RMs that were asked have prepared.
\<close>

definition stm_atomic where
  "stm_atomic carry s \<longleftrightarrow>
     (\<forall>r qid w. SRM_CommittedPLm qid w \<in> set (rg_log (sys_rm s r)) \<longrightarrow>
        (K_Committed, qid) \<in> stm_tm_key ` set (tg_log (sys_tm s)) \<and> (K_Aborted, qid) \<notin> stm_tm_key ` set (tg_log (sys_tm s)) \<and>
        (\<forall>r'. (K_Aborted, qid) \<notin> srm_key ` set (rg_log (sys_rm s r'))) \<and>
        (\<exists>n. \<forall>r' w'. SRM_CommittedPLm qid w' \<in> set (rg_log (sys_rm s r')) \<longrightarrow> w' = carry r' n) \<and>
        (\<forall>r' tm pl. (r', STM_Prepare qid tm pl) \<in> to_rms s \<longrightarrow> (K_Prepared, qid) \<in> srm_key ` set (rg_log (sys_rm s r'))))"

section \<open>The invariant of the TM\<close>

fun awaited :: "('q, 'r) stm_tm_state \<Rightarrow> stm_kind option" where
  "awaited TS_InsertTMPreparing = Some K_Prepared"
| "awaited TS_InsertingTMCommitted = Some K_Committed"
| "awaited TS_InsertingTMAborted = Some K_Aborted"
| "awaited TS_InsertingTMClosed = Some K_Closed"
| "awaited _ = None"

text \<open>All RMs of a map of payloads have the same payload.\<close>

definition uniform :: "('r, 'n) btree \<Rightarrow> bool" where
  "uniform pls \<longleftrightarrow> (\<forall>v \<in> snd ` set pls. \<forall>v' \<in> snd ` set pls. v = v')"

text \<open>
  A state machine of the TM, given the keys \<open>L\<close> of the log, the messages \<open>N\<close> that were sent to the
  RMs and the preparations \<open>A\<close> that were reported.
\<close>

definition tm_es_ok ::
  "(stm_kind \<times> query_id) set \<Rightarrow> ('r \<times> ('m, 'n, 't) stm_rm_message) set \<Rightarrow> (query_id \<times> 'r) set \<Rightarrow> query_id
    \<Rightarrow> ('i, 'm, 'n, 'q, 'r) stm_tm_outer \<Rightarrow> bool" where
  "tm_es_ok L N A qid es \<longleftrightarrow>
     st_query_id es = qid \<and>
     (case st_follower es of
        None \<Rightarrow> st_state es \<in> {TS_Start, TS_WaitingInsertTMPrepared, TS_InsertTMPreparing} \<and> (\<forall>k. (k, qid) \<notin> L)
      | Some (FS_Preparing pls) \<Rightarrow>
          (K_Prepared, qid) \<in> L \<and> (K_Committed, qid) \<notin> L \<and> (K_Aborted, qid) \<notin> L \<and>
          (\<forall>r. (r, K_Prepared, qid) \<in> sent_keys N \<longrightarrow> r \<in> fst ` set pls) \<and>
          (case st_state es of
             TS_Following \<Rightarrow> True
           | TS_Preparing remaining _ \<Rightarrow> \<forall>r \<in> fst ` set pls. r \<in> set remaining \<or> (qid, r) \<in> A
           | TS_InsertingTMCommitted \<Rightarrow> \<forall>r \<in> fst ` set pls. (qid, r) \<in> A
           | TS_InsertingTMAborted \<Rightarrow> True
           | _ \<Rightarrow> False)
      | Some (FS_Committed pls) \<Rightarrow>
          (K_Committed, qid) \<in> L \<and> (K_Aborted, qid) \<notin> L \<and> uniform pls \<and>
          (\<forall>pl. (qid, pl) \<in> commit_payloads N \<longrightarrow> pl \<in> snd ` set pls) \<and>
          (case st_state es of TS_Following \<Rightarrow> True | TS_Committed _ \<Rightarrow> True | TS_InsertingTMClosed \<Rightarrow> True | _ \<Rightarrow> False)
      | Some (FS_Aborted pls) \<Rightarrow>
          (K_Aborted, qid) \<in> L \<and> (K_Committed, qid) \<notin> L \<and>
          (case st_state es of TS_Following \<Rightarrow> True | TS_Aborted _ \<Rightarrow> True | TS_InsertingTMClosed \<Rightarrow> True | _ \<Rightarrow> False))"

definition tm_net_ok ::
  "(stm_kind \<times> query_id) set \<Rightarrow> ('r \<times> ('m, 'n, 't) stm_rm_message) set \<Rightarrow> (query_id \<times> 'r) set \<Rightarrow> bool" where
  "tm_net_ok L N A \<longleftrightarrow>
     (\<forall>r k qid. (r, k, qid) \<in> sent_keys N \<longrightarrow> (k, qid) \<in> L) \<and>
     (\<forall>qid. (K_Committed, qid) \<in> L \<longrightarrow> (K_Aborted, qid) \<notin> L) \<and>
     (\<forall>qid r. (K_Committed, qid) \<in> L \<longrightarrow> (r, K_Prepared, qid) \<in> sent_keys N \<longrightarrow> (qid, r) \<in> A) \<and>
     (\<forall>qid pl pl'. (qid, pl) \<in> commit_payloads N \<longrightarrow> (qid, pl') \<in> commit_payloads N \<longrightarrow> pl = pl')"

definition tm_ok where
  "tm_ok L N A con flying \<longleftrightarrow>
     (\<forall>qid es. bm_get con qid = Some es \<longrightarrow> tm_es_ok L N A qid es) \<and>
     distinct (map (snd \<circ> stm_tm_key) flying) \<and>
     (\<forall>plm \<in> set flying. \<exists>es. bm_get con (snd (stm_tm_key plm)) = Some es \<and> awaited (st_state es) = Some (fst (stm_tm_key plm))) \<and>
     tm_net_ok L N A"

text \<open>What a handler may do: send what the log allows, and push an entry when none is awaited.\<close>

definition tm_move where
  "tm_move L N A qid es effs es' \<longleftrightarrow>
     tm_es_ok L (N \<union> tm_sends effs) A qid es' \<and>
     (\<forall>r k q. (r, k, q) \<in> sent_keys (tm_sends effs) \<longrightarrow> q = qid \<and> (k, qid) \<in> L \<and> (k = K_Prepared \<longrightarrow> (K_Committed, qid) \<notin> L)) \<and>
     (\<forall>q pl pl'. (q, pl) \<in> commit_payloads (tm_sends effs) \<longrightarrow> (q, pl') \<in> commit_payloads (N \<union> tm_sends effs) \<longrightarrow> pl = pl') \<and>
     (tm_pushes effs = [] \<and> (awaited (st_state es) = None \<or> st_state es' = st_state es) \<or>
      (\<exists>plm. tm_pushes effs = [plm] \<and> awaited (st_state es) = None \<and> snd (stm_tm_key plm) = qid \<and>
         awaited (st_state es') = Some (fst (stm_tm_key plm))))"

lemma tm_es_ok_grow:
  assumes "tm_es_ok L N A qid es" and "A \<subseteq> A'" and "\<And>k. (k, qid) \<in> L' \<longleftrightarrow> (k, qid) \<in> L"
    and "\<And>r k. (r, k, qid) \<in> sent_keys N' \<Longrightarrow> (r, k, qid) \<in> sent_keys N"
    and "\<And>pl. (qid, pl) \<in> commit_payloads N' \<Longrightarrow> (qid, pl) \<in> commit_payloads N"
  shows "tm_es_ok L' N' A' qid es"
proof (cases "st_follower es")
  case None
  with assms(1) show ?thesis by (simp add: tm_es_ok_def assms(3))
next
  case (Some f)
  show ?thesis
  proof (cases f)
    case (FS_Preparing pls)
    have "\<forall>r. (r, K_Prepared, qid) \<in> sent_keys N' \<longrightarrow> r \<in> fst ` set pls"
      using assms(1,4) by (simp add: tm_es_ok_def Some FS_Preparing)
    moreover have "(qid, r) \<in> A \<Longrightarrow> (qid, r) \<in> A'" for r using assms(2) by blast
    ultimately show ?thesis
      using assms(1) by (auto simp: tm_es_ok_def assms(3) Some FS_Preparing split: stm_tm_state.splits)
  next
    case (FS_Committed pls)
    have "\<forall>pl. (qid, pl) \<in> commit_payloads N' \<longrightarrow> pl \<in> snd ` set pls"
      using assms(1,5) by (simp add: tm_es_ok_def Some FS_Committed)
    with assms(1) show ?thesis by (simp add: tm_es_ok_def assms(3) Some FS_Committed)
  next
    case (FS_Aborted pls)
    with assms(1) show ?thesis by (simp add: tm_es_ok_def assms(3) Some)
  qed
qed

lemma commit_payloads_sent: "(qid, pl) \<in> commit_payloads N \<Longrightarrow> \<exists>r. (r, K_Committed, qid) \<in> sent_keys N"
  by (force simp: commit_payloads_def in_sent_keys)

lemma tm_ok_move:
  assumes ok: "tm_ok L N A con flying" and es: "bm_get con qid = Some es" and mv: "tm_move L N A qid es effs es'"
  shows "tm_ok L (N \<union> tm_sends effs) A (bm_insert qid es' con) (flying @ tm_pushes effs)"
  unfolding tm_ok_def
proof (intro conjI allI impI ballI)
  let ?N = "N \<union> tm_sends effs"
  have own: "q = qid" if "(r, k, q) \<in> sent_keys (tm_sends effs)" for r k q using mv that unfolding tm_move_def by blast
  fix q x assume x: "bm_get (bm_insert qid es' con) q = Some x"
  show "tm_es_ok L ?N A q x"
  proof (cases "q = qid")
    case True
    with x mv show ?thesis by (simp add: tm_move_def)
  next
    case False
    with x ok have "tm_es_ok L N A q x" by (simp add: tm_ok_def)
    then show ?thesis using False own by (rule_tac tm_es_ok_grow) (auto dest: commit_payloads_sent)
  qed
next
  have free: "qid \<notin> (snd \<circ> stm_tm_key) ` set flying" if "awaited (st_state es) = None"
    using ok es that unfolding tm_ok_def by fastforce
  have pushed: "tm_pushes effs = [] \<or> (\<exists>plm. tm_pushes effs = [plm] \<and> awaited (st_state es) = None \<and> snd (stm_tm_key plm) = qid)"
    using mv unfolding tm_move_def by blast
  have dist: "distinct (map (snd \<circ> stm_tm_key) flying)" using ok by (simp add: tm_ok_def)
  show "distinct (map (snd \<circ> stm_tm_key) (flying @ tm_pushes effs))"
    using pushed
  proof (elim disjE exE conjE)
    fix plm assume "tm_pushes effs = [plm]" "awaited (st_state es) = None" "snd (stm_tm_key plm) = qid"
    with dist free show ?thesis by auto
  qed (use dist in simp)
  fix plm assume plm: "plm \<in> set (flying @ tm_pushes effs)"
  show "\<exists>x. bm_get (bm_insert qid es' con) (snd (stm_tm_key plm)) = Some x \<and> awaited (st_state x) = Some (fst (stm_tm_key plm))"
  proof (cases "plm \<in> set flying")
    case True
    with ok obtain x where x: "bm_get con (snd (stm_tm_key plm)) = Some x" "awaited (st_state x) = Some (fst (stm_tm_key plm))"
      unfolding tm_ok_def by blast
    show ?thesis
    proof (cases "snd (stm_tm_key plm) = qid")
      case True
      with x es have "awaited (st_state es) \<noteq> None" by simp
      with mv True x es show ?thesis by (auto simp: tm_move_def)
    qed (use x in simp)
  next
    case False
    with plm mv show ?thesis by (auto simp: tm_move_def)
  qed
next
  show "tm_net_ok L (N \<union> tm_sends effs) A"
    using ok mv unfolding tm_ok_def tm_net_ok_def tm_move_def by (simp add: Un_iff) blast
qed

lemma tm_move_quiet:
  assumes "tm_es_ok L N A qid es'" and "awaited (st_state es) = None \<or> st_state es' = st_state es"
  shows "tm_move L N A qid es [] es'"
  using assms by (simp add: tm_move_def)

lemma tm_move_push:
  assumes "tm_es_ok L N A qid es'" and "awaited (st_state es) = None" and "stm_tm_key plm = (k, qid)" and "awaited (st_state es') = Some k"
  shows "tm_move L N A qid es [TM_Push plm] es'"
  using assms by (simp add: tm_move_def)

lemma handle_prepared_move:
  assumes ok: "tm_es_ok L N A qid es" and rep: "(qid, sp_rm prepared) \<in> A"
    and h: "stm_handle_prepared ops prepared c es = Some (effs, c', es', act)"
  shows "act = STM_Wait \<and> tm_move L N A qid es effs es'"
proof (cases "st_state es")
  case (TS_Preparing remaining responses)
  show ?thesis
  proof (cases "sp_rm prepared \<in> set remaining")
    case True
    from ok TS_Preparing obtain pls where f: "st_follower es = Some (FS_Preparing pls)"
      by (auto simp: tm_es_ok_def split: option.splits stm_follower.splits)
    let ?rem = "bs_remove (sp_rm prepared) remaining"
    show ?thesis
    proof (cases "?rem = []")
      case True
      with h TS_Preparing \<open>sp_rm prepared \<in> set remaining\<close> obtain pl i where
        "effs = [TM_Push (STM_CommittedPLm (st_query_id es) pl)]" "es' = es\<lparr>st_inner := i, st_state := TS_InsertingTMCommitted\<rparr>" "act = STM_Wait"
        by (auto simp: stm_handle_prepared_def Let_def bind_eq_Some_conv)
      moreover have "\<forall>r \<in> fst ` set pls. (qid, r) \<in> A"
        using ok f TS_Preparing rep True by (auto simp: tm_es_ok_def bs_remove_def filter_empty_conv)
      ultimately show ?thesis using ok f TS_Preparing
        by (auto simp: tm_es_ok_def intro!: tm_move_push)
    next
      case False
      with h TS_Preparing \<open>sp_rm prepared \<in> set remaining\<close>
      have "effs = [] \<and> act = STM_Wait \<and> es' = es\<lparr>st_state := TS_Preparing ?rem (bm_insert (sp_rm prepared) (sp_payload prepared) responses)\<rparr>"
        by (auto simp: stm_handle_prepared_def Let_def)
      then show ?thesis using ok f TS_Preparing rep
        by (auto simp: tm_es_ok_def bs_remove_def intro!: tm_move_quiet)
    qed
  qed (use h TS_Preparing ok in \<open>auto simp: stm_handle_prepared_def intro!: tm_move_quiet\<close>)
qed (use h ok in \<open>auto simp: stm_handle_prepared_def intro!: tm_move_quiet\<close>)

lemma handle_aborted_move:
  assumes ok: "tm_es_ok L N A qid es" and h: "stm_handle_aborted ops c es = Some (effs, c', es', act)"
  shows "act = STM_Wait \<and> tm_move L N A qid es effs es'"
proof (cases "st_state es")
  case (TS_Preparing remaining responses)
  from ok TS_Preparing obtain pls where f: "st_follower es = Some (FS_Preparing pls)"
    by (auto simp: tm_es_ok_def split: option.splits stm_follower.splits)
  from h TS_Preparing obtain i where "effs = [TM_Push (STM_AbortedPLm (st_query_id es))]"
    "es' = es\<lparr>st_inner := i, st_state := TS_InsertingTMAborted\<rparr>" "act = STM_Wait"
    by (auto simp: stm_handle_aborted_def bind_eq_Some_conv)
  then show ?thesis using ok f TS_Preparing by (auto simp: tm_es_ok_def intro!: tm_move_push)
qed (use h ok in \<open>auto simp: stm_handle_aborted_def intro!: tm_move_quiet\<close>)

lemma handle_closed_cases:
  assumes h: "stm_handle_closed ops rm c es = Some (effs, c', es', act)"
    and st: "(st_state es, mk) \<in> {(TS_Committed remaining, TS_Committed), (TS_Aborted remaining, TS_Aborted)}"
  shows "act = STM_Wait \<and>
    (effs = [] \<and> (es' = es \<or> (\<exists>remaining'. es' = es\<lparr>st_state := mk remaining'\<rparr>)) \<or>
     (\<exists>pl i. effs = [TM_Push (STM_ClosedPLm (st_query_id es) pl)] \<and> es' = es\<lparr>st_inner := i, st_state := TS_InsertingTMClosed\<rparr>))"
  using assms
  by (cases "rm \<in> set remaining"; cases "bs_remove rm remaining = []") (auto simp: stm_handle_closed_def Let_def bind_eq_Some_conv)

lemma handle_closed_move:
  assumes ok: "tm_es_ok L N A qid es" and h: "stm_handle_closed ops rm c es = Some (effs, c', es', act)"
  shows "act = STM_Wait \<and> tm_move L N A qid es effs es'"
proof (cases "st_state es")
  case (TS_Committed remaining)
  from ok TS_Committed obtain pls where f: "st_follower es = Some (FS_Committed pls)"
    by (auto simp: tm_es_ok_def split: option.splits stm_follower.splits)
  from ok f TS_Committed handle_closed_cases [OF h, of TS_Committed remaining] show ?thesis
    by (auto simp: tm_es_ok_def intro!: tm_move_push tm_move_quiet)
next
  case (TS_Aborted remaining)
  from ok TS_Aborted obtain pls where f: "st_follower es = Some (FS_Aborted pls)"
    by (auto simp: tm_es_ok_def split: option.splits stm_follower.splits)
  from ok f TS_Aborted handle_closed_cases [OF h, of TS_Aborted remaining] show ?thesis
    by (auto simp: tm_es_ok_def intro!: tm_move_push tm_move_quiet)
qed (use h ok in \<open>simp_all add: stm_handle_closed_def tm_move_quiet\<close>)

lemma start_inserting_move:
  assumes ok: "tm_es_ok L N A qid es" and h: "stm_start_inserting ops c es = Some (effs, c', es', act)"
  shows "act = STM_Wait \<and> tm_move L N A qid es effs es'"
proof (cases "st_state es = TS_WaitingInsertTMPrepared")
  case True
  with h obtain pl i where "effs = [TM_Push (STM_PreparedPLm (st_query_id es) pl)]"
    "es' = es\<lparr>st_inner := i, st_state := TS_InsertTMPreparing\<rparr>" "act = STM_Wait"
    by (auto simp: stm_start_inserting_def bind_eq_Some_conv)
  then show ?thesis using ok True
    by (auto simp: tm_es_ok_def split: option.splits stm_follower.splits intro!: tm_move_push)
next
  case False
  then have "effs = [] \<and> es' = es \<and> act = STM_Wait" using h by (cases "st_state es") (auto simp: stm_start_inserting_def)
  with ok show ?thesis by (simp add: tm_move_quiet)
qed

text \<open>Broadcasts and what is sent again.\<close>

lemma stm_resend_sound:
  assumes "stm_resend hit gid_of pls mk rms = Some effs"
  shows "set effs \<subseteq> {mk r pl | r pl. (r, pl) \<in> set pls}"
  using assms
proof (induction rms arbitrary: effs)
  case (Cons rm rms)
  show ?case
  proof (cases "hit (gid_of rm)")
    case True
    with Cons.prems obtain pl rest where "bm_get pls rm = Some pl" "stm_resend hit gid_of pls mk rms = Some rest" "effs = mk rm pl # rest"
      by (auto simp: bind_eq_Some_conv)
    with Cons.IH show ?thesis by (force dest: map_of_SomeD)
  qed (use Cons in simp)
qed simp

lemma prepares_move:
  assumes ok: "tm_es_ok L N A qid es" and f: "st_follower es = Some (FS_Preparing pls)"
    and effs: "set effs \<subseteq> {To_RM r (STM_Prepare qid tm pl) | r pl. (r, pl) \<in> set pls}"
    and es': "tm_es_ok L N A qid es'" "st_follower es' = Some (FS_Preparing pls)"
    and st: "awaited (st_state es) = None \<or> st_state es' = st_state es"
  shows "tm_move L N A qid es effs es'"
proof -
  have push: "tm_pushes effs = []" using effs by (induction effs) auto
  have sends: "tm_sends effs \<subseteq> {(r, STM_Prepare qid tm pl) | r pl. (r, pl) \<in> set pls}" using effs by (auto simp: tm_sends_def)
  then have keys: "q = qid \<and> k = K_Prepared \<and> r \<in> fst ` set pls" if "(r, k, q) \<in> sent_keys (tm_sends effs)" for r k q
    using that by (force simp: in_sent_keys)
  have com: "commit_payloads (tm_sends effs) = {}" using sends by (auto simp: commit_payloads_def)
  have "\<forall>r. (r, K_Prepared, qid) \<in> sent_keys N \<longrightarrow> r \<in> fst ` set pls" using es' by (simp add: tm_es_ok_def)
  then have "\<forall>r. (r, K_Prepared, qid) \<in> sent_keys (N \<union> tm_sends effs) \<longrightarrow> r \<in> fst ` set pls" by (auto dest: keys)
  then have "tm_es_ok L (N \<union> tm_sends effs) A qid es'" using es' by (simp add: tm_es_ok_def)
  moreover have "(K_Prepared, qid) \<in> L \<and> (K_Committed, qid) \<notin> L" using ok f by (simp add: tm_es_ok_def)
  moreover have "\<forall>r k q. (r, k, q) \<in> sent_keys (tm_sends effs) \<longrightarrow> q = qid \<and> k = K_Prepared" using keys by blast
  ultimately show ?thesis using st by (auto simp: tm_move_def push com)
qed

lemma commits_move:
  assumes ok: "tm_es_ok L N A qid es" and f: "st_follower es = Some (FS_Committed pls)"
    and effs: "set effs \<subseteq> {To_RM r (STM_Commit qid tm pl) | r pl. (r, pl) \<in> set pls}"
    and es': "tm_es_ok L N A qid es'" "st_follower es' = Some (FS_Committed pls)"
    and st: "awaited (st_state es) = None \<or> st_state es' = st_state es"
  shows "tm_move L N A qid es effs es'"
proof -
  have push: "tm_pushes effs = []" using effs by (induction effs) auto
  have sends: "tm_sends effs \<subseteq> {(r, STM_Commit qid tm pl) | r pl. (r, pl) \<in> set pls}" using effs by (auto simp: tm_sends_def)
  then have keys: "\<forall>r k q. (r, k, q) \<in> sent_keys (tm_sends effs) \<longrightarrow> q = qid \<and> k = K_Committed" by (force simp: in_sent_keys)
  have com: "\<forall>q pl. (q, pl) \<in> commit_payloads (tm_sends effs) \<longrightarrow> q = qid \<and> pl \<in> snd ` set pls"
    using sends by (force simp: commit_payloads_def)
  have old: "\<forall>pl. (qid, pl) \<in> commit_payloads N \<longrightarrow> pl \<in> snd ` set pls" and L: "(K_Committed, qid) \<in> L" and un: "uniform pls"
    using ok f by (simp_all add: tm_es_ok_def)
  have all: "\<forall>pl. (qid, pl) \<in> commit_payloads (N \<union> tm_sends effs) \<longrightarrow> pl \<in> snd ` set pls"
    using old com unfolding commit_payloads_Un by blast
  have "tm_es_ok L (N \<union> tm_sends effs) A qid es'" using es' all by (simp add: tm_es_ok_def)
  moreover have "pl = pl'" if "(q, pl) \<in> commit_payloads (tm_sends effs)" "(q, pl') \<in> commit_payloads (N \<union> tm_sends effs)" for q pl pl'
  proof -
    from com that(1) have q: "q = qid" and pl: "pl \<in> snd ` set pls" by blast+
    from all that(2) have "pl' \<in> snd ` set pls" unfolding q by blast
    with un pl show ?thesis unfolding uniform_def by blast
  qed
  ultimately show ?thesis using st keys L push unfolding tm_move_def by blast
qed

lemma aborts_move:
  assumes ok: "tm_es_ok L N A qid es" and f: "st_follower es = Some (FS_Aborted pls)"
    and effs: "set effs \<subseteq> {To_RM r (STM_Abort qid tm) | r. True}"
    and es': "tm_es_ok L N A qid es'" "st_follower es' = Some (FS_Aborted pls)"
    and st: "awaited (st_state es) = None \<or> st_state es' = st_state es"
  shows "tm_move L N A qid es effs es'"
proof -
  have push: "tm_pushes effs = []" using effs by (induction effs) auto
  have sends: "tm_sends effs \<subseteq> {(r, STM_Abort qid tm) | r. True}" using effs by (auto simp: tm_sends_def)
  then have keys: "\<forall>r k q. (r, k, q) \<in> sent_keys (tm_sends effs) \<longrightarrow> q = qid \<and> k = K_Aborted" by (force simp: in_sent_keys)
  have com: "commit_payloads (tm_sends effs) = {}" using sends by (auto simp: commit_payloads_def)
  have "(K_Aborted, qid) \<in> L" using ok f by (simp add: tm_es_ok_def)
  moreover have "tm_es_ok L (N \<union> tm_sends effs) A qid es'" using es' com by (simp add: tm_es_ok_def)
  moreover have "\<forall>q pl pl'. (q, pl) \<in> commit_payloads (tm_sends effs) \<longrightarrow> (q, pl') \<in> commit_payloads (N \<union> tm_sends effs) \<longrightarrow> pl = pl'"
    by (simp add: com)
  ultimately show ?thesis using st keys push unfolding tm_move_def by blast
qed

lemma remote_leader_changed_move:
  assumes ok: "tm_es_ok L N A qid es" and h: "stm_remote_leader_changed ops change c es = Some (effs, c', es', act)"
  shows "act = STM_Wait \<and> tm_move L N A qid es effs es'"
proof (cases "st_state es")
  case (TS_Preparing remaining responses)
  from ok TS_Preparing obtain pls where f: "st_follower es = Some (FS_Preparing pls)"
    by (auto simp: tm_es_ok_def split: option.splits stm_follower.splits)
  have qid: "st_query_id es = qid" using ok by (simp add: tm_es_ok_def)
  from h TS_Preparing f have r: "act = STM_Wait" "es' = es" and
    "stm_resend (\<lambda>gid. gid = rlc_gid change) (stm_rm_to_gid ops) pls (\<lambda>rm pl. To_RM rm (STM_Prepare qid (stm_tm_path ops c) pl)) remaining = Some effs"
    by (auto simp: stm_remote_leader_changed_def Let_def bind_eq_Some_conv qid)
  from prepares_move [OF ok f _ ok f] stm_resend_sound [OF this(3)] r show ?thesis by simp
next
  case (TS_Committed remaining)
  from ok TS_Committed obtain pls where f: "st_follower es = Some (FS_Committed pls)"
    by (auto simp: tm_es_ok_def split: option.splits stm_follower.splits)
  have qid: "st_query_id es = qid" using ok by (simp add: tm_es_ok_def)
  from h TS_Committed f have r: "act = STM_Wait" "es' = es" and
    "stm_resend (\<lambda>gid. gid = rlc_gid change) (stm_rm_to_gid ops) pls (\<lambda>rm pl. To_RM rm (STM_Commit qid (stm_tm_path ops c) pl)) remaining = Some effs"
    by (auto simp: stm_remote_leader_changed_def Let_def bind_eq_Some_conv qid)
  from commits_move [OF ok f _ ok f] stm_resend_sound [OF this(3)] r show ?thesis by simp
next
  case (TS_Aborted remaining)
  from ok TS_Aborted obtain pls where f: "st_follower es = Some (FS_Aborted pls)"
    by (auto simp: tm_es_ok_def split: option.splits stm_follower.splits)
  have qid: "st_query_id es = qid" using ok by (simp add: tm_es_ok_def)
  from h TS_Aborted f have r: "act = STM_Wait" "es' = es" and
    "stm_resend (\<lambda>gid. gid = rlc_gid change) (stm_rm_to_gid ops) pls (\<lambda>rm _. To_RM rm (STM_Abort qid (stm_tm_path ops c))) remaining = Some effs"
    by (auto simp: stm_remote_leader_changed_def Let_def bind_eq_Some_conv qid)
  from stm_resend_sound [OF this(3)] have "set effs \<subseteq> {To_RM r (STM_Abort qid (stm_tm_path ops c)) | r. True}" by blast
  from aborts_move [OF ok f this ok f] r show ?thesis by simp
qed (use h ok in \<open>simp_all add: stm_remote_leader_changed_def Let_def tm_move_quiet\<close>)

lemma leader_changed_move:
  assumes ok: "tm_es_ok L N A qid es" and fol: "st_state es = TS_Following"
    and h: "stm_leader_changed ops c es = Some (effs, c', es', act)"
  shows "act = STM_Wait \<and> tm_move L N A qid es effs es'"
proof (cases "stm_tm_is_leader ops c = Some True")
  case True
  with h fol obtain f where f: "st_follower es = Some f" by (auto simp: stm_leader_changed_def bind_eq_Some_conv)
  have qid: "st_query_id es = qid" using ok by (simp add: tm_es_ok_def)
  show ?thesis
  proof (cases f)
    case (FS_Preparing pls)
    with h fol f True have e: "act = STM_Wait" "effs = map (\<lambda>(rm, pl). To_RM rm (STM_Prepare qid (stm_tm_path ops c) pl)) pls"
      "es' = es\<lparr>st_follower := Some (FS_Preparing pls), st_state := TS_Preparing (bm_keys pls) []\<rparr>"
      by (auto simp: stm_leader_changed_def stm_advance_to_prepared_def qid)
    have "tm_es_ok L N A qid es'" using ok f FS_Preparing fol by (simp add: e tm_es_ok_def bm_keys_def)
    with prepares_move [OF ok f [unfolded FS_Preparing], of effs "stm_tm_path ops c" es'] fol e show ?thesis by fastforce
  next
    case (FS_Committed pls)
    with h fol f True have e: "act = STM_Wait" "effs = map (\<lambda>(rm, pl). To_RM rm (STM_Commit qid (stm_tm_path ops c) pl)) pls"
      "es' = es\<lparr>st_follower := Some (FS_Committed pls), st_state := TS_Committed (bm_keys pls)\<rparr>"
      by (auto simp: stm_leader_changed_def stm_advance_to_committed_def qid)
    have "tm_es_ok L N A qid es'" using ok f FS_Committed fol by (simp add: e tm_es_ok_def)
    with commits_move [OF ok f [unfolded FS_Committed], of effs "stm_tm_path ops c" es'] fol e show ?thesis by fastforce
  next
    case (FS_Aborted pls)
    with h fol f True have e: "act = STM_Wait" "effs = map (\<lambda>(rm, _). To_RM rm (STM_Abort qid (stm_tm_path ops c))) pls"
      "es' = es\<lparr>st_follower := Some (FS_Aborted pls), st_state := TS_Aborted (bm_keys pls)\<rparr>"
      by (auto simp: stm_leader_changed_def stm_advance_to_aborted_def qid)
    have "tm_es_ok L N A qid es'" using ok f FS_Aborted fol by (simp add: e tm_es_ok_def)
    with aborts_move [OF ok f [unfolded FS_Aborted], of effs "stm_tm_path ops c" es'] fol e show ?thesis by fastforce
  qed
next
  case False
  with h fol have "effs = [] \<and> es' = es \<and> act = STM_Wait" by (auto simp: stm_leader_changed_def bind_eq_Some_conv split: if_splits)
  with ok show ?thesis by (simp add: tm_move_quiet)
qed

lemma tm_put_move:
  assumes "tm_ok L N A con flying" and "bm_get con qid = Some es" and "stm_tm_put qid con res = Some (effs, c', con')"
    and "\<And>effs c' es' act. res = Some (effs, c', es', act) \<Longrightarrow> act = STM_Wait \<and> tm_move L N A qid es effs es'"
  shows "tm_ok L (N \<union> tm_sends effs) A con' (flying @ tm_pushes effs)"
proof -
  from assms(3) obtain es' act where r: "res = Some (effs, c', es', act)"
    and con': "con' = (case act of STM_Wait \<Rightarrow> bm_insert qid es' con | STM_Exit \<Rightarrow> bm_remove qid con)"
    by (auto simp: stm_tm_put_def bind_eq_Some_conv)
  from assms(4) [OF r] tm_ok_move [OF assms(1,2)] show ?thesis by (simp add: con')
qed

text \<open>A loop over the state machines with a handler that moves those in states \<open>P\<close>.\<close>

lemma tm_loop_ok:
  assumes "tm_ok L N A con flying" and "stm_tm_loop h qids c con = Some (effs, c', con')" and "distinct qids"
    and "\<And>qid es. qid \<in> set qids \<Longrightarrow> bm_get con qid = Some es \<Longrightarrow> P es"
    and "\<And>N c qid es effs c' es' act. tm_es_ok L N A qid es \<Longrightarrow> P es \<Longrightarrow> h c es = Some (effs, c', es', act) \<Longrightarrow>
      act = STM_Wait \<and> tm_move L N A qid es effs es'"
  shows "tm_ok L (N \<union> tm_sends effs) A con' (flying @ tm_pushes effs)"
  using assms(1-4)
proof (induction qids arbitrary: N c con flying effs)
  case (Cons qid qids)
  from Cons.prems(2) obtain es effs1 c1 con1 effs2 where es: "bm_get con qid = Some es"
    and 1: "stm_tm_put qid con (h c es) = Some (effs1, c1, con1)" and 2: "stm_tm_loop h qids c1 con1 = Some (effs2, c', con')"
    and effs: "effs = effs1 @ effs2"
    by (auto simp: bind_eq_Some_conv)
  have es_ok: "tm_es_ok L N A qid es" using Cons.prems(1) es by (simp add: tm_ok_def)
  have P: "P es" by (rule Cons.prems(4) [OF _ es]) simp
  have ok1: "tm_ok L (N \<union> tm_sends effs1) A con1 (flying @ tm_pushes effs1)"
    by (rule tm_put_move [OF Cons.prems(1) es 1]) (rule assms(5) [OF es_ok P])
  from 1 obtain es1 act where "con1 = (case act of STM_Wait \<Rightarrow> bm_insert qid es1 con | STM_Exit \<Rightarrow> bm_remove qid con)"
    by (auto simp: stm_tm_put_def bind_eq_Some_conv)
  then have same: "bm_get con1 q = bm_get con q" if "q \<noteq> qid" for q using that by (cases act) simp_all
  have "P x" if "q \<in> set qids" "bm_get con1 q = Some x" for q x
  proof (rule Cons.prems(4))
    show "bm_get con q = Some x" using that Cons.prems(3) same by (cases "q = qid") auto
  qed (use that in simp)
  then have "tm_ok L (N \<union> tm_sends effs1 \<union> tm_sends effs2) A con' ((flying @ tm_pushes effs1) @ tm_pushes effs2)"
    using Cons.prems(3) by (intro Cons.IH [OF ok1 2]) simp_all
  then show ?case by (simp add: effs Un_assoc)
qed simp

lemma tm_message_ok:
  assumes ok: "tm_ok L N (reported M) con flying" and msg: "msg \<in> M"
    and h: "stm_handle_msg ops msg c con = Some (effs, c', con')"
  shows "tm_ok L (N \<union> tm_sends effs) (reported M) con' (flying @ tm_pushes effs)"
proof (cases msg)
  case (STM_Prepared prepared)
  with h obtain es where es: "bm_get con (sp_query_id prepared) = Some es"
    and p: "stm_tm_put (sp_query_id prepared) con (stm_handle_prepared ops prepared c es) = Some (effs, c', con')"
    by (auto simp: stm_handle_msg_def bind_eq_Some_conv)
  have es_ok: "tm_es_ok L N (reported M) (sp_query_id prepared) es" using ok es by (simp add: tm_ok_def)
  have rep: "(sp_query_id prepared, sp_rm prepared) \<in> reported M" using msg STM_Prepared by (cases prepared) (auto simp: reported_def)
  show ?thesis by (rule tm_put_move [OF ok es p]) (rule handle_prepared_move [OF es_ok rep])
next
  case (STM_Aborted qid)
  with h obtain es where es: "bm_get con qid = Some es" and p: "stm_tm_put qid con (stm_handle_aborted ops c es) = Some (effs, c', con')"
    by (auto simp: stm_handle_msg_def bind_eq_Some_conv)
  have es_ok: "tm_es_ok L N (reported M) qid es" using ok es by (simp add: tm_ok_def)
  show ?thesis by (rule tm_put_move [OF ok es p]) (rule handle_aborted_move [OF es_ok])
next
  case (STM_Closed qid rm)
  with h obtain es where es: "bm_get con qid = Some es" and p: "stm_tm_put qid con (stm_handle_closed ops rm c es) = Some (effs, c', con')"
    by (auto simp: stm_handle_msg_def bind_eq_Some_conv)
  have es_ok: "tm_es_ok L N (reported M) qid es" using ok es by (simp add: tm_ok_def)
  show ?thesis by (rule tm_put_move [OF ok es p]) (rule handle_closed_move [OF es_ok])
qed

text \<open>What a node that takes over starts from.\<close>

lemma stm_snapshot_get:
  assumes "distinct (map fst con)"
  shows "bm_get (stm_handle_reconfig_snapshot ops con) qid = Option.bind (bm_get con qid) (stm_reconfig_snapshot ops)"
proof -
  let ?f = "\<lambda>(qid, es) acc. case stm_reconfig_snapshot ops es of Some es' \<Rightarrow> bm_insert qid es' acc | None \<Rightarrow> acc"
  have "bm_get (fold ?f xs acc) qid =
      (case Option.bind (bm_get xs qid) (stm_reconfig_snapshot ops) of Some es \<Rightarrow> Some es | None \<Rightarrow> bm_get acc qid)"
    if "distinct (map fst xs)" for xs acc
    using that
  proof (induction xs arbitrary: acc)
    case (Cons e xs)
    obtain q es where e: "e = (q, es)" by (cases e)
    have "bm_get xs q = None" using Cons.prems by (auto simp: e bm_get_None)
    with Cons show ?case by (cases "q = qid") (auto simp: e split: option.splits)
  qed simp
  from this [OF assms, of "[]"] show ?thesis by (simp add: stm_handle_reconfig_snapshot_def split: option.splits)
qed

lemma stm_snapshot_wf: "bm_wf (stm_handle_reconfig_snapshot ops con)"
proof -
  let ?f = "\<lambda>(qid, es) acc. case stm_reconfig_snapshot ops es of Some es' \<Rightarrow> bm_insert qid es' acc | None \<Rightarrow> acc"
  have "bm_wf (fold ?f xs acc)" if "bm_wf acc" for xs acc
    using that by (induction xs arbitrary: acc) (auto split: option.splits)
  from this [of "[]" con] show ?thesis by (simp add: stm_handle_reconfig_snapshot_def)
qed

lemma snapshot_es_ok:
  assumes "tm_es_ok L N A qid es" and "stm_reconfig_snapshot ops es = Some es'"
  shows "tm_es_ok L N A qid es' \<and> st_state es' = TS_Following"
  using assms by (cases "st_follower es") (auto simp: tm_es_ok_def stm_reconfig_snapshot_def split: if_splits stm_follower.splits stm_tm_state.splits)

lemma tm_takeover_ok:
  assumes ok: "tm_ok L N A con flying" and wf: "bm_wf con"
    and h: "stm_handle_lc ops c (stm_handle_reconfig_snapshot ops con) = Some (effs, c', con')"
  shows "tm_ok L (N \<union> tm_sends effs) A con' (tm_pushes effs)"
proof -
  let ?con = "stm_handle_reconfig_snapshot ops con"
  note get = stm_snapshot_get [OF bm_wf_distinct [OF wf]]
  have es: "tm_es_ok L N A qid es \<and> st_state es = TS_Following" if "bm_get ?con qid = Some es" for qid es
    using that ok snapshot_es_ok unfolding get tm_ok_def bind_eq_Some_conv by blast
  then have "tm_ok L N A ?con []" using ok by (simp add: tm_ok_def)
  moreover have "distinct (bm_keys ?con)" using bm_wf_distinct [OF stm_snapshot_wf] by (simp add: bm_keys_def)
  ultimately have "tm_ok L (N \<union> tm_sends effs) A con' ([] @ tm_pushes effs)"
    by (rule tm_loop_ok [OF _ h [unfolded stm_handle_lc_def], of _ _ _ _ "\<lambda>es. st_state es = TS_Following"])
      (use es in blast, rule leader_changed_move)
  then show ?thesis by simp
qed

text \<open>An entry that is learned: the state machine that waits for it goes on.\<close>

lemma tm_net_ok_learn:
  assumes "tm_net_ok L N A" and "\<And>k q. (k, q) \<in> L' \<longleftrightarrow> (k, q) \<in> L \<or> (k, q) = key"
    and "\<And>r k q. (r, k, q) \<in> sent_keys N' \<Longrightarrow> (r, k, q) \<in> sent_keys N \<or> (k, q) \<in> L' \<and> (k = K_Prepared \<longrightarrow> (K_Committed, q) \<notin> L')"
    and "fst key = K_Committed \<Longrightarrow> (K_Aborted, snd key) \<notin> L \<and> (\<forall>r. (r, K_Prepared, snd key) \<in> sent_keys N \<longrightarrow> (snd key, r) \<in> A)"
    and "fst key = K_Aborted \<Longrightarrow> (K_Committed, snd key) \<notin> L"
    and "\<And>q pl pl'. (q, pl) \<in> commit_payloads N' \<Longrightarrow> (q, pl') \<in> commit_payloads N' \<Longrightarrow> pl = pl'"
  shows "tm_net_ok L' N' A"
  unfolding tm_net_ok_def
proof (intro conjI allI impI)
  fix r k q assume "(r, k, q) \<in> sent_keys N'"
  with assms(1,2,3) show "(k, q) \<in> L'" unfolding tm_net_ok_def by blast
next
  fix q assume "(K_Committed, q) \<in> L'"
  with assms(1,2,4,5) show "(K_Aborted, q) \<notin> L'" unfolding tm_net_ok_def by (cases key) fastforce
next
  fix q r assume com: "(K_Committed, q) \<in> L'" and "(r, K_Prepared, q) \<in> sent_keys N'"
  with assms(3) have "(r, K_Prepared, q) \<in> sent_keys N" by blast
  with com assms(1,2,4) show "(q, r) \<in> A" unfolding tm_net_ok_def by (cases key) fastforce
qed (rule assms(6))

text \<open>The same for all cases: \<open>es'\<close> is what the state machine becomes, \<open>None\<close> when it exits.\<close>

lemma tm_learn_step:
  assumes ok: "tm_ok L N A con (plm # flying)" and key: "stm_tm_key plm = (k, qid)"
    and con': "\<And>q. bm_get con' q = (if q = qid then m_es else bm_get con q)"
    and es': "\<And>es'. m_es = Some es' \<Longrightarrow> tm_es_ok (insert (k, qid) L) (N \<union> tm_sends effs) A qid es'"
    and sends: "\<And>r k' q. (r, k', q) \<in> sent_keys (tm_sends effs) \<Longrightarrow> q = qid \<and> k' = k \<and> (k = K_Prepared \<longrightarrow> (K_Committed, qid) \<notin> L)"
    and L: "k = K_Committed \<Longrightarrow> (K_Aborted, qid) \<notin> L \<and> (\<forall>r. (r, K_Prepared, qid) \<in> sent_keys N \<longrightarrow> (qid, r) \<in> A)"
      "k = K_Aborted \<Longrightarrow> (K_Committed, qid) \<notin> L"
    and com: "\<And>q pl pl'. (q, pl) \<in> commit_payloads (N \<union> tm_sends effs) \<Longrightarrow> (q, pl') \<in> commit_payloads (N \<union> tm_sends effs) \<Longrightarrow> pl = pl'"
  shows "tm_ok (insert (k, qid) L) (N \<union> tm_sends effs) A con' flying"
  unfolding tm_ok_def
proof (intro conjI allI impI ballI)
  have own: "q = qid" if "(r, k, q) \<in> sent_keys (tm_sends effs)" for r k q using sends that by blast
  fix q x assume x: "bm_get con' q = Some x"
  show "tm_es_ok (insert (k, qid) L) (N \<union> tm_sends effs) A q x"
  proof (cases "q = qid")
    case True
    with x es' show ?thesis by (simp add: con' key)
  next
    case False
    with x ok have "tm_es_ok L N A q x" by (simp add: tm_ok_def con')
    then show ?thesis using False own by (rule_tac tm_es_ok_grow) (auto simp: key dest: commit_payloads_sent)
  qed
next
  show "distinct (map (snd \<circ> stm_tm_key) flying)" using ok by (simp add: tm_ok_def)
  fix p assume p: "p \<in> set flying"
  then have "snd (stm_tm_key p) \<noteq> qid" using ok by (force simp: tm_ok_def key)
  with p ok show "\<exists>x. bm_get con' (snd (stm_tm_key p)) = Some x \<and> awaited (st_state x) = Some (fst (stm_tm_key p))"
    by (simp add: tm_ok_def con')
next
  have net: "tm_net_ok L N A" using ok by (simp add: tm_ok_def)
  show "tm_net_ok (insert (k, qid) L) (N \<union> tm_sends effs) A"
    by (rule tm_net_ok_learn [OF net, of _ "(k, qid)"]) (use key sends L com in \<open>auto\<close>)
qed

lemma tm_learn_prepared:
  assumes ok: "tm_ok L N A con (STM_PreparedPLm qid pl # flying)"
    and h: "stm_handle_plm ops (STM_PreparedPLm qid pl) c con = Some (effs, c', con')"
  shows "tm_ok (insert (K_Prepared, qid) L) (N \<union> tm_sends effs) A con' flying \<and> tm_pushes effs = []"
proof -
  from ok obtain es where es: "bm_get con qid = Some es" and st: "st_state es = TS_InsertTMPreparing"
    by (fastforce simp: tm_ok_def elim: awaited.elims)
  have es_ok: "tm_es_ok L N A qid es" using ok es by (simp add: tm_ok_def)
  then have qid: "st_query_id es = qid" and L: "\<And>k. (k, qid) \<notin> L"
    using st by (auto simp: tm_es_ok_def split: option.splits stm_follower.splits)
  have net: "tm_net_ok L N A" using ok by (simp add: tm_ok_def)
  then have none: "(r, k, qid) \<notin> sent_keys N" for r k using L unfolding tm_net_ok_def by blast
  have com: "pl = pl'" if "(q, pl) \<in> commit_payloads N" "(q, pl') \<in> commit_payloads N" for q pl pl'
    using net that unfolding tm_net_ok_def by blast
  show ?thesis
  proof (cases "stm_tm_is_leader ops c = Some True")
    case True
    with h es st obtain pls i where effs: "effs = map (\<lambda>(rm, pl). To_RM rm (STM_Prepare qid (stm_tm_path ops c') pl)) pls"
      and con': "con' = bm_insert qid (es\<lparr>st_inner := i, st_follower := Some (FS_Preparing pls), st_state := TS_Preparing (bm_keys pls) []\<rparr>) con"
      by (auto simp: stm_handle_plm_def bind_eq_Some_conv stm_tm_put_def stm_handle_prepared_plm_def stm_advance_to_prepared_def qid)
    have sends: "k' = K_Prepared \<and> q = qid \<and> r \<in> fst ` set pls" if "(r, k', q) \<in> sent_keys (tm_sends effs)" for r k' q
      using that by (force simp: effs in_sent_keys)
    have c0: "commit_payloads (tm_sends effs) = {}" by (auto simp: effs commit_payloads_def)
    have "tm_ok (insert (K_Prepared, qid) L) (N \<union> tm_sends effs) A con' flying"
    proof (rule tm_learn_step [OF ok])
      show "bm_get con' q = (if q = qid then Some (es\<lparr>st_inner := i, st_follower := Some (FS_Preparing pls), st_state := TS_Preparing (bm_keys pls) []\<rparr>)
        else bm_get con q)" for q by (simp add: con')
      show "tm_es_ok (insert (K_Prepared, qid) L) (N \<union> tm_sends effs) A qid es'"
        if "Some (es\<lparr>st_inner := i, st_follower := Some (FS_Preparing pls), st_state := TS_Preparing (bm_keys pls) []\<rparr>) = Some es'" for es'
        using that none sends L by (auto simp: tm_es_ok_def qid bm_keys_def)
    qed (use sends L com c0 in \<open>auto\<close>)
    then show ?thesis by (simp add: effs)
  next
    case False
    with h obtain i pls where effs: "effs = []"
      and con': "con' = bm_insert qid ((stm_tm_new qid i)\<lparr>st_follower := Some (FS_Preparing pls), st_state := TS_Following\<rparr>) con"
      by (auto simp: stm_handle_plm_def bind_eq_Some_conv stm_init_follower_def stm_tm_new_def split: if_splits)
    have "tm_ok (insert (K_Prepared, qid) L) (N \<union> tm_sends effs) A con' flying"
    proof (rule tm_learn_step [OF ok])
      show "bm_get con' q = (if q = qid then Some ((stm_tm_new qid i)\<lparr>st_follower := Some (FS_Preparing pls), st_state := TS_Following\<rparr>)
        else bm_get con q)" for q by (simp add: con')
      show "tm_es_ok (insert (K_Prepared, qid) L) (N \<union> tm_sends effs) A qid es'"
        if "Some ((stm_tm_new qid i)\<lparr>st_follower := Some (FS_Preparing pls), st_state := TS_Following\<rparr>) = Some es'" for es'
        using that none L by (auto simp: tm_es_ok_def stm_tm_new_def effs)
    qed (use com L in \<open>auto simp: effs\<close>)
    then show ?thesis by (simp add: effs)
  qed
qed

lemma tm_learn_committed:
  assumes ok: "tm_ok L N A con (STM_CommittedPLm qid pl # flying)"
    and un: "\<And>k i c pls i' c'. stm_committed_plm_inserted ops qid k i c = Some (pls, i', c') \<Longrightarrow> uniform pls"
    and h: "stm_handle_plm ops (STM_CommittedPLm qid pl) c con = Some (effs, c', con')"
  shows "tm_ok (insert (K_Committed, qid) L) (N \<union> tm_sends effs) A con' flying \<and> tm_pushes effs = []"
proof -
  from ok obtain es where es: "bm_get con qid = Some es" and st: "st_state es = TS_InsertingTMCommitted"
    by (fastforce simp: tm_ok_def elim: awaited.elims)
  have es_ok: "tm_es_ok L N A qid es" using ok es by (simp add: tm_ok_def)
  then obtain pls0 where f: "st_follower es = Some (FS_Preparing pls0)"
    using st by (auto simp: tm_es_ok_def split: option.splits stm_follower.splits)
  from es_ok have qid: "st_query_id es = qid" and L: "(K_Committed, qid) \<notin> L" "(K_Aborted, qid) \<notin> L"
    and all: "\<forall>r. (r, K_Prepared, qid) \<in> sent_keys N \<longrightarrow> (qid, r) \<in> A" using st f by (auto simp: tm_es_ok_def)
  have net: "tm_net_ok L N A" using ok by (simp add: tm_ok_def)
  then have none: "(qid, pl) \<notin> commit_payloads N" for pl using L unfolding tm_net_ok_def by (blast dest: commit_payloads_sent)
  from h es st obtain pls i i0 c0 where ins: "stm_committed_plm_inserted ops qid pl i0 c0 = Some (pls, i, c')"
    and effs: "effs = map (\<lambda>(rm, pl). To_RM rm (STM_Commit qid (stm_tm_path ops c') pl)) pls"
    and con': "con' = bm_insert qid (es\<lparr>st_inner := i, st_follower := Some (FS_Committed pls), st_state := TS_Committed (bm_keys pls)\<rparr>) con"
    by (auto simp: stm_handle_plm_def bind_eq_Some_conv stm_tm_put_def stm_handle_committed_plm_def stm_advance_to_committed_def qid)
  have u: "uniform pls" by (rule un [OF ins])
  have sends: "k' = K_Committed \<and> q = qid" if "(r, k', q) \<in> sent_keys (tm_sends effs)" for r k' q
    using that by (force simp: effs in_sent_keys)
  have new: "q = qid \<and> v \<in> snd ` set pls" if "(q, v) \<in> commit_payloads (tm_sends effs)" for q v
    using that by (force simp: effs commit_payloads_def)
  have com: "v = v'" if "(q, v) \<in> commit_payloads (N \<union> tm_sends effs)" "(q, v') \<in> commit_payloads (N \<union> tm_sends effs)" for q v v'
  proof (cases "q = qid")
    case True
    with that none new have "v \<in> snd ` set pls" "v' \<in> snd ` set pls" unfolding commit_payloads_Un by blast+
    with u show ?thesis unfolding uniform_def by blast
  next
    case False
    with that new have "(q, v) \<in> commit_payloads N" "(q, v') \<in> commit_payloads N" unfolding commit_payloads_Un by blast+
    with net show ?thesis unfolding tm_net_ok_def by blast
  qed
  have "\<forall>v. (qid, v) \<in> commit_payloads (N \<union> tm_sends effs) \<longrightarrow> v \<in> snd ` set pls" using none new unfolding commit_payloads_Un by blast
  then have es': "tm_es_ok (insert (K_Committed, qid) L) (N \<union> tm_sends effs) A qid
      (es\<lparr>st_inner := i, st_follower := Some (FS_Committed pls), st_state := TS_Committed (bm_keys pls)\<rparr>)"
    using L u by (simp add: tm_es_ok_def qid)
  have "tm_ok (insert (K_Committed, qid) L) (N \<union> tm_sends effs) A con' flying"
  proof (rule tm_learn_step [OF ok])
    show "bm_get con' q = (if q = qid then Some (es\<lparr>st_inner := i, st_follower := Some (FS_Committed pls), st_state := TS_Committed (bm_keys pls)\<rparr>)
      else bm_get con q)" for q by (simp add: con')
  qed (use es' sends all L com in \<open>auto\<close>)
  then show ?thesis by (simp add: effs)
qed

lemma tm_learn_aborted:
  assumes ok: "tm_ok L N A con (STM_AbortedPLm qid # flying)"
    and h: "stm_handle_plm ops (STM_AbortedPLm qid) c con = Some (effs, c', con')"
  shows "tm_ok (insert (K_Aborted, qid) L) (N \<union> tm_sends effs) A con' flying \<and> tm_pushes effs = []"
proof -
  from ok obtain es where es: "bm_get con qid = Some es" and st: "st_state es = TS_InsertingTMAborted"
    by (fastforce simp: tm_ok_def elim: awaited.elims)
  have es_ok: "tm_es_ok L N A qid es" using ok es by (simp add: tm_ok_def)
  then have qid: "st_query_id es = qid" and L: "(K_Committed, qid) \<notin> L"
    using st by (auto simp: tm_es_ok_def split: option.splits stm_follower.splits)
  have net: "tm_net_ok L N A" using ok by (simp add: tm_ok_def)
  have com: "pl = pl'" if "(q, pl) \<in> commit_payloads N" "(q, pl') \<in> commit_payloads N" for q pl pl'
    using net that unfolding tm_net_ok_def by blast
  from h es st obtain pls i where effs: "effs = map (\<lambda>(rm, _). To_RM rm (STM_Abort qid (stm_tm_path ops c'))) pls"
    and con': "con' = bm_insert qid (es\<lparr>st_inner := i, st_follower := Some (FS_Aborted pls), st_state := TS_Aborted (bm_keys pls)\<rparr>) con"
    by (auto simp: stm_handle_plm_def bind_eq_Some_conv stm_tm_put_def stm_handle_aborted_plm_def stm_advance_to_aborted_def qid)
  have sends: "k' = K_Aborted \<and> q = qid" if "(r, k', q) \<in> sent_keys (tm_sends effs)" for r k' q
    using that by (force simp: effs in_sent_keys)
  have c0: "commit_payloads (tm_sends effs) = {}" by (auto simp: effs commit_payloads_def)
  have es': "tm_es_ok (insert (K_Aborted, qid) L) (N \<union> tm_sends effs) A qid
      (es\<lparr>st_inner := i, st_follower := Some (FS_Aborted pls), st_state := TS_Aborted (bm_keys pls)\<rparr>)"
    using L by (simp add: tm_es_ok_def qid)
  have "tm_ok (insert (K_Aborted, qid) L) (N \<union> tm_sends effs) A con' flying"
  proof (rule tm_learn_step [OF ok])
    show "bm_get con' q = (if q = qid then Some (es\<lparr>st_inner := i, st_follower := Some (FS_Aborted pls), st_state := TS_Aborted (bm_keys pls)\<rparr>)
      else bm_get con q)" for q by (simp add: con')
  qed (use es' sends L com c0 in \<open>auto\<close>)
  then show ?thesis by (simp add: effs)
qed

lemma tm_learn_closed:
  assumes ok: "tm_ok L N A con (STM_ClosedPLm qid pl # flying)"
    and h: "stm_handle_plm ops (STM_ClosedPLm qid pl) c con = Some (effs, c', con')"
  shows "tm_ok (insert (K_Closed, qid) L) (N \<union> tm_sends effs) A con' flying \<and> tm_pushes effs = []"
proof -
  from ok obtain es where es: "bm_get con qid = Some es" and st: "st_state es = TS_InsertingTMClosed"
    by (fastforce simp: tm_ok_def elim: awaited.elims)
  have net: "tm_net_ok L N A" using ok by (simp add: tm_ok_def)
  have com: "pl = pl'" if "(q, pl) \<in> commit_payloads N" "(q, pl') \<in> commit_payloads N" for q pl pl'
    using net that unfolding tm_net_ok_def by blast
  from h es st have effs: "effs = []" and con': "con' = bm_remove qid con"
    by (auto simp: stm_handle_plm_def bind_eq_Some_conv stm_tm_put_def stm_handle_closed_plm_def)
  have "tm_ok (insert (K_Closed, qid) L) (N \<union> tm_sends effs) A con' flying"
  proof (rule tm_learn_step [OF ok, where m_es = None])
    show "bm_get con' q = (if q = qid then None else bm_get con q)" for q by (simp add: con')
  qed (use com in \<open>auto simp: effs\<close>)
  then show ?thesis by (simp add: effs)
qed

lemma tm_learn_ok:
  assumes "tm_ok L N A con (plm # flying)" and "stm_handle_plm ops plm c con = Some (effs, c', con')"
    and "\<And>qid k i c pls i' c'. stm_committed_plm_inserted ops qid k i c = Some (pls, i', c') \<Longrightarrow> uniform pls"
  shows "tm_ok (insert (stm_tm_key plm) L) (N \<union> tm_sends effs) A con' flying \<and> tm_pushes effs = []"
proof (cases plm)
  case (STM_PreparedPLm qid pl)
  with assms(1,2) show ?thesis using tm_learn_prepared by fastforce
next
  case (STM_CommittedPLm qid pl)
  have "tm_ok (insert (K_Committed, qid) L) (N \<union> tm_sends effs) A con' flying \<and> tm_pushes effs = []"
    by (rule tm_learn_committed [OF assms(1) [unfolded STM_CommittedPLm] _ assms(2) [unfolded STM_CommittedPLm]]) (rule assms(3))
  then show ?thesis by (simp add: STM_CommittedPLm)
next
  case (STM_AbortedPLm qid)
  with assms(1,2) show ?thesis using tm_learn_aborted by fastforce
next
  case (STM_ClosedPLm qid pl)
  with assms(1,2) show ?thesis using tm_learn_closed by fastforce
qed

lemma tm_put_wf:
  assumes "stm_tm_put qid con res = Some (effs, c', con')" and "bm_wf con"
  shows "bm_wf con'"
proof -
  from assms(1) obtain es act where "con' = (case act of STM_Wait \<Rightarrow> bm_insert qid es con | STM_Exit \<Rightarrow> bm_remove qid con)"
    by (auto simp: stm_tm_put_def bind_eq_Some_conv)
  with assms(2) show ?thesis by (cases act) simp_all
qed

lemma tm_loop_wf: "stm_tm_loop h qids c con = Some (effs, c', con') \<Longrightarrow> bm_wf con \<Longrightarrow> bm_wf con'"
  by (induction qids arbitrary: c con effs) (auto simp: bind_eq_Some_conv dest: tm_put_wf)

end
