(* ===== verification/Stm_Atomicity.thy ===== *)
theory Stm_Atomicity
  imports Stm_System
begin

text \<open>
  Atomicity of the commit protocol of the schema changes. The locale \<open>stm_app\<close> is the contract of an
  application: all RMs are sent the same commit, an RM logs its part of it, and no callback changes the
  identity of its node. The invariant of the RMs and of the system is kept by every step, and gives the promise.
\<close>

section \<open>The invariant of the RMs\<close>

definition rm_es_ok ::
  "'r \<Rightarrow> (stm_kind \<times> query_id) set \<Rightarrow> ('r \<times> ('m, 'n, 't) stm_rm_message) set \<Rightarrow> query_id \<Rightarrow> ('j, 'q, 'r, 't) stm_rm_outer \<Rightarrow> bool" where
  "rm_es_ok r L N qid es \<longleftrightarrow>
     sr_query_id es = qid \<and>
     (case sr_state es of
        RS_Working \<Rightarrow> True
      | RS_InsertingPrepared \<Rightarrow> True
      | RS_InsertingPreparedAborted \<Rightarrow> (r, K_Aborted, qid) \<in> sent_keys N
      | RS_Prepared p \<Rightarrow> (K_Prepared, qid) \<in> L \<and> sr_follower es = Some p \<and> sp_query_id p = qid \<and> sp_rm p = r
      | _ \<Rightarrow> (K_Prepared, qid) \<in> L \<and> (\<exists>p. sr_follower es = Some p \<and> sp_query_id p = qid \<and> sp_rm p = r))"

definition rm_plm_ok ::
  "('r \<Rightarrow> 'n \<Rightarrow> 'w) \<Rightarrow> 'r \<Rightarrow> ('r \<times> ('m, 'n, 't) stm_rm_message) set \<Rightarrow> ('t, 'u, 'w) stm_rm_plm \<Rightarrow> bool" where
  "rm_plm_ok carry r N plm \<longleftrightarrow>
     (case plm of
        SRM_PreparedPLm _ _ _ \<Rightarrow> True
      | SRM_CommittedPLm qid w \<Rightarrow> \<exists>tm pl. (r, STM_Commit qid tm pl) \<in> N \<and> w = carry r pl
      | SRM_AbortedPLm qid \<Rightarrow> (r, K_Aborted, qid) \<in> sent_keys N)"

text \<open>What a group may rely on, and what it keeps: of its state machines, its log and its replies.\<close>

definition rm_con_ok where
  "rm_con_ok cops r L N con \<longleftrightarrow> (\<forall>qid es. con_get cops qid con = Some (Some es) \<longrightarrow> rm_es_ok r L N qid es)"

definition rm_effs_ok where
  "rm_effs_ok carry r L N effs \<longleftrightarrow>
     (\<forall>plm \<in> set (rm_pushes effs). rm_plm_ok carry r N plm) \<and> (\<forall>qid r'. (qid, r') \<in> reported (rm_replies effs) \<longrightarrow> r' = r \<and> (K_Prepared, qid) \<in> L)"

lemma rm_es_ok_grow:
  assumes "rm_es_ok r L N qid es" and "L \<subseteq> L'" and "N \<subseteq> N'"
  shows "rm_es_ok r L' N' qid es"
proof -
  have "(r, K_Aborted, qid) \<in> sent_keys N \<Longrightarrow> (r, K_Aborted, qid) \<in> sent_keys N'" using assms(3) by (auto simp: in_sent_keys)
  with assms(1,2) show ?thesis by (cases "sr_state es") (auto simp: rm_es_ok_def)
qed

lemma rm_con_ok_grow: "rm_con_ok cops r L N con \<Longrightarrow> L \<subseteq> L' \<Longrightarrow> N \<subseteq> N' \<Longrightarrow> rm_con_ok cops r L' N' con"
  by (simp add: rm_con_ok_def) (blast intro: rm_es_ok_grow)

lemma rm_plm_ok_grow: "rm_plm_ok carry r N plm \<Longrightarrow> N \<subseteq> N' \<Longrightarrow> rm_plm_ok carry r N' plm"
  by (auto simp: rm_plm_ok_def in_sent_keys split: stm_rm_plm.splits)

lemma reported_simps [simp]:
  "reported (insert (STM_Prepared p) M) = insert (sp_query_id p, sp_rm p) (reported M)"
  "reported (insert (STM_Closed qid r) M) = reported M"
  by (cases p; auto simp: reported_def)+

lemma rm_effs_ok_simps [simp]:
  "rm_effs_ok carry r L N []"
  "rm_effs_ok carry r L N [Reply_TM tm (STM_Prepared p)] \<longleftrightarrow> sp_rm p = r \<and> (K_Prepared, sp_query_id p) \<in> L"
  "rm_effs_ok carry r L N [Reply_TM tm (STM_Closed qid r')]"
  "rm_effs_ok carry r L N [RM_Push plm] \<longleftrightarrow> rm_plm_ok carry r N plm"
  by (auto simp: rm_effs_ok_def)

text \<open>The contract of an application of the protocol.\<close>

locale stm_app =
  fixes tops :: "('c, 'i, 'p, 'k, 'z, 'm, 'n, 'q, 'r::linorder, 't) stm_tm_inner"
    and rops :: "('d, 'j, 'm, 'n, 'q, 'u, 'w, 'x, 'r) stm_rm_inner"
    and cops :: "('b, ('j, 'q, 'r, 't) stm_rm_outer, 'x) stm_container"
    and carry :: "'r \<Rightarrow> 'n \<Rightarrow> 'w"
  assumes commits_uniform: "stm_committed_plm_inserted tops qid k i c = Some (pls, i', c') \<Longrightarrow> uniform pls"
    and commits_carried: "srm_mk_committed_plm rops pl j d = Some (w, j', d') \<Longrightarrow> w = carry (srm_node_path rops d) pl"
    and path_new: "srm_inner_new rops m d = Some (j, d') \<Longrightarrow> srm_node_path rops d' = srm_node_path rops d"
    and path_new_follower: "srm_new_follower rops u d = Some (j, d') \<Longrightarrow> srm_node_path rops d' = srm_node_path rops d"
    and path_mk_prepared: "srm_mk_prepared_plm rops j d = Some (mu, j', d') \<Longrightarrow> srm_node_path rops d' = srm_node_path rops d"
    and path_prepared: "srm_prepared_plm_inserted rops j d = Some (q, j', d') \<Longrightarrow> srm_node_path rops d' = srm_node_path rops d"
    and path_mk_committed: "srm_mk_committed_plm rops pl j d = Some (w, j', d') \<Longrightarrow> srm_node_path rops d' = srm_node_path rops d"
    and path_committed: "srm_committed_plm_inserted rops qid w j d = Some (x, j', d') \<Longrightarrow> srm_node_path rops d' = srm_node_path rops d"
    and path_mk_aborted: "srm_mk_aborted_plm rops j d = Some (j', d') \<Longrightarrow> srm_node_path rops d' = srm_node_path rops d"
    and path_aborted: "srm_aborted_plm_inserted rops j d = Some (j', d') \<Longrightarrow> srm_node_path rops d' = srm_node_path rops d"
    and get_put: "sr_query_id es = qid \<Longrightarrow> con_get cops qid' (con_put cops qid es con) = Some (Some es') \<Longrightarrow>
      qid' = qid \<and> es' = es \<or> con_get cops qid' con = Some (Some es')"
    and get_exit: "con_get cops qid' (con_exit cops qid mx con) = Some (Some es') \<Longrightarrow> con_get cops qid' con = Some (Some es')"
begin

text \<open>A step of one state machine, put back into the container.\<close>

definition rm_kept where
  "rm_kept r L N effs d con \<longleftrightarrow> rm_con_ok cops r L N con \<and> rm_effs_ok carry r L N effs \<and> srm_node_path rops d = r"

lemma rm_put_ok:
  assumes "rm_con_ok cops r L N con" and "srm_put cops qid con res = Some (effs, d', con')"
    and "\<And>effs d' es' act. res = Some (effs, d', es', act) \<Longrightarrow>
      (act = SRM_Wait \<longrightarrow> rm_es_ok r L N qid es') \<and> rm_effs_ok carry r L N effs \<and> srm_node_path rops d' = r"
  shows "rm_kept r L N effs d' con'"
proof -
  from assms(2) obtain es' act where res: "res = Some (effs, d', es', act)"
    and con': "con' = (case act of SRM_Wait \<Rightarrow> con_put cops qid es' con | SRM_Exit x \<Rightarrow> con_exit cops qid x con)"
    by (auto simp: srm_put_def bind_eq_Some_conv)
  note ok = assms(3) [OF res]
  have "rm_con_ok cops r L N con'"
  proof (cases act)
    case SRM_Wait
    with ok have es': "rm_es_ok r L N qid es'" by simp
    then have "sr_query_id es' = qid" by (simp add: rm_es_ok_def)
    from get_put [OF this] es' assms(1) show ?thesis by (simp add: rm_con_ok_def con' SRM_Wait) blast
  next
    case (SRM_Exit x)
    with assms(1) show ?thesis by (simp add: rm_con_ok_def con') (blast dest: get_exit)
  qed
  with ok show ?thesis by (simp add: rm_kept_def)
qed

lemma rm_new_ok:
  assumes "rm_con_ok cops r L N con"
  shows "rm_con_ok cops r L N (con_put cops qid (srm_new qid tm i) con)"
proof -
  have es: "rm_es_ok r L N qid (srm_new qid tm i)" "sr_query_id (srm_new qid tm i) = qid" by (simp_all add: rm_es_ok_def srm_new_def)
  with assms get_put [OF es(2)] show ?thesis unfolding rm_con_ok_def by blast
qed

lemma rm_message_ok:
  assumes con: "rm_con_ok cops r L N con" and path: "srm_node_path rops d = r" and msg: "(r, msg) \<in> N"
    and h: "srm_handle_rm_msg rops cops msg d con = Some (effs, d', con')"
  shows "rm_kept r L N effs d' con'"
proof (cases msg)
  case (STM_Prepare qid tm pl)
  with h obtain m_es where g: "con_get cops qid con = Some m_es" by (auto simp: srm_handle_rm_msg_def bind_eq_Some_conv)
  show ?thesis
  proof (cases m_es)
    case None
    with h g STM_Prepare obtain i where "srm_inner_new rops pl d = Some (i, d')" "effs = []" "con' = con_put cops qid (srm_new qid tm i) con"
      by (auto simp: srm_handle_rm_msg_def bind_eq_Some_conv)
    with rm_new_ok [OF con] path_new path show ?thesis by (simp add: rm_kept_def)
  next
    case (Some es)
    with con g have es: "rm_es_ok r L N qid es" by (simp add: rm_con_ok_def)
    from h g Some STM_Prepare have "srm_put cops qid con (srm_handle_prepare d es) = Some (effs, d', con')"
      by (simp add: srm_handle_rm_msg_def)
    then show ?thesis
      by (rule rm_put_ok [OF con]) (use es path in \<open>cases "sr_state es"; auto simp: srm_handle_prepare_def rm_es_ok_def\<close>)
  qed
next
  case (STM_Abort qid tm)
  then have sent: "(r, K_Aborted, qid) \<in> sent_keys N" using msg by (force simp: in_sent_keys)
  from STM_Abort h obtain m_es where g: "con_get cops qid con = Some m_es" by (auto simp: srm_handle_rm_msg_def bind_eq_Some_conv)
  show ?thesis
  proof (cases m_es)
    case None
    with h g STM_Abort con path show ?thesis by (auto simp: srm_handle_rm_msg_def srm_closed_def rm_kept_def)
  next
    case (Some es)
    with con g have es: "rm_es_ok r L N qid es" by (simp add: rm_con_ok_def)
    from h g Some STM_Abort have "srm_put cops qid con (srm_handle_abort rops d es) = Some (effs, d', con')"
      by (simp add: srm_handle_rm_msg_def)
    then show ?thesis
      by (rule rm_put_ok [OF con])
        (use es path sent path_mk_aborted in \<open>cases "sr_state es";
          auto simp: srm_handle_abort_def srm_abort_prepared_def srm_closed_def rm_es_ok_def rm_plm_ok_def bind_eq_Some_conv\<close>)
  qed
next
  case (STM_Commit qid tm pl)
  then have sent: "(r, STM_Commit qid tm pl) \<in> N" using msg by simp
  from STM_Commit h obtain m_es where g: "con_get cops qid con = Some m_es" by (auto simp: srm_handle_rm_msg_def bind_eq_Some_conv)
  show ?thesis
  proof (cases m_es)
    case None
    with h g STM_Commit con path show ?thesis by (auto simp: srm_handle_rm_msg_def srm_closed_def rm_kept_def)
  next
    case (Some es)
    with con g have es: "rm_es_ok r L N qid es" by (simp add: rm_con_ok_def)
    from h g Some STM_Commit have "srm_put cops qid con (srm_handle_commit rops pl d es) = Some (effs, d', con')"
      by (simp add: srm_handle_rm_msg_def)
    then show ?thesis
    proof (rule rm_put_ok [OF con])
      fix effs d' es' act assume "srm_handle_commit rops pl d es = Some (effs, d', es', act)"
      then obtain p w j where st: "sr_state es = RS_Prepared p" and mk: "srm_mk_committed_plm rops pl (sr_inner es) d = Some (w, j, d')"
        and r: "effs = [RM_Push (SRM_CommittedPLm (sr_query_id es) w)]" "es' = es\<lparr>sr_inner := j, sr_state := RS_InsertingCommitted\<rparr>" "act = SRM_Wait"
        by (cases "sr_state es") (auto simp: srm_handle_commit_def bind_eq_Some_conv)
      from es have qid: "sr_query_id es = qid" by (simp add: rm_es_ok_def)
      have "rm_plm_ok carry r N (SRM_CommittedPLm (sr_query_id es) w)"
        using sent path commits_carried [OF mk] by (auto simp: rm_plm_ok_def qid)
      with es st r path path_mk_committed [OF mk]
      show "(act = SRM_Wait \<longrightarrow> rm_es_ok r L N qid es') \<and> rm_effs_ok carry r L N effs \<and> srm_node_path rops d' = r"
        by (simp add: rm_es_ok_def)
    qed
  qed
qed

lemma rm_insert_ok:
  assumes con: "rm_con_ok cops r L N con" and path: "srm_node_path rops d = r" and g: "con_get cops qid con = Some (Some es)"
    and h: "srm_put cops qid con (srm_start_inserting rops d es) = Some (effs, d', con')"
  shows "rm_kept r L N effs d' con'"
proof -
  from con g have es: "rm_es_ok r L N qid es" by (simp add: rm_con_ok_def)
  from h show ?thesis
    by (rule rm_put_ok [OF con])
      (use es path path_mk_prepared in \<open>cases "sr_state es";
        auto simp: srm_start_inserting_def rm_es_ok_def rm_plm_ok_def bind_eq_Some_conv split: option.splits\<close>)
qed

lemma hold_prepared_ok:
  assumes "srm_hold_prepared rops d es = Some (p, d', es')"
  shows "sp_query_id p = sr_query_id es \<and> sp_rm p = srm_node_path rops d \<and> srm_node_path rops d' = srm_node_path rops d \<and>
    sr_follower es' = Some p \<and> sr_query_id es' = sr_query_id es \<and> sr_state es' = sr_state es \<and> sr_tm es' = sr_tm es"
  using assms path_prepared by (auto simp: srm_hold_prepared_def bind_eq_Some_conv Let_def)

lemma rm_learn_prepared:
  assumes con: "rm_con_ok cops r L N con" and path: "srm_node_path rops d = r"
    and h: "srm_handle_rm_plm rops cops (SRM_PreparedPLm qid tm u) d con = Some (effs, d', con')"
  shows "rm_kept r (insert (K_Prepared, qid) L) N effs d' con'"
proof (cases "srm_is_leader rops d = Some True")
  case True
  with h obtain es where g: "con_get cops qid con = Some (Some es)"
    and h': "srm_put cops qid con (srm_handle_prepared_plm rops d es) = Some (effs, d', con')"
    by (auto simp: srm_handle_rm_plm_def bind_eq_Some_conv)
  from con g have es: "rm_es_ok r L N qid es" by (simp add: rm_con_ok_def)
  have con2: "rm_con_ok cops r (insert (K_Prepared, qid) L) N con" by (rule rm_con_ok_grow [OF con]) auto
  from h' show ?thesis
    by (rule rm_put_ok [OF con2])
      (use es path path_mk_aborted in \<open>cases "sr_state es";
        auto simp: srm_handle_prepared_plm_def srm_abort_prepared_def rm_es_ok_def rm_plm_ok_def bind_eq_Some_conv dest!: hold_prepared_ok\<close>)
next
  case False
  with h obtain i d1 es where 1: "srm_new_follower rops u d = Some (i, d1)" "srm_init_follower rops d1 (srm_new qid tm i) = Some (d', es)"
    and r: "effs = []" "con' = con_put cops qid es con"
    by (auto simp: srm_handle_rm_plm_def bind_eq_Some_conv split: if_splits)
  from 1(2) path_new_follower [OF 1(1)] path have es: "rm_es_ok r (insert (K_Prepared, qid) L) N qid es" "srm_node_path rops d' = r"
    by (auto simp: srm_init_follower_def bind_eq_Some_conv rm_es_ok_def srm_new_def dest!: hold_prepared_ok)
  have con2: "rm_con_ok cops r (insert (K_Prepared, qid) L) N con" by (rule rm_con_ok_grow [OF con]) auto
  have "sr_query_id es = qid" using es(1) by (simp add: rm_es_ok_def)
  from es con2 get_put [OF this] have "rm_con_ok cops r (insert (K_Prepared, qid) L) N con'" unfolding rm_con_ok_def r by blast
  with es show ?thesis by (simp add: rm_kept_def r)
qed

lemma rm_learn_ok:
  assumes con: "rm_con_ok cops r L N con" and path: "srm_node_path rops d = r"
    and h: "srm_handle_rm_plm rops cops plm d con = Some (effs, d', con')"
  shows "rm_kept r (insert (srm_key plm) L) N effs d' con'"
proof (cases plm)
  case (SRM_PreparedPLm qid tm u)
  with rm_learn_prepared [OF con path] h show ?thesis by simp
next
  case (SRM_CommittedPLm qid w)
  with h obtain es where g: "con_get cops qid con = Some (Some es)"
    and h': "srm_put cops qid con (srm_handle_committed_plm rops qid w d es) = Some (effs, d', con')"
    by (auto simp: srm_handle_rm_plm_def bind_eq_Some_conv)
  have con2: "rm_con_ok cops r (insert (K_Committed, qid) L) N con" by (rule rm_con_ok_grow [OF con]) auto
  from h' have "rm_kept r (insert (K_Committed, qid) L) N effs d' con'"
    by (rule rm_put_ok [OF con2])
      (use path path_committed in \<open>cases "sr_state es"; auto simp: srm_handle_committed_plm_def srm_closed_def bind_eq_Some_conv\<close>)
  then show ?thesis by (simp add: SRM_CommittedPLm)
next
  case (SRM_AbortedPLm qid)
  with h obtain es where g: "con_get cops qid con = Some (Some es)"
    and h': "srm_put cops qid con (srm_handle_aborted_plm rops d es) = Some (effs, d', con')"
    by (auto simp: srm_handle_rm_plm_def bind_eq_Some_conv)
  have con2: "rm_con_ok cops r (insert (K_Aborted, qid) L) N con" by (rule rm_con_ok_grow [OF con]) auto
  from h' have "rm_kept r (insert (K_Aborted, qid) L) N effs d' con'"
    by (rule rm_put_ok [OF con2])
      (use path path_aborted in \<open>cases "sr_state es"; auto simp: srm_handle_aborted_plm_def srm_closed_def bind_eq_Some_conv\<close>)
  then show ?thesis by (simp add: SRM_AbortedPLm)
qed

lemma rm_takeover_ok:
  assumes con: "rm_con_ok cops r L N con" and t: "srm_taken_over rops cops d con con'"
  shows "rm_con_ok cops r L N con'"
  unfolding rm_con_ok_def
proof (intro allI impI)
  fix qid es' assume "con_get cops qid con' = Some (Some es')"
  with t obtain es snap where g: "con_get cops qid con = Some (Some es)" and sn: "srm_reconfig_snapshot rops es = Some snap"
    and l: "(srm_leader_changed rops d snap :: ('d, 'j, 'q, 'u, 'w, 'x, 'r, 't) stm_rm_res) = Some ([], d, es', SRM_Wait)"
    unfolding srm_taken_over_def by blast
  from con g have es: "rm_es_ok r L N qid es" by (simp add: rm_con_ok_def)
  from sn have snap: "sr_state snap = RS_Follower \<and> sr_follower snap = sr_follower es \<and> sr_query_id snap = sr_query_id es \<and>
    sr_state es \<notin> {RS_Working, RS_InsertingPreparedAborted, RS_InsertingPrepared}"
    by (cases "sr_state es") (auto simp: srm_reconfig_snapshot_def)
  with es have "rm_es_ok r L N qid snap" by (cases "sr_state es") (auto simp: rm_es_ok_def)
  with snap l show "rm_es_ok r L N qid es'" by (auto simp: srm_leader_changed_def rm_es_ok_def bind_eq_Some_conv split: if_splits)
qed

end

section \<open>The invariant of the system\<close>

lemma tm_ok_reported:
  assumes "tm_ok L N A con flying" and "A \<subseteq> A'"
  shows "tm_ok L N A' con flying"
proof -
  have "tm_es_ok L N A' qid es" if "bm_get con qid = Some es" for qid es
    by (rule tm_es_ok_grow [OF _ assms(2)]) (use assms(1) that in \<open>simp_all add: tm_ok_def\<close>)
  moreover have "tm_net_ok L N A'"
  proof -
    have "tm_net_ok L N A" using assms(1) by (simp add: tm_ok_def)
    with assms(2) show ?thesis unfolding tm_net_ok_def by blast
  qed
  ultimately show ?thesis using assms(1) by (simp add: tm_ok_def)
qed

text \<open>A state machine that has logged nothing is created, goes on to its first entry, or is dropped.\<close>

lemma tm_con_change:
  assumes ok: "tm_ok L N A con flying" and con': "\<And>q. bm_get con' q = (if q = qid then m_es else bm_get con q)"
    and es': "\<And>es'. m_es = Some es' \<Longrightarrow> tm_es_ok L N A qid es'" and free: "\<And>plm. plm \<in> set flying \<Longrightarrow> snd (stm_tm_key plm) \<noteq> qid"
  shows "tm_ok L N A con' flying"
  using ok es' free unfolding tm_ok_def con' by auto

lemma flying_free:
  assumes "tm_ok L N A con flying" and "\<And>es. bm_get con qid = Some es \<Longrightarrow> awaited (st_state es) = None" and "plm \<in> set flying"
  shows "snd (stm_tm_key plm) \<noteq> qid"
  using assms unfolding tm_ok_def by fastforce

definition rm_group_ok where
  "rm_group_ok rops cops carry r N g \<longleftrightarrow>
     srm_node_path rops (rg_ctx g) = r \<and> rm_con_ok cops r (srm_key ` set (rg_log g)) N (rg_con g) \<and>
     (\<forall>plm \<in> set (rg_log g) \<union> set (rg_flying g). rm_plm_ok carry r N plm)"

definition stm_sys_ok where
  "stm_sys_ok rops cops carry s \<longleftrightarrow>
     tm_ok (stm_tm_key ` set (tg_log (sys_tm s))) (to_rms s) (reported (to_tm s)) (tg_con (sys_tm s)) (tg_flying (sys_tm s)) \<and>
     bm_wf (tg_con (sys_tm s)) \<and>
     (\<forall>r. rm_group_ok rops cops carry r (to_rms s) (sys_rm s r)) \<and>
     (\<forall>qid r. (qid, r) \<in> reported (to_tm s) \<longrightarrow> (K_Prepared, qid) \<in> srm_key ` set (rg_log (sys_rm s r)))"

lemma rm_group_ok_grow: "rm_group_ok rops cops carry r N g \<Longrightarrow> N \<subseteq> N' \<Longrightarrow> rm_group_ok rops cops carry r N' g"
  unfolding rm_group_ok_def by (blast intro: rm_con_ok_grow rm_plm_ok_grow)

lemma sys_ok_tm:
  assumes "stm_sys_ok rops cops carry s"
    and "tm_ok (stm_tm_key ` set (tg_log g)) (to_rms s \<union> tm_sends effs) (reported (to_tm s)) (tg_con g) (tg_flying g @ tm_pushes effs)"
    and "bm_wf (tg_con g)"
  shows "stm_sys_ok rops cops carry (tm_did effs g s)"
proof -
  have "rm_group_ok rops cops carry r (to_rms s \<union> tm_sends effs) (sys_rm s r)" for r
    by (rule rm_group_ok_grow [of _ _ _ _ "to_rms s"]) (use assms(1) in \<open>simp_all add: stm_sys_ok_def\<close>)
  with assms show ?thesis by (simp add: stm_sys_ok_def tm_did_def)
qed

context stm_app
begin

lemma sys_ok_rm:
  assumes ok: "stm_sys_ok rops cops carry s" and kept: "rm_kept r (srm_key ` set (rg_log g)) (to_rms s) effs (rg_ctx g) (rg_con g)"
    and log: "set (rg_log (sys_rm s r)) \<subseteq> set (rg_log g)"
    and plms: "set (rg_log g) \<union> set (rg_flying g) \<subseteq> set (rg_log (sys_rm s r)) \<union> set (rg_flying (sys_rm s r))"
  shows "stm_sys_ok rops cops carry (rm_did r effs g s)"
proof -
  have r: "rm_group_ok rops cops carry r (to_rms s) (sys_rm s r)" using ok by (simp add: stm_sys_ok_def)
  have "rm_group_ok rops cops carry r (to_rms s) (g\<lparr>rg_flying := rg_flying g @ rm_pushes effs\<rparr>)"
    using r kept plms unfolding rm_group_ok_def rm_kept_def rm_effs_ok_def by auto
  moreover have "(K_Prepared, qid) \<in> srm_key ` set (rg_log ((sys_rm (rm_did r effs g s)) r'))" if "(qid, r') \<in> reported (to_tm s)" for qid r'
  proof -
    have "(K_Prepared, qid) \<in> srm_key ` set (rg_log (sys_rm s r'))" using ok that by (simp add: stm_sys_ok_def)
    then show ?thesis using log by (auto simp: rm_did_def)
  qed
  moreover have "r' = r \<and> (K_Prepared, qid) \<in> srm_key ` set (rg_log g)" if "(qid, r') \<in> reported (rm_replies effs)" for qid r'
    using kept that by (simp add: rm_kept_def rm_effs_ok_def)
  moreover have "tm_ok (stm_tm_key ` set (tg_log (sys_tm s))) (to_rms s) (reported (to_tm s \<union> rm_replies effs)) (tg_con (sys_tm s)) (tg_flying (sys_tm s))"
    by (rule tm_ok_reported) (use ok in \<open>auto simp: stm_sys_ok_def\<close>)
  ultimately show ?thesis using ok unfolding stm_sys_ok_def by (auto simp: rm_did_def)
qed

lemma stm_step_ok:
  assumes "stm_step tops rops cops s s'" and ok: "stm_sys_ok rops cops carry s"
  shows "stm_sys_ok rops cops carry s'"
proof -
  have tm: "tm_ok (stm_tm_key ` set (tg_log (sys_tm s))) (to_rms s) (reported (to_tm s)) (tg_con (sys_tm s)) (tg_flying (sys_tm s))"
    and wf: "bm_wf (tg_con (sys_tm s))" and rm: "\<And>r. rm_group_ok rops cops carry r (to_rms s) (sys_rm s r)"
    using ok by (simp_all add: stm_sys_ok_def)
  have con: "rm_con_ok cops r (srm_key ` set (rg_log (sys_rm s r))) (to_rms s) (rg_con (sys_rm s r))"
    and path: "srm_node_path rops (rg_ctx (sys_rm s r)) = r" for r using rm [of r] by (simp_all add: rm_group_ok_def)
  from assms(1) show ?thesis
  proof cases
    case (tm_context c)
    with ok show ?thesis by (simp add: stm_sys_ok_def)
  next
    case (tm_create qid inner)
    from tm_create(3) have fresh: "\<forall>k. (k, qid) \<notin> stm_tm_key ` set (tg_log (sys_tm s))" by (auto simp: image_iff) (metis snd_conv)
    have "tm_ok (stm_tm_key ` set (tg_log (sys_tm s))) (to_rms s) (reported (to_tm s))
        (bm_insert qid (stm_tm_new qid inner) (tg_con (sys_tm s))) (tg_flying (sys_tm s))"
      by (rule tm_con_change [OF tm, of _ qid "Some (stm_tm_new qid inner)"])
        (use fresh flying_free [OF tm, of qid] tm_create(2) in \<open>auto simp: tm_es_ok_def stm_tm_new_def\<close>)
    with ok show ?thesis by (simp add: stm_sys_ok_def tm_create(1))
  next
    case (tm_advance qid es)
    have "tm_es_ok (stm_tm_key ` set (tg_log (sys_tm s))) (to_rms s) (reported (to_tm s)) qid es" using tm tm_advance(2) by (simp add: tm_ok_def)
    then have es': "tm_es_ok (stm_tm_key ` set (tg_log (sys_tm s))) (to_rms s) (reported (to_tm s)) qid (es\<lparr>st_state := TS_WaitingInsertTMPrepared\<rparr>)"
      using tm_advance(3) by (auto simp: tm_es_ok_def split: option.splits stm_follower.splits)
    have "tm_ok (stm_tm_key ` set (tg_log (sys_tm s))) (to_rms s) (reported (to_tm s))
        (bm_insert qid (es\<lparr>st_state := TS_WaitingInsertTMPrepared\<rparr>) (tg_con (sys_tm s))) (tg_flying (sys_tm s))"
      by (rule tm_con_change [OF tm, of _ qid "Some (es\<lparr>st_state := TS_WaitingInsertTMPrepared\<rparr>)"])
        (use es' flying_free [OF tm, of qid] tm_advance(2,3) in auto)
    with ok show ?thesis by (simp add: stm_sys_ok_def tm_advance(1))
  next
    case (tm_refuse qid es)
    have "snd (stm_tm_key plm) \<noteq> qid" if "plm \<in> set (tg_flying (sys_tm s))" for plm
      by (rule flying_free [OF tm _ that]) (use tm_refuse(2,3) in auto)
    then have "tm_ok (stm_tm_key ` set (tg_log (sys_tm s))) (to_rms s) (reported (to_tm s)) (bm_remove qid (tg_con (sys_tm s))) (tg_flying (sys_tm s))"
      by (intro tm_con_change [OF tm, of _ qid None]) simp_all
    with ok show ?thesis by (simp add: stm_sys_ok_def tm_refuse(1))
  next
    case (tm_message msg effs c con')
    have "bm_wf con'" using tm_message(3) wf by (cases msg) (auto simp: stm_handle_msg_def bind_eq_Some_conv dest: tm_put_wf)
    with tm_message_ok [OF tm tm_message(2,3)] show ?thesis unfolding tm_message(1) by (intro sys_ok_tm [OF ok]) simp_all
  next
    case (tm_insert effs c con')
    have h: "stm_tm_loop (stm_start_inserting tops) (bm_keys (tg_con (sys_tm s))) (tg_ctx (sys_tm s)) (tg_con (sys_tm s)) = Some (effs, c, con')"
      using tm_insert(2) by (simp add: stm_handle_bundle_processed_def)
    have "distinct (bm_keys (tg_con (sys_tm s)))" using bm_wf_distinct [OF wf] by (simp add: bm_keys_def)
    then have "tm_ok (stm_tm_key ` set (tg_log (sys_tm s))) (to_rms s \<union> tm_sends effs) (reported (to_tm s)) con'
        (tg_flying (sys_tm s) @ tm_pushes effs)"
      by (rule tm_loop_ok [OF tm h, of "\<lambda>_. True"]) (simp, rule start_inserting_move)
    with tm_loop_wf [OF h wf] show ?thesis unfolding tm_insert(1) by (intro sys_ok_tm [OF ok]) simp_all
  next
    case (tm_remote_leader change effs c con')
    have h: "stm_tm_loop (stm_remote_leader_changed tops change) (bm_keys (tg_con (sys_tm s))) (tg_ctx (sys_tm s)) (tg_con (sys_tm s)) = Some (effs, c, con')"
      using tm_remote_leader(2) by (simp add: stm_handle_rlc_def)
    have "distinct (bm_keys (tg_con (sys_tm s)))" using bm_wf_distinct [OF wf] by (simp add: bm_keys_def)
    then have "tm_ok (stm_tm_key ` set (tg_log (sys_tm s))) (to_rms s \<union> tm_sends effs) (reported (to_tm s)) con'
        (tg_flying (sys_tm s) @ tm_pushes effs)"
      by (rule tm_loop_ok [OF tm h, of "\<lambda>_. True"]) (simp, rule remote_leader_changed_move)
    with tm_loop_wf [OF h wf] show ?thesis unfolding tm_remote_leader(1) by (intro sys_ok_tm [OF ok]) simp_all
  next
    case (tm_learn plm plms effs c con')
    have "bm_wf con'" using tm_learn(3) wf
      by (cases plm) (auto simp: stm_handle_plm_def bind_eq_Some_conv dest: tm_put_wf split: if_splits)
    with tm_learn_ok [OF tm [unfolded tm_learn(2)] tm_learn(3) commits_uniform] show ?thesis
      unfolding tm_learn(1) by (intro sys_ok_tm [OF ok]) simp_all
  next
    case (tm_takeover c effs c' con')
    have h: "stm_tm_loop (stm_leader_changed tops) (bm_keys (stm_handle_reconfig_snapshot tops (tg_con (sys_tm s)))) c
        (stm_handle_reconfig_snapshot tops (tg_con (sys_tm s))) = Some (effs, c', con')"
      using tm_takeover(2) by (simp add: stm_handle_lc_def)
    from tm_takeover_ok [OF tm wf tm_takeover(2)] tm_loop_wf [OF h stm_snapshot_wf] show ?thesis
      unfolding tm_takeover(1) by (intro sys_ok_tm [OF ok]) simp_all
  next
    case (rm_context d r con')
    from con [of r] rm_context(3) have "rm_con_ok cops r (srm_key ` set (rg_log (sys_rm s r))) (to_rms s) con'"
      by (simp add: rm_con_ok_def srm_others_def)
    with ok rm [of r] rm_context(2) show ?thesis unfolding stm_sys_ok_def rm_context(1) by (auto simp: rm_group_ok_def)
  next
    case (rm_message r msg effs d con')
    from rm_message_ok [OF con path rm_message(2,3)] show ?thesis unfolding rm_message(1) by (intro sys_ok_rm [OF ok]) simp_all
  next
    case (rm_insert qid r es effs d con')
    from rm_insert_ok [OF con path rm_insert(2,3)] show ?thesis unfolding rm_insert(1) by (intro sys_ok_rm [OF ok]) simp_all
  next
    case (rm_learn r plm plms effs d con')
    from rm_learn_ok [OF con path rm_learn(3)] show ?thesis unfolding rm_learn(1)
      by (intro sys_ok_rm [OF ok]) (auto simp: rm_learn(2))
  next
    case (rm_takeover d r con')
    from rm_takeover_ok [OF con rm_takeover(3)] ok rm [of r] rm_takeover(2) show ?thesis
      unfolding stm_sys_ok_def rm_takeover(1) by (auto simp: rm_group_ok_def)
  qed
qed

lemma stm_init_ok: "stm_init rops cops s \<Longrightarrow> stm_sys_ok rops cops carry s"
  by (simp add: stm_init_def stm_sys_ok_def tm_ok_def tm_net_ok_def rm_group_ok_def rm_con_ok_def)

lemma stm_reachable_ok:
  assumes "stm_reachable tops rops cops s"
  shows "stm_sys_ok rops cops carry s"
proof -
  from assms obtain s0 where "stm_init rops cops s0" and run: "(stm_step tops rops cops)\<^sup>*\<^sup>* s0 s" unfolding stm_reachable_def by blast
  from run stm_init_ok [OF this(1)] show ?thesis by (induction rule: rtranclp_induct) (blast intro: stm_step_ok)+
qed

lemma sys_ok_atomic:
  assumes ok: "stm_sys_ok rops cops carry s"
  shows "stm_atomic carry s"
  unfolding stm_atomic_def
proof (intro allI impI)
  have net: "tm_net_ok (stm_tm_key ` set (tg_log (sys_tm s))) (to_rms s) (reported (to_tm s))"
    using ok by (simp add: stm_sys_ok_def tm_ok_def)
  have plm: "rm_plm_ok carry r (to_rms s) plm" if "plm \<in> set (rg_log (sys_rm s r))" for r plm
    using ok that by (simp add: stm_sys_ok_def rm_group_ok_def)
  fix r qid w assume w: "SRM_CommittedPLm qid w \<in> set (rg_log (sys_rm s r))"
  from plm [OF w] obtain tm pl where pl: "(r, STM_Commit qid tm pl) \<in> to_rms s" "w = carry r pl" by (auto simp: rm_plm_ok_def)
  then have "(r, K_Committed, qid) \<in> sent_keys (to_rms s)" by (force simp: in_sent_keys)
  with net have com: "(K_Committed, qid) \<in> stm_tm_key ` set (tg_log (sys_tm s))" unfolding tm_net_ok_def by blast
  with net have no: "(K_Aborted, qid) \<notin> stm_tm_key ` set (tg_log (sys_tm s))" unfolding tm_net_ok_def by blast
  have "(K_Aborted, qid) \<notin> srm_key ` set (rg_log (sys_rm s r'))" for r'
  proof
    assume "(K_Aborted, qid) \<in> srm_key ` set (rg_log (sys_rm s r'))"
    then obtain p where p: "p \<in> set (rg_log (sys_rm s r'))" "srm_key p = (K_Aborted, qid)" by force
    from p(2) have "p = SRM_AbortedPLm qid" by (cases p) simp_all
    with plm [OF p(1)] net no show False unfolding tm_net_ok_def rm_plm_ok_def by auto
  qed
  moreover have "w' = carry r' pl" if w': "SRM_CommittedPLm qid w' \<in> set (rg_log (sys_rm s r'))" for r' w'
  proof -
    from plm [OF w'] obtain tm' pl' where "(r', STM_Commit qid tm' pl') \<in> to_rms s" "w' = carry r' pl'" by (auto simp: rm_plm_ok_def)
    moreover have "(qid, pl) \<in> commit_payloads (to_rms s)" "(qid, pl') \<in> commit_payloads (to_rms s)"
      using pl(1) calculation(1) by (auto simp: commit_payloads_def)
    ultimately show ?thesis using net unfolding tm_net_ok_def by blast
  qed
  moreover have "(K_Prepared, qid) \<in> srm_key ` set (rg_log (sys_rm s r'))" if "(r', STM_Prepare qid tm' pl') \<in> to_rms s" for r' tm' pl'
  proof -
    from that have "(r', K_Prepared, qid) \<in> sent_keys (to_rms s)" by (force simp: in_sent_keys)
    with net com have "(qid, r') \<in> reported (to_tm s)" unfolding tm_net_ok_def by blast
    with ok show ?thesis by (simp add: stm_sys_ok_def)
  qed
  ultimately show "(K_Committed, qid) \<in> stm_tm_key ` set (tg_log (sys_tm s)) \<and> (K_Aborted, qid) \<notin> stm_tm_key ` set (tg_log (sys_tm s)) \<and>
      (\<forall>r'. (K_Aborted, qid) \<notin> srm_key ` set (rg_log (sys_rm s r'))) \<and>
      (\<exists>n. \<forall>r' w'. SRM_CommittedPLm qid w' \<in> set (rg_log (sys_rm s r')) \<longrightarrow> w' = carry r' n) \<and>
      (\<forall>r' tm pl. (r', STM_Prepare qid tm pl) \<in> to_rms s \<longrightarrow> (K_Prepared, qid) \<in> srm_key ` set (rg_log (sys_rm s r')))"
    using com no by blast
qed

end

end
