(* ===== verification/Ddl_Tablet.thy ===== *)
theory Ddl_Tablet
  imports Ddl_Master Stm_Atomicity
begin

text \<open>
  The schema changes at the tablets and slaves: the callbacks of the resource managers
  (\<open>src/src/alter_table_rm_es.rs\<close>, \<open>drop_table_rm_es.rs\<close>, \<open>create_table_rm_es.rs\<close>,
  \<open>shard_split_slave_rm_es.rs\<close>, \<open>shard_split_tablet_rm_es.rs\<close>), the containers of their state machines
  (\<open>DDLES\<close> in \<open>src/src/tablet.rs\<close>, the maps of \<open>src/src/slave.rs\<close> and \<open>shard_pending_es.rs\<close>), and what
  the owners do at the end of a state machine, at a change of leadership and for a snapshot. Each of the
  four statements is an instance of the contract \<open>stm_app\<close>.
\<close>

section \<open>Contexts\<close>

text \<open>
  A tablet with the fields that the schema changes read beside those of region isolation, and the context of a slave.
  The next reading of the clock and of the random number generator goes with the context of a tablet.
\<close>

record ddl_tablet =
  td_tablet :: tablet_ctx
  this_table_path :: table_path
  this_sharding_gen :: sharding_gen
  this_tablet_key_range :: tablet_key_range
  sharding_done :: bool
  td_suffix_divisor :: "64 word"

type_synonym tablet_io = "ddl_tablet \<times> timestamp \<times> 64 word"

record slave_ctx =
  sl_this_sid :: slave_group_id
  sl_this_eid :: endpoint_id
  sl_leader_map :: "leader_map versioned_value"
  sl_suffix_divisor :: "64 word"

definition td_node_path :: "ddl_tablet \<Rightarrow> tnode_path" where
  "td_node_path c = (t_this_sid (td_tablet c), t_this_tid (td_tablet c))"

definition pause_ddl :: "ddl_tablet \<Rightarrow> bool" where
  "pause_ddl c \<longleftrightarrow> \<not> sharding_done c"

definition td_cur_timestamp :: "tablet_io \<Rightarrow> timestamp option" where
  "td_cur_timestamp d = cur_timestamp (fst (snd d)) (snd (snd d)) (td_suffix_divisor (fst d))"

definition sl_is_leader :: "slave_ctx \<Rightarrow> bool option" where
  "sl_is_leader c = map_option (\<lambda>lid. lid_eid lid = sl_this_eid c) (bm_get (vv_value (sl_leader_map c)) (SlaveGid (sl_this_sid c)))"

section \<open>\<open>ALTER TABLE\<close>\<close>

record alter_table_rm_inner =
  ar_alter_op :: alter_op
  ar_prepared_timestamp :: timestamp

text \<open>The prepared timestamp lies after all that was read of the column, also by requests that hold or wait for a lock.\<close>

definition alter_rm_new :: "alter_op \<Rightarrow> tablet_io \<Rightarrow> (alter_table_rm_inner \<times> tablet_io) option" where
  "alter_rm_new op d =
     do { now \<leftarrow> td_cur_timestamp d;
          let c = td_tablet (fst d);
          let t = fold (\<lambda>(_, req) t. if col_set_contains (lc_cols req) (ao_col_name op) then max t (lc_timestamp req) else t)
                    (waiting_locked_cols c @ inserting_locked_cols c)
                    (max now (get_lat (val_cols (t_schema c)) (ao_col_name op)));
          prepared \<leftarrow> timestamp_add t (mk_t 1);
          Some (\<lparr>ar_alter_op = op, ar_prepared_timestamp = prepared\<rparr>, d) }"

definition alter_rm_committed ::
  "query_id \<Rightarrow> timestamp \<Rightarrow> alter_table_rm_inner \<Rightarrow> tablet_io \<Rightarrow> (unit \<times> alter_table_rm_inner \<times> tablet_io) option" where
  "alter_rm_committed _ t i d =
     do { let c = td_tablet (fst d);
          cols \<leftarrow> mvm_write (val_cols (t_schema c)) (ao_col_name (ar_alter_op i)) (maybe_col_type (ar_alter_op i)) t;
          Some ((), i, apfst (\<lambda>td. td\<lparr>td_tablet := c\<lparr>t_schema := (t_schema c)\<lparr>val_cols := cols\<rparr>\<rparr>\<rparr>) d) }"

definition alter_rm ::
  "(tablet_io, alter_table_rm_inner, alter_op, timestamp, timestamp, alter_op \<times> timestamp, timestamp, unit, tnode_path) stm_rm_inner" where
  "alter_rm =
     \<lparr>srm_inner_new = alter_rm_new,
      srm_new_follower = (\<lambda>pl d. Some (\<lparr>ar_alter_op = fst pl, ar_prepared_timestamp = snd pl\<rparr>, d)),
      srm_mk_prepared_plm = (\<lambda>i d. Some (if pause_ddl (fst d) then None else Some (ar_alter_op i, ar_prepared_timestamp i), i, d)),
      srm_prepared_plm_inserted = (\<lambda>i d. Some (ar_prepared_timestamp i, i, d)),
      srm_mk_committed_plm = (\<lambda>commit i d. Some (commit, i, d)),
      srm_committed_plm_inserted = alter_rm_committed,
      srm_mk_aborted_plm = (\<lambda>i d. Some (i, d)),
      srm_aborted_plm_inserted = (\<lambda>i d. Some (i, d)),
      srm_inner_snapshot = (\<lambda>i. i),
      srm_node_path = (\<lambda>d. td_node_path (fst d)),
      srm_is_leader = (\<lambda>d. tablet_is_leader (td_tablet (fst d)))\<rparr>"

section \<open>\<open>DROP TABLE\<close>\<close>

text \<open>The inner state and the prepared log entry are the prepared timestamp.\<close>

definition drop_rm_new :: "unit \<Rightarrow> tablet_io \<Rightarrow> (timestamp \<times> tablet_io) option" where
  "drop_rm_new _ d =
     do { now \<leftarrow> td_cur_timestamp d;
          let c = td_tablet (fst d);
          let t = fold (\<lambda>(_, req) t. max t (lc_timestamp req)) (waiting_locked_cols c @ inserting_locked_cols c)
                    (max (max now (get_latest_lat (val_cols (t_schema c)))) (presence_timestamp c));
          prepared \<leftarrow> timestamp_add t (mk_t 1);
          Some (prepared, d) }"

definition drop_rm ::
  "(tablet_io, timestamp, unit, timestamp, timestamp, timestamp, timestamp, timestamp, tnode_path) stm_rm_inner" where
  "drop_rm =
     \<lparr>srm_inner_new = drop_rm_new,
      srm_new_follower = (\<lambda>pl d. Some (pl, d)),
      srm_mk_prepared_plm = (\<lambda>i d. Some (if pause_ddl (fst d) then None else Some i, i, d)),
      srm_prepared_plm_inserted = (\<lambda>i d. Some (i, i, d)),
      srm_mk_committed_plm = (\<lambda>commit i d. Some (commit, i, d)),
      srm_committed_plm_inserted = (\<lambda>_ t i d. Some (t, i, d)),
      srm_mk_aborted_plm = (\<lambda>i d. Some (i, d)),
      srm_aborted_plm_inserted = (\<lambda>i d. Some (i, d)),
      srm_inner_snapshot = (\<lambda>i. i),
      srm_node_path = (\<lambda>d. td_node_path (fst d)),
      srm_is_leader = (\<lambda>d. tablet_is_leader (td_tablet (fst d)))\<rparr>"

section \<open>\<open>CREATE TABLE\<close>\<close>

text \<open>
  \<open>CreateTablePrepare\<close>, \<open>CreateTableRMPrepared\<close> and \<open>CreateTableRMInner\<close> have the same fields. A
  commit makes the context of a new tablet.
\<close>

definition create_tablet_ctx :: "create_table_prepare \<Rightarrow> slave_ctx \<Rightarrow> ddl_tablet" where
  "create_tablet_ctx i c =
     \<lparr>td_tablet =
        \<lparr>t_this_sid = sl_this_sid c, t_this_tid = cr_tablet_group_id i, t_this_eid = sl_this_eid c,
         t_leader_map = vv_value (sl_leader_map c), t_storage = [],
         t_schema = \<lparr>key_cols = cr_key_cols i, val_cols = mvm_init (fold (\<lambda>(col, ct). bm_insert col ct) (cr_val_cols i) [])\<rparr>,
         presence_timestamp = mk_t 0, verifying_writes = [], inserting_prepared_writes = [], prepared_writes = [],
         committed_writes = [], waiting_read_protected = [], inserting_read_protected = [], read_protected = [],
         waiting_locked_cols = [], inserting_locked_cols = [], ms_root_query_map = [], tablet_bundle = []\<rparr>,
      this_table_path = cr_table_path i, this_sharding_gen = 0, this_tablet_key_range = cr_key_range i,
      sharding_done = True, td_suffix_divisor = sl_suffix_divisor c\<rparr>"

definition create_rm ::
  "(slave_ctx, create_table_prepare, create_table_prepare, unit, unit, create_table_prepare, unit, ddl_tablet, slave_group_id) stm_rm_inner" where
  "create_rm =
     \<lparr>srm_inner_new = (\<lambda>pl c. Some (pl, c)),
      srm_new_follower = (\<lambda>pl c. Some (pl, c)),
      srm_mk_prepared_plm = (\<lambda>i c. Some (Some i, i, c)),
      srm_prepared_plm_inserted = (\<lambda>i c. Some ((), i, c)),
      srm_mk_committed_plm = (\<lambda>_ i c. Some ((), i, c)),
      srm_committed_plm_inserted = (\<lambda>_ _ i c. Some (create_tablet_ctx i c, i, c)),
      srm_mk_aborted_plm = (\<lambda>i c. Some (i, c)),
      srm_aborted_plm_inserted = (\<lambda>i c. Some (i, c)),
      srm_inner_snapshot = (\<lambda>i. i),
      srm_node_path = sl_this_sid,
      srm_is_leader = sl_is_leader\<rparr>"

section \<open>The split of a shard\<close>

text \<open>The two kinds of resource managers of a split: the tablet, and the slave that gets the new tablet.\<close>

definition split_slave_rm ::
  "(slave_ctx, unit, unit, shard_split_commit, unit, unit, tablet_group_id, tablet_group_id \<times> query_id, shard_node_path) stm_rm_inner" where
  "split_slave_rm =
     \<lparr>srm_inner_new = (\<lambda>_ c. Some ((), c)),
      srm_new_follower = (\<lambda>_ c. Some ((), c)),
      srm_mk_prepared_plm = (\<lambda>i c. Some (Some (), i, c)),
      srm_prepared_plm_inserted = (\<lambda>i c. Some ((), i, c)),
      srm_mk_committed_plm = (\<lambda>commit i c. Some (st_tid (sc_target_new commit), i, c)),
      srm_committed_plm_inserted = (\<lambda>qid tid i c. Some ((tid, qid), i, c)),
      srm_mk_aborted_plm = (\<lambda>i c. Some (i, c)),
      srm_aborted_plm_inserted = (\<lambda>i c. Some (i, c)),
      srm_inner_snapshot = (\<lambda>i. i),
      srm_node_path = (\<lambda>c. SNP_Slave (sl_this_sid c)),
      srm_is_leader = sl_is_leader\<rparr>"

definition split_tablet_rm ::
  "(ddl_tablet, unit, unit, shard_split_commit, unit, unit, shard_split_commit, st_range, shard_node_path) stm_rm_inner" where
  "split_tablet_rm =
     \<lparr>srm_inner_new = (\<lambda>_ c. Some ((), c)),
      srm_new_follower = (\<lambda>_ c. Some ((), c)),
      srm_mk_prepared_plm = (\<lambda>i c. Some (if pause_ddl c then None else Some (), i, c)),
      srm_prepared_plm_inserted = (\<lambda>i c. Some ((), i, c)),
      srm_mk_committed_plm = (\<lambda>commit i c. Some (commit, i, c)),
      srm_committed_plm_inserted = (\<lambda>_ pl i c.
        Some (sc_target_new pl, i, c\<lparr>this_sharding_gen := sc_sharding_gen pl, this_tablet_key_range := st_key_range (sc_target_old pl)\<rparr>)),
      srm_mk_aborted_plm = (\<lambda>i c. Some (i, c)),
      srm_aborted_plm_inserted = (\<lambda>i c. Some (i, c)),
      srm_inner_snapshot = (\<lambda>i. i),
      srm_node_path = (\<lambda>c. SNP_Tablet (td_node_path c)),
      srm_is_leader = (\<lambda>c. tablet_is_leader (td_tablet c))\<rparr>"

section \<open>The containers\<close>

type_synonym alter_table_rm_es = "(alter_table_rm_inner, timestamp, tnode_path, unit) stm_rm_outer"
type_synonym drop_table_rm_es = "(timestamp, timestamp, tnode_path, unit) stm_rm_outer"
type_synonym create_table_rm_es = "(create_table_prepare, unit, slave_group_id, unit) stm_rm_outer"
type_synonym shard_split_rm_es = "(unit, unit, shard_node_path, unit) stm_rm_outer"

datatype ddles =
    DDLES_None
  | DDLES_Alter alter_table_rm_es
  | DDLES_Drop drop_table_rm_es
  | DDLES_Dropped timestamp
  | DDLES_ShardSplit shard_split_rm_es

text \<open>What the main loop of the tablet reads of it.\<close>

fun ddl_of :: "ddles \<Rightarrow> ddl_es" where
  "ddl_of DDLES_None = DDL_None"
| "ddl_of (DDLES_Alter es) = DDL_Alter (ao_col_name (ar_alter_op (sr_inner es))) (ar_prepared_timestamp (sr_inner es))"
| "ddl_of (DDLES_Drop es) = DDL_Drop (sr_inner es)"
| "ddl_of (DDLES_Dropped t) = DDL_Dropped t"
| "ddl_of (DDLES_ShardSplit _) = DDL_ShardSplit"

definition alter_container :: "(ddles, alter_table_rm_es, unit) stm_container" where
  "alter_container =
     \<lparr>con_get = (\<lambda>qid con. case con of
        DDLES_Alter es \<Rightarrow> if sr_query_id es = qid then Some (Some es) else None
      | DDLES_None \<Rightarrow> Some None
      | _ \<Rightarrow> None),
      con_put = (\<lambda>_ es _. DDLES_Alter es),
      con_exit = (\<lambda>_ _ _. DDLES_None)\<rparr>"

definition drop_container :: "(ddles, drop_table_rm_es, timestamp) stm_container" where
  "drop_container =
     \<lparr>con_get = (\<lambda>qid con. case con of
        DDLES_Drop es \<Rightarrow> if sr_query_id es = qid then Some (Some es) else None
      | DDLES_None \<Rightarrow> Some None
      | DDLES_Dropped _ \<Rightarrow> Some None
      | _ \<Rightarrow> None),
      con_put = (\<lambda>_ es _. DDLES_Drop es),
      con_exit = (\<lambda>_ m_committed_timestamp _. case m_committed_timestamp of Some t \<Rightarrow> DDLES_Dropped t | None \<Rightarrow> DDLES_None)\<rparr>"

definition split_container :: "(ddles, shard_split_rm_es, st_range) stm_container" where
  "split_container =
     \<lparr>con_get = (\<lambda>qid con. case con of
        DDLES_ShardSplit es \<Rightarrow> if sr_query_id es = qid then Some (Some es) else None
      | DDLES_None \<Rightarrow> Some None
      | _ \<Rightarrow> None),
      con_put = (\<lambda>_ es _. DDLES_ShardSplit es),
      con_exit = (\<lambda>_ _ _. DDLES_None)\<rparr>"

text \<open>A change of leadership of the tablet, and the snapshot for a new node.\<close>

definition lc_es ::
  "('c, 'i, 'm, 'n, 'q, 'u, 'w, 'x, 'r) stm_rm_inner \<Rightarrow> 'c \<Rightarrow> (('i, 'q, 'r, 't) stm_rm_outer \<Rightarrow> ddles)
    \<Rightarrow> ('i, 'q, 'r, 't) stm_rm_outer \<Rightarrow> ddles option" where
  "lc_es rops d wrap es =
     do { (_, _, es', act) \<leftarrow> (srm_leader_changed rops d es :: ('c, 'i, 'q, 'u, 'w, 'x, 'r, 't) stm_rm_res);
          Some (case act of SRM_Exit None \<Rightarrow> DDLES_None | _ \<Rightarrow> wrap es') }"

definition ddl_leader_changed :: "tablet_io \<Rightarrow> ddles \<Rightarrow> ddles option" where
  "ddl_leader_changed d ddl =
     (case ddl of
        DDLES_None \<Rightarrow> Some DDLES_None
      | DDLES_Alter es \<Rightarrow> lc_es alter_rm d DDLES_Alter es
      | DDLES_Drop es \<Rightarrow> lc_es drop_rm d DDLES_Drop es
      | DDLES_Dropped t \<Rightarrow> Some (DDLES_Dropped t)
      | DDLES_ShardSplit es \<Rightarrow> lc_es split_tablet_rm (fst d) DDLES_ShardSplit es)"

definition ddl_reconfig_snapshot :: "ddles \<Rightarrow> ddles" where
  "ddl_reconfig_snapshot ddl =
     (case ddl of
        DDLES_None \<Rightarrow> DDLES_None
      | DDLES_Alter es \<Rightarrow> (case srm_reconfig_snapshot alter_rm es of Some es' \<Rightarrow> DDLES_Alter es' | None \<Rightarrow> DDLES_None)
      | DDLES_Drop es \<Rightarrow> (case srm_reconfig_snapshot drop_rm es of Some es' \<Rightarrow> DDLES_Drop es' | None \<Rightarrow> DDLES_None)
      | DDLES_Dropped t \<Rightarrow> DDLES_Dropped t
      | DDLES_ShardSplit es \<Rightarrow> (case srm_reconfig_snapshot split_tablet_rm es of Some es' \<Rightarrow> DDLES_ShardSplit es' | None \<Rightarrow> DDLES_None))"

end
