(* ===== verification/Ddl_Protocol.thy ===== *)
theory Ddl_Protocol
  imports Ddl_Tablet
begin

text \<open>
  The four statements as instances of the commit protocol: the contract \<open>stm_app\<close> is discharged for
  the callbacks and containers of the code, and atomicity follows for each of them.
\<close>

section \<open>The system of a split\<close>

text \<open>
  The resource managers of a split are a slave and a tablet, with callbacks of their own. In the system of
  the protocol a node is one of the two.
\<close>

definition rm_sum ::
  "('c, unit, 'm, 'n, 'q, unit, 'w, 'x, 'r) stm_rm_inner \<Rightarrow> ('d, unit, 'm, 'n, 'q, unit, 'v, 'y, 'r) stm_rm_inner
    \<Rightarrow> ('c + 'd, unit, 'm, 'n, 'q, unit, 'w + 'v, 'x + 'y, 'r) stm_rm_inner" where
  "rm_sum a b =
     \<lparr>srm_inner_new = (\<lambda>pl. case_sum (\<lambda>c. map_option (apsnd Inl) (srm_inner_new a pl c)) (\<lambda>d. map_option (apsnd Inr) (srm_inner_new b pl d))),
      srm_new_follower = (\<lambda>pl. case_sum (\<lambda>c. map_option (apsnd Inl) (srm_new_follower a pl c)) (\<lambda>d. map_option (apsnd Inr) (srm_new_follower b pl d))),
      srm_mk_prepared_plm = (\<lambda>i. case_sum (\<lambda>c. map_option (apsnd (apsnd Inl)) (srm_mk_prepared_plm a i c))
                                           (\<lambda>d. map_option (apsnd (apsnd Inr)) (srm_mk_prepared_plm b i d))),
      srm_prepared_plm_inserted = (\<lambda>i. case_sum (\<lambda>c. map_option (apsnd (apsnd Inl)) (srm_prepared_plm_inserted a i c))
                                                 (\<lambda>d. map_option (apsnd (apsnd Inr)) (srm_prepared_plm_inserted b i d))),
      srm_mk_committed_plm = (\<lambda>pl i. case_sum (\<lambda>c. map_option (map_prod Inl (apsnd Inl)) (srm_mk_committed_plm a pl i c))
                                               (\<lambda>d. map_option (map_prod Inr (apsnd Inr)) (srm_mk_committed_plm b pl i d))),
      srm_committed_plm_inserted = (\<lambda>qid w i e.
        case (w, e) of
          (Inl w, Inl c) \<Rightarrow> map_option (map_prod Inl (apsnd Inl)) (srm_committed_plm_inserted a qid w i c)
        | (Inr v, Inr d) \<Rightarrow> map_option (map_prod Inr (apsnd Inr)) (srm_committed_plm_inserted b qid v i d)
        | _ \<Rightarrow> None),
      srm_mk_aborted_plm = (\<lambda>i. case_sum (\<lambda>c. map_option (apsnd Inl) (srm_mk_aborted_plm a i c)) (\<lambda>d. map_option (apsnd Inr) (srm_mk_aborted_plm b i d))),
      srm_aborted_plm_inserted = (\<lambda>i. case_sum (\<lambda>c. map_option (apsnd Inl) (srm_aborted_plm_inserted a i c))
                                                (\<lambda>d. map_option (apsnd Inr) (srm_aborted_plm_inserted b i d))),
      srm_inner_snapshot = (\<lambda>i. i),
      srm_node_path = case_sum (srm_node_path a) (srm_node_path b),
      srm_is_leader = case_sum (srm_is_leader a) (srm_is_leader b)\<rparr>"

definition con_sum :: "('b, 'o, 'x) stm_container \<Rightarrow> ('e, 'o, 'y) stm_container \<Rightarrow> ('b + 'e, 'o, 'x + 'y) stm_container" where
  "con_sum a b =
     \<lparr>con_get = (\<lambda>qid. case_sum (con_get a qid) (con_get b qid)),
      con_put = (\<lambda>qid es. case_sum (\<lambda>con. Inl (con_put a qid es con)) (\<lambda>con. Inr (con_put b qid es con))),
      con_exit = (\<lambda>qid mx. case_sum
        (\<lambda>con. Inl (con_exit a qid (case mx of Some (Inl x) \<Rightarrow> Some x | _ \<Rightarrow> None) con))
        (\<lambda>con. Inr (con_exit b qid (case mx of Some (Inr y) \<Rightarrow> Some y | _ \<Rightarrow> None) con)))\<rparr>"

abbreviation split_rm where "split_rm \<equiv> rm_sum split_slave_rm split_tablet_rm"
abbreviation split_con where "split_con \<equiv> con_sum (map_container :: (_, _, tablet_group_id \<times> query_id) stm_container) split_container"

text \<open>The part of the commit that a node logs.\<close>

definition split_part :: "shard_node_path \<Rightarrow> shard_split_commit \<Rightarrow> tablet_group_id + shard_split_commit" where
  "split_part r commit = (case r of SNP_Slave _ \<Rightarrow> Inl (st_tid (sc_target_new commit)) | SNP_Tablet _ \<Rightarrow> Inr commit)"

section \<open>The contract holds\<close>

lemma uniform_payloads [simp]: "uniform (mk_payloads pl rms)"
proof -
  have ins: "snd ` set (bm_insert r pl m) \<subseteq> {pl}" if "snd ` set m \<subseteq> {pl}" for r m
    using that by (induction m) auto
  have "snd ` set (fold (\<lambda>rm. bm_insert rm pl) rms m) \<subseteq> {pl}" if "snd ` set m \<subseteq> {pl}" for m
    using that by (induction rms arbitrary: m) (simp_all add: ins)
  from this [of "[]"] show ?thesis by (auto simp: uniform_def mk_payloads_def)
qed

lemma uniform_unit: "uniform (pls :: ('r, unit) btree)"
  by (simp add: uniform_def)

named_theorems ddl_app \<open>the callbacks and containers of the statements\<close>

lemmas [ddl_app] = alter_tm_def drop_tm_def create_tm_def split_tm_def alter_rm_def drop_rm_def create_rm_def
  split_slave_rm_def split_tablet_rm_def alter_container_def drop_container_def split_container_def map_container_def

interpretation alter: stm_app alter_tm alter_rm alter_container "\<lambda>_ t. t"
  by unfold_locales (auto simp: ddl_app alter_committed_def get_payloads_def bind_eq_Some_conv alter_rm_new_def alter_rm_committed_def
      td_node_path_def Let_def split: ddles.splits if_splits)

interpretation drop: stm_app drop_tm drop_rm drop_container "\<lambda>_ t. t"
  by unfold_locales (auto simp: ddl_app drop_committed_def bind_eq_Some_conv drop_rm_new_def td_node_path_def Let_def
      split: ddles.splits if_splits option.splits)

interpretation create: stm_app create_tm create_rm map_container "\<lambda>_ pl. pl"
  by unfold_locales (auto simp: ddl_app uniform_unit split: if_splits)

interpretation split: stm_app split_tm split_rm split_con split_part
  by unfold_locales (auto simp: ddl_app rm_sum_def con_sum_def split_part_def split_committed_def mk_msgs_def bind_eq_Some_conv td_node_path_def
      Let_def split: ddles.splits if_splits sum.splits)

end
