(* ===== verification/Ddl_Theorems.thy ===== *)
theory Ddl_Theorems
  imports Ddl_Protocol
begin

text \<open>
  Atomicity of the schema changes, with a run of the system of \<open>ALTER TABLE\<close> that commits.
\<close>

section \<open>Executable steps\<close>

datatype ('i, 'm, 'n, 'q, 'r, 't) stm_event =
    E_Create query_id 'i
  | E_Advance query_id
  | E_TM_Message "('q, 'r) stm_tm_message"
  | E_TM_Insert
  | E_TM_Learn
  | E_RM_Message 'r "('m, 'n, 't) stm_rm_message"
  | E_RM_Insert 'r query_id
  | E_RM_Learn 'r

fun stm_exec ::
  "('c, 'i, 'p, 'k, 'z, 'm, 'n, 'q, 'r::linorder, 't) stm_tm_inner \<Rightarrow> ('d, 'j, 'm, 'n, 'q, 'u, 'w, 'x, 'r) stm_rm_inner
    \<Rightarrow> ('b, ('j, 'q, 'r, 't) stm_rm_outer, 'x) stm_container \<Rightarrow> ('i, 'm, 'n, 'q, 'r, 't) stm_event
    \<Rightarrow> ('c, 'i, 'p, 'k, 'z, 'm, 'n, 'q, 'r, 't, 'd, 'b, 'u, 'w) stm_sys
    \<Rightarrow> ('c, 'i, 'p, 'k, 'z, 'm, 'n, 'q, 'r, 't, 'd, 'b, 'u, 'w) stm_sys option" where
  "stm_exec tops rops cops (E_Create qid inner) s =
     (if bm_get (tg_con (sys_tm s)) qid = None \<and> (\<forall>plm \<in> set (tg_log (sys_tm s)). snd (stm_tm_key plm) \<noteq> qid)
      then Some (s\<lparr>sys_tm := (sys_tm s)\<lparr>tg_con := bm_insert qid (stm_tm_new qid inner) (tg_con (sys_tm s))\<rparr>\<rparr>) else None)"
| "stm_exec tops rops cops (E_Advance qid) s =
     (case bm_get (tg_con (sys_tm s)) qid of
        Some es \<Rightarrow>
          (case st_state es of
             TS_Start \<Rightarrow>
               Some (s\<lparr>sys_tm := (sys_tm s)\<lparr>tg_con := bm_insert qid (es\<lparr>st_state := TS_WaitingInsertTMPrepared\<rparr>) (tg_con (sys_tm s))\<rparr>\<rparr>)
           | _ \<Rightarrow> None)
      | None \<Rightarrow> None)"
| "stm_exec tops rops cops (E_TM_Message msg) s =
     (if msg \<in> to_tm s
      then case stm_handle_msg tops msg (tg_ctx (sys_tm s)) (tg_con (sys_tm s)) of
             Some (effs, c, con) \<Rightarrow> Some (tm_did effs ((sys_tm s)\<lparr>tg_ctx := c, tg_con := con\<rparr>) s)
           | None \<Rightarrow> None
      else None)"
| "stm_exec tops rops cops E_TM_Insert s =
     (case stm_handle_bundle_processed tops (tg_ctx (sys_tm s)) (tg_con (sys_tm s)) of
        Some (effs, c, con) \<Rightarrow> Some (tm_did effs ((sys_tm s)\<lparr>tg_ctx := c, tg_con := con\<rparr>) s)
      | None \<Rightarrow> None)"
| "stm_exec tops rops cops E_TM_Learn s =
     (case tg_flying (sys_tm s) of
        plm # plms \<Rightarrow>
          (case stm_handle_plm tops plm (tg_ctx (sys_tm s)) (tg_con (sys_tm s)) of
             Some (effs, c, con) \<Rightarrow>
               Some (tm_did effs ((sys_tm s)\<lparr>tg_ctx := c, tg_con := con, tg_flying := plms, tg_log := tg_log (sys_tm s) @ [plm]\<rparr>) s)
           | None \<Rightarrow> None)
      | [] \<Rightarrow> None)"
| "stm_exec tops rops cops (E_RM_Message r msg) s =
     (if (r, msg) \<in> to_rms s
      then case srm_handle_rm_msg rops cops msg (rg_ctx (sys_rm s r)) (rg_con (sys_rm s r)) of
             Some (effs, d, con) \<Rightarrow> Some (rm_did r effs ((sys_rm s r)\<lparr>rg_ctx := d, rg_con := con\<rparr>) s)
           | None \<Rightarrow> None
      else None)"
| "stm_exec tops rops cops (E_RM_Insert r qid) s =
     (case con_get cops qid (rg_con (sys_rm s r)) of
        Some (Some es) \<Rightarrow>
          (case srm_put cops qid (rg_con (sys_rm s r)) (srm_start_inserting rops (rg_ctx (sys_rm s r)) es) of
             Some (effs, d, con) \<Rightarrow> Some (rm_did r effs ((sys_rm s r)\<lparr>rg_ctx := d, rg_con := con\<rparr>) s)
           | None \<Rightarrow> None)
      | _ \<Rightarrow> None)"
| "stm_exec tops rops cops (E_RM_Learn r) s =
     (case rg_flying (sys_rm s r) of
        plm # plms \<Rightarrow>
          (case srm_handle_rm_plm rops cops plm (rg_ctx (sys_rm s r)) (rg_con (sys_rm s r)) of
             Some (effs, d, con) \<Rightarrow>
               Some (rm_did r effs ((sys_rm s r)\<lparr>rg_ctx := d, rg_con := con, rg_flying := plms, rg_log := rg_log (sys_rm s r) @ [plm]\<rparr>) s)
           | None \<Rightarrow> None)
      | [] \<Rightarrow> None)"

fun stm_execs where
  "stm_execs tops rops cops [] s = Some s"
| "stm_execs tops rops cops (e # es) s =
     (case stm_exec tops rops cops e s of Some s' \<Rightarrow> stm_execs tops rops cops es s' | None \<Rightarrow> None)"

lemma tm_sends_code [code]:
  "tm_sends effs = set (concat (map (\<lambda>eff. case eff of To_RM r msg \<Rightarrow> [(r, msg)] | TM_Push _ \<Rightarrow> []) effs))"
  by (force simp: tm_sends_def split: stm_tm_effect.splits)

lemma rm_replies_code [code]:
  "rm_replies effs = set (concat (map (\<lambda>eff. case eff of Reply_TM _ msg \<Rightarrow> [msg] | RM_Push _ \<Rightarrow> []) effs))"
  by (force simp: rm_replies_def split: stm_rm_effect.splits)

lemma stm_exec_step: "stm_exec tops rops cops e s = Some s' \<Longrightarrow> stm_step tops rops cops s s'"
  by (cases e)
    (auto intro: stm_step.intros split: if_splits option.splits list.splits stm_tm_state.splits)

lemma stm_execs_steps: "stm_execs tops rops cops es s = Some s' \<Longrightarrow> (stm_step tops rops cops)\<^sup>*\<^sup>* s s'"
  by (induction es arbitrary: s)
    (auto split: option.splits intro: stm_exec_step converse_rtranclp_into_rtranclp)

text \<open>The start of a system.\<close>

definition sys_start where
  "sys_start c d b =
     \<lparr>sys_tm = \<lparr>tg_ctx = c, tg_con = [], tg_flying = [], tg_log = []\<rparr>,
      sys_rm = (\<lambda>r. \<lparr>rg_ctx = d r, rg_con = b r, rg_flying = [], rg_log = []\<rparr>), to_rms = {}, to_tm = {}\<rparr>"

lemma sys_start_init:
  "stm_init rops cops (sys_start c d b)" if "\<And>r. srm_node_path rops (d r) = r" and "\<And>r qid es. con_get cops qid (b r) \<noteq> Some (Some es)"
  using that by (simp add: stm_init_def sys_start_def)

lemma stm_run_reachable:
  assumes "stm_init rops cops s0" and "stm_execs tops rops cops es s0 = Some s"
  shows "stm_reachable tops rops cops s"
  using assms stm_execs_steps unfolding stm_reachable_def by blast

section \<open>Leadership changes and snapshots of the tablet\<close>

text \<open>
  What the tablet does with its schema change when another node takes over from a snapshot is what the
  protocol asks of a takeover, for each of the statements.
\<close>

lemma lc_es_result:
  assumes "lc_es rops d wrap es = Some ddl'"
  shows "ddl' = DDLES_None \<or>
    (\<exists>es'. srm_leader_changed rops d es = Some ([], d, es', SRM_Wait) \<and> ddl' = wrap es' \<and> sr_query_id es' = sr_query_id es)"
proof -
  from assms obtain effs d' es' act where lc: "srm_leader_changed rops d es = Some (effs, d', es', act)"
    and ddl': "ddl' = (case act of SRM_Exit None \<Rightarrow> DDLES_None | _ \<Rightarrow> wrap es')"
    by (auto simp: lc_es_def bind_eq_Some_conv)
  from lc have "act = SRM_Exit None \<or> effs = [] \<and> d' = d \<and> act = SRM_Wait \<and> sr_query_id es' = sr_query_id es"
    by (cases "sr_state es") (auto simp: srm_leader_changed_def bind_eq_Some_conv split: if_splits)
  with lc ddl' show ?thesis by auto
qed

lemma snapshot_query_id: "srm_reconfig_snapshot rops es = Some snap \<Longrightarrow> sr_query_id snap = sr_query_id es"
  by (cases "sr_state es") (auto simp: srm_reconfig_snapshot_def)

lemma ddl_takeover:
  assumes "ddl_leader_changed d (ddl_reconfig_snapshot ddl) = Some ddl'"
  shows "srm_taken_over alter_rm alter_container d ddl ddl'" and "srm_taken_over drop_rm drop_container d ddl ddl'"
    and "srm_taken_over split_tablet_rm split_container (fst d) ddl ddl'"
  using assms
  by (auto 4 3 simp: srm_taken_over_def ddl_leader_changed_def ddl_reconfig_snapshot_def alter_container_def drop_container_def split_container_def
      dest: snapshot_query_id split: ddles.splits option.splits if_splits dest!: lc_es_result)

text \<open>Evaluation of the overflow check by binary arithmetic.\<close>

lemma timestamp_add_code [code]:
  "timestamp_add self that =
     (let sum = (ucast (timestamp.suffix self) :: 128 word) + ucast (timestamp.suffix that);
          borrow = (if sum > ucast (- 1 :: 64 word) then 1 else 0 :: 128 word)
      in if uint (time_ms self) + uint (time_ms that) + uint borrow < 2 ^ 128
         then Some (Timestamp (time_ms self + time_ms that + borrow) (ucast sum)) else None)"
proof -
  have nat_int: "x < 2 ^ 128 \<longleftrightarrow> int x < 2 ^ 128" for x :: nat
    using of_nat_less_iff [of x "2 ^ 128", where ?'a = int] by simp
  have "unat a + unat b + unat c < 2 ^ 128 \<longleftrightarrow> uint a + uint b + uint c < 2 ^ 128" for a b c :: "128 word"
    unfolding nat_int by simp
  then show ?thesis by (simp add: timestamp_add_def Let_def)
qed

section \<open>A run of \<open>ALTER TABLE\<close>\<close>

definition dx_eid :: endpoint_id where "dx_eid = EndpointId ''n'' Internal"

definition dx_range :: tablet_key_range where "dx_range = \<lparr>kr_start = None, kr_end = None\<rparr>"

definition dx_leaders :: leader_map where
  "dx_leaders = [(MasterGid, mk_first dx_eid), (SlaveGid ''s'', mk_first dx_eid)]"

definition dx_gossip :: gossip_view where
  "dx_gossip =
     \<lparr>db_schema = [((''t'', 0), \<lparr>key_cols = [(''k'', CT_Int)], val_cols = mvm_new\<rparr>)],
      table_generation = \<lparr>min_lat = mk_t 0, mvm_map = [(''t'', (mk_t 1, [(mk_t 1, Some (0, 0))]))]\<rparr>,
      sharding_config = [((''t'', (0, 0)), [(dx_range, ''tab'')])],
      tablet_address_config = [(''tab'', ''s'')],
      slave_address_config = [(''s'', [dx_eid])],
      master_address_config = [dx_eid]\<rparr>"

definition dx_master :: ddl_master where
  "dx_master =
     \<lparr>dm_ctx = \<lparr>mc_this_eid = dx_eid, mc_leader_map = vv_new dx_leaders, slave_group_size = 3, num_coords = 1\<rparr>,
      dm_gossip = \<lparr>gossip_gen = 0, gossip_get = dx_gossip\<rparr>, external_request_id_map = [(''r'', ''q'')],
      dm_clock = (mk_t 5, 0), timestamp_suffix_divisor = 1, dm_sent = []\<rparr>"

definition dx_slave :: "slave_group_id \<Rightarrow> slave_ctx" where
  "dx_slave sid = \<lparr>sl_this_sid = sid, sl_this_eid = dx_eid, sl_leader_map = vv_new dx_leaders, sl_suffix_divisor = 1\<rparr>"

definition dx_tablet :: "tnode_path \<Rightarrow> ddl_tablet" where
  "dx_tablet r =
     create_tablet_ctx \<lparr>cr_tablet_group_id = snd r, cr_table_path = ''t'', cr_gen = 0, cr_key_range = dx_range,
       cr_key_cols = [(''k'', CT_Int)], cr_val_cols = []\<rparr> (dx_slave (fst r))"

definition dx_op :: alter_op where "dx_op = \<lparr>ao_col_name = ''b'', maybe_col_type = Some CT_Int\<rparr>"

definition dx_rm :: tnode_path where "dx_rm = (''s'', ''tab'')"

definition dx_alter :: alter_table_tm_inner where
  "dx_alter = \<lparr>at_response_data = Some \<lparr>rd_request_id = ''r'', rd_sender_eid = dx_eid\<rparr>, at_table_path = ''t'', at_alter_op = dx_op\<rparr>"

definition dx_run :: "(alter_table_tm_inner, alter_op, timestamp, timestamp, tnode_path, unit) stm_event list" where
  "dx_run =
     [E_Create ''q'' dx_alter, E_Advance ''q'', E_TM_Insert, E_TM_Learn,
      E_RM_Message dx_rm (STM_Prepare ''q'' () dx_op), E_RM_Insert dx_rm ''q'', E_RM_Learn dx_rm,
      E_TM_Message (STM_Prepared \<lparr>sp_query_id = ''q'', sp_rm = dx_rm, sp_payload = mk_t 5\<rparr>), E_TM_Learn,
      E_RM_Message dx_rm (STM_Commit ''q'' () (mk_t 5)), E_RM_Learn dx_rm,
      E_TM_Message (STM_Closed ''q'' dx_rm), E_TM_Learn]"

abbreviation dx_alter_start where
  "dx_alter_start \<equiv> sys_start dx_master (\<lambda>r. (dx_tablet r, mk_t 4, 0)) (\<lambda>_. DDLES_None)"

lemma dx_alter_init: "stm_init alter_rm alter_container dx_alter_start"
  by (rule sys_start_init)
    (simp_all add: alter_rm_def alter_container_def td_node_path_def dx_tablet_def dx_slave_def create_tablet_ctx_def)

lemma dx_run_commits:
  "(case stm_execs alter_tm alter_rm alter_container dx_run dx_alter_start of
      Some s \<Rightarrow> rg_log (sys_rm s dx_rm) = [SRM_PreparedPLm ''q'' () (dx_op, mk_t 5), SRM_CommittedPLm ''q'' (mk_t 5)] \<and>
                tg_con (sys_tm s) = [] \<and> map stm_tm_key (tg_log (sys_tm s)) = [(K_Prepared, ''q''), (K_Committed, ''q''), (K_Closed, ''q'')]
    | None \<Rightarrow> False)"
  by code_simp

section \<open>Atomicity\<close>

text \<open>
  C6: In every reachable state of the system of the master and the tablets or slaves, with lost, delayed,
  duplicated and reordered messages and changes of leadership anywhere, \<open>ALTER TABLE\<close>, \<open>DROP TABLE\<close>, \<open>CREATE TABLE\<close> and the
  split of a shard are atomic: once a resource manager has logged a commit, the master has logged it, no resource
  manager ever logs an abort, all that commit do so with the same timestamp or split, and all that were
  asked to prepare have logged that they did.
\<close>

theorem ddl_statements_atomic:
  "(stm_reachable alter_tm alter_rm alter_container s1 \<longrightarrow> stm_atomic (\<lambda>_ t. t) s1) \<and>
   (stm_reachable drop_tm drop_rm drop_container s2 \<longrightarrow> stm_atomic (\<lambda>_ t. t) s2) \<and>
   (stm_reachable create_tm create_rm map_container s3 \<longrightarrow> stm_atomic (\<lambda>_ pl. pl) s3) \<and>
   (stm_reachable split_tm split_rm split_con s4 \<longrightarrow> stm_atomic split_part s4)"
proof (intro conjI impI)
  show "stm_atomic (\<lambda>_ t. t) s1" if "stm_reachable alter_tm alter_rm alter_container s1"
    by (rule alter.sys_ok_atomic [OF alter.stm_reachable_ok [OF that]])
  show "stm_atomic (\<lambda>_ t. t) s2" if "stm_reachable drop_tm drop_rm drop_container s2"
    by (rule drop.sys_ok_atomic [OF drop.stm_reachable_ok [OF that]])
  show "stm_atomic (\<lambda>_ pl. pl) s3" if "stm_reachable create_tm create_rm map_container s3"
    by (rule create.sys_ok_atomic [OF create.stm_reachable_ok [OF that]])
  show "stm_atomic split_part s4" if "stm_reachable split_tm split_rm split_con s4"
    by (rule split.sys_ok_atomic [OF split.stm_reachable_ok [OF that]])
qed

definition dx_drop_start ::
  "(ddl_master, drop_table_tm_inner, table_path, timestamp, unit, unit, timestamp, timestamp, tnode_path, unit,
    tablet_io, ddles, timestamp, timestamp) stm_sys" where
  "dx_drop_start = sys_start dx_master (\<lambda>r. (dx_tablet r, mk_t 4, 0)) (\<lambda>_. DDLES_None)"

definition dx_create_start ::
  "(ddl_master, create_table_tm_inner, create_table_tm_prepared, unit, timestamp option, create_table_prepare, unit, unit, slave_group_id, unit,
    slave_ctx, (query_id, create_table_rm_es) btree, create_table_prepare, unit) stm_sys" where
  "dx_create_start = sys_start dx_master dx_slave (\<lambda>_. [])"

definition dx_split_start ::
  "(ddl_master, shard_split_tm_inner, shard_split_tm_prepared, unit, timestamp option, unit, shard_split_commit, unit, shard_node_path, unit,
    slave_ctx + ddl_tablet, (query_id, shard_split_rm_es) btree + ddles, unit, tablet_group_id + shard_split_commit) stm_sys" where
  "dx_split_start = sys_start dx_master
     (\<lambda>r. case r of SNP_Slave sid \<Rightarrow> Inl (dx_slave sid) | SNP_Tablet path \<Rightarrow> Inr (dx_tablet path))
     (\<lambda>r. case r of SNP_Slave _ \<Rightarrow> Inl [] | SNP_Tablet _ \<Rightarrow> Inr DDLES_None)"

lemma dx_starts_reachable:
  "stm_reachable drop_tm drop_rm drop_container dx_drop_start"
  "stm_reachable create_tm create_rm map_container dx_create_start"
  "stm_reachable split_tm split_rm split_con dx_split_start"
  unfolding dx_drop_start_def dx_create_start_def dx_split_start_def
  by (rule stm_run_reachable [where es = "[]"], rule sys_start_init;
      simp add: ddl_app rm_sum_def con_sum_def td_node_path_def dx_tablet_def dx_slave_def create_tablet_ctx_def split: shard_node_path.splits)+

theorem ddl_statements_atomic_witness:
  "(\<exists>s. stm_reachable alter_tm alter_rm alter_container s \<and> SRM_CommittedPLm ''q'' (mk_t 5) \<in> set (rg_log (sys_rm s dx_rm)) \<and>
     stm_atomic (\<lambda>_ t. t) s) \<and>
   stm_atomic (\<lambda>_ t. t) dx_drop_start \<and> stm_atomic (\<lambda>_ pl. pl) dx_create_start \<and> stm_atomic split_part dx_split_start"
proof -
  from dx_run_commits obtain s where run: "stm_execs alter_tm alter_rm alter_container dx_run dx_alter_start = Some s"
    and log: "SRM_CommittedPLm ''q'' (mk_t 5) \<in> set (rg_log (sys_rm s dx_rm))"
    by (auto split: option.splits)
  have "stm_reachable alter_tm alter_rm alter_container s" by (rule stm_run_reachable [OF dx_alter_init run])
  with log ddl_statements_atomic [of s dx_drop_start dx_create_start dx_split_start] dx_starts_reachable
  show ?thesis by simp blast
qed

end
