(* ===== verification/Master_Ddl.thy ===== *)
theory Master_Ddl
  imports Ddl_Master
begin

text \<open>
  The part of \<open>src/src/master.rs\<close> that admits schema changes: the requests of externals, the initial
  partition of a new table, cancellation, and the main loop \<open>advance_ddl_sharding_ess\<close> that starts a statement when no other one
  works on its table and its check against the gossip data passes. Parsing is code of another crate and is a
  parameter. The random number generator is a pair of streams, of 32-bit numbers and of tablet ids.
\<close>

section \<open>State\<close>

type_synonym create_table_tm_es = "(create_table_tm_inner, create_table_prepare, unit, unit, slave_group_id) stm_tm_outer"
type_synonym alter_table_tm_es = "(alter_table_tm_inner, alter_op, timestamp, timestamp, tnode_path) stm_tm_outer"
type_synonym drop_table_tm_es = "(drop_table_tm_inner, unit, timestamp, timestamp, tnode_path) stm_tm_outer"
type_synonym shard_split_tm_es = "(shard_split_tm_inner, unit, shard_split_commit, unit, shard_node_path) stm_tm_outer"

record master_statuses =
  create_table_tm_ess :: "(query_id, create_table_tm_es) btree"
  alter_table_tm_ess :: "(query_id, alter_table_tm_es) btree"
  drop_table_tm_ess :: "(query_id, drop_table_tm_es) btree"
  shard_split_tm_ess :: "(query_id, shard_split_tm_es) btree"

section \<open>The checks against the gossip data\<close>

definition contains_col_latest :: "table_schema \<Rightarrow> col_name \<Rightarrow> bool" where
  "contains_col_latest schema col \<longleftrightarrow> lookup_pos (key_cols schema) col \<noteq> None \<or> get_last_version (val_cols schema) col \<noteq> None"

definition create_valid :: "gossip_view \<Rightarrow> create_table_tm_inner \<Rightarrow> bool option" where
  "create_valid gossip i = Some (get_last_version (table_generation gossip) (ct_table_path i) = None)"

definition alter_valid :: "gossip_view \<Rightarrow> alter_table_tm_inner \<Rightarrow> bool option" where
  "alter_valid gossip i =
     (case get_last_version (table_generation gossip) (at_table_path i) of
        Some (gen, _) \<Rightarrow>
          do { schema \<leftarrow> bm_get (db_schema gossip) (at_table_path i, gen);
               let contains_col = contains_col_latest schema (ao_col_name (at_alter_op i));
               let is_add_col = maybe_col_type (at_alter_op i) \<noteq> None;
               Some (lookup_pos (key_cols schema) (ao_col_name (at_alter_op i)) = None \<and>
                     (contains_col \<and> \<not> is_add_col \<or> \<not> contains_col \<and> is_add_col)) }
      | None \<Rightarrow> Some False)"

definition drop_valid :: "gossip_view \<Rightarrow> drop_table_tm_inner \<Rightarrow> bool option" where
  "drop_valid gossip i = Some (get_last_version (table_generation gossip) (dt_table_path i) \<noteq> None)"

definition split_valid :: "gossip_view \<Rightarrow> shard_split_tm_inner \<Rightarrow> bool option" where
  "split_valid gossip i =
     (case get_last_version (table_generation gossip) (ss_table_path i) of
        Some full_gen \<Rightarrow>
          do { shards \<leftarrow> bm_get (sharding_config gossip) (ss_table_path i, full_gen);
               case find (\<lambda>(_, t). t = st_tid (ss_target_old i)) shards of
                 Some (orig_range, _) \<Rightarrow>
                   let old_range = st_key_range (ss_target_old i); new_range = st_key_range (ss_target_new i) in
                   if bm_contains (slave_address_config gossip) (st_sid (ss_target_new i)) \<and>
                      \<not> bm_contains (tablet_address_config gossip) (st_tid (ss_target_new i)) \<and>
                      kr_start orig_range = kr_start old_range \<and> kr_end old_range = kr_start new_range \<and>
                      kr_end new_range = kr_end orig_range
                   then do { schema \<leftarrow> bm_get (db_schema gossip) (ss_table_path i, fst full_gen);
                             Some (is_valid_range_key schema (kr_end old_range) \<and>
                                   (case kr_end old_range of Some split_key \<Rightarrow> range_contains orig_range split_key | None \<Rightarrow> False)) }
                   else Some False
               | None \<Rightarrow> Some False }
      | None \<Rightarrow> Some False)"

section \<open>The main loop\<close>

text \<open>The tables of the state machines beyond \<open>Start\<close>.\<close>

definition add_modified :: "('i \<Rightarrow> table_path) \<Rightarrow> (query_id, ('i, 'm, 'n, 'q, 'r) stm_tm_outer) btree \<Rightarrow> table_path bset \<Rightarrow> table_path bset" where
  "add_modified path ess modified =
     fold (\<lambda>(_, es) acc. case st_state es of TS_Start \<Rightarrow> acc | _ \<Rightarrow> bs_insert (path (st_inner es)) acc) ess modified"

definition tables_being_modified :: "master_statuses \<Rightarrow> table_path bset" where
  "tables_being_modified s =
     add_modified ss_table_path (shard_split_tm_ess s) (add_modified dt_table_path (drop_table_tm_ess s)
       (add_modified at_table_path (alter_table_tm_ess s) (add_modified ct_table_path (create_table_tm_ess s) [])))"

text \<open>One pass over the state machines of one kind: those that start, and the ids of those that are refused.\<close>

fun start_ess ::
  "('i \<Rightarrow> table_path) \<Rightarrow> ('i \<Rightarrow> bool option) \<Rightarrow> (query_id, ('i, 'm, 'n, 'q, 'r) stm_tm_outer) btree \<Rightarrow> table_path bset
    \<Rightarrow> ((query_id, ('i, 'm, 'n, 'q, 'r) stm_tm_outer) btree \<times> query_id list \<times> table_path bset) option" where
  "start_ess path valid [] modified = Some ([], [], modified)"
| "start_ess path valid ((qid, es) # ess) modified =
     (if st_state es = TS_Start \<and> path (st_inner es) \<notin> set modified
      then do { ok \<leftarrow> valid (st_inner es);
                if ok
                then do { (ess', removed, modified') \<leftarrow> start_ess path valid ess (bs_insert (path (st_inner es)) modified);
                          Some ((qid, es\<lparr>st_state := TS_WaitingInsertTMPrepared\<rparr>) # ess', removed, modified') }
                else do { (ess', removed, modified') \<leftarrow> start_ess path valid ess modified;
                          Some ((qid, es) # ess', st_query_id es # removed, modified') } }
      else do { (ess', removed, modified') \<leftarrow> start_ess path valid ess modified;
                Some ((qid, es) # ess', removed, modified') })"

text \<open>\<open>respond_invalid_ddl\<close>, \<open>respond_invalid_sharding\<close> and the removal of the refused.\<close>

definition respond_invalid :: "(endpoint_id \<Rightarrow> request_id \<Rightarrow> master_output) \<Rightarrow> response_data \<Rightarrow> ddl_master \<Rightarrow> ddl_master" where
  "respond_invalid out rd c =
     dm_send (out (rd_sender_eid rd) (rd_request_id rd)) (c\<lparr>external_request_id_map := bm_remove (rd_request_id rd) (external_request_id_map c)\<rparr>)"

fun refuse_ess ::
  "(endpoint_id \<Rightarrow> request_id \<Rightarrow> master_output) \<Rightarrow> ('i \<Rightarrow> response_data option) \<Rightarrow> query_id list
    \<Rightarrow> (query_id, ('i, 'm, 'n, 'q, 'r) stm_tm_outer) btree \<Rightarrow> ddl_master
    \<Rightarrow> ((query_id, ('i, 'm, 'n, 'q, 'r) stm_tm_outer) btree \<times> ddl_master) option" where
  "refuse_ess out response [] ess c = Some (ess, c)"
| "refuse_ess out response (qid # qids) ess c =
     do { es \<leftarrow> bm_get ess qid;
          refuse_ess out response qids (bm_remove qid ess)
            (case response (st_inner es) of Some rd \<Rightarrow> respond_invalid out rd c | None \<Rightarrow> c) }"

definition advance_ess ::
  "(endpoint_id \<Rightarrow> request_id \<Rightarrow> master_output) \<Rightarrow> ('i \<Rightarrow> response_data option) \<Rightarrow> ('i \<Rightarrow> table_path) \<Rightarrow> (gossip_view \<Rightarrow> 'i \<Rightarrow> bool option)
    \<Rightarrow> (query_id, ('i, 'm, 'n, 'q, 'r) stm_tm_outer) btree \<Rightarrow> table_path bset \<Rightarrow> ddl_master
    \<Rightarrow> ((query_id, ('i, 'm, 'n, 'q, 'r) stm_tm_outer) btree \<times> table_path bset \<times> ddl_master) option" where
  "advance_ess out response path valid ess modified c =
     do { (ess1, removed, modified') \<leftarrow> start_ess path (valid (gossip_get (dm_gossip c))) ess modified;
          (ess2, c') \<leftarrow> refuse_ess out response removed ess1 c;
          Some (ess2, modified', c') }"

abbreviation invalid_ddl :: "endpoint_id \<Rightarrow> request_id \<Rightarrow> master_output" where
  "invalid_ddl eid rid \<equiv> ExternalDDLQueryAborted eid rid DA_InvalidDDLQuery"

abbreviation invalid_sharding :: "endpoint_id \<Rightarrow> request_id \<Rightarrow> master_output" where
  "invalid_sharding eid rid \<equiv> ExternalShardingAborted eid rid SA_InvalidShardingOp"

definition advance_ddl_sharding_ess :: "master_statuses \<Rightarrow> ddl_master \<Rightarrow> (master_statuses \<times> ddl_master) option" where
  "advance_ddl_sharding_ess s c =
     do { (creates, m1, c1) \<leftarrow> advance_ess invalid_ddl ct_response_data ct_table_path create_valid (create_table_tm_ess s) (tables_being_modified s) c;
          (alters, m2, c2) \<leftarrow> advance_ess invalid_ddl at_response_data at_table_path alter_valid (alter_table_tm_ess s) m1 c1;
          (drops, m3, c3) \<leftarrow> advance_ess invalid_ddl dt_response_data dt_table_path drop_valid (drop_table_tm_ess s) m2 c2;
          (splits, m4, c4) \<leftarrow> advance_ess invalid_sharding ss_response_data ss_table_path split_valid (shard_split_tm_ess s) m3 c3;
          Some (\<lparr>create_table_tm_ess = creates, alter_table_tm_ess = alters, drop_table_tm_ess = drops, shard_split_tm_ess = splits\<rparr>, c4) }"

section \<open>The initial partition of a table\<close>

record rng =
  rng_u32 :: "nat \<Rightarrow> 32 word"
  rng_tid :: "nat \<Rightarrow> tablet_group_id"

definition next_u32 :: "rng \<Rightarrow> nat \<times> rng" where
  "next_u32 g = (unat (rng_u32 g 0), g\<lparr>rng_u32 := (\<lambda>n. rng_u32 g (Suc n))\<rparr>)"

definition mk_tid :: "rng \<Rightarrow> tablet_group_id \<times> rng" where
  "mk_tid g = (rng_tid g 0, g\<lparr>rng_tid := (\<lambda>n. rng_tid g (Suc n))\<rparr>)"

definition mk_shard ::
  "rng \<Rightarrow> slave_group_id list \<Rightarrow> col_val option \<Rightarrow> col_val option \<Rightarrow> (shard \<times> slave_group_id list \<times> rng) option" where
  "mk_shard g sids start end_key =
     (if sids = [] then None
      else let (n, g1) = next_u32 g;
               idx = n mod length sids;
               (tid, g2) = mk_tid g1
           in Some ((\<lparr>kr_start = start, kr_end = end_key\<rparr>, tid, sids ! idx), take idx sids @ drop (Suc idx) sids, g2))"

text \<open>The shards between the split keys, in order.\<close>

fun mk_shards :: "rng \<Rightarrow> slave_group_id list \<Rightarrow> col_val option \<Rightarrow> col_val list \<Rightarrow> (shard list \<times> rng) option" where
  "mk_shards g sids start [] = do { (shard, _, g') \<leftarrow> mk_shard g sids start None; Some ([shard], g') }"
| "mk_shards g sids start (key # keys) =
     do { (shard, sids', g') \<leftarrow> mk_shard g sids start (Some key);
          (shards, g'') \<leftarrow> mk_shards g' sids' (Some key) keys;
          Some (shard # shards, g'') }"

definition alphabet :: string where
  "alphabet = ''abcdefghijklmnopqrstuvwxyz''"

fun pick_chars :: "nat \<Rightarrow> char list \<Rightarrow> rng \<Rightarrow> char list \<times> rng" where
  "pick_chars 0 chars g = ([], g)"
| "pick_chars (Suc n) chars g =
     (let (k, g1) = next_u32 g; idx = k mod length chars; (picked, g2) = pick_chars n (take idx chars @ drop (Suc idx) chars) g1
      in (chars ! idx # picked, g2))"

definition simple_partition ::
  "gossip_view \<Rightarrow> (col_name \<times> col_type) list \<Rightarrow> rng \<Rightarrow> (shard list \<times> rng) option" where
  "simple_partition gossip kcols g =
     (let sids = bm_keys (slave_address_config gossip) in
      if sids = [] then None
      else case kcols of
        [] \<Rightarrow> mk_shards g sids None []
      | (_, col_type) # _ \<Rightarrow>
          (case col_type of
             CT_Int \<Rightarrow>
               let (n, g1) = next_u32 g; num_shards = min (n mod 2 + 1) (length sids)
               in mk_shards g1 sids None (if num_shards = 1 then [] else [CV_Int 0])
           | CT_Bool \<Rightarrow>
               let (n, g1) = next_u32 g; num_shards = min (n mod 2 + 1) (length sids)
               in mk_shards g1 sids None (if num_shards = 1 then [] else [CV_Bool True])
           | CT_String \<Rightarrow>
               let (n, g1) = next_u32 g; num_shards = min (n mod 4 + 1) (length sids);
                   (split_chars, g2) = pick_chars (num_shards - 1) alphabet g1
               in mk_shards g2 sids None (map (\<lambda>ch. CV_String [ch]) (sort split_chars))))"

section \<open>Requests of externals\<close>

datatype ddl_query =
    Create_Table table_path "(col_name \<times> col_type) list" "(col_name \<times> col_type) list"
  | Alter_Table table_path alter_op
  | Drop_Table table_path

record external_ddl_query =
  eq_sender_eid :: endpoint_id
  eq_request_id :: request_id
  eq_query :: string

text \<open>\<open>parse\<close> stands for the parser and \<open>convert_ddl_ast\<close>; its error is a message.\<close>

definition validate_ddl_query ::
  "(string \<Rightarrow> string + ddl_query) \<Rightarrow> external_ddl_query \<Rightarrow> ddl_master \<Rightarrow> ddl_abort + ddl_query" where
  "validate_ddl_query parse query c =
     (if bm_contains (external_request_id_map c) (eq_request_id query) then Inl DA_NonUniqueRequestId
      else case parse (eq_query query) of Inl err \<Rightarrow> Inl (DA_ParseError err) | Inr ddl_query \<Rightarrow> Inr ddl_query)"

definition map_insert :: "query_id \<Rightarrow> 'v \<Rightarrow> (query_id, 'v) btree \<Rightarrow> (query_id, 'v) btree" where
  "map_insert qid v m = bm_insert qid v m"

definition perform_external_ddl ::
  "(string \<Rightarrow> string + ddl_query) \<Rightarrow> query_id \<Rightarrow> rng \<Rightarrow> external_ddl_query \<Rightarrow> master_statuses \<Rightarrow> ddl_master
    \<Rightarrow> (master_statuses \<times> ddl_master) option" where
  "perform_external_ddl parse qid g query s c =
     (case validate_ddl_query parse query c of
        Inl abort \<Rightarrow> Some (s, dm_send (ExternalDDLQueryAborted (eq_sender_eid query) (eq_request_id query) abort) c)
      | Inr ddl_query \<Rightarrow>
          let c' = dm_send (RequestIdQueryId (eq_request_id query) qid)
                     (c\<lparr>external_request_id_map := bm_insert (eq_request_id query) qid (external_request_id_map c)\<rparr>);
              response = Some \<lparr>rd_request_id = eq_request_id query, rd_sender_eid = eq_sender_eid query\<rparr>
          in case ddl_query of
               Create_Table table kcols vcols \<Rightarrow>
                 do { (shards, _) \<leftarrow> simple_partition (gossip_get (dm_gossip c)) kcols g;
                      Some (s\<lparr>create_table_tm_ess := map_insert qid
                        (stm_tm_new qid \<lparr>ct_response_data = response, ct_table_path = table, ct_key_cols = kcols, ct_val_cols = vcols,
                           ct_shards = shards, ct_did_commit = False\<rparr>) (create_table_tm_ess s)\<rparr>, c') }
             | Alter_Table table op \<Rightarrow>
                 Some (s\<lparr>alter_table_tm_ess := map_insert qid
                   (stm_tm_new qid \<lparr>at_response_data = response, at_table_path = table, at_alter_op = op\<rparr>) (alter_table_tm_ess s)\<rparr>, c')
             | Drop_Table table \<Rightarrow>
                 Some (s\<lparr>drop_table_tm_ess := map_insert qid
                   (stm_tm_new qid \<lparr>dt_response_data = response, dt_table_path = table\<rparr>) (drop_table_tm_ess s)\<rparr>, c'))"

definition perform_external_sharding ::
  "query_id \<Rightarrow> endpoint_id \<Rightarrow> request_id \<Rightarrow> table_path \<Rightarrow> st_range \<Rightarrow> st_range \<Rightarrow> master_statuses \<Rightarrow> ddl_master \<Rightarrow> master_statuses \<times> ddl_master" where
  "perform_external_sharding qid sender_eid request_id table target_old target_new s c =
     (s\<lparr>shard_split_tm_ess := map_insert qid
        (stm_tm_new qid \<lparr>ss_response_data = Some \<lparr>rd_request_id = request_id, rd_sender_eid = sender_eid\<rparr>, ss_table_path = table,
           ss_target_old = target_old, ss_target_new = target_new, ss_did_commit = False\<rparr>) (shard_split_tm_ess s)\<rparr>,
      dm_send (RequestIdQueryId request_id qid) (c\<lparr>external_request_id_map := bm_insert request_id qid (external_request_id_map c)\<rparr>))"

text \<open>A state machine that has not inserted anything yet can be cancelled.\<close>

definition is_early :: "('i, 'm, 'n, 'q, 'r) stm_tm_outer \<Rightarrow> bool" where
  "is_early es \<longleftrightarrow> (case st_state es of TS_Start \<Rightarrow> True | TS_WaitingInsertTMPrepared \<Rightarrow> True | _ \<Rightarrow> False)"

definition cancel_external_ddl :: "endpoint_id \<Rightarrow> request_id \<Rightarrow> master_statuses \<Rightarrow> ddl_master \<Rightarrow> master_statuses \<times> ddl_master" where
  "cancel_external_ddl sender_eid request_id s c =
     (case bm_get (external_request_id_map c) request_id of
        None \<Rightarrow> (s, c)
      | Some qid \<Rightarrow>
          let c1 = c\<lparr>external_request_id_map := bm_remove request_id (external_request_id_map c)\<rparr>;
              c2 = dm_send (ExternalDDLQueryAborted sender_eid request_id DA_CancelConfirmed) c1
          in case bm_get (create_table_tm_ess s) qid of
               Some es \<Rightarrow> if is_early es then (s\<lparr>create_table_tm_ess := bm_remove qid (create_table_tm_ess s)\<rparr>, c2) else (s, c1)
             | None \<Rightarrow>
                 (case bm_get (alter_table_tm_ess s) qid of
                    Some es \<Rightarrow> if is_early es then (s\<lparr>alter_table_tm_ess := bm_remove qid (alter_table_tm_ess s)\<rparr>, c2) else (s, c1)
                  | None \<Rightarrow>
                      (case bm_get (drop_table_tm_ess s) qid of
                         Some es \<Rightarrow> if is_early es then (s\<lparr>drop_table_tm_ess := bm_remove qid (drop_table_tm_ess s)\<rparr>, c2) else (s, c1)
                       | None \<Rightarrow> (s, c1))))"

definition cancel_external_sharding :: "endpoint_id \<Rightarrow> request_id \<Rightarrow> master_statuses \<Rightarrow> ddl_master \<Rightarrow> master_statuses \<times> ddl_master" where
  "cancel_external_sharding sender_eid request_id s c =
     (case bm_get (external_request_id_map c) request_id of
        None \<Rightarrow> (s, c)
      | Some qid \<Rightarrow>
          let c1 = c\<lparr>external_request_id_map := bm_remove request_id (external_request_id_map c)\<rparr>
          in case bm_get (shard_split_tm_ess s) qid of
               Some es \<Rightarrow>
                 if is_early es
                 then (s\<lparr>shard_split_tm_ess := bm_remove qid (shard_split_tm_ess s)\<rparr>,
                       dm_send (ExternalShardingAborted sender_eid request_id SA_NonUniqueRequestId) c1)
                 else (s, c1)
             | None \<Rightarrow> (s, c1))"

end
