(* ===== verification/Master_Exclusion.thy ===== *)
theory Master_Exclusion
  imports Master_Ddl
begin

text \<open>
  At most one schema change works on a table at a time: an invariant of what the leader of the master does
  with its schema changes. The main loop keeps it, changes nothing when it is run again,
  and leaves waiting only what waits for a change of the same table.
\<close>

section \<open>Started state machines\<close>

definition started_ess :: "('i \<Rightarrow> table_path) \<Rightarrow> nat \<Rightarrow> (query_id, ('i, 'm, 'n, 'q, 'r) stm_tm_outer) btree \<Rightarrow> (nat \<times> query_id \<times> table_path) set" where
  "started_ess path k ess = {(k, qid, path (st_inner es)) | qid es. (qid, es) \<in> set ess \<and> st_state es \<noteq> TS_Start}"

definition started :: "master_statuses \<Rightarrow> (nat \<times> query_id \<times> table_path) set" where
  "started s = started_ess ct_table_path 0 (create_table_tm_ess s) \<union> started_ess at_table_path 1 (alter_table_tm_ess s) \<union>
     started_ess dt_table_path 2 (drop_table_tm_ess s) \<union> started_ess ss_table_path 3 (shard_split_tm_ess s)"

definition exclusive :: "(nat \<times> query_id \<times> table_path) set \<Rightarrow> bool" where
  "exclusive S \<longleftrightarrow> (\<forall>x \<in> S. \<forall>y \<in> S. snd (snd x) = snd (snd y) \<longrightarrow> x = y)"

definition tables :: "(nat \<times> query_id \<times> table_path) set \<Rightarrow> table_path set" where
  "tables S = (\<lambda>x. snd (snd x)) ` S"

text \<open>The state machines are kept under their own ids.\<close>

definition keyed :: "(query_id, ('i, 'm, 'n, 'q, 'r) stm_tm_outer) btree \<Rightarrow> bool" where
  "keyed ess \<longleftrightarrow> bm_wf ess \<and> (\<forall>(qid, es) \<in> set ess. st_query_id es = qid)"

definition ddl_keyed :: "master_statuses \<Rightarrow> bool" where
  "ddl_keyed s \<longleftrightarrow> keyed (create_table_tm_ess s) \<and> keyed (alter_table_tm_ess s) \<and> keyed (drop_table_tm_ess s) \<and> keyed (shard_split_tm_ess s)"

text \<open>What may start waits for a table in \<open>T\<close>.\<close>

definition all_wait :: "('i \<Rightarrow> table_path) \<Rightarrow> table_path set \<Rightarrow> (query_id, ('i, 'm, 'n, 'q, 'r) stm_tm_outer) btree \<Rightarrow> bool" where
  "all_wait path T ess \<longleftrightarrow> (\<forall>(qid, es) \<in> set ess. st_state es = TS_Start \<longrightarrow> path (st_inner es) \<in> T)"

lemma started_ess_simps [simp]:
  "started_ess path k [] = {}"
  "started_ess path k ((qid, es) # ess) =
     (if st_state es = TS_Start then started_ess path k ess else insert (k, qid, path (st_inner es)) (started_ess path k ess))"
  by (auto simp: started_ess_def)

lemma tables_simps [simp]: "tables {} = {}" "tables (insert x S) = insert (snd (snd x)) (tables S)" "tables (S \<union> S') = tables S \<union> tables S'"
  by (auto simp: tables_def)

lemma exclusive_subset: "exclusive S \<Longrightarrow> S' \<subseteq> S \<Longrightarrow> exclusive S'"
  unfolding exclusive_def by blast

lemma exclusive_insert: "exclusive S \<Longrightarrow> snd (snd x) \<notin> tables S \<Longrightarrow> exclusive (insert x S)"
  unfolding exclusive_def tables_def by (metis (mono_tags, lifting) image_eqI insertE)

lemma set_add_modified: "set (add_modified path ess modified) = set modified \<union> tables (started_ess path k ess)"
proof (induction ess arbitrary: modified)
  case (Cons e ess)
  then show ?case by (cases e, cases "st_state (snd e)") (auto simp: add_modified_def)
qed (simp add: add_modified_def)

lemma set_tables_being_modified: "set (tables_being_modified s) = tables (started s)"
  unfolding tables_being_modified_def started_def
  by (simp add: set_add_modified [of ct_table_path _ _ 0] set_add_modified [of at_table_path _ _ 1]
      set_add_modified [of dt_table_path _ _ 2] set_add_modified [of ss_table_path _ _ 3])

section \<open>One pass\<close>

lemma start_ess_keys:
  "start_ess path valid ess modified = Some (ess', removed, modified') \<Longrightarrow>
     map fst ess' = map fst ess \<and> (\<forall>e' \<in> set ess'. \<exists>e \<in> set ess. fst e' = fst e \<and> st_query_id (snd e') = st_query_id (snd e)) \<and>
     set modified \<subseteq> set modified'"
  by (induction ess arbitrary: modified ess' removed modified') (fastforce simp: bind_eq_Some_conv split: if_splits prod.splits)+

lemma start_ess_exclusive:
  assumes "start_ess path valid ess modified = Some (ess', removed, modified')"
    and "exclusive (A \<union> started_ess path k ess)" and "tables (A \<union> started_ess path k ess) = set modified"
  shows "exclusive (A \<union> started_ess path k ess') \<and> tables (A \<union> started_ess path k ess') = set modified'"
  using assms
proof (induction ess arbitrary: modified ess' removed modified' A)
  case (Cons e ess)
  obtain qid es where e: "e = (qid, es)" by (cases e)
  let ?path = "path (st_inner es)"
  show ?case
  proof (cases "st_state es = TS_Start \<and> ?path \<notin> set modified \<and> valid (st_inner es) = Some True")
    case True
    with Cons.prems(1) e obtain ess1 where h: "start_ess path valid ess (bs_insert ?path modified) = Some (ess1, removed, modified')"
      and ess': "ess' = (qid, es\<lparr>st_state := TS_WaitingInsertTMPrepared\<rparr>) # ess1" by (auto simp: bind_eq_Some_conv)
    have "exclusive (insert (k, qid, ?path) (A \<union> started_ess path k ess))"
      by (rule exclusive_insert) (use Cons.prems(2,3) True e in auto)
    with Cons.IH [OF h, of "insert (k, qid, ?path) A"] Cons.prems(3) True e ess' show ?thesis by (simp add: insert_commute)
  next
    case False
    with Cons.prems(1) e obtain ess1 removed1 where h: "start_ess path valid ess modified = Some (ess1, removed1, modified')"
      and ess': "ess' = (qid, es) # ess1" by (auto simp: bind_eq_Some_conv split: if_splits)
    show ?thesis
    proof (cases "st_state es = TS_Start")
      case True
      with Cons.IH [OF h, of A] Cons.prems e ess' show ?thesis by simp
    next
      case False
      with Cons.IH [OF h, of "insert (k, qid, ?path) A"] Cons.prems e ess' show ?thesis by simp
    qed
  qed
qed simp

lemma all_wait_simps [simp]:
  "all_wait path T []"
  "all_wait path T ((qid, es) # ess) \<longleftrightarrow> (st_state es = TS_Start \<longrightarrow> path (st_inner es) \<in> T) \<and> all_wait path T ess"
  by (simp_all add: all_wait_def)

lemma all_wait_filter: "all_wait path T ess \<Longrightarrow> all_wait path T (filter P ess)"
  by (auto simp: all_wait_def)

lemma start_ess_cases:
  assumes "start_ess path valid ((qid, es) # ess) modified = Some (ess', removed, modified')"
  obtains (waits) ess1 where "start_ess path valid ess modified = Some (ess1, removed, modified')" "ess' = (qid, es) # ess1"
      "st_state es = TS_Start \<longrightarrow> path (st_inner es) \<in> set modified"
  | (refused) ess1 removed1 where "start_ess path valid ess modified = Some (ess1, removed1, modified')" "ess' = (qid, es) # ess1"
      "removed = st_query_id es # removed1" "st_state es = TS_Start"
  | (starts) ess1 where "start_ess path valid ess (bs_insert (path (st_inner es)) modified) = Some (ess1, removed, modified')"
      "ess' = (qid, es\<lparr>st_state := TS_WaitingInsertTMPrepared\<rparr>) # ess1" "path (st_inner es) \<notin> set modified"
      "st_state es = TS_Start" "valid (st_inner es) = Some True"
  using assms by (auto simp: bind_eq_Some_conv split: if_splits)

lemma start_ess_wait:
  assumes "start_ess path valid ess modified = Some (ess', removed, modified')" and "\<forall>(qid, es) \<in> set ess. st_query_id es = qid"
  shows "all_wait path (set modified') (filter (\<lambda>e. fst e \<notin> set removed) ess')"
  using assms
proof (induction ess arbitrary: modified ess' removed modified')
  case (Cons e ess)
  obtain qid es where e: "e = (qid, es)" by (cases e)
  from Cons.prems(1) [unfolded e] show ?case
  proof (cases rule: start_ess_cases)
    case (waits ess1)
    with Cons.IH [OF waits(1)] Cons.prems(2) start_ess_keys [OF waits(1)] show ?thesis by auto
  next
    case (refused ess1 removed1)
    with Cons.IH [OF refused(1)] Cons.prems(2) e have "all_wait path (set modified') (filter (\<lambda>e. fst e \<notin> set removed1) ess1)" by simp
    then have "all_wait path (set modified') (filter (\<lambda>e. fst e \<noteq> qid) (filter (\<lambda>e. fst e \<notin> set removed1) ess1))" by (rule all_wait_filter)
    with refused Cons.prems(2) e show ?thesis by (simp add: conj_commute)
  next
    case (starts ess1)
    with Cons.IH [OF starts(1)] Cons.prems(2) show ?thesis by simp
  qed
qed simp

lemma start_ess_removed:
  assumes "start_ess path valid ess modified = Some (ess', removed, modified')" and "\<forall>(qid, es) \<in> set ess. st_query_id es = qid"
    and "distinct (map fst ess)"
  shows "distinct removed \<and> (\<forall>qid \<in> set removed. \<exists>es. (qid, es) \<in> set ess' \<and> (qid, es) \<in> set ess \<and> st_state es = TS_Start)"
  using assms
proof (induction ess arbitrary: modified ess' removed modified')
  case (Cons e ess)
  obtain qid es where e: "e = (qid, es)" by (cases e)
  from Cons.prems(1) [unfolded e] show ?case
  proof (cases rule: start_ess_cases)
    case (waits ess1)
    with Cons.IH [OF waits(1)] Cons.prems(2,3) show ?thesis by auto
  next
    case (refused ess1 removed1)
    with Cons.IH [OF refused(1)] Cons.prems(2,3) e show ?thesis by auto force
  next
    case (starts ess1)
    with Cons.IH [OF starts(1)] Cons.prems(2,3) show ?thesis by auto
  qed
qed simp

lemma refuse_ess_filter:
  assumes "refuse_ess out response removed ess c = Some (ess', c')"
  shows "ess' = filter (\<lambda>e. fst e \<notin> set removed) ess \<and> dm_gossip c' = dm_gossip c"
  using assms
proof (induction removed arbitrary: ess c)
  case (Cons qid qids)
  from Cons.prems obtain c1 where h: "refuse_ess out response qids (bm_remove qid ess) c1 = Some (ess', c')" and c1: "dm_gossip c1 = dm_gossip c"
    by (fastforce simp: bind_eq_Some_conv respond_invalid_def dm_send_def split: option.splits)
  from Cons.IH [OF h] c1 show ?case by (auto simp: bm_remove_def intro!: filter_cong)
qed simp

lemma refuse_ess_returns:
  assumes "set removed \<subseteq> fst ` set ess" and "distinct removed"
  shows "\<exists>r. refuse_ess out response removed ess c = Some r"
  using assms
proof (induction removed arbitrary: ess c)
  case (Cons qid qids)
  then obtain es where "bm_get ess qid = Some es" by (cases "bm_get ess qid") (auto simp: map_of_eq_None_iff)
  moreover have "set qids \<subseteq> fst ` set (bm_remove qid ess)" using Cons.prems by (force simp: bm_remove_def)
  ultimately show ?case using Cons by simp
qed simp

lemma keyed_distinct: "keyed ess \<Longrightarrow> distinct (map fst ess)"
  by (auto simp: keyed_def bm_wf_def strict_sorted_iff)

lemma started_filter:
  assumes "\<forall>qid \<in> set removed. \<exists>es. (qid, es) \<in> set ess \<and> st_state es = TS_Start" and "distinct (map fst ess)"
  shows "started_ess path k (filter (\<lambda>e. fst e \<notin> set removed) ess) = started_ess path k ess"
proof -
  have "fst e \<notin> set removed" if "e \<in> set ess" "st_state (snd e) \<noteq> TS_Start" for e
    using assms that by (metis eq_key_imp_eq_value prod.collapse)
  then show ?thesis by (fastforce simp: started_ess_def)
qed

lemma advance_ess_ok:
  assumes h: "advance_ess out response path valid ess modified c = Some (ess', modified', c')" and k: "keyed ess"
    and ex: "exclusive (A \<union> started_ess path k ess)" and t: "tables (A \<union> started_ess path k ess) = set modified"
  shows "keyed ess' \<and> exclusive (A \<union> started_ess path k ess') \<and> tables (A \<union> started_ess path k ess') = set modified' \<and>
    all_wait path (set modified') ess' \<and> set modified \<subseteq> set modified' \<and> dm_gossip c' = dm_gossip c \<and> fst ` set ess' \<subseteq> fst ` set ess"
proof -
  from h obtain ess1 removed where st: "start_ess path (valid (gossip_get (dm_gossip c))) ess modified = Some (ess1, removed, modified')"
    and re: "refuse_ess out response removed ess1 c = Some (ess', c')"
    by (auto simp: advance_ess_def bind_eq_Some_conv)
  have ids: "\<forall>(qid, es) \<in> set ess. st_query_id es = qid" and wf: "bm_wf ess" using k by (simp_all add: keyed_def)
  note keys = start_ess_keys [OF st]
  have k1: "keyed ess1" using keys ids wf by (force simp: keyed_def bm_wf_def)
  have ess': "ess' = filter (\<lambda>e. fst e \<notin> set removed) ess1" and g: "dm_gossip c' = dm_gossip c" using refuse_ess_filter [OF re] by simp_all
  have "keyed ess'" using k1 unfolding ess' keyed_def bm_wf_def sorted_wrt_map by (simp add: sorted_wrt_filter)
  moreover have "started_ess path k ess' = started_ess path k ess1"
    unfolding ess' using start_ess_removed [OF st ids keyed_distinct [OF k]] keyed_distinct [OF k1] by (intro started_filter) auto
  moreover have "fst ` set ess' \<subseteq> fst ` set ess" using keys unfolding ess' by fastforce
  ultimately show ?thesis
    using start_ess_exclusive [OF st ex t] start_ess_wait [OF st ids] keys g by (simp flip: ess')
qed

lemma advance_ess_idle:
  assumes "all_wait path (set modified) ess"
  shows "advance_ess out response path valid ess modified c = Some (ess, modified, c)"
proof -
  from assms have "start_ess path (valid (gossip_get (dm_gossip c))) ess modified = Some (ess, [], modified)"
    by (induction ess) (auto simp: all_wait_def)
  then show ?thesis by (simp add: advance_ess_def)
qed

section \<open>The whole loop\<close>

definition ddl_waits :: "master_statuses \<Rightarrow> bool" where
  "ddl_waits s \<longleftrightarrow>
     all_wait ct_table_path (tables (started s)) (create_table_tm_ess s) \<and> all_wait at_table_path (tables (started s)) (alter_table_tm_ess s) \<and>
     all_wait dt_table_path (tables (started s)) (drop_table_tm_ess s) \<and> all_wait ss_table_path (tables (started s)) (shard_split_tm_ess s)"

lemma all_wait_mono: "all_wait path T ess \<Longrightarrow> T \<subseteq> T' \<Longrightarrow> all_wait path T' ess"
  by (auto simp: all_wait_def)

text \<open>One of the four passes, seen from the whole.\<close>

lemma pass_ok:
  assumes h: "advance_ess out response path valid ess modified c = Some (ess', modified', c')" and k: "keyed ess"
    and ex: "exclusive S" and t: "tables S = set modified" and S: "S = A \<union> started_ess path k ess"
  obtains "keyed ess'" "exclusive (A \<union> started_ess path k ess')" "tables (A \<union> started_ess path k ess') = set modified'"
    "all_wait path (set modified') ess'" "set modified \<subseteq> set modified'" "dm_gossip c' = dm_gossip c"
  using advance_ess_ok [OF h k ex [unfolded S] t [unfolded S]] by blast

lemma advance_ddl_ok:
  assumes h: "advance_ddl_sharding_ess s c = Some (s', c')" and k: "ddl_keyed s" and ex: "exclusive (started s)"
  shows "ddl_keyed s' \<and> exclusive (started s') \<and> ddl_waits s' \<and> tables (started s) \<subseteq> tables (started s') \<and> dm_gossip c' = dm_gossip c"
proof -
  let ?C = "started_ess ct_table_path 0" and ?A = "started_ess at_table_path 1" and ?D = "started_ess dt_table_path 2" and ?S = "started_ess ss_table_path 3"
  let ?drop = "drop_table_tm_ess s" and ?split = "shard_split_tm_ess s" and ?alter = "alter_table_tm_ess s" and ?create = "create_table_tm_ess s"
  from h obtain creates m1 c1 alters m2 c2 drops m3 c3 splits m4 where
    1: "advance_ess invalid_ddl ct_response_data ct_table_path create_valid ?create (tables_being_modified s) c = Some (creates, m1, c1)" and
    2: "advance_ess invalid_ddl at_response_data at_table_path alter_valid ?alter m1 c1 = Some (alters, m2, c2)" and
    3: "advance_ess invalid_ddl dt_response_data dt_table_path drop_valid ?drop m2 c2 = Some (drops, m3, c3)" and
    4: "advance_ess invalid_sharding ss_response_data ss_table_path split_valid ?split m3 c3 = Some (splits, m4, c')" and
    s': "s' = \<lparr>create_table_tm_ess = creates, alter_table_tm_ess = alters, drop_table_tm_ess = drops, shard_split_tm_ess = splits\<rparr>"
    by (auto simp: advance_ddl_sharding_ess_def bind_eq_Some_conv)
  note k' = k [unfolded ddl_keyed_def]
  obtain p1: "keyed creates" "exclusive (?A ?alter \<union> ?D ?drop \<union> ?S ?split \<union> ?C creates)"
      "tables (?A ?alter \<union> ?D ?drop \<union> ?S ?split \<union> ?C creates) = set m1" "all_wait ct_table_path (set m1) creates"
      "set (tables_being_modified s) \<subseteq> set m1" "dm_gossip c1 = dm_gossip c"
    using pass_ok [OF 1 _ ex set_tables_being_modified [symmetric], of "?A ?alter \<union> ?D ?drop \<union> ?S ?split" 0] k'
    by (auto simp: started_def Un_ac)
  obtain p2: "keyed alters" "exclusive (?D ?drop \<union> ?S ?split \<union> ?C creates \<union> ?A alters)"
      "tables (?D ?drop \<union> ?S ?split \<union> ?C creates \<union> ?A alters) = set m2" "all_wait at_table_path (set m2) alters"
      "set m1 \<subseteq> set m2" "dm_gossip c2 = dm_gossip c1"
    using pass_ok [OF 2 _ p1(2,3), of "?D ?drop \<union> ?S ?split \<union> ?C creates" 1] k' by (auto simp: Un_ac)
  obtain p3: "keyed drops" "exclusive (?S ?split \<union> ?C creates \<union> ?A alters \<union> ?D drops)"
      "tables (?S ?split \<union> ?C creates \<union> ?A alters \<union> ?D drops) = set m3" "all_wait dt_table_path (set m3) drops"
      "set m2 \<subseteq> set m3" "dm_gossip c3 = dm_gossip c2"
    using pass_ok [OF 3 _ p2(2,3), of "?S ?split \<union> ?C creates \<union> ?A alters" 2] k' by (auto simp: Un_ac)
  obtain p4: "keyed splits" "exclusive (?C creates \<union> ?A alters \<union> ?D drops \<union> ?S splits)"
      "tables (?C creates \<union> ?A alters \<union> ?D drops \<union> ?S splits) = set m4" "all_wait ss_table_path (set m4) splits"
      "set m3 \<subseteq> set m4" "dm_gossip c' = dm_gossip c3"
    using pass_ok [OF 4 _ p3(2,3), of "?C creates \<union> ?A alters \<union> ?D drops" 3] k' by (auto simp: Un_ac)
  have "started s' = ?C creates \<union> ?A alters \<union> ?D drops \<union> ?S splits" by (simp add: started_def s')
  with p4 have m4: "tables (started s') = set m4" "exclusive (started s')" by simp_all
  have "ddl_waits s'" unfolding ddl_waits_def m4
    using p1(4) p2(4,5) p3(4,5) p4(4,5) by (auto simp: s' intro: all_wait_mono)
  with m4 p1 p2 p3 p4 set_tables_being_modified [of s] show ?thesis by (auto simp: ddl_keyed_def s')
qed

lemma advance_ddl_idle: "ddl_waits s \<Longrightarrow> advance_ddl_sharding_ess s c = Some (s, c)"
  by (simp add: advance_ddl_sharding_ess_def ddl_waits_def advance_ess_idle set_tables_being_modified)

section \<open>The handlers of the protocol\<close>

text \<open>What a handler makes of a state machine: it works on the same table, and does not start by itself.\<close>

definition es_follows :: "('i \<Rightarrow> table_path) \<Rightarrow> ('i, 'm, 'n, 'q, 'r) stm_tm_outer \<Rightarrow> ('i, 'm, 'n, 'q, 'r) stm_tm_outer \<Rightarrow> bool" where
  "es_follows path es es' \<longleftrightarrow>
     st_query_id es' = st_query_id es \<and> path (st_inner es') = path (st_inner es) \<and> (st_state es = TS_Start \<longrightarrow> st_state es' = TS_Start)"

definition con_follows where
  "con_follows path k con con' \<longleftrightarrow> (keyed con \<longrightarrow> keyed con') \<and> started_ess path k con' \<subseteq> started_ess path k con"

lemma started_ess_get: "bm_wf con \<Longrightarrow> started_ess path k con = {(k, qid, path (st_inner es)) | qid es. bm_get con qid = Some es \<and> st_state es \<noteq> TS_Start}"
  by (auto simp: started_ess_def bm_wf_def strict_sorted_iff)

lemma keyed_get: "keyed con \<longleftrightarrow> bm_wf con \<and> (\<forall>qid es. bm_get con qid = Some es \<longrightarrow> st_query_id es = qid)"
  by (auto simp: keyed_def bm_wf_def strict_sorted_iff)

lemma con_follows_trans: "con_follows path k con con1 \<Longrightarrow> con_follows path k con1 con2 \<Longrightarrow> con_follows path k con con2"
  by (auto simp: con_follows_def)

lemma tm_put_follows:
  assumes "stm_tm_put qid con res = Some (effs, c, con')" and "bm_get con qid = Some es" and "keyed con"
    and "\<And>effs c es'. res = Some (effs, c, es', STM_Wait) \<Longrightarrow> es_follows path es es'"
  shows "con_follows path k con con'"
proof -
  from assms(1) obtain es' act where res: "res = Some (effs, c, es', act)"
    and con': "con' = (case act of STM_Wait \<Rightarrow> bm_insert qid es' con | STM_Exit \<Rightarrow> bm_remove qid con)"
    by (auto simp: stm_tm_put_def bind_eq_Some_conv)
  show ?thesis
  proof (cases act)
    case STM_Wait
    with assms(4) res have f: "es_follows path es es'" by simp
    have wf: "bm_wf con" "bm_wf con'" using assms(3) con' STM_Wait by (simp_all add: keyed_get)
    have "keyed con'" using assms(2,3) f con' STM_Wait by (simp add: keyed_get es_follows_def)
    moreover have "started_ess path k con' \<subseteq> started_ess path k con"
      unfolding started_ess_get [OF wf(1)] started_ess_get [OF wf(2)] using assms(2) f con' STM_Wait
      by (auto simp: es_follows_def split: if_splits)
    ultimately show ?thesis by (simp add: con_follows_def)
  next
    case STM_Exit
    with assms(3) con' show ?thesis by (auto simp: con_follows_def keyed_get started_ess_get)
  qed
qed

lemma tm_loop_follows:
  assumes "stm_tm_loop handler qids c con = Some (effs, c', con')" and "keyed con"
    and "\<And>c es effs c' es'. handler c es = Some (effs, c', es', STM_Wait) \<Longrightarrow> es_follows path es es'"
  shows "con_follows path k con con'"
  using assms(1,2)
proof (induction qids arbitrary: c con effs)
  case (Cons qid qids)
  from Cons.prems(1) obtain es effs1 c1 con1 effs2 where get: "bm_get con qid = Some es"
    and put: "stm_tm_put qid con (handler c es) = Some (effs1, c1, con1)" and loop: "stm_tm_loop handler qids c1 con1 = Some (effs2, c', con')"
    by (auto simp: bind_eq_Some_conv)
  have 1: "con_follows path k con con1" by (rule tm_put_follows [OF put get Cons.prems(2) assms(3)])
  with Cons.prems(2) have "keyed con1" by (simp add: con_follows_def)
  with Cons.IH [OF loop] 1 show ?case by (blast intro: con_follows_trans)
qed (simp add: con_follows_def)

text \<open>The contract of the callbacks of a statement: none changes the table.\<close>

locale table_statement =
  fixes tops :: "('c, 'i, 'p, 'k, 'z, 'm, 'n, 'q, 'r::linorder, 't) stm_tm_inner" and path :: "'i \<Rightarrow> table_path"
  assumes mk_prepared: "stm_mk_prepared_plm tops i c = Some (pl, i', c') \<Longrightarrow> path i' = path i"
    and prepared: "stm_prepared_plm_inserted tops i c = Some (prepares, i', c') \<Longrightarrow> path i' = path i"
    and mk_committed: "stm_mk_committed_plm tops responses i c = Some (k, i', c') \<Longrightarrow> path i' = path i"
    and committed: "stm_committed_plm_inserted tops qid k i c = Some (commits, i', c') \<Longrightarrow> path i' = path i"
    and mk_aborted: "stm_mk_aborted_plm tops i c = Some (i', c') \<Longrightarrow> path i' = path i"
    and aborted: "stm_aborted_plm_inserted tops i c = Some (aborts, i', c') \<Longrightarrow> path i' = path i"
    and mk_closed: "stm_mk_closed_plm tops i c = Some (z, i', c') \<Longrightarrow> path i' = path i"
    and leader_changed: "stm_inner_leader_changed tops i c = Some (i', c') \<Longrightarrow> path i' = path i"
begin

lemmas keeps = mk_prepared prepared mk_committed committed mk_aborted aborted mk_closed leader_changed

lemma msg_follows:
  "stm_handle_prepared tops msg c es = Some (effs, c', es', STM_Wait) \<Longrightarrow> es_follows path es es'"
  "stm_handle_aborted tops c es = Some (effs, c', es', STM_Wait) \<Longrightarrow> es_follows path es es'"
  "stm_handle_closed tops rm c es = Some (effs, c', es', STM_Wait) \<Longrightarrow> es_follows path es es'"
  by (cases "st_state es"; auto simp: es_follows_def stm_handle_prepared_def stm_handle_aborted_def stm_handle_closed_def Let_def bind_eq_Some_conv
      dest: keeps split: if_splits)+

lemma plm_follows:
  "stm_handle_prepared_plm tops c es = Some (effs, c', es', STM_Wait) \<Longrightarrow> es_follows path es es'"
  "stm_handle_committed_plm tops qid k c es = Some (effs, c', es', STM_Wait) \<Longrightarrow> es_follows path es es'"
  "stm_handle_aborted_plm tops c es = Some (effs, c', es', STM_Wait) \<Longrightarrow> es_follows path es es'"
  "stm_handle_closed_plm tops qid z c es = Some (effs, c', es', STM_Wait) \<Longrightarrow> es_follows path es es'"
  by (cases "st_state es"; auto simp: es_follows_def stm_handle_prepared_plm_def stm_handle_committed_plm_def stm_handle_aborted_plm_def
      stm_handle_closed_plm_def stm_advance_to_prepared_def stm_advance_to_committed_def stm_advance_to_aborted_def Let_def bind_eq_Some_conv
      dest: keeps split: if_splits)+

lemma start_inserting_follows: "stm_start_inserting tops c es = Some (effs, c', es', STM_Wait) \<Longrightarrow> es_follows path es es'"
  by (cases "st_state es") (auto simp: es_follows_def stm_start_inserting_def bind_eq_Some_conv dest: keeps)

lemma leader_changed_follows:
  assumes "stm_leader_changed tops c es = Some (effs, c', es', STM_Wait)"
  shows "es_follows path es es'"
proof (cases "st_state es = TS_Following")
  case True
  show ?thesis
  proof (cases "st_follower es")
    case (Some follower)
    with assms True show ?thesis
      by (cases follower) (auto simp: es_follows_def stm_leader_changed_def bind_eq_Some_conv Let_def stm_advance_to_prepared_def
          stm_advance_to_committed_def stm_advance_to_aborted_def split: if_splits)
  qed (use assms True in \<open>auto simp: es_follows_def stm_leader_changed_def bind_eq_Some_conv split: if_splits\<close>)
next
  case False
  with assms show ?thesis
    by (cases "st_state es") (auto simp: es_follows_def stm_leader_changed_def bind_eq_Some_conv dest: leader_changed)
qed

lemma rlc_follows:
  assumes "stm_remote_leader_changed tops change c es = Some (effs, c', es', STM_Wait)"
  shows "es_follows path es es'"
proof -
  from assms have "es' = es"
    by (cases "st_state es") (auto simp: stm_remote_leader_changed_def Let_def bind_eq_Some_conv split: option.splits stm_follower.splits)
  then show ?thesis by (simp add: es_follows_def)
qed

lemma handle_msg_follows: "stm_handle_msg tops msg c con = Some (effs, c', con') \<Longrightarrow> keyed con \<Longrightarrow> con_follows path k con con'"
  by (cases msg) (auto simp: stm_handle_msg_def bind_eq_Some_conv intro: tm_put_follows msg_follows)

lemma handle_plm_follows:
  "stm_tm_is_leader tops c = Some True \<Longrightarrow> stm_handle_plm tops plm c con = Some (effs, c', con') \<Longrightarrow> keyed con \<Longrightarrow> con_follows path k con con'"
  by (cases plm) (auto simp: stm_handle_plm_def bind_eq_Some_conv intro: tm_put_follows plm_follows)

lemma handle_loops_follow:
  "stm_handle_bundle_processed tops c con = Some (effs, c', con') \<Longrightarrow> keyed con \<Longrightarrow> con_follows path k con con'"
  "stm_handle_lc tops c con = Some (effs, c', con') \<Longrightarrow> keyed con \<Longrightarrow> con_follows path k con con'"
  "stm_handle_rlc tops change c con = Some (effs, c', con') \<Longrightarrow> keyed con \<Longrightarrow> con_follows path k con con'"
  unfolding stm_handle_bundle_processed_def stm_handle_lc_def stm_handle_rlc_def
  by (rule tm_loop_follows, assumption, assumption, erule start_inserting_follows leader_changed_follows rlc_follows)+

end

interpretation create_statement: table_statement create_tm ct_table_path
  by unfold_locales (auto simp: create_tm_def bind_eq_Some_conv Let_def split: if_splits)

interpretation alter_statement: table_statement alter_tm at_table_path
  by unfold_locales (auto simp: alter_tm_def alter_committed_def bind_eq_Some_conv)

interpretation drop_statement: table_statement drop_tm dt_table_path
  by unfold_locales (auto simp: drop_tm_def drop_committed_def bind_eq_Some_conv)

interpretation split_statement: table_statement split_tm ss_table_path
  by unfold_locales (auto simp: split_tm_def split_committed_def bind_eq_Some_conv split: if_splits)

section \<open>The leader of the master\<close>

text \<open>
  What changes the schema changes at the leader: requests and cancellations, the main loop, and the messages,
  bundles, log entries and changes of leadership that the protocol handles. The context changes in any way between two calls. A follower, which builds the
  state machines of the leader from the log it learns, takes no step here.
\<close>

inductive master_step :: "(string \<Rightarrow> string + ddl_query) \<Rightarrow> master_statuses \<Rightarrow> master_statuses \<Rightarrow> bool" for parse where
  request: "perform_external_ddl parse qid g query s c = Some (s', c') \<Longrightarrow> master_step parse s s'"
| sharding: "perform_external_sharding qid eid rid table target_old target_new s c = (s', c') \<Longrightarrow> master_step parse s s'"
| cancel: "cancel_external_ddl eid rid s c = (s', c') \<Longrightarrow> master_step parse s s'"
| cancel_sharding: "cancel_external_sharding eid rid s c = (s', c') \<Longrightarrow> master_step parse s s'"
| main_loop: "advance_ddl_sharding_ess s c = Some (s', c') \<Longrightarrow> master_step parse s s'"
| create_msg: "stm_handle_msg create_tm msg c (create_table_tm_ess s) = Some (effs, c', con) \<Longrightarrow> master_step parse s (s\<lparr>create_table_tm_ess := con\<rparr>)"
| alter_msg: "stm_handle_msg alter_tm msg' c (alter_table_tm_ess s) = Some (effs', c', con') \<Longrightarrow> master_step parse s (s\<lparr>alter_table_tm_ess := con'\<rparr>)"
| drop_msg: "stm_handle_msg drop_tm msg' c (drop_table_tm_ess s) = Some (effs'', c', con'') \<Longrightarrow> master_step parse s (s\<lparr>drop_table_tm_ess := con''\<rparr>)"
| split_msg: "stm_handle_msg split_tm msg'' c (shard_split_tm_ess s) = Some (effs3, c', con3) \<Longrightarrow> master_step parse s (s\<lparr>shard_split_tm_ess := con3\<rparr>)"
| create_plm: "dm_is_leader c = Some True \<Longrightarrow> stm_handle_plm create_tm plm c (create_table_tm_ess s) = Some (effs, c', con) \<Longrightarrow>
    master_step parse s (s\<lparr>create_table_tm_ess := con\<rparr>)"
| alter_plm: "dm_is_leader c = Some True \<Longrightarrow> stm_handle_plm alter_tm plm' c (alter_table_tm_ess s) = Some (effs', c', con') \<Longrightarrow>
    master_step parse s (s\<lparr>alter_table_tm_ess := con'\<rparr>)"
| drop_plm: "dm_is_leader c = Some True \<Longrightarrow> stm_handle_plm drop_tm plm'' c (drop_table_tm_ess s) = Some (effs'', c', con'') \<Longrightarrow>
    master_step parse s (s\<lparr>drop_table_tm_ess := con''\<rparr>)"
| split_plm: "dm_is_leader c = Some True \<Longrightarrow> stm_handle_plm split_tm plm3 c (shard_split_tm_ess s) = Some (effs3, c', con3) \<Longrightarrow>
    master_step parse s (s\<lparr>shard_split_tm_ess := con3\<rparr>)"
| create_loop: "stm_handle_bundle_processed create_tm c (create_table_tm_ess s) = Some (effs, c', con) \<or>
    stm_handle_lc create_tm c (create_table_tm_ess s) = Some (effs, c', con) \<or>
    stm_handle_rlc create_tm change c (create_table_tm_ess s) = Some (effs, c', con) \<Longrightarrow> master_step parse s (s\<lparr>create_table_tm_ess := con\<rparr>)"
| alter_loop: "stm_handle_bundle_processed alter_tm c (alter_table_tm_ess s) = Some (effs', c', con') \<or>
    stm_handle_lc alter_tm c (alter_table_tm_ess s) = Some (effs', c', con') \<or>
    stm_handle_rlc alter_tm change c (alter_table_tm_ess s) = Some (effs', c', con') \<Longrightarrow> master_step parse s (s\<lparr>alter_table_tm_ess := con'\<rparr>)"
| drop_loop: "stm_handle_bundle_processed drop_tm c (drop_table_tm_ess s) = Some (effs'', c', con'') \<or>
    stm_handle_lc drop_tm c (drop_table_tm_ess s) = Some (effs'', c', con'') \<or>
    stm_handle_rlc drop_tm change c (drop_table_tm_ess s) = Some (effs'', c', con'') \<Longrightarrow> master_step parse s (s\<lparr>drop_table_tm_ess := con''\<rparr>)"
| split_loop: "stm_handle_bundle_processed split_tm c (shard_split_tm_ess s) = Some (effs3, c', con3) \<or>
    stm_handle_lc split_tm c (shard_split_tm_ess s) = Some (effs3, c', con3) \<or>
    stm_handle_rlc split_tm change c (shard_split_tm_ess s) = Some (effs3, c', con3) \<Longrightarrow> master_step parse s (s\<lparr>shard_split_tm_ess := con3\<rparr>)"

definition ddl_ok :: "master_statuses \<Rightarrow> bool" where
  "ddl_ok s \<longleftrightarrow> ddl_keyed s \<and> exclusive (started s)"

lemma follows_ok:
  "con_follows ct_table_path 0 (create_table_tm_ess s) con \<Longrightarrow> ddl_ok s \<Longrightarrow> ddl_ok (s\<lparr>create_table_tm_ess := con\<rparr>)"
  "con_follows at_table_path 1 (alter_table_tm_ess s) con1 \<Longrightarrow> ddl_ok s \<Longrightarrow> ddl_ok (s\<lparr>alter_table_tm_ess := con1\<rparr>)"
  "con_follows dt_table_path 2 (drop_table_tm_ess s) con2 \<Longrightarrow> ddl_ok s \<Longrightarrow> ddl_ok (s\<lparr>drop_table_tm_ess := con2\<rparr>)"
  "con_follows ss_table_path 3 (shard_split_tm_ess s) con3 \<Longrightarrow> ddl_ok s \<Longrightarrow> ddl_ok (s\<lparr>shard_split_tm_ess := con3\<rparr>)"
  by (auto simp: ddl_ok_def ddl_keyed_def con_follows_def started_def elim!: exclusive_subset)

lemma con_follows_new [intro]: "keyed con \<Longrightarrow> con_follows path k con (map_insert qid (stm_tm_new qid i) con)"
  by (auto simp: con_follows_def keyed_get started_ess_get map_insert_def stm_tm_new_def)

lemma con_follows_remove [intro]: "keyed con \<Longrightarrow> con_follows path k con (bm_remove qid con)"
  by (auto simp: con_follows_def keyed_get started_ess_get)

lemma ddl_ok_keyed [dest]: "ddl_ok s \<Longrightarrow>
  keyed (create_table_tm_ess s) \<and> keyed (alter_table_tm_ess s) \<and> keyed (drop_table_tm_ess s) \<and> keyed (shard_split_tm_ess s)"
  by (simp add: ddl_ok_def ddl_keyed_def)

lemma request_ok:
  assumes "perform_external_ddl parse qid g query s c = Some (s', c')" and "ddl_ok s"
  shows "ddl_ok s'"
  using assms by (auto simp: perform_external_ddl_def Let_def bind_eq_Some_conv intro!: follows_ok con_follows_new
      split: sum.splits ddl_query.splits)

lemma cancel_ok:
  assumes "cancel_external_ddl eid rid s c = (s', c')" and "ddl_ok s"
  shows "ddl_ok s'"
  using assms by (auto simp: cancel_external_ddl_def Let_def intro!: follows_ok con_follows_remove split: option.splits if_splits)

lemma master_step_ok:
  assumes "master_step parse s s'" and "ddl_ok s"
  shows "ddl_ok s'"
  using assms
proof (induction rule: master_step.induct)
  case (sharding qid eid rid table target_old target_new s c s' c')
  then show ?case by (auto simp: perform_external_sharding_def intro!: follows_ok con_follows_new)
next
  case (cancel_sharding eid rid s c s' c')
  then show ?case by (auto simp: cancel_external_sharding_def Let_def intro!: follows_ok con_follows_remove split: option.splits if_splits)
next
  case (main_loop s c s' c')
  then show ?case using advance_ddl_ok by (auto simp: ddl_ok_def)
next
  case create_plm then show ?case by (intro follows_ok create_statement.handle_plm_follows) (auto simp: create_tm_def)
next
  case alter_plm then show ?case by (intro follows_ok alter_statement.handle_plm_follows) (auto simp: alter_tm_def)
next
  case drop_plm then show ?case by (intro follows_ok drop_statement.handle_plm_follows) (auto simp: drop_tm_def)
next
  case split_plm then show ?case by (intro follows_ok split_statement.handle_plm_follows) (auto simp: split_tm_def)
qed (use request_ok cancel_ok in \<open>auto intro!: follows_ok intro: create_statement.handle_msg_follows alter_statement.handle_msg_follows
      drop_statement.handle_msg_follows split_statement.handle_msg_follows create_statement.handle_loops_follow
      alter_statement.handle_loops_follow drop_statement.handle_loops_follow split_statement.handle_loops_follow\<close>)

end
