(* ===== verification/Ddl_Gossip.thy ===== *)
theory Ddl_Gossip
  imports Master_Ddl
begin

text \<open>
  What the schema changes make of the gossip data. An invariant ties the generations, schemas, shards and addresses
  of the tables together; a statement that passed its check of the main loop can be applied without a panic
  and keeps it. The shards of a table partition its keys.
\<close>

section \<open>Partitions of the keys\<close>

fun ranges_from :: "col_val option \<Rightarrow> col_val list \<Rightarrow> tablet_key_range list" where
  "ranges_from start [] = [\<lparr>kr_start = start, kr_end = None\<rparr>]"
| "ranges_from start (key # keys) = \<lparr>kr_start = start, kr_end = Some key\<rparr> # ranges_from (Some key) keys"

definition above :: "col_val option \<Rightarrow> col_val \<Rightarrow> bool" where
  "above start v \<longleftrightarrow> (case start of Some a \<Rightarrow> a \<le> v | None \<Rightarrow> True)"

definition shards_ok :: "(tablet_key_range \<times> tablet_group_id) list \<Rightarrow> bool" where
  "shards_ok shards \<longleftrightarrow> (\<exists>keys. sorted keys \<and> map fst shards = ranges_from None keys) \<and> distinct (map snd shards)"

lemma range_contains_above:
  "range_contains \<lparr>kr_start = start, kr_end = end_key\<rparr> v \<longleftrightarrow> above start v \<and> (case end_key of Some b \<Rightarrow> v < b | None \<Rightarrow> True)"
  by (auto simp: range_contains_def above_def split: option.splits)

lemma above_simps [simp]: "above None v" "above (Some a) v \<longleftrightarrow> a \<le> v"
  by (simp_all add: above_def)

lemma above_trans: "above start a \<Longrightarrow> a \<le> v \<Longrightarrow> above start v"
  by (auto simp: above_def split: option.splits)

lemma one_range:
  "sorted keys \<Longrightarrow> \<forall>key \<in> set keys. above start key \<Longrightarrow>
     length (filter (\<lambda>r. range_contains r v) (ranges_from start keys)) = (if above start v then 1 else 0)"
proof (induction keys arbitrary: start)
  case (Cons key keys)
  then have "length (filter (\<lambda>r. range_contains r v) (ranges_from (Some key) keys)) = (if key \<le> v then 1 else 0)" by simp
  with Cons.prems show ?case by (auto simp: range_contains_above dest: above_trans)
qed (simp add: range_contains_above)

text \<open>Exactly one tablet of a table holds a key.\<close>

lemma shards_hold:
  assumes "shards_ok shards"
  shows "\<exists>!shard. shard \<in> set shards \<and> range_contains (fst shard) v"
proof -
  from assms obtain keys where "sorted keys" and fst: "map fst shards = ranges_from None keys" by (auto simp: shards_ok_def)
  then have "length (filter (\<lambda>r. range_contains r v) (map fst shards)) = 1" using one_range by simp
  then have "length (filter (\<lambda>shard. range_contains (fst shard) v) shards) = 1" by (simp add: filter_map comp_def)
  then obtain shard where "filter (\<lambda>shard. range_contains (fst shard) v) shards = [shard]" by (auto simp: length_Suc_conv)
  then have "set (filter (\<lambda>shard. range_contains (fst shard) v) shards) = {shard}" by simp
  then have "x \<in> set shards \<and> range_contains (fst x) v \<longleftrightarrow> x = shard" for x
    by (metis (mono_tags, lifting) mem_Collect_eq set_filter singleton_iff)
  then show ?thesis by metis
qed

text \<open>The split of one of the shards.\<close>

lemma contains_from:
  "r \<in> set (ranges_from start keys) \<Longrightarrow> sorted keys \<Longrightarrow> \<forall>key \<in> set keys. above start key \<Longrightarrow> range_contains r v \<Longrightarrow> above start v"
proof (induction keys arbitrary: start)
  case (Cons key keys)
  from Cons.prems(1) consider "r = \<lparr>kr_start = start, kr_end = Some key\<rparr>" | "r \<in> set (ranges_from (Some key) keys)" by auto
  then show ?case
  proof cases
    case 1
    with Cons.prems(4) show ?thesis by (simp add: range_contains_above)
  next
    case 2
    from Cons.IH [OF 2] Cons.prems(2,4) have "key \<le> v" by simp
    with Cons.prems(3) show ?thesis by (auto dest: above_trans)
  qed
qed (simp add: range_contains_above)

lemma split_shards_absent: "st_tid old \<notin> snd ` set shards \<Longrightarrow> split_shards old new shards = shards"
  unfolding split_shards_def by (induction shards) auto

lemma split_ranges:
  assumes "map fst shards = ranges_from start keys" and "sorted keys" and "\<forall>key \<in> set keys. above start key"
    and "distinct (map snd shards)" and "(r, st_tid old) \<in> set shards"
    and "st_key_range old = \<lparr>kr_start = kr_start r, kr_end = Some k\<rparr>" and "st_key_range new = \<lparr>kr_start = Some k, kr_end = kr_end r\<rparr>"
    and "range_contains r k"
  shows "\<exists>keys'. map fst (split_shards old new shards) = ranges_from start keys' \<and> sorted keys' \<and> set keys' = insert k (set keys)"
  using assms(1-5)
proof (induction keys arbitrary: start shards)
  case Nil
  then have "shards = [(r, st_tid old)]" by (cases shards) auto
  with Nil assms(6-8) show ?case by (auto simp: split_shards_def intro!: exI [of _ "[k]"])
next
  case (Cons key keys)
  from Cons.prems(1) obtain tid rest where shards: "shards = (\<lparr>kr_start = start, kr_end = Some key\<rparr>, tid) # rest"
    and rest: "map fst rest = ranges_from (Some key) keys" by (cases shards) auto
  show ?case
  proof (cases "tid = st_tid old")
    case True
    with Cons.prems(4,5) shards have r: "r = \<lparr>kr_start = start, kr_end = Some key\<rparr>" by force
    from True Cons.prems(4) shards have "split_shards old new rest = rest" by (intro split_shards_absent) auto
    then have "split_shards old new shards = (st_key_range old, tid) # (st_key_range new, st_tid new) # rest"
      using True by (simp add: shards split_shards_def)
    moreover have "k < key" using assms(8) r by (simp add: range_contains_above)
    ultimately show ?thesis using assms(6,7) r rest Cons.prems(2) by (intro exI [of _ "k # key # keys"]) auto
  next
    case False
    with Cons.prems(5) shards have r: "(r, st_tid old) \<in> set rest" by auto
    from Cons.IH [OF rest _ _ _ r] Cons.prems(2,4) shards obtain keys' where
      keys': "map fst (split_shards old new rest) = ranges_from (Some key) keys'" "sorted keys'" "set keys' = insert k (set keys)" by auto
    have "r \<in> set (ranges_from (Some key) keys)" using r rest by (metis fst_conv image_eqI list.set_map)
    from contains_from [OF this _ _ assms(8)] Cons.prems(2) have "key \<le> k" by simp
    moreover have "split_shards old new shards = (\<lparr>kr_start = start, kr_end = Some key\<rparr>, tid) # split_shards old new rest"
      using False by (simp add: shards split_shards_def)
    ultimately show ?thesis using keys' Cons.prems(2) by (intro exI [of _ "key # keys'"]) auto
  qed
qed

lemma split_tids: "st_tid new \<notin> snd ` set shards \<Longrightarrow> distinct (map snd shards) \<Longrightarrow>
  distinct (map snd (split_shards old new shards)) \<and> snd ` set (split_shards old new shards) \<subseteq> insert (st_tid new) (snd ` set shards)"
  unfolding split_shards_def by (induction shards) (auto split: if_splits)

text \<open>The partition of a new table.\<close>

definition shift_tids :: "nat \<Rightarrow> rng \<Rightarrow> nat \<Rightarrow> tablet_group_id" where
  "shift_tids n g = (\<lambda>k. rng_tid g (n + k))"

lemma mk_shard_result:
  assumes "mk_shard g sids start end_key = Some (shard, sids', g')"
  shows "\<exists>sid \<in> set sids. shard = (\<lparr>kr_start = start, kr_end = end_key\<rparr>, rng_tid g 0, sid) \<and> rng_tid g' = shift_tids 1 g \<and>
    (distinct sids \<longrightarrow> distinct sids' \<and> sid \<notin> set sids') \<and> set sids' \<subseteq> set sids"
proof -
  define n where "n = unat (rng_u32 g 0) mod length sids"
  from assms have sids: "sids \<noteq> []" and sids': "sids' = take n sids @ drop (Suc n) sids"
    and shard: "shard = (\<lparr>kr_start = start, kr_end = end_key\<rparr>, rng_tid g 0, sids ! n)" and g': "rng_tid g' = shift_tids 1 g"
    by (auto simp: mk_shard_def next_u32_def mk_tid_def shift_tids_def n_def Let_def split: if_splits)
  then have n: "n < length sids" by (simp add: n_def)
  have eq: "sids = take n sids @ sids ! n # drop (Suc n) sids" using n by (rule id_take_nth_drop)
  have "distinct sids \<longrightarrow> distinct sids' \<and> sids ! n \<notin> set sids'" by (subst (1) eq) (auto simp: sids')
  moreover have "set sids' \<subseteq> set sids" unfolding sids' using set_take_subset [of n sids] set_drop_subset [of "Suc n" sids] by auto
  ultimately show ?thesis using shard g' n by auto
qed

lemma mk_shards_result:
  "mk_shards g sids start keys = Some (shards, g') \<Longrightarrow>
     map fst shards = ranges_from start keys \<and> map (\<lambda>(_, tid, _). tid) shards = map (rng_tid g) [0..<Suc (length keys)] \<and>
     (distinct sids \<longrightarrow> distinct (map (\<lambda>(_, _, sid). sid) shards) \<and> (\<lambda>(_, _, sid). sid) ` set shards \<subseteq> set sids)"
proof (induction keys arbitrary: g sids start shards)
  case Nil
  then show ?case by (auto simp: bind_eq_Some_conv dest!: mk_shard_result)
next
  case (Cons key keys)
  from Cons.prems obtain shard sids1 g1 shards1 where mk: "mk_shard g sids start (Some key) = Some (shard, sids1, g1)"
    and rest: "mk_shards g1 sids1 (Some key) keys = Some (shards1, g')" and shards: "shards = shard # shards1"
    by (auto simp: bind_eq_Some_conv)
  from mk_shard_result [OF mk] obtain sid where sid: "sid \<in> set sids" "shard = (\<lparr>kr_start = start, kr_end = Some key\<rparr>, rng_tid g 0, sid)"
    "rng_tid g1 = shift_tids 1 g" "distinct sids \<longrightarrow> distinct sids1 \<and> sid \<notin> set sids1" "set sids1 \<subseteq> set sids" by blast
  note IH = Cons.IH [OF rest]
  have "map (rng_tid g1) [0..<Suc (length keys)] = map (rng_tid g) (map Suc [0..<Suc (length keys)])"
    by (simp add: sid(3) shift_tids_def comp_def del: upt_Suc)
  then have "map (\<lambda>(_, tid, _). tid) shards = map (rng_tid g) (0 # map Suc [0..<Suc (length keys)])" using IH sid(2) by (simp add: shards del: upt_Suc)
  moreover have "0 # map Suc [0..<Suc (length keys)] = [0..<Suc (length (key # keys))]" by (simp add: map_Suc_upt upt_conv_Cons del: upt_Suc)
  ultimately have tids: "map (\<lambda>(_, tid, _). tid) shards = map (rng_tid g) [0..<Suc (length (key # keys))]" by metis
  have "distinct (map (\<lambda>(_, _, sid). sid) shards) \<and> (\<lambda>(_, _, sid). sid) ` set shards \<subseteq> set sids" if "distinct sids"
    using IH sid that by (auto simp: shards simp del: upt_Suc)
  with tids IH sid(2) show ?case by (simp add: shards)
qed

lemma sorted_strings: "sorted (map (\<lambda>ch. CV_String [ch]) (sort chars))"
proof -
  have "sorted_wrt (\<lambda>x y. CV_String [x] \<le> CV_String [y]) (sort chars)"
    by (rule sorted_wrt_mono_rel [OF _ sorted_sort]) (auto simp: less_eq_col_val_def order.order_iff_strict)
  then show ?thesis by (simp add: sorted_wrt_map)
qed

lemma next_u32_tids [simp]: "rng_tid (snd (next_u32 g)) = rng_tid g"
  by (simp add: next_u32_def)

lemma pick_chars_tids [simp]: "rng_tid (snd (pick_chars n chars g)) = rng_tid g"
  by (induction n arbitrary: chars g) (simp_all add: Let_def case_prod_beta)

lemma simple_partition_keys:
  assumes "simple_partition gossip kcols g = Some (shards, g')"
  shows "\<exists>g1 keys. mk_shards g1 (bm_keys (slave_address_config gossip)) None keys = Some (shards, g') \<and> sorted keys \<and> rng_tid g1 = rng_tid g"
proof (cases kcols)
  case Nil
  with assms show ?thesis by (intro exI [of _ g] exI [of _ "[]"]) (simp add: simple_partition_def Let_def split: if_splits)
next
  case (Cons col kcols')
  obtain name ct where col: "col = (name, ct)" by (cases col)
  define g1 where "g1 = snd (next_u32 g)"
  define n where "n = fst (next_u32 g)"
  define chars where "chars = pick_chars (min (n mod 4 + 1) (length (bm_keys (slave_address_config gossip))) - 1) alphabet g1"
  define keys where "keys =
      (case ct of CT_String \<Rightarrow> map (\<lambda>ch. CV_String [ch]) (sort (fst chars))
       | CT_Int \<Rightarrow> if min (n mod 2 + 1) (length (bm_keys (slave_address_config gossip))) = 1 then [] else [CV_Int 0]
       | CT_Bool \<Rightarrow> if min (n mod 2 + 1) (length (bm_keys (slave_address_config gossip))) = 1 then [] else [CV_Bool True])"
  have "mk_shards (if ct = CT_String then snd chars else g1) (bm_keys (slave_address_config gossip)) None keys = Some (shards, g')"
    using assms by (cases ct) (simp_all add: simple_partition_def Let_def case_prod_beta Cons col g1_def n_def chars_def keys_def split: if_splits)
  moreover have "sorted keys" by (cases ct) (simp_all add: keys_def sorted_strings)
  moreover have "rng_tid (if ct = CT_String then snd chars else g1) = rng_tid g" by (simp add: g1_def chars_def)
  ultimately show ?thesis by blast
qed

lemma simple_partition_shards:
  assumes "simple_partition gossip kcols g = Some (shards, g')" and "inj (rng_tid g)"
  shows "shards_ok (map (\<lambda>(range, tid, _). (range, tid)) shards)" and "bm_wf (slave_address_config gossip) \<Longrightarrow> distinct (map (\<lambda>(_, _, sid). sid) shards)"
proof -
  from simple_partition_keys [OF assms(1)] obtain g1 keys
    where mk: "mk_shards g1 (bm_keys (slave_address_config gossip)) None keys = Some (shards, g')" and keys: "sorted keys"
    and g1: "rng_tid g1 = rng_tid g" by blast
  note r = mk_shards_result [OF mk]
  have "map fst (map (\<lambda>(range, tid, _). (range, tid)) shards) = map fst shards"
    "map snd (map (\<lambda>(range, tid, _). (range, tid)) shards) = map (\<lambda>(_, tid, _). tid) shards" by auto
  moreover have "distinct (map (rng_tid g) [0..<Suc (length keys)])" using assms(2) by (simp add: distinct_map inj_on_subset [OF assms(2)] del: upt_Suc)
  ultimately show "shards_ok (map (\<lambda>(range, tid, _). (range, tid)) shards)" using r keys unfolding shards_ok_def g1 by metis
  show "distinct (map (\<lambda>(_, _, sid). sid) shards)" if "bm_wf (slave_address_config gossip)"
    using r that by (simp add: bm_wf_def bm_keys_def strict_sorted_iff)
qed

section \<open>The invariant of the gossip data\<close>

text \<open>
  The last generation of a table that existed has a schema and shards; a schema belongs to that generation or an
  earlier one; the shards of every generation partition the keys and their tablets have addresses.
\<close>

definition gossip_ok :: "gossip_view \<Rightarrow> bool" where
  "gossip_ok g \<longleftrightarrow>
     (\<forall>table gen sharding_gen. get_last_present_version (table_generation g) table = Some (gen, sharding_gen) \<longrightarrow>
        bm_contains (db_schema g) (table, gen) \<and> bm_contains (sharding_config g) (table, (gen, sharding_gen))) \<and>
     (\<forall>table gen. bm_contains (db_schema g) (table, gen) \<longrightarrow>
        (\<exists>gen' sharding_gen. get_last_present_version (table_generation g) table = Some (gen', sharding_gen) \<and> gen \<le> gen')) \<and>
     (\<forall>key shards. bm_get (sharding_config g) key = Some shards \<longrightarrow>
        shards_ok shards \<and> (\<forall>tid \<in> snd ` set shards. bm_contains (tablet_address_config g) tid))"

lemma gossip_ok_present:
  assumes "gossip_ok g" and "get_last_present_version (table_generation g) table = Some (gen, sg)"
  shows "bm_contains (db_schema g) (table, gen) \<and> bm_contains (sharding_config g) (table, (gen, sg))"
  using assms unfolding gossip_ok_def by blast

lemma gossip_ok_schema:
  assumes "gossip_ok g" and "bm_contains (db_schema g) (table, gen)"
  shows "\<exists>gen' sg. get_last_present_version (table_generation g) table = Some (gen', sg) \<and> gen \<le> gen'"
  using assms unfolding gossip_ok_def by blast

lemma gossip_ok_shards:
  assumes "gossip_ok g" and "bm_get (sharding_config g) key = Some shards"
  shows "shards_ok shards \<and> (\<forall>tid \<in> snd ` set shards. bm_contains (tablet_address_config g) tid)"
  using assms unfolding gossip_ok_def by blast

lemma gossip_okI:
  assumes "\<And>table gen sg. get_last_present_version (table_generation g) table = Some (gen, sg) \<Longrightarrow>
      bm_contains (db_schema g) (table, gen) \<and> bm_contains (sharding_config g) (table, (gen, sg))"
    and "\<And>table gen. bm_contains (db_schema g) (table, gen) \<Longrightarrow>
      \<exists>gen' sg. get_last_present_version (table_generation g) table = Some (gen', sg) \<and> gen \<le> gen'"
    and "\<And>key shards. bm_get (sharding_config g) key = Some shards \<Longrightarrow>
      shards_ok shards \<and> (\<forall>tid \<in> snd ` set shards. bm_contains (tablet_address_config g) tid)"
  shows "gossip_ok g"
  using assms unfolding gossip_ok_def by blast

lemma timestamp_add_less: "timestamp_add a (mk_t 1) = Some b \<Longrightarrow> a < b"
  using timestamp_add_value [of a "mk_t 1"] ts_nat_le [of b a] by (auto simp: mk_t_def ts_nat_def not_le [symmetric])

lemma last_version_present: "get_last_version m k = Some v \<Longrightarrow> get_last_present_version m k = Some v"
proof -
  assume "get_last_version m k = Some v"
  then obtain lat versions where get: "bm_get (mvm_map m) k = Some (lat, versions)" and "versions \<noteq> []" and v: "snd (last versions) = Some v"
    by (auto simp: get_last_version_def split: option.splits if_splits)
  then have "rfind (\<lambda>version. snd version \<noteq> None) versions = Some (last versions)"
    using rfind_snoc [of "\<lambda>version. snd version \<noteq> None" "butlast versions" "last versions"] by simp
  with get v show ?thesis by (cases "last versions") (auto simp: get_last_present_version_def)
qed

lemma write_versions:
  assumes "mvm_write m key v t = Some m'"
  shows "get_last_version m' k = (if k = key then v else get_last_version m k)"
    and "get_last_present_version m' k = (if k = key \<and> v \<noteq> None then v else get_last_present_version m k)"
    and "get_lat m' k = (if k = key then t else get_lat m k)" and "get_lat m key < t"
  using assms by (auto simp: mvm_write_def get_last_version_def get_last_present_version_def get_lat_def rfind_Cons split: option.splits if_splits)

lemma write_returns: "get_lat m key < t \<Longrightarrow> \<exists>m'. mvm_write m key v t = Some m'"
  by (auto simp: mvm_write_def get_lat_def split: option.splits)

lemma update_lat_versions:
  "get_last_version (update_lat m key t) k = get_last_version m k"
  "get_last_present_version (update_lat m key t) k = get_last_present_version m k"
  "get_lat m key < t \<Longrightarrow> get_lat (update_lat m key t) k = (if k = key then t else get_lat m k)"
  by (auto simp: update_lat_def get_last_version_def get_last_present_version_def get_lat_def split: option.splits)

text \<open>The membership test stays abstract in what follows.\<close>

declare bm_contains_iff [simp del]

lemma bm_contains_insert [simp]: "bm_contains (bm_insert k v m) k' \<longleftrightarrow> k' = k \<or> bm_contains m k'"
  by (simp add: bm_contains_def)

text \<open>Each statement: it can be applied, and what it keeps and does.\<close>

definition fits :: "timestamp \<Rightarrow> bool" where
  "fits t \<longleftrightarrow> timestamp_add t (mk_t 1) \<noteq> None"

lemma alter_applies:
  assumes ok: "gossip_ok g" and check: "alter_valid g i = Some True" and fits: "fits (get_lat (table_generation g) (at_table_path i))"
    and "\<forall>schema \<in> snd ` set (db_schema g). fits (get_lat (val_cols schema) (ao_col_name (at_alter_op i)))"
  shows "\<exists>t g'. alter_apply (at_table_path i) (at_alter_op i) hint g = Some (t, g')"
proof -
  from check obtain gen sg schema where v: "get_last_version (table_generation g) (at_table_path i) = Some (gen, sg)"
    and schema: "bm_get (db_schema g) (at_table_path i, gen) = Some schema"
    by (auto simp: alter_valid_def bind_eq_Some_conv split: option.splits)
  from fits obtain t1 where t1: "timestamp_add (get_lat (table_generation g) (at_table_path i)) (mk_t 1) = Some t1" by (auto simp: fits_def)
  have "fits (get_lat (val_cols schema) (ao_col_name (at_alter_op i)))" using assms(4) map_of_SomeD [OF schema] by force
  then obtain t2 where t2: "timestamp_add (get_lat (val_cols schema) (ao_col_name (at_alter_op i))) (mk_t 1) = Some t2" by (auto simp: fits_def)
  have "get_lat (val_cols schema) (ao_col_name (at_alter_op i)) < max (max hint t1) t2" using timestamp_add_less [OF t2] by (simp add: less_max_iff_disj)
  from write_returns [OF this] v schema t1 t2 show ?thesis by (auto simp: alter_apply_def bind_eq_Some_conv Let_def)
qed

lemma alter_keeps:
  assumes ok: "gossip_ok g" and "alter_apply table op hint g = Some (t, g')"
  shows "gossip_ok g' \<and> hint \<le> t \<and> get_lat (table_generation g) table < t \<and> get_lat (table_generation g') table = t"
proof -
  from assms(2) obtain gen sg schema t1 t2 cols where v: "get_last_version (table_generation g) table = Some (gen, sg)"
    and schema: "bm_get (db_schema g) (table, gen) = Some schema" and t1: "timestamp_add (get_lat (table_generation g) table) (mk_t 1) = Some t1"
    and t: "t = max (max hint t1) t2"
    and g': "g' = g\<lparr>table_generation := update_lat (table_generation g) table t, db_schema := bm_insert (table, gen) (schema\<lparr>val_cols := cols\<rparr>) (db_schema g)\<rparr>"
    by (auto simp: alter_apply_def bind_eq_Some_conv Let_def)
  have lat: "get_lat (table_generation g) table < t" using timestamp_add_less [OF t1] t by (simp add: less_max_iff_disj)
  have "bm_contains (bm_insert (table, gen) x (db_schema g)) k \<longleftrightarrow> bm_contains (db_schema g) k" for x k
    by (cases "k = (table, gen)") (simp_all add: bm_contains_def schema)
  then have dom: "bm_contains (db_schema g') k \<longleftrightarrow> bm_contains (db_schema g) k" for k by (simp add: g')
  have last: "get_last_present_version (table_generation g') k = get_last_present_version (table_generation g) k" for k
    by (simp add: g' update_lat_versions)
  have configs: "sharding_config g' = sharding_config g" "tablet_address_config g' = tablet_address_config g" by (simp_all add: g')
  have "gossip_ok g'" using ok unfolding gossip_ok_def dom last configs .
  moreover have "hint \<le> t" by (simp add: t le_max_iff_disj)
  ultimately show ?thesis using lat by (simp add: g' update_lat_versions)
qed

lemma those_returns: "(\<forall>x \<in> set xs. f x \<noteq> None) \<Longrightarrow> \<exists>ys. those (map f xs) = Some ys"
  by (induction xs) auto

lemma get_rms_returns:
  assumes "gossip_ok g" and "get_last_version (table_generation g) table \<noteq> None"
  shows "\<exists>rms. get_rms g table = Some rms"
proof -
  from assms(2) obtain gen sg where v: "get_last_version (table_generation g) table = Some (gen, sg)" by auto
  from assms(1) last_version_present [OF v] obtain shards where shards: "bm_get (sharding_config g) (table, (gen, sg)) = Some shards"
    by (auto simp: bm_contains_def dest!: gossip_ok_present)
  with assms(1) have "\<forall>tid \<in> snd ` set shards. bm_contains (tablet_address_config g) tid" unfolding gossip_ok_def by blast
  then have "\<forall>x \<in> set shards. (\<lambda>(_, tid). map_option (\<lambda>sid. (sid, tid)) (bm_get (tablet_address_config g) tid)) x \<noteq> None"
    by (force simp: bm_contains_def)
  from those_returns [OF this] v shards show ?thesis by (simp add: get_rms_def)
qed

lemma drop_applies:
  assumes "gossip_ok g" and "drop_valid g i = Some True" and "fits (get_lat (table_generation g) (dt_table_path i))"
  shows "\<exists>t rms g'. drop_apply (dt_table_path i) hint g = Some ((t, rms), g')"
proof -
  from assms(3) obtain t1 where t1: "timestamp_add (get_lat (table_generation g) (dt_table_path i)) (mk_t 1) = Some t1" by (auto simp: fits_def)
  have "get_lat (table_generation g) (dt_table_path i) < max hint t1" using timestamp_add_less [OF t1] by (simp add: less_max_iff_disj)
  from write_returns [OF this, of None] obtain m where "mvm_write (table_generation g) (dt_table_path i) None (max hint t1) = Some m" by blast
  with get_rms_returns [OF assms(1), of "dt_table_path i"] assms(2) t1 show ?thesis
    by (auto simp: drop_apply_def drop_valid_def)
qed

lemma drop_keeps:
  assumes ok: "gossip_ok g" and "drop_apply table hint g = Some ((t, rms), g')"
  shows "gossip_ok g' \<and> hint \<le> t \<and> get_lat (table_generation g) table < t \<and> get_lat (table_generation g') table = t"
proof -
  from assms(2) obtain t1 m where t: "t = max hint t1" and m: "mvm_write (table_generation g) table None t = Some m"
    and g': "g' = g\<lparr>table_generation := m\<rparr>" by (auto simp: drop_apply_def bind_eq_Some_conv Let_def)
  have "gossip_ok g'" using ok unfolding gossip_ok_def g' by (simp add: write_versions [OF m])
  with t show ?thesis using write_versions(4) [OF m] by (simp add: g' write_versions(3) [OF m])
qed

lemma write_val_cols_returns:
  "distinct (map fst cols) \<Longrightarrow> \<forall>col \<in> fst ` set cols. get_lat m col < t \<Longrightarrow> \<exists>m'. write_val_cols cols t m = Some m'"
proof (induction cols arbitrary: m)
  case (Cons c cols)
  obtain col ct where c: "c = (col, ct)" by (cases c)
  from Cons.prems(2) c have "get_lat m col < t" by simp
  from write_returns [OF this] obtain m' where m': "mvm_write m col (Some ct) t = Some m'" by blast
  have "\<forall>col' \<in> fst ` set cols. get_lat m' col' < t" using Cons.prems c by (auto simp: write_versions [OF m'] image_iff)
  with Cons.IH [of m'] Cons.prems(1) c m' show ?case by simp
qed simp

lemma next_gen_fresh:
  assumes "gossip_ok g"
  shows "\<not> bm_contains (db_schema g) (table, next_gen (get_last_present_version (table_generation g) table))"
proof
  assume "bm_contains (db_schema g) (table, next_gen (get_last_present_version (table_generation g) table))"
  with assms obtain gen' sg where "get_last_present_version (table_generation g) table = Some (gen', sg)"
    "next_gen (get_last_present_version (table_generation g) table) \<le> gen'" unfolding gossip_ok_def by blast
  then show False by (simp add: next_gen_def gen_next_def)
qed

lemma create_applies:
  assumes ok: "gossip_ok g" and fits: "fits (get_lat (table_generation g) (ct_table_path i))" and cols: "distinct (map fst (ct_val_cols i))"
  shows "\<exists>t g'. apply_create i hint g = Some (t, g')"
proof -
  from fits obtain t1 where t1: "timestamp_add (get_lat (table_generation g) (ct_table_path i)) (mk_t 1) = Some t1" by (auto simp: fits_def)
  have lat: "get_lat (table_generation g) (ct_table_path i) < max hint t1" using timestamp_add_less [OF t1] by (simp add: less_max_iff_disj)
  have "mk_t 0 \<le> x" for x by (auto simp: mk_t_def less_eq_timestamp_def word_neq_0_conv)
  with lat have "mk_t 0 < max hint t1" using order.strict_trans1 by blast
  then have "\<forall>col \<in> fst ` set (ct_val_cols i). get_lat (mvm_new :: (col_name, col_type) mvm) col < max hint t1"
    by (simp add: get_lat_def mvm_new_def)
  from write_val_cols_returns [OF cols this] obtain vcols where "write_val_cols (ct_val_cols i) (max hint t1) mvm_new = Some vcols" by blast
  with write_returns [OF lat, of "Some (next_gen (get_last_present_version (table_generation g) (ct_table_path i)), 0)"] next_gen_fresh [OF ok] t1
  show ?thesis by (auto simp: apply_create_def Let_def)
qed

lemma fold_addresses: "bm_contains (fold (\<lambda>(_, tid, sid). bm_insert tid sid) shards m) tid \<longleftrightarrow> tid \<in> (\<lambda>(_, tid, _). tid) ` set shards \<or> bm_contains m tid"
  by (induction shards arbitrary: m) auto

lemma create_keeps:
  assumes ok: "gossip_ok g" and app: "apply_create i hint g = Some (t, g')" and shards: "shards_ok (map (\<lambda>(range, tid, _). (range, tid)) (ct_shards i))"
  shows "gossip_ok g' \<and> hint \<le> t \<and> get_lat (table_generation g) (ct_table_path i) < t \<and> get_lat (table_generation g') (ct_table_path i) = t"
proof -
  let ?table = "ct_table_path i" and ?gen = "next_gen (get_last_present_version (table_generation g) (ct_table_path i))"
    and ?shards = "map (\<lambda>(range, tid, _). (range, tid)) (ct_shards i)"
  from app obtain t1 m cols where t: "t = max hint t1" and m: "mvm_write (table_generation g) ?table (Some (?gen, 0)) t = Some m"
    and g': "g' = g\<lparr>table_generation := m, db_schema := bm_insert (?table, ?gen) \<lparr>key_cols = ct_key_cols i, val_cols = cols\<rparr> (db_schema g),
      sharding_config := bm_insert (?table, (?gen, 0)) ?shards (sharding_config g),
      tablet_address_config := fold (\<lambda>(_, tid, sid). bm_insert tid sid) (ct_shards i) (tablet_address_config g)\<rparr>"
    by (auto simp: apply_create_def bind_eq_Some_conv Let_def split: if_splits)
  have addresses: "bm_contains (tablet_address_config g') tid \<longleftrightarrow> tid \<in> (\<lambda>(_, tid, _). tid) ` set (ct_shards i) \<or> bm_contains (tablet_address_config g) tid" for tid
    by (simp add: g' fold_addresses)
  have "gossip_ok g'"
  proof (rule gossip_okI)
    fix table gen sg
    assume last: "get_last_present_version (table_generation g') table = Some (gen, sg)"
    show "bm_contains (db_schema g') (table, gen) \<and> bm_contains (sharding_config g') (table, (gen, sg))"
    proof (cases "table = ?table")
      case False
      with last have "get_last_present_version (table_generation g) table = Some (gen, sg)" by (simp add: g' write_versions(2) [OF m])
      from gossip_ok_present [OF ok this] show ?thesis by (simp add: g')
    qed (use last in \<open>simp add: g' write_versions(2) [OF m]\<close>)
  next
    fix table gen
    assume schema: "bm_contains (db_schema g') (table, gen)"
    show "\<exists>gen' sg. get_last_present_version (table_generation g') table = Some (gen', sg) \<and> gen \<le> gen'"
    proof (cases "table = ?table")
      case True
      have "gen \<le> ?gen" if "bm_contains (db_schema g) (?table, gen)" using gossip_ok_schema [OF ok that] by (auto simp: next_gen_def gen_next_def)
      with schema True show ?thesis by (auto simp: g' write_versions(2) [OF m])
    next
      case False
      with schema gossip_ok_schema [OF ok, of table gen] show ?thesis by (simp add: g' write_versions(2) [OF m])
    qed
  next
    fix key ss
    assume get: "bm_get (sharding_config g') key = Some ss"
    show "shards_ok ss \<and> (\<forall>tid \<in> snd ` set ss. bm_contains (tablet_address_config g') tid)"
    proof (cases "key = (?table, (?gen, 0))")
      case True
      then have "ss = ?shards" using get by (simp add: g')
      moreover have "snd ` set ?shards = (\<lambda>(_, tid, _). tid) ` set (ct_shards i)" by force
      ultimately show ?thesis using shards addresses by metis
    next
      case False
      with get gossip_ok_shards [OF ok, of key ss] show ?thesis by (simp add: g' fold_addresses)
    qed
  qed
  with t show ?thesis using write_versions(4) [OF m] by (simp add: g' write_versions(3) [OF m])
qed

lemma split_check:
  assumes "split_valid g i = Some True"
  obtains gen sg shards range k where "get_last_version (table_generation g) (ss_table_path i) = Some (gen, sg)"
    and "bm_get (sharding_config g) (ss_table_path i, (gen, sg)) = Some shards" and "(range, st_tid (ss_target_old i)) \<in> set shards"
    and "\<not> bm_contains (tablet_address_config g) (st_tid (ss_target_new i))" and "range_contains range k"
    and "st_key_range (ss_target_old i) = \<lparr>kr_start = kr_start range, kr_end = Some k\<rparr>"
    and "st_key_range (ss_target_new i) = \<lparr>kr_start = Some k, kr_end = kr_end range\<rparr>"
    and "bm_contains (slave_address_config g) (st_sid (ss_target_new i))"
proof -
  from assms obtain gen sg shards where v: "get_last_version (table_generation g) (ss_table_path i) = Some (gen, sg)"
    and shards: "bm_get (sharding_config g) (ss_table_path i, (gen, sg)) = Some shards"
    by (auto simp: split_valid_def bind_eq_Some_conv split: option.splits)
  then obtain range tid where f: "find (\<lambda>(_, t). t = st_tid (ss_target_old i)) shards = Some (range, tid)"
    using assms by (auto simp: split_valid_def split: option.splits)
  then have tid: "tid = st_tid (ss_target_old i)" and mem: "(range, st_tid (ss_target_old i)) \<in> set shards"
    by (auto simp: find_Some_iff in_set_conv_nth)
  from assms v shards f obtain k where "kr_end (st_key_range (ss_target_old i)) = Some k" "range_contains range k"
      "bm_contains (slave_address_config g) (st_sid (ss_target_new i))" "\<not> bm_contains (tablet_address_config g) (st_tid (ss_target_new i))"
      "kr_start range = kr_start (st_key_range (ss_target_old i))" "kr_end (st_key_range (ss_target_old i)) = kr_start (st_key_range (ss_target_new i))"
      "kr_end (st_key_range (ss_target_new i)) = kr_end range"
    by (auto simp: split_valid_def Let_def bind_eq_Some_conv split: if_splits option.splits)
  with v shards mem show thesis by (intro that [of gen sg shards range k]) auto
qed

text \<open>The gossip data \<open>g'\<close> has the same of a table as \<open>g\<close>.\<close>

definition same_table :: "table_path \<Rightarrow> gossip_view \<Rightarrow> gossip_view \<Rightarrow> bool" where
  "same_table table g g' \<longleftrightarrow>
     get_last_version (table_generation g') table = get_last_version (table_generation g) table \<and>
     get_lat (table_generation g') table = get_lat (table_generation g) table \<and>
     (\<forall>gen. bm_get (db_schema g') (table, gen) = bm_get (db_schema g) (table, gen)) \<and>
     (\<forall>full_gen. bm_get (sharding_config g') (table, full_gen) = bm_get (sharding_config g) (table, full_gen))"

text \<open>
  A split that was admitted: its check passed against earlier gossip data, and its table is still the same. What
  the check looked at of other tables and of the groups may have changed.
\<close>

definition split_admitted :: "gossip_view \<Rightarrow> shard_split_tm_inner \<Rightarrow> bool" where
  "split_admitted g i \<longleftrightarrow> (\<exists>g0. gossip_ok g0 \<and> split_valid g0 i = Some True \<and> same_table (ss_table_path i) g0 g)"

lemma split_admitted_check:
  assumes "split_admitted g i"
  obtains gen sg shards range k where "get_last_version (table_generation g) (ss_table_path i) = Some (gen, sg)"
    and "bm_get (sharding_config g) (ss_table_path i, (gen, sg)) = Some shards" and "(range, st_tid (ss_target_old i)) \<in> set shards"
    and "st_tid (ss_target_new i) \<notin> snd ` set shards" and "range_contains range k"
    and "st_key_range (ss_target_old i) = \<lparr>kr_start = kr_start range, kr_end = Some k\<rparr>"
    and "st_key_range (ss_target_new i) = \<lparr>kr_start = Some k, kr_end = kr_end range\<rparr>"
proof -
  from assms obtain before where ok: "gossip_ok before" and check: "split_valid before i = Some True" and same: "same_table (ss_table_path i) before g"
    unfolding split_admitted_def by blast
  from split_check [OF check] obtain gen sg shards range k where v: "get_last_version (table_generation before) (ss_table_path i) = Some (gen, sg)"
    and shards: "bm_get (sharding_config before) (ss_table_path i, (gen, sg)) = Some shards" and old: "(range, st_tid (ss_target_old i)) \<in> set shards"
    and fresh: "\<not> bm_contains (tablet_address_config before) (st_tid (ss_target_new i))" and k: "range_contains range k"
      "st_key_range (ss_target_old i) = \<lparr>kr_start = kr_start range, kr_end = Some k\<rparr>"
      "st_key_range (ss_target_new i) = \<lparr>kr_start = Some k, kr_end = kr_end range\<rparr>" by metis
  have "st_tid (ss_target_new i) \<notin> snd ` set shards" using gossip_ok_shards [OF ok shards] fresh by blast
  moreover have "get_last_version (table_generation g) (ss_table_path i) = Some (gen, sg)" "bm_get (sharding_config g) (ss_table_path i, (gen, sg)) = Some shards"
    using same v shards unfolding same_table_def by simp_all
  ultimately show thesis using old k by (intro that)
qed

lemma split_applies:
  assumes "gossip_ok g" and "split_admitted g i" and "fits (get_lat (table_generation g) (ss_table_path i))"
  shows "\<exists>t g'. apply_sharding i hint g = Some (t, g')"
proof -
  from assms(3) obtain t1 where t1: "timestamp_add (get_lat (table_generation g) (ss_table_path i)) (mk_t 1) = Some t1" by (auto simp: fits_def)
  have lat: "get_lat (table_generation g) (ss_table_path i) < max hint t1" using timestamp_add_less [OF t1] by (simp add: less_max_iff_disj)
  from split_admitted_check [OF assms(2)] obtain gen sg shards where "get_last_version (table_generation g) (ss_table_path i) = Some (gen, sg)"
    and "bm_get (sharding_config g) (ss_table_path i, (gen, sg)) = Some shards" by metis
  with t1 write_returns [OF lat, of "Some (gen, gen_next sg)"] last_version_present [of "table_generation g" "ss_table_path i" "(gen, sg)"]
  show ?thesis by (auto simp: apply_sharding_def Let_def)
qed

lemma split_keeps:
  assumes ok: "gossip_ok g" and check: "split_admitted g i" and app: "apply_sharding i hint g = Some (t, g')"
  shows "gossip_ok g' \<and> hint \<le> t \<and> get_lat (table_generation g) (ss_table_path i) < t \<and> get_lat (table_generation g') (ss_table_path i) = t"
proof -
  let ?table = "ss_table_path i"
  from split_admitted_check [OF check] obtain gen sg shards range k where v: "get_last_version (table_generation g) ?table = Some (gen, sg)"
    and shards: "bm_get (sharding_config g) (?table, (gen, sg)) = Some shards" and old: "(range, st_tid (ss_target_old i)) \<in> set shards"
    and fresh: "st_tid (ss_target_new i) \<notin> snd ` set shards" and k: "range_contains range k"
      "st_key_range (ss_target_old i) = \<lparr>kr_start = kr_start range, kr_end = Some k\<rparr>"
      "st_key_range (ss_target_new i) = \<lparr>kr_start = Some k, kr_end = kr_end range\<rparr>" by metis
  note last = last_version_present [OF v]
  let ?new = "split_shards (ss_target_old i) (ss_target_new i) shards"
  from app shards last obtain t1 m where t: "t = max hint t1" and m: "mvm_write (table_generation g) ?table (Some (gen, gen_next sg)) t = Some m"
    and g': "g' = g\<lparr>table_generation := m, sharding_config := bm_insert (?table, (gen, gen_next sg)) ?new (sharding_config g),
      tablet_address_config := bm_insert (st_tid (ss_target_new i)) (st_sid (ss_target_new i)) (tablet_address_config g)\<rparr>"
    by (auto simp: apply_sharding_def bind_eq_Some_conv Let_def)
  from gossip_ok_shards [OF ok shards] obtain keys where keys: "map fst shards = ranges_from None keys" "sorted keys"
    and tids: "distinct (map snd shards)" and addr: "\<forall>tid \<in> snd ` set shards. bm_contains (tablet_address_config g) tid" by (auto simp: shards_ok_def)
  from split_ranges [OF keys _ tids old k(2,3,1)] obtain keys' where "map fst ?new = ranges_from None keys'" "sorted keys'" by auto
  moreover have new: "distinct (map snd ?new)" "snd ` set ?new \<subseteq> insert (st_tid (ss_target_new i)) (snd ` set shards)"
    using split_tids [of "ss_target_new i" shards "ss_target_old i"] tids fresh by blast+
  ultimately have new_ok: "shards_ok ?new" by (auto simp: shards_ok_def)
  have "gossip_ok g'"
  proof (rule gossip_okI)
    fix table gen' sg'
    assume "get_last_present_version (table_generation g') table = Some (gen', sg')"
    with gossip_ok_present [OF ok last] gossip_ok_present [OF ok, of table gen' sg']
    show "bm_contains (db_schema g') (table, gen') \<and> bm_contains (sharding_config g') (table, (gen', sg'))"
      by (simp add: g' write_versions(2) [OF m] split: if_splits)
  next
    fix table gen'
    assume "bm_contains (db_schema g') (table, gen')"
    with gossip_ok_schema [OF ok, of table gen'] last
    show "\<exists>gen'' sg. get_last_present_version (table_generation g') table = Some (gen'', sg) \<and> gen' \<le> gen''"
      by (auto simp: g' write_versions(2) [OF m])
  next
    fix key ss
    assume get: "bm_get (sharding_config g') key = Some ss"
    show "shards_ok ss \<and> (\<forall>tid \<in> snd ` set ss. bm_contains (tablet_address_config g') tid)"
    proof (cases "key = (?table, (gen, gen_next sg))")
      case True
      with get have ss: "ss = ?new" by (simp add: g')
      have "bm_contains (tablet_address_config g') tid" if "tid \<in> snd ` set ?new" for tid
      proof -
        from that new(2) have "tid = st_tid (ss_target_new i) \<or> tid \<in> snd ` set shards" by blast
        with addr show ?thesis by (auto simp: g')
      qed
      with new_ok ss show ?thesis by simp
    next
      case False
      with get gossip_ok_shards [OF ok, of key ss] show ?thesis by (simp add: g')
    qed
  qed
  with t show ?thesis using write_versions(4) [OF m] by (simp add: g' write_versions(3) [OF m])
qed

end
