(* ===== verification/Master_Theorems.thy ===== *)
theory Master_Theorems
  imports Ddl_Theorems Master_Exclusion Ddl_Gossip
begin

text \<open>
  The master's schema changes as a whole: the histories of the gossip data, what holds in each of them, and that
  the check that admits a statement still holds when the statement is applied, since in the
  meantime only other tables change.
\<close>

section \<open>Histories of the gossip data\<close>

text \<open>
  One change of the gossip data: a statement of a table, or a reconfiguration of the groups. The shards of a new table are
  those of \<open>simple_partition\<close> when the request arrived, with tablet ids that do not repeat. A split is applied when
  the main loop has admitted it, against earlier gossip data with the same table; it is not checked again.
\<close>

inductive ddl_change :: "table_path option \<Rightarrow> gossip_view \<Rightarrow> gossip_view \<Rightarrow> bool" where
  altered: "alter_apply (at_table_path (i :: alter_table_tm_inner)) (at_alter_op i) hint g = Some (t, g') \<Longrightarrow> ddl_change (Some (at_table_path i)) g g'"
| dropped: "drop_apply (dt_table_path (i :: drop_table_tm_inner)) hint g = Some ((t, rms), g') \<Longrightarrow> ddl_change (Some (dt_table_path i)) g g'"
| created: "simple_partition earlier (ct_key_cols i) rand = Some (ct_shards i, rand') \<Longrightarrow> inj (rng_tid rand) \<Longrightarrow>
    apply_create i hint g = Some (t, g') \<Longrightarrow> ddl_change (Some (ct_table_path i)) g g'"
| split_shard: "split_admitted g i \<Longrightarrow> apply_sharding i hint g = Some (t, g') \<Longrightarrow> ddl_change (Some (ss_table_path i)) g g'"
| reconfigured: "ddl_change None g (g\<lparr>slave_address_config := slaves, master_address_config := masters\<rparr>)"

inductive ddl_history :: "gossip_view \<Rightarrow> bool" where
  start: "ddl_history (gossip_get (gossip_new slaves masters))"
| change: "ddl_history g \<Longrightarrow> ddl_change table g g' \<Longrightarrow> ddl_history g'"

lemma gossip_ok_new: "gossip_ok (gossip_get (gossip_new slaves masters))"
  by (rule gossip_okI) (simp_all add: gossip_new_def mvm_new_def get_last_present_version_def bm_contains_def)

lemma ddl_change_ok: "ddl_change table g g' \<Longrightarrow> gossip_ok g \<Longrightarrow> gossip_ok g'"
proof (induction rule: ddl_change.induct)
  case (created earlier i rand rand' hint g t g')
  with create_keeps [OF created.prems created.hyps(3) simple_partition_shards(1) [OF created.hyps(1,2)]] show ?case by simp
next
  case (reconfigured g slaves masters)
  then show ?case by (simp add: gossip_ok_def)
qed (use alter_keeps drop_keeps split_keeps in blast)+

lemma ddl_history_ok: "ddl_history g \<Longrightarrow> gossip_ok g"
  by (induction rule: ddl_history.induct) (auto intro: gossip_ok_new ddl_change_ok)

section \<open>A statement after the changes of other tables\<close>

lemma same_table_refl: "same_table table g g"
  by (simp add: same_table_def)

lemma same_table_trans: "same_table table g g1 \<Longrightarrow> same_table table g1 g2 \<Longrightarrow> same_table table g g2"
  by (simp add: same_table_def)

lemma ddl_change_other: "ddl_change other g g' \<Longrightarrow> other \<noteq> Some table \<Longrightarrow> same_table table g g'"
proof (induction rule: ddl_change.induct)
  case (altered i hint g t g')
  then have "at_table_path i \<noteq> table" by simp
  moreover from this have "get_lat (update_lat m (at_table_path i) x) table = get_lat m table" for m :: "(table_path, full_gen) mvm" and x
    by (simp add: get_lat_def update_lat_def split: option.split)
  ultimately show ?case using altered.hyps
    by (auto simp: same_table_def alter_apply_def bind_eq_Some_conv Let_def update_lat_versions)
next
  case (dropped i hint g t rms g')
  then show ?case by (auto simp: same_table_def drop_apply_def bind_eq_Some_conv Let_def write_versions)
next
  case (created earlier i rand rand' hint g t g')
  then show ?case by (auto simp: same_table_def apply_create_def bind_eq_Some_conv Let_def write_versions split: if_splits)
next
  case (split_shard g i hint t g')
  then show ?case by (auto simp: same_table_def apply_sharding_def bind_eq_Some_conv Let_def write_versions)
qed (simp add: same_table_def)

text \<open>Any number of changes, none of them of \<open>table\<close>.\<close>

definition others_change :: "table_path \<Rightarrow> gossip_view \<Rightarrow> gossip_view \<Rightarrow> bool" where
  "others_change table = (\<lambda>g g'. \<exists>other. other \<noteq> Some table \<and> ddl_change other g g')\<^sup>*\<^sup>*"

lemma others_change_same: "others_change table g g' \<Longrightarrow> same_table table g g'"
  unfolding others_change_def by (induction rule: rtranclp_induct) (auto intro: same_table_refl same_table_trans ddl_change_other)

lemma others_change_history: "others_change table g g' \<Longrightarrow> ddl_history g \<Longrightarrow> ddl_history g'"
  unfolding others_change_def by (induction rule: rtranclp_induct) (auto intro: ddl_history.change)

lemma checks_same:
  "same_table (at_table_path a) g g' \<Longrightarrow> alter_valid g' a = alter_valid g a"
  "same_table (dt_table_path d) g g' \<Longrightarrow> drop_valid g' d = drop_valid g d"
  "same_table (ct_table_path c) g g' \<Longrightarrow> create_valid g' c = create_valid g c"
  by (auto simp: same_table_def alter_valid_def drop_valid_def create_valid_def split: option.splits)

lemma split_admitted_same:
  assumes "ddl_history g" and "split_valid g i = Some True" and "same_table (ss_table_path i) g g'"
  shows "split_admitted g' i"
  unfolding split_admitted_def using assms ddl_history_ok by blast

section \<open>Properties\<close>

lemma table_partitioned:
  assumes "gossip_ok g" and "get_last_version (table_generation g) table = Some (gen, sg)"
  shows "\<exists>schema shards rms. bm_get (db_schema g) (table, gen) = Some schema \<and> bm_get (sharding_config g) (table, (gen, sg)) = Some shards \<and>
     distinct (map snd shards) \<and> (\<forall>v. \<exists>!shard. shard \<in> set shards \<and> range_contains (fst shard) v) \<and>
     get_rms g table = Some rms \<and> map snd rms = map snd shards"
proof -
  from gossip_ok_present [OF assms(1) last_version_present [OF assms(2)]] obtain schema shards
    where s: "bm_get (db_schema g) (table, gen) = Some schema" and sh: "bm_get (sharding_config g) (table, (gen, sg)) = Some shards"
    by (auto simp: bm_contains_def simp del: bm_contains_iff)
  from gossip_ok_shards [OF assms(1) sh] have ok: "shards_ok shards" by simp
  from get_rms_returns [OF assms(1), of table] assms(2) obtain rms where rms: "get_rms g table = Some rms" by auto
  have "those (map (\<lambda>(_, tid). map_option (\<lambda>sid. (sid, tid)) (f tid)) xs) = Some ys \<Longrightarrow> map snd ys = map snd xs"
    for f :: "tablet_group_id \<Rightarrow> slave_group_id option" and xs :: "(tablet_key_range \<times> tablet_group_id) list" and ys
    by (induction xs arbitrary: ys) (auto split: option.splits)
  with rms assms(2) sh have "map snd rms = map snd shards" by (auto simp: get_rms_def)
  with s sh rms ok shards_hold [OF ok] show ?thesis by (auto simp: shards_ok_def)
qed

text \<open>
  C9: Whatever tables were created, altered, dropped and split, each split admitted before other tables changed, and whatever
  groups were added, the gossip data is well formed: a table that exists has a schema and shards for its generation, every value of
  the first key column lies in the range of exactly one shard, the shards of the table are different tablets, and each of them has an address.
\<close>

theorem table_keys_in_one_tablet:
  assumes "ddl_history g" and "get_last_version (table_generation g) table = Some (gen, sg)"
  shows "\<exists>schema shards rms. bm_get (db_schema g) (table, gen) = Some schema \<and> bm_get (sharding_config g) (table, (gen, sg)) = Some shards \<and>
     distinct (map snd shards) \<and> (\<forall>v. \<exists>!shard. shard \<in> set shards \<and> range_contains (fst shard) v) \<and>
     get_rms g table = Some rms \<and> map snd rms = map snd shards"
  by (rule table_partitioned [OF ddl_history_ok [OF assms(1)] assms(2)])

text \<open>What the statements leave in the gossip data.\<close>

lemma alter_effect:
  assumes "alter_apply table op hint g = Some (t, g')"
  shows "\<exists>gen sg schema. get_last_version (table_generation g') table = Some (gen, sg) \<and> bm_get (db_schema g') (table, gen) = Some schema \<and>
    get_last_version (val_cols schema) (ao_col_name op) = maybe_col_type op"
  using assms by (auto simp: alter_apply_def bind_eq_Some_conv Let_def update_lat_versions write_versions)

lemma drop_effect: "drop_apply table hint g = Some ((t, rms), g') \<Longrightarrow> get_last_version (table_generation g') table = None"
  by (auto simp: drop_apply_def bind_eq_Some_conv Let_def write_versions)

lemma create_effect:
  "apply_create i hint g = Some (t, g') \<Longrightarrow>
     \<exists>gen. get_last_version (table_generation g') (ct_table_path i) = Some (gen, 0) \<and>
       bm_get (sharding_config g') (ct_table_path i, (gen, 0)) = Some (map (\<lambda>(range, tid, _). (range, tid)) (ct_shards i))"
  by (auto simp: apply_create_def bind_eq_Some_conv Let_def write_versions split: if_splits)

lemma split_effect:
  "apply_sharding i hint g = Some (t, g') \<Longrightarrow> split_admitted g i \<Longrightarrow>
     \<exists>gen sg shards. get_last_version (table_generation g) (ss_table_path i) = Some (gen, sg) \<and>
       bm_get (sharding_config g) (ss_table_path i, (gen, sg)) = Some shards \<and>
       get_last_version (table_generation g') (ss_table_path i) = Some (gen, sg + 1) \<and>
       bm_get (sharding_config g') (ss_table_path i, (gen, sg + 1)) = Some (split_shards (ss_target_old i) (ss_target_new i) shards)"
  by (elim split_admitted_check) (auto simp: apply_sharding_def bind_eq_Some_conv Let_def write_versions gen_next_def dest: last_version_present)

text \<open>A statement that was admitted against \<open>g\<close> and is applied to \<open>g1\<close>.\<close>

lemma admitted_alter:
  assumes "ddl_history g" and "alter_valid g i = Some True" and others: "others_change (at_table_path i) g g1"
    and fits: "fits (get_lat (table_generation g1) (at_table_path i))"
      "\<forall>schema \<in> snd ` set (db_schema g1). fits (get_lat (val_cols schema) (ao_col_name (at_alter_op i)))"
  shows "\<exists>t g'. alter_apply (at_table_path i) (at_alter_op i) hint g1 = Some (t, g') \<and> hint \<le> t \<and>
    get_lat (table_generation g1) (at_table_path i) < t \<and>
    (\<exists>gen sg schema. get_last_version (table_generation g') (at_table_path i) = Some (gen, sg) \<and>
       bm_get (db_schema g') (at_table_path i, gen) = Some schema \<and>
       get_last_version (val_cols schema) (ao_col_name (at_alter_op i)) = maybe_col_type (at_alter_op i))"
proof -
  have ok: "gossip_ok g1" by (rule ddl_history_ok [OF others_change_history [OF others assms(1)]])
  have "alter_valid g1 i = Some True" using checks_same(1) [OF others_change_same [OF others]] assms(2) by simp
  from alter_applies [OF ok this fits] obtain t g' where app: "alter_apply (at_table_path i) (at_alter_op i) hint g1 = Some (t, g')" by blast
  with alter_keeps [OF ok app] alter_effect [OF app] show ?thesis by blast
qed

lemma admitted_drop:
  assumes "ddl_history g" and "drop_valid g i = Some True" and others: "others_change (dt_table_path i) g g1"
    and fits: "fits (get_lat (table_generation g1) (dt_table_path i))"
  shows "\<exists>t rms g'. drop_apply (dt_table_path i) hint g1 = Some ((t, rms), g') \<and> hint \<le> t \<and>
    get_lat (table_generation g1) (dt_table_path i) < t \<and> get_last_version (table_generation g') (dt_table_path i) = None"
proof -
  have ok: "gossip_ok g1" by (rule ddl_history_ok [OF others_change_history [OF others assms(1)]])
  have "drop_valid g1 i = Some True" using checks_same(2) [OF others_change_same [OF others]] assms(2) by simp
  from drop_applies [OF ok this fits] obtain t rms g' where app: "drop_apply (dt_table_path i) hint g1 = Some ((t, rms), g')" by blast
  with drop_keeps [OF ok app] drop_effect [OF app] show ?thesis by blast
qed

lemma admitted_create:
  assumes "ddl_history g" and others: "others_change (ct_table_path i) g g1" and "distinct (map fst (ct_val_cols i))"
    and shards: "shards_ok (map (\<lambda>(range, tid, _). (range, tid)) (ct_shards i))"
    and fits: "fits (get_lat (table_generation g1) (ct_table_path i))"
  shows "\<exists>t g'. apply_create i hint g1 = Some (t, g') \<and> hint \<le> t \<and> get_lat (table_generation g1) (ct_table_path i) < t \<and>
    (\<exists>gen. get_last_version (table_generation g') (ct_table_path i) = Some (gen, 0) \<and>
       bm_get (sharding_config g') (ct_table_path i, (gen, 0)) = Some (map (\<lambda>(range, tid, _). (range, tid)) (ct_shards i)))"
proof -
  have ok: "gossip_ok g1" by (rule ddl_history_ok [OF others_change_history [OF others assms(1)]])
  from create_applies [OF ok fits assms(3)] obtain t g' where app: "apply_create i hint g1 = Some (t, g')" by blast
  with create_keeps [OF ok app shards] create_effect [OF app] show ?thesis by blast
qed

lemma admitted_split:
  assumes "ddl_history g" and "split_valid g i = Some True" and others: "others_change (ss_table_path i) g g1"
    and fits: "fits (get_lat (table_generation g1) (ss_table_path i))"
  shows "\<exists>t g'. apply_sharding i hint g1 = Some (t, g') \<and> hint \<le> t \<and> get_lat (table_generation g1) (ss_table_path i) < t \<and>
    (\<exists>gen sg shards. get_last_version (table_generation g1) (ss_table_path i) = Some (gen, sg) \<and>
       bm_get (sharding_config g1) (ss_table_path i, (gen, sg)) = Some shards \<and>
       get_last_version (table_generation g') (ss_table_path i) = Some (gen, sg + 1) \<and>
       bm_get (sharding_config g') (ss_table_path i, (gen, sg + 1)) = Some (split_shards (ss_target_old i) (ss_target_new i) shards))"
proof -
  have ok: "gossip_ok g1" by (rule ddl_history_ok [OF others_change_history [OF others assms(1)]])
  have valid: "split_admitted g1 i" by (rule split_admitted_same [OF assms(1,2) others_change_same [OF others]])
  from split_applies [OF ok valid fits] obtain t g' where app: "apply_sharding i hint g1 = Some (t, g')" by blast
  with split_keeps [OF ok valid app] split_effect [OF app valid] show ?thesis by blast
qed

section \<open>The main loop returns\<close>

lemma start_ess_returns:
  "(\<And>i. valid i \<noteq> None) \<Longrightarrow> \<exists>ess' removed modified'. start_ess path valid ess modified = Some (ess', removed, modified')"
proof (induction ess arbitrary: modified)
  case (Cons e ess)
  obtain qid es where e: "e = (qid, es)" by (cases e)
  obtain b where b: "valid (st_inner es) = Some b" using Cons.prems [of "st_inner es"] by auto
  from Cons.IH [OF Cons.prems, of modified] Cons.IH [OF Cons.prems, of "bs_insert (path (st_inner es)) modified"] show ?case
    by (cases b) (auto simp: e b)
qed simp

lemma advance_ess_returns:
  assumes "\<And>i. valid (gossip_get (dm_gossip c)) i \<noteq> None" and "keyed ess"
  shows "\<exists>ess' modified' c'. advance_ess out response path valid ess modified c = Some (ess', modified', c') \<and> dm_gossip c' = dm_gossip c"
proof -
  from start_ess_returns [of "valid (gossip_get (dm_gossip c))" path ess modified] assms(1)
  obtain ess1 removed modified' where st: "start_ess path (valid (gossip_get (dm_gossip c))) ess modified = Some (ess1, removed, modified')" by auto
  have ids: "\<forall>(qid, es) \<in> set ess. st_query_id es = qid" using assms(2) by (simp add: keyed_def)
  from start_ess_removed [OF st ids keyed_distinct [OF assms(2)]] have "set removed \<subseteq> fst ` set ess1" "distinct removed" by force+
  from refuse_ess_returns [OF this, of out response c] obtain ess' c' where re: "refuse_ess out response removed ess1 c = Some (ess', c')" by auto
  with st refuse_ess_filter [OF re] show ?thesis by (simp add: advance_ess_def)
qed

lemma checks_return:
  assumes "gossip_ok g"
  shows "alter_valid g a \<noteq> None" and "split_valid g i \<noteq> None"
proof -
  have get: "\<exists>schema shards. bm_get (db_schema g) (table, gen) = Some schema \<and> bm_get (sharding_config g) (table, (gen, sg)) = Some shards"
    if "get_last_version (table_generation g) table = Some (gen, sg)" for table gen sg
    using gossip_ok_present [OF assms last_version_present [OF that]] by (auto simp: bm_contains_def simp del: bm_contains_iff)
  show "alter_valid g a \<noteq> None"
  proof (cases "get_last_version (table_generation g) (at_table_path a)")
    case (Some v)
    with get [of "at_table_path a" "fst v" "snd v"] show ?thesis by (auto simp: alter_valid_def Let_def case_prod_beta split: option.splits)
  qed (simp add: alter_valid_def)
  show "split_valid g i \<noteq> None"
  proof (cases "get_last_version (table_generation g) (ss_table_path i)")
    case (Some v)
    with get [of "ss_table_path i" "fst v" "snd v"] show ?thesis by (auto simp: split_valid_def Let_def split: option.splits)
  qed (simp add: split_valid_def)
qed

lemma advance_ddl_returns:
  assumes "gossip_ok (gossip_get (dm_gossip c))" and "ddl_keyed s"
  shows "\<exists>s' c'. advance_ddl_sharding_ess s c = Some (s', c')"
proof -
  note k = assms(2) [unfolded ddl_keyed_def]
  from advance_ess_returns [of create_valid c "create_table_tm_ess s" invalid_ddl ct_response_data ct_table_path "tables_being_modified s"] k
  obtain creates m1 c1 where 1: "advance_ess invalid_ddl ct_response_data ct_table_path create_valid (create_table_tm_ess s) (tables_being_modified s) c =
      Some (creates, m1, c1)" "dm_gossip c1 = dm_gossip c" by (auto simp: create_valid_def)
  from advance_ess_returns [of alter_valid c1 "alter_table_tm_ess s" invalid_ddl at_response_data at_table_path m1] k 1(2) checks_return(1) [OF assms(1)]
  obtain alters m2 c2 where 2: "advance_ess invalid_ddl at_response_data at_table_path alter_valid (alter_table_tm_ess s) m1 c1 = Some (alters, m2, c2)"
    "dm_gossip c2 = dm_gossip c" by auto
  from advance_ess_returns [of drop_valid c2 "drop_table_tm_ess s" invalid_ddl dt_response_data dt_table_path m2] k 2(2)
  obtain drops m3 c3 where 3: "advance_ess invalid_ddl dt_response_data dt_table_path drop_valid (drop_table_tm_ess s) m2 c2 = Some (drops, m3, c3)"
    "dm_gossip c3 = dm_gossip c" by (auto simp: drop_valid_def)
  from advance_ess_returns [of split_valid c3 "shard_split_tm_ess s" invalid_sharding ss_response_data ss_table_path m3] k 3(2) checks_return(2) [OF assms(1)]
  obtain splits m4 c4 where 4: "advance_ess invalid_sharding ss_response_data ss_table_path split_valid (shard_split_tm_ess s) m3 c3 = Some (splits, m4, c4)" by auto
  show ?thesis by (simp add: advance_ddl_sharding_ess_def 1(1) 2(1) 3(1) 4)
qed

definition no_statements :: master_statuses where
  "no_statements = \<lparr>create_table_tm_ess = [], alter_table_tm_ess = [], drop_table_tm_ess = [], shard_split_tm_ess = []\<rparr>"

lemma statements_ok: "(master_step parse)\<^sup>*\<^sup>* no_statements s \<Longrightarrow> ddl_ok s"
proof (induction rule: rtranclp_induct)
  case base
  show ?case by (simp add: no_statements_def ddl_ok_def ddl_keyed_def keyed_def started_def exclusive_def)
qed (rule master_step_ok)

text \<open>
  C7: Whatever requests, cancellations, protocol messages, log entries and changes of leadership the master
  handles, never two schema changes of one table are started at once, and the main loop returns; after it, every statement that has not started waits for a
  started one of its table, no started one was lost, and running the loop again does nothing.
\<close>

theorem one_schema_change_per_table:
  assumes "(master_step parse)\<^sup>*\<^sup>* no_statements s"
  shows "exclusive (started s) \<and>
    (ddl_history (gossip_get (dm_gossip c)) \<longrightarrow> (\<exists>s' c'. advance_ddl_sharding_ess s c = Some (s', c'))) \<and>
    (\<forall>s' c'. advance_ddl_sharding_ess s c = Some (s', c') \<longrightarrow>
       ddl_waits s' \<and> exclusive (started s') \<and> tables (started s) \<subseteq> tables (started s') \<and> (\<forall>c''. advance_ddl_sharding_ess s' c'' = Some (s', c'')))"
proof -
  from statements_ok [OF assms] have k: "ddl_keyed s" and ex: "exclusive (started s)" by (simp_all add: ddl_ok_def)
  then show ?thesis using advance_ddl_ok [OF _ k ex] advance_ddl_idle advance_ddl_returns [OF ddl_history_ok k] by blast
qed

text \<open>
  C10: A statement that the main loop admitted can be applied when it has committed, with no panic, when in the meantime only
  other tables and the groups have changed, in whatever way: with a commit timestamp after the hint and after all that was read of
  the table, it leaves the column, the table or the split shards it stands for. The timestamps that are incremented must not be the
  greatest one of 192 bits (\<open>fits\<close>), and the value columns of a new table must have different names, which the
  parser ensures. A split needs no more: that its new id may have been taken by another table meanwhile is not noticed.
\<close>

theorem admitted_statement_applies:
  assumes "ddl_history g"
  shows "(alter_valid g a = Some True \<and> others_change (at_table_path a) g g1 \<and> fits (get_lat (table_generation g1) (at_table_path a)) \<and>
       (\<forall>schema \<in> snd ` set (db_schema g1). fits (get_lat (val_cols schema) (ao_col_name (at_alter_op a)))) \<longrightarrow>
     (\<exists>t g'. alter_apply (at_table_path a) (at_alter_op a) hint g1 = Some (t, g') \<and> hint \<le> t \<and> get_lat (table_generation g1) (at_table_path a) < t \<and>
       (\<exists>gen sg schema. get_last_version (table_generation g') (at_table_path a) = Some (gen, sg) \<and>
          bm_get (db_schema g') (at_table_path a, gen) = Some schema \<and>
          get_last_version (val_cols schema) (ao_col_name (at_alter_op a)) = maybe_col_type (at_alter_op a)))) \<and>
    (drop_valid g d = Some True \<and> others_change (dt_table_path d) g g1 \<and> fits (get_lat (table_generation g1) (dt_table_path d)) \<longrightarrow>
     (\<exists>t rms g'. drop_apply (dt_table_path d) hint g1 = Some ((t, rms), g') \<and> hint \<le> t \<and> get_lat (table_generation g1) (dt_table_path d) < t \<and>
       get_last_version (table_generation g') (dt_table_path d) = None)) \<and>
    (simple_partition earlier (ct_key_cols i) rand = Some (ct_shards i, rand') \<and> inj (rng_tid rand) \<and> distinct (map fst (ct_val_cols i)) \<and>
       others_change (ct_table_path i) g g1 \<and> fits (get_lat (table_generation g1) (ct_table_path i)) \<longrightarrow>
     (\<exists>t g'. apply_create i hint g1 = Some (t, g') \<and> hint \<le> t \<and> get_lat (table_generation g1) (ct_table_path i) < t \<and>
       (\<exists>gen. get_last_version (table_generation g') (ct_table_path i) = Some (gen, 0) \<and>
          bm_get (sharding_config g') (ct_table_path i, (gen, 0)) = Some (map (\<lambda>(range, tid, _). (range, tid)) (ct_shards i))))) \<and>
    (split_valid g k = Some True \<and> others_change (ss_table_path k) g g1 \<and> fits (get_lat (table_generation g1) (ss_table_path k)) \<longrightarrow>
     (\<exists>t g'. apply_sharding k hint g1 = Some (t, g') \<and> hint \<le> t \<and> get_lat (table_generation g1) (ss_table_path k) < t \<and>
       (\<exists>gen sg shards. get_last_version (table_generation g1) (ss_table_path k) = Some (gen, sg) \<and>
          bm_get (sharding_config g1) (ss_table_path k, (gen, sg)) = Some shards \<and>
          get_last_version (table_generation g') (ss_table_path k) = Some (gen, sg + 1) \<and>
          bm_get (sharding_config g') (ss_table_path k, (gen, sg + 1)) = Some (split_shards (ss_target_old k) (ss_target_new k) shards))))"
proof (intro conjI impI, goal_cases)
  case 1
  then show ?case by (intro admitted_alter [OF assms]) simp_all
next
  case 2
  then show ?case by (intro admitted_drop [OF assms]) simp_all
next
  case 3
  then show ?case by (intro admitted_create [OF assms] simple_partition_shards(1)) auto
next
  case 4
  then show ?case by (intro admitted_split [OF assms]) auto
qed


section \<open>Examples\<close>

definition mx_rand :: "char \<Rightarrow> rng" where
  "mx_rand ch = \<lparr>rng_u32 = (\<lambda>_. 1), rng_tid = (\<lambda>n. replicate (Suc n) ch)\<rparr>"

lemma mx_rand_inj: "inj (rng_tid (mx_rand ch))"
  by (rule injI) (simp add: mx_rand_def replicate_eq_replicate)

definition mx_start :: gossip_view where
  "mx_start = gossip_get (gossip_new [(''s'', [dx_eid]), (''u'', [dx_eid])] [dx_eid])"

definition mx_create :: "table_path \<Rightarrow> char \<Rightarrow> create_table_tm_inner" where
  "mx_create table ch =
     \<lparr>ct_response_data = None, ct_table_path = table, ct_key_cols = [(''k'', CT_Int)], ct_val_cols = [(''a'', CT_Int)],
      ct_shards = (case simple_partition mx_start [(''k'', CT_Int)] (mx_rand ch) of Some (shards, _) \<Rightarrow> shards | None \<Rightarrow> []), ct_did_commit = False\<rparr>"

definition mx_alter :: alter_table_tm_inner where
  "mx_alter = \<lparr>at_response_data = None, at_table_path = ''t'', at_alter_op = dx_op\<rparr>"

definition mx_drop :: drop_table_tm_inner where
  "mx_drop = \<lparr>dt_response_data = None, dt_table_path = ''t''\<rparr>"

definition mx_split :: shard_split_tm_inner where
  "mx_split =
     \<lparr>ss_response_data = None, ss_table_path = ''t'',
      ss_target_old = \<lparr>st_sid = ''s'', st_tid = ''xx'', st_key_range = \<lparr>kr_start = Some (CV_Int 0), kr_end = Some (CV_Int 7)\<rparr>\<rparr>,
      ss_target_new = \<lparr>st_sid = ''u'', st_tid = ''z'', st_key_range = \<lparr>kr_start = Some (CV_Int 7), kr_end = None\<rparr>\<rparr>, ss_did_commit = False\<rparr>"

text \<open>The gossip data with the table \<open>t\<close>, with the tables \<open>t\<close> and \<open>o\<close>, and with \<open>t\<close> split.\<close>

definition mx_gossip :: "nat \<Rightarrow> gossip_view" where
  "mx_gossip n =
     (let g1 = snd (the (apply_create (mx_create ''t'' CHR ''x'') (mk_t 5) mx_start))
      in if n = 1 then g1
         else if n = 2 then snd (the (apply_create (mx_create ''o'' CHR ''y'') (mk_t 6) g1))
         else snd (the (apply_sharding mx_split (mk_t 7) g1)))"

lemma mx_partition:
  "case simple_partition mx_start (ct_key_cols (mx_create table ch)) (mx_rand ch) of Some (shards, _) \<Rightarrow> shards = ct_shards (mx_create table ch) | None \<Rightarrow> False"
proof -
  have "simple_partition mx_start [(''k'', CT_Int)] (mx_rand ch) \<noteq> None" by code_simp
  then show ?thesis by (auto simp: mx_create_def split: option.splits)
qed

lemma mx_created:
  assumes "apply_create (mx_create table ch) hint g = Some (t, g')"
  shows "ddl_change (Some table) g g'"
proof -
  from mx_partition [of table ch] obtain rand' where "simple_partition mx_start (ct_key_cols (mx_create table ch)) (mx_rand ch) = Some (ct_shards (mx_create table ch), rand')"
    by (auto split: option.splits)
  from ddl_change.created [OF this mx_rand_inj assms] show ?thesis by (simp add: mx_create_def)
qed

lemma mx_applies:
  "\<exists>t. apply_create (mx_create ''t'' CHR ''x'') (mk_t 5) mx_start = Some (t, mx_gossip 1)"
  "\<exists>t. apply_create (mx_create ''o'' CHR ''y'') (mk_t 6) (mx_gossip 1) = Some (t, mx_gossip 2)"
  "\<exists>t. apply_sharding mx_split (mk_t 7) (mx_gossip 1) = Some (t, mx_gossip 3)"
proof -
  have "apply_create (mx_create ''t'' CHR ''x'') (mk_t 5) mx_start \<noteq> None" by code_simp
  then show "\<exists>t. apply_create (mx_create ''t'' CHR ''x'') (mk_t 5) mx_start = Some (t, mx_gossip 1)" by (auto simp: mx_gossip_def)
  have "apply_create (mx_create ''o'' CHR ''y'') (mk_t 6) (mx_gossip 1) \<noteq> None" by code_simp
  then show "\<exists>t. apply_create (mx_create ''o'' CHR ''y'') (mk_t 6) (mx_gossip 1) = Some (t, mx_gossip 2)" by (auto simp: mx_gossip_def Let_def)
  have "apply_sharding mx_split (mk_t 7) (mx_gossip 1) \<noteq> None" by code_simp
  then show "\<exists>t. apply_sharding mx_split (mk_t 7) (mx_gossip 1) = Some (t, mx_gossip 3)" by (auto simp: mx_gossip_def Let_def)
qed

lemma mx_split_valid: "split_valid (mx_gossip 1) mx_split = Some True"
  by code_simp

lemma mx_history: "ddl_history (mx_gossip 1)" "ddl_history (mx_gossip 3)" "table \<noteq> ''o'' \<Longrightarrow> others_change table (mx_gossip 1) (mx_gossip 2)"
proof -
  have "ddl_history mx_start" unfolding mx_start_def by (rule ddl_history.start)
  with mx_applies(1) mx_created show h: "ddl_history (mx_gossip 1)" by (blast intro: ddl_history.change)
  with mx_applies(3) ddl_change.split_shard [OF split_admitted_same [OF h mx_split_valid same_table_refl]] show "ddl_history (mx_gossip 3)" by (blast intro: ddl_history.change)
  from mx_applies(2) have "ddl_change (Some ''o'') (mx_gossip 1) (mx_gossip 2)" using mx_created by blast
  then show "others_change table (mx_gossip 1) (mx_gossip 2)" if "table \<noteq> ''o''"
    unfolding others_change_def using that by (intro r_into_rtranclp exI [of _ "Some ''o''"]) simp
qed

theorem table_keys_in_one_tablet_witness:
  "get_last_version (table_generation (mx_gossip 3)) ''t'' = Some (0, 1) \<and>
   bm_get (sharding_config (mx_gossip 3)) (''t'', (0, 1)) =
     Some [(\<lparr>kr_start = None, kr_end = Some (CV_Int 0)\<rparr>, ''x''), (\<lparr>kr_start = Some (CV_Int 0), kr_end = Some (CV_Int 7)\<rparr>, ''xx''),
           (\<lparr>kr_start = Some (CV_Int 7), kr_end = None\<rparr>, ''z'')] \<and>
   (\<exists>schema shards rms. bm_get (db_schema (mx_gossip 3)) (''t'', 0) = Some schema \<and> bm_get (sharding_config (mx_gossip 3)) (''t'', (0, 1)) = Some shards \<and>
     distinct (map snd shards) \<and> (\<forall>v. \<exists>!shard. shard \<in> set shards \<and> range_contains (fst shard) v) \<and>
     get_rms (mx_gossip 3) ''t'' = Some rms \<and> map snd rms = map snd shards)"
proof (intro conjI)
  show v: "get_last_version (table_generation (mx_gossip 3)) ''t'' = Some (0, 1)" by code_simp
  show "bm_get (sharding_config (mx_gossip 3)) (''t'', (0, 1)) =
     Some [(\<lparr>kr_start = None, kr_end = Some (CV_Int 0)\<rparr>, ''x''), (\<lparr>kr_start = Some (CV_Int 0), kr_end = Some (CV_Int 7)\<rparr>, ''xx''),
           (\<lparr>kr_start = Some (CV_Int 7), kr_end = None\<rparr>, ''z'')]" by code_simp
  show "\<exists>schema shards rms. bm_get (db_schema (mx_gossip 3)) (''t'', 0) = Some schema \<and> bm_get (sharding_config (mx_gossip 3)) (''t'', (0, 1)) = Some shards \<and>
     distinct (map snd shards) \<and> (\<forall>v. \<exists>!shard. shard \<in> set shards \<and> range_contains (fst shard) v) \<and>
     get_rms (mx_gossip 3) ''t'' = Some rms \<and> map snd rms = map snd shards"
    by (rule table_keys_in_one_tablet [OF mx_history(2) v])
qed

definition mx_requests :: "external_ddl_query list" where
  "mx_requests = [\<lparr>eq_sender_eid = dx_eid, eq_request_id = ''r1'', eq_query = ''alter''\<rparr>, \<lparr>eq_sender_eid = dx_eid, eq_request_id = ''r2'', eq_query = ''drop''\<rparr>]"

definition mx_parse :: "string \<Rightarrow> string + ddl_query" where
  "mx_parse q = (if q = ''alter'' then Inr (Alter_Table ''t'' dx_op) else Inr (Drop_Table ''t''))"

definition mx_master :: ddl_master where
  "mx_master = dx_master\<lparr>dm_gossip := \<lparr>gossip_gen = 0, gossip_get = mx_gossip 1\<rparr>\<rparr>"

definition mx_waiting :: master_statuses where
  "mx_waiting =
     (case perform_external_ddl mx_parse ''q1'' (mx_rand CHR ''x'') (mx_requests ! 0) no_statements mx_master of
        Some (s, c) \<Rightarrow> (case perform_external_ddl mx_parse ''q2'' (mx_rand CHR ''x'') (mx_requests ! 1) s c of Some (s', _) \<Rightarrow> s' | None \<Rightarrow> s)
      | None \<Rightarrow> no_statements)"

lemma mx_waiting_reachable: "(master_step mx_parse)\<^sup>*\<^sup>* no_statements mx_waiting"
proof -
  obtain s c where 1: "perform_external_ddl mx_parse ''q1'' (mx_rand CHR ''x'') (mx_requests ! 0) no_statements mx_master = Some (s, c)" 
    by (auto simp: perform_external_ddl_def validate_ddl_query_def mx_parse_def mx_requests_def mx_master_def dx_master_def)
  have "(master_step mx_parse)\<^sup>*\<^sup>* no_statements s" using master_step.request [OF 1] by blast
  moreover have "(master_step mx_parse)\<^sup>*\<^sup>* s mx_waiting"
    using master_step.request [of mx_parse "''q2''" "mx_rand CHR ''x''" "mx_requests ! 1" s c]
    by (auto simp: mx_waiting_def 1 split: option.splits intro: r_into_rtranclp)
  ultimately show ?thesis by (rule rtranclp_trans)
qed

theorem one_schema_change_per_table_witness:
  "(case advance_ddl_sharding_ess mx_waiting mx_master of
      Some (s', _) \<Rightarrow> map (st_state \<circ> snd) (alter_table_tm_ess s') = [TS_WaitingInsertTMPrepared] \<and> map (st_state \<circ> snd) (drop_table_tm_ess s') = [TS_Start] \<and>
        ddl_waits s' \<and> exclusive (started s') \<and> (\<forall>c''. advance_ddl_sharding_ess s' c'' = Some (s', c''))
    | None \<Rightarrow> False)"
proof -
  have run: "case advance_ddl_sharding_ess mx_waiting mx_master of
      Some (s', _) \<Rightarrow> map (st_state \<circ> snd) (alter_table_tm_ess s') = [TS_WaitingInsertTMPrepared] \<and> map (st_state \<circ> snd) (drop_table_tm_ess s') = [TS_Start]
    | None \<Rightarrow> False" by code_simp
  have "ddl_history (gossip_get (dm_gossip mx_master))" using mx_history(1) by (simp add: mx_master_def)
  with one_schema_change_per_table [OF mx_waiting_reachable, of mx_master] obtain s' c' where adv: "advance_ddl_sharding_ess mx_waiting mx_master = Some (s', c')"
    and "ddl_waits s'" "exclusive (started s')" "\<forall>c''. advance_ddl_sharding_ess s' c'' = Some (s', c'')" by blast
  with run show ?thesis by simp
qed

theorem admitted_statement_applies_witness:
  "(\<exists>t g'. alter_apply (at_table_path mx_alter) (at_alter_op mx_alter) (mk_t 9) (mx_gossip 2) = Some (t, g') \<and> mk_t 9 \<le> t) \<and>
   (\<exists>t rms g'. drop_apply (dt_table_path mx_drop) (mk_t 9) (mx_gossip 2) = Some ((t, rms), g') \<and> get_last_version (table_generation g') ''t'' = None) \<and>
   (\<exists>t g'. apply_create (mx_create ''v'' CHR ''w'') (mk_t 9) (mx_gossip 2) = Some (t, g') \<and> mk_t 9 \<le> t) \<and>
   (\<exists>t g'. apply_sharding mx_split (mk_t 9) (mx_gossip 2) = Some (t, g') \<and> mk_t 9 \<le> t)"
proof -
  from mx_partition [of "''v''" "CHR ''w''"] obtain rand' where part: "simple_partition mx_start (ct_key_cols (mx_create ''v'' CHR ''w'')) (mx_rand CHR ''w'') =
      Some (ct_shards (mx_create ''v'' CHR ''w''), rand')" by (auto split: option.splits)
  have 1: "alter_valid (mx_gossip 1) mx_alter = Some True" by code_simp
  have 2: "fits (get_lat (table_generation (mx_gossip 2)) (at_table_path mx_alter))" by code_simp
  have 3: "\<forall>schema \<in> snd ` set (db_schema (mx_gossip 2)). fits (get_lat (val_cols schema) (ao_col_name (at_alter_op mx_alter)))" by code_simp
  have 4: "drop_valid (mx_gossip 1) mx_drop = Some True" by code_simp
  have 5: "fits (get_lat (table_generation (mx_gossip 2)) (dt_table_path mx_drop))" by code_simp
  have 6: "distinct (map fst (ct_val_cols (mx_create ''v'' CHR ''w'')))" by code_simp
  have 7: "fits (get_lat (table_generation (mx_gossip 2)) (ct_table_path (mx_create ''v'' CHR ''w'')))" by code_simp
  have 8: "fits (get_lat (table_generation (mx_gossip 2)) (ss_table_path mx_split))" by code_simp
  have other: "others_change (at_table_path mx_alter) (mx_gossip 1) (mx_gossip 2)" "others_change (dt_table_path mx_drop) (mx_gossip 1) (mx_gossip 2)"
    "others_change (ct_table_path (mx_create ''v'' CHR ''w'')) (mx_gossip 1) (mx_gossip 2)" "others_change (ss_table_path mx_split) (mx_gossip 1) (mx_gossip 2)"
    by (rule mx_history(3); simp add: mx_alter_def mx_drop_def mx_create_def mx_split_def)+
  have table: "dt_table_path mx_drop = ''t''" by (simp add: mx_drop_def)
  note th = admitted_statement_applies [OF mx_history(1), of mx_alter "mx_gossip 2" "mk_t 9" mx_drop mx_start "mx_create ''v'' CHR ''w''" "mx_rand CHR ''w''" rand' mx_split]
  show ?thesis
  proof (intro conjI)
    show "\<exists>t g'. alter_apply (at_table_path mx_alter) (at_alter_op mx_alter) (mk_t 9) (mx_gossip 2) = Some (t, g') \<and> mk_t 9 \<le> t"
      using th [THEN conjunct1] 1 2 3 other by blast
    show "\<exists>t rms g'. drop_apply (dt_table_path mx_drop) (mk_t 9) (mx_gossip 2) = Some ((t, rms), g') \<and> get_last_version (table_generation g') ''t'' = None"
      using th [THEN conjunct2, THEN conjunct1] 4 5 other table by auto
    show "\<exists>t g'. apply_create (mx_create ''v'' CHR ''w'') (mk_t 9) (mx_gossip 2) = Some (t, g') \<and> mk_t 9 \<le> t"
      using th [THEN conjunct2, THEN conjunct2, THEN conjunct1] part mx_rand_inj 6 7 other by blast
    show "\<exists>t g'. apply_sharding mx_split (mk_t 9) (mx_gossip 2) = Some (t, g') \<and> mk_t 9 \<le> t"
      using th [THEN conjunct2, THEN conjunct2, THEN conjunct2] mx_split_valid 8 other by blast
  qed
qed

end
