(* ===== verification/Shard_Handover.thy ===== *)
theory Shard_Handover
  imports Ddl_Protocol Finish_Query Storage_Views
begin

text \<open>
  The end of a split: the old tablet sends the rows of the new range (\<open>src/src/shard_snapshot_es.rs\<close>),
  the slave of the new group waits for them, logs them, creates the tablet and confirms
  (\<open>src/src/shard_pending_es.rs\<close>), and the old tablet logs the confirmation and deletes the rows. What is
  sent and put into a bundle is an effect; \<open>None\<close> is a panic. Messages for the new tablet are opaque.
\<close>

section \<open>Data\<close>

record sharding_snapshot =
  sh_tid :: tablet_group_id
  sh_table_path :: table_path
  sh_sharding_gen :: sharding_gen
  sh_key_range :: tablet_key_range
  sh_storage :: generic_mv_table
  sh_schema :: table_schema
  sh_presence :: timestamp
  sh_committed_writes :: "(timestamp, rw_region) btree"
  sh_read_protected :: "(timestamp, read_region list) btree"

text \<open>The message, and the log entry of the slave, which has the same fields.\<close>

record sharding_message =
  sm_query_id :: query_id
  sm_node_path :: tnode_path
  sm_snapshot :: sharding_snapshot

section \<open>The old tablet\<close>

datatype snap_state = SS_Follower | SS_WaitingPreparedWrites | SS_ShardingSnapshotSent | SS_InsertingShardingConfirmed

record sharding_snapshot_es =
  sn_query_id :: query_id
  sn_target :: st_range
  sn_is_new :: bool
  sn_state :: snap_state

datatype snap_effect =
    Send_Snapshot slave_group_id leadership_id sharding_message
  | Push_Confirmed query_id

datatype snap_action = Snap_Wait | Snap_Exit

definition mk_sharding_message :: "ddl_tablet \<Rightarrow> sharding_snapshot_es \<Rightarrow> generic_mv_table \<Rightarrow> sharding_message" where
  "mk_sharding_message c es storage =
     \<lparr>sm_query_id = sn_query_id es, sm_node_path = td_node_path c,
      sm_snapshot =
        \<lparr>sh_tid = st_tid (sn_target es), sh_table_path = this_table_path c, sh_sharding_gen = this_sharding_gen c,
         sh_key_range = st_key_range (sn_target es), sh_storage = storage, sh_schema = t_schema (td_tablet c),
         sh_presence = presence_timestamp (td_tablet c), sh_committed_writes = committed_writes (td_tablet c),
         sh_read_protected = read_protected (td_tablet c)\<rparr>\<rparr>"

definition send_sharding_snapshot :: "ddl_tablet \<Rightarrow> sharding_snapshot_es \<Rightarrow> snap_effect option" where
  "send_sharding_snapshot c es =
     do { storage \<leftarrow> compute_range_storage (t_storage (td_tablet c)) (st_key_range (sn_target es));
          lid \<leftarrow> bm_get (t_leader_map (td_tablet c)) (SlaveGid (st_sid (sn_target es)));
          Some (Send_Snapshot (st_sid (sn_target es)) lid (mk_sharding_message c es storage)) }"

text \<open>The writes of an older generation that are still undecided.\<close>

definition is_old_generation :: "ddl_tablet \<Rightarrow> fq_outer \<Rightarrow> bool" where
  "is_old_generation c es \<longleftrightarrow> (case es of RM_Exec x \<Rightarrow> fq_sharding_gen (rx_inner x) < this_sharding_gen c | _ \<Rightarrow> False)"

definition ready_to_send :: "ddl_tablet \<Rightarrow> (query_id, fq_outer) btree \<Rightarrow> tablet_key_range \<Rightarrow> bool option" where
  "ready_to_send c fq_ess krange =
     (if list_ex (\<lambda>(_, es). is_old_generation c es) fq_ess then Some False
      else map_option Not (any_opt (\<lambda>(_, reqs).
             any_opt (\<lambda>(_, (region, _)). range_might_intersect_row_region (key_cols (t_schema (td_tablet c))) krange (rr_row_region region)) reqs)
             (waiting_read_protected (td_tablet c) @ inserting_read_protected (td_tablet c))))"

definition snap_advance_prepared ::
  "ddl_tablet \<Rightarrow> (query_id, fq_outer) btree \<Rightarrow> sharding_snapshot_es \<Rightarrow> (snap_effect list \<times> sharding_snapshot_es) option" where
  "snap_advance_prepared c fq_ess es =
     do { ready \<leftarrow> ready_to_send c fq_ess (st_key_range (sn_target es));
          if ready
          then do { eff \<leftarrow> send_sharding_snapshot c es; Some ([eff], es\<lparr>sn_state := SS_ShardingSnapshotSent\<rparr>) }
          else Some ([], es\<lparr>sn_state := SS_WaitingPreparedWrites\<rparr>) }"

definition snap_start ::
  "ddl_tablet \<Rightarrow> (query_id, fq_outer) btree \<Rightarrow> sharding_snapshot_es \<Rightarrow> (snap_effect list \<times> sharding_snapshot_es) option" where
  "snap_start c fq_ess es =
     do { leading \<leftarrow> tablet_is_leader (td_tablet c);
          if leading then snap_advance_prepared c fq_ess es else Some ([], es\<lparr>sn_state := SS_Follower\<rparr>) }"

definition create_split ::
  "ddl_tablet \<Rightarrow> (query_id, fq_outer) btree \<Rightarrow> query_id \<Rightarrow> st_range \<Rightarrow> (snap_effect list \<times> sharding_snapshot_es) option" where
  "create_split c fq_ess qid target =
     snap_start c fq_ess \<lparr>sn_query_id = qid, sn_target = target, sn_is_new = False, sn_state = SS_Follower\<rparr>"

definition snap_handle_bundle_processed ::
  "ddl_tablet \<Rightarrow> (query_id, fq_outer) btree \<Rightarrow> sharding_snapshot_es \<Rightarrow> (snap_effect list \<times> sharding_snapshot_es) option" where
  "snap_handle_bundle_processed c fq_ess es =
     (case sn_state es of
        SS_WaitingPreparedWrites \<Rightarrow> snap_advance_prepared c fq_ess es
      | _ \<Rightarrow> Some ([], es))"

text \<open>A confirmation is accepted whatever query it is for, and so is its log entry.\<close>

definition snap_handle_msg :: "query_id \<Rightarrow> sharding_snapshot_es \<Rightarrow> snap_effect list \<times> sharding_snapshot_es" where
  "snap_handle_msg confirm_qid es =
     (case sn_state es of
        SS_ShardingSnapshotSent \<Rightarrow> ([Push_Confirmed confirm_qid], es\<lparr>sn_state := SS_InsertingShardingConfirmed\<rparr>)
      | _ \<Rightarrow> ([], es))"

definition snap_handle_plm :: "query_id \<Rightarrow> ddl_tablet \<Rightarrow> sharding_snapshot_es \<Rightarrow> (snap_action \<times> ddl_tablet) option" where
  "snap_handle_plm _ c es =
     (if sn_state es = SS_InsertingShardingConfirmed \<or> sn_state es = SS_Follower
      then let (kept, remaining) = remove_range (t_storage (td_tablet c)) (st_key_range (sn_target es))
           in if remaining = [] then Some (Snap_Exit, c\<lparr>td_tablet := (td_tablet c)\<lparr>t_storage := kept\<rparr>\<rparr>) else None
      else None)"

definition snap_handle_lc ::
  "ddl_tablet \<Rightarrow> (query_id, fq_outer) btree \<Rightarrow> sharding_snapshot_es \<Rightarrow> (snap_effect list \<times> sharding_snapshot_es) option" where
  "snap_handle_lc c fq_ess es =
     (case sn_state es of
        SS_Follower \<Rightarrow>
          do { leading \<leftarrow> tablet_is_leader (td_tablet c);
               if leading then snap_advance_prepared c fq_ess es else Some ([], es) }
      | _ \<Rightarrow> Some ([], es\<lparr>sn_state := SS_Follower\<rparr>))"

definition snap_handle_rlc :: "paxos_group_id \<Rightarrow> ddl_tablet \<Rightarrow> sharding_snapshot_es \<Rightarrow> (snap_effect list \<times> sharding_snapshot_es) option" where
  "snap_handle_rlc gid c es =
     (case sn_state es of
        SS_ShardingSnapshotSent \<Rightarrow>
          if gid = SlaveGid (st_sid (sn_target es)) then do { eff \<leftarrow> send_sharding_snapshot c es; Some ([eff], es) } else Some ([], es)
      | _ \<Rightarrow> Some ([], es))"

definition snap_reconfig_snapshot :: "sharding_snapshot_es \<Rightarrow> sharding_snapshot_es" where
  "snap_reconfig_snapshot es = es\<lparr>sn_state := SS_Follower\<rparr>"

text \<open>What the tablet does with the action: \<open>handle_shard_send_es_action\<close>.\<close>

definition handle_shard_send_es_action ::
  "snap_action \<Rightarrow> ddl_tablet \<Rightarrow> sharding_snapshot_es option \<Rightarrow> ddl_tablet \<times> sharding_snapshot_es option" where
  "handle_shard_send_es_action act c sharding_state =
     (case act of Snap_Wait \<Rightarrow> (c, sharding_state) | Snap_Exit \<Rightarrow> (c\<lparr>sharding_done := True\<rparr>, None))"

section \<open>The slave: pending shards\<close>

datatype 'm pending_state =
    PS_Follower
  | PS_WaitingShardingSnapshot "'m list"
  | PS_InsertingShardingSnapshot "'m list"

type_synonym split_rm_plm = "(unit, unit, tablet_group_id) stm_rm_plm"
type_synonym split_rm_effect = "(unit, tablet_group_id, unit, shard_node_path, unit) stm_rm_effect"
type_synonym split_rm_message = "(unit, shard_split_commit, unit) stm_rm_message"

datatype 'm shard_effect =
    SE_RM split_rm_effect
  | SE_Push_Snapshot sharding_message
  | SE_Create_Tablet query_id ddl_tablet
  | SE_Forward tablet_group_id 'm
  | SE_Confirm tnode_path leadership_id query_id
  | SE_New_Bundle tablet_group_id

definition pending_create :: "slave_ctx \<Rightarrow> sharding_message option \<Rightarrow> ('m shard_effect list \<times> 'm pending_state) option" where
  "pending_create c maybe_sharding_msg =
     do { leading \<leftarrow> sl_is_leader c;
          Some (if leading
                then (case maybe_sharding_msg of
                        Some m \<Rightarrow> ([SE_Push_Snapshot m], PS_InsertingShardingSnapshot [])
                      | None \<Rightarrow> ([], PS_WaitingShardingSnapshot []))
                else ([], PS_Follower)) }"

definition pending_sharding_msg :: "sharding_message \<Rightarrow> 'm pending_state \<Rightarrow> 'm shard_effect list \<times> 'm pending_state" where
  "pending_sharding_msg m es =
     (case es of
        PS_WaitingShardingSnapshot buffered \<Rightarrow> ([SE_Push_Snapshot m], PS_InsertingShardingSnapshot buffered)
      | _ \<Rightarrow> ([], es))"

definition pending_tablet_msg :: "'m \<Rightarrow> 'm pending_state \<Rightarrow> 'm pending_state" where
  "pending_tablet_msg tablet_msg es =
     (case es of
        PS_WaitingShardingSnapshot buffered \<Rightarrow> PS_WaitingShardingSnapshot (buffered @ [tablet_msg])
      | PS_InsertingShardingSnapshot buffered \<Rightarrow> PS_InsertingShardingSnapshot (buffered @ [tablet_msg])
      | PS_Follower \<Rightarrow> PS_Follower)"

definition shard_create_tablet :: "slave_ctx \<Rightarrow> sharding_snapshot \<Rightarrow> ddl_tablet" where
  "shard_create_tablet c snapshot =
     \<lparr>td_tablet =
        \<lparr>t_this_sid = sl_this_sid c, t_this_tid = sh_tid snapshot, t_this_eid = sl_this_eid c,
         t_leader_map = vv_value (sl_leader_map c), t_storage = sh_storage snapshot, t_schema = sh_schema snapshot,
         presence_timestamp = sh_presence snapshot, verifying_writes = [], inserting_prepared_writes = [], prepared_writes = [],
         committed_writes = sh_committed_writes snapshot, waiting_read_protected = [], inserting_read_protected = [],
         read_protected = sh_read_protected snapshot, waiting_locked_cols = [], inserting_locked_cols = [],
         ms_root_query_map = [], tablet_bundle = []\<rparr>,
      this_table_path = sh_table_path snapshot, this_sharding_gen = sh_sharding_gen snapshot,
      this_tablet_key_range = sh_key_range snapshot, sharding_done = True, td_suffix_divisor = sl_suffix_divisor c\<rparr>"

definition sl_leader :: "slave_ctx \<Rightarrow> slave_group_id \<Rightarrow> leadership_id option" where
  "sl_leader c sid = bm_get (vv_value (sl_leader_map c)) (SlaveGid sid)"

definition pending_sharding_plm :: "slave_ctx \<Rightarrow> sharding_message \<Rightarrow> 'm pending_state \<Rightarrow> 'm shard_effect list option" where
  "pending_sharding_plm c plm es =
     (case es of
        PS_Follower \<Rightarrow> Some [SE_Create_Tablet (sm_query_id plm) (shard_create_tablet c (sm_snapshot plm))]
      | PS_InsertingShardingSnapshot buffered \<Rightarrow>
          do { lid \<leftarrow> sl_leader c (fst (sm_node_path plm));
               Some (SE_Create_Tablet (sm_query_id plm) (shard_create_tablet c (sm_snapshot plm)) #
                     map (SE_Forward (sh_tid (sm_snapshot plm))) buffered @ [SE_Confirm (sm_node_path plm) lid (sm_query_id plm)]) }
      | PS_WaitingShardingSnapshot _ \<Rightarrow> Some [])"

definition pending_leader_changed :: "slave_ctx \<Rightarrow> 'm pending_state \<Rightarrow> 'm pending_state option" where
  "pending_leader_changed c es =
     (case es of
        PS_Follower \<Rightarrow> do { leading \<leftarrow> sl_is_leader c; Some (if leading then PS_WaitingShardingSnapshot [] else PS_Follower) }
      | _ \<Rightarrow> Some PS_Follower)"

section \<open>The slave: all that concerns sharding\<close>

record 'm shard_split_ess =
  shard_split_rm_ess :: "(query_id, sharding_message option \<times> shard_split_rm_es) btree"
  shard_pending_ess :: "(query_id, 'm pending_state) btree"
  pending_shards :: "(tablet_group_id, query_id) btree"

datatype split_plm = SSP_Split split_rm_plm | SSP_Snapshot sharding_message

text \<open>The container: an insertion keeps no message, an update keeps the one that is there; the action goes to the caller.\<close>

definition split_ess_container ::
  "((query_id, sharding_message option \<times> shard_split_rm_es) btree \<times> (tablet_group_id \<times> query_id) option option, shard_split_rm_es,
    tablet_group_id \<times> query_id) stm_container" where
  "split_ess_container =
     \<lparr>con_get = (\<lambda>qid (m, _). Some (map_option snd (bm_get m qid))),
      con_put = (\<lambda>qid es (m, act). (bm_insert qid (case bm_get m qid of Some (msg, _) \<Rightarrow> msg | None \<Rightarrow> None, es) m, act)),
      con_exit = (\<lambda>_ x (m, _). (m, Some x))\<rparr>"

definition handle_shard_split_es_action ::
  "slave_ctx \<Rightarrow> query_id \<Rightarrow> (tablet_group_id \<times> query_id) option option \<Rightarrow> 'm shard_split_ess \<Rightarrow> ('m shard_effect list \<times> 'm shard_split_ess) option" where
  "handle_shard_split_es_action c qid act ess =
     (case act of
        None \<Rightarrow> Some ([], ess)
      | Some maybe_commit_action \<Rightarrow>
          do { (maybe_sharding_msg, _) \<leftarrow> bm_get (shard_split_rm_ess ess) qid;
               let ess1 = ess\<lparr>shard_split_rm_ess := bm_remove qid (shard_split_rm_ess ess)\<rparr>;
               case maybe_commit_action of
                 None \<Rightarrow> Some ([], ess1)
               | Some (tid, commit_qid) \<Rightarrow>
                   do { (effs, pending) \<leftarrow> pending_create c maybe_sharding_msg;
                        Some (effs, ess1\<lparr>pending_shards := bm_insert tid commit_qid (pending_shards ess1),
                                         shard_pending_ess := bm_insert qid pending (shard_pending_ess ess1)\<rparr>) } })"

fun rm_msg_qid :: "('m, 'n, 't) stm_rm_message \<Rightarrow> query_id" where
  "rm_msg_qid (STM_Prepare qid _ _) = qid"
| "rm_msg_qid (STM_Abort qid _) = qid"
| "rm_msg_qid (STM_Commit qid _ _) = qid"

fun rm_plm_qid :: "('t, 'u, 'w) stm_rm_plm \<Rightarrow> query_id" where
  "rm_plm_qid (SRM_PreparedPLm qid _ _) = qid"
| "rm_plm_qid (SRM_CommittedPLm qid _) = qid"
| "rm_plm_qid (SRM_AbortedPLm qid) = qid"

definition split_done ::
  "query_id \<Rightarrow> 'm shard_split_ess
    \<Rightarrow> (split_rm_effect list \<times> slave_ctx \<times> (query_id, sharding_message option \<times> shard_split_rm_es) btree \<times> (tablet_group_id \<times> query_id) option option) option
    \<Rightarrow> ('m shard_effect list \<times> slave_ctx \<times> 'm shard_split_ess) option" where
  "split_done qid ess res =
     do { (effs, c, m, act) \<leftarrow> res;
          (effs', ess') \<leftarrow> handle_shard_split_es_action c qid act (ess\<lparr>shard_split_rm_ess := m\<rparr>);
          Some (map SE_RM effs @ effs', c, ess') }"

definition shard_handle_rm_msg :: "split_rm_message \<Rightarrow> slave_ctx \<Rightarrow> 'm shard_split_ess \<Rightarrow> ('m shard_effect list \<times> slave_ctx \<times> 'm shard_split_ess) option" where
  "shard_handle_rm_msg msg c ess =
     split_done (rm_msg_qid msg) ess (srm_handle_rm_msg split_slave_rm split_ess_container msg c (shard_split_rm_ess ess, None))"

definition shard_handle_sharding_msg :: "sharding_message \<Rightarrow> slave_ctx \<Rightarrow> 'm shard_split_ess \<Rightarrow> ('m shard_effect list \<times> 'm shard_split_ess) option" where
  "shard_handle_sharding_msg m c ess =
     (case bm_get (shard_split_rm_ess ess) (sm_query_id m) of
        Some (_, es) \<Rightarrow> Some ([], ess\<lparr>shard_split_rm_ess := bm_insert (sm_query_id m) (Some m, es) (shard_split_rm_ess ess)\<rparr>)
      | None \<Rightarrow>
          (case bm_get (shard_pending_ess ess) (sm_query_id m) of
             Some pending \<Rightarrow>
               (let (effs, pending') = pending_sharding_msg m pending
                in Some (effs, ess\<lparr>shard_pending_ess := bm_insert (sm_query_id m) pending' (shard_pending_ess ess)\<rparr>))
           | None \<Rightarrow>
               do { lid \<leftarrow> sl_leader c (fst (sm_node_path m));
                    Some ([SE_Confirm (sm_node_path m) lid (sm_query_id m)], ess) }))"

text \<open>\<open>tablets\<close> are the tablets that exist on this node; a message for another one is kept.\<close>

definition shard_handle_tablet_msg ::
  "tablet_group_id list \<Rightarrow> tablet_group_id \<Rightarrow> 'm \<Rightarrow> 'm shard_split_ess \<Rightarrow> ('m shard_effect list \<times> 'm shard_split_ess) option" where
  "shard_handle_tablet_msg tablets tid tablet_msg ess =
     (if tid \<in> set tablets then Some ([SE_Forward tid tablet_msg], ess)
      else do { qid \<leftarrow> bm_get (pending_shards ess) tid;
                pending \<leftarrow> bm_get (shard_pending_ess ess) qid;
                Some ([], ess\<lparr>shard_pending_ess := bm_insert qid (pending_tablet_msg tablet_msg pending) (shard_pending_ess ess)\<rparr>) })"

definition shard_handle_plm :: "split_plm \<Rightarrow> slave_ctx \<Rightarrow> 'm shard_split_ess \<Rightarrow> ('m shard_effect list \<times> slave_ctx \<times> 'm shard_split_ess) option" where
  "shard_handle_plm plm c ess =
     (case plm of
        SSP_Split rm_plm \<Rightarrow>
          split_done (rm_plm_qid rm_plm) ess (srm_handle_rm_plm split_slave_rm split_ess_container rm_plm c (shard_split_rm_ess ess, None))
      | SSP_Snapshot m \<Rightarrow>
          (case bm_get (shard_pending_ess ess) (sm_query_id m) of
             Some pending \<Rightarrow>
               do { effs \<leftarrow> pending_sharding_plm c m pending;
                    Some (effs @ [SE_New_Bundle (sh_tid (sm_snapshot m))], c,
                          ess\<lparr>shard_pending_ess := bm_remove (sm_query_id m) (shard_pending_ess ess),
                              pending_shards := bm_remove (sh_tid (sm_snapshot m)) (pending_shards ess)\<rparr>) }
           | None \<Rightarrow> Some ([], c, ess)))"

text \<open>\<open>start_inserting\<close> of every state machine; it never ends one.\<close>

fun split_insert_loop ::
  "slave_ctx \<Rightarrow> (query_id \<times> sharding_message option \<times> shard_split_rm_es) list
    \<Rightarrow> (split_rm_effect list \<times> slave_ctx \<times> (query_id, sharding_message option \<times> shard_split_rm_es) btree) option" where
  "split_insert_loop c [] = Some ([], c, [])"
| "split_insert_loop c ((qid, msg, es) # ess) =
     do { (effs, c1, es', _) \<leftarrow> srm_start_inserting split_slave_rm c es;
          (effs', c2, ess') \<leftarrow> split_insert_loop c1 ess;
          Some (effs @ effs', c2, (qid, msg, es') # ess') }"

definition shard_handle_bundle_processed :: "slave_ctx \<Rightarrow> 'm shard_split_ess \<Rightarrow> ('m shard_effect list \<times> slave_ctx \<times> 'm shard_split_ess) option" where
  "shard_handle_bundle_processed c ess =
     do { (effs, c', m) \<leftarrow> split_insert_loop c (shard_split_rm_ess ess);
          Some (map SE_RM effs, c', ess\<lparr>shard_split_rm_ess := m\<rparr>) }"

fun split_leader_changed_loop ::
  "query_id list \<Rightarrow> slave_ctx \<Rightarrow> 'm shard_split_ess \<Rightarrow> ('m shard_effect list \<times> slave_ctx \<times> 'm shard_split_ess) option" where
  "split_leader_changed_loop [] c ess = Some ([], c, ess)"
| "split_leader_changed_loop (qid # qids) c ess =
     do { (_, es) \<leftarrow> bm_get (shard_split_rm_ess ess) qid;
          (effs, c1, ess1) \<leftarrow> split_done qid ess
            (srm_put split_ess_container qid (bm_insert qid (None, es) (shard_split_rm_ess ess), None) (srm_leader_changed split_slave_rm c es));
          (effs', c2, ess2) \<leftarrow> split_leader_changed_loop qids c1 ess1;
          Some (effs @ effs', c2, ess2) }"

definition shard_handle_leader_changed :: "slave_ctx \<Rightarrow> 'm shard_split_ess \<Rightarrow> ('m shard_effect list \<times> slave_ctx \<times> 'm shard_split_ess) option" where
  "shard_handle_leader_changed c ess =
     do { (effs, c', ess1) \<leftarrow> split_leader_changed_loop (bm_keys (shard_split_rm_ess ess)) c ess;
          pending \<leftarrow> those (map (\<lambda>(qid, es). map_option (Pair qid) (pending_leader_changed c' es)) (shard_pending_ess ess1));
          Some (effs, c', ess1\<lparr>shard_pending_ess := pending\<rparr>) }"

definition shard_reconfig_snapshot :: "'m shard_split_ess \<Rightarrow> 'm shard_split_ess" where
  "shard_reconfig_snapshot ess =
     \<lparr>shard_split_rm_ess =
        fold (\<lambda>(qid, _, es) m. case srm_reconfig_snapshot split_slave_rm es of Some es' \<Rightarrow> bm_insert qid (None, es') m | None \<Rightarrow> m)
          (shard_split_rm_ess ess) [],
      shard_pending_ess = fold (\<lambda>(qid, _). bm_insert qid PS_Follower) (shard_pending_ess ess) [],
      pending_shards = pending_shards ess\<rparr>"

definition shard_ess_is_empty :: "'m shard_split_ess \<Rightarrow> bool" where
  "shard_ess_is_empty ess \<longleftrightarrow> shard_split_rm_ess ess = [] \<and> shard_pending_ess ess = [] \<and> pending_shards ess = []"

end
