(* ===== verification/Handover_Safety.thy ===== *)
theory Handover_Safety
  imports Shard_Handover
begin

text \<open>
  No row is lost in a split: the old tablet deletes the rows of the new range only when the slave has logged them,
  over a network that loses, delays, duplicates and reorders, with changes of leadership at both ends.
\<close>

section \<open>The slave's handlers\<close>

text \<open>The snapshots that wait for the end of the commit protocol.\<close>

definition ess_msgs :: "'m shard_split_ess \<Rightarrow> sharding_message set" where
  "ess_msgs ess = {m. \<exists>k es. bm_get (shard_split_rm_ess ess) k = Some (Some m, es)}"

definition held :: "shard_split_rm_es \<Rightarrow> bool" where
  "held es \<longleftrightarrow> sr_state es \<notin> {RS_Working, RS_InsertingPrepared, RS_InsertingPreparedAborted}"

text \<open>The slave still expects the snapshot of \<open>q\<close>.\<close>

definition expects :: "query_id \<Rightarrow> 'm shard_split_ess \<Rightarrow> bool" where
  "expects q ess \<longleftrightarrow> (\<exists>msg es. bm_get (shard_split_rm_ess ess) q = Some (msg, es) \<and> held es) \<or> bm_get (shard_pending_ess ess) q \<noteq> None"

fun pushes :: "'m shard_effect \<Rightarrow> split_plm list" where
  "pushes (SE_RM (RM_Push plm)) = [SSP_Split plm]"
| "pushes (SE_Push_Snapshot m) = [SSP_Snapshot m]"
| "pushes _ = []"

definition pushed_snapshots :: "'m shard_effect list \<Rightarrow> sharding_message set" where
  "pushed_snapshots effs = {m. SE_Push_Snapshot m \<in> set effs}"

definition confirms :: "'m shard_effect list \<Rightarrow> (tnode_path \<times> query_id) set" where
  "confirms effs = {(path, qid). \<exists>lid. SE_Confirm path lid qid \<in> set effs}"

definition creates :: "'m shard_effect list \<Rightarrow> (query_id \<times> ddl_tablet) set" where
  "creates effs = {(qid, td). SE_Create_Tablet qid td \<in> set effs}"

lemma effect_simps [simp]:
  "pushed_snapshots [] = {}" "confirms [] = {}" "creates [] = {}"
  "pushed_snapshots (effs @ effs') = pushed_snapshots effs \<union> pushed_snapshots effs'"
  "confirms (effs @ effs') = confirms effs \<union> confirms effs'" "creates (effs @ effs') = creates effs \<union> creates effs'"
  "pushed_snapshots (map SE_RM rms) = {}" "confirms (map SE_RM rms) = {}" "creates (map SE_RM rms) = {}"
  by (auto simp: pushed_snapshots_def confirms_def creates_def)

text \<open>A handler that confirms nothing, creates nothing, and pushes only what waits.\<close>

definition quiet :: "query_id \<Rightarrow> 'm shard_effect list \<Rightarrow> 'm shard_split_ess \<Rightarrow> 'm shard_split_ess \<Rightarrow> bool" where
  "quiet q effs ess ess' \<longleftrightarrow>
     confirms effs = {} \<and> creates effs = {} \<and> pushed_snapshots effs \<union> ess_msgs ess' \<subseteq> ess_msgs ess \<and>
     (expects q ess \<longrightarrow> expects q ess') \<and> (bm_wf (shard_split_rm_ess ess) \<longrightarrow> bm_wf (shard_split_rm_ess ess'))"

text \<open>What the commit protocol makes of the map.\<close>

definition rm_put ::
  "query_id \<Rightarrow> (query_id, sharding_message option \<times> shard_split_rm_es) btree \<Rightarrow> (query_id, sharding_message option \<times> shard_split_rm_es) btree \<Rightarrow> bool" where
  "rm_put qid m m' \<longleftrightarrow>
     m' = m \<or> (\<exists>es'. m' = bm_insert qid (case bm_get m qid of Some (msg, _) \<Rightarrow> msg | None \<Rightarrow> None, es') m \<and>
       (\<forall>msg es. bm_get m qid = Some (msg, es) \<longrightarrow> held es \<longrightarrow> held es') \<and>
       ((\<forall>msg es. bm_get m qid = Some (msg, es) \<longrightarrow> sr_query_id es = qid) \<longrightarrow> sr_query_id es' = qid))"

lemma split_slave_callbacks [simp]:
  "srm_inner_new split_slave_rm pl c = Some ((), c)" "srm_new_follower split_slave_rm pl c = Some ((), c)"
  "srm_mk_prepared_plm split_slave_rm i c = Some (Some (), i, c)" "srm_prepared_plm_inserted split_slave_rm i c = Some ((), i, c)"
  "srm_mk_committed_plm split_slave_rm commit i c = Some (st_tid (sc_target_new commit), i, c)"
  "srm_committed_plm_inserted split_slave_rm qid tid i c = Some ((tid, qid), i, c)"
  "srm_mk_aborted_plm split_slave_rm i c = Some (i, c)" "srm_aborted_plm_inserted split_slave_rm i c = Some (i, c)"
  by (simp_all add: split_slave_rm_def)

lemma split_container_simps [simp]:
  "con_get split_ess_container qid (m, act) = Some (map_option snd (bm_get m qid))"
  "con_put split_ess_container qid es (m, act) = (bm_insert qid (case bm_get m qid of Some (msg, _) \<Rightarrow> msg | None \<Rightarrow> None, es) m, act)"
  "con_exit split_ess_container qid x (m, act) = (m, Some x)"
  by (simp_all add: split_ess_container_def)

lemma rm_putI:
  "(\<And>msg es. bm_get m qid = Some (msg, es) \<Longrightarrow> held es \<Longrightarrow> held es') \<Longrightarrow>
   ((\<And>msg es. bm_get m qid = Some (msg, es) \<Longrightarrow> sr_query_id es = qid) \<Longrightarrow> sr_query_id es' = qid) \<Longrightarrow>
   rm_put qid m (bm_insert qid (case bm_get m qid of Some (msg, _) \<Rightarrow> msg | None \<Rightarrow> None, es') m)"
  unfolding rm_put_def by blast

text \<open>One state machine under its handler: the new one, or the end.\<close>

lemma srm_put_result:
  assumes "srm_put split_ess_container qid (m, None) (Some (effs0, c0, es', act0)) = Some (effs, c', m', act)" and get: "bm_get m qid = Some (msg, es)"
    and "held es \<longrightarrow> held es'" and "sr_query_id es' = sr_query_id es"
  shows "rm_put qid m m' \<and> effs = effs0 \<and> act = (case act0 of SRM_Wait \<Rightarrow> None | SRM_Exit x \<Rightarrow> Some x)"
proof -
  have "rm_put qid m (bm_insert qid (msg, es') m)" using rm_putI [of m qid es'] get assms(3,4) by auto
  moreover have "rm_put qid m m" by (simp add: rm_put_def)
  ultimately show ?thesis using assms(1) get by (cases act0) (auto simp: srm_put_def)
qed

definition no_prepares :: "split_rm_effect list \<Rightarrow> bool" where
  "no_prepares effs \<longleftrightarrow> (\<forall>qid tm pl. RM_Push (SRM_PreparedPLm qid tm pl) \<notin> set effs)"

lemma msg_handlers:
  fixes es :: shard_split_rm_es
  shows "srm_handle_prepare c es = Some (effs, c', es', act) \<Longrightarrow> es' = es \<and> act = SRM_Wait \<and> no_prepares effs"
    and "srm_handle_commit split_slave_rm commit c es = Some (effs, c', es', act) \<Longrightarrow> held es' \<and> sr_query_id es' = sr_query_id es \<and> act = SRM_Wait \<and> no_prepares effs"
    and "srm_handle_abort split_slave_rm c es = Some (effs, c', es', act) \<Longrightarrow>
      (held es \<longrightarrow> held es' \<and> act = SRM_Wait) \<and> (act = SRM_Wait \<or> act = SRM_Exit None) \<and> sr_query_id es' = sr_query_id es \<and> no_prepares effs"
  by (cases "sr_state es"; force simp: srm_handle_prepare_def srm_handle_commit_def srm_handle_abort_def srm_abort_prepared_def srm_closed_def held_def no_prepares_def)+

lemma plm_handlers:
  fixes es :: shard_split_rm_es
  shows "srm_handle_prepared_plm split_slave_rm c es = Some (effs, c', es', act) \<Longrightarrow> held es' \<and> sr_query_id es' = sr_query_id es \<and> act = SRM_Wait \<and> no_prepares effs"
    and "srm_handle_committed_plm split_slave_rm qid pl c es = Some (effs, c', es', act) \<Longrightarrow>
      sr_state es' = sr_state es \<and> sr_query_id es' = sr_query_id es \<and> act = SRM_Exit (Some (pl, qid)) \<and> no_prepares effs"
    and "srm_handle_aborted_plm split_slave_rm c es = Some (effs, c', es', act) \<Longrightarrow>
      sr_state es' = sr_state es \<and> sr_query_id es' = sr_query_id es \<and> act = SRM_Exit None \<and> no_prepares effs"
    and "srm_start_inserting split_slave_rm c es = Some (effs, c', es', act) \<Longrightarrow>
      (held es \<longrightarrow> held es' \<and> no_prepares effs) \<and> sr_query_id es' = sr_query_id es \<and> act = SRM_Wait \<and>
      (\<forall>qid tm pl. RM_Push (SRM_PreparedPLm qid tm pl) \<in> set effs \<longrightarrow> qid = sr_query_id es)"
    and "srm_leader_changed split_slave_rm c es = Some (effs, c', es', act) \<Longrightarrow>
      (held es \<longrightarrow> held es' \<and> act = SRM_Wait) \<and> (act = SRM_Wait \<or> act = SRM_Exit None) \<and> sr_query_id es' = sr_query_id es \<and> effs = []"
  by (cases "sr_state es"; force simp: srm_handle_prepared_plm_def srm_handle_committed_plm_def srm_handle_aborted_plm_def srm_start_inserting_def
      srm_leader_changed_def srm_hold_prepared_def srm_abort_prepared_def srm_closed_def held_def no_prepares_def bind_eq_Some_conv Let_def split: if_splits)+

lemma rm_msg_put:
  assumes "srm_handle_rm_msg split_slave_rm split_ess_container msg c (m, None) = Some (effs, c', m', act)"
  shows "rm_put (rm_msg_qid msg) m m' \<and> (act = None \<or> act = Some None \<and> (\<forall>msg' es. bm_get m (rm_msg_qid msg) = Some (msg', es) \<longrightarrow> \<not> held es)) \<and>
    no_prepares effs \<and> (bm_get m (rm_msg_qid msg) = None \<longrightarrow> m' = m \<or> (\<exists>tm pl. msg = STM_Prepare (rm_msg_qid msg) tm pl))"
proof (cases "bm_get m (rm_msg_qid msg)")
  case None
  with assms rm_putI [of m "rm_msg_qid msg" "srm_new (rm_msg_qid msg) () ()"] show ?thesis
    by (cases msg) (auto simp: srm_handle_rm_msg_def srm_closed_def no_prepares_def srm_new_def rm_put_def)
next
  case (Some e)
  obtain msg' es where e: "e = (msg', es)" by (cases e)
  from assms Some e obtain effs0 c0 es' act0 where put: "srm_put split_ess_container (rm_msg_qid msg) (m, None) (Some (effs0, c0, es', act0)) = Some (effs, c', m', act)"
    and r: "(held es \<longrightarrow> held es' \<and> act0 = SRM_Wait) \<and> (act0 = SRM_Wait \<or> act0 = SRM_Exit None) \<and> sr_query_id es' = sr_query_id es \<and> no_prepares effs0"
    by (cases msg) (auto simp: srm_handle_rm_msg_def srm_put_def bind_eq_Some_conv dest!: msg_handlers)
  from srm_put_result [OF put Some [unfolded e]] r Some e show ?thesis by (auto split: stm_rm_action.splits)
qed

lemma rm_plm_put:
  assumes "srm_handle_rm_plm split_slave_rm split_ess_container plm c (m, None) = Some (effs, c', m', act)"
  shows "rm_put (rm_plm_qid plm) m m' \<and>
    (act = None \<or> (\<exists>tid. act = Some (Some (tid, rm_plm_qid plm))) \<or> act = Some None \<and> plm = SRM_AbortedPLm (rm_plm_qid plm)) \<and>
    no_prepares effs \<and> (bm_get m (rm_plm_qid plm) = None \<longrightarrow> (\<exists>tm pl. plm = SRM_PreparedPLm (rm_plm_qid plm) tm pl))"
proof (cases "\<exists>qid tm pl. plm = SRM_PreparedPLm qid tm pl \<and> srm_is_leader split_slave_rm c = Some False")
  case True
  then obtain qid tm pl where plm: "plm = SRM_PreparedPLm qid tm pl" "srm_is_leader split_slave_rm c = Some False" by blast
  with assms obtain es where "m' = bm_insert qid (case bm_get m qid of Some (msg, _) \<Rightarrow> msg | None \<Rightarrow> None, es) m" "effs = []" "act = None"
    "held es" "sr_query_id es = qid"
    by (auto simp: srm_handle_rm_plm_def srm_init_follower_def srm_hold_prepared_def srm_new_def held_def bind_eq_Some_conv Let_def)
  with plm rm_putI [of m qid es] show ?thesis by (auto simp: no_prepares_def)
next
  case False
  with assms obtain msg es res where get: "bm_get m (rm_plm_qid plm) = Some (msg, es)"
    and put0: "srm_put split_ess_container (rm_plm_qid plm) (m, None) res = Some (effs, c', m', act)"
    and res: "(srm_handle_prepared_plm split_slave_rm c es = res) \<or> (\<exists>pl. srm_handle_committed_plm split_slave_rm (rm_plm_qid plm) pl c es = res) \<or>
      (plm = SRM_AbortedPLm (rm_plm_qid plm) \<and> srm_handle_aborted_plm split_slave_rm c es = res)"
    by (cases plm) (auto simp: srm_handle_rm_plm_def bind_eq_Some_conv split: if_splits)
  from put0 obtain effs0 c0 es' act0 where r0: "res = Some (effs0, c0, es', act0)" by (auto simp: srm_put_def bind_eq_Some_conv)
  have r: "(held es \<longrightarrow> held es') \<and> sr_query_id es' = sr_query_id es \<and> no_prepares effs0 \<and>
      (act0 = SRM_Wait \<or> (\<exists>tid. act0 = SRM_Exit (Some (tid, rm_plm_qid plm))) \<or> act0 = SRM_Exit None \<and> plm = SRM_AbortedPLm (rm_plm_qid plm))"
    using res unfolding r0 by (elim disjE exE conjE) (auto simp: held_def dest: plm_handlers)
  note put = put0 [unfolded r0]
  from srm_put_result [OF put get] r get show ?thesis by (auto split: stm_rm_action.splits)
qed

lemma rm_put_msgs: "rm_put qid m m' \<Longrightarrow> bm_get m' k = Some (Some msg, es) \<Longrightarrow> \<exists>es. bm_get m k = Some (Some msg, es)"
  by (auto simp: rm_put_def split: if_splits option.splits)

lemma rm_put_held: "rm_put qid m m' \<Longrightarrow> bm_get m k = Some (msg, es) \<Longrightarrow> held es \<Longrightarrow> \<exists>es'. bm_get m' k = Some (msg, es') \<and> held es'"
  by (cases "k = qid") (auto simp: rm_put_def)

lemma rm_put_wf: "rm_put qid m m' \<Longrightarrow> bm_wf m \<Longrightarrow> bm_wf m'"
  by (auto simp: rm_put_def)

lemma action_quiet:
  assumes act: "handle_shard_split_es_action c qid act (ess\<lparr>shard_split_rm_ess := m'\<rparr>) = Some (effs, ess')"
    and put: "rm_put qid (shard_split_rm_ess ess) m'"
    and abort: "act = Some None \<Longrightarrow> q = qid \<Longrightarrow> \<forall>msg es. bm_get (shard_split_rm_ess ess) qid = Some (msg, es) \<longrightarrow> \<not> held es"
  shows "quiet q effs ess ess'"
proof (cases act)
  case None
  with act have "effs = []" "ess' = ess\<lparr>shard_split_rm_ess := m'\<rparr>" by (simp_all add: handle_shard_split_es_action_def)
  with rm_put_msgs [OF put] rm_put_held [OF put] rm_put_wf [OF put] show ?thesis by (fastforce simp: quiet_def ess_msgs_def expects_def)
next
  case (Some mact)
  with act obtain msg es' where get: "bm_get m' qid = Some (msg, es')" by (auto simp: handle_shard_split_es_action_def bind_eq_Some_conv)
  show ?thesis
  proof (cases mact)
    case None
    with Some act get have ess': "effs = []" "ess' = ess\<lparr>shard_split_rm_ess := bm_remove qid m'\<rparr>" by (auto simp: handle_shard_split_es_action_def)
    have "q = qid \<longrightarrow> (\<forall>msg es. bm_get (shard_split_rm_ess ess) qid = Some (msg, es) \<longrightarrow> \<not> held es)" using abort Some None by blast
    then have "expects q ess \<longrightarrow> expects q ess'" using rm_put_held [OF put, of q] by (auto simp: ess' expects_def)
    with ess' rm_put_msgs [OF put] rm_put_wf [OF put] show ?thesis by (fastforce simp: quiet_def ess_msgs_def)
  next
    case (Some commit)
    with \<open>act = Some mact\<close> act get obtain pending where pend: "pending_create c msg = Some (effs, pending)"
      and ess': "shard_split_rm_ess ess' = bm_remove qid m'" "shard_pending_ess ess' = bm_insert qid pending (shard_pending_ess ess)"
      by (cases commit) (auto simp: handle_shard_split_es_action_def bind_eq_Some_conv)
    from pend have "confirms effs = {} \<and> creates effs = {} \<and> pushed_snapshots effs \<subseteq> {m. msg = Some m}"
      by (auto simp: pending_create_def bind_eq_Some_conv confirms_def creates_def pushed_snapshots_def split: if_splits option.splits)
    moreover have "m \<in> ess_msgs ess" if "msg = Some m" for m using rm_put_msgs [OF put] get that by (fastforce simp: ess_msgs_def)
    moreover have "expects q ess \<longrightarrow> expects q ess'" using rm_put_held [OF put, of q] by (auto simp: ess' expects_def)
    ultimately show ?thesis using rm_put_msgs [OF put] rm_put_wf [OF put] by (fastforce simp: quiet_def ess_msgs_def ess')
  qed
qed

lemma split_done_quiet:
  assumes "split_done qid ess (Some (rm_effs, c1, m', act)) = Some (effs, c', ess')" and "rm_put qid (shard_split_rm_ess ess) m'"
    and "act = Some None \<Longrightarrow> q = qid \<Longrightarrow> \<forall>msg es. bm_get (shard_split_rm_ess ess) qid = Some (msg, es) \<longrightarrow> \<not> held es"
  shows "quiet q effs ess ess'"
proof -
  from assms(1) obtain effs1 where "handle_shard_split_es_action c1 qid act (ess\<lparr>shard_split_rm_ess := m'\<rparr>) = Some (effs1, ess')"
    and effs: "effs = map SE_RM rm_effs @ effs1" by (auto simp: split_done_def bind_eq_Some_conv)
  from action_quiet [OF this(1) assms(2,3)] show ?thesis by (simp add: quiet_def effs)
qed

lemma rm_msg_quiet:
  assumes "shard_handle_rm_msg msg c ess = Some (effs, c', ess')"
  shows "quiet q effs ess ess'"
proof -
  from assms obtain rm_effs c1 m' act where h: "srm_handle_rm_msg split_slave_rm split_ess_container msg c (shard_split_rm_ess ess, None) = Some (rm_effs, c1, m', act)"
    by (auto simp: shard_handle_rm_msg_def split_done_def bind_eq_Some_conv)
  with assms rm_msg_put [OF h] show ?thesis by (auto simp: shard_handle_rm_msg_def intro!: split_done_quiet)
qed

lemma rm_plm_quiet:
  assumes "shard_handle_plm (SSP_Split plm) c ess = Some (effs, c', ess')" and "plm \<noteq> SRM_AbortedPLm q"
  shows "quiet q effs ess ess'"
proof -
  from assms obtain rm_effs c1 m' act where h: "srm_handle_rm_plm split_slave_rm split_ess_container plm c (shard_split_rm_ess ess, None) = Some (rm_effs, c1, m', act)"
    by (auto simp: shard_handle_plm_def split_done_def bind_eq_Some_conv)
  show ?thesis
  proof (rule split_done_quiet)
    show "split_done (rm_plm_qid plm) ess (Some (rm_effs, c1, m', act)) = Some (effs, c', ess')" using assms(1) h by (simp add: shard_handle_plm_def)
    show "rm_put (rm_plm_qid plm) (shard_split_rm_ess ess) m'" using rm_plm_put [OF h] by simp
    show "\<forall>msg es. bm_get (shard_split_rm_ess ess) (rm_plm_qid plm) = Some (msg, es) \<longrightarrow> \<not> held es" if "act = Some None" "q = rm_plm_qid plm"
      using rm_plm_put [OF h] that assms(2) by auto
  qed
qed

lemma insert_loop_get:
  "split_insert_loop c ess = Some (effs, c', ess') \<Longrightarrow>
     map fst ess' = map fst ess \<and>
     (case bm_get ess k of
        Some (msg, es) \<Rightarrow> \<exists>es'. bm_get ess' k = Some (msg, es') \<and> (held es \<longrightarrow> held es')
      | None \<Rightarrow> bm_get ess' k = None)"
proof (induction c ess arbitrary: effs c' ess' rule: split_insert_loop.induct)
  case (2 c qid msg es ess)
  from "2.prems" obtain effs0 c1 es1 act effs1 ess1 where h: "srm_start_inserting split_slave_rm c es = Some (effs0, c1, es1, act)"
    and rest: "split_insert_loop c1 ess = Some (effs1, c', ess1)" and ess': "ess' = (qid, msg, es1) # ess1"
    by (auto simp: bind_eq_Some_conv)
  have "held es \<longrightarrow> held es1" using plm_handlers(4) [OF h] by simp
  with "2.IH" [OF h _ _ _ rest] ess' show ?case by (auto split: option.splits)
qed simp

lemma bundle_quiet:
  assumes "shard_handle_bundle_processed c ess = Some (effs, c', ess')"
  shows "quiet q effs ess ess'"
proof -
  from assms obtain effs1 m where loop: "split_insert_loop c (shard_split_rm_ess ess) = Some (effs1, c', m)" and effs: "effs = map SE_RM effs1"
    and ess': "ess' = ess\<lparr>shard_split_rm_ess := m\<rparr>" by (auto simp: shard_handle_bundle_processed_def bind_eq_Some_conv)
  have get: "\<exists>es0. bm_get (shard_split_rm_ess ess) k = Some (msg, es0)" if "bm_get m k = Some (msg, es)" for k msg es
    using insert_loop_get [OF loop, of k] that by (auto split: option.splits)
  have "expects q ess \<longrightarrow> expects q ess'" using insert_loop_get [OF loop, of q] by (auto simp: expects_def ess')
  with insert_loop_get [OF loop] get show ?thesis by (fastforce simp: quiet_def effs ess' ess_msgs_def bm_wf_def)
qed

lemma tablet_msg_quiet:
  assumes "shard_handle_tablet_msg tablets tid tmsg ess = Some (effs, ess')"
  shows "quiet q effs ess ess'"
  using assms by (auto simp: shard_handle_tablet_msg_def quiet_def ess_msgs_def expects_def confirms_def creates_def pushed_snapshots_def
      bind_eq_Some_conv split: if_splits) blast

lemma snapshot_rm_get:
  assumes "distinct (map fst ess)"
  shows "bm_get (fold (\<lambda>(qid, _, es) m. case srm_reconfig_snapshot split_slave_rm es of Some es' \<Rightarrow> bm_insert qid (None, es') m | None \<Rightarrow> m) ess acc) k =
    (case bm_get ess k of
       Some (_, es) \<Rightarrow> (case srm_reconfig_snapshot split_slave_rm es of Some es' \<Rightarrow> Some (None, es') | None \<Rightarrow> bm_get acc k)
     | None \<Rightarrow> bm_get acc k)"
  using assms
proof (induction ess arbitrary: acc)
  case (Cons e ess)
  then have "bm_get ess (fst e) = None" by (simp add: map_of_eq_None_iff)
  with Cons show ?case by (cases e; cases "k = fst e") (auto split: option.splits)
qed simp

lemma snapshot_rm_wf:
  "bm_wf acc \<Longrightarrow> bm_wf (fold (\<lambda>(qid, _, es) m. case srm_reconfig_snapshot split_slave_rm es of Some es' \<Rightarrow> bm_insert qid (None, es') m | None \<Rightarrow> m) ess acc)"
  by (induction ess arbitrary: acc) (auto split: option.splits)

lemma snapshot_pending_get: "bm_get ess k \<noteq> None \<or> bm_get acc k \<noteq> None \<Longrightarrow> bm_get (fold (\<lambda>(qid, _). bm_insert qid PS_Follower) ess acc) k \<noteq> None"
  by (induction ess arbitrary: acc) (auto split: if_splits)

lemma snapshot_quiet:
  assumes "bm_wf (shard_split_rm_ess ess)"
  shows "quiet q [] ess (shard_reconfig_snapshot ess)"
proof -
  note get = snapshot_rm_get [OF bm_wf_distinct [OF assms]]
  have "srm_reconfig_snapshot split_slave_rm es \<noteq> None \<and> (\<forall>es'. srm_reconfig_snapshot split_slave_rm es = Some es' \<longrightarrow> held es')" if "held es" for es :: shard_split_rm_es
    using that by (cases "sr_state es") (auto simp: srm_reconfig_snapshot_def held_def)
  then have "expects q ess \<longrightarrow> expects q (shard_reconfig_snapshot ess)"
    using snapshot_pending_get [of "shard_pending_ess ess" q "[]"] by (fastforce simp: expects_def shard_reconfig_snapshot_def get)
  then show ?thesis
    by (auto simp: quiet_def ess_msgs_def shard_reconfig_snapshot_def get intro: snapshot_rm_wf split: option.splits)
qed

lemma quiet_trans: "quiet q effs ess ess1 \<Longrightarrow> quiet q effs' ess1 ess2 \<Longrightarrow> quiet q (effs @ effs') ess ess2"
  by (auto simp: quiet_def)

lemma quiet_clear:
  "bm_get (shard_split_rm_ess ess) qid = Some (msg, es) \<Longrightarrow> quiet q [] ess (ess\<lparr>shard_split_rm_ess := bm_insert qid (None, es) (shard_split_rm_ess ess)\<rparr>)"
  by (auto simp: quiet_def ess_msgs_def expects_def split: if_splits)

lemma leader_loop_quiet: "split_leader_changed_loop qids c ess = Some (effs, c', ess') \<Longrightarrow> quiet q effs ess ess'"
proof (induction qids arbitrary: c ess effs)
  case (Cons qid qids)
  from Cons.prems obtain msg es effs1 c1 ess1 effs2 where get: "bm_get (shard_split_rm_ess ess) qid = Some (msg, es)"
    and put: "split_done qid ess (srm_put split_ess_container qid (bm_insert qid (None, es) (shard_split_rm_ess ess), None)
      (srm_leader_changed split_slave_rm c es)) = Some (effs1, c1, ess1)"
    and rest: "split_leader_changed_loop qids c1 ess1 = Some (effs2, c', ess')" and effs: "effs = effs1 @ effs2"
    by (auto simp: bind_eq_Some_conv)
  let ?ess = "ess\<lparr>shard_split_rm_ess := bm_insert qid (None, es) (shard_split_rm_ess ess)\<rparr>"
  from put obtain rm_effs c2 m' act where h: "srm_put split_ess_container qid (shard_split_rm_ess ?ess, None) (srm_leader_changed split_slave_rm c es) =
      Some (rm_effs, c2, m', act)" by (auto simp: split_done_def bind_eq_Some_conv)
  then obtain effs0 c0 es' act0 where lc: "srm_leader_changed split_slave_rm c es = Some (effs0, c0, es', act0)"
    and put0: "srm_put split_ess_container qid (shard_split_rm_ess ?ess, None) (Some (effs0, c0, es', act0)) = Some (rm_effs, c2, m', act)"
    by (auto simp: srm_put_def bind_eq_Some_conv)
  have rm: "rm_put qid (shard_split_rm_ess ?ess) m'" "act = Some None \<Longrightarrow> \<not> held es"
    using srm_put_result [OF put0, of None es] plm_handlers(5) [OF lc] by (auto split: stm_rm_action.splits)
  have "split_done qid ?ess (Some (rm_effs, c2, m', act)) = Some (effs1, c1, ess1)" using put h by (simp add: split_done_def)
  from split_done_quiet [OF this rm(1)] rm(2) have "quiet q effs1 ?ess ess1" by auto
  with quiet_clear [OF get] have "quiet q effs1 ess ess1" using quiet_trans [of q "[]"] by fastforce
  from quiet_trans [OF this Cons.IH [OF rest]] show ?case by (simp add: effs)
qed (simp add: quiet_def)

lemma those_keys: "those (map (\<lambda>(qid, es). map_option (Pair qid) (f es)) ess) = Some ess' \<Longrightarrow> map fst ess' = map fst ess"
  by (induction ess arbitrary: ess') (auto split: option.splits)

lemma takeover_quiet:
  assumes "shard_handle_leader_changed c (shard_reconfig_snapshot ess) = Some (effs, c', ess')" and "bm_wf (shard_split_rm_ess ess)"
  shows "quiet q effs ess ess'"
proof -
  from assms(1) obtain ess1 pending where loop: "split_leader_changed_loop (bm_keys (shard_split_rm_ess (shard_reconfig_snapshot ess))) c (shard_reconfig_snapshot ess) =
      Some (effs, c', ess1)" and pending: "those (map (\<lambda>(qid, es). map_option (Pair qid) (pending_leader_changed c' es)) (shard_pending_ess ess1)) = Some pending"
    and ess': "ess' = ess1\<lparr>shard_pending_ess := pending\<rparr>" by (auto simp: shard_handle_leader_changed_def bind_eq_Some_conv)
  have "bm_get pending k = None \<longleftrightarrow> bm_get (shard_pending_ess ess1) k = None" for k
    using those_keys [OF pending] by (metis bm_get_None list.set_map)
  then have "quiet q [] ess1 ess'" by (auto simp: quiet_def ess' expects_def ess_msgs_def)
  with quiet_trans [OF snapshot_quiet [OF assms(2)] leader_loop_quiet [OF loop]] show ?thesis using quiet_trans by fastforce
qed

text \<open>The two handlers that do confirm.\<close>

lemma sharding_msg_effects:
  assumes "shard_handle_sharding_msg m c ess = Some (effs, ess')"
  shows "creates effs = {}" and "pushed_snapshots effs \<union> ess_msgs ess' \<subseteq> insert m (ess_msgs ess)"
    and "confirms effs \<subseteq> {(sm_node_path m, sm_query_id m)}" and "confirms effs \<noteq> {} \<Longrightarrow> \<not> expects (sm_query_id m) ess"
    and "expects q ess \<Longrightarrow> expects q ess'" and "bm_wf (shard_split_rm_ess ess) \<Longrightarrow> bm_wf (shard_split_rm_ess ess')"
proof -
  consider (rm) msg es where "bm_get (shard_split_rm_ess ess) (sm_query_id m) = Some (msg, es)" "effs = []"
      "ess' = ess\<lparr>shard_split_rm_ess := bm_insert (sm_query_id m) (Some m, es) (shard_split_rm_ess ess)\<rparr>"
    | (pending) p p' where "bm_get (shard_pending_ess ess) (sm_query_id m) = Some p" "effs = [] \<or> effs = [SE_Push_Snapshot m]"
      "ess' = ess\<lparr>shard_pending_ess := bm_insert (sm_query_id m) p' (shard_pending_ess ess)\<rparr>"
    | (confirm) lid where "effs = [SE_Confirm (sm_node_path m) lid (sm_query_id m)]" "ess' = ess" "\<not> expects (sm_query_id m) ess"
    using assms by (auto simp: shard_handle_sharding_msg_def pending_sharding_msg_def bind_eq_Some_conv expects_def
        split: option.splits pending_state.splits)
  note cs = this
  show "creates effs = {}" by (cases rule: cs) (auto simp: creates_def)
  show "pushed_snapshots effs \<union> ess_msgs ess' \<subseteq> insert m (ess_msgs ess)"
    by (cases rule: cs) (auto simp: pushed_snapshots_def ess_msgs_def split: if_splits)
  show "confirms effs \<subseteq> {(sm_node_path m, sm_query_id m)}" by (cases rule: cs) (auto simp: confirms_def)
  show "\<not> expects (sm_query_id m) ess" if "confirms effs \<noteq> {}" using that by (cases rule: cs) (auto simp: confirms_def)
  show "expects q ess'" if "expects q ess" using that by (cases rule: cs) (auto simp: expects_def)
  show "bm_wf (shard_split_rm_ess ess')" if "bm_wf (shard_split_rm_ess ess)" using that by (cases rule: cs) auto
qed

lemma snapshot_plm_effects:
  assumes "shard_handle_plm (SSP_Snapshot m) c ess = Some (effs, c', ess')"
  shows "creates effs \<subseteq> {(sm_query_id m, shard_create_tablet c (sm_snapshot m))}" and "pushed_snapshots effs = {}"
    and "ess_msgs ess' = ess_msgs ess" and "confirms effs \<subseteq> {(sm_node_path m, sm_query_id m)}"
    and "q \<noteq> sm_query_id m \<Longrightarrow> expects q ess \<Longrightarrow> expects q ess'" and "shard_split_rm_ess ess' = shard_split_rm_ess ess"
  using assms by (auto 0 4 simp: shard_handle_plm_def pending_sharding_plm_def bind_eq_Some_conv creates_def pushed_snapshots_def ess_msgs_def
      confirms_def expects_def split: option.splits pending_state.splits)

section \<open>The snapshot in the slave's bundle\<close>

text \<open>While the commit protocol holds \<open>q\<close> nothing is pending for it; state machines and messages are kept under their query.\<close>

definition proper :: "query_id \<Rightarrow> 'm shard_split_ess \<Rightarrow> bool" where
  "proper q ess \<longleftrightarrow>
     (\<forall>msg es. bm_get (shard_split_rm_ess ess) q = Some (msg, es) \<longrightarrow> held es \<and> bm_get (shard_pending_ess ess) q = None) \<and>
     (\<forall>k msg es. bm_get (shard_split_rm_ess ess) k = Some (msg, es) \<longrightarrow> sr_query_id es = k \<and> (\<forall>m. msg = Some m \<longrightarrow> sm_query_id m = k))"

definition inserting :: "query_id \<Rightarrow> 'm shard_split_ess \<Rightarrow> bool" where
  "inserting q ess \<longleftrightarrow> (\<exists>buffered. bm_get (shard_pending_ess ess) q = Some (PS_InsertingShardingSnapshot buffered))"

definition steady :: "query_id \<Rightarrow> 'm shard_effect list \<Rightarrow> 'm shard_split_ess \<Rightarrow> 'm shard_split_ess \<Rightarrow> bool" where
  "steady q effs ess ess' \<longleftrightarrow>
     (proper q ess \<longrightarrow> proper q ess' \<and> (bm_get (shard_split_rm_ess ess) q = None \<longrightarrow> bm_get (shard_split_rm_ess ess') q = None) \<and>
       (\<forall>tm pl. SE_RM (RM_Push (SRM_PreparedPLm q tm pl)) \<notin> set effs) \<and>
       ((\<exists>m \<in> pushed_snapshots effs. sm_query_id m = q) \<or> inserting q ess \<longrightarrow> inserting q ess'))"

lemma proper_put:
  assumes "proper q ess" and put: "rm_put qid (shard_split_rm_ess ess) m'" and fresh: "qid = q \<longrightarrow> bm_get (shard_split_rm_ess ess) q = None \<longrightarrow> m' = shard_split_rm_ess ess"
  shows "proper q (ess\<lparr>shard_split_rm_ess := m'\<rparr>)" and "bm_get (shard_split_rm_ess ess) q = None \<Longrightarrow> bm_get m' q = None"
  using assms by (cases "qid = q"; cases "bm_get (shard_split_rm_ess ess) qid"; fastforce simp: proper_def rm_put_def split: if_splits)+

lemma action_steady:
  assumes act: "handle_shard_split_es_action c qid act ess = Some (effs, ess')"
  shows "steady q effs ess ess'"
proof (cases act)
  case None
  with act show ?thesis by (simp add: handle_shard_split_es_action_def steady_def)
next
  case (Some mact)
  with act obtain msg es where get: "bm_get (shard_split_rm_ess ess) qid = Some (msg, es)" by (auto simp: handle_shard_split_es_action_def bind_eq_Some_conv)
  show ?thesis
  proof (cases mact)
    case None
    with Some act get show ?thesis by (auto simp: handle_shard_split_es_action_def steady_def proper_def inserting_def split: if_splits)
  next
    case (Some commit)
    with \<open>act = Some mact\<close> act get obtain pending where pend: "pending_create c msg = Some (effs, pending)"
      and ess': "shard_split_rm_ess ess' = bm_remove qid (shard_split_rm_ess ess)" "shard_pending_ess ess' = bm_insert qid pending (shard_pending_ess ess)"
      by (cases commit) (auto simp: handle_shard_split_es_action_def bind_eq_Some_conv)
    from pend have effs: "effs = [] \<or> (\<exists>m. msg = Some m \<and> effs = [SE_Push_Snapshot m] \<and> pending = PS_InsertingShardingSnapshot [])"
      by (auto simp: pending_create_def bind_eq_Some_conv split: if_splits option.splits)
    show ?thesis unfolding steady_def
    proof (intro impI conjI)
      assume proper: "proper q ess"
      then show "proper q ess'" by (auto simp: proper_def ess' split: if_splits)
      show "bm_get (shard_split_rm_ess ess) q = None \<Longrightarrow> bm_get (shard_split_rm_ess ess') q = None" by (simp add: ess')
      show "\<forall>tm pl. SE_RM (RM_Push (SRM_PreparedPLm q tm pl)) \<notin> set effs" using effs by auto
      assume "(\<exists>m \<in> pushed_snapshots effs. sm_query_id m = q) \<or> inserting q ess"
      with effs proper get show "inserting q ess'" by (auto simp: proper_def inserting_def ess' pushed_snapshots_def)
    qed
  qed
qed

lemma steady_trans: "steady q effs ess ess1 \<Longrightarrow> steady q effs' ess1 ess2 \<Longrightarrow> steady q (effs @ effs') ess ess2"
  by (auto simp: steady_def)

lemma split_done_steady:
  assumes "split_done qid ess (Some (rm_effs, c1, m', act)) = Some (effs, c', ess')" and "rm_put qid (shard_split_rm_ess ess) m'" and "no_prepares rm_effs"
    and "qid = q \<longrightarrow> bm_get (shard_split_rm_ess ess) q = None \<longrightarrow> m' = shard_split_rm_ess ess"
  shows "steady q effs ess ess'"
proof -
  from assms(1) obtain effs1 where act: "handle_shard_split_es_action c1 qid act (ess\<lparr>shard_split_rm_ess := m'\<rparr>) = Some (effs1, ess')"
    and effs: "effs = map SE_RM rm_effs @ effs1" by (auto simp: split_done_def bind_eq_Some_conv)
  have "steady q (map SE_RM rm_effs) ess (ess\<lparr>shard_split_rm_ess := m'\<rparr>)"
    using proper_put [OF _ assms(2,4)] assms(3) by (auto simp: steady_def inserting_def no_prepares_def)
  from steady_trans [OF this action_steady [OF act]] show ?thesis by (simp add: effs)
qed

lemma rm_msg_steady:
  assumes "shard_handle_rm_msg msg c ess = Some (effs, c', ess')" and "\<forall>tm pl. msg = STM_Prepare q tm pl \<longrightarrow> bm_get (shard_split_rm_ess ess) q \<noteq> None"
  shows "steady q effs ess ess'"
proof -
  from assms obtain rm_effs c1 m' act where h: "srm_handle_rm_msg split_slave_rm split_ess_container msg c (shard_split_rm_ess ess, None) = Some (rm_effs, c1, m', act)"
    by (auto simp: shard_handle_rm_msg_def split_done_def bind_eq_Some_conv)
  have "split_done (rm_msg_qid msg) ess (Some (rm_effs, c1, m', act)) = Some (effs, c', ess')" using assms(1) h by (simp add: shard_handle_rm_msg_def)
  then show ?thesis by (rule split_done_steady) (use rm_msg_put [OF h] assms(2) in auto)
qed

lemma rm_plm_steady:
  assumes "shard_handle_plm (SSP_Split plm) c ess = Some (effs, c', ess')" and "\<forall>tm pl. plm \<noteq> SRM_PreparedPLm q tm pl"
  shows "steady q effs ess ess'"
proof -
  from assms obtain rm_effs c1 m' act where h: "srm_handle_rm_plm split_slave_rm split_ess_container plm c (shard_split_rm_ess ess, None) = Some (rm_effs, c1, m', act)"
    by (auto simp: shard_handle_plm_def split_done_def bind_eq_Some_conv)
  have "split_done (rm_plm_qid plm) ess (Some (rm_effs, c1, m', act)) = Some (effs, c', ess')" using assms(1) h by (simp add: shard_handle_plm_def)
  then show ?thesis by (rule split_done_steady) (use rm_plm_put [OF h] assms(2) in auto)
qed

lemma tablet_msg_steady:
  assumes "shard_handle_tablet_msg tablets tid tmsg ess = Some (effs, ess')"
  shows "steady q effs ess ess'"
proof (cases "tid \<in> set tablets")
  case True
  with assms show ?thesis by (auto simp: shard_handle_tablet_msg_def steady_def pushed_snapshots_def)
next
  case False
  with assms obtain qid pending where get: "bm_get (shard_pending_ess ess) qid = Some pending" and effs: "effs = []"
    and ess': "ess' = ess\<lparr>shard_pending_ess := bm_insert qid (pending_tablet_msg tmsg pending) (shard_pending_ess ess)\<rparr>"
    by (auto simp: shard_handle_tablet_msg_def bind_eq_Some_conv)
  have "inserting q ess \<longrightarrow> inserting q ess'" using get by (auto simp: inserting_def ess' pending_tablet_msg_def)
  moreover have "proper q ess \<longrightarrow> proper q ess'" using get by (auto simp: proper_def ess')
  ultimately show ?thesis by (simp add: steady_def effs ess')
qed

lemma sharding_msg_steady:
  assumes "shard_handle_sharding_msg m c ess = Some (effs, ess')"
  shows "steady q effs ess ess'"
  using assms by (auto simp: shard_handle_sharding_msg_def pending_sharding_msg_def steady_def proper_def inserting_def pushed_snapshots_def
      bind_eq_Some_conv split: option.splits pending_state.splits if_splits)

lemma insert_loop_prepares:
  "split_insert_loop c ess = Some (effs, c', ess') \<Longrightarrow> distinct (map fst ess) \<Longrightarrow>
     (\<forall>(k, msg, es) \<in> set ess. sr_query_id es = k \<and> (k = q \<longrightarrow> held es)) \<Longrightarrow>
     (\<forall>tm pl. RM_Push (SRM_PreparedPLm q tm pl) \<notin> set effs) \<and> (\<forall>(k, msg, es) \<in> set ess'. sr_query_id es = k)"
proof (induction c ess arbitrary: effs c' ess' rule: split_insert_loop.induct)
  case (2 c qid msg es ess)
  from "2.prems" obtain effs0 c1 es1 act effs1 ess1 where h: "srm_start_inserting split_slave_rm c es = Some (effs0, c1, es1, act)"
    and rest: "split_insert_loop c1 ess = Some (effs1, c', ess1)" and effs: "effs = effs0 @ effs1" and ess': "ess' = (qid, msg, es1) # ess1"
    by (auto simp: bind_eq_Some_conv)
  from "2.IH" [OF h _ _ _ rest] "2.prems"(2,3) plm_handlers(4) [OF h] show ?case by (fastforce simp: effs ess' no_prepares_def)
qed simp

lemma bundle_steady:
  assumes "shard_handle_bundle_processed c ess = Some (effs, c', ess')" and wf: "bm_wf (shard_split_rm_ess ess)"
  shows "steady q effs ess ess'"
proof -
  from assms(1) obtain effs1 m where loop: "split_insert_loop c (shard_split_rm_ess ess) = Some (effs1, c', m)" and effs: "effs = map SE_RM effs1"
    and ess': "ess' = ess\<lparr>shard_split_rm_ess := m\<rparr>" by (auto simp: shard_handle_bundle_processed_def bind_eq_Some_conv)
  have old: "\<exists>es0. bm_get (shard_split_rm_ess ess) k = Some (msg, es0) \<and> (held es0 \<longrightarrow> held es)" if "bm_get m k = Some (msg, es)" for k msg es
    using insert_loop_get [OF loop, of k] that by (auto split: option.splits)
  show ?thesis unfolding steady_def
  proof (rule impI)
    assume proper: "proper q ess"
    then have "\<forall>(k, msg, es) \<in> set (shard_split_rm_ess ess). sr_query_id es = k \<and> (k = q \<longrightarrow> held es)"
      using bm_get_set [OF wf] by (fastforce simp: proper_def)
    from insert_loop_prepares [OF loop bm_wf_distinct [OF wf] this] have np: "\<forall>tm pl. RM_Push (SRM_PreparedPLm q tm pl) \<notin> set effs1"
      and ids: "\<forall>(k, msg, es) \<in> set m. sr_query_id es = k" by auto
    have "proper q ess'" unfolding proper_def
    proof (intro conjI allI impI)
      fix msg es assume "bm_get (shard_split_rm_ess ess') q = Some (msg, es)"
      with old [of q msg es] proper show "held es" "bm_get (shard_pending_ess ess') q = None" by (auto simp: proper_def ess')
    next
      fix k msg es assume get: "bm_get (shard_split_rm_ess ess') k = Some (msg, es)"
      then show "sr_query_id es = k" using ids map_of_SomeD by (fastforce simp: ess')
      show "sm_query_id m' = k" if "msg = Some m'" for m' using old [of k msg es] get proper that by (fastforce simp: proper_def ess')
    qed
    moreover have "bm_get (shard_split_rm_ess ess) q = None \<longrightarrow> bm_get (shard_split_rm_ess ess') q = None"
      using insert_loop_get [OF loop, of q] by (auto simp: ess')
    ultimately show "proper q ess' \<and> (bm_get (shard_split_rm_ess ess) q = None \<longrightarrow> bm_get (shard_split_rm_ess ess') q = None) \<and>
       (\<forall>tm pl. SE_RM (RM_Push (SRM_PreparedPLm q tm pl)) \<notin> set effs) \<and>
       ((\<exists>m \<in> pushed_snapshots effs. sm_query_id m = q) \<or> inserting q ess \<longrightarrow> inserting q ess')"
      using np by (auto simp: effs ess' inserting_def)
  qed
qed

text \<open>A new leader of the slave.\<close>

definition calm :: "query_id \<Rightarrow> 'm shard_effect list \<Rightarrow> 'm shard_split_ess \<Rightarrow> 'm shard_split_ess \<Rightarrow> bool" where
  "calm q effs ess ess' \<longleftrightarrow>
     (proper q ess \<longrightarrow> proper q ess' \<and> (bm_get (shard_split_rm_ess ess) q = None \<longrightarrow> bm_get (shard_split_rm_ess ess') q = None) \<and>
       (\<forall>tm pl. SE_RM (RM_Push (SRM_PreparedPLm q tm pl)) \<notin> set effs))"

lemma steady_calm: "steady q effs ess ess' \<Longrightarrow> calm q effs ess ess'"
  by (simp add: steady_def calm_def)

lemma calm_trans: "calm q effs ess ess1 \<Longrightarrow> calm q effs' ess1 ess2 \<Longrightarrow> calm q (effs @ effs') ess ess2"
  by (auto simp: calm_def)

lemma snapshot_pending_None: "bm_get ess k = None \<Longrightarrow> bm_get acc k = None \<Longrightarrow> bm_get (fold (\<lambda>(qid, _). bm_insert qid PS_Follower) ess acc) k = None"
  by (induction ess arbitrary: acc) (auto split: if_splits)

lemma snapshot_calm:
  assumes "bm_wf (shard_split_rm_ess ess)"
  shows "calm q [] ess (shard_reconfig_snapshot ess)"
proof -
  note get = snapshot_rm_get [OF bm_wf_distinct [OF assms]]
  have snap: "held es' \<and> sr_query_id es' = sr_query_id es" if "srm_reconfig_snapshot split_slave_rm es = Some es'" for es es' :: shard_split_rm_es
    using that by (cases "sr_state es") (auto simp: srm_reconfig_snapshot_def held_def)
  show ?thesis unfolding calm_def
    using snapshot_pending_None [of "shard_pending_ess ess" q "[]"]
    by (auto simp: proper_def shard_reconfig_snapshot_def get dest: snap split: option.splits)
qed

lemma leader_loop_calm: "split_leader_changed_loop qids c ess = Some (effs, c', ess') \<Longrightarrow> calm q effs ess ess'"
proof (induction qids arbitrary: c ess effs)
  case (Cons qid qids)
  from Cons.prems obtain msg es effs1 c1 ess1 effs2 where get: "bm_get (shard_split_rm_ess ess) qid = Some (msg, es)"
    and put: "split_done qid ess (srm_put split_ess_container qid (bm_insert qid (None, es) (shard_split_rm_ess ess), None)
      (srm_leader_changed split_slave_rm c es)) = Some (effs1, c1, ess1)"
    and rest: "split_leader_changed_loop qids c1 ess1 = Some (effs2, c', ess')" and effs: "effs = effs1 @ effs2"
    by (auto simp: bind_eq_Some_conv)
  let ?ess = "ess\<lparr>shard_split_rm_ess := bm_insert qid (None, es) (shard_split_rm_ess ess)\<rparr>"
  from put obtain effs0 c0 es' act0 rm_effs c2 m' act where lc: "srm_leader_changed split_slave_rm c es = Some (effs0, c0, es', act0)"
    and put0: "srm_put split_ess_container qid (shard_split_rm_ess ?ess, None) (Some (effs0, c0, es', act0)) = Some (rm_effs, c2, m', act)"
    by (auto simp: split_done_def srm_put_def bind_eq_Some_conv)
  from srm_put_result [OF put0, of None es] plm_handlers(5) [OF lc] have rm: "rm_put qid (shard_split_rm_ess ?ess) m'" "no_prepares rm_effs"
    by (auto simp: no_prepares_def)
  have fin: "split_done qid ?ess (Some (rm_effs, c2, m', act)) = Some (effs1, c1, ess1)" using put put0 lc by (simp add: split_done_def)
  have "calm q effs1 ?ess ess1" by (rule steady_calm [OF split_done_steady [OF fin rm]]) simp
  moreover have "calm q [] ess ?ess" using get by (auto simp: calm_def proper_def)
  ultimately have "calm q effs1 ess ess1" using calm_trans [of q "[]"] by fastforce
  from calm_trans [OF this Cons.IH [OF rest]] show ?case by (simp add: effs)
qed (simp add: calm_def)

lemma takeover_calm:
  assumes "shard_handle_leader_changed c (shard_reconfig_snapshot ess) = Some (effs, c', ess')" and "bm_wf (shard_split_rm_ess ess)"
  shows "calm q effs ess ess'"
proof -
  from assms(1) obtain ess1 pending where loop: "split_leader_changed_loop (bm_keys (shard_split_rm_ess (shard_reconfig_snapshot ess))) c (shard_reconfig_snapshot ess) =
      Some (effs, c', ess1)" and pending: "those (map (\<lambda>(qid, es). map_option (Pair qid) (pending_leader_changed c' es)) (shard_pending_ess ess1)) = Some pending"
    and ess': "ess' = ess1\<lparr>shard_pending_ess := pending\<rparr>" by (auto simp: shard_handle_leader_changed_def bind_eq_Some_conv)
  have "bm_get pending k = None \<longleftrightarrow> bm_get (shard_pending_ess ess1) k = None" for k
    using those_keys [OF pending] by (metis bm_get_None list.set_map)
  then have "calm q [] ess1 ess'" by (simp add: calm_def ess' proper_def)
  with calm_trans [OF snapshot_calm [OF assms(2)] leader_loop_calm [OF loop]] show ?thesis using calm_trans by fastforce
qed

lemma takeover_pushes_nothing:
  assumes "shard_handle_leader_changed c (shard_reconfig_snapshot ess) = Some (effs, c', ess')" and "bm_wf (shard_split_rm_ess ess)"
  shows "pushed_snapshots effs = {}" and "ess_msgs ess' = {}"
proof -
  from assms(1) obtain ess1 where loop: "split_leader_changed_loop (bm_keys (shard_split_rm_ess (shard_reconfig_snapshot ess))) c (shard_reconfig_snapshot ess) =
      Some (effs, c', ess1)" and ess': "shard_split_rm_ess ess' = shard_split_rm_ess ess1" by (auto simp: shard_handle_leader_changed_def bind_eq_Some_conv)
  have "ess_msgs (shard_reconfig_snapshot ess) = {}"
    by (auto simp: ess_msgs_def shard_reconfig_snapshot_def snapshot_rm_get [OF bm_wf_distinct [OF assms(2)]] split: option.splits)
  with leader_loop_quiet [OF loop, of "[]"] show "pushed_snapshots effs = {}" and "ess_msgs ess' = {}" by (auto simp: quiet_def ess_msgs_def ess')
qed

lemma snapshot_plm_calm:
  assumes "shard_handle_plm (SSP_Snapshot m) c ess = Some (effs, c', ess')"
  shows "calm q effs ess ess'" and "sm_query_id m \<noteq> q \<Longrightarrow> inserting q ess \<Longrightarrow> inserting q ess'"
    and "sm_query_id m = q \<Longrightarrow> inserting q ess \<Longrightarrow> (q, shard_create_tablet c (sm_snapshot m)) \<in> creates effs"
  using assms by (auto simp: shard_handle_plm_def pending_sharding_plm_def bind_eq_Some_conv calm_def proper_def inserting_def creates_def
      split: option.splits pending_state.splits)

section \<open>The system\<close>

text \<open>
  The group of the old tablet and the group of the slave, each seen at the node that leads or last led, their
  bundles under way, the log of the slave, what was created from it, and the two networks. \<open>ho_moved\<close> records the
  storage of the old tablet before and after it deletes the rows.
\<close>

record 'm handover =
  ho_tablet :: ddl_tablet
  ho_fq :: "(query_id, fq_outer) btree"
  ho_es :: "sharding_snapshot_es option"
  ho_flying :: "query_id list"
  ho_moved :: "(generic_mv_table \<times> generic_mv_table) option"
  ho_slave :: slave_ctx
  ho_ess :: "'m shard_split_ess"
  ho_sflying :: "split_plm list"
  ho_slog :: "split_plm list"
  ho_created :: "(query_id \<times> ddl_tablet) set"
  to_slave :: "sharding_message set"
  to_tablet :: "(tnode_path \<times> query_id) set"

definition sends :: "snap_effect list \<Rightarrow> sharding_message set" where
  "sends effs = {m. \<exists>sid lid. Send_Snapshot sid lid m \<in> set effs}"

definition confirmed :: "snap_effect list \<Rightarrow> query_id list" where
  "confirmed effs = concat (map (\<lambda>eff. case eff of Push_Confirmed qid \<Rightarrow> [qid] | _ \<Rightarrow> []) effs)"

definition tablet_did :: "snap_effect list \<Rightarrow> sharding_snapshot_es \<Rightarrow> 'm handover \<Rightarrow> 'm handover" where
  "tablet_did effs es s = s\<lparr>ho_es := Some es, ho_flying := ho_flying s @ confirmed effs, to_slave := to_slave s \<union> sends effs\<rparr>"

definition slave_did :: "'m shard_effect list \<Rightarrow> slave_ctx \<Rightarrow> 'm shard_split_ess \<Rightarrow> 'm handover \<Rightarrow> 'm handover" where
  "slave_did effs c ess s =
     s\<lparr>ho_slave := c, ho_ess := ess, ho_sflying := ho_sflying s @ concat (map pushes effs), ho_created := ho_created s \<union> creates effs,
       to_tablet := to_tablet s \<union> confirms effs\<rparr>"

definition old_writes :: "ddl_tablet \<Rightarrow> (query_id, fq_outer) btree \<Rightarrow> bool" where
  "old_writes c fq_ess \<longleftrightarrow> list_ex (\<lambda>(_, es). is_old_generation c es) fq_ess"

text \<open>
  What the rest of the old tablet may do: once no write of an older generation is undecided none comes back, since
  queries of such a generation are refused, and no row outside of the tablet's new range is written.
\<close>

definition tablet_works :: "st_range \<Rightarrow> ddl_tablet \<Rightarrow> (query_id, fq_outer) btree \<Rightarrow> ddl_tablet \<Rightarrow> (query_id, fq_outer) btree \<Rightarrow> bool" where
  "tablet_works target c fq c' fq' \<longleftrightarrow>
     td_node_path c' = td_node_path c \<and>
     (\<not> old_writes c fq \<longrightarrow> \<not> old_writes c' fq' \<and>
        compute_range_storage (t_storage (td_tablet c')) (st_key_range target) = compute_range_storage (t_storage (td_tablet c)) (st_key_range target))"

inductive ho_step :: "query_id \<Rightarrow> st_range \<Rightarrow> 'm handover \<Rightarrow> 'm handover \<Rightarrow> bool" for q target where
  works: "tablet_works target (ho_tablet s) (ho_fq s) c fq \<Longrightarrow> ho_step q target s (s\<lparr>ho_tablet := c, ho_fq := fq\<rparr>)"
| tablet_bundle: "ho_es s = Some es \<Longrightarrow> snap_handle_bundle_processed (ho_tablet s) (ho_fq s) es = Some (effs, es') \<Longrightarrow>
    ho_step q target s (tablet_did effs es' s)"
| tablet_confirmed: "ho_es s = Some es \<Longrightarrow> (td_node_path (ho_tablet s), qid) \<in> to_tablet s \<Longrightarrow> snap_handle_msg qid es = (effs, es') \<Longrightarrow>
    ho_step q target s (tablet_did effs es' s)"
| tablet_remote_leader: "ho_es s = Some es \<Longrightarrow> snap_handle_rlc gid (ho_tablet s) es = Some (effs, es') \<Longrightarrow> ho_step q target s (tablet_did effs es' s)"
| tablet_learn: "ho_flying s = qid # qids \<Longrightarrow> ho_es s = Some es \<Longrightarrow> snap_handle_plm qid (ho_tablet s) es = Some (act, c) \<Longrightarrow>
    handle_shard_send_es_action act c (Some es) = (c', es') \<Longrightarrow>
    ho_step q target s (s\<lparr>ho_tablet := c', ho_es := es', ho_flying := qids,
      ho_moved := Some (t_storage (td_tablet (ho_tablet s)), t_storage (td_tablet c'))\<rparr>)"
| tablet_learn_late: "ho_flying s = qid # qids \<Longrightarrow> ho_es s = None \<Longrightarrow> ho_step q target s (s\<lparr>ho_flying := qids\<rparr>)"
| tablet_takeover: "ho_es s = Some es \<Longrightarrow> tablet_works target (ho_tablet s) (ho_fq s) c fq \<Longrightarrow>
    snap_handle_lc c fq (snap_reconfig_snapshot es) = Some (effs, es') \<Longrightarrow>
    ho_step q target s (tablet_did effs es' (s\<lparr>ho_tablet := c, ho_fq := fq, ho_flying := []\<rparr>))"
| slave_context: "ho_step q target s (s\<lparr>ho_slave := c2\<rparr>)"
| slave_rm_message: "shard_handle_rm_msg msg (ho_slave s) (ho_ess s) = Some (seffs, c2, ess) \<Longrightarrow>
    \<forall>tm pl. msg = STM_Prepare q tm pl \<longrightarrow> bm_get (shard_split_rm_ess (ho_ess s)) q \<noteq> None \<Longrightarrow>
    ho_step q target s (slave_did seffs c2 ess s)"
| slave_snapshot: "m \<in> to_slave s \<Longrightarrow> shard_handle_sharding_msg m (ho_slave s) (ho_ess s) = Some (seffs, ess) \<Longrightarrow>
    ho_step q target s (slave_did seffs (ho_slave s) ess s)"
| slave_tablet_message: "shard_handle_tablet_msg tablets tid tmsg (ho_ess s) = Some (seffs, ess) \<Longrightarrow> ho_step q target s (slave_did seffs (ho_slave s) ess s)"
| slave_bundle: "shard_handle_bundle_processed (ho_slave s) (ho_ess s) = Some (seffs, c2, ess) \<Longrightarrow> ho_step q target s (slave_did seffs c2 ess s)"
| slave_learn: "ho_sflying s = plm # plms \<Longrightarrow> plm \<noteq> SSP_Split (SRM_AbortedPLm q) \<Longrightarrow>
    shard_handle_plm plm (ho_slave s) (ho_ess s) = Some (seffs, c2, ess) \<Longrightarrow>
    ho_step q target s (slave_did seffs c2 ess (s\<lparr>ho_sflying := plms, ho_slog := ho_slog s @ [plm]\<rparr>))"
| slave_takeover: "shard_handle_leader_changed c1 (shard_reconfig_snapshot (ho_ess s)) = Some (seffs, c2, ess) \<Longrightarrow>
    ho_step q target s (slave_did seffs c2 ess (s\<lparr>ho_sflying := []\<rparr>))"
| other_split: "sm_query_id m \<noteq> q \<Longrightarrow> sm_node_path m \<noteq> td_node_path (ho_tablet s) \<Longrightarrow> ho_step q target s (s\<lparr>to_slave := insert m (to_slave s)\<rparr>)"

text \<open>The start: the old tablet has learned the commit; the slave, which has logged that it is prepared, holds the split and no message yet.\<close>

definition ho_init :: "query_id \<Rightarrow> st_range \<Rightarrow> 'm handover \<Rightarrow> bool" where
  "ho_init q target s \<longleftrightarrow>
     (\<exists>effs es s0. s = tablet_did effs es s0 \<and> create_split (ho_tablet s0) (ho_fq s0) q target = Some (effs, es) \<and>
        ho_flying s0 = [] \<and> ho_moved s0 = None \<and> ho_sflying s0 = [] \<and> ho_slog s0 = [] \<and> ho_created s0 = {} \<and> to_slave s0 = {} \<and> to_tablet s0 = {}) \<and>
     bm_wf (shard_split_rm_ess (ho_ess s)) \<and> proper q (ho_ess s) \<and> bm_get (shard_split_rm_ess (ho_ess s)) q \<noteq> None \<and> ess_msgs (ho_ess s) = {}"

definition ho_reachable :: "query_id \<Rightarrow> st_range \<Rightarrow> 'm handover \<Rightarrow> bool" where
  "ho_reachable q target s \<longleftrightarrow> (\<exists>s0. ho_init q target s0 \<and> (ho_step q target)\<^sup>*\<^sup>* s0 s)"

section \<open>The invariant\<close>

definition all_msgs :: "'m handover \<Rightarrow> sharding_message set" where
  "all_msgs s = to_slave s \<union> ess_msgs (ho_ess s) \<union> {m. SSP_Snapshot m \<in> set (ho_sflying s) \<union> set (ho_slog s)}"

definition logged :: "query_id \<Rightarrow> 'm handover \<Rightarrow> bool" where
  "logged q s \<longleftrightarrow> (\<exists>m. SSP_Snapshot m \<in> set (ho_slog s) \<and> sm_query_id m = q)"

text \<open>Every snapshot of \<open>q\<close> holds the rows that the old tablet has, or had before it deleted them.\<close>

definition rows_ok :: "query_id \<Rightarrow> st_range \<Rightarrow> 'm handover \<Rightarrow> bool" where
  "rows_ok q target s \<longleftrightarrow>
     (case ho_es s of
        Some es \<Rightarrow> sn_query_id es = q \<and> sn_target es = target \<and> ho_moved s = None \<and>
          (sn_state es = SS_ShardingSnapshotSent \<longrightarrow> \<not> old_writes (ho_tablet s) (ho_fq s)) \<and>
          (\<forall>m \<in> all_msgs s. sm_query_id m = q \<longrightarrow> \<not> old_writes (ho_tablet s) (ho_fq s) \<and>
             compute_range_storage (t_storage (td_tablet (ho_tablet s))) (st_key_range target) = Some (sh_storage (sm_snapshot m)))
      | None \<Rightarrow> logged q s \<and> (\<exists>before after. ho_moved s = Some (before, after) \<and> remove_range before (st_key_range target) = (after, []) \<and>
          (\<forall>m \<in> all_msgs s. sm_query_id m = q \<longrightarrow> compute_range_storage before (st_key_range target) = Some (sh_storage (sm_snapshot m)))))"

definition confirmed_ok :: "query_id \<Rightarrow> st_range \<Rightarrow> 'm handover \<Rightarrow> bool" where
  "confirmed_ok q target s \<longleftrightarrow>
     (\<forall>(path, qid) \<in> to_tablet s. path = td_node_path (ho_tablet s) \<longrightarrow> logged q s) \<and> (ho_flying s \<noteq> [] \<longrightarrow> logged q s) \<and>
     (\<forall>m \<in> all_msgs s. (sm_node_path m = td_node_path (ho_tablet s) \<longrightarrow> sm_query_id m = q) \<and>
        (sm_query_id m = q \<longrightarrow> sh_tid (sm_snapshot m) = st_tid target \<and> sh_key_range (sm_snapshot m) = st_key_range target))"

definition slave_ok :: "query_id \<Rightarrow> 'm handover \<Rightarrow> bool" where
  "slave_ok q s \<longleftrightarrow>
     bm_wf (shard_split_rm_ess (ho_ess s)) \<and> proper q (ho_ess s) \<and> (logged q s \<or> expects q (ho_ess s)) \<and>
     (logged q s \<longrightarrow> bm_get (shard_split_rm_ess (ho_ess s)) q = None \<and> q \<in> fst ` ho_created s) \<and>
     (\<forall>tm pl. SSP_Split (SRM_PreparedPLm q tm pl) \<notin> set (ho_sflying s)) \<and>
     (\<forall>m. SSP_Snapshot m \<in> set (ho_sflying s) \<longrightarrow> sm_query_id m = q \<longrightarrow> inserting q (ho_ess s) \<or> logged q s) \<and>
     (\<forall>td. (q, td) \<in> ho_created s \<longrightarrow> (\<exists>m. SSP_Snapshot m \<in> set (ho_slog s) \<and> sm_query_id m = q \<and>
        t_this_tid (td_tablet td) = sh_tid (sm_snapshot m) \<and> t_storage (td_tablet td) = sh_storage (sm_snapshot m) \<and>
        this_tablet_key_range td = sh_key_range (sm_snapshot m)))"

lemma pushes_iff:
  "SSP_Snapshot m \<in> set (pushes eff) \<longleftrightarrow> eff = SE_Push_Snapshot m" "SSP_Split plm \<in> set (pushes eff) \<longleftrightarrow> eff = SE_RM (RM_Push plm)"
proof -
  have "(SSP_Snapshot m \<in> set (pushes eff) \<longleftrightarrow> eff = SE_Push_Snapshot m) \<and> (SSP_Split plm \<in> set (pushes eff) \<longleftrightarrow> eff = SE_RM (RM_Push plm))"
  proof (cases eff)
    case (SE_RM x)
    then show ?thesis by (cases x) auto
  qed auto
  then show "SSP_Snapshot m \<in> set (pushes eff) \<longleftrightarrow> eff = SE_Push_Snapshot m" "SSP_Split plm \<in> set (pushes eff) \<longleftrightarrow> eff = SE_RM (RM_Push plm)"
    by simp_all
qed

lemma snapshot_pushes: "SSP_Snapshot m \<in> set (concat (map pushes effs)) \<longleftrightarrow> m \<in> pushed_snapshots effs"
  by (simp add: pushes_iff pushed_snapshots_def)

lemma split_pushes: "SSP_Split plm \<in> set (concat (map pushes effs)) \<longleftrightarrow> SE_RM (RM_Push plm) \<in> set effs"
  by (simp add: pushes_iff)

text \<open>A step of the slave, seen from the old tablet.\<close>

lemma slave_step_rows:
  assumes "rows_ok q target s" and "confirmed_ok q target s" and "all_msgs s' \<subseteq> all_msgs s" and "logged q s \<longrightarrow> logged q s'"
    and "ho_tablet s' = ho_tablet s" "ho_fq s' = ho_fq s" "ho_es s' = ho_es s" "ho_flying s' = ho_flying s" "ho_moved s' = ho_moved s"
    and "\<And>path qid. (path, qid) \<in> to_tablet s' \<Longrightarrow> (path, qid) \<notin> to_tablet s \<Longrightarrow> path = td_node_path (ho_tablet s) \<Longrightarrow> logged q s'"
  shows "rows_ok q target s' \<and> confirmed_ok q target s'"
proof
  show "rows_ok q target s'" using assms(1,3,4) unfolding rows_ok_def assms(5-9) by (cases "ho_es s"; simp) blast+
  show "confirmed_ok q target s'" using assms(2,3,4,10) unfolding confirmed_ok_def assms(5-9) by fast
qed

lemma slave_did_simps [simp]:
  "ho_tablet (slave_did effs c ess s) = ho_tablet s" "ho_fq (slave_did effs c ess s) = ho_fq s" "ho_es (slave_did effs c ess s) = ho_es s"
  "ho_flying (slave_did effs c ess s) = ho_flying s" "ho_moved (slave_did effs c ess s) = ho_moved s" "ho_slog (slave_did effs c ess s) = ho_slog s"
  "ho_ess (slave_did effs c ess s) = ess" "ho_created (slave_did effs c ess s) = ho_created s \<union> creates effs"
  "to_slave (slave_did effs c ess s) = to_slave s" "to_tablet (slave_did effs c ess s) = to_tablet s \<union> confirms effs"
  "logged q (slave_did effs c ess s) = logged q s"
  by (simp_all add: slave_did_def logged_def)

lemma slave_did_flying:
  "SSP_Snapshot m \<in> set (ho_sflying (slave_did effs c ess s)) \<longleftrightarrow> SSP_Snapshot m \<in> set (ho_sflying s) \<or> m \<in> pushed_snapshots effs"
  "SSP_Split plm \<in> set (ho_sflying (slave_did effs c ess s)) \<longleftrightarrow> SSP_Split plm \<in> set (ho_sflying s) \<or> SE_RM (RM_Push plm) \<in> set effs"
  by (simp_all add: slave_did_def snapshot_pushes split_pushes del: set_concat)

lemma all_msgs_did: "all_msgs (slave_did effs c ess s) = to_slave s \<union> ess_msgs ess \<union> pushed_snapshots effs \<union> {m. SSP_Snapshot m \<in> set (ho_sflying s) \<union> set (ho_slog s)}"
  by (auto simp: all_msgs_def slave_did_flying)

text \<open>A handler that is quiet and steady keeps everything.\<close>

lemma quiet_step:
  assumes q: "quiet q effs (ho_ess s) ess" and st: "steady q effs (ho_ess s) ess" and inv: "slave_ok q s" "rows_ok q target s" "confirmed_ok q target s"
  shows "slave_ok q (slave_did effs c ess s) \<and> rows_ok q target (slave_did effs c ess s) \<and> confirmed_ok q target (slave_did effs c ess s)"
proof (intro conjI)
  show "slave_ok q (slave_did effs c ess s)"
    using q st inv(1) unfolding slave_ok_def quiet_def steady_def by (auto simp: slave_did_flying)
  have "all_msgs (slave_did effs c ess s) \<subseteq> all_msgs s" unfolding all_msgs_did using q by (auto simp: all_msgs_def quiet_def)
  then have "rows_ok q target (slave_did effs c ess s) \<and> confirmed_ok q target (slave_did effs c ess s)"
    by (rule slave_step_rows [OF inv(2,3)]) (use q in \<open>auto simp: quiet_def\<close>)
  then show "rows_ok q target (slave_did effs c ess s)" "confirmed_ok q target (slave_did effs c ess s)" by simp_all
qed

lemma snapshot_msg_step:
  assumes m: "m \<in> to_slave s" and h: "shard_handle_sharding_msg m (ho_slave s) (ho_ess s) = Some (effs, ess)"
    and inv: "slave_ok q s" "rows_ok q target s" "confirmed_ok q target s"
  shows "slave_ok q (slave_did effs c ess s) \<and> rows_ok q target (slave_did effs c ess s) \<and> confirmed_ok q target (slave_did effs c ess s)"
proof (intro conjI)
  note e = sharding_msg_effects [OF h]
  note st = sharding_msg_steady [OF h, of q]
  show "slave_ok q (slave_did effs c ess s)"
    using e(1) e(5) [of q] e(6) st inv(1) unfolding slave_ok_def steady_def by (auto simp: slave_did_flying)
  have "all_msgs (slave_did effs c ess s) \<subseteq> all_msgs s" unfolding all_msgs_did using e(2) m by (auto simp: all_msgs_def)
  moreover have "logged q s" if "confirms effs \<noteq> {}" "sm_query_id m = q" using e(4) that inv(1) by (auto simp: slave_ok_def)
  moreover have "sm_node_path m = td_node_path (ho_tablet s) \<longrightarrow> sm_query_id m = q" using inv(3) m unfolding confirmed_ok_def all_msgs_def by blast
  ultimately have "rows_ok q target (slave_did effs c ess s) \<and> confirmed_ok q target (slave_did effs c ess s)"
    by (intro slave_step_rows [OF inv(2,3)]) (use e(3) in auto)
  then show "rows_ok q target (slave_did effs c ess s)" "confirmed_ok q target (slave_did effs c ess s)" by simp_all
qed

lemma takeover_step:
  assumes h: "shard_handle_leader_changed c1 (shard_reconfig_snapshot (ho_ess s)) = Some (effs, c, ess)"
    and inv: "slave_ok q s" "rows_ok q target s" "confirmed_ok q target s"
  shows "slave_ok q (slave_did effs c ess (s\<lparr>ho_sflying := []\<rparr>)) \<and> rows_ok q target (slave_did effs c ess (s\<lparr>ho_sflying := []\<rparr>)) \<and>
    confirmed_ok q target (slave_did effs c ess (s\<lparr>ho_sflying := []\<rparr>))"
proof (intro conjI)
  let ?s = "slave_did effs c ess (s\<lparr>ho_sflying := []\<rparr>)"
  from inv(1) have wf: "bm_wf (shard_split_rm_ess (ho_ess s))" by (simp add: slave_ok_def)
  note e = takeover_pushes_nothing [OF h wf] takeover_quiet [OF h wf, of q] takeover_calm [OF h wf, of q]
  have l: "logged q (s\<lparr>ho_sflying := []\<rparr>) = logged q s" by (simp add: logged_def)
  show "slave_ok q ?s" using e inv(1) unfolding slave_ok_def quiet_def calm_def by (auto simp: slave_did_flying l)
  have "all_msgs ?s \<subseteq> all_msgs s" unfolding all_msgs_did using e(1,2) by (auto simp: all_msgs_def)
  then have "rows_ok q target ?s \<and> confirmed_ok q target ?s"
    by (rule slave_step_rows [OF inv(2,3)]) (use e(3) in \<open>auto simp: quiet_def l\<close>)
  then show "rows_ok q target ?s" "confirmed_ok q target ?s" by simp_all
qed

text \<open>The slave learns an entry of its log.\<close>

lemma logged_append: "logged q (s\<lparr>ho_sflying := plms, ho_slog := ho_slog s @ [plm]\<rparr>) \<longleftrightarrow> logged q s \<or> (\<exists>m. plm = SSP_Snapshot m \<and> sm_query_id m = q)"
  by (auto simp: logged_def)

lemma split_plm_step:
  assumes fl: "ho_sflying s = SSP_Split plm # plms" and h: "shard_handle_plm (SSP_Split plm) (ho_slave s) (ho_ess s) = Some (effs, c, ess)"
    and na: "plm \<noteq> SRM_AbortedPLm q" and inv: "slave_ok q s" "rows_ok q target s" "confirmed_ok q target s"
  shows "slave_ok q (slave_did effs c ess (s\<lparr>ho_sflying := plms, ho_slog := ho_slog s @ [SSP_Split plm]\<rparr>)) \<and>
    rows_ok q target (slave_did effs c ess (s\<lparr>ho_sflying := plms, ho_slog := ho_slog s @ [SSP_Split plm]\<rparr>)) \<and>
    confirmed_ok q target (slave_did effs c ess (s\<lparr>ho_sflying := plms, ho_slog := ho_slog s @ [SSP_Split plm]\<rparr>))"
proof (rule quiet_step)
  let ?s = "s\<lparr>ho_sflying := plms, ho_slog := ho_slog s @ [SSP_Split plm]\<rparr>"
  from inv(1) fl have np: "\<forall>tm pl. plm \<noteq> SRM_PreparedPLm q tm pl" by (auto simp: slave_ok_def)
  show "quiet q effs (ho_ess ?s) ess" using rm_plm_quiet [OF h na] by simp
  show "steady q effs (ho_ess ?s) ess" using rm_plm_steady [OF h np] by simp
  have l: "logged q ?s = logged q s" by (simp add: logged_append)
  show "slave_ok q ?s" using inv(1) fl unfolding slave_ok_def l by auto
  have "rows_ok q target ?s \<and> confirmed_ok q target ?s"
    by (rule slave_step_rows [OF inv(2,3)]) (use fl in \<open>auto simp: l all_msgs_def\<close>)
  then show "rows_ok q target ?s" "confirmed_ok q target ?s" by simp_all
qed

lemma snapshot_plm_step:
  assumes fl: "ho_sflying s = SSP_Snapshot m # plms" and h: "shard_handle_plm (SSP_Snapshot m) (ho_slave s) (ho_ess s) = Some (effs, c, ess)"
    and inv: "slave_ok q s" "rows_ok q target s" "confirmed_ok q target s"
  shows "slave_ok q (slave_did effs c ess (s\<lparr>ho_sflying := plms, ho_slog := ho_slog s @ [SSP_Snapshot m]\<rparr>)) \<and>
    rows_ok q target (slave_did effs c ess (s\<lparr>ho_sflying := plms, ho_slog := ho_slog s @ [SSP_Snapshot m]\<rparr>)) \<and>
    confirmed_ok q target (slave_did effs c ess (s\<lparr>ho_sflying := plms, ho_slog := ho_slog s @ [SSP_Snapshot m]\<rparr>))"
proof (intro conjI)
  let ?pre = "s\<lparr>ho_sflying := plms, ho_slog := ho_slog s @ [SSP_Snapshot m]\<rparr>"
  let ?s = "slave_did effs c ess ?pre"
  note e = snapshot_plm_effects [OF h] and k = snapshot_plm_calm [OF h, of q]
  have l: "logged q ?pre \<longleftrightarrow> logged q s \<or> sm_query_id m = q" by (auto simp: logged_append)
  have lq: "logged q ?s \<longleftrightarrow> logged q s \<or> sm_query_id m = q" unfolding slave_did_simps l ..
  have ins: "inserting q (ho_ess s) \<or> logged q s" if "sm_query_id m = q" using inv(1) fl that by (auto simp: slave_ok_def)
  have rm: "bm_get (shard_split_rm_ess (ho_ess s)) q = None" if "sm_query_id m = q"
  proof (cases "logged q s")
    case False
    with ins that have "bm_get (shard_pending_ess (ho_ess s)) q \<noteq> None" by (auto simp: inserting_def)
    with inv(1) show ?thesis by (cases "bm_get (shard_split_rm_ess (ho_ess s)) q") (auto simp: slave_ok_def proper_def)
  qed (use inv(1) in \<open>simp add: slave_ok_def\<close>)
  have created: "q \<in> fst ` (ho_created s \<union> creates effs)" if "sm_query_id m = q"
    using ins [OF that] k(3) [OF that] inv(1) by (force simp: slave_ok_def)
  have new: "\<exists>m'. SSP_Snapshot m' \<in> set (ho_slog s @ [SSP_Snapshot m]) \<and> sm_query_id m' = q \<and> t_this_tid (td_tablet td) = sh_tid (sm_snapshot m') \<and>
      t_storage (td_tablet td) = sh_storage (sm_snapshot m') \<and> this_tablet_key_range td = sh_key_range (sm_snapshot m')"
    if "(q, td) \<in> ho_created s \<union> creates effs" for td
  proof (cases "(q, td) \<in> ho_created s")
    case True
    with inv(1) show ?thesis by (fastforce simp: slave_ok_def)
  next
    case False
    with that e(1) have "sm_query_id m = q" "td = shard_create_tablet (ho_slave s) (sm_snapshot m)" by auto
    then show ?thesis by (intro exI [of _ m]) (simp add: shard_create_tablet_def)
  qed
  show "slave_ok q ?s" unfolding slave_ok_def
  proof (intro conjI)
    show "bm_wf (shard_split_rm_ess (ho_ess ?s))" "proper q (ho_ess ?s)" using inv(1) e(6) k(1) by (auto simp: slave_ok_def calm_def)
    show "logged q ?s \<or> expects q (ho_ess ?s)" unfolding lq using inv(1) e(5) [of q] by (cases "sm_query_id m = q") (auto simp: slave_ok_def)
    show "logged q ?s \<longrightarrow> bm_get (shard_split_rm_ess (ho_ess ?s)) q = None \<and> q \<in> fst ` ho_created ?s"
      unfolding lq using inv(1) rm created e(6) by (auto simp: slave_ok_def)
    show "\<forall>tm pl. SSP_Split (SRM_PreparedPLm q tm pl) \<notin> set (ho_sflying ?s)"
      using inv(1) fl k(1) by (auto simp: slave_ok_def calm_def slave_did_flying)
    show "\<forall>m. SSP_Snapshot m \<in> set (ho_sflying ?s) \<longrightarrow> sm_query_id m = q \<longrightarrow> inserting q (ho_ess ?s) \<or> logged q ?s"
      unfolding lq using inv(1) fl k(2) e(2) by (auto simp: slave_ok_def slave_did_flying)
    show "\<forall>td. (q, td) \<in> ho_created ?s \<longrightarrow> (\<exists>m. SSP_Snapshot m \<in> set (ho_slog ?s) \<and> sm_query_id m = q \<and>
        t_this_tid (td_tablet td) = sh_tid (sm_snapshot m) \<and> t_storage (td_tablet td) = sh_storage (sm_snapshot m) \<and>
        this_tablet_key_range td = sh_key_range (sm_snapshot m))" using new by auto
  qed
  have msgs: "all_msgs ?s \<subseteq> all_msgs s" unfolding all_msgs_did using e(2,3) fl by (auto simp: all_msgs_def)
  have "m \<in> all_msgs s" using fl by (simp add: all_msgs_def)
  then have "sm_node_path m = td_node_path (ho_tablet s) \<longrightarrow> sm_query_id m = q" using inv(3) unfolding confirmed_ok_def by blast
  with msgs have "rows_ok q target ?s \<and> confirmed_ok q target ?s"
    by (intro slave_step_rows [OF inv(2,3)]) (unfold lq, use e(4) in \<open>auto\<close>)
  then show "rows_ok q target ?s" "confirmed_ok q target ?s" by simp_all
qed

text \<open>The steps of the old tablet.\<close>

lemma snapshot_sent:
  assumes "send_sharding_snapshot c es = Some eff"
  shows "\<exists>storage. compute_range_storage (t_storage (td_tablet c)) (st_key_range (sn_target es)) = Some storage \<and>
    sends [eff] = {mk_sharding_message c es storage} \<and> confirmed [eff] = []"
  using assms by (auto simp: send_sharding_snapshot_def bind_eq_Some_conv sends_def confirmed_def)

lemma advance_sends:
  assumes "snap_advance_prepared c fq es = Some (effs, es')"
  shows "sn_query_id es' = sn_query_id es \<and> sn_target es' = sn_target es \<and> confirmed effs = [] \<and>
    (sn_state es' = SS_ShardingSnapshotSent \<longrightarrow> \<not> old_writes c fq) \<and>
    (\<forall>m \<in> sends effs. \<not> old_writes c fq \<and> (\<exists>storage. compute_range_storage (t_storage (td_tablet c)) (st_key_range (sn_target es)) = Some storage \<and>
       m = mk_sharding_message c es storage))"
proof -
  from assms obtain ready where r: "ready_to_send c fq (st_key_range (sn_target es)) = Some ready" by (auto simp: snap_advance_prepared_def bind_eq_Some_conv)
  show ?thesis
  proof (cases ready)
    case True
    with r have "\<not> old_writes c fq" by (auto simp: ready_to_send_def old_writes_def split: if_splits)
    moreover from True r assms obtain eff where "send_sharding_snapshot c es = Some eff" "effs = [eff]" "es' = es\<lparr>sn_state := SS_ShardingSnapshotSent\<rparr>"
      by (auto simp: snap_advance_prepared_def bind_eq_Some_conv)
    ultimately show ?thesis using snapshot_sent [of c es eff] by auto
  next
    case False
    with r assms show ?thesis by (auto simp: snap_advance_prepared_def sends_def confirmed_def)
  qed
qed

lemma all_msgs_tablet: "all_msgs (tablet_did effs es s) = all_msgs s \<union> sends effs"
  by (auto simp: tablet_did_def all_msgs_def)

lemma slave_ok_tablet: "slave_ok q (tablet_did effs es s) = slave_ok q s" "logged q (tablet_did effs es s) = logged q s"
  by (simp_all add: slave_ok_def logged_def tablet_did_def)

lemma tablet_did_simps [simp]:
  "ho_es (tablet_did effs es s) = Some es" "ho_tablet (tablet_did effs es s) = ho_tablet s" "ho_fq (tablet_did effs es s) = ho_fq s"
  "ho_moved (tablet_did effs es s) = ho_moved s" "to_tablet (tablet_did effs es s) = to_tablet s" "ho_flying (tablet_did effs es s) = ho_flying s @ confirmed effs"
  by (simp_all add: tablet_did_def)

lemma tablet_did_ok:
  assumes inv: "rows_ok q target s" "confirmed_ok q target s" and es: "ho_es s = Some es" "sn_query_id es' = q" "sn_target es' = target"
    and sent: "sn_state es' = SS_ShardingSnapshotSent \<longrightarrow> \<not> old_writes (ho_tablet s) (ho_fq s)"
      "\<forall>m \<in> sends effs. \<not> old_writes (ho_tablet s) (ho_fq s) \<and>
         (\<exists>storage. compute_range_storage (t_storage (td_tablet (ho_tablet s))) (st_key_range target) = Some storage \<and> m = mk_sharding_message (ho_tablet s) es' storage)"
    and conf: "confirmed effs \<noteq> [] \<longrightarrow> logged q s"
  shows "rows_ok q target (tablet_did effs es' s) \<and> confirmed_ok q target (tablet_did effs es' s)"
proof
  show "rows_ok q target (tablet_did effs es' s)"
    using inv(1) es sent unfolding rows_ok_def by (auto simp: all_msgs_tablet mk_sharding_message_def)
  show "confirmed_ok q target (tablet_did effs es' s)"
    using inv(2) es sent(2) conf unfolding confirmed_ok_def by (auto simp: all_msgs_tablet slave_ok_tablet mk_sharding_message_def)
qed

lemma works_ok:
  assumes "tablet_works target (ho_tablet s) (ho_fq s) c fq" and "rows_ok q target s" and "confirmed_ok q target s"
  shows "rows_ok q target (s\<lparr>ho_tablet := c, ho_fq := fq\<rparr>) \<and> confirmed_ok q target (s\<lparr>ho_tablet := c, ho_fq := fq\<rparr>)"
  using assms by (auto simp: tablet_works_def rows_ok_def confirmed_ok_def all_msgs_def logged_def split: option.splits)

lemma snap_follower: "es' = es\<lparr>sn_state := st\<rparr> \<Longrightarrow> mk_sharding_message c es' storage = mk_sharding_message c es storage"
  by (simp add: mk_sharding_message_def)

lemma lc_sends:
  assumes "snap_handle_lc c fq (snap_reconfig_snapshot es) = Some (effs, es')"
  shows "sn_query_id es' = sn_query_id es \<and> sn_target es' = sn_target es \<and> confirmed effs = [] \<and>
    (sn_state es' = SS_ShardingSnapshotSent \<longrightarrow> \<not> old_writes c fq) \<and>
    (\<forall>m \<in> sends effs. \<not> old_writes c fq \<and> (\<exists>storage. compute_range_storage (t_storage (td_tablet c)) (st_key_range (sn_target es)) = Some storage \<and>
       m = mk_sharding_message c es' storage))"
proof -
  from assms consider "effs = []" "es' = snap_reconfig_snapshot es" | "snap_advance_prepared c fq (snap_reconfig_snapshot es) = Some (effs, es')"
    by (auto simp: snap_handle_lc_def snap_reconfig_snapshot_def bind_eq_Some_conv split: if_splits)
  then show ?thesis
  proof cases
    case 2
    from advance_sends [OF this] show ?thesis by (auto simp: snap_reconfig_snapshot_def mk_sharding_message_def)
  qed (auto simp: snap_reconfig_snapshot_def sends_def confirmed_def)
qed

section \<open>Every step keeps it\<close>

definition ho_ok :: "query_id \<Rightarrow> st_range \<Rightarrow> 'm handover \<Rightarrow> bool" where
  "ho_ok q target s \<longleftrightarrow> slave_ok q s \<and> rows_ok q target s \<and> confirmed_ok q target s"

lemma learn_ok:
  assumes fl: "ho_flying s = qid # qids" and es: "ho_es s = Some es" and plm: "snap_handle_plm qid (ho_tablet s) es = Some (act, c)"
    and act: "handle_shard_send_es_action act c (Some es) = (c', es')" and ok: "ho_ok q target s"
  shows "ho_ok q target (s\<lparr>ho_tablet := c', ho_es := es', ho_flying := qids,
    ho_moved := Some (t_storage (td_tablet (ho_tablet s)), t_storage (td_tablet c'))\<rparr>)"
proof -
  let ?t = "s\<lparr>ho_tablet := c', ho_es := es', ho_flying := qids, ho_moved := Some (t_storage (td_tablet (ho_tablet s)), t_storage (td_tablet c'))\<rparr>"
  from ok have log: "logged q s" using fl by (simp add: ho_ok_def confirmed_ok_def)
  from ok es have tgt: "sn_target es = target" by (simp add: ho_ok_def rows_ok_def)
  from plm obtain kept where rr: "remove_range (t_storage (td_tablet (ho_tablet s))) (st_key_range target) = (kept, [])" and "act = Snap_Exit"
    and "c = (ho_tablet s)\<lparr>td_tablet := (td_tablet (ho_tablet s))\<lparr>t_storage := kept\<rparr>\<rparr>"
    by (auto simp: snap_handle_plm_def tgt split: if_splits prod.splits)
  with act have c': "es' = None" "t_storage (td_tablet c') = kept" "td_node_path c' = td_node_path (ho_tablet s)"
    by (auto simp: handle_shard_send_es_action_def td_node_path_def)
  have msgs: "all_msgs ?t = all_msgs s" "logged q ?t = logged q s" by (simp_all add: all_msgs_def logged_def)
  have "rows_ok q target ?t" using ok es log rr c' unfolding ho_ok_def rows_ok_def msgs by auto
  moreover have "confirmed_ok q target ?t" using ok log c' unfolding ho_ok_def confirmed_ok_def msgs by simp
  moreover have "slave_ok q ?t" using ok unfolding ho_ok_def slave_ok_def msgs by simp
  ultimately show ?thesis by (simp add: ho_ok_def)
qed

lemma ho_step_ok:
  assumes "ho_step q target s s'" and "ho_ok q target s"
  shows "ho_ok q target s'"
  using assms
proof (induction rule: ho_step.induct)
  case (works s c fq)
  then show ?case using works_ok [of target s c fq q] by (simp add: ho_ok_def slave_ok_def logged_def)
next
  case (tablet_bundle s es effs es')
  have inv: "rows_ok q target s" "confirmed_ok q target s" using tablet_bundle.prems by (simp_all add: ho_ok_def)
  have es: "sn_query_id es = q" "sn_target es = target" "sn_state es = SS_ShardingSnapshotSent \<longrightarrow> \<not> old_writes (ho_tablet s) (ho_fq s)"
    using inv(1) tablet_bundle.hyps(1) by (simp_all add: rows_ok_def)
  from tablet_bundle.hyps(2) consider "effs = []" "es' = es" | "snap_advance_prepared (ho_tablet s) (ho_fq s) es = Some (effs, es')"
    by (cases "sn_state es") (auto simp: snap_handle_bundle_processed_def)
  then have "rows_ok q target (tablet_did effs es' s) \<and> confirmed_ok q target (tablet_did effs es' s)"
  proof cases
    case 1
    with tablet_bundle.hyps(1) es show ?thesis by (intro tablet_did_ok [OF inv]) (simp_all add: sends_def confirmed_def)
  next
    case 2
    note a = advance_sends [OF 2]
    from a es have "\<forall>storage. mk_sharding_message (ho_tablet s) es' storage = mk_sharding_message (ho_tablet s) es storage" by (simp add: mk_sharding_message_def)
    with a tablet_bundle.hyps(1) es show ?thesis by (intro tablet_did_ok [OF inv]) simp_all
  qed
  with tablet_bundle.prems show ?case by (simp add: ho_ok_def slave_ok_tablet)
next
  case (tablet_confirmed s es qid effs es')
  have inv: "rows_ok q target s" "confirmed_ok q target s" using tablet_confirmed.prems by (simp_all add: ho_ok_def)
  have log: "logged q s" using inv(2) tablet_confirmed.hyps(2) unfolding confirmed_ok_def by blast
  have "sn_query_id es' = q" "sn_target es' = target" "sn_state es' = SS_ShardingSnapshotSent \<longrightarrow> es' = es" "sends effs = {}"
    using tablet_confirmed.hyps(1,3) inv(1) by (auto simp: snap_handle_msg_def rows_ok_def sends_def split: snap_state.splits)
  moreover have "sn_state es = SS_ShardingSnapshotSent \<longrightarrow> \<not> old_writes (ho_tablet s) (ho_fq s)" using inv(1) tablet_confirmed.hyps(1) by (simp add: rows_ok_def)
  ultimately have "rows_ok q target (tablet_did effs es' s) \<and> confirmed_ok q target (tablet_did effs es' s)"
    using tablet_confirmed.hyps(1) log by (intro tablet_did_ok [OF inv]) auto
  with tablet_confirmed.prems show ?case by (simp add: ho_ok_def slave_ok_tablet)
next
  case (tablet_remote_leader s es gid effs es')
  have inv: "rows_ok q target s" "confirmed_ok q target s" using tablet_remote_leader.prems by (simp_all add: ho_ok_def)
  have es: "sn_query_id es = q" "sn_target es = target" "sn_state es = SS_ShardingSnapshotSent \<longrightarrow> \<not> old_writes (ho_tablet s) (ho_fq s)"
    using inv(1) tablet_remote_leader.hyps(1) by (simp_all add: rows_ok_def)
  have "es' = es \<and> (effs = [] \<or> (\<exists>eff. send_sharding_snapshot (ho_tablet s) es = Some eff \<and> effs = [eff] \<and> sn_state es = SS_ShardingSnapshotSent))"
    using tablet_remote_leader.hyps(2) by (auto simp: snap_handle_rlc_def bind_eq_Some_conv split: snap_state.splits if_splits)
  then have "rows_ok q target (tablet_did effs es' s) \<and> confirmed_ok q target (tablet_did effs es' s)"
    using tablet_remote_leader.hyps(1) es by (intro tablet_did_ok [OF inv]) (auto simp: sends_def [of "[]"] confirmed_def [of "[]"] dest!: snapshot_sent)
  with tablet_remote_leader.prems show ?case by (simp add: ho_ok_def slave_ok_tablet)
next
  case (tablet_learn s qid qids es act c c' es')
  then show ?case by (intro learn_ok)
next
  case (tablet_learn_late s qid qids)
  then show ?case by (simp add: ho_ok_def rows_ok_def confirmed_ok_def slave_ok_def all_msgs_def logged_def)
next
  case (tablet_takeover s es c fq effs es')
  let ?s1 = "s\<lparr>ho_tablet := c, ho_fq := fq\<rparr>" and ?t = "s\<lparr>ho_tablet := c, ho_fq := fq, ho_flying := []\<rparr>"
  have "rows_ok q target ?s1 \<and> confirmed_ok q target ?s1" using tablet_takeover by (intro works_ok) (simp_all add: ho_ok_def)
  then have inv: "rows_ok q target ?t" "confirmed_ok q target ?t" 
    using tablet_takeover.hyps(1) by (simp_all add: rows_ok_def confirmed_ok_def all_msgs_def logged_def)
  have "sn_query_id es = q" "sn_target es = target" using tablet_takeover by (simp_all add: ho_ok_def rows_ok_def)
  with lc_sends [OF tablet_takeover.hyps(3)] tablet_takeover.hyps(1)
  have "rows_ok q target (tablet_did effs es' ?t) \<and> confirmed_ok q target (tablet_did effs es' ?t)" by (intro tablet_did_ok [OF inv]) auto
  with tablet_takeover.prems show ?case by (simp add: ho_ok_def slave_ok_tablet) (simp add: slave_ok_def logged_def)
next
  case (slave_context s c2)
  have "all_msgs (s\<lparr>ho_slave := c2\<rparr>) = all_msgs s" "logged q (s\<lparr>ho_slave := c2\<rparr>) = logged q s" by (simp_all add: all_msgs_def logged_def)
  with slave_context show ?case by (simp add: ho_ok_def rows_ok_def confirmed_ok_def slave_ok_def split: option.splits)
next
  case (slave_rm_message msg s seffs c2 ess)
  then show ?case using quiet_step [OF rm_msg_quiet rm_msg_steady] unfolding ho_ok_def by blast
next
  case (slave_snapshot m s seffs ess)
  then show ?case using snapshot_msg_step unfolding ho_ok_def by blast
next
  case (slave_tablet_message tablets tid tmsg s seffs ess)
  then show ?case using quiet_step [OF tablet_msg_quiet [OF slave_tablet_message.hyps] tablet_msg_steady [OF slave_tablet_message.hyps]]
    unfolding ho_ok_def by blast
next
  case (slave_bundle s seffs c2 ess)
  have wf: "bm_wf (shard_split_rm_ess (ho_ess s))" using slave_bundle.prems by (simp add: ho_ok_def slave_ok_def)
  from slave_bundle.prems quiet_step [OF bundle_quiet [OF slave_bundle.hyps] bundle_steady [OF slave_bundle.hyps wf]]
  show ?case unfolding ho_ok_def by blast
next
  case (slave_learn s plm plms seffs c2 ess)
  then show ?case using split_plm_step [of s _ plms seffs c2 ess q target] snapshot_plm_step [of s _ plms seffs c2 ess q target]
    unfolding ho_ok_def by (cases plm) blast+
next
  case (slave_takeover c1 s seffs c2 ess)
  then show ?case using takeover_step unfolding ho_ok_def by blast
next
  case (other_split m s)
  have "all_msgs (s\<lparr>to_slave := insert m (to_slave s)\<rparr>) = insert m (all_msgs s)" "logged q (s\<lparr>to_slave := insert m (to_slave s)\<rparr>) = logged q s"
    by (auto simp: all_msgs_def logged_def)
  with other_split show ?case by (auto simp: ho_ok_def rows_ok_def confirmed_ok_def slave_ok_def split: option.splits)
qed

lemma ho_init_ok: "ho_init q target s \<Longrightarrow> ho_ok q target s"
proof -
  assume "ho_init q target s"
  then obtain effs es pre where s: "s = tablet_did effs es pre" and cs: "create_split (ho_tablet pre) (ho_fq pre) q target = Some (effs, es)"
    and fresh: "ho_flying pre = []" "ho_moved pre = None" "ho_sflying pre = []" "ho_slog pre = []" "ho_created pre = {}" "to_slave pre = {}" "to_tablet pre = {}"
    and ess: "bm_wf (shard_split_rm_ess (ho_ess s))" "proper q (ho_ess s)" "bm_get (shard_split_rm_ess (ho_ess s)) q \<noteq> None" "ess_msgs (ho_ess s) = {}"
    unfolding ho_init_def by blast
  let ?es = "\<lparr>sn_query_id = q, sn_target = target, sn_is_new = False, sn_state = SS_Follower\<rparr>" and ?pre = "pre\<lparr>ho_es := Some es\<rparr>"
  from cs consider "snap_advance_prepared (ho_tablet pre) (ho_fq pre) ?es = Some (effs, es)" | "effs = []" "es = ?es"
    by (auto simp: create_split_def snap_start_def bind_eq_Some_conv split: if_splits)
  then have es: "sn_query_id es = q" "sn_target es = target" "confirmed effs = []" "sn_state es = SS_ShardingSnapshotSent \<longrightarrow> \<not> old_writes (ho_tablet pre) (ho_fq pre)"
    "\<forall>m \<in> sends effs. \<not> old_writes (ho_tablet pre) (ho_fq pre) \<and>
       (\<exists>storage. compute_range_storage (t_storage (td_tablet (ho_tablet pre))) (st_key_range target) = Some storage \<and> m = mk_sharding_message (ho_tablet pre) es storage)"
    by (cases; force simp: sends_def [of "[]"] confirmed_def [of "[]"] mk_sharding_message_def dest: advance_sends)+
  have ess_pre: "ho_ess s = ho_ess pre" by (simp add: s tablet_did_def)
  have "all_msgs ?pre = {}" using fresh ess(4) by (simp add: all_msgs_def ess_pre)
  then have "rows_ok q target ?pre" "confirmed_ok q target ?pre" using es fresh by (simp_all add: rows_ok_def confirmed_ok_def)
  from tablet_did_ok [OF this, of es es effs] es have "rows_ok q target (tablet_did effs es ?pre) \<and> confirmed_ok q target (tablet_did effs es ?pre)" by simp
  moreover have "tablet_did effs es ?pre = s" by (simp add: s tablet_did_def)
  moreover have "slave_ok q s" using fresh ess by (auto simp: s slave_ok_def logged_def tablet_did_def expects_def proper_def)
  ultimately show ?thesis by (simp add: ho_ok_def)
qed

lemma ho_reachable_ok: "ho_reachable q target s \<Longrightarrow> ho_ok q target s"
  unfolding ho_reachable_def
proof (elim exE conjE)
  fix pre
  assume "ho_init q target pre" and "(ho_step q target)\<^sup>*\<^sup>* pre s"
  from this(2) ho_init_ok [OF this(1)] show "ho_ok q target s" by (induction rule: rtranclp_induct) (auto intro: ho_step_ok)
qed

lemma moved_rows:
  assumes ok: "ho_ok q target s" and moved: "ho_moved s = Some (before, after)"
  shows "logged q s \<and> q \<in> fst ` ho_created s \<and> remove_range before (st_key_range target) = (after, []) \<and>
    (\<forall>m. SSP_Snapshot m \<in> set (ho_slog s) \<longrightarrow> sm_query_id m = q \<longrightarrow> compute_range_storage before (st_key_range target) = Some (sh_storage (sm_snapshot m))) \<and>
    (\<forall>td. (q, td) \<in> ho_created s \<longrightarrow> compute_range_storage before (st_key_range target) = Some (t_storage (td_tablet td)) \<and>
       t_this_tid (td_tablet td) = st_tid target \<and> this_tablet_key_range td = st_key_range target)"
proof -
  from ok moved have es: "ho_es s = None" by (cases "ho_es s") (auto simp: ho_ok_def rows_ok_def)
  with ok moved have log: "logged q s" and rr: "remove_range before (st_key_range target) = (after, [])"
    and rows: "\<forall>m \<in> all_msgs s. sm_query_id m = q \<longrightarrow> compute_range_storage before (st_key_range target) = Some (sh_storage (sm_snapshot m))"
    by (auto simp: ho_ok_def rows_ok_def)
  from ok have conf: "\<forall>m \<in> all_msgs s. sm_query_id m = q \<longrightarrow> sh_tid (sm_snapshot m) = st_tid target \<and> sh_key_range (sm_snapshot m) = st_key_range target"
    by (simp add: ho_ok_def confirmed_ok_def)
  have sub: "m \<in> all_msgs s" if "SSP_Snapshot m \<in> set (ho_slog s)" for m using that by (simp add: all_msgs_def)
  from ok have slave: "slave_ok q s" by (simp add: ho_ok_def)
  have "compute_range_storage before (st_key_range target) = Some (t_storage (td_tablet td)) \<and> t_this_tid (td_tablet td) = st_tid target \<and>
      this_tablet_key_range td = st_key_range target" if "(q, td) \<in> ho_created s" for td
  proof -
    from slave that obtain m where "SSP_Snapshot m \<in> set (ho_slog s)" "sm_query_id m = q" "t_this_tid (td_tablet td) = sh_tid (sm_snapshot m)"
      "t_storage (td_tablet td) = sh_storage (sm_snapshot m)" "this_tablet_key_range td = sh_key_range (sm_snapshot m)" unfolding slave_ok_def by blast
    with rows conf sub [of m] show ?thesis by simp
  qed
  with log rr rows sub slave show ?thesis by (auto simp: slave_ok_def)
qed

end
