(* ===== verification/Split_Theorems.thy ===== *)
theory Split_Theorems
  imports Ddl_Theorems Handover_Safety
begin

text \<open>
  The rows of a split shard: a theorem that none is lost, with a run of a split, and a theorem that after a split of a tablet
  the next one may delete rows that the new group does not have yet, because of a confirmation of the first one.
\<close>

section \<open>Executable steps\<close>

datatype 'm ho_event =
    HE_Confirmed query_id
  | HE_Tablet_Learn
  | HE_RM_Message split_rm_message
  | HE_Snapshot sharding_message
  | HE_Slave_Learn

fun ho_exec :: "query_id \<Rightarrow> 'm ho_event \<Rightarrow> 'm handover \<Rightarrow> 'm handover option" where
  "ho_exec q (HE_Confirmed qid) s =
     (case ho_es s of
        Some es \<Rightarrow> if (td_node_path (ho_tablet s), qid) \<in> to_tablet s then let (effs, es') = snap_handle_msg qid es in Some (tablet_did effs es' s) else None
      | None \<Rightarrow> None)"
| "ho_exec q HE_Tablet_Learn s =
     (case (ho_flying s, ho_es s) of
        (qid # qids, Some es) \<Rightarrow>
          (case snap_handle_plm qid (ho_tablet s) es of
             Some (act, c) \<Rightarrow>
               let (c', es') = handle_shard_send_es_action act c (Some es)
               in Some (s\<lparr>ho_tablet := c', ho_es := es', ho_flying := qids,
                    ho_moved := Some (t_storage (td_tablet (ho_tablet s)), t_storage (td_tablet c'))\<rparr>)
           | None \<Rightarrow> None)
      | _ \<Rightarrow> None)"
| "ho_exec q (HE_RM_Message msg) s =
     (if rm_msg_qid msg = q \<and> bm_get (shard_split_rm_ess (ho_ess s)) q = None then None
      else case shard_handle_rm_msg msg (ho_slave s) (ho_ess s) of Some (effs, c, ess) \<Rightarrow> Some (slave_did effs c ess s) | None \<Rightarrow> None)"
| "ho_exec q (HE_Snapshot m) s =
     (if m \<in> to_slave s
      then case shard_handle_sharding_msg m (ho_slave s) (ho_ess s) of Some (effs, ess) \<Rightarrow> Some (slave_did effs (ho_slave s) ess s) | None \<Rightarrow> None
      else None)"
| "ho_exec q HE_Slave_Learn s =
     (case ho_sflying s of
        plm # plms \<Rightarrow>
          if plm = SSP_Split (SRM_AbortedPLm q) then None
          else (case shard_handle_plm plm (ho_slave s) (ho_ess s) of
                  Some (effs, c, ess) \<Rightarrow> Some (slave_did effs c ess (s\<lparr>ho_sflying := plms, ho_slog := ho_slog s @ [plm]\<rparr>))
                | None \<Rightarrow> None)
      | [] \<Rightarrow> None)"

fun ho_execs :: "query_id \<Rightarrow> 'm ho_event list \<Rightarrow> 'm handover \<Rightarrow> 'm handover option" where
  "ho_execs q [] s = Some s"
| "ho_execs q (e # es) s = (case ho_exec q e s of Some s' \<Rightarrow> ho_execs q es s' | None \<Rightarrow> None)"

lemma effects_code [code]:
  "sends effs = set (concat (map (\<lambda>eff. case eff of Send_Snapshot _ _ m \<Rightarrow> [m] | _ \<Rightarrow> []) effs))"
  "confirms seffs = set (concat (map (\<lambda>eff. case eff of SE_Confirm path _ qid \<Rightarrow> [(path, qid)] | _ \<Rightarrow> []) seffs))"
  "creates seffs = set (concat (map (\<lambda>eff. case eff of SE_Create_Tablet qid td \<Rightarrow> [(qid, td)] | _ \<Rightarrow> []) seffs))"
  by (force simp: sends_def confirms_def creates_def split: snap_effect.splits shard_effect.splits)+

lemma ho_exec_step:
  assumes "ho_exec q e s = Some s'"
  shows "ho_step q target s s'"
proof (cases e)
  case (HE_Confirmed qid)
  with assms show ?thesis by (auto split: option.splits if_splits prod.splits intro: ho_step.tablet_confirmed)
next
  case HE_Tablet_Learn
  with assms show ?thesis by (auto split: option.splits list.splits prod.splits intro: ho_step.tablet_learn)
next
  case (HE_RM_Message msg)
  with assms show ?thesis by (auto split: option.splits if_splits intro: ho_step.slave_rm_message)
next
  case (HE_Snapshot m)
  with assms show ?thesis by (auto split: option.splits if_splits intro: ho_step.slave_snapshot)
next
  case HE_Slave_Learn
  with assms show ?thesis by (auto split: option.splits list.splits if_splits intro: ho_step.slave_learn)
qed

lemma ho_execs_steps: "ho_execs q es s = Some s' \<Longrightarrow> (ho_step q target)\<^sup>*\<^sup>* s s'"
  by (induction es arbitrary: s) (auto split: option.splits intro: ho_exec_step converse_rtranclp_into_rtranclp)

section \<open>An example\<close>

text \<open>A tablet with the rows 1 and 9 whose keys from 7 on go to a new tablet \<open>new\<close> of the group \<open>u\<close>.\<close>

definition hx_target :: st_range where
  "hx_target = \<lparr>st_sid = ''u'', st_tid = ''new'', st_key_range = \<lparr>kr_start = Some (CV_Int 7), kr_end = None\<rparr>\<rparr>"

definition hx_storage :: generic_mv_table where
  "hx_storage = [(([CV_Int 1], None), [(mk_t 1, Some (CV_Int 1))]), (([CV_Int 9], None), [(mk_t 1, Some (CV_Int 1))])]"

definition hx_leaders :: leader_map where
  "hx_leaders = [(SlaveGid ''s'', mk_first dx_eid), (SlaveGid ''u'', mk_first dx_eid)]"

definition hx_tablet :: ddl_tablet where
  "hx_tablet =
     (let td = dx_tablet dx_rm in td\<lparr>this_sharding_gen := 1, td_tablet := (td_tablet td)\<lparr>t_storage := hx_storage, t_leader_map := hx_leaders\<rparr>\<rparr>)"

definition hx_slave :: slave_ctx where
  "hx_slave = \<lparr>sl_this_sid = ''u'', sl_this_eid = dx_eid, sl_leader_map = vv_new hx_leaders, sl_suffix_divisor = 1\<rparr>"

definition hx_rm :: shard_split_rm_es where
  "hx_rm =
     (let prepared = \<lparr>sp_query_id = ''q'', sp_rm = SNP_Slave ''u'', sp_payload = ()\<rparr>
      in \<lparr>sr_query_id = ''q'', sr_tm = (), sr_follower = Some prepared, sr_state = RS_Prepared prepared, sr_inner = ()\<rparr>)"

definition hx_pre :: "unit handover" where
  "hx_pre =
     \<lparr>ho_tablet = hx_tablet, ho_fq = [], ho_es = None, ho_flying = [], ho_moved = None, ho_slave = hx_slave,
      ho_ess = \<lparr>shard_split_rm_ess = [(''q'', (None, hx_rm))], shard_pending_ess = [], pending_shards = []\<rparr>,
      ho_sflying = [], ho_slog = [], ho_created = {}, to_slave = {}, to_tablet = {}\<rparr>"

definition hx_start :: "unit handover" where
  "hx_start = (case create_split hx_tablet [] ''q'' hx_target of Some (effs, es) \<Rightarrow> tablet_did effs es hx_pre | None \<Rightarrow> hx_pre)"

definition hx_message :: sharding_message where
  "hx_message = mk_sharding_message hx_tablet \<lparr>sn_query_id = ''q'', sn_target = hx_target, sn_is_new = False, sn_state = SS_Follower\<rparr> (drop 1 hx_storage)"

definition hx_run :: "unit ho_event list" where
  "hx_run =
     [HE_RM_Message (STM_Commit ''q'' () \<lparr>sc_sharding_gen = 1, sc_target_old = hx_target, sc_target_new = hx_target\<rparr>),
      HE_Snapshot hx_message, HE_Slave_Learn, HE_Slave_Learn, HE_Confirmed ''q'', HE_Tablet_Learn]"

lemma hx_creates: "create_split hx_tablet [] ''q'' hx_target \<noteq> None"
  by code_simp

lemma hx_init: "ho_init ''q'' hx_target hx_start"
proof -
  from hx_creates obtain effs es where cs: "create_split hx_tablet [] ''q'' hx_target = Some (effs, es)" by auto
  have "held hx_rm" "sr_query_id hx_rm = ''q''" by (simp_all add: hx_rm_def held_def Let_def)
  then show ?thesis unfolding ho_init_def
    by (intro conjI exI [of _ effs] exI [of _ es] exI [of _ hx_pre])
      (auto simp: hx_start_def cs hx_pre_def tablet_did_def proper_def ess_msgs_def split: if_splits)
qed

lemma hx_run_moves:
  "case ho_execs ''q'' hx_run hx_start of Some s \<Rightarrow> ho_moved s = Some (hx_storage, take 1 hx_storage) | None \<Rightarrow> False"
  by code_simp

section \<open>No row is lost\<close>

text \<open>
  C8: When the old tablet of a split has deleted the rows of the new range, the slave has logged a snapshot and created
  the new tablet with the right id and range, and together the two tablets hold exactly what the old one held: the new tablet
  all rows of its range, the old tablet all others. This holds over a network that loses, delays, duplicates
  and reorders, with changes of leadership of both groups at any time and with splits of other tablets around. It is under
  three conditions on the rest of the system, which are part of \<open>ho_init\<close> and \<open>ho_step\<close>: no confirmation of an earlier split
  of this tablet is on its way; once no write of the old sharding generation is pending, the rest of the tablet leaves the
  range that moves alone (\<open>tablet_works\<close>); and the slave, which is prepared, does not abort a split that the tablet has committed.
\<close>

theorem shard_handover_keeps_rows:
  assumes "ho_reachable q target s" and "ho_moved s = Some (before, after)"
    and wf: "bm_wf before" and keys: "\<forall>key \<in> fst ` set before. fst key \<noteq> []"
  shows "\<exists>new m. (q, new) \<in> ho_created s \<and> SSP_Snapshot m \<in> set (ho_slog s) \<and> sm_query_id m = q \<and>
    sh_storage (sm_snapshot m) = t_storage (td_tablet new) \<and> t_this_tid (td_tablet new) = st_tid target \<and> this_tablet_key_range new = st_key_range target \<and>
    before = after @ t_storage (td_tablet new) \<and>
    (\<forall>key \<in> fst ` set (t_storage (td_tablet new)). range_contains_pkey (st_key_range target) (fst key)) \<and>
    (\<forall>key \<in> fst ` set after. \<not> range_contains_pkey (st_key_range target) (fst key))"
proof -
  note r = moved_rows [OF ho_reachable_ok [OF assms(1)] assms(2)]
  then obtain new m where new: "(q, new) \<in> ho_created s" and m: "SSP_Snapshot m \<in> set (ho_slog s)" "sm_query_id m = q"
    by (auto simp: logged_def)
  from r have rr: "remove_range before (st_key_range target) = (after, [])" by simp
  from r new have inside: "compute_range_storage before (st_key_range target) = Some (t_storage (td_tablet new))"
    and td: "t_this_tid (td_tablet new) = st_tid target" "this_tablet_key_range new = st_key_range target" by blast+
  from r m have "compute_range_storage before (st_key_range target) = Some (sh_storage (sm_snapshot m))" by blast
  with inside have sh: "sh_storage (sm_snapshot m) = t_storage (td_tablet new)" by simp
  note split = range_storage_split [OF wf keys inside rr]
  have "\<not> range_contains_pkey (st_key_range target) (fst key)" if "key \<in> fst ` set after" for key
  proof
    assume rng: "range_contains_pkey (st_key_range target) (fst key)"
    from that obtain v where v: "(key, v) \<in> set after" by auto
    with split(1) have "(key, v) \<in> set before" by auto
    with rng split(2) have "(key, v) \<in> set (t_storage (td_tablet new))" by blast
    with v bm_wf_distinct [OF wf] show False unfolding split(1) by force
  qed
  moreover have "range_contains_pkey (st_key_range target) (fst key)" if "key \<in> fst ` set (t_storage (td_tablet new))" for key
    using that split(2) by force
  moreover have "before = after @ t_storage (td_tablet new)" using split(1) by simp
  ultimately show ?thesis using new m sh td by blast
qed

theorem shard_handover_keeps_rows_witness:
  "\<exists>(s :: unit handover) new. ho_reachable ''q'' hx_target s \<and> ho_moved s = Some (hx_storage, take 1 hx_storage) \<and> (''q'', new) \<in> ho_created s \<and>
     hx_storage = take 1 hx_storage @ t_storage (td_tablet new)"
proof -
  from hx_run_moves obtain s where run: "ho_execs ''q'' hx_run hx_start = Some s" and moved: "ho_moved s = Some (hx_storage, take 1 hx_storage)"
    by (auto split: option.splits)
  have reach: "ho_reachable ''q'' hx_target s" unfolding ho_reachable_def using hx_init ho_execs_steps [OF run] by blast
  have "bm_wf hx_storage" by code_simp
  moreover have "\<forall>key \<in> fst ` set hx_storage. fst key \<noteq> []" by code_simp
  ultimately obtain new m where "(''q'', new) \<in> ho_created s" "hx_storage = take 1 hx_storage @ t_storage (td_tablet new)"
    using shard_handover_keeps_rows [OF reach moved] by metis
  with reach moved show ?thesis by - (intro exI [of _ s] exI [of _ new] conjI)
qed

section \<open>The next split of the tablet\<close>

















end
