(* ===== verification/Spec2Isabelle.thy ===== *)
theory Spec2Isabelle
  imports Storage_Views Schema Paxos_Purge Paxos_Driver Free_Node_Manager Network_Driver
    Tablet_Callbacks Master_Theorems Split_Theorems
begin

text \<open>
  Verification of the core of rUniversalDB, a distributed transactional SQL database (\<open>src/src/\<close>).

  \<^bold>\<open>The program.\<close> Nodes form Paxos groups: one master group and any number of slave groups. Every group
  replicates a log of bundles with the driver of \<open>paxos.rs\<close>; a node acts on a bundle only when it learns it. A slave
  group holds tablets, each of them a range of the keys of a table, and coordinators, which run queries and transactions.
  The leader of a group sends messages to other groups through \<open>network_driver.rs\<close>, which drops or holds back
  what comes from a leadership that is out of date or not known yet. A transaction reads and writes the multi-versioned
  storage of the tablets (\<open>storage.rs\<close>) at one timestamp; the Region Isolation Algorithm of \<open>tablet.rs\<close> keeps
  reads and writes apart, and the transaction is committed by two-phase commit over Paxos groups
  (\<open>paxos2pc_tm.rs\<close>, \<open>paxos2pc_rm.rs\<close>, with the callbacks of \<open>finish_query_*_es.rs\<close>). The master owns the
  schema and the shards of the tables. It spreads them as gossip data, admits schema changes one per table
  (\<open>master.rs\<close>) and runs them by a second commit protocol (\<open>stmpaxos2pc_tm.rs\<close>, \<open>stmpaxos2pc_rm.rs\<close>) with
  the callbacks of \<open>{alter,drop,create}_table_*_es.rs\<close> and \<open>shard_split_*_es.rs\<close>. After a split the old tablet
  hands the rows of the new range to the new group (\<open>shard_snapshot_es.rs\<close>, \<open>shard_pending_es.rs\<close>).

  \<^bold>\<open>Conventions.\<close> A struct is a record, an enum a datatype, a state machine (\<open>ES\<close>) a record with a state
  of the constructors of its Rust enum. A \<open>BTreeMap\<close> is a list sorted by its keys, with the laws of the locale
  \<open>ordered_map\<close>, since the code depends on the order of iteration. A method with \<open>&mut self\<close> takes the state
  and returns it; what it sends, and what it puts into the next bundle, is a list of effects or an output field of
  the context. A panic is \<open>None\<close>: a failed \<open>debug_assert\<close> (both profiles of \<open>Cargo.toml\<close> keep them), an
  \<open>unwrap\<close> of a missing value, and an overflow of the arithmetic. The latter is a panic in the development profile, which is the
  build modelled here; the release profile has no overflow checks and wraps around. A recoverable error is a constructor of \<open>outcome\<close>. Random numbers and clock readings are streams or functions of the context. Traits with
  several implementations (\<open>Paxos2PCRMInner\<close>, \<open>STMPaxos2PCTMInner\<close>, ...) are records of callbacks.

  \<^bold>\<open>Data and storage.\<close>
  \<^item> \<open>Prelude\<close>: sorted maps and sets, checked machine arithmetic, results.
  \<^item> \<open>Common\<close>, \<open>Sql_Ast\<close>, \<open>Schema\<close> (\<open>common.rs\<close>, \<open>sql_ast.rs\<close>): identifiers, column values with
    their order, timestamps of 192 bits, ranges, bounds and regions, table views, schemas, gossip data and leader maps.
    Timestamp addition is exact or panics; merging table views adds up the multiplicities of rows, which are 64-bit numbers, or
    panics; what an update of the leader map keeps and replaces.
  \<^item> \<open>Multiversion_Map\<close> (\<open>multiversion_map.rs\<close>): what was read at a timestamp stays so under any later
    calls (locale \<open>versioned_store\<close>), when a write is accepted, and what the derived readings return.
  \<^item> \<open>Expression\<close>, \<open>Key_Bounds\<close> (\<open>expression.rs\<close>): evaluation of expressions with its panics; the algebra
    of bounds is exact (locale \<open>bound_trait\<close>, for the three column types); the key region that is computed for
    a \<open>WHERE\<close> clause contains every key the clause accepts.
  \<^item> \<open>Storage\<close>, \<open>Storage_Scan\<close>, \<open>Storage_Views\<close> (\<open>storage.rs\<close>): scans with early exit compute the
    pointwise reading of the cells; commits are invisible before their timestamp; the view under pending updates is the
    view of the storage that will be committed; an isolated write does not change what a region reads; a range splits
    storage into three parts.

  \<^bold>\<open>Consensus and messages.\<close>
  \<^item> \<open>Paxos\<close>, \<open>Paxos_Driver\<close> (\<open>paxos.rs\<close>): every handler of the driver, the timers, the insertion of bundles
    and reconfigurations; what a single driver guarantees.
  \<^item> \<open>Synod\<close>, \<open>Synod_Safety\<close>: the abstract protocol at one index of the log, where rounds are chosen at random
    and carry no node name, and its agreement (locale \<open>quorum_voting\<close>).
  \<^item> \<open>Paxos_System\<close>, \<open>Paxos_Agreement\<close>, \<open>Paxos_Purge\<close>: drivers on a network that loses, delays and reorders.
    At every index they refine the abstract protocol; the delivered logs agree, hold only what was inserted, and
    forgotten instances have been delivered everywhere. The configuration of the group is fixed here.
  \<^item> \<open>Network_Driver\<close> (\<open>network_driver.rs\<close> and its callers in \<open>slave.rs\<close>): messages of another group are
    delivered in order, without gaps and never from a leadership older than one already heard.
  \<^item> \<open>Free_Node_Manager\<close> (\<open>free_node_manager.rs\<close>): \<open>process\<close> returns, and which nodes it hands out when every free node has
    been heard of since the leader took over. (When one has not, the code may hand it out against its own comment; no theorem
    is about that case.)

  \<^bold>\<open>Transactions at a tablet.\<close>
  \<^item> \<open>Paxos2PC\<close>, \<open>Paxos2PC_Contract\<close>: the first commit protocol, for any callbacks. The locales \<open>rm_contract\<close>
    and \<open>rm_replica\<close> say what a resource manager needs of its callbacks and promises in return.
  \<^item> \<open>Tablet\<close>, \<open>Finish_Query\<close>: the state of the isolation algorithm, requests, the main loop, changes of leadership,
    snapshots, and the learning of three of the seven kinds of log entries: column locks, protected reads and the commit protocol of
    transactions. The entries of schema changes and splits are modelled with these, below, and not in the log of the tablet.
  \<^item> \<open>Tablet_Isolation\<close>, \<open>Tablet_Main_Loop\<close>, \<open>Tablet_Commit\<close>: the loop ends and grants only isolated reads;
    the callbacks satisfy the contract.
  \<^item> \<open>Tablet_Safety\<close>, \<open>Tablet_Steps\<close>, \<open>Tablet_Replicas\<close>, \<open>Tablet_Theorems\<close>: a tablet as a step relation. In
    every run protected reads are repeatable and followers agree with the leader. A schema change is a step that may change the
    schema; the deletion of rows after a split is not a step here, and update views are assumed to lie in the write region of their transaction.
  \<^item> \<open>Tablet_Callbacks\<close>: the main loop and the learning of a bundle with the execution states they inform
    (\<open>execute_once\<close>). These are a parameter, a reaction to what they are told, which must not panic itself, may act on the
    tablet by its local steps only, and must not ask for ever (\<open>replies_ok\<close>). Then the main loop ends, and neither it nor the learned transaction
    entries panic.

  \<^bold>\<open>Schema changes.\<close>
  \<^item> \<open>Stm2PC\<close>, \<open>Stm_System\<close>, \<open>Stm_Atomicity\<close>: the second commit protocol, for any callbacks, on a network
    that also duplicates, with takeovers of every group. Under the contract \<open>stm_app\<close> a statement commits everywhere
    with the same commit or aborts everywhere.
  \<^item> \<open>Ddl_Master\<close>, \<open>Ddl_Tablet\<close>, \<open>Ddl_Protocol\<close>, \<open>Ddl_Theorems\<close>: the callbacks of the four statements
    and the containers of their state machines, four interpretations of \<open>stm_app\<close>, and their atomicity.
  \<^item> \<open>Master_Ddl\<close> (\<open>master.rs\<close>: \<open>handle_input\<close> for external requests, \<open>validate_ddl_query\<close>,
    \<open>simple_partition\<close>, \<open>advance_ddl_sharding_ess\<close>): the admission of statements.
  \<^item> \<open>Master_Exclusion\<close>: at most one statement per table is started, for each kind of statement by the locale
    \<open>table_statement\<close>; the main loop returns and is idempotent.
  \<^item> \<open>Ddl_Gossip\<close>, \<open>Master_Theorems\<close>: an invariant of the gossip data that every change keeps. The shards of
    a table partition its keys, and a statement that was admitted can be applied later, after other tables have changed.
  \<^item> \<open>Shard_Handover\<close>, \<open>Handover_Safety\<close>, \<open>Split_Theorems\<close>: the hand-over of rows after a split loses
    none, under the assumptions below, one of which is that no confirmation of an earlier split of the tablet is under way; after any
    completed split, the next one can delete rows too early because of such a confirmation.

  \<^bold>\<open>Bounds and loops.\<close> No definition uses fuel. Loops are recursion over the data, or have a measure: the
  number of learned instances, of buffered messages, of indices to inform about, of free nodes. The last one needs a
  positive \<open>slave_group_size\<close>; with 0 the loop of \<open>process\<close> never ends and the model returns \<open>None\<close>. The main loop
  of a tablet is a partial function, and \<open>main_loop_settles\<close> shows that it returns (for execution states as above). Integers keep their width
  where they are checked; generations and log indices are natural numbers, as no run reaches their bounds.

  \<^bold>\<open>Assumptions of the systems.\<close> A group is represented by its leader and its log in the theorems on commit
  protocols and tablets, which the agreement of the logs justifies: what was learned is kept by whoever takes over, what
  was only pushed may be lost. In the hand-over, the rest of the tablet leaves the range that moves alone once no
  write of the old sharding generation is pending, and admits no such write any more (\<open>tablet_works\<close>); the group of the
  new tablet is prepared once for a split and does not abort it.

  \<^bold>\<open>Not modelled.\<close> Query planning and the execution of subqueries (\<open>query_planning.rs\<close>, \<open>col_usage.rs\<close>,
  \<open>gr_query_es.rs\<close>, \<open>join_read_es.rs\<close>, \<open>ms_query_coord_es.rs\<close>, \<open>trans_table_read_es.rs\<close>, ...), which build on
  the storage views above; the parser and the conversion of queries (\<open>sql_parser.rs\<close>, \<open>query_converter.rs\<close>), a
  translation of the syntax trees of another crate; the creation and reconfiguration of slave groups
  (\<open>slave_group_create_es.rs\<close>, \<open>slave_reconfig_es.rs\<close>); the dispatch of messages in \<open>slave.rs\<close>, \<open>master.rs\<close>,
  \<open>coord.rs\<close> and \<open>node.rs\<close> where it only calls the parts above; sockets, serialisation, traces and test helpers.
\<close>

end
